(* ===== verification/Anima_Prelude.thy ===== *)
theory Anima_Prelude
  imports Main
    "HOL-Library.Word"
    "HOL-Library.Multiset"
    "HOL-Library.Char_ord"
    "HOL-Library.List_Lexorder"
    "HOL-Library.Product_Lexorder"
begin

text \<open>
  Shared vocabulary of the development: Rust's machine integers, \<open>Result\<close> and the \<open>?\<close>
  operator, panics, byte strings and \<open>str::trim\<close>, \<open>Iterator::min_by_key\<close> and
  \<open>std::cmp::Reverse\<close>, and the lemma collections the component theories draw on.

  A Rust \<open>String\<close> is a sequence of UTF-8 bytes and \<open>len\<close> counts bytes, so it is a
  \<^typ>\<open>string\<close> here: one \<^typ>\<open>char\<close> per byte. Rust orders strings by their bytes, which
  is the lexicographic order of \<open>List_Lexorder\<close> over \<open>Char_ord\<close>.
\<close>

section \<open>Machine integers\<close>

type_synonym u8 = "8 word"
type_synonym u32 = "32 word"
type_synonym u64 = "64 word"
type_synonym u128 = "128 word"
type_synonym uuid = "128 word"

text \<open>
  \<open>i64\<close> timestamps are \<^typ>\<open>int\<close> with the range written out where an operation can leave it;
  \<open>usize\<close> lengths are \<^typ>\<open>nat\<close>.
\<close>

type_synonym i64 = int

definition i64_min :: int where "i64_min = - (2 ^ 63)"
definition i64_max :: int where "i64_max = 2 ^ 63 - 1"

definition is_i64 :: "int \<Rightarrow> bool" where
  "is_i64 x \<longleftrightarrow> i64_min \<le> x \<and> x \<le> i64_max"

definition checked_add_i64 :: "i64 \<Rightarrow> i64 \<Rightarrow> i64 option" where
  "checked_add_i64 a b = (if is_i64 (a + b) then Some (a + b) else None)"

definition checked_add :: "'a::len word \<Rightarrow> 'a word \<Rightarrow> 'a word option" where
  "checked_add a b = (if unat a + unat b < 2 ^ LENGTH('a) then Some (a + b) else None)"

definition saturating_add :: "'a::len word \<Rightarrow> 'a word \<Rightarrow> 'a word" where
  "saturating_add a b = (if unat a + unat b < 2 ^ LENGTH('a) then a + b else - 1)"

definition saturating_sub :: "'a::len word \<Rightarrow> 'a word \<Rightarrow> 'a word" where
  "saturating_sub a b = (if a < b then 0 else a - b)"

definition uuid_is_nil :: "uuid \<Rightarrow> bool" where
  "uuid_is_nil u \<longleftrightarrow> u = 0"

named_theorems arith_defs "checked and saturating machine arithmetic"

declare checked_add_i64_def [arith_defs] checked_add_def [arith_defs]
  saturating_add_def [arith_defs] is_i64_def [arith_defs]
  i64_min_def [arith_defs] i64_max_def [arith_defs]

lemma unat_add_in_range:
  fixes a b :: "'a::len word"
  assumes "unat a + unat b < 2 ^ LENGTH('a)"
  shows "unat (a + b) = unat a + unat b"
  using assms by (simp add: unat_word_ariths)

lemma checked_add_Some_iff:
  "checked_add a b = Some c \<longleftrightarrow> unat c = unat a + unat b"
  for a b c :: "'a::len word"
proof
  assume "checked_add a b = Some c"
  then show "unat c = unat a + unat b"
    by (auto simp: checked_add_def unat_add_in_range split: if_splits)
next
  assume c: "unat c = unat a + unat b"
  then have "unat a + unat b < 2 ^ LENGTH('a)"
    by (metis unsigned_less)
  moreover from this c have "c = a + b"
    by (simp add: unat_add_in_range word_unat_eq_iff)
  ultimately show "checked_add a b = Some c"
    by (simp add: checked_add_def)
qed

lemma checked_add_None_iff:
  "checked_add a b = None \<longleftrightarrow> 2 ^ LENGTH('a) \<le> unat a + unat b"
  for a b :: "'a::len word"
  by (auto simp: checked_add_def)

lemma unat_saturating_add:
  "unat (saturating_add a b) = min (unat a + unat b) (2 ^ LENGTH('a) - 1)"
  for a b :: "'a::len word"
proof (cases "unat a + unat b < 2 ^ LENGTH('a)")
  case True
  then show ?thesis by (simp add: saturating_add_def unat_add_in_range)
next
  case False
  then show ?thesis by (simp add: saturating_add_def unsigned_minus_1_eq_mask mask_eq_exp_minus_1)
qed

lemma saturating_add_ge: "a \<le> saturating_add a b"
  for a b :: "'a::len word"
proof -
  have "unat a < 2 ^ LENGTH('a)" by (rule unsigned_less)
  then have "unat a \<le> unat (saturating_add a b)"
    unfolding unat_saturating_add by linarith
  then show ?thesis by (simp add: word_le_nat_alt)
qed

lemma unat_saturating_sub: "unat (saturating_sub a b) = unat a - unat b"
  for a b :: "'a::len word"
  by (auto simp: saturating_sub_def word_less_nat_alt unat_sub word_le_nat_alt)

section \<open>Results, the \<open>?\<close> operator and panics\<close>

type_synonym ('e, 'a) result = "'e + 'a"

abbreviation Err :: "'e \<Rightarrow> ('e, 'a) result" where "Err \<equiv> Inl"
abbreviation Ok :: "'a \<Rightarrow> ('e, 'a) result" where "Ok \<equiv> Inr"

text \<open>\<open>try_then r k\<close> is \<open>let x = r?; k x\<close>.\<close>

definition try_then :: "('e, 'a) result \<Rightarrow> ('a \<Rightarrow> ('e, 'b) result) \<Rightarrow> ('e, 'b) result" where
  "try_then r k = (case r of Inl e \<Rightarrow> Inl e | Inr x \<Rightarrow> k x)"

definition map_err :: "('e \<Rightarrow> 'f) \<Rightarrow> ('e, 'a) result \<Rightarrow> ('f, 'a) result" where
  "map_err f r = (case r of Inl e \<Rightarrow> Inl (f e) | Inr x \<Rightarrow> Inr x)"

definition is_ok :: "('e, 'a) result \<Rightarrow> bool" where
  "is_ok r = (case r of Inl _ \<Rightarrow> False | Inr _ \<Rightarrow> True)"

definition ok_or :: "'a option \<Rightarrow> 'e \<Rightarrow> ('e, 'a) result" where
  "ok_or v e = (case v of None \<Rightarrow> Inl e | Some x \<Rightarrow> Inr x)"

text \<open>\<open>if bad { return Err(e) }\<close>.\<close>

definition reject_if :: "bool \<Rightarrow> 'e \<Rightarrow> ('e, unit) result" where
  "reject_if bad e = (if bad then Inl e else Inr ())"

text \<open>\<open>for x in xs { f x?; }\<close>: the first error ends the loop.\<close>

fun try_all :: "('a \<Rightarrow> ('e, unit) result) \<Rightarrow> 'a list \<Rightarrow> ('e, unit) result" where
  "try_all f [] = Inr ()"
| "try_all f (x # xs) = try_then (f x) (\<lambda>_. try_all f xs)"

text \<open>
  A function that can panic (\<open>expect\<close>) returns its error wrapped: \<open>Raised e\<close> is a returned
  \<open>Err(e)\<close>, \<open>Panicked\<close> is a panic.
\<close>

datatype 'e crash = Raised 'e | Panicked

definition expect :: "('e, 'a) result \<Rightarrow> ('f crash, 'a) result" where
  "expect r = (case r of Inl _ \<Rightarrow> Inl Panicked | Inr x \<Rightarrow> Inr x)"

definition raised :: "('e, 'a) result \<Rightarrow> ('e crash, 'a) result" where
  "raised = map_err Raised"

text \<open>\<open>map_err\<close> on a result that may also be a panic.\<close>

definition map_raised :: "('e \<Rightarrow> 'f) \<Rightarrow> ('e crash, 'a) result \<Rightarrow> ('f crash, 'a) result" where
  "map_raised f r = map_err (\<lambda>e. case e of Raised x \<Rightarrow> Raised (f x) | Panicked \<Rightarrow> Panicked) r"

lemma try_then_simps [simp]:
  "try_then (Inl e) k = Inl e"
  "try_then (Inr x) k = k x"
  by (simp_all add: try_then_def)

lemma try_then_eq_Inr [simp]:
  "try_then r k = Inr y \<longleftrightarrow> (\<exists>x. r = Inr x \<and> k x = Inr y)"
  by (cases r) simp_all

lemma try_then_eq_Inl:
  "try_then r k = Inl e \<longleftrightarrow> r = Inl e \<or> (\<exists>x. r = Inr x \<and> k x = Inl e)"
  by (cases r) simp_all

lemma map_err_simps [simp]:
  "map_err f (Inl e) = Inl (f e)"
  "map_err f (Inr x) = Inr x"
  "map_err f r = Inr y \<longleftrightarrow> r = Inr y"
  by (cases r; simp add: map_err_def)+

lemma is_ok_simps [simp]:
  "is_ok (Inl e) = False"
  "is_ok (Inr x) = True"
  by (simp_all add: is_ok_def)

lemma is_ok_iff: "is_ok r \<longleftrightarrow> (\<exists>x. r = Inr x)"
  by (cases r) simp_all

text \<open>Checks return \<open>Result<(), E>\<close>; their normal form is the equation \<open>r = Ok ()\<close>.\<close>

lemma is_ok_unit [simp]: "is_ok r \<longleftrightarrow> r = Inr ()" for r :: "('e, unit) result"
  by (cases r) simp_all

lemma ok_or_simps [simp]:
  "ok_or None e = Inl e"
  "ok_or (Some x) e = Inr x"
  "ok_or v e = Inr y \<longleftrightarrow> v = Some y"
  by (cases v; simp add: ok_or_def)+

lemma reject_if_simps [simp]:
  "reject_if True e = Inl e"
  "reject_if False e = Inr ()"
  "reject_if b e = Inr u \<longleftrightarrow> \<not> b"
  by (simp_all add: reject_if_def)

lemma try_all_eq_Inr [simp]: "try_all f xs = Inr u \<longleftrightarrow> (\<forall>x \<in> set xs. f x = Inr ())"
  by (induction xs) auto

lemma expect_simps [simp]:
  "expect (Inl e) = Inl Panicked"
  "expect (Inr x) = Inr x"
  "expect r = Inr y \<longleftrightarrow> r = Inr y"
  by (cases r; simp add: expect_def)+

lemma raised_simps [simp]:
  "raised (Inl e) = Inl (Raised e)"
  "raised (Inr x) = Inr x"
  "raised r = Inr y \<longleftrightarrow> r = Inr y"
  "raised r \<noteq> Inl Panicked"
  by (cases r; simp add: raised_def)+

lemma map_raised_simps [simp]:
  "map_raised f (Inl (Raised e)) = Inl (Raised (f e))"
  "map_raised f (Inl Panicked) = Inl Panicked"
  "map_raised f (Inr x) = Inr x"
  "map_raised f r = Inr y \<longleftrightarrow> r = Inr y"
  by (simp_all add: map_raised_def)

lemma map_raised_panicked: "map_raised f r = Inl Panicked \<longleftrightarrow> r = Inl Panicked"
  by (cases r) (auto simp: map_raised_def split: crash.splits)

text \<open>\<open>Option<Result<T, E>>::transpose\<close>.\<close>

definition transpose_result :: "('e, 'a) result option \<Rightarrow> ('e, 'a option) result" where
  "transpose_result v =
     (case v of None \<Rightarrow> Inr None | Some (Inl e) \<Rightarrow> Inl e | Some (Inr x) \<Rightarrow> Inr (Some x))"

lemma transpose_result_simps [simp]:
  "transpose_result None = Inr None"
  "transpose_result (Some (Inl e)) = Inl e"
  "transpose_result (Some (Inr x)) = Inr (Some x)"
  by (simp_all add: transpose_result_def)

text \<open>\<open>Option::is_some_and\<close> and \<open>Option::is_none_or\<close>.\<close>

definition is_some_and :: "'a option \<Rightarrow> ('a \<Rightarrow> bool) \<Rightarrow> bool" where
  "is_some_and v p = (case v of None \<Rightarrow> False | Some x \<Rightarrow> p x)"

definition is_none_or :: "'a option \<Rightarrow> ('a \<Rightarrow> bool) \<Rightarrow> bool" where
  "is_none_or v p = (case v of None \<Rightarrow> True | Some x \<Rightarrow> p x)"

lemma is_some_and_simps [simp]:
  "is_some_and None p = False"
  "is_some_and (Some x) p = p x"
  by (simp_all add: is_some_and_def)

lemma is_none_or_simps [simp]:
  "is_none_or None p = True"
  "is_none_or (Some x) p = p x"
  by (simp_all add: is_none_or_def)

section \<open>Byte strings\<close>

text \<open>
  \<open>str::trim\<close> removes Unicode \<open>White_Space\<close>. The UTF-8 encodings of those characters are one
  byte (09..0D, 20), two bytes (U+0085, U+00A0) or three bytes (U+1680, U+2000..U+200A, U+2028,
  U+2029, U+202F, U+205F, U+3000).
\<close>

definition code :: "char \<Rightarrow> nat" where
  "code c = of_char c"

definition white1 :: "char \<Rightarrow> bool" where
  "white1 a \<longleftrightarrow> (9 \<le> code a \<and> code a \<le> 13) \<or> code a = 32"

definition white2 :: "char \<Rightarrow> char \<Rightarrow> bool" where
  "white2 a b \<longleftrightarrow> code a = 0xC2 \<and> (code b = 0x85 \<or> code b = 0xA0)"

definition white3 :: "char \<Rightarrow> char \<Rightarrow> char \<Rightarrow> bool" where
  "white3 a b c \<longleftrightarrow>
     (code a = 0xE1 \<and> code b = 0x9A \<and> code c = 0x80) \<or>
     (code a = 0xE2 \<and> code b = 0x80 \<and>
        ((0x80 \<le> code c \<and> code c \<le> 0x8A) \<or> code c = 0xA8 \<or> code c = 0xA9 \<or> code c = 0xAF)) \<or>
     (code a = 0xE2 \<and> code b = 0x81 \<and> code c = 0x9F) \<or>
     (code a = 0xE3 \<and> code b = 0x80 \<and> code c = 0x80)"

fun trim_start :: "string \<Rightarrow> string" where
  "trim_start [] = []"
| "trim_start [a] = (if white1 a then [] else [a])"
| "trim_start [a, b] =
     (if white1 a then trim_start [b] else if white2 a b then [] else [a, b])"
| "trim_start (a # b # c # s) =
     (if white1 a then trim_start (b # c # s)
      else if white2 a b then trim_start (c # s)
      else if white3 a b c then trim_start s
      else a # b # c # s)"

text \<open>\<open>value.trim().is_empty()\<close>: nothing is left once leading white space is gone.\<close>

definition blank :: "string \<Rightarrow> bool" where
  "blank s \<longleftrightarrow> trim_start s = []"

definition is_ascii_digit :: "char \<Rightarrow> bool" where
  "is_ascii_digit c \<longleftrightarrow> 48 \<le> code c \<and> code c \<le> 57"

definition is_ascii_alphanumeric :: "char \<Rightarrow> bool" where
  "is_ascii_alphanumeric c \<longleftrightarrow>
     is_ascii_digit c \<or> (65 \<le> code c \<and> code c \<le> 90) \<or> (97 \<le> code c \<and> code c \<le> 122)"

lemma blank_Nil [simp]: "blank []"
  by (simp add: blank_def)

lemma not_blank_graph:
  assumes "32 < code a" and "code a < 128"
  shows "\<not> blank (a # s)"
proof -
  have "\<not> white1 a" "\<And>b. \<not> white2 a b" "\<And>b c. \<not> white3 a b c"
    using assms by (auto simp: white1_def white2_def white3_def)
  then have "trim_start (a # s) = a # s"
    by (cases "a # s" rule: trim_start.cases) auto
  then show ?thesis by (simp add: blank_def)
qed

text \<open>The decimal \<open>Display\<close> form of an unsigned integer.\<close>

definition digit_char :: "nat \<Rightarrow> char" where
  "digit_char d = char_of (48 + d)"

fun show_nat :: "nat \<Rightarrow> string" where
  "show_nat n = (if n < 10 then [digit_char n] else show_nat (n div 10) @ [digit_char (n mod 10)])"

declare show_nat.simps [simp del]

section \<open>Orders: \<open>Reverse\<close> and \<open>min_by_key\<close>\<close>

datatype 'a Reverse = Reverse (unreverse: 'a)

instantiation Reverse :: (linorder) linorder
begin

definition less_eq_Reverse :: "'a Reverse \<Rightarrow> 'a Reverse \<Rightarrow> bool" where
  "less_eq_Reverse a b \<longleftrightarrow> unreverse b \<le> unreverse a"

definition less_Reverse :: "'a Reverse \<Rightarrow> 'a Reverse \<Rightarrow> bool" where
  "less_Reverse a b \<longleftrightarrow> unreverse b < unreverse a"

instance
  by standard (auto simp: less_eq_Reverse_def less_Reverse_def intro: Reverse.expand)

end

text \<open>\<open>Iterator::min_by_key\<close> returns the first of the elements with the least key.\<close>

fun min_by_key :: "('a \<Rightarrow> 'k::linorder) \<Rightarrow> 'a list \<Rightarrow> 'a option" where
  "min_by_key key [] = None"
| "min_by_key key (x # xs) =
     (case min_by_key key xs of
        None \<Rightarrow> Some x
      | Some y \<Rightarrow> if key x \<le> key y then Some x else Some y)"

lemma min_by_key_None_iff [simp]: "min_by_key key xs = None \<longleftrightarrow> xs = []"
  by (cases xs) (auto split: option.splits)

lemma min_by_key_Some:
  "min_by_key key xs = Some m \<Longrightarrow> m \<in> set xs \<and> (\<forall>x \<in> set xs. key m \<le> key x)"
proof (induction xs arbitrary: m)
  case Nil
  then show ?case by simp
next
  case (Cons x xs)
  show ?case
  proof (cases "min_by_key key xs")
    case None
    with Cons.prems show ?thesis by simp
  next
    case (Some y)
    from Cons.IH [OF Some] Cons.prems Some show ?thesis
      by (auto split: if_splits)
  qed
qed

lemma min_by_key_in: "min_by_key key xs = Some m \<Longrightarrow> m \<in> set xs"
  by (simp add: min_by_key_Some)

text \<open>
  A choice is independent of the order of its input when the key separates the elements: the
  contract between a key function and the identity by which a caller keeps the input unique.
\<close>

locale separating_key =
  fixes key :: "'a \<Rightarrow> 'k::linorder" and ident :: "'a \<Rightarrow> 'i"
  assumes key_ident: "key x = key y \<Longrightarrow> ident x = ident y"
begin

lemma least_unique:
  assumes "distinct (map ident xs)" and "m \<in> set xs" and "n \<in> set xs"
    and "\<And>x. x \<in> set xs \<Longrightarrow> key m \<le> key x" and "\<And>x. x \<in> set xs \<Longrightarrow> key n \<le> key x"
  shows "m = n"
proof -
  have "key m = key n" using assms by (simp add: order_antisym)
  then have "ident m = ident n" by (rule key_ident)
  moreover have "inj_on ident (set xs)" using assms(1) by (simp add: distinct_map)
  ultimately show ?thesis using assms(2,3) by (simp add: inj_on_eq_iff)
qed

lemma choice_perm:
  assumes "mset xs = mset ys" and "distinct (map ident xs)"
  shows "min_by_key key xs = min_by_key key ys"
proof (cases "min_by_key key xs")
  case None
  with assms(1) show ?thesis by simp
next
  case (Some m)
  with assms(1) have "ys \<noteq> []" by auto
  then obtain n where n: "min_by_key key ys = Some n"
    by (cases "min_by_key key ys") auto
  have set_eq: "set xs = set ys" using assms(1) by (rule mset_eq_setD)
  have "m = n"
    using least_unique [OF assms(2)] min_by_key_Some [OF Some] min_by_key_Some [OF n] set_eq
    by simp
  with Some n show ?thesis by simp
qed

end

section \<open>Validated construction and wire formats\<close>

text \<open>
  Every persisted value of the runtime is built and loaded the same way: \<open>new\<close> and
  \<open>Deserialize\<close> both check \<open>validate\<close> before they hand the value out. \<open>checked\<close> is that
  last step of a constructor.
\<close>

definition checked :: "('a \<Rightarrow> ('e, unit) result) \<Rightarrow> 'a \<Rightarrow> ('e, 'a) result" where
  "checked validate v = try_then (validate v) (\<lambda>_. Ok v)"

lemma checked_eq_Inr [simp]: "checked validate v = Inr w \<longleftrightarrow> validate v = Inr () \<and> w = v"
  by (auto simp: checked_def)

text \<open>
  The contract of a wire format: \<open>wire\<close> is what the serializer writes, \<open>load\<close> what the
  deserializer makes of it, \<open>valid\<close> what the constructors establish. A loaded value is valid
  and a valid value survives the round trip; so serializing after loading changes nothing.
\<close>

locale wire_format =
  fixes wire :: "'a \<Rightarrow> 'w" and load :: "'w \<Rightarrow> ('e, 'a) result" and valid :: "'a \<Rightarrow> bool"
  assumes load_valid: "load w = Inr v \<Longrightarrow> valid v"
    and load_wire: "valid v \<Longrightarrow> load (wire v) = Inr v"
begin

lemma wire_inj: "valid v \<Longrightarrow> valid v' \<Longrightarrow> wire v = wire v' \<Longrightarrow> v = v'"
  by (metis load_wire sum.inject(2))

lemma reload: "load w = Inr v \<Longrightarrow> load (wire v) = Inr v"
  by (blast intro: load_valid load_wire)

lemma load_range: "(\<exists>w. load w = Inr v) \<longleftrightarrow> valid v"
  by (blast intro: load_valid load_wire)

end

end
