(* ===== verification/Capability.thy ===== *)
theory Capability
  imports Anima_Prelude
begin

text \<open>
  The portable capability vocabulary of \<open>anima-core/src/capability.rs\<close> and its submodules
  \<open>manifest.rs\<close> and \<open>invocation.rs\<close>: manifests and profiles with the catalog that registers
  them, argument bounds, the identity of a logical invocation and of its attempts, and durable
  result records.

  Three crates outside the repository are used here: \<open>uuid\<close> (\<open>Uuid::new_v5\<close>, \<open>Display\<close>),
  \<open>serde_jcs\<close>/\<open>serde_json\<close> (canonical JSON encoding and parsing) and \<open>sha2\<close>/\<open>hex\<close>. They
  are the fields of a record of functions that every definition using them takes as an argument.
\<close>

section \<open>Data\<close>

datatype CapabilityKind = Knowledge | Workspace | Communication | Automation | Custom

text \<open>\<open>RiskLevel::None\<close> is \<open>NoRisk\<close> here, \<open>RecoveryMode::None\<close> is \<open>NoRecovery\<close>: \<open>None\<close> is HOL's.\<close>

datatype RiskLevel = NoRisk | Low | Medium | High | Critical

datatype RecoveryMode =
    InherentlyIdempotent | KeyedIdempotent | Reconcilable | NonRetryable
  | NoRecovery | Retry | Compensate | Manual

text \<open>
  A JSON document as \<open>serde_json::Value\<close> has it; a number is kept as its text and an object as
  its entries in iteration order.
\<close>

datatype json =
    JNull
  | JBool bool
  | JNumber string
  | JString string
  | JArray "json list"
  | JObject "(string \<times> json) list"

record RuntimeCompatibility =
  minimum_runtime_schema_version :: u32
  maximum_runtime_schema_version :: u32
  manifest_schema_version :: u32

record CapabilityManifest =
  cm_id :: string
  cm_version :: u32
  cm_kind :: CapabilityKind
  cm_label :: string
  cm_description :: string
  cm_input_schema :: json
  cm_output_schema :: json
  cm_side_effects :: bool
  cm_risk_level :: RiskLevel
  cm_host_permissions :: "string list"
  cm_secret_references :: "string list"
  cm_environment_requirements :: "string list"
  cm_timeout_ms :: u64
  cm_cancellation_supported :: bool
  cm_max_retries :: u32
  cm_idempotent :: bool
  cm_recovery_mode :: RecoveryMode
  cm_supports_streaming :: bool
  cm_supports_artifacts :: bool
  cm_supports_citations :: bool
  cm_schema_digest :: string
  cm_compatibility :: RuntimeCompatibility

record CapabilityProfileEntry =
  cpe_capability_id :: string
  cpe_manifest_version :: u32

record CapabilityProfile =
  cp_id :: string
  cp_version :: u32
  cp_label :: string
  cp_description :: string
  cp_entries :: "CapabilityProfileEntry list"

datatype ManifestCatalogError =
    DuplicateManifest string u32
  | DuplicateProfile string u32
  | UnknownManifest string u32
  | InvalidManifestId
  | InvalidManifestVersion
  | InvalidManifestSchemaVersion
  | InvalidSchemaDigest
  | InvalidSecretReferenceName
  | TooManySecretReferences
  | InvalidRuntimeCompatibility
  | InvalidProfileId
  | InvalidProfileVersion
  | DuplicateProfileCapabilityId string

datatype LogicalInvocationError =
    ArgumentsTooLarge | ArgumentsTooDeep | ArgumentsTooManyNodes
  | CanonicalizationFailed | IdentifierTooLarge

definition CAPABILITY_INVOCATION_NAMESPACE :: uuid where
  "CAPABILITY_INVOCATION_NAMESPACE = 0x43a6aa38239d5bf5963d45dc8731c2ef"
definition MAX_CAPABILITY_SCHEMA_PAIR_BYTES :: nat where
  "MAX_CAPABILITY_SCHEMA_PAIR_BYTES = 64 * 1024"
definition MAX_CAPABILITY_ARGUMENT_BYTES :: nat where
  "MAX_CAPABILITY_ARGUMENT_BYTES = 64 * 1024"
definition MAX_CAPABILITY_ARGUMENT_DEPTH :: nat where
  "MAX_CAPABILITY_ARGUMENT_DEPTH = 64"
definition MAX_CAPABILITY_ARGUMENT_NODES :: nat where
  "MAX_CAPABILITY_ARGUMENT_NODES = 10000"
definition MAX_CAPABILITY_ID_BYTES :: nat where
  "MAX_CAPABILITY_ID_BYTES = 256"
definition MAX_CAPABILITY_SECRET_REFERENCES :: nat where
  "MAX_CAPABILITY_SECRET_REFERENCES = 65535 + 1"

named_theorems capability_consts "the numeric limits of the capability vocabulary"

declare MAX_CAPABILITY_SCHEMA_PAIR_BYTES_def [capability_consts]
  MAX_CAPABILITY_ARGUMENT_BYTES_def [capability_consts]
  MAX_CAPABILITY_ARGUMENT_DEPTH_def [capability_consts]
  MAX_CAPABILITY_ARGUMENT_NODES_def [capability_consts]
  MAX_CAPABILITY_ID_BYTES_def [capability_consts]
  MAX_CAPABILITY_SECRET_REFERENCES_def [capability_consts]

text \<open>The seed of an invocation identity (\<open>LogicalInvocationSeed\<close>).\<close>

record LogicalInvocationSeed =
  seed_run_id :: uuid
  seed_logical_step_id :: string
  seed_capability_id :: string
  seed_manifest_version :: u32
  seed_normalized_arguments :: json

text \<open>
  The functions of other crates: \<open>new_v5\<close> hashes a name into a namespace, \<open>uuid_display\<close> is
  the hyphenated text form, \<open>jcs_json\<close> and \<open>json_parse\<close> are \<open>serde_jcs::to_vec\<close> and
  \<open>serde_json::from_slice\<close> on values, \<open>jcs_schema_pair\<close> and \<open>jcs_versioned_seed\<close> encode the
  two structs \<open>SchemaPair\<close> and \<open>VersionedSeed\<close> (the string is its \<open>format\<close> field), \<open>sha256\<close>
  is the raw digest and \<open>hex_encode\<close> the lower-case hexadecimal form of bytes.
\<close>

record capability_lib =
  new_v5 :: "uuid \<Rightarrow> string \<Rightarrow> uuid"
  uuid_display :: "uuid \<Rightarrow> string"
  jcs_json :: "json \<Rightarrow> string option"
  json_parse :: "string \<Rightarrow> json option"
  jcs_schema_pair :: "json \<Rightarrow> json \<Rightarrow> string option"
  jcs_versioned_seed :: "string \<Rightarrow> LogicalInvocationSeed \<Rightarrow> string option"
  sha256 :: "string \<Rightarrow> string"
  hex_encode :: "string \<Rightarrow> string"

section \<open>Manifests\<close>

definition schema_digest_for ::
  "'x capability_lib_scheme \<Rightarrow> json \<Rightarrow> json \<Rightarrow> (ManifestCatalogError, string) result" where
  "schema_digest_for L input_schema output_schema =
     try_then (ok_or (jcs_schema_pair L input_schema output_schema) InvalidSchemaDigest) (\<lambda>bytes.
       if length bytes > MAX_CAPABILITY_SCHEMA_PAIR_BYTES then Err InvalidSchemaDigest
       else Ok (''sha256:'' @ hex_encode L (sha256 L bytes)))"

definition is_valid_secret_reference_name :: "string \<Rightarrow> bool" where
  "is_valid_secret_reference_name name \<longleftrightarrow>
     name \<noteq> [] \<and> length name \<le> 64 \<and>
     (\<forall>b \<in> set name. (97 \<le> code b \<and> code b \<le> 122) \<or> is_ascii_digit b \<or> b = CHR ''-'')"

text \<open>The loop over the secret names with the set of names seen so far.\<close>

fun check_secret_names :: "string set \<Rightarrow> string list \<Rightarrow> (ManifestCatalogError, unit) result" where
  "check_secret_names seen [] = Ok ()"
| "check_secret_names seen (name # names) =
     (if \<not> is_valid_secret_reference_name name \<or> name \<in> seen then Err InvalidSecretReferenceName
      else check_secret_names (insert name seen) names)"

definition validate_manifest ::
  "'x capability_lib_scheme \<Rightarrow> CapabilityManifest \<Rightarrow> (ManifestCatalogError, unit) result" where
  "validate_manifest L m =
     (let comp = cm_compatibility m in
      if blank (cm_id m) \<or> length (cm_id m) > MAX_CAPABILITY_ID_BYTES then Err InvalidManifestId
      else if cm_version m = 0 then Err InvalidManifestVersion
      else if manifest_schema_version comp = 0 then Err InvalidManifestSchemaVersion
      else if (case schema_digest_for L (cm_input_schema m) (cm_output_schema m) of
                 Inl _ \<Rightarrow> True | Inr digest \<Rightarrow> digest \<noteq> cm_schema_digest m)
        then Err InvalidSchemaDigest
      else if minimum_runtime_schema_version comp = 0 \<or> maximum_runtime_schema_version comp = 0
           \<or> minimum_runtime_schema_version comp > maximum_runtime_schema_version comp
        then Err InvalidRuntimeCompatibility
      else if length (cm_secret_references m) > MAX_CAPABILITY_SECRET_REFERENCES
        then Err TooManySecretReferences
      else check_secret_names {} (cm_secret_references m))"

text \<open>
  \<open>CapabilityManifest::new\<close> takes every field but the digest, which it computes: the input is
  the record with whatever digest, overwritten.
\<close>

definition CapabilityManifest_new ::
  "'x capability_lib_scheme \<Rightarrow> CapabilityManifest \<Rightarrow> (ManifestCatalogError, CapabilityManifest) result"
where
  "CapabilityManifest_new L input =
     try_then (schema_digest_for L (cm_input_schema input) (cm_output_schema input)) (\<lambda>digest.
       checked (validate_manifest L) (input\<lparr>cm_schema_digest := digest\<rparr>))"

definition with_schemas ::
  "'x capability_lib_scheme \<Rightarrow> CapabilityManifest \<Rightarrow> json \<Rightarrow> json
     \<Rightarrow> (ManifestCatalogError, CapabilityManifest) result" where
  "with_schemas L m input_schema output_schema =
     try_then (schema_digest_for L input_schema output_schema) (\<lambda>digest.
       checked (validate_manifest L)
         (m\<lparr>cm_input_schema := input_schema, cm_output_schema := output_schema,
            cm_schema_digest := digest\<rparr>))"

definition canonical_prefixed_sha256 :: "string \<Rightarrow> string \<Rightarrow> bool" where
  "canonical_prefixed_sha256 value prefix \<longleftrightarrow>
     length value = length prefix + 64 \<and> take (length prefix) value = prefix \<and>
     (\<forall>b \<in> set (drop (length prefix) value). is_ascii_digit b \<or> (97 \<le> code b \<and> code b \<le> 102))"

text \<open>A manifest read back from its wire form (\<open>Deserialize\<close>).\<close>

definition CapabilityManifest_load ::
  "'x capability_lib_scheme \<Rightarrow> CapabilityManifest \<Rightarrow> (ManifestCatalogError, CapabilityManifest) result"
where
  "CapabilityManifest_load L wire =
     try_then (CapabilityManifest_new L wire) (\<lambda>m.
       if \<not> canonical_prefixed_sha256 (cm_schema_digest wire) ''sha256:''
          \<or> cm_schema_digest wire \<noteq> cm_schema_digest m
       then Err InvalidSchemaDigest else Ok m)"

section \<open>The catalog\<close>

record ManifestCatalog =
  cat_manifests :: "string \<times> u32 \<rightharpoonup> CapabilityManifest"
  cat_profiles :: "string \<times> u32 \<rightharpoonup> CapabilityProfile"

definition ManifestCatalog_default :: ManifestCatalog where
  "ManifestCatalog_default = \<lparr>cat_manifests = Map.empty, cat_profiles = Map.empty\<rparr>"

definition catalog_manifest :: "ManifestCatalog \<Rightarrow> string \<Rightarrow> u32 \<Rightarrow> CapabilityManifest option" where
  "catalog_manifest c i v = cat_manifests c (i, v)"

definition catalog_profile :: "ManifestCatalog \<Rightarrow> string \<Rightarrow> u32 \<Rightarrow> CapabilityProfile option" where
  "catalog_profile c i v = cat_profiles c (i, v)"

definition register_manifest ::
  "'x capability_lib_scheme \<Rightarrow> ManifestCatalog \<Rightarrow> CapabilityManifest
     \<Rightarrow> (ManifestCatalogError, ManifestCatalog) result" where
  "register_manifest L c m =
     try_then (validate_manifest L m) (\<lambda>_.
       let key = (cm_id m, cm_version m) in
       if cat_manifests c key \<noteq> None then Err (DuplicateManifest (cm_id m) (cm_version m))
       else Ok (c\<lparr>cat_manifests := (cat_manifests c)(key \<mapsto> m)\<rparr>))"

fun check_entry_ids ::
  "string set \<Rightarrow> CapabilityProfileEntry list \<Rightarrow> (ManifestCatalogError, unit) result" where
  "check_entry_ids seen [] = Ok ()"
| "check_entry_ids seen (e # es) =
     (if cpe_capability_id e \<in> seen then Err (DuplicateProfileCapabilityId (cpe_capability_id e))
      else check_entry_ids (insert (cpe_capability_id e) seen) es)"

definition check_entry_known ::
  "ManifestCatalog \<Rightarrow> CapabilityProfileEntry \<Rightarrow> (ManifestCatalogError, unit) result" where
  "check_entry_known c e =
     reject_if (catalog_manifest c (cpe_capability_id e) (cpe_manifest_version e) = None)
       (UnknownManifest (cpe_capability_id e) (cpe_manifest_version e))"

definition entry_key :: "CapabilityProfileEntry \<Rightarrow> string \<times> u32" where
  "entry_key e = (cpe_capability_id e, cpe_manifest_version e)"

definition register_profile ::
  "ManifestCatalog \<Rightarrow> CapabilityProfile \<Rightarrow> (ManifestCatalogError, ManifestCatalog) result" where
  "register_profile c p =
     (if blank (cp_id p) then Err InvalidProfileId
      else if cp_version p = 0 then Err InvalidProfileVersion
      else try_then (check_entry_ids {} (cp_entries p)) (\<lambda>_.
        let key = (cp_id p, cp_version p) in
        if cat_profiles c key \<noteq> None then Err (DuplicateProfile (cp_id p) (cp_version p))
        else try_then (try_all (check_entry_known c) (cp_entries p)) (\<lambda>_.
          Ok (c\<lparr>cat_profiles :=
            (cat_profiles c)(key \<mapsto> p\<lparr>cp_entries := sort_key entry_key (cp_entries p)\<rparr>)\<rparr>))))"

text \<open>Reading a catalog back registers its manifests and then its profiles, in order.\<close>

fun register_manifests ::
  "'x capability_lib_scheme \<Rightarrow> ManifestCatalog \<Rightarrow> CapabilityManifest list
     \<Rightarrow> (ManifestCatalogError, ManifestCatalog) result" where
  "register_manifests L c [] = Ok c"
| "register_manifests L c (m # ms) =
     try_then (register_manifest L c m) (\<lambda>c'. register_manifests L c' ms)"

fun register_profiles ::
  "ManifestCatalog \<Rightarrow> CapabilityProfile list \<Rightarrow> (ManifestCatalogError, ManifestCatalog) result" where
  "register_profiles c [] = Ok c"
| "register_profiles c (p # ps) =
     try_then (register_profile c p) (\<lambda>c'. register_profiles c' ps)"

definition ManifestCatalog_load ::
  "'x capability_lib_scheme \<Rightarrow> CapabilityManifest list \<Rightarrow> CapabilityProfile list
     \<Rightarrow> (ManifestCatalogError, ManifestCatalog) result" where
  "ManifestCatalog_load L manifests profiles =
     try_then (register_manifests L ManifestCatalog_default manifests) (\<lambda>c.
       register_profiles c profiles)"

section \<open>Argument bounds\<close>

definition usize_saturating_add :: "nat \<Rightarrow> nat \<Rightarrow> nat" where
  "usize_saturating_add a b = min (a + b) (2 ^ 64 - 1)"

text \<open>
  The encoded length of one character, byte by byte: escapes take two bytes, other control
  characters six, and every byte of a multi-byte character counts as itself.
\<close>

definition json_byte_len :: "char \<Rightarrow> nat" where
  "json_byte_len b =
     (if code b \<in> {34, 92, 8, 12, 10, 13, 9} then 2 else if code b \<le> 31 then 6 else 1)"

definition json_string_encoded_len :: "string \<Rightarrow> nat" where
  "json_string_encoded_len s = foldl (\<lambda>len b. usize_saturating_add len (json_byte_len b)) 2 s"

fun node_bytes :: "json \<Rightarrow> nat" where
  "node_bytes JNull = 4"
| "node_bytes (JBool _) = 5"
| "node_bytes (JNumber _) = 32"
| "node_bytes (JString s) = json_string_encoded_len s"
| "node_bytes (JArray vs) = usize_saturating_add (length vs) 2"
| "node_bytes (JObject kvs) =
     usize_saturating_add
       (sum_list (map (\<lambda>(k, _). usize_saturating_add (json_string_encoded_len k) 2) kvs)) 2"

fun json_children :: "json \<Rightarrow> json list" where
  "json_children (JArray vs) = vs"
| "json_children (JObject kvs) = map snd kvs"
| "json_children _ = []"

fun json_nodes :: "json \<Rightarrow> nat" where
  "json_nodes (JArray vs) = Suc (sum_list (map json_nodes vs))"
| "json_nodes (JObject kvs) = Suc (sum_list (map (\<lambda>(_, v). json_nodes v) kvs))"
| "json_nodes _ = 1"

lemma json_nodes_children: "json_nodes v = Suc (sum_list (map json_nodes (json_children v)))"
  by (cases v) (auto simp: o_def case_prod_beta' intro: arg_cong [where f = sum_list])

lemma json_nodes_children_less: "sum_list (map json_nodes (json_children v)) < json_nodes v"
  using json_nodes_children [of v] by simp

text \<open>
  The work list of \<open>validate_argument_bounds\<close>. The vector \<open>pending\<close> is kept with its end first,
  so \<open>pop\<close> takes the head and \<open>extend\<close> puts the children in front in reverse.
\<close>

function bounds_loop ::
  "nat \<Rightarrow> nat \<Rightarrow> (json \<times> nat) list \<Rightarrow> (LogicalInvocationError, unit) result" where
  "bounds_loop nodes bytes [] = Ok ()"
| "bounds_loop nodes bytes ((v, depth) # pending) =
     (if nodes + 1 > MAX_CAPABILITY_ARGUMENT_NODES then Err ArgumentsTooManyNodes
      else if depth > MAX_CAPABILITY_ARGUMENT_DEPTH then Err ArgumentsTooDeep
      else let bytes' = usize_saturating_add bytes (node_bytes v) in
        if bytes' > MAX_CAPABILITY_ARGUMENT_BYTES then Err ArgumentsTooLarge
        else bounds_loop (nodes + 1) bytes'
          (rev (map (\<lambda>c. (c, depth + 1)) (json_children v)) @ pending))"
  by pat_completeness auto
termination
  by (relation "measure (\<lambda>(_, _, pending). sum_list (map (json_nodes \<circ> fst) pending))")
    (auto simp: rev_map [symmetric] o_def json_nodes_children_less simp del: json_nodes.simps)

definition validate_argument_bounds :: "json \<Rightarrow> (LogicalInvocationError, unit) result" where
  "validate_argument_bounds arguments = bounds_loop 0 0 [(arguments, 1)]"

definition canonicalize_arguments ::
  "'x capability_lib_scheme \<Rightarrow> json \<Rightarrow> (LogicalInvocationError, json) result" where
  "canonicalize_arguments L arguments =
     try_then (ok_or (jcs_json L arguments) CanonicalizationFailed) (\<lambda>bytes.
       ok_or (json_parse L bytes) CanonicalizationFailed)"

section \<open>Logical invocations and attempts\<close>

record LogicalInvocation =
  li_id :: uuid
  li_seed :: LogicalInvocationSeed

record LogicalInvocationBinding =
  lib_id :: uuid
  lib_run_id :: uuid
  lib_logical_step_id :: string
  lib_capability_id :: string
  lib_manifest_version :: u32
  lib_canonical_argument_digest :: uuid
  lib_idempotency_key :: string

definition LogicalInvocation_from_seed ::
  "'x capability_lib_scheme \<Rightarrow> LogicalInvocationSeed \<Rightarrow> (LogicalInvocationError, LogicalInvocation) result"
where
  "LogicalInvocation_from_seed L seed =
     try_then (ok_or (jcs_versioned_seed L ''anima-core.capability-invocation.v1'' seed)
         CanonicalizationFailed) (\<lambda>bytes.
       Ok \<lparr>li_id = new_v5 L CAPABILITY_INVOCATION_NAMESPACE bytes, li_seed = seed\<rparr>)"

definition LogicalInvocation_new ::
  "'x capability_lib_scheme \<Rightarrow> uuid \<Rightarrow> string \<Rightarrow> string \<Rightarrow> u32 \<Rightarrow> json
     \<Rightarrow> (LogicalInvocationError, LogicalInvocation) result" where
  "LogicalInvocation_new L run_id logical_step_id capability_id manifest_version arguments =
     (if logical_step_id = [] \<or> capability_id = []
         \<or> length logical_step_id > MAX_CAPABILITY_ID_BYTES
         \<or> length capability_id > MAX_CAPABILITY_ID_BYTES
      then Err IdentifierTooLarge
      else try_then (validate_argument_bounds arguments) (\<lambda>_.
        try_then (canonicalize_arguments L arguments) (\<lambda>normalized.
          LogicalInvocation_from_seed L
            \<lparr>seed_run_id = run_id, seed_logical_step_id = logical_step_id,
             seed_capability_id = capability_id, seed_manifest_version = manifest_version,
             seed_normalized_arguments = normalized\<rparr>)))"

definition idempotency_key_of :: "'x capability_lib_scheme \<Rightarrow> uuid \<Rightarrow> string" where
  "idempotency_key_of L i = ''anima-core:'' @ uuid_display L i"

text \<open>The canonical encoding of normalized arguments is unwrapped: a failure there is a panic.\<close>

definition canonical_argument_digest ::
  "'x capability_lib_scheme \<Rightarrow> LogicalInvocation \<Rightarrow> ('e crash, uuid) result" where
  "canonical_argument_digest L i =
     try_then (expect (ok_or (jcs_json L (seed_normalized_arguments (li_seed i))) CanonicalizationFailed))
       (\<lambda>bytes. Ok (new_v5 L CAPABILITY_INVOCATION_NAMESPACE bytes))"

definition LogicalInvocation_binding ::
  "'x capability_lib_scheme \<Rightarrow> LogicalInvocation
     \<Rightarrow> ('e crash, LogicalInvocationBinding) result" where
  "LogicalInvocation_binding L i =
     try_then (canonical_argument_digest L i) (\<lambda>digest.
       Ok \<lparr>lib_id = li_id i, lib_run_id = seed_run_id (li_seed i),
           lib_logical_step_id = seed_logical_step_id (li_seed i),
           lib_capability_id = seed_capability_id (li_seed i),
           lib_manifest_version = seed_manifest_version (li_seed i),
           lib_canonical_argument_digest = digest,
           lib_idempotency_key = idempotency_key_of L (li_id i)\<rparr>)"

definition LogicalInvocationBinding_validate ::
  "'x capability_lib_scheme \<Rightarrow> LogicalInvocationBinding \<Rightarrow> (LogicalInvocationError, unit) result" where
  "LogicalInvocationBinding_validate L b =
     reject_if (uuid_is_nil (lib_id b) \<or> uuid_is_nil (lib_run_id b)
         \<or> uuid_is_nil (lib_canonical_argument_digest b)
         \<or> blank (lib_logical_step_id b) \<or> blank (lib_capability_id b)
         \<or> length (lib_logical_step_id b) > MAX_CAPABILITY_ID_BYTES
         \<or> length (lib_capability_id b) > MAX_CAPABILITY_ID_BYTES
         \<or> lib_manifest_version b = 0
         \<or> lib_idempotency_key b \<noteq> idempotency_key_of L (lib_id b))
       IdentifierTooLarge"

definition LogicalInvocationBinding_load ::
  "'x capability_lib_scheme \<Rightarrow> LogicalInvocationBinding
     \<Rightarrow> (LogicalInvocationError, LogicalInvocationBinding) result" where
  "LogicalInvocationBinding_load L wire = checked (LogicalInvocationBinding_validate L) wire"

text \<open>An invocation is serialized as its seed and rebuilt from it.\<close>

definition LogicalInvocation_load ::
  "'x capability_lib_scheme \<Rightarrow> LogicalInvocationSeed \<Rightarrow> (LogicalInvocationError, LogicalInvocation) result"
where
  "LogicalInvocation_load L seed =
     LogicalInvocation_new L (seed_run_id seed) (seed_logical_step_id seed)
       (seed_capability_id seed) (seed_manifest_version seed) (seed_normalized_arguments seed)"

definition attempt_id :: "'x capability_lib_scheme \<Rightarrow> uuid \<Rightarrow> u32 \<Rightarrow> uuid" where
  "attempt_id L logical_invocation_id number =
     new_v5 L CAPABILITY_INVOCATION_NAMESPACE
       (''attempt='' @ uuid_display L logical_invocation_id @ '':number='' @ show_nat (unat number))"

section \<open>Durable results\<close>

datatype DurableCapabilityStatus = Completed | Adopted

datatype CapabilityErrorCode =
    Validation | Unavailable | Timeout | Cancelled | Execution | OutputValidation | Reconciliation

definition retryable :: "CapabilityErrorCode \<Rightarrow> bool" where
  "retryable c \<longleftrightarrow> c \<in> {Timeout, Execution, Reconciliation}"

definition MAX_DURABLE_RESULT_SIZE_BYTES :: u64 where
  "MAX_DURABLE_RESULT_SIZE_BYTES = 16 * 1024 * 1024"

record DurableCapabilityResult =
  dcr_result_ref :: uuid
  dcr_content_digest :: string
  dcr_schema_digest :: string
  dcr_size_bytes :: u64
  dcr_status :: DurableCapabilityStatus

definition DurableCapabilityResult_validate ::
  "DurableCapabilityResult \<Rightarrow> (CapabilityErrorCode, unit) result" where
  "DurableCapabilityResult_validate r =
     reject_if (uuid_is_nil (dcr_result_ref r)
         \<or> \<not> canonical_prefixed_sha256 (dcr_content_digest r) ''jcs-v1:''
         \<or> \<not> canonical_prefixed_sha256 (dcr_schema_digest r) ''sha256:''
         \<or> dcr_size_bytes r = 0 \<or> dcr_size_bytes r > MAX_DURABLE_RESULT_SIZE_BYTES)
       Validation"

definition DurableCapabilityResult_new ::
  "uuid \<Rightarrow> string \<Rightarrow> string \<Rightarrow> u64 \<Rightarrow> DurableCapabilityStatus
     \<Rightarrow> (CapabilityErrorCode, DurableCapabilityResult) result" where
  "DurableCapabilityResult_new result_ref content_digest schema_digest size_bytes status =
     checked DurableCapabilityResult_validate
       \<lparr>dcr_result_ref = result_ref, dcr_content_digest = content_digest,
        dcr_schema_digest = schema_digest, dcr_size_bytes = size_bytes, dcr_status = status\<rparr>"

section \<open>Reference definitions\<close>

text \<open>
  What the theorems below compare the code with: the size of a document by structural recursion,
  without saturation and without a work list; and a catalog as two finite maps indexed by key.
\<close>

fun json_depth :: "json \<Rightarrow> nat" where
  "json_depth (JArray vs) = Suc (foldr max (map json_depth vs) 0)"
| "json_depth (JObject kvs) = Suc (foldr max (map (\<lambda>(_, v). json_depth v) kvs) 0)"
| "json_depth _ = 1"

definition string_bytes :: "string \<Rightarrow> nat" where
  "string_bytes s = 2 + sum_list (map json_byte_len s)"

fun exact_node_bytes :: "json \<Rightarrow> nat" where
  "exact_node_bytes JNull = 4"
| "exact_node_bytes (JBool _) = 5"
| "exact_node_bytes (JNumber _) = 32"
| "exact_node_bytes (JString s) = string_bytes s"
| "exact_node_bytes (JArray vs) = length vs + 2"
| "exact_node_bytes (JObject kvs) = sum_list (map (\<lambda>(k, _). string_bytes k + 2) kvs) + 2"

fun json_bytes :: "json \<Rightarrow> nat" where
  "json_bytes (JArray vs) = exact_node_bytes (JArray vs) + sum_list (map json_bytes vs)"
| "json_bytes (JObject kvs) = exact_node_bytes (JObject kvs) + sum_list (map (\<lambda>(_, v). json_bytes v) kvs)"
| "json_bytes v = exact_node_bytes v"

definition pending_ok :: "nat \<Rightarrow> nat \<Rightarrow> (json \<times> nat) list \<Rightarrow> bool" where
  "pending_ok nodes bytes pending \<longleftrightarrow>
     nodes + sum_list (map (json_nodes \<circ> fst) pending) \<le> MAX_CAPABILITY_ARGUMENT_NODES \<and>
     bytes + sum_list (map (json_bytes \<circ> fst) pending) \<le> MAX_CAPABILITY_ARGUMENT_BYTES \<and>
     (\<forall>(v, depth) \<in> set pending. depth + json_depth v \<le> Suc MAX_CAPABILITY_ARGUMENT_DEPTH)"

definition manifest_key :: "CapabilityManifest \<Rightarrow> string \<times> u32" where
  "manifest_key m = (cm_id m, cm_version m)"

definition profile_key :: "CapabilityProfile \<Rightarrow> string \<times> u32" where
  "profile_key p = (cp_id p, cp_version p)"

definition sorted_profile :: "CapabilityProfile \<Rightarrow> CapabilityProfile" where
  "sorted_profile p = p\<lparr>cp_entries := sort_key entry_key (cp_entries p)\<rparr>"

definition profile_wf :: "(string \<times> u32) set \<Rightarrow> CapabilityProfile \<Rightarrow> bool" where
  "profile_wf known p \<longleftrightarrow> \<not> blank (cp_id p) \<and> cp_version p \<noteq> 0 \<and>
     distinct (map cpe_capability_id (cp_entries p)) \<and> entry_key ` set (cp_entries p) \<subseteq> known"

definition index_by :: "('a \<Rightarrow> 'k) \<Rightarrow> 'a list \<Rightarrow> 'k \<rightharpoonup> 'a" where
  "index_by key xs = map_of (map (\<lambda>x. (key x, x)) xs)"

definition catalog_spec ::
  "'x capability_lib_scheme \<Rightarrow> CapabilityManifest list \<Rightarrow> CapabilityProfile list \<Rightarrow> bool" where
  "catalog_spec L ms ps \<longleftrightarrow>
     list_all (\<lambda>m. validate_manifest L m = Ok ()) ms \<and> distinct (map manifest_key ms) \<and>
     list_all (profile_wf (manifest_key ` set ms)) ps \<and> distinct (map profile_key ps)"

text \<open>A concrete instance of the library functions, for closed examples.\<close>

definition example_lib :: capability_lib where
  "example_lib = \<lparr>
     new_v5 = (\<lambda>ns name. ns + of_nat (length name)),
     uuid_display = (\<lambda>u. show_nat (unat u)),
     jcs_json = (\<lambda>_. Some ''null''),
     json_parse = (\<lambda>_. Some JNull),
     jcs_schema_pair = (\<lambda>_ _. Some ''{}''),
     jcs_versioned_seed = (\<lambda>format seed. Some (format @ seed_logical_step_id seed @ seed_capability_id seed)),
     sha256 = (\<lambda>s. s),
     hex_encode = (\<lambda>_. replicate 64 (CHR ''0''))\<rparr>"

definition example_manifest :: CapabilityManifest where
  "example_manifest = \<lparr>
     cm_id = ''fs.read'', cm_version = 1, cm_kind = Workspace, cm_label = ''Read'',
     cm_description = [], cm_input_schema = JNull, cm_output_schema = JNull,
     cm_side_effects = False, cm_risk_level = Low, cm_host_permissions = [],
     cm_secret_references = [''api-key''], cm_environment_requirements = [], cm_timeout_ms = 1000,
     cm_cancellation_supported = True, cm_max_retries = 0, cm_idempotent = True,
     cm_recovery_mode = InherentlyIdempotent, cm_supports_streaming = False,
     cm_supports_artifacts = False, cm_supports_citations = False,
     cm_schema_digest = ''sha256:'' @ replicate 64 (CHR ''0''),
     cm_compatibility = \<lparr>minimum_runtime_schema_version = 1, maximum_runtime_schema_version = 1,
       manifest_schema_version = 1\<rparr>\<rparr>"

definition example_profile :: CapabilityProfile where
  "example_profile = \<lparr>cp_id = ''basic'', cp_version = 1, cp_label = [], cp_description = [],
     cp_entries = [\<lparr>cpe_capability_id = ''fs.read'', cpe_manifest_version = 1\<rparr>]\<rparr>"

section \<open>Argument bounds: the work list computes the structural measures\<close>

lemma json_depth_children: "json_depth v = Suc (foldr max (map json_depth (json_children v)) 0)"
  by (cases v) (simp_all add: o_def case_prod_beta')

lemma json_bytes_children:
  "json_bytes v = exact_node_bytes v + sum_list (map json_bytes (json_children v))"
  by (cases v) (simp_all add: o_def case_prod_beta')

lemma add_foldr_max_le_iff:
  "d + foldr max xs 0 \<le> k \<longleftrightarrow> d \<le> k \<and> (\<forall>x \<in> set xs. d + x \<le> k)" for k :: nat
  by (induction xs) (auto simp: max_def)

lemma foldl_saturating:
  "a \<le> 2 ^ 64 - 1 \<Longrightarrow>
   foldl (\<lambda>len b. usize_saturating_add len (json_byte_len b)) a s
     = min (a + sum_list (map json_byte_len s)) (2 ^ 64 - 1)"
proof (induction s arbitrary: a)
  case Nil
  then show ?case by simp
next
  case (Cons b s)
  then show ?case by (simp add: usize_saturating_add_def min_def)
qed

lemma encoded_len_saturates: "json_string_encoded_len s = min (string_bytes s) (2 ^ 64 - 1)"
  by (simp add: json_string_encoded_len_def foldl_saturating string_bytes_def)

lemma key_len_saturates:
  "usize_saturating_add (json_string_encoded_len k) 2 = min (string_bytes k + 2) (2 ^ 64 - 1)"
  by (simp add: usize_saturating_add_def encoded_len_saturates min_def)

lemma key_bytes_saturate:
  fixes kvs :: "(string \<times> 'v) list"
  defines "sat \<equiv> sum_list (map (\<lambda>(k, _). usize_saturating_add (json_string_encoded_len k) 2) kvs)"
    and "exact \<equiv> sum_list (map (\<lambda>(k, _). string_bytes k + 2) kvs)"
  shows "sat = exact \<or> (2 ^ 64 - 1 \<le> sat \<and> 2 ^ 64 - 1 \<le> exact)"
  unfolding sat_def exact_def
  by (induction kvs) (auto simp: key_len_saturates min_def split: if_splits)

lemma node_bytes_exact_or_huge:
  "node_bytes v = exact_node_bytes v \<or> (2 ^ 64 - 1 \<le> node_bytes v \<and> 2 ^ 64 - 1 \<le> exact_node_bytes v)"
proof (cases v)
  case (JObject kvs)
  with key_bytes_saturate [of kvs] show ?thesis
    by (auto simp: usize_saturating_add_def min_def)
qed (auto simp: usize_saturating_add_def encoded_len_saturates min_def)

lemma saturated_bytes_gt_iff:
  "MAX_CAPABILITY_ARGUMENT_BYTES < usize_saturating_add b (node_bytes v)
     \<longleftrightarrow> MAX_CAPABILITY_ARGUMENT_BYTES < b + exact_node_bytes v"
  using node_bytes_exact_or_huge [of v]
  by (auto simp: usize_saturating_add_def capability_consts min_def)

lemma saturated_bytes_eq:
  "b + exact_node_bytes v \<le> MAX_CAPABILITY_ARGUMENT_BYTES \<Longrightarrow>
   usize_saturating_add b (node_bytes v) = b + exact_node_bytes v"
  using node_bytes_exact_or_huge [of v]
  by (auto simp: usize_saturating_add_def capability_consts min_def)

lemma pending_ok_step:
  "pending_ok n b ((v, d) # p) \<longleftrightarrow>
     Suc n \<le> MAX_CAPABILITY_ARGUMENT_NODES \<and> d \<le> MAX_CAPABILITY_ARGUMENT_DEPTH \<and>
     b + exact_node_bytes v \<le> MAX_CAPABILITY_ARGUMENT_BYTES \<and>
     pending_ok (Suc n) (b + exact_node_bytes v)
       (rev (map (\<lambda>c. (c, d + 1)) (json_children v)) @ p)"
  unfolding pending_ok_def
  by (auto simp: json_nodes_children [of v] json_bytes_children [of v] json_depth_children [of v]
      add_foldr_max_le_iff rev_map [symmetric] o_def add.commute add.left_commute ball_Un)

lemma bounds_loop_iff:
  "n \<le> MAX_CAPABILITY_ARGUMENT_NODES \<Longrightarrow> b \<le> MAX_CAPABILITY_ARGUMENT_BYTES \<Longrightarrow>
   bounds_loop n b p = Ok () \<longleftrightarrow> pending_ok n b p"
proof (induction n b p rule: bounds_loop.induct)
  case (1 n b)
  then show ?case by (simp add: pending_ok_def)
next
  case (2 n b v d p)
  show ?case
  proof (cases "Suc n \<le> MAX_CAPABILITY_ARGUMENT_NODES \<and> d \<le> MAX_CAPABILITY_ARGUMENT_DEPTH \<and>
      b + exact_node_bytes v \<le> MAX_CAPABILITY_ARGUMENT_BYTES")
    case True
    then have "bounds_loop (n + 1) (b + exact_node_bytes v)
        (rev (map (\<lambda>c. (c, d + 1)) (json_children v)) @ p) = Ok ()
      \<longleftrightarrow> pending_ok (n + 1) (b + exact_node_bytes v)
        (rev (map (\<lambda>c. (c, d + 1)) (json_children v)) @ p)"
      using "2.IH" by (simp add: saturated_bytes_eq not_less)
    with True show ?thesis
      by (simp add: pending_ok_step saturated_bytes_eq not_less Let_def)
  next
    case False
    then show ?thesis
      by (auto simp: pending_ok_step saturated_bytes_gt_iff not_less Let_def)
  qed
qed

lemma argument_bounds_eq:
  "validate_argument_bounds v = Ok () \<longleftrightarrow>
     json_nodes v \<le> MAX_CAPABILITY_ARGUMENT_NODES \<and>
     json_depth v \<le> MAX_CAPABILITY_ARGUMENT_DEPTH \<and>
     json_bytes v \<le> MAX_CAPABILITY_ARGUMENT_BYTES"
proof -
  have "bounds_loop 0 0 [(v, 1)] = Ok () \<longleftrightarrow> pending_ok 0 0 [(v, 1)]"
    by (rule bounds_loop_iff) simp_all
  then show ?thesis
    by (auto simp: validate_argument_bounds_def pending_ok_def simp del: bounds_loop.simps)
qed

text \<open>
  C18. The iterative argument check accepts a JSON document exactly when its node count, its
  nesting depth and its encoded size (computed without saturation) are within the three limits:
  no document is rejected for the order in which the work list visits it, and no saturating
  addition lets an oversized document through.
\<close>

theorem validate_argument_bounds_iff:
  "validate_argument_bounds arguments = Ok () \<longleftrightarrow>
     json_nodes arguments \<le> MAX_CAPABILITY_ARGUMENT_NODES \<and>
     json_depth arguments \<le> MAX_CAPABILITY_ARGUMENT_DEPTH \<and>
     json_bytes arguments \<le> MAX_CAPABILITY_ARGUMENT_BYTES"
  by (rule argument_bounds_eq)

section \<open>The catalog is a pair of finite maps\<close>

lemma index_by_Some:
  "distinct (map key xs) \<Longrightarrow> index_by key xs k = Some x \<longleftrightarrow> x \<in> set xs \<and> key x = k"
  unfolding index_by_def by (subst map_of_eq_Some_iff) (auto simp: o_def)

lemma dom_index_by: "dom (index_by key xs) = key ` set xs"
  by (simp add: index_by_def dom_map_of_conv_image_fst image_image)

lemma index_by_eqI:
  assumes "distinct (map key xs)" and "distinct (map key ys)" and "set xs = set ys"
  shows "index_by key xs = index_by key ys"
proof
  fix k
  have "index_by key xs k = Some v \<longleftrightarrow> index_by key ys k = Some v" for v
    by (simp add: index_by_Some assms)
  then show "index_by key xs k = index_by key ys k"
    by (metis option.exhaust)
qed

lemma ran_index_by: "distinct (map key xs) \<Longrightarrow> ran (index_by key xs) = set xs"
  by (auto simp: ran_def index_by_Some)

lemma index_by_Nil [simp]: "index_by key [] = Map.empty"
  by (simp add: index_by_def)

lemma check_entry_ids_ok:
  "check_entry_ids seen es = Ok () \<longleftrightarrow>
     distinct (map cpe_capability_id es) \<and> cpe_capability_id ` set es \<inter> seen = {}"
  by (induction es arbitrary: seen) auto

lemma check_secret_names_ok:
  "check_secret_names seen ns = Ok () \<longleftrightarrow>
     distinct ns \<and> set ns \<inter> seen = {} \<and> (\<forall>n \<in> set ns. is_valid_secret_reference_name n)"
  by (induction ns arbitrary: seen) auto

lemma register_manifest_ok:
  "register_manifest L c m = Ok c' \<longleftrightarrow>
     validate_manifest L m = Ok () \<and> manifest_key m \<notin> dom (cat_manifests c) \<and>
     c' = c\<lparr>cat_manifests := (cat_manifests c)(manifest_key m \<mapsto> m)\<rparr>"
  by (auto simp: register_manifest_def manifest_key_def Let_def)

lemma register_profile_ok:
  "register_profile c p = Ok c' \<longleftrightarrow>
     profile_wf (dom (cat_manifests c)) p \<and> profile_key p \<notin> dom (cat_profiles c) \<and>
     c' = c\<lparr>cat_profiles := (cat_profiles c)(profile_key p \<mapsto> sorted_profile p)\<rparr>"
  by (auto simp: register_profile_def profile_wf_def profile_key_def sorted_profile_def Let_def
      check_entry_ids_ok check_entry_known_def catalog_manifest_def entry_key_def)

lemma index_by_Cons: "index_by key (x # xs) = (index_by key xs)(key x \<mapsto> x)"
  by (simp add: index_by_def)

lemma map_add_index_by_Cons:
  "key x \<notin> key ` set xs \<Longrightarrow> m(key x \<mapsto> x) ++ index_by key xs = m ++ index_by key (x # xs)"
  by (simp add: index_by_Cons map_add_upd_left dom_index_by)

lemma register_manifests_ok:
  "register_manifests L c ms = Ok c' \<longleftrightarrow>
     (\<forall>m \<in> set ms. validate_manifest L m = Ok ()) \<and> distinct (map manifest_key ms) \<and>
     manifest_key ` set ms \<inter> dom (cat_manifests c) = {} \<and>
     c' = c\<lparr>cat_manifests := cat_manifests c ++ index_by manifest_key ms\<rparr>"
proof (induction ms arbitrary: c)
  case Nil
  then show ?case by auto
next
  case (Cons m ms)
  let ?c = "c\<lparr>cat_manifests := (cat_manifests c)(manifest_key m \<mapsto> m)\<rparr>"
  have "register_manifests L c (m # ms) = Ok c' \<longleftrightarrow>
      validate_manifest L m = Ok () \<and> manifest_key m \<notin> dom (cat_manifests c) \<and>
      register_manifests L ?c ms = Ok c'"
    by (auto simp: register_manifest_ok)
  also have "\<dots> \<longleftrightarrow> (\<forall>m' \<in> set (m # ms). validate_manifest L m' = Ok ()) \<and>
      distinct (map manifest_key (m # ms)) \<and>
      manifest_key ` set (m # ms) \<inter> dom (cat_manifests c) = {} \<and>
      c' = ?c\<lparr>cat_manifests := cat_manifests ?c ++ index_by manifest_key ms\<rparr>"
    unfolding Cons.IH by auto
  also have "\<dots> \<longleftrightarrow> (\<forall>m' \<in> set (m # ms). validate_manifest L m' = Ok ()) \<and>
      distinct (map manifest_key (m # ms)) \<and>
      manifest_key ` set (m # ms) \<inter> dom (cat_manifests c) = {} \<and>
      c' = c\<lparr>cat_manifests := cat_manifests c ++ index_by manifest_key (m # ms)\<rparr>"
    by (auto simp: map_add_index_by_Cons)
  finally show ?case .
qed

lemma profile_key_sorted [simp]: "profile_key (sorted_profile p) = profile_key p"
  by (simp add: profile_key_def sorted_profile_def)

lemma sorted_profile_idem [simp]: "sorted_profile (sorted_profile p) = sorted_profile p"
  by (simp add: sorted_profile_def sort_key_id_if_sorted)

lemma profile_wf_sorted [simp]: "profile_wf known (sorted_profile p) = profile_wf known p"
  by (auto simp: profile_wf_def sorted_profile_def distinct_map)

lemma register_profiles_ok:
  "register_profiles c ps = Ok c' \<longleftrightarrow>
     (\<forall>p \<in> set ps. profile_wf (dom (cat_manifests c)) p) \<and> distinct (map profile_key ps) \<and>
     profile_key ` set ps \<inter> dom (cat_profiles c) = {} \<and>
     c' = c\<lparr>cat_profiles := cat_profiles c ++ index_by profile_key (map sorted_profile ps)\<rparr>"
proof (induction ps arbitrary: c)
  case Nil
  then show ?case by auto
next
  case (Cons p ps)
  let ?c = "c\<lparr>cat_profiles := (cat_profiles c)(profile_key p \<mapsto> sorted_profile p)\<rparr>"
  have fresh: "m(profile_key p \<mapsto> sorted_profile p) ++ index_by profile_key (map sorted_profile ps)
      = m ++ index_by profile_key (map sorted_profile (p # ps))"
    if "profile_key p \<notin> profile_key ` set ps" for m
    using that map_add_index_by_Cons [of profile_key "sorted_profile p" "map sorted_profile ps" m]
    by (simp add: image_image)
  have "register_profiles c (p # ps) = Ok c' \<longleftrightarrow>
      profile_wf (dom (cat_manifests c)) p \<and> profile_key p \<notin> dom (cat_profiles c) \<and>
      register_profiles ?c ps = Ok c'"
    by (auto simp: register_profile_ok)
  also have "\<dots> \<longleftrightarrow> (\<forall>p' \<in> set (p # ps). profile_wf (dom (cat_manifests c)) p') \<and>
      distinct (map profile_key (p # ps)) \<and>
      profile_key ` set (p # ps) \<inter> dom (cat_profiles c) = {} \<and>
      c' = ?c\<lparr>cat_profiles := cat_profiles ?c ++ index_by profile_key (map sorted_profile ps)\<rparr>"
    unfolding Cons.IH by auto
  finally show ?case using fresh by auto
qed

lemma ManifestCatalog_load_ok:
  "ManifestCatalog_load L ms ps = Ok c \<longleftrightarrow>
     (\<forall>m \<in> set ms. validate_manifest L m = Ok ()) \<and> distinct (map manifest_key ms) \<and>
     (\<forall>p \<in> set ps. profile_wf (manifest_key ` set ms) p) \<and> distinct (map profile_key ps) \<and>
     c = \<lparr>cat_manifests = index_by manifest_key ms,
          cat_profiles = index_by profile_key (map sorted_profile ps)\<rparr>"
  by (auto simp: ManifestCatalog_load_def register_manifests_ok register_profiles_ok
      ManifestCatalog_default_def dom_index_by)

lemma catalog_load_eq:
  "ManifestCatalog_load L ms ps = Ok c \<longleftrightarrow>
     catalog_spec L ms ps \<and>
     c = \<lparr>cat_manifests = index_by manifest_key ms,
          cat_profiles = index_by profile_key (map sorted_profile ps)\<rparr>"
  by (auto simp: ManifestCatalog_load_ok catalog_spec_def list_all_iff)

text \<open>
  C19. Loading a catalog succeeds exactly when every manifest validates, no manifest or profile
  version occurs twice, and every profile entry names a manifest of the catalog at most once;
  and the loaded catalog then holds precisely those manifests and those profiles with their
  entries sorted.
\<close>

theorem catalog_load_spec:
  "ManifestCatalog_load L ms ps = Ok c \<longleftrightarrow>
     catalog_spec L ms ps \<and>
     c = \<lparr>cat_manifests = index_by manifest_key ms,
          cat_profiles = index_by profile_key (map sorted_profile ps)\<rparr>"
  by (rule catalog_load_eq)

lemma distinct_map_same_set:
  "distinct (map f xs) \<Longrightarrow> distinct ys \<Longrightarrow> set ys = set xs \<Longrightarrow> distinct (map f ys)"
  by (simp add: distinct_map)

text \<open>
  C36. A catalog survives serialization: writing out its manifests and profiles in any order and
  loading them again gives the same catalog.
\<close>

theorem catalog_reload:
  assumes "ManifestCatalog_load L ms ps = Ok c"
    and "distinct ms'" and "set ms' = ran (cat_manifests c)"
    and "distinct ps'" and "set ps' = ran (cat_profiles c)"
  shows "ManifestCatalog_load L ms' ps' = Ok c"
proof -
  let ?ps = "map sorted_profile ps"
  from assms(1) have spec: "catalog_spec L ms ps"
    and c: "c = \<lparr>cat_manifests = index_by manifest_key ms,
                 cat_profiles = index_by profile_key ?ps\<rparr>"
    by (simp_all add: catalog_load_eq)
  have keys: "distinct (map manifest_key ms)" "distinct (map profile_key ?ps)"
    using spec by (simp_all add: catalog_spec_def o_def)
  have ms': "set ms' = set ms" and ps': "set ps' = set ?ps"
    using assms(3,5) c keys by (simp_all add: ran_index_by)
  have keys': "distinct (map manifest_key ms')" "distinct (map profile_key ps')"
    using distinct_map_same_set keys assms(2,4) ms' ps' by blast+
  have srt: "map sorted_profile ps' = ps'"
    using ps' by (auto intro!: map_idI)
  have "index_by manifest_key ms' = index_by manifest_key ms"
    "index_by profile_key ps' = index_by profile_key ?ps"
    using keys keys' ms' ps' by (auto intro!: index_by_eqI)
  moreover have "catalog_spec L ms' ps'"
    using spec ms' ps' keys' by (auto simp: catalog_spec_def list_all_iff)
  ultimately show ?thesis by (simp add: catalog_load_eq c srt)
qed

lemma example_manifest_valid: "validate_manifest example_lib example_manifest = Ok ()"
  by (simp add: validate_manifest_def example_lib_def example_manifest_def schema_digest_for_def
      blank_def is_valid_secret_reference_name_def capability_consts code_def white1_def
      white2_def white3_def is_ascii_digit_def Let_def)

lemma example_manifest_key: "manifest_key example_manifest = (''fs.read'', 1)"
  by (simp add: manifest_key_def example_manifest_def)

lemma example_catalog_load:
  "ManifestCatalog_load example_lib [example_manifest] [example_profile] =
     Ok \<lparr>cat_manifests = [(''fs.read'', 1) \<mapsto> example_manifest],
         cat_profiles = [(''basic'', 1) \<mapsto> example_profile]\<rparr>"
  by (simp add: catalog_load_eq catalog_spec_def example_manifest_valid example_manifest_key
      profile_wf_def profile_key_def index_by_def sorted_profile_def entry_key_def
      example_profile_def blank_def code_def white1_def white2_def white3_def)

theorem catalog_reload_witness:
  "ManifestCatalog_load example_lib [example_manifest] [example_profile] =
     Ok \<lparr>cat_manifests = [(''fs.read'', 1) \<mapsto> example_manifest],
         cat_profiles = [(''basic'', 1) \<mapsto> example_profile]\<rparr>"
  by (rule catalog_reload [OF example_catalog_load]) simp_all

section \<open>Invocation identities\<close>

text \<open>
  C32. Which accepted invocations can be read back from the durable identity they leave behind:
  exactly those with a step and a capability name that are not blank, a nonzero manifest
  version and non-nil identifiers. The constructor itself checks none of these four but
  emptiness, so an invocation with a step named by a single space is accepted and its durable
  binding is rejected when it is loaded.
\<close>

theorem invocation_binding_reloads_iff:
  assumes "LogicalInvocation_new L run_id step cap version arguments = Ok i"
    and "LogicalInvocation_binding L i = (Ok b :: (LogicalInvocationError crash, _) result)"
  shows "LogicalInvocationBinding_load L b = Ok b \<longleftrightarrow>
    \<not> blank step \<and> \<not> blank cap \<and> version \<noteq> 0 \<and> \<not> uuid_is_nil run_id \<and>
    \<not> uuid_is_nil (li_id i) \<and> \<not> uuid_is_nil (lib_canonical_argument_digest b)"
  using assms
  by (auto simp: LogicalInvocation_new_def LogicalInvocation_from_seed_def
      LogicalInvocation_binding_def LogicalInvocationBinding_load_def
      LogicalInvocationBinding_validate_def split: if_splits)

theorem invocation_binding_reloads_witness:
  "\<exists>i b. LogicalInvocation_new example_lib 7 '' '' ''fs.read'' 1 JNull = Ok i \<and>
     LogicalInvocation_binding example_lib i = (Ok b :: (LogicalInvocationError crash, _) result) \<and>
     LogicalInvocationBinding_load example_lib b \<noteq> Ok b"
proof -
  let ?seed = "\<lparr>seed_run_id = 7, seed_logical_step_id = '' '', seed_capability_id = ''fs.read'',
    seed_manifest_version = 1, seed_normalized_arguments = JNull\<rparr>"
  let ?i = "\<lparr>li_id = new_v5 example_lib CAPABILITY_INVOCATION_NAMESPACE
      (''anima-core.capability-invocation.v1'' @ '' '' @ ''fs.read''), li_seed = ?seed\<rparr>"
  have i: "LogicalInvocation_new example_lib 7 '' '' ''fs.read'' 1 JNull = Ok ?i"
    by (simp add: LogicalInvocation_new_def LogicalInvocation_from_seed_def example_lib_def
        canonicalize_arguments_def argument_bounds_eq capability_consts)
  obtain b where b:
    "LogicalInvocation_binding example_lib ?i = (Ok b :: (LogicalInvocationError crash, _) result)"
    by (simp add: LogicalInvocation_binding_def canonical_argument_digest_def example_lib_def)
  have "blank '' ''" by (simp add: blank_def white1_def code_def)
  then show ?thesis
    using i b invocation_binding_reloads_iff [OF i b] by blast
qed

end
