(* ===== verification/Lineage.thy ===== *)
theory Lineage
  imports Capability
begin

text \<open>
  The lineage of capability attempts, \<open>anima-core/src/capability/lineage.rs\<close>: the states an
  attempt goes through, fenced leases, the trait \<open>CapabilityLineageStore\<close> as a locale, and
  \<open>InMemoryCapabilityLineageStore\<close> as its instance. Every operation runs under the store's mutex,
  so it is one atomic step on the map of states; the reading of the system clock and the fresh
  random fence (\<open>Uuid::new_v4\<close>) are arguments. The in-memory operations never return \<open>Err\<close>, so
  their \<open>Ok\<close> values stand alone.
\<close>

section \<open>Attempt states and leases\<close>

datatype CapabilityLeaseKind = Executing | RetryExecuting | Reconciling

datatype CapabilityAttemptLineageState =
    ExecutingState uuid u64
  | RetryAuthorizedState uuid
  | RetryExecutingState uuid u64
  | CompletedState DurableCapabilityResult
  | UncertainState
  | ReconcilingState uuid u64
  | AuthoritativeAbsenceState uuid
  | CompensationRequiredState
  | RecoveryRequiredState

fun lease_state :: "CapabilityLeaseKind \<Rightarrow> uuid \<Rightarrow> u64 \<Rightarrow> CapabilityAttemptLineageState" where
  "lease_state Executing fence expires = ExecutingState fence expires"
| "lease_state RetryExecuting fence expires = RetryExecutingState fence expires"
| "lease_state Reconciling fence expires = ReconcilingState fence expires"

fun lease_parts ::
  "CapabilityAttemptLineageState \<Rightarrow> (CapabilityLeaseKind \<times> uuid \<times> u64) option" where
  "lease_parts (ExecutingState fence expires) = Some (Executing, fence, expires)"
| "lease_parts (RetryExecutingState fence expires) = Some (RetryExecuting, fence, expires)"
| "lease_parts (ReconcilingState fence expires) = Some (Reconciling, fence, expires)"
| "lease_parts _ = None"

type_synonym attempt_key = "uuid \<times> u32"
type_synonym lineage_states = "attempt_key \<rightharpoonup> CapabilityAttemptLineageState"

section \<open>The in-memory store\<close>

definition lineage_load :: "lineage_states \<Rightarrow> attempt_key \<Rightarrow> CapabilityAttemptLineageState option" where
  "lineage_load states k = states k"

definition compare_exchange ::
  "lineage_states \<Rightarrow> attempt_key \<Rightarrow> CapabilityAttemptLineageState option
     \<Rightarrow> CapabilityAttemptLineageState \<Rightarrow> bool \<times> lineage_states" where
  "compare_exchange states k current new =
     (if states k \<noteq> current then (False, states) else (True, states(k \<mapsto> new)))"

definition acquire_lease ::
  "lineage_states \<Rightarrow> attempt_key \<Rightarrow> CapabilityAttemptLineageState option \<Rightarrow> CapabilityLeaseKind
     \<Rightarrow> u64 \<Rightarrow> uuid \<Rightarrow> u64 \<Rightarrow> CapabilityAttemptLineageState option \<times> lineage_states" where
  "acquire_lease states k current kind duration new_v4 now =
     (if states k \<noteq> current then (None, states)
      else let state = lease_state kind new_v4 (saturating_add now duration) in
        (Some state, states(k \<mapsto> state)))"

definition renew_lease ::
  "lineage_states \<Rightarrow> attempt_key \<Rightarrow> CapabilityAttemptLineageState \<Rightarrow> u64 \<Rightarrow> u64
     \<Rightarrow> CapabilityAttemptLineageState option \<times> lineage_states" where
  "renew_lease states k current duration now =
     (if states k \<noteq> Some current then (None, states)
      else case lease_parts current of
        None \<Rightarrow> (None, states)
      | Some (kind, fence, expires) \<Rightarrow>
          if expires \<le> now then (None, states)
          else let renewed = lease_state kind fence (saturating_add now duration) in
            (Some renewed, states(k \<mapsto> renewed)))"

definition expire_lease ::
  "lineage_states \<Rightarrow> attempt_key \<Rightarrow> CapabilityAttemptLineageState \<Rightarrow> CapabilityAttemptLineageState
     \<Rightarrow> u64 \<Rightarrow> bool \<times> lineage_states" where
  "expire_lease states k current new now =
     (if states k \<noteq> Some current then (False, states)
      else case lease_parts current of
        None \<Rightarrow> (False, states)
      | Some (_, _, expires) \<Rightarrow>
          if expires > now then (False, states) else (True, states(k \<mapsto> new)))"

definition validate_effect_fence ::
  "lineage_states \<Rightarrow> attempt_key \<Rightarrow> CapabilityLeaseKind \<Rightarrow> uuid \<Rightarrow> u64 \<Rightarrow> bool" where
  "validate_effect_fence states k expected_kind fence now =
     (case states k of
        None \<Rightarrow> False
      | Some state \<Rightarrow>
          (case lease_parts state of
             None \<Rightarrow> False
           | Some (active_kind, active_fence, expires) \<Rightarrow>
               active_kind = expected_kind \<and> active_fence = fence \<and> expires > now))"

section \<open>Executions\<close>

text \<open>
  An execution interleaves the store's operations in any order, from any number of clients. The clock
  is the system clock, which may also be set back. A lease that is put into the store carries a
  fresh fence, whichever operation puts it there; \<open>registry.rs\<close> makes leases only with
  \<open>acquire_lease\<close>, and its plain exchanges and expiries install no leases at all.
\<close>

record lineage_world =
  lw_states :: lineage_states
  lw_now :: u64
  lw_issued :: "uuid set"

definition state_fences :: "CapabilityAttemptLineageState \<Rightarrow> uuid set" where
  "state_fences state = {f. \<exists>kind e. lease_parts state = Some (kind, f, e)}"

inductive lineage_step :: "lineage_world \<Rightarrow> lineage_world \<Rightarrow> bool" where
  tick: "lineage_step w (w\<lparr>lw_now := t\<rparr>)"
| exchange: "state_fences new \<inter> lw_issued w = {} \<Longrightarrow>
    lineage_step w (w\<lparr>lw_states := snd (compare_exchange (lw_states w) k current new),
      lw_issued := lw_issued w \<union> state_fences new\<rparr>)"
| acquire: "fence \<notin> lw_issued w \<Longrightarrow>
    lineage_step w (w\<lparr>lw_states := snd (acquire_lease (lw_states w) k current kind d fence (lw_now w)),
      lw_issued := insert fence (lw_issued w)\<rparr>)"
| renew: "lineage_step w (w\<lparr>lw_states := snd (renew_lease (lw_states w) k c d (lw_now w))\<rparr>)"
| expire: "state_fences new \<inter> lw_issued w = {} \<Longrightarrow>
    lineage_step w (w\<lparr>lw_states := snd (expire_lease (lw_states w) k c new (lw_now w)),
      lw_issued := lw_issued w \<union> state_fences new\<rparr>)"

text \<open>The steps during which the clock is not set back.\<close>

definition forward_step :: "lineage_world \<Rightarrow> lineage_world \<Rightarrow> bool" where
  "forward_step w w' \<longleftrightarrow> lineage_step w w' \<and> lw_now w \<le> lw_now w'"

definition fence_live :: "lineage_world \<Rightarrow> attempt_key \<Rightarrow> uuid \<Rightarrow> bool" where
  "fence_live w k f \<longleftrightarrow> (\<exists>kind. validate_effect_fence (lw_states w) k kind f (lw_now w))"

text \<open>The attempt's state is a lease with this fence, expired or not.\<close>

definition fence_held :: "lineage_world \<Rightarrow> attempt_key \<Rightarrow> uuid \<Rightarrow> bool" where
  "fence_held w k f \<longleftrightarrow> (\<exists>state. lw_states w k = Some state \<and> f \<in> state_fences state)"

section \<open>The store contract\<close>

lemma lease_parts_state [simp]: "lease_parts (lease_state kind f e) = Some (kind, f, e)"
  by (cases kind) simp_all

lemma lease_state_inject [simp]:
  "lease_state kind f e = lease_state kind' f' e' \<longleftrightarrow> kind = kind' \<and> f = f' \<and> e = e'"
  by (metis lease_parts_state option.inject prod.inject)

lemma lease_parts_SomeD: "lease_parts s = Some (kind, f, e) \<Longrightarrow> s = lease_state kind f e"
  by (cases s) auto

text \<open>
  What the documentation of the trait promises: exact compare-and-swap, leases that expire at
  the store's own time plus the duration, renewal of the exact fence only while unexpired, expiry
  only when expired, and a fence check that fails closed.
\<close>

locale lineage_store =
  fixes load :: "'s \<Rightarrow> attempt_key \<Rightarrow> CapabilityAttemptLineageState option"
    and exchange :: "'s \<Rightarrow> attempt_key \<Rightarrow> CapabilityAttemptLineageState option
      \<Rightarrow> CapabilityAttemptLineageState \<Rightarrow> bool \<times> 's"
    and acquire :: "'s \<Rightarrow> attempt_key \<Rightarrow> CapabilityAttemptLineageState option \<Rightarrow> CapabilityLeaseKind
      \<Rightarrow> u64 \<Rightarrow> uuid \<Rightarrow> u64 \<Rightarrow> CapabilityAttemptLineageState option \<times> 's"
    and renew :: "'s \<Rightarrow> attempt_key \<Rightarrow> CapabilityAttemptLineageState \<Rightarrow> u64 \<Rightarrow> u64
      \<Rightarrow> CapabilityAttemptLineageState option \<times> 's"
    and expire :: "'s \<Rightarrow> attempt_key \<Rightarrow> CapabilityAttemptLineageState \<Rightarrow> CapabilityAttemptLineageState
      \<Rightarrow> u64 \<Rightarrow> bool \<times> 's"
    and check :: "'s \<Rightarrow> attempt_key \<Rightarrow> CapabilityLeaseKind \<Rightarrow> uuid \<Rightarrow> u64 \<Rightarrow> bool"
  assumes exchange_iff: "fst (exchange s k c n) \<longleftrightarrow> load s k = c"
    and exchange_load: "load (snd (exchange s k c n)) =
      (if load s k = c then (load s)(k \<mapsto> n) else load s)"
    and acquire_result: "fst (acquire s k c kind d f now) =
      (if load s k = c then Some (lease_state kind f (saturating_add now d)) else None)"
    and acquire_load: "load (snd (acquire s k c kind d f now)) =
      (if load s k = c then (load s)(k \<mapsto> lease_state kind f (saturating_add now d)) else load s)"
    and renew_result: "fst (renew s k l d now) = Some c' \<longleftrightarrow>
      (\<exists>kind f e. load s k = Some l \<and> l = lease_state kind f e \<and> now < e \<and>
         c' = lease_state kind f (saturating_add now d))"
    and renew_load: "load (snd (renew s k l d now)) =
      (case fst (renew s k l d now) of None \<Rightarrow> load s | Some c' \<Rightarrow> (load s)(k \<mapsto> c'))"
    and expire_iff: "fst (expire s k l n now) \<longleftrightarrow>
      (\<exists>kind f e. load s k = Some l \<and> l = lease_state kind f e \<and> e \<le> now)"
    and expire_load: "load (snd (expire s k l n now)) =
      (if fst (expire s k l n now) then (load s)(k \<mapsto> n) else load s)"
    and check_iff: "check s k kind f now \<longleftrightarrow> (\<exists>e. load s k = Some (lease_state kind f e) \<and> now < e)"
begin

lemma check_unique: "check s k kind f now \<Longrightarrow> check s k kind' f' now \<Longrightarrow> kind = kind' \<and> f = f'"
  by (auto simp: check_iff)

lemma acquired_checks:
  assumes "fst (acquire s k c kind d f now) = Some st" and "now < saturating_add now d"
  shows "check (snd (acquire s k c kind d f now)) k kind f now"
  using assms by (auto simp: acquire_result acquire_load check_iff split: if_splits)

lemma acquire_one_winner:
  assumes "fst (acquire s k c kind d f now) = Some st" and "c \<noteq> Some st"
  shows "fst (acquire (snd (acquire s k c kind d f now)) k c kind' d' f' now') = None"
  using assms by (auto simp: acquire_result acquire_load split: if_splits)

lemma renewal_keeps_fence:
  assumes "fst (renew s k l d now) = Some l'"
  shows "\<exists>kind f. check s k kind f now \<and>
    (now < saturating_add now d \<longrightarrow> check (snd (renew s k l d now)) k kind f now)"
proof -
  obtain kind f e where r: "load s k = Some l" "l = lease_state kind f e" "now < e"
    "l' = lease_state kind f (saturating_add now d)"
    using assms unfolding renew_result by blast
  have "load (snd (renew s k l d now)) k = Some l'" by (simp add: renew_load assms)
  with r show ?thesis unfolding check_iff by auto
qed

lemma no_renewal_after_expiry:
  assumes "\<not> (\<exists>kind f. check s k kind f now)"
  shows "fst (renew s k l d now) = None"
proof (cases "fst (renew s k l d now)")
  case (Some l')
  with assms show ?thesis using renewal_keeps_fence by blast
qed

lemma live_fence_not_expired: "check s k kind f now \<Longrightarrow> \<not> fst (expire s k l n now)"
  by (auto simp: check_iff expire_iff)

end

interpretation memory_lineage: lineage_store lineage_load compare_exchange acquire_lease renew_lease
  expire_lease validate_effect_fence
proof unfold_locales
  fix s :: lineage_states and k l d now l' n kind f
  show "fst (renew_lease s k l d now) = Some l' \<longleftrightarrow>
      (\<exists>kind f e. lineage_load s k = Some l \<and> l = lease_state kind f e \<and> now < e \<and>
         l' = lease_state kind f (saturating_add now d))"
    by (cases "lease_parts l")
      (auto simp: renew_lease_def lineage_load_def Let_def dest!: lease_parts_SomeD split: if_splits)
  show "fst (expire_lease s k l n now) \<longleftrightarrow>
      (\<exists>kind f e. lineage_load s k = Some l \<and> l = lease_state kind f e \<and> e \<le> now)"
    by (cases "lease_parts l")
      (auto simp: expire_lease_def lineage_load_def dest!: lease_parts_SomeD split: if_splits)
  show "validate_effect_fence s k kind f now \<longleftrightarrow>
      (\<exists>e. lineage_load s k = Some (lease_state kind f e) \<and> now < e)"
    by (auto simp: validate_effect_fence_def lineage_load_def dest!: lease_parts_SomeD
        split: option.splits)
qed (auto simp: lineage_load_def compare_exchange_def acquire_lease_def renew_lease_def
    expire_lease_def Let_def fun_eq_iff split: option.splits if_splits)

section \<open>Fencing\<close>

text \<open>A fence is dead at a key when no unexpired lease there carries it.\<close>

lemma fence_live_iff:
  "fence_live w k f \<longleftrightarrow> (\<exists>kind e. lw_states w k = Some (lease_state kind f e) \<and> lw_now w < e)"
  by (simp add: fence_live_def memory_lineage.check_iff lineage_load_def)

lemmas store_effects =
  memory_lineage.exchange_load memory_lineage.acquire_load memory_lineage.renew_load
  memory_lineage.expire_load

lemma renewed_fence_was_live:
  assumes "fst (renew_lease s k l d now) = Some (lease_state kind f e')"
  shows "\<exists>e. s k = Some (lease_state kind f e) \<and> now < e"
  using assms by (auto simp: memory_lineage.renew_result lineage_load_def)

lemma state_fences_iff: "f \<in> state_fences s \<longleftrightarrow> (\<exists>kind e. s = lease_state kind f e)"
  by (auto simp: state_fences_def dest: lease_parts_SomeD)

lemma fence_held_iff: "fence_held w k f \<longleftrightarrow> (\<exists>kind e. lw_states w k = Some (lease_state kind f e))"
  by (auto simp: fence_held_def state_fences_iff)

text \<open>What one step does to an issued fence: it installs no lease with that fence but a renewal of a
  lease that is accepted.\<close>

lemma issued_step:
  assumes "lineage_step w w'" and "f \<in> lw_issued w"
  shows "f \<in> lw_issued w'" "lw_states w' k = Some (lease_state kind f e) \<Longrightarrow>
    lw_states w k = Some (lease_state kind f e) \<or> fence_live w k f \<and> lw_now w' = lw_now w"
proof -
  from assms show "f \<in> lw_issued w'" by cases auto
  assume held: "lw_states w' k = Some (lease_state kind f e)"
  from assms show "lw_states w k = Some (lease_state kind f e) \<or> fence_live w k f \<and> lw_now w' = lw_now w"
  proof cases
    case (exchange new k' c)
    then show ?thesis
      using held assms(2) fun_cong [OF store_effects(1) [of "lw_states w" k' c new], of k]
      by (auto simp: lineage_load_def state_fences_iff split: if_splits)
  next
    case (acquire g k' c kind' d)
    then show ?thesis
      using held assms(2) fun_cong [OF store_effects(2) [of "lw_states w" k' c kind' d g "lw_now w"], of k]
      by (auto simp: lineage_load_def split: if_splits)
  next
    case (renew k' c d)
    then show ?thesis
      using held fun_cong [OF store_effects(3) [of "lw_states w" k' c d "lw_now w"], of k]
      by (auto simp: lineage_load_def fence_live_iff split: option.splits if_splits dest: renewed_fence_was_live)
  next
    case (expire new k' c)
    then show ?thesis
      using held assms(2) fun_cong [OF store_effects(4) [of "lw_states w" k' c new "lw_now w"], of k]
      by (auto simp: lineage_load_def state_fences_iff split: if_splits)
  qed (use held in simp)
qed

lemma lost_fence_step:
  assumes "lineage_step w w'" and "f \<in> lw_issued w" and "\<not> fence_held w k f"
  shows "f \<in> lw_issued w' \<and> \<not> fence_held w' k f"
  using issued_step [OF assms(1,2)] assms(3) by (fastforce simp: fence_held_iff fence_live_iff)

lemma dead_fence_step:
  assumes "forward_step w w'" and "f \<in> lw_issued w" and "\<not> fence_live w k f"
  shows "f \<in> lw_issued w' \<and> \<not> fence_live w' k f"
proof -
  have step: "lineage_step w w'" "lw_now w \<le> lw_now w'" using assms(1) by (simp_all add: forward_step_def)
  then show ?thesis
    using issued_step [OF step(1) assms(2)] assms(3) by (fastforce simp: fence_live_iff)
qed

text \<open>\<^bold>\<open>C8.\<close> A fence that has been issued and that the attempt's lease no longer carries is never accepted
  again, whatever operations follow and however the clock is set: neither a late renewal nor another
  lease on the same attempt revives the right of an executor that lost its lease to act. A fence whose
  lease has only expired stays refused as long as the clock is not set back. New leases carry fresh
  fences.\<close>

theorem fence_never_revived:
  assumes "f \<in> lw_issued w"
  shows "(lineage_step\<^sup>*\<^sup>* w w' \<and> \<not> fence_held w k f \<longrightarrow> \<not> fence_live w' k f) \<and>
    (forward_step\<^sup>*\<^sup>* w w' \<and> \<not> fence_live w k f \<longrightarrow> \<not> fence_live w' k f)"
proof (intro conjI impI; elim conjE)
  assume "lineage_step\<^sup>*\<^sup>* w w'" "\<not> fence_held w k f"
  then have "f \<in> lw_issued w' \<and> \<not> fence_held w' k f"
    by (induction rule: rtranclp_induct) (use assms lost_fence_step in blast)+
  then show "\<not> fence_live w' k f" by (auto simp: fence_live_iff fence_held_iff)
next
  assume "forward_step\<^sup>*\<^sup>* w w'" "\<not> fence_live w k f"
  then have "f \<in> lw_issued w' \<and> \<not> fence_live w' k f"
    by (induction rule: rtranclp_induct) (use assms dead_fence_step in blast)+
  then show "\<not> fence_live w' k f" ..
qed

definition example_world :: lineage_world where
  "example_world = \<lparr>lw_states = [(1, 1) \<mapsto> ExecutingState 7 5], lw_now = 9, lw_issued = {7}\<rparr>"

text \<open>A renewal that comes too late, and an expired lease that is taken over before the clock is set back.\<close>

definition example_late :: lineage_world where
  "example_late = example_world\<lparr>lw_states :=
     snd (renew_lease (lw_states example_world) (1, 1) (ExecutingState 7 5) 100 9)\<rparr>"

definition example_taken :: lineage_world where
  "example_taken = example_world\<lparr>lw_states :=
     snd (acquire_lease (lw_states example_world) (1, 1) (Some (ExecutingState 7 5)) RetryExecuting 100 8 9),
     lw_issued := {8, 7}\<rparr>"

theorem fence_never_revived_witness:
  "\<not> fence_live example_late (1, 1) 7 \<and> \<not> fence_live (example_taken\<lparr>lw_now := 2\<rparr>) (1, 1) 7"
proof
  have w: "lw_now example_world = 9" "lw_issued example_world = {7}" by (simp_all add: example_world_def)
  have "forward_step example_world example_late"
    using lineage_step.renew [of example_world "(1, 1)" "ExecutingState 7 5" 100] w
    by (simp add: forward_step_def example_late_def)
  moreover have "\<not> fence_live example_world (1, 1) 7"
    by (simp add: example_world_def fence_live_def validate_effect_fence_def)
  ultimately show "\<not> fence_live example_late (1, 1) 7"
    using fence_never_revived [of 7 example_world example_late "(1, 1)"] w by auto
  have "lineage_step example_taken (example_taken\<lparr>lw_now := 2\<rparr>)" by (rule lineage_step.tick)
  moreover have "\<not> fence_held example_taken (1, 1) 7" "7 \<in> lw_issued example_taken"
    by (simp_all add: example_taken_def example_world_def acquire_lease_def fence_held_def state_fences_def Let_def)
  ultimately show "\<not> fence_live (example_taken\<lparr>lw_now := 2\<rparr>) (1, 1) 7"
    using fence_never_revived [of 7 example_taken "example_taken\<lparr>lw_now := 2\<rparr>" "(1, 1)"] by auto
qed

text \<open>Claiming an attempt is exclusive: of two claims made against the same observed state only
  the first gets a lease, and while the lease runs its own fence, in its own role, is the only one
  that is accepted for effects.\<close>

theorem lease_claim_exclusive:
  assumes "fst (acquire_lease s k c kind d f now) = Some st" and "c \<noteq> Some st"
    and "now < saturating_add now d"
  shows "fst (acquire_lease (snd (acquire_lease s k c kind d f now)) k c kind' d' f' now') = None \<and>
    (validate_effect_fence (snd (acquire_lease s k c kind d f now)) k kind' f' now \<longleftrightarrow>
       kind' = kind \<and> f' = f)"
  using memory_lineage.acquire_one_winner [OF assms(1,2)] memory_lineage.acquired_checks [OF assms(1,3)]
    memory_lineage.check_unique by blast

theorem lease_claim_exclusive_witness:
  "fst (acquire_lease (snd (acquire_lease Map.empty (1, 1) None Executing 30 7 9)) (1, 1) None
     Executing 30 8 10) = None"
proof -
  have "fst (acquire_lease Map.empty (1, 1) None Executing 30 7 9) = Some (ExecutingState 7 39)"
    by (simp add: acquire_lease_def saturating_add_def Let_def)
  from lease_claim_exclusive [OF this] show ?thesis by (simp add: saturating_add_def)
qed

text \<open>For the holder of a lease, time decides: before the expiry the lease can be renewed and
  validates and cannot be expired, from the expiry on it can be expired and can neither be renewed
  nor used.\<close>

theorem lease_renew_or_expire:
  assumes "s k = Some (lease_state kind f e)"
  shows "validate_effect_fence s k kind f now = (now < e) \<and>
    (fst (renew_lease s k (lease_state kind f e) d now) \<noteq> None) = (now < e) \<and>
    fst (expire_lease s k (lease_state kind f e) n now) = (e \<le> now)"
  using assms memory_lineage.renew_result [of s k "lease_state kind f e" d now]
  by (auto simp: memory_lineage.check_iff memory_lineage.expire_iff lineage_load_def)

theorem lease_renew_or_expire_witness:
  "validate_effect_fence [(1, 1) \<mapsto> ExecutingState 7 5] (1, 1) Executing 7 4"
  using lease_renew_or_expire [of "[(1, 1) \<mapsto> ExecutingState 7 5]" "(1, 1)" Executing 7 5 4]
  by simp

end
