(* ===== verification/Ordered_Map.thy ===== *)
theory Ordered_Map
  imports Anima_Prelude
begin

text \<open>
  Rust's \<open>BTreeMap\<close> where the code iterates over it, takes a range of it or counts its entries: a
  list of pairs with strictly rising keys. \<open>get\<close> and \<open>contains_key\<close> are \<^const>\<open>map_of\<close>.
\<close>

fun bt_insert :: "'k::linorder \<Rightarrow> 'v \<Rightarrow> ('k \<times> 'v) list \<Rightarrow> ('k \<times> 'v) list" where
  "bt_insert k v [] = [(k, v)]"
| "bt_insert k v ((k', v') # t) =
     (if k < k' then (k, v) # (k', v') # t
      else if k = k' then (k, v) # t
      else (k', v') # bt_insert k v t)"

definition bt_wf :: "('k::linorder \<times> 'v) list \<Rightarrow> bool" where
  "bt_wf t \<longleftrightarrow> sorted_wrt (<) (map fst t)"

text \<open>\<open>range((Excluded(lo), Included(hi)))\<close> and \<open>last_key_value\<close>.\<close>

definition bt_range :: "'k::linorder \<Rightarrow> 'k \<Rightarrow> ('k \<times> 'v) list \<Rightarrow> ('k \<times> 'v) list" where
  "bt_range lo hi t = filter (\<lambda>(k, v). lo < k \<and> k \<le> hi) t"

definition bt_last_key :: "('k \<times> 'v) list \<Rightarrow> 'k option" where
  "bt_last_key t = (if t = [] then None else Some (fst (last t)))"

lemma map_of_bt_insert [simp]: "map_of (bt_insert k v t) = (map_of t)(k \<mapsto> v)"
  by (induction k v t rule: bt_insert.induct) (auto simp: fun_eq_iff)

lemma set_bt_insert [simp]: "fst ` set (bt_insert k v t) = insert k (fst ` set t)"
  by (induction k v t rule: bt_insert.induct) auto

lemma bt_wf_Nil [simp]: "bt_wf []"
  by (simp add: bt_wf_def)

lemma bt_wf_Cons [simp]: "bt_wf (p # t) \<longleftrightarrow> (\<forall>x \<in> fst ` set t. fst p < x) \<and> bt_wf t"
  by (simp add: bt_wf_def)

lemma bt_wf_insert [simp]: "bt_wf t \<Longrightarrow> bt_wf (bt_insert k v t)"
proof (induction k v t rule: bt_insert.induct)
  case (2 k v k' v' t)
  consider "k < k'" | "k = k'" | "k' < k" by fastforce
  then show ?case
  proof cases
    case 1
    then have "\<forall>x \<in> fst ` set t. k < x" using 2(2) by (auto intro: order.strict_trans)
    with 1 2(2) show ?thesis by simp
  next
    case 3
    then have "bt_wf (bt_insert k v t)" using 2 by simp
    moreover have "\<forall>x \<in> fst ` set (bt_insert k v t). k' < x"
      unfolding set_bt_insert using 2(2) 3 by simp
    ultimately show ?thesis using 3 not_less_iff_gr_or_eq by (auto simp del: set_bt_insert)
  qed (use 2(2) in simp)
qed simp

lemma bt_wf_distinct: "bt_wf t \<Longrightarrow> distinct (map fst t)"
  by (simp add: bt_wf_def strict_sorted_iff)

lemma bt_length_insert:
  "bt_wf t \<Longrightarrow> length (bt_insert k v t) = (if map_of t k = None then Suc (length t) else length t)"
proof (induction k v t rule: bt_insert.induct)
  case (2 k v k' v' t)
  then have "k < k' \<Longrightarrow> k \<notin> fst ` set t" by (force simp: bt_wf_def)
  with 2 show ?case by (auto simp: bt_wf_def map_of_eq_None_iff)
qed simp

end
