(* ===== verification/Text.thy ===== *)
theory Text
  imports Ordered_Map
begin

text \<open>
  Tests on UTF-8 text that several components share: the number of characters, control characters and
  white space at the ends. A \<open>&str\<close> is the list of its bytes.
\<close>

text \<open>\<open>chars().count()\<close>: the bytes of a UTF-8 string that do not continue a character.\<close>

definition char_count :: "string \<Rightarrow> nat" where
  "char_count s = length (filter (\<lambda>c. \<not> (0x80 \<le> code c \<and> code c < 0xC0)) s)"

text \<open>\<open>chars().any(char::is_control)\<close>: U+0000..U+001F and U+007F are one byte, U+0080..U+009F two.\<close>

definition control1 :: "char \<Rightarrow> bool" where
  "control1 a \<longleftrightarrow> code a < 0x20 \<or> code a = 0x7F"

fun any_control :: "string \<Rightarrow> bool" where
  "any_control [] = False"
| "any_control [a] = control1 a"
| "any_control (a # b # s) \<longleftrightarrow>
     control1 a \<or> (code a = 0xC2 \<and> 0x80 \<le> code b \<and> code b < 0xA0) \<or> any_control (b # s)"

text \<open>\<open>s.trim() == s\<close>: no white space at the start and none at the end.\<close>

definition ends_white :: "string \<Rightarrow> bool" where
  "ends_white s \<longleftrightarrow>
     (case rev s of
        [] \<Rightarrow> False
      | [c] \<Rightarrow> white1 c
      | [c, b] \<Rightarrow> white1 c \<or> white2 b c
      | c # b # a # _ \<Rightarrow> white1 c \<or> white2 b c \<or> white3 a b c)"

definition trimmed :: "string \<Rightarrow> bool" where
  "trimmed s \<longleftrightarrow> trim_start s = s \<and> \<not> ends_white s"

end
