(* ===== verification/Primitives.thy ===== *)
theory Primitives
  imports Text
begin

text \<open>
  The messages of \<open>anima-core/src/primitives.rs\<close>: attachments, contents and roles, which checkpoints and
  the context window share.
\<close>

datatype AttachmentType = FileAttachment | ImageAttachment | UrlAttachment

record Attachment =
  att_type :: AttachmentType
  att_name :: string
  att_data :: string
  att_mime_type :: "string option"

datatype MessageRole = RoleUser | RoleAssistant | RoleSystem | RoleTool

text \<open>Metadata values are of a type \<open>'d\<close> that only estimates read.\<close>

record 'd Content =
  ct_text :: string
  ct_attachments :: "Attachment list option"
  ct_metadata :: "(string \<rightharpoonup> 'd) option"

record 'd Message =
  mg_id :: string
  mg_agent_id :: string
  mg_room_id :: string
  mg_content :: "'d Content"
  mg_role :: MessageRole
  mg_created_at_ms :: u64

end
