(* ===== verification/Policy.thy ===== *)
theory Policy
  imports Capability
begin

text \<open>
  Capability risk evaluation, \<open>anima-core/src/policy.rs\<close>: contexts and their provenance, grants
  and grant scopes, decisions and audit reasons, approval requests and decisions, and the
  operations of \<open>PolicyEngine\<close>. Evaluation is pure; the clock reading is a field of the context.

  \<open>Serialize\<close> writes the fields of a value and \<open>Deserialize\<close> builds the value again through the
  same checks (\<open>..._load\<close>): the wire structs have the fields of the value, except that the
  provenance of a context and the binding of a decision are not written.
\<close>

section \<open>Data\<close>

definition APPROVAL_WINDOW_MS :: i64 where "APPROVAL_WINDOW_MS = 300000"
definition MAX_POLICY_IDENTIFIER_BYTES :: nat where "MAX_POLICY_IDENTIFIER_BYTES = 128"

datatype PolicyValidationError =
    BlankIdentifier string
  | InvalidVersion
  | InvalidRiskConstraint
  | UnverifiedPolicyContext
  | ContextManifestMismatch
  | ContextInvocationMismatch
  | InvalidValidityWindow
  | InconsistentApprovalBinding
  | InvalidApprovalTime
  | ApprovalWindowOverflow
  | ApprovalNotRequired
  | DuplicateGrantIdentity
  | SuppliedGrantDoesNotMatch
  | InvalidNilIdentifier
  | InvalidIdentifierFormat string
  | IdentifierTooLong string
  | InconsistentAuditRecord

record PolicyRestrictions =
  minimum_risk :: "RiskLevel option"
  restrictions_deny :: bool

record PolicyInputSnapshot =
  pis_manifest_id :: string
  pis_manifest_version :: u32
  pis_manifest_risk :: RiskLevel
  pis_run_id :: uuid
  pis_logical_step_id :: string
  pis_logical_invocation_id :: uuid
  pis_canonical_argument_digest :: uuid

record PolicyContext =
  pc_owner_id :: string
  pc_actor_id :: string
  pc_agent_definition_id :: string
  pc_agent_definition_version :: u32
  pc_workspace_id :: string
  pc_resource_boundary :: uuid
  pc_capability_id :: string
  pc_manifest_version :: u32
  pc_manifest_risk :: RiskLevel
  pc_run_id :: uuid
  pc_logical_step_id :: string
  pc_logical_invocation_id :: uuid
  pc_canonical_argument_digest :: uuid
  pc_policy_revision :: u32
  pc_restrictions :: PolicyRestrictions
  pc_now_ms :: i64
  pc_provenance :: "PolicyInputSnapshot option"

datatype PolicyReasonCode =
    AllowedByDefault
  | ApprovalRequired
  | DeniedByDefault
  | DeniedByRestriction
  | AllowedByGrant
  | AllowedByExactGrantOverride
  | AllowedByApproval

record PolicyReason =
  pr_code :: PolicyReasonCode
  pr_effective_risk :: RiskLevel
  pr_policy_revision :: u32
  pr_grant_id :: "string option"
  pr_grant_revision :: "u32 option"

datatype PolicyDecision =
    Allow (decision_reason: PolicyReason)
  | RequireApproval (decision_reason: PolicyReason)
  | Deny (decision_reason: PolicyReason)

record GrantScope =
  gs_owner_id :: string
  gs_actor_id :: string
  gs_agent_definition_id :: string
  gs_agent_definition_version :: u32
  gs_workspace_id :: string
  gs_resource_boundary :: uuid
  gs_capability_id :: string
  gs_manifest_version :: u32
  gs_canonical_argument_digest :: "uuid option"

datatype GrantStatus = Active | Revoked

text \<open>\<open>GrantEffect::ApprovalRequired\<close> is \<open>ApprovalFirst\<close>, the reason code keeps the name.\<close>

datatype GrantEffect = AutoAllow | ApprovalFirst

record AutonomyGrant =
  ag_id :: string
  ag_revision :: u32
  ag_status :: GrantStatus
  ag_effect :: GrantEffect
  ag_scope :: GrantScope
  ag_maximum_risk :: RiskLevel
  ag_valid_from_ms :: i64
  ag_valid_until_ms :: "i64 option"
  ag_remaining_uses :: "u32 option"

record GrantConsumption =
  gc_grant_id :: string
  gc_grant_revision :: u32
  gc_logical_invocation_id :: uuid

record PolicyEvaluation =
  ev_decision :: PolicyDecision
  ev_consumption :: "GrantConsumption option"

record ApprovalRequest =
  ar_owner_id :: string
  ar_actor_id :: string
  ar_agent_definition_id :: string
  ar_agent_definition_version :: u32
  ar_workspace_id :: string
  ar_resource_boundary :: uuid
  ar_restrictions :: PolicyRestrictions
  ar_run_id :: uuid
  ar_logical_step_id :: string
  ar_logical_invocation_id :: uuid
  ar_capability_id :: string
  ar_manifest_version :: u32
  ar_canonical_argument_digest :: uuid
  ar_effective_risk :: RiskLevel
  ar_reason :: PolicyReason
  ar_policy_revision :: u32
  ar_grant_id :: "string option"
  ar_grant_revision :: "u32 option"
  ar_grant_remaining_uses :: "u32 option"
  ar_requested_at_ms :: i64
  ar_expires_at_ms :: i64

datatype ApprovalDecisionKind = ApproveDecision | DenyDecision

record ApprovalDecisionBinding =
  adb_request :: ApprovalRequest
  adb_kind :: ApprovalDecisionKind
  adb_decided_at_ms :: i64

record ApprovalDecision =
  ad_request :: ApprovalRequest
  ad_kind :: ApprovalDecisionKind
  ad_decided_at_ms :: i64
  ad_binding :: "ApprovalDecisionBinding option"

datatype ApprovalValidity =
    Valid | InvalidBinding | InvalidDecision | InvalidOwner | InvalidActor | InvalidDefinition
  | InvalidWorkspace | InvalidResource | InvalidRestrictions | InvalidRun | InvalidStep
  | InvalidInvocation | InvalidManifest | InvalidArguments | InvalidRisk | Expired | InvalidGrant

section \<open>Identifiers and risk\<close>

definition policy_identifier_byte :: "char \<Rightarrow> bool" where
  "policy_identifier_byte b \<longleftrightarrow>
     is_ascii_alphanumeric b \<or> b \<in> {CHR ''-'', CHR ''_'', CHR ''.'', CHR '':''}"

definition validate_policy_identifier ::
  "string \<Rightarrow> string \<Rightarrow> (PolicyValidationError, unit) result" where
  "validate_policy_identifier field value =
     (if blank value then Err (BlankIdentifier field)
      else if length value > MAX_POLICY_IDENTIFIER_BYTES then Err (IdentifierTooLong field)
      else if \<not> list_all policy_identifier_byte value then Err (InvalidIdentifierFormat field)
      else Ok ())"

definition validate_task2_identifier ::
  "string \<Rightarrow> string \<Rightarrow> (PolicyValidationError, unit) result" where
  "validate_task2_identifier field value =
     (if value = [] then Err (BlankIdentifier field)
      else if length value > MAX_CAPABILITY_ID_BYTES then Err (IdentifierTooLong field)
      else Ok ())"

definition validate_resource_boundary :: "uuid \<Rightarrow> (PolicyValidationError, unit) result" where
  "validate_resource_boundary r = reject_if (uuid_is_nil r) InvalidNilIdentifier"

fun risk_rank :: "RiskLevel \<Rightarrow> u8" where
  "risk_rank NoRisk = 0"
| "risk_rank Low = 1"
| "risk_rank Medium = 2"
| "risk_rank High = 3"
| "risk_rank Critical = 4"

definition max_risk :: "RiskLevel \<Rightarrow> RiskLevel \<Rightarrow> RiskLevel" where
  "max_risk l r = (if risk_rank l \<ge> risk_rank r then l else r)"

section \<open>Policy contexts\<close>

definition effective_risk :: "PolicyContext \<Rightarrow> RiskLevel" where
  "effective_risk c =
     (case minimum_risk (pc_restrictions c) of
        None \<Rightarrow> pc_manifest_risk c
      | Some m \<Rightarrow> max_risk (pc_manifest_risk c) m)"

definition requires_exact_argument_scope :: "PolicyContext \<Rightarrow> bool" where
  "requires_exact_argument_scope c \<longleftrightarrow>
     effective_risk c = Critical \<or> restrictions_deny (pc_restrictions c)"

definition PolicyContext_validate :: "PolicyContext \<Rightarrow> (PolicyValidationError, unit) result" where
  "PolicyContext_validate c =
     try_then (try_all (\<lambda>(field, value). validate_policy_identifier field value)
       [(''owner_id'', pc_owner_id c), (''actor_id'', pc_actor_id c),
        (''agent_definition_id'', pc_agent_definition_id c), (''workspace_id'', pc_workspace_id c)]) (\<lambda>_.
     try_then (validate_task2_identifier ''capability_id'' (pc_capability_id c)) (\<lambda>_.
     try_then (validate_task2_identifier ''logical_step_id'' (pc_logical_step_id c)) (\<lambda>_.
     try_then (validate_resource_boundary (pc_resource_boundary c)) (\<lambda>_.
     if pc_agent_definition_version c = 0 \<or> pc_manifest_version c = 0 \<or> pc_policy_revision c = 0
       then Err InvalidVersion
     else if pc_manifest_risk c = NoRisk \<or> minimum_risk (pc_restrictions c) = Some NoRisk
       then Err InvalidRiskConstraint
     else Ok ()))))"

definition verify_against ::
  "'x capability_lib_scheme \<Rightarrow> PolicyContext \<Rightarrow> CapabilityManifest \<Rightarrow> LogicalInvocation
     \<Rightarrow> (PolicyValidationError crash, PolicyContext) result" where
  "verify_against L c manifest invocation =
     (let seed = li_seed invocation in
      try_then (raised (PolicyContext_validate c)) (\<lambda>_.
      if cm_id manifest \<noteq> seed_capability_id seed
         \<or> cm_version manifest \<noteq> seed_manifest_version seed
         \<or> pc_capability_id c \<noteq> cm_id manifest
         \<or> pc_manifest_version c \<noteq> cm_version manifest
         \<or> pc_manifest_risk c \<noteq> cm_risk_level manifest
        then Err (Raised ContextManifestMismatch)
      else if pc_run_id c \<noteq> seed_run_id seed
         \<or> pc_logical_step_id c \<noteq> seed_logical_step_id seed
         \<or> pc_logical_invocation_id c \<noteq> li_id invocation
        then Err (Raised ContextInvocationMismatch)
      else try_then (canonical_argument_digest L invocation) (\<lambda>digest.
        if pc_canonical_argument_digest c \<noteq> digest then Err (Raised ContextInvocationMismatch)
        else Ok (c\<lparr>pc_provenance := Some
          \<lparr>pis_manifest_id = cm_id manifest, pis_manifest_version = cm_version manifest,
           pis_manifest_risk = cm_risk_level manifest, pis_run_id = seed_run_id seed,
           pis_logical_step_id = seed_logical_step_id seed,
           pis_logical_invocation_id = li_id invocation,
           pis_canonical_argument_digest = digest\<rparr>\<rparr>))))"

definition PolicyContext_new ::
  "'x capability_lib_scheme \<Rightarrow> string \<Rightarrow> string \<Rightarrow> string \<Rightarrow> u32 \<Rightarrow> string \<Rightarrow> uuid
     \<Rightarrow> CapabilityManifest \<Rightarrow> LogicalInvocation \<Rightarrow> u32 \<Rightarrow> PolicyRestrictions \<Rightarrow> i64
     \<Rightarrow> (PolicyValidationError crash, PolicyContext) result" where
  "PolicyContext_new L owner_id actor_id agent_definition_id agent_definition_version workspace_id
       resource_boundary manifest invocation policy_revision restrictions now_ms =
     try_then (canonical_argument_digest L invocation) (\<lambda>digest.
       verify_against L
         \<lparr>pc_owner_id = owner_id, pc_actor_id = actor_id,
          pc_agent_definition_id = agent_definition_id,
          pc_agent_definition_version = agent_definition_version,
          pc_workspace_id = workspace_id, pc_resource_boundary = resource_boundary,
          pc_capability_id = cm_id manifest, pc_manifest_version = cm_version manifest,
          pc_manifest_risk = cm_risk_level manifest, pc_run_id = seed_run_id (li_seed invocation),
          pc_logical_step_id = seed_logical_step_id (li_seed invocation),
          pc_logical_invocation_id = li_id invocation, pc_canonical_argument_digest = digest,
          pc_policy_revision = policy_revision, pc_restrictions = restrictions,
          pc_now_ms = now_ms, pc_provenance = None\<rparr>
         manifest invocation)"

definition validate_evaluation_input :: "PolicyContext \<Rightarrow> (PolicyValidationError, unit) result" where
  "validate_evaluation_input c =
     try_then (PolicyContext_validate c) (\<lambda>_.
     case pc_provenance c of
       None \<Rightarrow> Err UnverifiedPolicyContext
     | Some snapshot \<Rightarrow>
         if pis_manifest_id snapshot \<noteq> pc_capability_id c
            \<or> pis_manifest_version snapshot \<noteq> pc_manifest_version c
            \<or> pis_manifest_risk snapshot \<noteq> pc_manifest_risk c
           then Err ContextManifestMismatch
         else if pis_run_id snapshot \<noteq> pc_run_id c
            \<or> pis_logical_step_id snapshot \<noteq> pc_logical_step_id c
            \<or> pis_logical_invocation_id snapshot \<noteq> pc_logical_invocation_id c
            \<or> pis_canonical_argument_digest snapshot \<noteq> pc_canonical_argument_digest c
           then Err ContextInvocationMismatch
         else Ok ())"

text \<open>The provenance is not serialized: a loaded context has none.\<close>

definition PolicyContext_load :: "PolicyContext \<Rightarrow> (PolicyValidationError, PolicyContext) result" where
  "PolicyContext_load wire = checked PolicyContext_validate (wire\<lparr>pc_provenance := None\<rparr>)"

section \<open>Reasons and decisions\<close>

text \<open>The three reason codes that must not cite a grant, and the two that must.\<close>

definition PolicyReason_validate :: "PolicyReason \<Rightarrow> (PolicyValidationError, unit) result" where
  "PolicyReason_validate r =
     (if pr_effective_risk r = NoRisk \<or> pr_policy_revision r = 0 then Err InconsistentAuditRecord
      else try_then
        (case (pr_grant_id r, pr_grant_revision r) of
           (Some i, Some revision) \<Rightarrow>
             if revision > 0
             then try_then (validate_policy_identifier ''grant_id'' i) (\<lambda>_. Ok True)
             else Err InconsistentAuditRecord
         | (None, None) \<Rightarrow> Ok False
         | _ \<Rightarrow> Err InconsistentAuditRecord) (\<lambda>has_grant.
      if pr_code r \<in> {AllowedByGrant, AllowedByExactGrantOverride} \<and> \<not> has_grant
        then Err InconsistentAuditRecord
      else if pr_code r \<in> {AllowedByDefault, DeniedByDefault, DeniedByRestriction} \<and> has_grant
        then Err InconsistentAuditRecord
      else Ok ()))"

definition PolicyReason_new ::
  "PolicyReasonCode \<Rightarrow> RiskLevel \<Rightarrow> u32 \<Rightarrow> string option \<Rightarrow> u32 option
     \<Rightarrow> (PolicyValidationError, PolicyReason) result" where
  "PolicyReason_new c risk policy_revision grant_id grant_revision =
     checked PolicyReason_validate
       \<lparr>pr_code = c, pr_effective_risk = risk, pr_policy_revision = policy_revision,
        pr_grant_id = grant_id, pr_grant_revision = grant_revision\<rparr>"

text \<open>The helper \<open>reason\<close> unwraps: a reason that fails its own validation is a panic.\<close>

definition reason ::
  "PolicyReasonCode \<Rightarrow> RiskLevel \<Rightarrow> u32 \<Rightarrow> AutonomyGrant option
     \<Rightarrow> (PolicyValidationError crash, PolicyReason) result" where
  "reason c risk policy_revision grant =
     expect (PolicyReason_new c risk policy_revision
       (map_option ag_id grant) (map_option ag_revision grant))"

fun PolicyDecision_validate :: "PolicyDecision \<Rightarrow> (PolicyValidationError, unit) result" where
  "PolicyDecision_validate (Allow r) =
     try_then (PolicyReason_validate r) (\<lambda>_.
       reject_if (pr_code r \<notin> {AllowedByDefault, AllowedByGrant, AllowedByExactGrantOverride,
         AllowedByApproval}) InconsistentAuditRecord)"
| "PolicyDecision_validate (RequireApproval r) =
     try_then (PolicyReason_validate r) (\<lambda>_.
       reject_if (pr_code r \<noteq> ApprovalRequired) InconsistentAuditRecord)"
| "PolicyDecision_validate (Deny r) =
     try_then (PolicyReason_validate r) (\<lambda>_.
       reject_if (pr_code r \<notin> {DeniedByDefault, DeniedByRestriction}) InconsistentAuditRecord)"

definition decision_kind :: "PolicyDecision \<Rightarrow> PolicyReasonCode" where
  "decision_kind d = pr_code (decision_reason d)"

section \<open>Grants\<close>

definition GrantScope_validate :: "GrantScope \<Rightarrow> (PolicyValidationError, unit) result" where
  "GrantScope_validate s =
     try_then (try_all (\<lambda>(field, value). validate_policy_identifier field value)
       [(''owner_id'', gs_owner_id s), (''actor_id'', gs_actor_id s),
        (''agent_definition_id'', gs_agent_definition_id s), (''workspace_id'', gs_workspace_id s)]) (\<lambda>_.
     try_then (validate_task2_identifier ''capability_id'' (gs_capability_id s)) (\<lambda>_.
     try_then (validate_resource_boundary (gs_resource_boundary s)) (\<lambda>_.
     if gs_agent_definition_version s = 0 \<or> gs_manifest_version s = 0 then Err InvalidVersion
     else if is_some_and (gs_canonical_argument_digest s) uuid_is_nil then Err InvalidNilIdentifier
     else Ok ())))"

definition AutonomyGrant_validate :: "AutonomyGrant \<Rightarrow> (PolicyValidationError, unit) result" where
  "AutonomyGrant_validate g =
     try_then (validate_policy_identifier ''grant_id'' (ag_id g)) (\<lambda>_.
     if ag_revision g = 0 then Err InvalidVersion
     else try_then (GrantScope_validate (ag_scope g)) (\<lambda>_.
     if ag_maximum_risk g = NoRisk then Err InvalidRiskConstraint
     else if is_some_and (ag_valid_until_ms g) (\<lambda>until. until \<le> ag_valid_from_ms g)
       then Err InvalidValidityWindow
     else Ok ()))"

definition AutonomyGrant_new_with_effect ::
  "string \<Rightarrow> u32 \<Rightarrow> GrantStatus \<Rightarrow> GrantScope \<Rightarrow> RiskLevel \<Rightarrow> i64 \<Rightarrow> i64 option \<Rightarrow> u32 option
     \<Rightarrow> GrantEffect \<Rightarrow> (PolicyValidationError, AutonomyGrant) result" where
  "AutonomyGrant_new_with_effect i revision status scope maximum_risk valid_from valid_until
       remaining_uses effect =
     checked AutonomyGrant_validate
       \<lparr>ag_id = i, ag_revision = revision, ag_status = status, ag_effect = effect,
        ag_scope = scope, ag_maximum_risk = maximum_risk, ag_valid_from_ms = valid_from,
        ag_valid_until_ms = valid_until, ag_remaining_uses = remaining_uses\<rparr>"

text \<open>Reading a grant back: its scope is loaded (and checked) first, then the grant.\<close>

definition AutonomyGrant_load :: "AutonomyGrant \<Rightarrow> (PolicyValidationError, AutonomyGrant) result" where
  "AutonomyGrant_load w =
     try_then (checked GrantScope_validate (ag_scope w)) (\<lambda>scope.
       AutonomyGrant_new_with_effect (ag_id w) (ag_revision w) (ag_status w) scope
         (ag_maximum_risk w) (ag_valid_from_ms w) (ag_valid_until_ms w) (ag_remaining_uses w)
         (ag_effect w))"

definition GrantConsumption_validate :: "GrantConsumption \<Rightarrow> (PolicyValidationError, unit) result" where
  "GrantConsumption_validate c =
     try_then (validate_policy_identifier ''grant_id'' (gc_grant_id c)) (\<lambda>_.
     if gc_grant_revision c = 0 then Err InvalidVersion
     else if uuid_is_nil (gc_logical_invocation_id c) then Err InvalidNilIdentifier
     else Ok ())"

definition GrantConsumption_new ::
  "string \<Rightarrow> u32 \<Rightarrow> uuid \<Rightarrow> (PolicyValidationError, GrantConsumption) result" where
  "GrantConsumption_new grant_id grant_revision logical_invocation_id =
     checked GrantConsumption_validate
       \<lparr>gc_grant_id = grant_id, gc_grant_revision = grant_revision,
        gc_logical_invocation_id = logical_invocation_id\<rparr>"

definition PolicyEvaluation_new ::
  "PolicyDecision \<Rightarrow> GrantConsumption option \<Rightarrow> (PolicyValidationError, PolicyEvaluation) result" where
  "PolicyEvaluation_new decision consumption =
     try_then (PolicyDecision_validate decision) (\<lambda>_.
     try_then (case consumption of
         None \<Rightarrow> Ok ()
       | Some c \<Rightarrow> try_then (GrantConsumption_validate c) (\<lambda>_.
           case decision of
             Allow r \<Rightarrow>
               reject_if (pr_code r \<notin> {AllowedByGrant, AllowedByExactGrantOverride, AllowedByApproval}
                 \<or> pr_grant_id r \<noteq> Some (gc_grant_id c)
                 \<or> pr_grant_revision r \<noteq> Some (gc_grant_revision c)) InconsistentAuditRecord
           | _ \<Rightarrow> Err InconsistentAuditRecord)) (\<lambda>_.
     Ok \<lparr>ev_decision = decision, ev_consumption = consumption\<rparr>))"

definition grant_identity :: "AutonomyGrant \<Rightarrow> string \<times> u32" where
  "grant_identity g = (ag_id g, ag_revision g)"

text \<open>The loop of \<open>validate_grant_set\<close> with the set of identities seen so far.\<close>

fun grant_set_loop ::
  "(string \<times> u32) set \<Rightarrow> AutonomyGrant list \<Rightarrow> (PolicyValidationError, unit) result" where
  "grant_set_loop seen [] = Ok ()"
| "grant_set_loop seen (g # gs) =
     (if grant_identity g \<in> seen then Err DuplicateGrantIdentity
      else grant_set_loop (insert (grant_identity g) seen) gs)"

definition validate_grant_set :: "AutonomyGrant list \<Rightarrow> (PolicyValidationError, unit) result" where
  "validate_grant_set grants = grant_set_loop {} grants"

definition validated_grant_by_identity ::
  "AutonomyGrant list \<Rightarrow> string \<Rightarrow> u32 \<Rightarrow> (PolicyValidationError, AutonomyGrant option) result" where
  "validated_grant_by_identity grants i revision =
     try_then (validate_grant_set grants) (\<lambda>_.
       Ok (find (\<lambda>g. ag_id g = i \<and> ag_revision g = revision) grants))"

definition grant_matches :: "AutonomyGrant \<Rightarrow> PolicyContext \<Rightarrow> bool" where
  "grant_matches g c \<longleftrightarrow>
     is_ok (validate_evaluation_input c) \<and> is_ok (AutonomyGrant_validate g) \<and>
     ag_status g = Active \<and>
     gs_owner_id (ag_scope g) = pc_owner_id c \<and>
     gs_actor_id (ag_scope g) = pc_actor_id c \<and>
     gs_agent_definition_id (ag_scope g) = pc_agent_definition_id c \<and>
     gs_agent_definition_version (ag_scope g) = pc_agent_definition_version c \<and>
     gs_workspace_id (ag_scope g) = pc_workspace_id c \<and>
     gs_resource_boundary (ag_scope g) = pc_resource_boundary c \<and>
     gs_capability_id (ag_scope g) = pc_capability_id c \<and>
     gs_manifest_version (ag_scope g) = pc_manifest_version c \<and>
     (case gs_canonical_argument_digest (ag_scope g) of
        Some digest \<Rightarrow> digest = pc_canonical_argument_digest c
      | None \<Rightarrow> \<not> requires_exact_argument_scope c) \<and>
     risk_rank (ag_maximum_risk g) \<ge> risk_rank (effective_risk c) \<and>
     pc_now_ms c \<ge> ag_valid_from_ms g \<and>
     is_none_or (ag_valid_until_ms g) (\<lambda>until. pc_now_ms c < until) \<and>
     is_none_or (ag_remaining_uses g) (\<lambda>uses. uses > 0)"

text \<open>The sort key of \<open>select_grant\<close>: ten components compared lexicographically.\<close>

type_synonym grant_key =
  "bool \<times> u8 \<times> bool \<times> bool \<times> u32 \<times> bool \<times> i64 \<times> i64 Reverse \<times> string \<times> u32 Reverse"

definition narrowness :: "AutonomyGrant \<Rightarrow> grant_key" where
  "narrowness g =
     (gs_canonical_argument_digest (ag_scope g) = None,
      risk_rank (ag_maximum_risk g),
      ag_effect g \<noteq> ApprovalFirst,
      ag_remaining_uses g = None,
      (case ag_remaining_uses g of None \<Rightarrow> - 1 | Some uses \<Rightarrow> uses),
      ag_valid_until_ms g = None,
      (case ag_valid_until_ms g of None \<Rightarrow> i64_max | Some until \<Rightarrow> until),
      Reverse (ag_valid_from_ms g),
      ag_id g,
      Reverse (ag_revision g))"

definition select_grant :: "PolicyContext \<Rightarrow> AutonomyGrant list \<Rightarrow> AutonomyGrant option" where
  "select_grant c grants = min_by_key narrowness (filter (\<lambda>g. grant_matches g c) grants)"

section \<open>Approval requests and decisions\<close>

definition ApprovalRequest_validate :: "ApprovalRequest \<Rightarrow> (PolicyValidationError, unit) result" where
  "ApprovalRequest_validate r =
     try_then (PolicyReason_validate (ar_reason r)) (\<lambda>_.
     try_then (try_all (\<lambda>(field, value). validate_policy_identifier field value)
       [(''owner_id'', ar_owner_id r), (''actor_id'', ar_actor_id r),
        (''agent_definition_id'', ar_agent_definition_id r), (''workspace_id'', ar_workspace_id r)]) (\<lambda>_.
     try_then (validate_task2_identifier ''logical_step_id'' (ar_logical_step_id r)) (\<lambda>_.
     try_then (validate_task2_identifier ''capability_id'' (ar_capability_id r)) (\<lambda>_.
     try_then (validate_resource_boundary (ar_resource_boundary r)) (\<lambda>_.
     if ar_agent_definition_version r = 0 \<or> ar_manifest_version r = 0 \<or> ar_policy_revision r = 0
       then Err InvalidVersion
     else if uuid_is_nil (ar_run_id r) \<or> uuid_is_nil (ar_logical_invocation_id r)
          \<or> uuid_is_nil (ar_canonical_argument_digest r)
       then Err InvalidNilIdentifier
     else if ar_requested_at_ms r < 0
          \<or> is_none_or (checked_add_i64 (ar_requested_at_ms r) APPROVAL_WINDOW_MS)
               (\<lambda>expires. ar_expires_at_ms r \<noteq> expires)
       then Err InvalidApprovalTime
     else if ar_effective_risk r = NoRisk
          \<or> minimum_risk (ar_restrictions r) = Some NoRisk
          \<or> pr_effective_risk (ar_reason r) \<noteq> ar_effective_risk r
          \<or> pr_policy_revision (ar_reason r) \<noteq> ar_policy_revision r
          \<or> pr_code (ar_reason r) \<noteq> ApprovalRequired
          \<or> pr_grant_id (ar_reason r) \<noteq> ar_grant_id r
          \<or> pr_grant_revision (ar_reason r) \<noteq> ar_grant_revision r
       then Err InconsistentApprovalBinding
     else (case (ar_grant_id r, ar_grant_revision r, ar_grant_remaining_uses r) of
        (Some i, Some revision, remaining_uses) \<Rightarrow>
          if revision > 0 \<and> is_none_or remaining_uses (\<lambda>uses. uses > 0)
          then validate_policy_identifier ''grant_id'' i
          else Err InconsistentApprovalBinding
      | (None, None, None) \<Rightarrow> Ok ()
      | _ \<Rightarrow> Err InconsistentApprovalBinding))))))"

definition ApprovalDecision_validate :: "ApprovalDecision \<Rightarrow> (PolicyValidationError, unit) result" where
  "ApprovalDecision_validate d =
     try_then (ApprovalRequest_validate (ad_request d)) (\<lambda>_.
     case ad_binding d of
       None \<Rightarrow> Err InconsistentApprovalBinding
     | Some binding \<Rightarrow>
         if adb_request binding \<noteq> ad_request d \<or> adb_kind binding \<noteq> ad_kind d
            \<or> adb_decided_at_ms binding \<noteq> ad_decided_at_ms d
           then Err InconsistentApprovalBinding
         else if ad_decided_at_ms d < ar_requested_at_ms (ad_request d)
            \<or> ad_decided_at_ms d \<ge> ar_expires_at_ms (ad_request d)
           then Err InvalidApprovalTime
         else Ok ())"

definition ApprovalDecision_new ::
  "ApprovalRequest \<Rightarrow> ApprovalDecisionKind \<Rightarrow> i64 \<Rightarrow> (PolicyValidationError, ApprovalDecision) result" where
  "ApprovalDecision_new request kind decided_at_ms =
     checked ApprovalDecision_validate
       \<lparr>ad_request = request, ad_kind = kind, ad_decided_at_ms = decided_at_ms,
        ad_binding = Some \<lparr>adb_request = request, adb_kind = kind,
          adb_decided_at_ms = decided_at_ms\<rparr>\<rparr>"

text \<open>The wire form of a decision has no binding; loading makes it again from the three fields.\<close>

record ApprovalDecisionWire =
  adw_request :: ApprovalRequest
  adw_kind :: ApprovalDecisionKind
  adw_decided_at_ms :: i64

definition ApprovalDecision_wire :: "ApprovalDecision \<Rightarrow> ApprovalDecisionWire" where
  "ApprovalDecision_wire d =
     \<lparr>adw_request = ad_request d, adw_kind = ad_kind d, adw_decided_at_ms = ad_decided_at_ms d\<rparr>"

definition ApprovalDecision_load ::
  "ApprovalDecisionWire \<Rightarrow> (PolicyValidationError, ApprovalDecision) result" where
  "ApprovalDecision_load w =
     try_then (checked ApprovalRequest_validate (adw_request w)) (\<lambda>request.
       ApprovalDecision_new request (adw_kind w) (adw_decided_at_ms w))"

section \<open>The policy engine\<close>

definition default_evaluation ::
  "PolicyContext \<Rightarrow> (PolicyValidationError crash, PolicyEvaluation) result" where
  "default_evaluation c =
     (let risk = effective_risk c; revision = pc_policy_revision c in
      try_then
        (if restrictions_deny (pc_restrictions c) then
           try_then (reason DeniedByRestriction risk revision None) (\<lambda>r. Ok (Deny r))
         else if risk = Critical then
           try_then (reason DeniedByDefault risk revision None) (\<lambda>r. Ok (Deny r))
         else if risk_rank risk \<ge> risk_rank Medium then
           try_then (reason ApprovalRequired risk revision None) (\<lambda>r. Ok (RequireApproval r))
         else
           try_then (reason AllowedByDefault risk revision None) (\<lambda>r. Ok (Allow r)))
        (\<lambda>decision. raised (PolicyEvaluation_new decision None)))"

definition grant_consumption ::
  "AutonomyGrant \<Rightarrow> PolicyContext \<Rightarrow> (PolicyValidationError crash, GrantConsumption option) result" where
  "grant_consumption g c =
     raised (transpose_result (map_option (\<lambda>_.
       GrantConsumption_new (ag_id g) (ag_revision g) (pc_logical_invocation_id c))
       (ag_remaining_uses g)))"

definition evaluate ::
  "PolicyContext \<Rightarrow> AutonomyGrant list \<Rightarrow> (PolicyValidationError crash, PolicyEvaluation) result" where
  "evaluate c grants =
     try_then (raised (validate_evaluation_input c)) (\<lambda>_.
     try_then (raised (validate_grant_set grants)) (\<lambda>_.
     let risk = effective_risk c in
     case select_grant c grants of
       None \<Rightarrow> default_evaluation c
     | Some g \<Rightarrow>
         if ag_effect g = ApprovalFirst
            \<and> (restrictions_deny (pc_restrictions c) \<or> risk = Critical
               \<or> risk_rank risk \<ge> risk_rank Medium)
         then try_then (reason ApprovalRequired risk (pc_policy_revision c) (Some g)) (\<lambda>r.
                raised (PolicyEvaluation_new (RequireApproval r) None))
         else if ag_effect g = AutoAllow
         then try_then (reason
                  (if requires_exact_argument_scope c then AllowedByExactGrantOverride
                   else AllowedByGrant)
                  risk (pc_policy_revision c) (Some g)) (\<lambda>r.
              try_then (grant_consumption g c) (\<lambda>consumption.
                raised (PolicyEvaluation_new (Allow r) consumption)))
         else default_evaluation c))"

text \<open>The last check of an approval: the grant it is bound to, if any.\<close>

definition approval_grant_validity ::
  "ApprovalRequest \<Rightarrow> PolicyContext \<Rightarrow> AutonomyGrant list \<Rightarrow> ApprovalValidity" where
  "approval_grant_validity request c grants =
     (case (ar_grant_id request, ar_grant_revision request) of
        (None, None) \<Rightarrow> Valid
      | (Some i, Some revision) \<Rightarrow>
          (case validated_grant_by_identity grants i revision of
             Inr (Some g) \<Rightarrow>
               if ag_effect g = ApprovalFirst \<and> grant_matches g c
                  \<and> ag_remaining_uses g = ar_grant_remaining_uses request
               then Valid else InvalidGrant
           | _ \<Rightarrow> InvalidGrant)
      | _ \<Rightarrow> InvalidGrant)"

definition validate_approval_with_grants ::
  "ApprovalDecision \<Rightarrow> PolicyContext \<Rightarrow> AutonomyGrant list \<Rightarrow> ApprovalValidity" where
  "validate_approval_with_grants approval c grants =
     (let request = ad_request approval in
      if \<not> is_ok (validate_grant_set grants) then InvalidGrant
      else if \<not> is_ok (validate_evaluation_input c) \<or> \<not> is_ok (ApprovalDecision_validate approval)
        then InvalidBinding
      else if ad_kind approval \<noteq> ApproveDecision then InvalidDecision
      else if pc_now_ms c < ad_decided_at_ms approval then InvalidBinding
      else if pc_now_ms c \<ge> ar_expires_at_ms request then Expired
      else if ar_owner_id request \<noteq> pc_owner_id c then InvalidOwner
      else if ar_actor_id request \<noteq> pc_actor_id c then InvalidActor
      else if ar_agent_definition_id request \<noteq> pc_agent_definition_id c
           \<or> ar_agent_definition_version request \<noteq> pc_agent_definition_version c
        then InvalidDefinition
      else if ar_workspace_id request \<noteq> pc_workspace_id c then InvalidWorkspace
      else if ar_resource_boundary request \<noteq> pc_resource_boundary c then InvalidResource
      else if ar_restrictions request \<noteq> pc_restrictions c then InvalidRestrictions
      else if ar_run_id request \<noteq> pc_run_id c then InvalidRun
      else if ar_logical_step_id request \<noteq> pc_logical_step_id c then InvalidStep
      else if ar_canonical_argument_digest request \<noteq> pc_canonical_argument_digest c
        then InvalidArguments
      else if ar_logical_invocation_id request \<noteq> pc_logical_invocation_id c
        then InvalidInvocation
      else if ar_capability_id request \<noteq> pc_capability_id c
           \<or> ar_manifest_version request \<noteq> pc_manifest_version c
        then InvalidManifest
      else if ar_effective_risk request \<noteq> effective_risk c then InvalidRisk
      else approval_grant_validity request c grants)"

definition validate_approval :: "ApprovalDecision \<Rightarrow> PolicyContext \<Rightarrow> ApprovalValidity" where
  "validate_approval approval c = validate_approval_with_grants approval c []"

text \<open>The tail of \<open>evaluate_with_approval\<close> once the approval is accepted.\<close>

definition approved_evaluation ::
  "PolicyContext \<Rightarrow> AutonomyGrant option \<Rightarrow> (PolicyValidationError crash, PolicyEvaluation) result" where
  "approved_evaluation c bound =
     try_then (case bound of None \<Rightarrow> Ok None | Some g \<Rightarrow> grant_consumption g c) (\<lambda>consumption.
     try_then (reason AllowedByApproval (effective_risk c) (pc_policy_revision c) bound) (\<lambda>r.
       raised (PolicyEvaluation_new (Allow r) consumption)))"

definition evaluate_with_approval ::
  "PolicyContext \<Rightarrow> AutonomyGrant list \<Rightarrow> ApprovalDecision option
     \<Rightarrow> (PolicyValidationError crash, PolicyEvaluation) result" where
  "evaluate_with_approval c grants approval =
     try_then (evaluate c grants) (\<lambda>initial.
     case (ev_decision initial, approval) of
       (RequireApproval _, Some a) \<Rightarrow>
         if validate_approval_with_grants a c grants = Valid
         then (case (ar_grant_id (ad_request a), ar_grant_revision (ad_request a)) of
             (Some i, Some revision) \<Rightarrow>
               try_then (raised (validated_grant_by_identity grants i revision)) (\<lambda>bound.
                 approved_evaluation c bound)
           | (None, None) \<Rightarrow> approved_evaluation c None
           | _ \<Rightarrow> Ok initial)
         else Ok initial
     | _ \<Rightarrow> Ok initial)"

definition approval_request ::
  "PolicyContext \<Rightarrow> AutonomyGrant option \<Rightarrow> (PolicyValidationError crash, ApprovalRequest) result" where
  "approval_request c grant =
     try_then (raised (validate_evaluation_input c)) (\<lambda>_.
     if is_some_and grant (\<lambda>g. \<not> grant_matches g c) then Err (Raised SuppliedGrantDoesNotMatch)
     else try_then (evaluate c (case grant of None \<Rightarrow> [] | Some g \<Rightarrow> [g])) (\<lambda>current.
     case ev_decision current of
       RequireApproval _ \<Rightarrow>
         try_then (raised (ok_or (checked_add_i64 (pc_now_ms c) APPROVAL_WINDOW_MS)
             ApprovalWindowOverflow)) (\<lambda>expires_at_ms.
         try_then (reason ApprovalRequired (effective_risk c) (pc_policy_revision c) grant) (\<lambda>r.
         raised (checked ApprovalRequest_validate
           \<lparr>ar_owner_id = pc_owner_id c, ar_actor_id = pc_actor_id c,
            ar_agent_definition_id = pc_agent_definition_id c,
            ar_agent_definition_version = pc_agent_definition_version c,
            ar_workspace_id = pc_workspace_id c, ar_resource_boundary = pc_resource_boundary c,
            ar_restrictions = pc_restrictions c, ar_run_id = pc_run_id c,
            ar_logical_step_id = pc_logical_step_id c,
            ar_logical_invocation_id = pc_logical_invocation_id c,
            ar_capability_id = pc_capability_id c, ar_manifest_version = pc_manifest_version c,
            ar_canonical_argument_digest = pc_canonical_argument_digest c,
            ar_effective_risk = effective_risk c, ar_reason = r,
            ar_policy_revision = pc_policy_revision c,
            ar_grant_id = map_option ag_id grant, ar_grant_revision = map_option ag_revision grant,
            ar_grant_remaining_uses = Option.bind grant ag_remaining_uses,
            ar_requested_at_ms = pc_now_ms c, ar_expires_at_ms = expires_at_ms\<rparr>)))
     | _ \<Rightarrow> Err (Raised ApprovalNotRequired)))"

section \<open>Specification vocabulary\<close>

text \<open>Contexts that are more than low risk, or denied, need someone's consent.\<close>

definition elevated :: "PolicyContext \<Rightarrow> bool" where
  "elevated c \<longleftrightarrow> restrictions_deny (pc_restrictions c) \<or> risk_rank Medium \<le> risk_rank (effective_risk c)"

text \<open>The audit reason that names a code, the context and possibly a grant.\<close>

definition audit_reason :: "PolicyReasonCode \<Rightarrow> PolicyContext \<Rightarrow> AutonomyGrant option \<Rightarrow> PolicyReason" where
  "audit_reason k c g =
     \<lparr>pr_code = k, pr_effective_risk = effective_risk c, pr_policy_revision = pc_policy_revision c,
      pr_grant_id = map_option ag_id g, pr_grant_revision = map_option ag_revision g\<rparr>"

definition default_verdict :: "PolicyContext \<Rightarrow> PolicyEvaluation" where
  "default_verdict c =
     \<lparr>ev_decision =
        (if restrictions_deny (pc_restrictions c) then Deny (audit_reason DeniedByRestriction c None)
         else if effective_risk c = Critical then Deny (audit_reason DeniedByDefault c None)
         else if elevated c then RequireApproval (audit_reason ApprovalRequired c None)
         else Allow (audit_reason AllowedByDefault c None)),
      ev_consumption = None\<rparr>"

definition consumption_of :: "AutonomyGrant \<Rightarrow> PolicyContext \<Rightarrow> GrantConsumption option" where
  "consumption_of g c = map_option (\<lambda>_. \<lparr>gc_grant_id = ag_id g, gc_grant_revision = ag_revision g,
      gc_logical_invocation_id = pc_logical_invocation_id c\<rparr>) (ag_remaining_uses g)"

definition grant_verdict :: "AutonomyGrant \<Rightarrow> PolicyContext \<Rightarrow> PolicyEvaluation" where
  "grant_verdict g c =
     (if ag_effect g = ApprovalFirst then
        (if elevated c then
           \<lparr>ev_decision = RequireApproval (audit_reason ApprovalRequired c (Some g)), ev_consumption = None\<rparr>
         else default_verdict c)
      else \<lparr>ev_decision = Allow (audit_reason
              (if requires_exact_argument_scope c then AllowedByExactGrantOverride else AllowedByGrant)
              c (Some g)),
            ev_consumption = consumption_of g c\<rparr>)"

definition verdict :: "PolicyContext \<Rightarrow> AutonomyGrant option \<Rightarrow> PolicyEvaluation" where
  "verdict c g = (case g of None \<Rightarrow> default_verdict c | Some g \<Rightarrow> grant_verdict g c)"

definition nil_consumption :: "PolicyContext \<Rightarrow> AutonomyGrant option \<Rightarrow> bool" where
  "nil_consumption c g \<longleftrightarrow> uuid_is_nil (pc_logical_invocation_id c) \<and>
     is_some_and g (\<lambda>g. ag_effect g = AutoAllow \<and> ag_remaining_uses g \<noteq> None)"

text \<open>The grant an approval is bound to.\<close>

definition bound_grant :: "ApprovalRequest \<Rightarrow> AutonomyGrant list \<Rightarrow> AutonomyGrant option" where
  "bound_grant r gs =
     (case (ar_grant_id r, ar_grant_revision r) of
        (Some i, Some v) \<Rightarrow> find (\<lambda>g. ag_id g = i \<and> ag_revision g = v) gs
      | _ \<Rightarrow> None)"

text \<open>
  The declarative meaning of a valid approval: the decision approves, was taken in the request's
  window and the window is still open; the request binds the very action of the context; and a
  grant it names is there, unchanged, and still matches.
\<close>

definition binds_action :: "ApprovalRequest \<Rightarrow> PolicyContext \<Rightarrow> bool" where
  "binds_action r c \<longleftrightarrow>
     ar_owner_id r = pc_owner_id c \<and> ar_actor_id r = pc_actor_id c \<and>
     ar_agent_definition_id r = pc_agent_definition_id c \<and>
     ar_agent_definition_version r = pc_agent_definition_version c \<and>
     ar_workspace_id r = pc_workspace_id c \<and> ar_resource_boundary r = pc_resource_boundary c \<and>
     ar_restrictions r = pc_restrictions c \<and> ar_run_id r = pc_run_id c \<and>
     ar_logical_step_id r = pc_logical_step_id c \<and>
     ar_logical_invocation_id r = pc_logical_invocation_id c \<and>
     ar_canonical_argument_digest r = pc_canonical_argument_digest c \<and>
     ar_capability_id r = pc_capability_id c \<and> ar_manifest_version r = pc_manifest_version c \<and>
     ar_effective_risk r = effective_risk c"

definition binds_grant :: "ApprovalRequest \<Rightarrow> PolicyContext \<Rightarrow> AutonomyGrant list \<Rightarrow> bool" where
  "binds_grant r c gs \<longleftrightarrow>
     (ar_grant_id r = None \<and> ar_grant_revision r = None) \<or>
     (\<exists>g. bound_grant r gs = Some g \<and> ag_effect g = ApprovalFirst \<and> grant_matches g c \<and>
        ag_remaining_uses g = ar_grant_remaining_uses r)"

text \<open>When an approval turns a pending decision into an allowed one.\<close>

definition approved_verdict :: "PolicyContext \<Rightarrow> AutonomyGrant option \<Rightarrow> PolicyEvaluation" where
  "approved_verdict c bound =
     \<lparr>ev_decision = Allow (audit_reason AllowedByApproval c bound),
      ev_consumption = Option.bind bound (\<lambda>g. consumption_of g c)\<rparr>"

section \<open>Validation lemmas\<close>

named_theorems policy_checks "what each check of the policy vocabulary accepts"

lemma validate_policy_identifier_ok [policy_checks]:
  "validate_policy_identifier f v = Ok () \<longleftrightarrow>
     \<not> blank v \<and> length v \<le> MAX_POLICY_IDENTIFIER_BYTES \<and> list_all policy_identifier_byte v"
  by (auto simp: validate_policy_identifier_def)

lemma validate_task2_identifier_ok [policy_checks]:
  "validate_task2_identifier f v = Ok () \<longleftrightarrow> v \<noteq> [] \<and> length v \<le> MAX_CAPABILITY_ID_BYTES"
  by (auto simp: validate_task2_identifier_def)

lemma validate_resource_boundary_ok [policy_checks]:
  "validate_resource_boundary r = Ok () \<longleftrightarrow> \<not> uuid_is_nil r"
  by (simp add: validate_resource_boundary_def)

lemma grant_set_loop_ok:
  "grant_set_loop seen gs = Ok () \<longleftrightarrow>
     distinct (map grant_identity gs) \<and> grant_identity ` set gs \<inter> seen = {}"
  by (induction gs arbitrary: seen) auto

lemma validate_grant_set_ok [policy_checks]:
  "validate_grant_set gs = Ok () \<longleftrightarrow> distinct (map grant_identity gs)"
  by (simp add: validate_grant_set_def grant_set_loop_ok)

lemma validate_grant_set_error:
  "validate_grant_set gs = Ok () \<or> validate_grant_set gs = Err DuplicateGrantIdentity"
proof -
  have "grant_set_loop seen gs = Ok () \<or> grant_set_loop seen gs = Err DuplicateGrantIdentity" for seen
    by (induction gs arbitrary: seen) auto
  then show ?thesis by (simp add: validate_grant_set_def)
qed

lemma validate_evaluation_input_context:
  "validate_evaluation_input c = Ok () \<Longrightarrow> PolicyContext_validate c = Ok ()"
  by (simp add: validate_evaluation_input_def)

lemma context_ok_facts:
  assumes "PolicyContext_validate c = Ok ()"
  shows "pc_policy_revision c \<noteq> 0" and "effective_risk c \<noteq> NoRisk"
  using assms
  by (auto simp: PolicyContext_validate_def effective_risk_def max_risk_def
      split: if_splits option.splits)

lemma grant_ok_facts:
  assumes "AutonomyGrant_validate g = Ok ()"
  shows "validate_policy_identifier f (ag_id g) = Ok ()" and "0 < ag_revision g"
  using assms
  by (auto simp: AutonomyGrant_validate_def policy_checks word_neq_0_conv [symmetric] split: if_splits)

lemma grant_matches_valid:
  "grant_matches g c \<Longrightarrow> AutonomyGrant_validate g = Ok () \<and> validate_evaluation_input c = Ok ()"
  by (simp add: grant_matches_def)

section \<open>Reasons\<close>

lemma audit_reason_sel [simp]:
  "pr_code (audit_reason k c g) = k"
  "pr_effective_risk (audit_reason k c g) = effective_risk c"
  "pr_policy_revision (audit_reason k c g) = pc_policy_revision c"
  "pr_grant_id (audit_reason k c g) = map_option ag_id g"
  "pr_grant_revision (audit_reason k c g) = map_option ag_revision g"
  by (simp_all add: audit_reason_def)

lemma audit_reason_valid:
  assumes "PolicyContext_validate c = Ok ()"
    and "g = None \<Longrightarrow> k \<notin> {AllowedByGrant, AllowedByExactGrantOverride}"
    and "\<And>x. g = Some x \<Longrightarrow> AutonomyGrant_validate x = Ok () \<and>
           k \<notin> {AllowedByDefault, DeniedByDefault, DeniedByRestriction}"
  shows "PolicyReason_validate (audit_reason k c g) = Ok ()"
  using assms context_ok_facts [OF assms(1)]
  by (cases g) (auto simp: PolicyReason_validate_def grant_ok_facts)

lemma reason_eq:
  assumes "PolicyReason_validate (audit_reason k c g) = Ok ()"
  shows "reason k (effective_risk c) (pc_policy_revision c) g = Ok (audit_reason k c g)"
  using assms by (simp add: reason_def PolicyReason_new_def audit_reason_def)

lemma default_evaluation_eq:
  assumes "PolicyContext_validate c = Ok ()"
  shows "default_evaluation c = Ok (default_verdict c)"
proof -
  have r: "PolicyReason_validate (audit_reason k c None) = Ok ()"
    "reason k (effective_risk c) (pc_policy_revision c) None = Ok (audit_reason k c None)"
    if "k \<notin> {AllowedByGrant, AllowedByExactGrantOverride}" for k
    using audit_reason_valid [OF assms, of None k] that by (auto intro: reason_eq)
  have crit: "reason DeniedByDefault Critical (pc_policy_revision c) None
      = Ok (audit_reason DeniedByDefault c None)" if "effective_risk c = Critical"
    using r(2) [of DeniedByDefault] that by simp
  show ?thesis
    by (auto simp: default_evaluation_def default_verdict_def elevated_def r crit
        PolicyEvaluation_new_def Let_def)
qed

lemma grant_consumption_eq:
  assumes "AutonomyGrant_validate g = Ok ()"
  shows "grant_consumption g c =
    (if uuid_is_nil (pc_logical_invocation_id c) \<and> ag_remaining_uses g \<noteq> None
     then Err (Raised InvalidNilIdentifier) else Ok (consumption_of g c))"
  using grant_ok_facts [OF assms]
  by (cases "ag_remaining_uses g")
    (auto simp: grant_consumption_def consumption_of_def GrantConsumption_new_def checked_def
      GrantConsumption_validate_def)

lemma allow_with_consumption_eq:
  assumes "AutonomyGrant_validate g = Ok ()" and "PolicyContext_validate c = Ok ()"
    and "k \<in> {AllowedByGrant, AllowedByExactGrantOverride, AllowedByApproval}"
    and "\<not> uuid_is_nil (pc_logical_invocation_id c) \<or> ag_remaining_uses g = None"
  shows "PolicyEvaluation_new (Allow (audit_reason k c (Some g))) (consumption_of g c) =
    Ok \<lparr>ev_decision = Allow (audit_reason k c (Some g)), ev_consumption = consumption_of g c\<rparr>"
proof -
  have "PolicyReason_validate (audit_reason k c (Some g)) = Ok ()"
    using assms by (intro audit_reason_valid) auto
  then show ?thesis
    using assms grant_ok_facts [OF assms(1)]
    by (cases "ag_remaining_uses g")
      (auto simp: PolicyEvaluation_new_def consumption_of_def GrantConsumption_validate_def)
qed

section \<open>Evaluation computes the verdict\<close>

lemma select_grant_Some:
  assumes "select_grant c gs = Some g"
  shows "g \<in> set gs" and "grant_matches g c"
    and "\<And>g'. g' \<in> set gs \<Longrightarrow> grant_matches g' c \<Longrightarrow> narrowness g \<le> narrowness g'"
  using min_by_key_Some [OF assms [unfolded select_grant_def]] by auto

lemma evaluate_eq:
  assumes "validate_evaluation_input c = Ok ()" and "validate_grant_set gs = Ok ()"
  shows "evaluate c gs =
    (if nil_consumption c (select_grant c gs) then Err (Raised InvalidNilIdentifier)
     else Ok (verdict c (select_grant c gs)))"
proof (cases "select_grant c gs")
  case None
  then show ?thesis
    using assms validate_evaluation_input_context [OF assms(1)]
    by (simp add: evaluate_def default_evaluation_eq verdict_def nil_consumption_def)
next
  case (Some g)
  have c: "PolicyContext_validate c = Ok ()"
    by (rule validate_evaluation_input_context [OF assms(1)])
  have g: "AutonomyGrant_validate g = Ok ()"
    using select_grant_Some(2) [OF Some] by (simp add: grant_matches_valid)
  have r: "PolicyReason_validate (audit_reason k c (Some g)) = Ok ()"
    "reason k (effective_risk c) (pc_policy_revision c) (Some g) = Ok (audit_reason k c (Some g))"
    if "k \<in> {ApprovalRequired, AllowedByGrant, AllowedByExactGrantOverride}" for k
    using audit_reason_valid [OF c, of "Some g" k] that g by (auto intro: reason_eq)
  have crit: "effective_risk c = Critical \<Longrightarrow> elevated c"
    by (simp add: elevated_def)
  show ?thesis
    using assms Some crit
    by (cases "ag_effect g")
      (auto simp: evaluate_def Let_def verdict_def grant_verdict_def nil_consumption_def r
        default_evaluation_eq [OF c] grant_consumption_eq [OF g] allow_with_consumption_eq [OF g c]
        PolicyEvaluation_new_def [where consumption = None] elevated_def)
qed

lemma evaluate_ok_iff:
  "evaluate c gs = Ok ev \<longleftrightarrow> validate_evaluation_input c = Ok () \<and> validate_grant_set gs = Ok () \<and>
     \<not> nil_consumption c (select_grant c gs) \<and> ev = verdict c (select_grant c gs)"
proof (cases "validate_evaluation_input c = Ok () \<and> validate_grant_set gs = Ok ()")
  case True
  then show ?thesis by (auto simp: evaluate_eq)
next
  case False
  then show ?thesis by (auto simp: evaluate_def)
qed

lemma evaluate_not_panicked: "evaluate c gs \<noteq> Err Panicked"
proof (cases "validate_evaluation_input c = Ok () \<and> validate_grant_set gs = Ok ()")
  case True
  then show ?thesis by (simp add: evaluate_eq)
next
  case False
  then show ?thesis by (auto simp: evaluate_def try_then_eq_Inl)
qed

lemma approved_evaluation_eq:
  assumes c: "PolicyContext_validate c = Ok ()"
    and g: "\<And>g. bound = Some g \<Longrightarrow> AutonomyGrant_validate g = Ok ()"
  shows "approved_evaluation c bound =
    (if uuid_is_nil (pc_logical_invocation_id c) \<and> Option.bind bound ag_remaining_uses \<noteq> None
     then Err (Raised InvalidNilIdentifier)
     else Ok \<lparr>ev_decision = Allow (audit_reason AllowedByApproval c bound),
              ev_consumption = Option.bind bound (\<lambda>g. consumption_of g c)\<rparr>)"
proof -
  have v: "PolicyReason_validate (audit_reason AllowedByApproval c bound) = Ok ()"
    using c g by (intro audit_reason_valid) auto
  note r = v reason_eq [OF v]
  show ?thesis
  proof (cases bound)
    case None
    with r show ?thesis by (simp add: approved_evaluation_def PolicyEvaluation_new_def)
  next
    case (Some x)
    with r g show ?thesis
      by (auto simp: approved_evaluation_def grant_consumption_eq allow_with_consumption_eq [OF _ c])
  qed
qed

lemma approved_evaluation_None:
  "PolicyContext_validate c = Ok () \<Longrightarrow> approved_evaluation c None =
     Ok \<lparr>ev_decision = Allow (audit_reason AllowedByApproval c None), ev_consumption = None\<rparr>"
  by (subst approved_evaluation_eq) simp_all

lemma approved_evaluation_Some:
  "PolicyContext_validate c = Ok () \<Longrightarrow> AutonomyGrant_validate g = Ok () \<Longrightarrow>
   approved_evaluation c (Some g) =
     (if uuid_is_nil (pc_logical_invocation_id c) \<and> ag_remaining_uses g \<noteq> None
      then Err (Raised InvalidNilIdentifier)
      else Ok \<lparr>ev_decision = Allow (audit_reason AllowedByApproval c (Some g)),
               ev_consumption = consumption_of g c\<rparr>)"
  by (subst approved_evaluation_eq) simp_all

lemma find_Some_iff': "find P xs = Some x \<Longrightarrow> x \<in> set xs \<and> P x"
  by (auto simp: find_Some_iff)

lemma validated_grant_by_identity_ok:
  "validated_grant_by_identity gs i v = Ok r \<longleftrightarrow>
     validate_grant_set gs = Ok () \<and> r = find (\<lambda>g. ag_id g = i \<and> ag_revision g = v) gs"
  by (auto simp: validated_grant_by_identity_def)

lemma approval_grant_validity_iff:
  "validate_grant_set gs = Ok () \<Longrightarrow> approval_grant_validity r c gs = Valid \<longleftrightarrow> binds_grant r c gs"
  by (auto simp: approval_grant_validity_def binds_grant_def bound_grant_def
      validated_grant_by_identity_def split: option.splits)

lemma validate_approval_valid_iff:
  "validate_approval_with_grants a c gs = Valid \<longleftrightarrow>
     validate_grant_set gs = Ok () \<and> validate_evaluation_input c = Ok () \<and>
     ApprovalDecision_validate a = Ok () \<and> ad_kind a = ApproveDecision \<and>
     ad_decided_at_ms a \<le> pc_now_ms c \<and> pc_now_ms c < ar_expires_at_ms (ad_request a) \<and>
     binds_action (ad_request a) c \<and> binds_grant (ad_request a) c gs"
  unfolding validate_approval_with_grants_def Let_def
  by (auto simp: binds_action_def approval_grant_validity_iff not_less not_le)

lemma approval_validity_ignores_revision:
  assumes "r \<noteq> 0" and "pc_policy_revision c \<noteq> 0"
  shows "validate_approval_with_grants a (c\<lparr>pc_policy_revision := r\<rparr>) gs =
    validate_approval_with_grants a c gs"
proof -
  let ?c = "c\<lparr>pc_policy_revision := r\<rparr>"
  have "PolicyContext_validate ?c = PolicyContext_validate c"
    unfolding PolicyContext_validate_def using assms by (simp cong: if_cong)
  then have vi: "validate_evaluation_input ?c = validate_evaluation_input c"
    unfolding validate_evaluation_input_def by (simp cong: option.case_cong if_cong)
  have er: "effective_risk ?c = effective_risk c"
    by (simp add: effective_risk_def split: option.split)
  have m: "grant_matches g ?c = grant_matches g c" for g
    by (simp add: grant_matches_def vi er requires_exact_argument_scope_def cong: option.case_cong)
  have "approval_grant_validity q ?c gs = approval_grant_validity q c gs" for q
    unfolding approval_grant_validity_def m ..
  with vi er show ?thesis
    by (simp add: validate_approval_with_grants_def Let_def cong: if_cong)
qed

lemma approval_binding_shape:
  assumes "validate_approval_with_grants a c gs = Valid"
  shows "(ar_grant_id (ad_request a), ar_grant_revision (ad_request a)) = (None, None) \<and>
           bound_grant (ad_request a) gs = None
         \<or> (\<exists>i v g. (ar_grant_id (ad_request a), ar_grant_revision (ad_request a)) = (Some i, Some v) \<and>
           bound_grant (ad_request a) gs = Some g \<and> grant_matches g c \<and> ag_effect g = ApprovalFirst \<and>
           find (\<lambda>g. ag_id g = i \<and> ag_revision g = v) gs = Some g)"
  using assms
  by (auto simp: validate_approval_valid_iff binds_grant_def bound_grant_def split: option.splits)

lemma evaluate_with_approval_valid:
  assumes "evaluate c gs = Ok initial" and "ev_decision initial = RequireApproval r"
    and "validate_approval_with_grants a c gs = Valid"
    and "\<not> uuid_is_nil (pc_logical_invocation_id c)"
  shows "evaluate_with_approval c gs (Some a) = Ok (approved_verdict c (bound_grant (ad_request a) gs))"
proof -
  have gs: "validate_grant_set gs = Ok ()" and c: "PolicyContext_validate c = Ok ()"
    using assms(1) by (auto simp: evaluate_ok_iff validate_evaluation_input_context)
  from approval_binding_shape [OF assms(3)] show ?thesis
  proof
    assume "(ar_grant_id (ad_request a), ar_grant_revision (ad_request a)) = (None, None) \<and>
      bound_grant (ad_request a) gs = None"
    then show ?thesis
      using assms by (simp add: evaluate_with_approval_def approved_evaluation_None [OF c]
          approved_evaluation_Some [OF c] approved_verdict_def)
  next
    assume "\<exists>i v g. (ar_grant_id (ad_request a), ar_grant_revision (ad_request a)) = (Some i, Some v) \<and>
           bound_grant (ad_request a) gs = Some g \<and> grant_matches g c \<and> ag_effect g = ApprovalFirst \<and>
           find (\<lambda>g. ag_id g = i \<and> ag_revision g = v) gs = Some g"
    then show ?thesis
      using assms gs
      by (auto simp: evaluate_with_approval_def approved_evaluation_None [OF c]
          approved_evaluation_Some [OF c] approved_verdict_def
          validated_grant_by_identity_def grant_matches_valid)
  qed
qed

lemma evaluate_with_approval_cases:
  assumes "evaluate_with_approval c gs a = Ok ev"
  shows "evaluate c gs = Ok ev \<or>
    (\<exists>d r. a = Some d \<and> validate_approval_with_grants d c gs = Valid \<and>
       ev = approved_verdict c (bound_grant (ad_request d) gs) \<and>
       ev_decision (verdict c (select_grant c gs)) = RequireApproval r)"
proof -
  from assms obtain initial where i: "evaluate c gs = Ok initial"
    by (auto simp: evaluate_with_approval_def)
  then have c: "PolicyContext_validate c = Ok ()" and gs: "validate_grant_set gs = Ok ()"
    and iv: "initial = verdict c (select_grant c gs)"
    by (auto simp: evaluate_ok_iff validate_evaluation_input_context)
  show ?thesis
  proof (cases "\<exists>r d. ev_decision initial = RequireApproval r \<and> a = Some d \<and>
      validate_approval_with_grants d c gs = Valid")
    case True
    then obtain r d where rd: "ev_decision initial = RequireApproval r" "a = Some d"
      "validate_approval_with_grants d c gs = Valid" by blast
    have "ev = approved_verdict c (bound_grant (ad_request d) gs)"
      using approval_binding_shape [OF rd(3)] assms i rd gs
      by (auto simp: evaluate_with_approval_def approved_evaluation_None [OF c]
          approved_evaluation_Some [OF c] approved_verdict_def
          validated_grant_by_identity_def grant_matches_valid split: if_splits)
    with rd iv show ?thesis by blast
  next
    case False
    with assms i show ?thesis
      by (auto simp: evaluate_with_approval_def split: PolicyDecision.splits option.splits if_splits)
  qed
qed

definition example_snapshot :: PolicyInputSnapshot where
  "example_snapshot = \<lparr>pis_manifest_id = ''fs.write'', pis_manifest_version = 1,
     pis_manifest_risk = Medium, pis_run_id = 11, pis_logical_step_id = ''s1'',
     pis_logical_invocation_id = 12, pis_canonical_argument_digest = 13\<rparr>"

definition example_context :: "RiskLevel option \<Rightarrow> bool \<Rightarrow> i64 \<Rightarrow> PolicyContext" where
  "example_context m deny now = \<lparr>pc_owner_id = ''o'', pc_actor_id = ''a'',
     pc_agent_definition_id = ''d'', pc_agent_definition_version = 1, pc_workspace_id = ''w'',
     pc_resource_boundary = 10, pc_capability_id = ''fs.write'', pc_manifest_version = 1,
     pc_manifest_risk = Medium, pc_run_id = 11, pc_logical_step_id = ''s1'',
     pc_logical_invocation_id = 12, pc_canonical_argument_digest = 13, pc_policy_revision = 1,
     pc_restrictions = \<lparr>minimum_risk = m, restrictions_deny = deny\<rparr>,
     pc_now_ms = now, pc_provenance = Some example_snapshot\<rparr>"

definition example_grant :: "string \<Rightarrow> RiskLevel \<Rightarrow> GrantEffect \<Rightarrow> uuid option \<Rightarrow> AutonomyGrant" where
  "example_grant i risk effect digest = \<lparr>ag_id = i, ag_revision = 1, ag_status = Active,
     ag_effect = effect,
     ag_scope = \<lparr>gs_owner_id = ''o'', gs_actor_id = ''a'', gs_agent_definition_id = ''d'',
       gs_agent_definition_version = 1, gs_workspace_id = ''w'', gs_resource_boundary = 10,
       gs_capability_id = ''fs.write'', gs_manifest_version = 1,
       gs_canonical_argument_digest = digest\<rparr>,
     ag_maximum_risk = risk, ag_valid_from_ms = 0, ag_valid_until_ms = None,
     ag_remaining_uses = Some 3\<rparr>"

lemma example_identifier [simp]:
  "s \<in> {''o'', ''a'', ''d'', ''w'', ''g1'', ''g2''} \<Longrightarrow> validate_policy_identifier f s = Ok ()"
  by (auto simp: validate_policy_identifier_def MAX_POLICY_IDENTIFIER_BYTES_def not_blank_graph code_def
      policy_identifier_byte_def is_ascii_alphanumeric_def is_ascii_digit_def)

lemma example_context_valid:
  "m \<noteq> Some NoRisk \<Longrightarrow> validate_evaluation_input (example_context m deny now) = Ok ()"
  by (simp add: validate_evaluation_input_def PolicyContext_validate_def example_context_def
      example_snapshot_def validate_task2_identifier_def MAX_CAPABILITY_ID_BYTES_def
      validate_resource_boundary_def uuid_is_nil_def)

lemma example_grant_valid:
  "i \<in> {''g1'', ''g2''} \<Longrightarrow> risk \<noteq> NoRisk \<Longrightarrow> digest \<noteq> Some 0 \<Longrightarrow>
   AutonomyGrant_validate (example_grant i risk effect digest) = Ok ()"
  by (auto simp: AutonomyGrant_validate_def GrantScope_validate_def example_grant_def
      validate_task2_identifier_def MAX_CAPABILITY_ID_BYTES_def is_some_and_def
      validate_resource_boundary_def uuid_is_nil_def split: option.splits)

lemma example_effective_risk:
  "effective_risk (example_context m deny now) =
     (case m of None \<Rightarrow> Medium | Some r \<Rightarrow> max_risk Medium r)"
  by (simp add: effective_risk_def example_context_def split: option.split)

lemma example_matches:
  assumes "i \<in> {''g1'', ''g2''}" and "m \<noteq> Some NoRisk" and "0 \<le> now" and "risk \<noteq> NoRisk"
    and "digest = None \<and> \<not> deny \<and> m \<noteq> Some Critical \<or> digest = Some 13"
  shows "grant_matches (example_grant i risk effect digest) (example_context m deny now) \<longleftrightarrow>
    risk_rank (case m of None \<Rightarrow> Medium | Some r \<Rightarrow> max_risk Medium r) \<le> risk_rank risk"
proof -
  have "digest \<noteq> Some 0" using assms(5) by auto
  note v = example_context_valid [OF assms(2), of deny now]
    example_grant_valid [OF assms(1) assms(4) this, of effect]
  show ?thesis
    unfolding grant_matches_def is_ok_unit v requires_exact_argument_scope_def example_effective_risk
    using assms(3,5)
    by (auto simp: example_grant_def example_context_def max_risk_def split: option.splits if_splits)
qed

text \<open>Canonical selection does not depend on the order of the input.\<close>

interpretation nk: separating_key narrowness grant_identity
  by unfold_locales (simp add: narrowness_def grant_identity_def)

interpretation grant_format: wire_format "\<lambda>g. g" AutonomyGrant_load
  "\<lambda>g. AutonomyGrant_validate g = Ok ()"
  by unfold_locales (auto simp: AutonomyGrant_load_def AutonomyGrant_new_with_effect_def
      AutonomyGrant_validate_def split: if_splits)

interpretation approval_format: wire_format ApprovalDecision_wire ApprovalDecision_load
  "\<lambda>d. ApprovalDecision_validate d = Ok ()"
proof unfold_locales
  show "ApprovalDecision_validate v = Ok ()" if "ApprovalDecision_load w = Ok v" for w v
    using that by (auto simp: ApprovalDecision_load_def ApprovalDecision_new_def)
  show "ApprovalDecision_load (ApprovalDecision_wire v) = Ok v"
    if "ApprovalDecision_validate v = Ok ()" for v
  proof -
    from that obtain b where r: "ApprovalRequest_validate (ad_request v) = Ok ()"
      and b: "ad_binding v = Some b" "adb_request b = ad_request v" "adb_kind b = ad_kind v"
        "adb_decided_at_ms b = ad_decided_at_ms v"
      by (auto simp: ApprovalDecision_validate_def split: option.splits if_splits)
    have "\<lparr>ad_request = ad_request v, ad_kind = ad_kind v, ad_decided_at_ms = ad_decided_at_ms v,
        ad_binding = Some \<lparr>adb_request = ad_request v, adb_kind = ad_kind v,
          adb_decided_at_ms = ad_decided_at_ms v\<rparr>\<rparr> = v"
      using b by (cases v; cases b) simp
    with that r show ?thesis
      by (simp add: ApprovalDecision_load_def ApprovalDecision_wire_def ApprovalDecision_new_def)
  qed
qed

lemma select_grant_perm:
  assumes "mset gs = mset gs'" and "validate_grant_set gs = Ok ()"
  shows "select_grant c gs = select_grant c gs'"
proof -
  have "distinct (map grant_identity (filter (\<lambda>g. grant_matches g c) gs))"
    using assms(2) by (simp add: validate_grant_set_ok distinct_map_filter)
  moreover have "mset (filter (\<lambda>g. grant_matches g c) gs) = mset (filter (\<lambda>g. grant_matches g c) gs')"
    using assms(1) by (simp add: mset_filter)
  ultimately show ?thesis unfolding select_grant_def by (intro nk.choice_perm)
qed

lemma validate_grant_set_perm:
  assumes "mset gs = mset gs'"
  shows "validate_grant_set gs = validate_grant_set gs'"
proof -
  have "distinct (map grant_identity gs) = distinct (map grant_identity gs')"
    using assms by (metis mset_eq_imp_distinct_iff mset_map)
  then show ?thesis
    using validate_grant_set_error [of gs] validate_grant_set_error [of gs']
    by (auto simp: validate_grant_set_ok [symmetric])
qed

text \<open>Evaluation does not depend on the order in which the grants are supplied: permuting the
  grant list changes neither the decision, nor the audit reason, nor the consumption, nor an
  error.\<close>

theorem evaluate_order_independent:
  assumes "mset gs = mset gs'"
  shows "evaluate c gs = evaluate c gs'"
proof (cases "validate_grant_set gs = Ok ()")
  case True
  show ?thesis
    unfolding evaluate_def validate_grant_set_perm [OF assms, symmetric]
      select_grant_perm [OF assms True, symmetric] ..
next
  case False
  then have "validate_grant_set gs = Err DuplicateGrantIdentity"
    using validate_grant_set_error [of gs] by simp
  then show ?thesis
    unfolding evaluate_def validate_grant_set_perm [OF assms, symmetric] by simp
qed

theorem evaluate_order_independent_witness:
  "evaluate (example_context None False 5)
     [example_grant ''g1'' Medium ApprovalFirst None, example_grant ''g2'' High AutoAllow None] =
   evaluate (example_context None False 5)
     [example_grant ''g2'' High AutoAllow None, example_grant ''g1'' Medium ApprovalFirst None]"
  by (rule evaluate_order_independent) simp

text \<open>The reference for what a grant covers, written without the guards of \<open>grant_matches\<close>: it is
  active at this time, has a use left, reaches the risk, its scope is the context's own, and it may
  leave the arguments open only when the context does not ask for them.\<close>

definition grant_covers :: "AutonomyGrant \<Rightarrow> PolicyContext \<Rightarrow> bool" where
  "grant_covers g c \<longleftrightarrow>
     ag_status g = Active \<and> ag_valid_from_ms g \<le> pc_now_ms c \<and>
     (\<forall>until. ag_valid_until_ms g = Some until \<longrightarrow> pc_now_ms c < until) \<and>
     ag_remaining_uses g \<noteq> Some 0 \<and>
     risk_rank (effective_risk c) \<le> risk_rank (ag_maximum_risk g) \<and>
     (\<exists>digest. ag_scope g = \<lparr>gs_owner_id = pc_owner_id c, gs_actor_id = pc_actor_id c,
        gs_agent_definition_id = pc_agent_definition_id c,
        gs_agent_definition_version = pc_agent_definition_version c,
        gs_workspace_id = pc_workspace_id c, gs_resource_boundary = pc_resource_boundary c,
        gs_capability_id = pc_capability_id c, gs_manifest_version = pc_manifest_version c,
        gs_canonical_argument_digest = digest\<rparr> \<and>
        (digest = Some (pc_canonical_argument_digest c) \<or>
         digest = None \<and> \<not> requires_exact_argument_scope c))"

lemma grant_matches_covers: "grant_matches g c \<Longrightarrow> grant_covers g c"
  by (cases "ag_scope g")
    (auto simp: grant_matches_def grant_covers_def is_none_or_def split: option.splits)

lemma grant_matches_exact:
  assumes "grant_matches g c" and "requires_exact_argument_scope c"
  shows "gs_canonical_argument_digest (ag_scope g) = Some (pc_canonical_argument_digest c)"
  using assms by (auto simp: grant_matches_def split: option.splits)

lemma effect_cases:
  "e \<noteq> ApprovalFirst \<longleftrightarrow> e = AutoAllow" "e \<noteq> AutoAllow \<longleftrightarrow> e = ApprovalFirst"
  by (cases e; simp)+

lemma verdict_allow:
  "ev_decision (verdict c s) = Allow r \<longleftrightarrow>
     (\<exists>g. s = Some g \<and> ag_effect g = AutoAllow \<and> r = audit_reason
        (if requires_exact_argument_scope c then AllowedByExactGrantOverride else AllowedByGrant)
        c (Some g)) \<or>
     \<not> (\<exists>g. s = Some g \<and> ag_effect g = AutoAllow) \<and> \<not> elevated c \<and>
       r = audit_reason AllowedByDefault c None"
  by (cases s) (auto simp: verdict_def grant_verdict_def default_verdict_def elevated_def effect_cases)

lemma verdict_require:
  "ev_decision (verdict c s) = RequireApproval r \<Longrightarrow>
     elevated c \<and> (requires_exact_argument_scope c \<longrightarrow> (\<exists>g. s = Some g \<and> ag_effect g = ApprovalFirst))"
  by (cases s) (auto simp: verdict_def grant_verdict_def default_verdict_def elevated_def
      requires_exact_argument_scope_def effect_cases split: if_splits)

text \<open>\<^bold>\<open>C6.\<close> What an \<open>Allow\<close> of the policy engine rests on: either the context is not denied and at
  most low risk, and nothing is consumed; or an active automatic grant in the supplied list covers
  exactly this owner, actor, definition, workspace, resource, capability and risk at this time, is
  the narrowest of the matching grants, names the very arguments when the context is critical or
  denied, and one use of it is consumed exactly when its uses are counted.\<close>

theorem evaluate_allow_sound:
  assumes "evaluate c gs = Ok \<lparr>ev_decision = Allow r, ev_consumption = k\<rparr>"
  shows "(\<not> elevated c \<and> r = audit_reason AllowedByDefault c None \<and> k = None) \<or>
    (\<exists>g \<in> set gs. grant_covers g c \<and> ag_effect g = AutoAllow \<and>
       (\<forall>g' \<in> set gs. grant_matches g' c \<longrightarrow> narrowness g \<le> narrowness g') \<and>
       (requires_exact_argument_scope c \<longrightarrow>
          gs_canonical_argument_digest (ag_scope g) = Some (pc_canonical_argument_digest c)) \<and>
       pr_grant_id r = Some (ag_id g) \<and> pr_grant_revision r = Some (ag_revision g) \<and>
       k = consumption_of g c)"
proof -
  have v: "verdict c (select_grant c gs) = \<lparr>ev_decision = Allow r, ev_consumption = k\<rparr>"
    using assms by (simp add: evaluate_ok_iff)
  then have "ev_decision (verdict c (select_grant c gs)) = Allow r" by simp
  then consider (grant) g where "select_grant c gs = Some g" "ag_effect g = AutoAllow"
      "r = audit_reason (if requires_exact_argument_scope c then AllowedByExactGrantOverride
        else AllowedByGrant) c (Some g)"
    | (default) "\<nexists>g. select_grant c gs = Some g \<and> ag_effect g = AutoAllow" "\<not> elevated c"
      "r = audit_reason AllowedByDefault c None"
    unfolding verdict_allow by blast
  then show ?thesis
  proof cases
    case grant
    with v have "k = consumption_of g c" by (simp add: verdict_def grant_verdict_def)
    with grant show ?thesis
      using select_grant_Some [OF grant(1)] by (auto dest: grant_matches_exact grant_matches_covers)
  next
    case default
    with v have "k = None"
      by (cases "select_grant c gs")
        (auto simp: verdict_def grant_verdict_def default_verdict_def effect_cases)
    with default show ?thesis by blast
  qed
qed

lemma example_select:
  "select_grant (example_context None False 5) [example_grant ''g1'' High AutoAllow None] =
     Some (example_grant ''g1'' High AutoAllow None)"
  by (simp add: select_grant_def example_matches)

lemma example_evaluate:
  "evaluate (example_context None False 5) [example_grant ''g1'' High AutoAllow None] =
     Ok \<lparr>ev_decision = Allow (audit_reason AllowedByGrant (example_context None False 5)
           (Some (example_grant ''g1'' High AutoAllow None))),
         ev_consumption = consumption_of (example_grant ''g1'' High AutoAllow None)
           (example_context None False 5)\<rparr>"
  by (simp add: evaluate_ok_iff example_context_valid validate_grant_set_ok example_select verdict_def
      grant_verdict_def nil_consumption_def requires_exact_argument_scope_def example_effective_risk)
    (simp add: example_context_def example_grant_def uuid_is_nil_def)

theorem evaluate_allow_sound_witness:
  "\<exists>g \<in> {example_grant ''g1'' High AutoAllow None}. grant_covers g (example_context None False 5)"
proof -
  have "elevated (example_context None False 5)"
    by (simp add: elevated_def example_effective_risk)
  then show ?thesis using evaluate_allow_sound [OF example_evaluate] by simp
qed

lemma approval_request_not_panicked: "approval_request c g \<noteq> Err Panicked"
proof
  assume *: "approval_request c g = Err Panicked"
  then have c: "PolicyContext_validate c = Ok ()" and m: "is_none_or g (\<lambda>g. grant_matches g c)"
    by (auto simp: approval_request_def try_then_eq_Inl validate_evaluation_input_context
        is_none_or_def is_some_and_def split: if_splits option.splits)
  have "reason ApprovalRequired (effective_risk c) (pc_policy_revision c) g
      = Ok (audit_reason ApprovalRequired c g)"
    using m by (intro reason_eq audit_reason_valid [OF c]) (auto simp: grant_matches_valid)
  with * evaluate_not_panicked show False
    by (auto simp: approval_request_def try_then_eq_Inl split: if_splits PolicyDecision.splits)
      (metis PolicyDecision.exhaust)
qed

lemma evaluate_with_approval_not_panicked: "evaluate_with_approval c gs a \<noteq> Err Panicked"
proof
  assume *: "evaluate_with_approval c gs a = Err Panicked"
  with evaluate_not_panicked obtain initial where i: "evaluate c gs = Ok initial"
    by (auto simp: evaluate_with_approval_def try_then_eq_Inl)
  then have c: "PolicyContext_validate c = Ok ()" and gs: "validate_grant_set gs = Ok ()"
    by (auto simp: evaluate_ok_iff validate_evaluation_input_context)
  from * i obtain r d where "ev_decision initial = RequireApproval r" "a = Some d"
    and v: "validate_approval_with_grants d c gs = Valid"
    by (auto simp: evaluate_with_approval_def split: PolicyDecision.splits option.splits if_splits)
  with * i gs approval_binding_shape [OF v] show False
    by (auto simp: evaluate_with_approval_def approved_evaluation_None [OF c]
        approved_evaluation_Some [OF c] validated_grant_by_identity_def grant_matches_valid
        split: if_splits)
qed

text \<open>The policy engine never panics: the audit reasons it unwraps with \<open>expect\<close> always pass
  their own validation, for every context, grant list and approval.\<close>

theorem policy_engine_never_panics:
  "evaluate c gs \<noteq> Err Panicked \<and> evaluate_with_approval c gs a \<noteq> Err Panicked \<and>
   approval_request c g \<noteq> Err Panicked"
  by (simp add: evaluate_not_panicked evaluate_with_approval_not_panicked
      approval_request_not_panicked)

text \<open>\<^bold>\<open>C15.\<close> An action allowed by approval rests on a decision that approves it, taken within the
  five minutes after the request and not yet expired, whose request names every part of the action
  that is about to run; and when the action is critical or denied, a matching grant in the supplied
  list names the very arguments.\<close>

theorem approval_allow_sound:
  assumes "evaluate_with_approval c gs a = Ok ev" and "ev_decision ev = Allow r"
    and "pr_code r = AllowedByApproval"
  shows "\<exists>d. a = Some d \<and> ad_kind d = ApproveDecision \<and> binds_action (ad_request d) c \<and>
      binds_grant (ad_request d) c gs \<and>
      ar_requested_at_ms (ad_request d) \<le> ad_decided_at_ms d \<and> ad_decided_at_ms d \<le> pc_now_ms c \<and>
      pc_now_ms c < ar_requested_at_ms (ad_request d) + 300000 \<and>
      (requires_exact_argument_scope c \<longrightarrow>
        (\<exists>g \<in> set gs. grant_covers g c \<and> ag_effect g = ApprovalFirst \<and>
          gs_canonical_argument_digest (ag_scope g) = Some (pc_canonical_argument_digest c)))"
proof -
  have "evaluate c gs \<noteq> Ok ev"
    using assms(2,3) by (auto simp: evaluate_ok_iff verdict_allow split: if_splits)
  then obtain d r' where d: "a = Some d" "validate_approval_with_grants d c gs = Valid"
    and r': "ev_decision (verdict c (select_grant c gs)) = RequireApproval r'"
    using evaluate_with_approval_cases [OF assms(1)] by blast
  have exact: "\<exists>g \<in> set gs. grant_covers g c \<and> ag_effect g = ApprovalFirst \<and>
      gs_canonical_argument_digest (ag_scope g) = Some (pc_canonical_argument_digest c)"
    if "requires_exact_argument_scope c"
    using verdict_require [OF r'] that select_grant_Some(1,2) grant_matches_exact
      grant_matches_covers by blast
  have "ApprovalDecision_validate d = Ok ()" using d(2) by (simp add: validate_approval_valid_iff)
  then have "ar_requested_at_ms (ad_request d) \<le> ad_decided_at_ms d"
    "ar_expires_at_ms (ad_request d) = ar_requested_at_ms (ad_request d) + 300000"
    by (auto simp: ApprovalDecision_validate_def ApprovalRequest_validate_def checked_add_i64_def
        APPROVAL_WINDOW_MS_def split: option.splits if_splits)
  then show ?thesis using d exact by (simp add: validate_approval_valid_iff)
qed

lemma context_at_later_time [simp]:
  "validate_evaluation_input (c\<lparr>pc_now_ms := t\<rparr>) = validate_evaluation_input c"
  "effective_risk (c\<lparr>pc_now_ms := t\<rparr>) = effective_risk c"
  "elevated (c\<lparr>pc_now_ms := t\<rparr>) = elevated c"
  "binds_action q (c\<lparr>pc_now_ms := t\<rparr>) = binds_action q c"
proof -
  have "PolicyContext_validate (c\<lparr>pc_now_ms := t\<rparr>) = PolicyContext_validate c"
    unfolding PolicyContext_validate_def by (simp cong: if_cong)
  then show "validate_evaluation_input (c\<lparr>pc_now_ms := t\<rparr>) = validate_evaluation_input c"
    unfolding validate_evaluation_input_def by (simp cong: option.case_cong if_cong)
  show er: "effective_risk (c\<lparr>pc_now_ms := t\<rparr>) = effective_risk c"
    by (simp add: effective_risk_def split: option.split)
  then show "elevated (c\<lparr>pc_now_ms := t\<rparr>) = elevated c" by (simp add: elevated_def)
  show "binds_action q (c\<lparr>pc_now_ms := t\<rparr>) = binds_action q c" by (simp add: binds_action_def er)
qed

abbreviation supplied :: "AutonomyGrant option \<Rightarrow> AutonomyGrant list" where
  "supplied g \<equiv> (case g of None \<Rightarrow> [] | Some g \<Rightarrow> [g])"

lemma supplied_valid [simp]: "validate_grant_set (supplied g) = Ok ()"
  by (simp add: validate_grant_set_ok split: option.split)

lemma supplied_select:
  "is_none_or g (\<lambda>g. grant_matches g c) \<Longrightarrow> select_grant c (supplied g) = g"
  by (cases g) (simp_all add: select_grant_def)

lemma approval_request_ok:
  assumes "approval_request c g = Ok q"
  shows "ApprovalRequest_validate q = Ok ()" and "binds_action q c"
    and "validate_evaluation_input c = Ok ()" and "is_none_or g (\<lambda>g. grant_matches g c)"
    and "\<exists>r. ev_decision (verdict c g) = RequireApproval r"
    and "ar_grant_id q = map_option ag_id g" and "ar_grant_revision q = map_option ag_revision g"
    and "ar_grant_remaining_uses q = Option.bind g ag_remaining_uses"
    and "ar_requested_at_ms q = pc_now_ms c" and "ar_expires_at_ms q = pc_now_ms c + 300000"
proof -
  from assms show m: "is_none_or g (\<lambda>g. grant_matches g c)"
    by (cases g) (auto simp: approval_request_def split: if_splits)
  from assms obtain r e where s: "ev_decision (verdict c g) = RequireApproval r"
    and c: "validate_evaluation_input c = Ok ()"
    and q: "binds_action q c" "ApprovalRequest_validate q = Ok ()"
      "ar_grant_id q = map_option ag_id g" "ar_grant_revision q = map_option ag_revision g"
      "ar_grant_remaining_uses q = Option.bind g ag_remaining_uses"
      "ar_requested_at_ms q = pc_now_ms c"
      "checked_add_i64 (pc_now_ms c) APPROVAL_WINDOW_MS = Some (ar_expires_at_ms q)"
    by (auto simp: approval_request_def evaluate_ok_iff supplied_select [OF m] binds_action_def
        split: if_splits PolicyDecision.splits)
  then show "ar_expires_at_ms q = pc_now_ms c + 300000"
    by (simp add: checked_add_i64_def APPROVAL_WINDOW_MS_def split: if_splits)
  show "ApprovalRequest_validate q = Ok ()" "binds_action q c" "validate_evaluation_input c = Ok ()"
    "\<exists>r. ev_decision (verdict c g) = RequireApproval r"
    "ar_grant_id q = map_option ag_id g" "ar_grant_revision q = map_option ag_revision g"
    "ar_grant_remaining_uses q = Option.bind g ag_remaining_uses"
    "ar_requested_at_ms q = pc_now_ms c"
    using s c q by blast+
qed

lemma verdict_require_at:
  "ev_decision (verdict c g) = RequireApproval r \<Longrightarrow>
     \<exists>r'. ev_decision (verdict (c\<lparr>pc_now_ms := t\<rparr>) g) = RequireApproval r'"
  by (cases g) (auto simp: verdict_def grant_verdict_def default_verdict_def split: if_splits)

lemma verdict_require_effect:
  "ev_decision (verdict c (Some g)) = RequireApproval r \<Longrightarrow> ag_effect g = ApprovalFirst"
  by (auto simp: verdict_def grant_verdict_def split: if_splits)

lemma approved_flow:
  assumes q: "approval_request c g = Ok q" and d: "ApprovalDecision_new q ApproveDecision t = Ok d"
    and now: "t \<le> now" "now < pc_now_ms c + 300000"
    and m: "is_none_or g (\<lambda>g. grant_matches g (c\<lparr>pc_now_ms := now\<rparr>))"
  shows "evaluate_with_approval (c\<lparr>pc_now_ms := now\<rparr>) (supplied g) (Some d) =
    Ok (approved_verdict (c\<lparr>pc_now_ms := now\<rparr>) g)"
proof -
  let ?c = "c\<lparr>pc_now_ms := now\<rparr>"
  note q' = approval_request_ok [OF q]
  have d': "ad_request d = q" "ad_kind d = ApproveDecision" "ad_decided_at_ms d = t"
    "ApprovalDecision_validate d = Ok ()"
    using d by (auto simp: ApprovalDecision_new_def)
  have inv: "\<not> uuid_is_nil (pc_logical_invocation_id ?c)"
    using q'(1,2) by (auto simp: ApprovalRequest_validate_def binds_action_def split: if_splits)
  have bound: "bound_grant q (supplied g) = g"
    using q'(6,7) by (cases g) (auto simp: bound_grant_def)
  obtain r where r: "ev_decision (verdict ?c g) = RequireApproval r"
    using q'(5) verdict_require_at by blast
  then have "binds_grant q ?c (supplied g)"
    using q'(6-8) m bound verdict_require_effect
    by (cases g) (auto simp: binds_grant_def)
  then have "validate_approval_with_grants d ?c (supplied g) = Valid"
    using d' q' now by (simp add: validate_approval_valid_iff)
  moreover have "evaluate ?c (supplied g) = Ok (verdict ?c g)"
    using q'(3) inv by (simp add: evaluate_ok_iff supplied_select [OF m] nil_consumption_def)
  ultimately show ?thesis
    using evaluate_with_approval_valid [OF _ r _ inv] d'(1) bound by simp
qed

text \<open>The approval flow is live: when a request could be made for a context (with or without a
  grant), a decision to approve it, and any evaluation of the same action between that decision and
  the end of the five-minute window, with the grant still matching, is allowed by approval and
  consumes one use of a counted grant.\<close>

theorem approval_flow_allows:
  assumes "approval_request c g = Ok q" and "ApprovalDecision_new q ApproveDecision t = Ok d"
    and "t \<le> now" and "now < pc_now_ms c + 300000"
    and "is_none_or g (\<lambda>g. grant_matches g (c\<lparr>pc_now_ms := now\<rparr>))"
  shows "evaluate_with_approval (c\<lparr>pc_now_ms := now\<rparr>) (supplied g) (Some d) =
    Ok \<lparr>ev_decision = Allow (audit_reason AllowedByApproval (c\<lparr>pc_now_ms := now\<rparr>) g),
        ev_consumption = Option.bind g (\<lambda>g. consumption_of g (c\<lparr>pc_now_ms := now\<rparr>))\<rparr>"
  using approved_flow [OF assms] by (simp add: approved_verdict_def)

lemma example_request_made:
  "\<exists>q. approval_request (example_context None False 5) None = Ok q"
proof -
  let ?c = "example_context None False 5"
  have e: "elevated ?c" "effective_risk ?c = Medium"
    by (simp_all add: elevated_def example_effective_risk)
  have v: "validate_evaluation_input ?c = Ok ()" by (simp add: example_context_valid)
  note c = validate_evaluation_input_context [OF v]
  have "evaluate ?c [] = Ok (default_verdict ?c)"
    by (simp add: evaluate_ok_iff v validate_grant_set_ok select_grant_def verdict_def
        nil_consumption_def)
  moreover have "ev_decision (default_verdict ?c) = RequireApproval (audit_reason ApprovalRequired ?c None)"
    by (simp add: default_verdict_def e) (simp add: example_context_def)
  moreover have ra: "PolicyReason_validate (audit_reason ApprovalRequired ?c None) = Ok ()"
    by (intro audit_reason_valid [OF c]) auto
  moreover note reason_eq [OF ra, unfolded e(2)]
  ultimately show ?thesis
    using e v by (simp add: approval_request_def checked_add_i64_def APPROVAL_WINDOW_MS_def)
      (simp add: ApprovalRequest_validate_def example_context_def uuid_is_nil_def arith_defs
        validate_task2_identifier_def MAX_CAPABILITY_ID_BYTES_def validate_resource_boundary_def
        APPROVAL_WINDOW_MS_def)
qed


lemma example_context_at [simp]:
  "example_context m deny now\<lparr>pc_now_ms := t\<rparr> = example_context m deny t"
  "pc_now_ms (example_context m deny now) = now"
  by (simp_all add: example_context_def)

lemma example_decision_made:
  "\<exists>q d. approval_request (example_context None False 5) None = Ok q \<and>
     ApprovalDecision_new q ApproveDecision 7 = Ok d"
proof -
  obtain q where q: "approval_request (example_context None False 5) None = Ok q"
    using example_request_made by blast
  note q' = approval_request_ok [OF q]
  have "\<exists>d. ApprovalDecision_new q ApproveDecision 7 = Ok d"
    using q'(1,9,10) by (simp add: ApprovalDecision_new_def ApprovalDecision_validate_def)
  with q show ?thesis by blast
qed

theorem approval_flow_allows_witness:
  "\<exists>q d ev. approval_request (example_context None False 5) None = Ok q \<and>
     ApprovalDecision_new q ApproveDecision 7 = Ok d \<and>
     evaluate_with_approval (example_context None False 9) [] (Some d) = Ok ev"
proof -
  obtain q d where qd: "approval_request (example_context None False 5) None = Ok q"
    "ApprovalDecision_new q ApproveDecision 7 = Ok d"
    using example_decision_made by blast
  with approval_flow_allows [OF qd, of 9] show ?thesis by simp
qed

theorem approval_allow_sound_witness:
  "\<exists>d :: ApprovalDecision. ad_kind d = ApproveDecision \<and> binds_action (ad_request d) (example_context None False 9)"
proof -
  obtain q d where qd: "approval_request (example_context None False 5) None = Ok q"
    "ApprovalDecision_new q ApproveDecision 7 = Ok d"
    using example_decision_made by blast
  have "evaluate_with_approval (example_context None False 9) [] (Some d) =
      Ok (approved_verdict (example_context None False 9) None)"
    using approved_flow [OF qd, of 9] by simp
  from approval_allow_sound [OF this] have "ad_kind d = ApproveDecision"
    "binds_action (ad_request d) (example_context None False 9)"
    by (auto simp: approved_verdict_def)
  then show ?thesis by blast
qed

text \<open>A context that was read back from storage is not trusted: evaluation refuses it,
  whatever the grants. \<open>verify_against\<close> is the only way back, and it succeeds only for the
  manifest and the invocation the context names, with the risk of that manifest and the digest of
  that invocation's arguments.\<close>

theorem loaded_context_untrusted:
  assumes "PolicyContext_load w = Ok c"
  shows "evaluate c gs = Err (Raised UnverifiedPolicyContext) \<and>
    (\<forall>(L :: capability_lib) m i c'. verify_against L c m i = Ok c' \<longrightarrow>
       validate_evaluation_input c' = Ok () \<and> pc_capability_id c = cm_id m \<and>
       pc_manifest_version c = cm_version m \<and> pc_manifest_risk c = cm_risk_level m \<and>
       pc_run_id c = seed_run_id (li_seed i) \<and> pc_logical_invocation_id c = li_id i \<and>
       canonical_argument_digest L i =
         (Ok (pc_canonical_argument_digest c) :: (PolicyValidationError crash, _) result))"
proof -
  from assms have c: "PolicyContext_validate c = Ok ()" "pc_provenance c = None"
    by (auto simp: PolicyContext_load_def)
  have pv: "PolicyContext_validate (c\<lparr>pc_provenance := s\<rparr>) = PolicyContext_validate c" for s
    unfolding PolicyContext_validate_def by (simp cong: if_cong)
  have "validate_evaluation_input c = Err UnverifiedPolicyContext"
    using c by (simp add: validate_evaluation_input_def)
  moreover have "validate_evaluation_input c' = Ok () \<and> pc_capability_id c = cm_id m \<and>
       pc_manifest_version c = cm_version m \<and> pc_manifest_risk c = cm_risk_level m \<and>
       pc_run_id c = seed_run_id (li_seed i) \<and> pc_logical_invocation_id c = li_id i \<and>
       canonical_argument_digest L i =
         (Ok (pc_canonical_argument_digest c) :: (PolicyValidationError crash, _) result)"
    if "verify_against L c m i = Ok c'" for L :: capability_lib and m i c'
    using that c
    by (auto simp: verify_against_def validate_evaluation_input_def Let_def pv split: if_splits)
  ultimately show ?thesis by (simp add: evaluate_def)
qed

theorem loaded_context_untrusted_witness:
  "evaluate (example_context None False 5\<lparr>pc_provenance := None\<rparr>) [] =
     Err (Raised UnverifiedPolicyContext)"
proof -
  let ?c = "example_context None False 5\<lparr>pc_provenance := None\<rparr>"
  have "PolicyContext_validate ?c = Ok ()"
    by (simp add: PolicyContext_validate_def example_context_def validate_task2_identifier_def
        MAX_CAPABILITY_ID_BYTES_def validate_resource_boundary_def uuid_is_nil_def)
  then have "PolicyContext_load ?c = Ok ?c" by (simp add: PolicyContext_load_def)
  then show ?thesis by (rule loaded_context_untrusted [THEN conjunct1])
qed


section \<open>Restrictions\<close>

abbreviation undenied :: "PolicyContext \<Rightarrow> PolicyContext" where
  "undenied c \<equiv> c\<lparr>pc_restrictions := pc_restrictions c\<lparr>restrictions_deny := False\<rparr>\<rparr>"

lemma undenied_context [simp]:
  "validate_evaluation_input (undenied c) = validate_evaluation_input c"
  "effective_risk (undenied c) = effective_risk c"
proof -
  have "PolicyContext_validate (undenied c) = PolicyContext_validate c"
    unfolding PolicyContext_validate_def by (simp cong: if_cong)
  then show "validate_evaluation_input (undenied c) = validate_evaluation_input c"
    unfolding validate_evaluation_input_def by (simp cong: option.case_cong if_cong)
  show "effective_risk (undenied c) = effective_risk c"
    by (simp add: effective_risk_def split: option.split)
qed

lemma denied_match_iff:
  assumes "restrictions_deny (pc_restrictions c)"
  shows "grant_matches g c \<longleftrightarrow>
    grant_matches g (undenied c) \<and> gs_canonical_argument_digest (ag_scope g) \<noteq> None"
  using assms
  by (cases "gs_canonical_argument_digest (ag_scope g)")
    (simp_all add: grant_matches_def requires_exact_argument_scope_def)

lemma undenied_selection:
  assumes "restrictions_deny (pc_restrictions c)" and "select_grant c gs = Some g"
  shows "\<exists>g'. select_grant (undenied c) gs = Some g' \<and> narrowness g' = narrowness g"
proof -
  note g = select_grant_Some [OF assms(2)]
  have m: "grant_matches g (undenied c)" "gs_canonical_argument_digest (ag_scope g) \<noteq> None"
    using g(2) denied_match_iff [OF assms(1)] by auto
  then have "select_grant (undenied c) gs \<noteq> None"
    using g(1) by (auto simp: select_grant_def filter_empty_conv)
  then obtain g' where g': "select_grant (undenied c) gs = Some g'" by blast
  note s = select_grant_Some [OF g']
  have le: "narrowness g' \<le> narrowness g" using s(3) g(1) m(1) by blast
  then have "gs_canonical_argument_digest (ag_scope g') \<noteq> None"
    using m(2) by (auto simp: narrowness_def)
  then have "grant_matches g' c" using s(2) denied_match_iff [OF assms(1)] by blast
  then have "narrowness g \<le> narrowness g'" using g(3) s(1) by blast
  with le g' show ?thesis by auto
qed

text \<open>A deny restriction only takes permissions away: whatever is allowed while the restriction
  denies is still allowed once the restriction is lifted.\<close>

theorem deny_only_restricts:
  assumes "restrictions_deny (pc_restrictions c)"
    and "evaluate c gs = Ok ev" and "ev_decision ev = Allow r"
  shows "\<exists>ev' r'. evaluate (c\<lparr>pc_restrictions := pc_restrictions c\<lparr>restrictions_deny := False\<rparr>\<rparr>) gs
    = Ok ev' \<and> ev_decision ev' = Allow r'"
proof -
  have "elevated c" using assms(1) by (simp add: elevated_def)
  then obtain g where g: "select_grant c gs = Some g" "ag_effect g = AutoAllow"
    using assms(2,3) by (auto simp: evaluate_ok_iff verdict_allow)
  obtain g' where g': "select_grant (undenied c) gs = Some g'" "narrowness g' = narrowness g"
    using undenied_selection [OF assms(1) g(1)] by blast
  then have e: "ag_effect g' = AutoAllow" "ag_remaining_uses g' = None \<longleftrightarrow> ag_remaining_uses g = None"
    using g(2) effect_cases by (auto simp: narrowness_def)
  then have "ev_decision (verdict (undenied c) (Some g')) = Allow (audit_reason
      (if requires_exact_argument_scope (undenied c) then AllowedByExactGrantOverride
       else AllowedByGrant) (undenied c) (Some g'))"
    unfolding verdict_allow by simp
  moreover have "evaluate (undenied c) gs = Ok (verdict (undenied c) (Some g'))"
    using assms(2) g g' e by (simp add: evaluate_ok_iff nil_consumption_def)
  ultimately show ?thesis by blast
qed

lemma example_denied_evaluate:
  "\<exists>ev r. evaluate (example_context None True 5) [example_grant ''g1'' High AutoAllow (Some 13)] = Ok ev \<and>
     ev_decision ev = Allow r"
proof -
  let ?g = "example_grant ''g1'' High AutoAllow (Some 13)" and ?c = "example_context None True 5"
  have s: "select_grant ?c [?g] = Some ?g" by (simp add: select_grant_def example_matches)
  have "ag_effect ?g = AutoAllow" "\<not> uuid_is_nil (pc_logical_invocation_id ?c)"
    by (simp_all add: example_grant_def example_context_def uuid_is_nil_def)
  then show ?thesis
    by (simp add: evaluate_ok_iff s example_context_valid validate_grant_set_ok nil_consumption_def
        verdict_allow)
qed

theorem deny_only_restricts_witness:
  "\<exists>ev' r'. evaluate (example_context None False 5)
     [example_grant ''g1'' High AutoAllow (Some 13)] = Ok ev' \<and> ev_decision ev' = Allow r'"
proof -
  obtain ev r where "evaluate (example_context None True 5)
      [example_grant ''g1'' High AutoAllow (Some 13)] = Ok ev" "ev_decision ev = Allow r"
    using example_denied_evaluate by blast
  from deny_only_restricts [OF _ this] show ?thesis by (simp add: example_context_def)
qed

text \<open>\<^bold>\<open>C39.\<close> Raising the minimum risk of a restriction can, however, give a permission: for a
  medium-risk write with an approval-first grant up to medium risk and an automatic grant up to
  high risk, approval is required, and under the stricter restriction \<open>minimum_risk = High\<close> the
  same call is allowed without approval, because only the wider grant still matches.\<close>

theorem minimum_risk_not_monotone:
  "\<exists>g1 g2 r r' ev ev'.
     evaluate (example_context None False 5) [g1, g2] = Ok ev \<and> ev_decision ev = RequireApproval r \<and>
     evaluate (example_context (Some High) False 5) [g1, g2] = Ok ev' \<and> ev_decision ev' = Allow r'"
proof -
  let ?a = "example_grant ''g1'' Medium ApprovalFirst None"
  let ?b = "example_grant ''g2'' High AutoAllow None"
  let ?c = "example_context None False 5" and ?d = "example_context (Some High) False 5"
  have "narrowness ?a \<le> narrowness ?b" by (simp add: narrowness_def example_grant_def)
  then have s: "select_grant ?c [?a, ?b] = Some ?a" "select_grant ?d [?a, ?b] = Some ?b"
    by (simp_all add: select_grant_def example_matches max_risk_def)
  have "validate_grant_set [?a, ?b] = Ok ()" "ag_effect ?a = ApprovalFirst" "ag_effect ?b = AutoAllow"
    "\<not> uuid_is_nil (pc_logical_invocation_id ?d)" "elevated ?c"
    by (simp_all add: validate_grant_set_ok grant_identity_def example_grant_def example_context_def
        uuid_is_nil_def elevated_def effective_risk_def)
  then have "evaluate ?c [?a, ?b] = Ok (verdict ?c (Some ?a))" "evaluate ?d [?a, ?b] = Ok (verdict ?d (Some ?b))"
    "ev_decision (verdict ?c (Some ?a)) = RequireApproval (audit_reason ApprovalRequired ?c (Some ?a))"
    "\<exists>r. ev_decision (verdict ?d (Some ?b)) = Allow r"
    by (simp_all add: evaluate_ok_iff s example_context_valid nil_consumption_def verdict_allow)
      (simp add: verdict_def grant_verdict_def)
  then show ?thesis by blast
qed

text \<open>Grants and approval decisions survive storage exactly when they are valid: reading back
  what was written gives the same value, and nothing invalid can be read.\<close>

theorem policy_records_reload:
  "(AutonomyGrant_load g = Ok g' \<longleftrightarrow> g' = g \<and> AutonomyGrant_validate g = Ok ()) \<and>
   (ApprovalDecision_load (ApprovalDecision_wire d) = Ok d \<longleftrightarrow> ApprovalDecision_validate d = Ok ())"
proof
  have "g' = g" if "AutonomyGrant_load g = Ok g'"
    using that by (simp add: AutonomyGrant_load_def AutonomyGrant_new_with_effect_def)
  then show "AutonomyGrant_load g = Ok g' \<longleftrightarrow> g' = g \<and> AutonomyGrant_validate g = Ok ()"
    using grant_format.load_wire grant_format.load_valid by blast
  show "ApprovalDecision_load (ApprovalDecision_wire d) = Ok d \<longleftrightarrow> ApprovalDecision_validate d = Ok ()"
    using approval_format.load_valid approval_format.load_wire by blast
qed

text \<open>An approval outlives a policy revision: its validity does not depend on the revision of
  the policy in force, only on the restrictions, the risk and the grant it was bound to.\<close>

theorem approval_survives_policy_revision:
  assumes "r \<noteq> 0" and "pc_policy_revision c \<noteq> 0"
  shows "validate_approval_with_grants a (c\<lparr>pc_policy_revision := r\<rparr>) gs = Valid \<longleftrightarrow>
    validate_approval_with_grants a c gs = Valid"
  by (simp add: approval_validity_ignores_revision [OF assms])

theorem approval_survives_policy_revision_witness:
  "\<forall>a. validate_approval_with_grants a (example_context None False 9\<lparr>pc_policy_revision := 2\<rparr>) [] = Valid \<longleftrightarrow>
     validate_approval_with_grants a (example_context None False 9) [] = Valid"
  by (rule allI, rule approval_survives_policy_revision) (simp_all add: example_context_def)

end
