(* ===== verification/Budget.thy ===== *)
theory Budget
  imports Anima_Prelude
begin

text \<open>
  The error codes and identifier checks shared by the execution records, and usage and budgets, of
  \<open>anima-core/src/execution/state.rs\<close>. Counters are \<open>u64\<close> with checked addition; the approval
  threshold is compared in \<open>u128\<close>.
\<close>

section \<open>Errors and identifiers\<close>

text \<open>\<open>ExecutionErrorCode\<close>; \<open>ExecutionError\<close> only wraps the code.\<close>

datatype ExecutionErrorCode =
    ExInvalidIdentifier
  | ExInvalidVersion
  | ExInvalidState
  | ExIllegalTransition
  | ExMissingPrerequisite
  | ExRecoveryRequired
  | ExInvalidAttempt
  | ExConcurrentNotPinned
  | ExCommandConflict
  | ExArithmeticOverflow
  | ExInvalidUsage
  | ExInvalidBudget
  | ExBudgetExceeded
  | ExInvalidCheckpoint
  | ExIncompatibleCheckpoint
  | ExInvalidEvent

definition MAX_ID_BYTES :: nat where "MAX_ID_BYTES = 256"

definition valid_uuid :: "uuid \<Rightarrow> (ExecutionErrorCode, unit) result" where
  "valid_uuid i = (if uuid_is_nil i then Err ExInvalidIdentifier else Ok ())"

definition valid_id :: "string \<Rightarrow> (ExecutionErrorCode, unit) result" where
  "valid_id value =
     (if blank value \<or> length value > MAX_ID_BYTES then Err ExInvalidIdentifier else Ok ())"

definition valid_version :: "u32 \<Rightarrow> (ExecutionErrorCode, unit) result" where
  "valid_version value = (if value = 0 then Err ExInvalidVersion else Ok ())"

section \<open>Usage\<close>

record Usage =
  us_wall_time_ms :: u64
  us_turns :: u64
  us_capability_steps :: u64
  us_input_tokens :: u64
  us_output_tokens :: u64
  us_total_tokens :: u64
  us_estimated_cost_micros :: u64
  us_concurrent_runs :: u64
  us_artifact_bytes :: u64
  us_download_bytes :: u64

definition with_concurrent_runs :: "Usage \<Rightarrow> u64 \<Rightarrow> Usage" where
  "with_concurrent_runs u n = u\<lparr>us_concurrent_runs := n\<rparr>"

definition Usage_validate :: "Usage \<Rightarrow> (ExecutionErrorCode, unit) result" where
  "Usage_validate u =
     try_then (ok_or (checked_add (us_input_tokens u) (us_output_tokens u)) ExArithmeticOverflow)
       (\<lambda>total. if us_total_tokens u \<noteq> total then Err ExInvalidUsage else Ok ())"

text \<open>The macro \<open>add!\<close> of \<open>checked_add\<close>.\<close>

definition add_field :: "(Usage \<Rightarrow> u64) \<Rightarrow> Usage \<Rightarrow> Usage \<Rightarrow> (ExecutionErrorCode, u64) result" where
  "add_field f u v = ok_or (checked_add (f u) (f v)) ExArithmeticOverflow"

definition Usage_checked_add :: "Usage \<Rightarrow> Usage \<Rightarrow> (ExecutionErrorCode, Usage) result" where
  "Usage_checked_add u v =
     try_then (Usage_validate u) (\<lambda>_. try_then (Usage_validate v) (\<lambda>_.
     try_then (add_field us_wall_time_ms u v) (\<lambda>wall_time_ms.
     try_then (add_field us_turns u v) (\<lambda>turns.
     try_then (add_field us_capability_steps u v) (\<lambda>capability_steps.
     try_then (add_field us_input_tokens u v) (\<lambda>input_tokens.
     try_then (add_field us_output_tokens u v) (\<lambda>output_tokens.
     try_then (add_field us_total_tokens u v) (\<lambda>total_tokens.
     try_then (add_field us_estimated_cost_micros u v) (\<lambda>estimated_cost_micros.
     try_then (add_field us_artifact_bytes u v) (\<lambda>artifact_bytes.
     try_then (add_field us_download_bytes u v) (\<lambda>download_bytes.
     try_then (ok_or (checked_add input_tokens output_tokens) ExArithmeticOverflow) (\<lambda>total.
       if total_tokens \<noteq> total then Err ExInvalidUsage
       else Ok \<lparr>us_wall_time_ms = wall_time_ms, us_turns = turns,
         us_capability_steps = capability_steps, us_input_tokens = input_tokens,
         us_output_tokens = output_tokens, us_total_tokens = total_tokens,
         us_estimated_cost_micros = estimated_cost_micros,
         us_concurrent_runs = us_concurrent_runs v,
         us_artifact_bytes = artifact_bytes, us_download_bytes = download_bytes\<rparr>))))))))))))"

section \<open>Budgets\<close>

record Budget =
  max_wall_time_ms :: "u64 option"
  max_turns :: "u64 option"
  max_capability_steps :: "u64 option"
  max_input_tokens :: "u64 option"
  max_output_tokens :: "u64 option"
  max_total_tokens :: "u64 option"
  max_estimated_cost_micros :: "u64 option"
  max_concurrent_runs :: "u64 option"
  max_artifact_bytes :: "u64 option"
  max_download_bytes :: "u64 option"
  require_approval_at_percent :: "u8 option"

datatype BudgetDecision = BudgetContinue | BudgetRequireApproval | BudgetExhausted

definition Budget_default :: Budget where
  "Budget_default = \<lparr>max_wall_time_ms = None, max_turns = None, max_capability_steps = None,
     max_input_tokens = None, max_output_tokens = None, max_total_tokens = None,
     max_estimated_cost_micros = None, max_concurrent_runs = None, max_artifact_bytes = None,
     max_download_bytes = None, require_approval_at_percent = None\<rparr>"

definition Budget_validate :: "Budget \<Rightarrow> (ExecutionErrorCode, unit) result" where
  "Budget_validate b =
     try_then (try_all (\<lambda>max. reject_if (max = Some 0) ExInvalidBudget)
       [max_wall_time_ms b, max_turns b, max_capability_steps b, max_input_tokens b,
        max_output_tokens b, max_total_tokens b, max_estimated_cost_micros b,
        max_concurrent_runs b, max_artifact_bytes b, max_download_bytes b]) (\<lambda>_.
     case require_approval_at_percent b of
       None \<Rightarrow> Ok ()
     | Some p \<Rightarrow> if p = 0 \<or> p > 100 then Err ExInvalidBudget else Ok ())"

text \<open>The array \<open>pairs\<close> of \<open>evaluate\<close>.\<close>

definition budget_pairs :: "Budget \<Rightarrow> Usage \<Rightarrow> (u64 \<times> u64 option) list" where
  "budget_pairs b u =
     [(us_wall_time_ms u, max_wall_time_ms b), (us_turns u, max_turns b),
      (us_capability_steps u, max_capability_steps b), (us_input_tokens u, max_input_tokens b),
      (us_output_tokens u, max_output_tokens b), (us_total_tokens u, max_total_tokens b),
      (us_estimated_cost_micros u, max_estimated_cost_micros b),
      (us_concurrent_runs u, max_concurrent_runs b), (us_artifact_bytes u, max_artifact_bytes b),
      (us_download_bytes u, max_download_bytes b)]"

definition over_limit :: "u64 \<times> u64 option \<Rightarrow> bool" where
  "over_limit = (\<lambda>(used, max). is_some_and max (\<lambda>m. used > m))"

definition over_threshold :: "u8 \<Rightarrow> u64 \<times> u64 option \<Rightarrow> bool" where
  "over_threshold p = (\<lambda>(used, max). is_some_and max (\<lambda>m.
     (ucast used :: u128) * 100 \<ge> (ucast m :: u128) * ucast p))"

definition Budget_evaluate :: "Budget \<Rightarrow> Usage \<Rightarrow> (ExecutionErrorCode, BudgetDecision) result" where
  "Budget_evaluate b u =
     try_then (Budget_validate b) (\<lambda>_. try_then (Usage_validate u) (\<lambda>_.
     if list_ex over_limit (budget_pairs b u) then Ok BudgetExhausted
     else case require_approval_at_percent b of
       Some p \<Rightarrow> if list_ex (over_threshold p) (budget_pairs b u) then Ok BudgetRequireApproval
                 else Ok BudgetContinue
     | None \<Rightarrow> Ok BudgetContinue))"

definition accumulate :: "Budget \<Rightarrow> Usage \<Rightarrow> Usage \<Rightarrow> (ExecutionErrorCode, Usage) result" where
  "accumulate b usage delta =
     try_then (Budget_validate b) (\<lambda>_. try_then (Usage_validate usage) (\<lambda>_.
     try_then (Usage_validate delta) (\<lambda>_.
     try_then (Usage_checked_add usage delta) (\<lambda>next_usage.
     try_then (Budget_evaluate b next_usage) (\<lambda>decision.
       case decision of
         BudgetExhausted \<Rightarrow> Err ExBudgetExceeded
       | _ \<Rightarrow> Ok next_usage)))))"

section \<open>Specification vocabulary\<close>

text \<open>Limits and thresholds over the natural numbers, where nothing can overflow.\<close>

definition exceeds :: "u64 \<times> u64 option \<Rightarrow> bool" where
  "exceeds q \<longleftrightarrow> (\<exists>m. snd q = Some m \<and> unat (fst q) > unat m)"

definition reaches :: "u8 \<Rightarrow> u64 \<times> u64 option \<Rightarrow> bool" where
  "reaches p q \<longleftrightarrow> (\<exists>m. snd q = Some m \<and> unat (fst q) * 100 \<ge> unat m * unat p)"

definition exact_sum :: "Usage \<Rightarrow> Usage \<Rightarrow> Usage \<Rightarrow> bool" where
  "exact_sum u v w \<longleftrightarrow>
     unat (us_wall_time_ms w) = unat (us_wall_time_ms u) + unat (us_wall_time_ms v) \<and>
     unat (us_turns w) = unat (us_turns u) + unat (us_turns v) \<and>
     unat (us_capability_steps w) = unat (us_capability_steps u) + unat (us_capability_steps v) \<and>
     unat (us_input_tokens w) = unat (us_input_tokens u) + unat (us_input_tokens v) \<and>
     unat (us_output_tokens w) = unat (us_output_tokens u) + unat (us_output_tokens v) \<and>
     unat (us_total_tokens w) = unat (us_total_tokens u) + unat (us_total_tokens v) \<and>
     unat (us_estimated_cost_micros w) =
       unat (us_estimated_cost_micros u) + unat (us_estimated_cost_micros v) \<and>
     us_concurrent_runs w = us_concurrent_runs v \<and>
     unat (us_artifact_bytes w) = unat (us_artifact_bytes u) + unat (us_artifact_bytes v) \<and>
     unat (us_download_bytes w) = unat (us_download_bytes u) + unat (us_download_bytes v)"

definition severity :: "BudgetDecision \<Rightarrow> nat" where
  "severity d = (case d of BudgetContinue \<Rightarrow> 0 | BudgetRequireApproval \<Rightarrow> 1 | BudgetExhausted \<Rightarrow> 2)"

definition usage_le :: "Usage \<Rightarrow> Usage \<Rightarrow> bool" where
  "usage_le u v \<longleftrightarrow>
     us_wall_time_ms u \<le> us_wall_time_ms v \<and> us_turns u \<le> us_turns v \<and>
     us_capability_steps u \<le> us_capability_steps v \<and> us_input_tokens u \<le> us_input_tokens v \<and>
     us_output_tokens u \<le> us_output_tokens v \<and> us_total_tokens u \<le> us_total_tokens v \<and>
     us_estimated_cost_micros u \<le> us_estimated_cost_micros v \<and>
     us_concurrent_runs u \<le> us_concurrent_runs v \<and> us_artifact_bytes u \<le> us_artifact_bytes v \<and>
     us_download_bytes u \<le> us_download_bytes v"

section \<open>Checks and arithmetic\<close>

named_theorems execution_checks "what the identifier checks of the execution records accept"

lemma valid_uuid_ok [execution_checks]: "valid_uuid i = Ok () \<longleftrightarrow> i \<noteq> 0"
  by (simp add: valid_uuid_def uuid_is_nil_def)

lemma valid_id_ok [execution_checks]: "valid_id s = Ok () \<longleftrightarrow> \<not> blank s \<and> length s \<le> MAX_ID_BYTES"
  by (auto simp: valid_id_def)

lemma valid_version_ok [execution_checks]: "valid_version v = Ok () \<longleftrightarrow> v \<noteq> 0"
  by (simp add: valid_version_def)

lemma Usage_validate_ok:
  "Usage_validate u = Ok () \<longleftrightarrow>
     unat (us_total_tokens u) = unat (us_input_tokens u) + unat (us_output_tokens u)"
  by (cases "checked_add (us_input_tokens u) (us_output_tokens u)")
    (auto simp: Usage_validate_def checked_add_Some_iff [symmetric] split: if_splits)

lemma add_field_ok: "add_field f u v = Ok w \<longleftrightarrow> unat w = unat (f u) + unat (f v)"
  by (simp add: add_field_def checked_add_Some_iff)

lemma Usage_checked_add_ok:
  "Usage_checked_add u v = Ok w \<longleftrightarrow>
     Usage_validate u = Ok () \<and> Usage_validate v = Ok () \<and> exact_sum u v w"
proof
  assume "Usage_checked_add u v = Ok w"
  then show "Usage_validate u = Ok () \<and> Usage_validate v = Ok () \<and> exact_sum u v w"
    by (auto simp: Usage_checked_add_def add_field_ok exact_sum_def split: if_splits)
next
  assume *: "Usage_validate u = Ok () \<and> Usage_validate v = Ok () \<and> exact_sum u v w"
  then have "checked_add (us_input_tokens w) (us_output_tokens w) = Some (us_total_tokens w)"
    by (simp add: checked_add_Some_iff Usage_validate_ok exact_sum_def)
  then show "Usage_checked_add u v = Ok w"
    using * add_field_ok [of us_wall_time_ms u v "us_wall_time_ms w", THEN iffD2]
      add_field_ok [of us_turns u v "us_turns w", THEN iffD2]
      add_field_ok [of us_capability_steps u v "us_capability_steps w", THEN iffD2]
      add_field_ok [of us_input_tokens u v "us_input_tokens w", THEN iffD2]
      add_field_ok [of us_output_tokens u v "us_output_tokens w", THEN iffD2]
      add_field_ok [of us_total_tokens u v "us_total_tokens w", THEN iffD2]
      add_field_ok [of us_estimated_cost_micros u v "us_estimated_cost_micros w", THEN iffD2]
      add_field_ok [of us_artifact_bytes u v "us_artifact_bytes w", THEN iffD2]
      add_field_ok [of us_download_bytes u v "us_download_bytes w", THEN iffD2]
    by (simp add: Usage_checked_add_def exact_sum_def)
qed

lemma Usage_checked_add_valid: "Usage_checked_add u v = Ok w \<Longrightarrow> Usage_validate w = Ok ()"
  by (simp add: Usage_checked_add_ok Usage_validate_ok exact_sum_def)

lemma over_limit_iff: "over_limit q = exceeds q"
  by (cases q; cases "snd q") (auto simp: over_limit_def exceeds_def word_less_nat_alt)

lemma widened_product:
  fixes m :: u64 and p :: u8
  shows "unat ((ucast m :: u128) * ucast p) = unat m * unat p"
proof -
  have b: "unat m < 2 ^ 64" "unat p < 2 ^ 8"
    using unsigned_less [of m] unsigned_less [of p] by simp_all
  then have "unat m * unat p < 2 ^ 64 * 2 ^ 8"
    by (intro mult_strict_mono) simp_all
  then have small: "unat m * unat p < 2 ^ 128" by simp
  have "unat (ucast m :: u128) = unat m" "unat (ucast p :: u128) = unat p"
    using b by (simp_all add: unsigned_ucast_eq take_bit_nat_eq_self_iff)
  with small show ?thesis by (simp add: unat_word_ariths)
qed

lemma over_threshold_iff: "over_threshold p q = reaches p q"
proof (cases "snd q")
  case None
  then show ?thesis by (cases q) (simp add: over_threshold_def reaches_def)
next
  case (Some m)
  have "unat ((ucast (fst q) :: u128) * 100) = unat (fst q) * 100"
    using widened_product [of "fst q" 100] by simp
  with Some show ?thesis
    by (cases q) (simp add: over_threshold_def reaches_def word_le_nat_alt widened_product)
qed

lemma budget_checks_nat:
  "list_ex over_limit xs \<longleftrightarrow> (\<exists>q \<in> set xs. exceeds q)"
  "list_ex (over_threshold p) xs \<longleftrightarrow> (\<exists>q \<in> set xs. reaches p q)"
  by (simp_all add: list_ex_iff over_limit_iff over_threshold_iff)

lemma Budget_evaluate_ok:
  "Budget_evaluate b u = Ok d \<longleftrightarrow> Budget_validate b = Ok () \<and> Usage_validate u = Ok () \<and>
     d = (if \<exists>q \<in> set (budget_pairs b u). exceeds q then BudgetExhausted
          else if \<exists>p. require_approval_at_percent b = Some p \<and>
            (\<exists>q \<in> set (budget_pairs b u). reaches p q) then BudgetRequireApproval
          else BudgetContinue)"
  by (auto simp: Budget_evaluate_def budget_checks_nat split: option.splits if_splits)

lemma bex_exceeds:
  "(\<exists>q \<in> set xs. exceeds q) \<longleftrightarrow> (\<exists>used m. (used, Some m) \<in> set xs \<and> unat m < unat used)"
  unfolding exceeds_def Bex_def split_paired_Ex by auto

lemma bex_reaches:
  "(\<exists>q \<in> set xs. reaches p q) \<longleftrightarrow>
     (\<exists>used m. (used, Some m) \<in> set xs \<and> unat m * unat p \<le> unat used * 100)"
  unfolding reaches_def Bex_def split_paired_Ex by auto

text \<open>A budget decision is the comparison it stands for: for a valid budget and usage,
  \<open>Exhausted\<close> exactly when some counter is above its limit, otherwise \<open>RequireApproval\<close> exactly when
  some counter has reached the given percentage of its limit, computed over the natural numbers; the
  128-bit products of the code never wrap.\<close>

theorem budget_evaluate_exact:
  assumes "Budget_validate b = Ok ()" and "Usage_validate u = Ok ()"
  shows "Budget_evaluate b u = Ok
    (if \<exists>used m. (used, Some m) \<in> set (budget_pairs b u) \<and> unat m < unat used then BudgetExhausted
     else if \<exists>p used m. require_approval_at_percent b = Some p \<and>
       (used, Some m) \<in> set (budget_pairs b u) \<and> unat m * unat p \<le> unat used * 100
       then BudgetRequireApproval
     else BudgetContinue)"
  using assms unfolding Budget_evaluate_ok bex_exceeds bex_reaches by simp

definition example_usage :: "u64 \<Rightarrow> Usage" where
  "example_usage n = \<lparr>us_wall_time_ms = 0, us_turns = n, us_capability_steps = 0, us_input_tokens = 0,
     us_output_tokens = 0, us_total_tokens = 0, us_estimated_cost_micros = 0,
     us_concurrent_runs = 1, us_artifact_bytes = 0, us_download_bytes = 0\<rparr>"

definition example_budget :: Budget where
  "example_budget = Budget_default\<lparr>max_turns := Some 10, require_approval_at_percent := Some 80\<rparr>"

lemma example_budget_valid: "Budget_validate example_budget = Ok ()"
  by (simp add: Budget_validate_def example_budget_def Budget_default_def)

lemma example_usage_valid: "Usage_validate (example_usage n) = Ok ()"
  by (simp add: Usage_validate_ok example_usage_def)

theorem budget_evaluate_exact_witness:
  "Budget_evaluate example_budget (example_usage 8) = Ok BudgetRequireApproval"
  using budget_evaluate_exact [OF example_budget_valid example_usage_valid, of 8]
  by (simp add: example_budget_def Budget_default_def budget_pairs_def example_usage_def)

text \<open>Usage accumulates exactly: charging a delta succeeds exactly when budget, usage and delta
  are valid, every summed counter fits 64 bits and no counter passes its limit; the new usage is
  then the exact sum, with the delta's number of concurrent runs, and is valid again.\<close>

theorem accumulate_exact:
  "accumulate b u v = Ok w \<longleftrightarrow>
     Budget_validate b = Ok () \<and> Usage_validate u = Ok () \<and> Usage_validate v = Ok () \<and>
     exact_sum u v w \<and> Usage_validate w = Ok () \<and> \<not> (\<exists>q \<in> set (budget_pairs b w). exceeds q)"
proof -
  have exhausted: "(case d of BudgetExhausted \<Rightarrow> Err e | _ \<Rightarrow> Ok x) = Ok y \<longleftrightarrow> d \<noteq> BudgetExhausted \<and> x = y"
    for d and e :: ExecutionErrorCode and x y :: Usage
    by (cases d) simp_all
  have "accumulate b u v = Ok w \<longleftrightarrow> Budget_validate b = Ok () \<and> Usage_checked_add u v = Ok w \<and>
      (\<exists>d. Budget_evaluate b w = Ok d \<and> d \<noteq> BudgetExhausted)"
    by (auto simp: accumulate_def exhausted Usage_checked_add_ok)
  then show ?thesis
    using Usage_checked_add_valid [of u v w] by (auto simp: Usage_checked_add_ok Budget_evaluate_ok)
qed

lemma list_all2_Bex: "list_all2 P xs ys \<Longrightarrow> x \<in> set xs \<Longrightarrow> \<exists>y \<in> set ys. P x y"
  by (induction rule: list_all2_induct) auto

lemma pairs_mono:
  assumes "usage_le u v" and "(a, m) \<in> set (budget_pairs b u)"
  shows "\<exists>a'. (a', m) \<in> set (budget_pairs b v) \<and> unat a \<le> unat a'"
proof -
  have "list_all2 (\<lambda>q q'. snd q = snd q' \<and> unat (fst q) \<le> unat (fst q'))
      (budget_pairs b u) (budget_pairs b v)"
    using assms(1) by (simp add: budget_pairs_def usage_le_def word_le_nat_alt)
  from list_all2_Bex [OF this assms(2)] show ?thesis by auto
qed

lemma exceeds_mono:
  assumes "usage_le u v" and "\<exists>q \<in> set (budget_pairs b u). exceeds q"
  shows "\<exists>q \<in> set (budget_pairs b v). exceeds q"
  using assms(2) pairs_mono [OF assms(1)] unfolding bex_exceeds by (meson order_less_le_trans)

lemma reaches_mono:
  assumes "usage_le u v" and "\<exists>q \<in> set (budget_pairs b u). reaches p q"
  shows "\<exists>q \<in> set (budget_pairs b v). reaches p q"
proof -
  obtain a m where a: "(a, Some m) \<in> set (budget_pairs b u)" "unat m * unat p \<le> unat a * 100"
    using assms(2) unfolding bex_reaches by blast
  obtain a' where a': "(a', Some m) \<in> set (budget_pairs b v)" "unat a \<le> unat a'"
    using pairs_mono [OF assms(1) a(1)] by blast
  then have "unat m * unat p \<le> unat a' * 100" using a(2) by linarith
  with a'(1) show ?thesis unfolding bex_reaches by blast
qed

text \<open>Budget decisions only escalate: when no counter has gone down, the decision does not go
  back from exhausted to approval or from approval to continue.\<close>

theorem budget_decision_escalates:
  assumes "usage_le u v" and "Budget_evaluate b u = Ok d" and "Budget_evaluate b v = Ok d'"
  shows "severity d \<le> severity d'"
proof -
  note e = exceeds_mono [OF assms(1), of b] and r = reaches_mono [OF assms(1), of b]
  show ?thesis
    using assms(2,3) e r unfolding Budget_evaluate_ok severity_def
    by (auto split: if_splits)
qed

theorem budget_decision_escalates_witness:
  "severity BudgetRequireApproval \<le> severity BudgetExhausted"
proof (rule budget_decision_escalates)
  show "usage_le (example_usage 8) (example_usage 11)"
    by (simp add: usage_le_def example_usage_def)
  show "Budget_evaluate example_budget (example_usage 8) = Ok BudgetRequireApproval"
    "Budget_evaluate example_budget (example_usage 11) = Ok BudgetExhausted"
    by (simp_all add: Budget_evaluate_ok example_budget_valid example_usage_valid)
      (simp_all add: example_budget_def Budget_default_def budget_pairs_def example_usage_def
        exceeds_def reaches_def)
qed

end
