(* ===== verification/Recovery.thy ===== *)
theory Recovery
  imports Policy Budget
begin

text \<open>
  The durable records of capability attempts and their recovery, from
  \<open>anima-core/src/execution/checkpoint.rs\<close> (pins, cursors, attempt, completion, pause and pending
  approval records) and \<open>capability.rs\<close> (\<open>RecoveryResumeBinding\<close>). Every record is built and
  loaded through its own \<open>validate\<close>; \<open>OpaqueReference\<close> is its UUID.
\<close>

section \<open>Pins\<close>

text \<open>
  Of an agent definition (\<open>definition.rs\<close>) the execution core reads the fields below; the records
  are extensible, the other fields are their extension.
\<close>

record ResolvedCapability =
  rc_capability_id :: string
  rc_manifest_version :: u32
  rc_schema_digest :: string
  rc_approval_policy_revision :: u32

record AgentDefinition =
  def_schema_version :: u32
  def_id :: string
  def_version :: u32
  def_resolved_capabilities :: "ResolvedCapability list"
  def_approval_policy_revision :: u32
  def_allows_concurrent_sessions :: bool

definition SUPPORTED_DEFINITION_SCHEMA_VERSION :: u32 where
  "SUPPORTED_DEFINITION_SCHEMA_VERSION = 1"

record DefinitionPin =
  dp_schema_version :: u32
  dp_id :: string
  dp_version :: u32

definition DefinitionPin_validate :: "DefinitionPin \<Rightarrow> (ExecutionErrorCode, unit) result" where
  "DefinitionPin_validate p =
     (if dp_schema_version p \<noteq> SUPPORTED_DEFINITION_SCHEMA_VERSION then Err ExIncompatibleCheckpoint
      else try_then (valid_id (dp_id p)) (\<lambda>_. valid_version (dp_version p)))"

definition DefinitionPin_new ::
  "u32 \<Rightarrow> string \<Rightarrow> u32 \<Rightarrow> (ExecutionErrorCode, DefinitionPin) result" where
  "DefinitionPin_new schema_version i version =
     checked DefinitionPin_validate
       \<lparr>dp_schema_version = schema_version, dp_id = i, dp_version = version\<rparr>"

definition DefinitionPin_from_definition ::
  "'d AgentDefinition_scheme \<Rightarrow> (ExecutionErrorCode, DefinitionPin) result" where
  "DefinitionPin_from_definition d =
     DefinitionPin_new (def_schema_version d) (def_id d) (def_version d)"

record ManifestPin =
  mp_id :: string
  mp_version :: u32
  mp_schema_digest :: string
  mp_recovery_mode :: RecoveryMode

definition lower_hex :: "char \<Rightarrow> bool" where
  "lower_hex b \<longleftrightarrow> is_ascii_digit b \<or> (97 \<le> code b \<and> code b \<le> 102)"

definition ManifestPin_validate :: "ManifestPin \<Rightarrow> (ExecutionErrorCode, unit) result" where
  "ManifestPin_validate p =
     try_then (valid_id (mp_id p)) (\<lambda>_.
     try_then (valid_version (mp_version p)) (\<lambda>_.
     if length (mp_schema_digest p) \<noteq> 71
        \<or> take 7 (mp_schema_digest p) \<noteq> ''sha256:''
        \<or> \<not> list_all lower_hex (drop 7 (mp_schema_digest p))
     then Err ExInvalidCheckpoint else Ok ()))"

definition ManifestPin_new_with_recovery_mode ::
  "string \<Rightarrow> u32 \<Rightarrow> string \<Rightarrow> RecoveryMode \<Rightarrow> (ExecutionErrorCode, ManifestPin) result" where
  "ManifestPin_new_with_recovery_mode i version schema_digest recovery_mode =
     checked ManifestPin_validate
       \<lparr>mp_id = i, mp_version = version, mp_schema_digest = schema_digest,
        mp_recovery_mode = recovery_mode\<rparr>"

definition ManifestPin_from_manifest ::
  "CapabilityManifest \<Rightarrow> (ExecutionErrorCode, ManifestPin) result" where
  "ManifestPin_from_manifest m =
     ManifestPin_new_with_recovery_mode (cm_id m) (cm_version m) (cm_schema_digest m)
       (cm_recovery_mode m)"

definition OpaqueReference_new :: "uuid \<Rightarrow> (ExecutionErrorCode, uuid) result" where
  "OpaqueReference_new value = try_then (valid_uuid value) (\<lambda>_. Ok value)"

section \<open>Resume bindings\<close>

record RecoveryResumeBinding =
  rrb_logical_invocation_id :: uuid
  rrb_run_id :: uuid
  rrb_logical_step_id :: string
  rrb_capability_id :: string
  rrb_canonical_argument_digest :: uuid
  rrb_completed_attempt_number :: u32
  rrb_retry_attempt_number :: u32
  rrb_manifest_id :: string
  rrb_manifest_version :: u32
  rrb_manifest_digest :: string
  rrb_recovery_mode :: RecoveryMode
  rrb_idempotency_key :: string
  rrb_authorization_identity :: uuid

datatype CapabilityContextError =
    InvalidAttemptNumber | AttemptIdentityMismatch | RunReferenceMismatch | InvalidReference
  | InvalidSecretReference

text \<open>\<open>value.chars().any(char::is_whitespace)\<close>: some character is white space.\<close>

fun has_whitespace :: "string \<Rightarrow> bool" where
  "has_whitespace [] = False"
| "has_whitespace [a] = white1 a"
| "has_whitespace [a, b] = (white1 a \<or> white2 a b \<or> has_whitespace [b])"
| "has_whitespace (a # b # c # s) =
     (white1 a \<or> white2 a b \<or> white3 a b c \<or> has_whitespace (b # c # s))"

definition resumable_mode :: "RecoveryMode \<Rightarrow> bool" where
  "resumable_mode m \<longleftrightarrow> m \<in> {InherentlyIdempotent, KeyedIdempotent, Reconcilable, Retry}"

definition RecoveryResumeBinding_validate ::
  "'x capability_lib_scheme \<Rightarrow> RecoveryResumeBinding \<Rightarrow> (CapabilityContextError, unit) result" where
  "RecoveryResumeBinding_validate L b =
     (if uuid_is_nil (rrb_logical_invocation_id b) \<or> uuid_is_nil (rrb_run_id b)
         \<or> uuid_is_nil (rrb_canonical_argument_digest b)
         \<or> uuid_is_nil (rrb_authorization_identity b)
         \<or> rrb_completed_attempt_number b = 0
         \<or> checked_add (rrb_completed_attempt_number b) 1 \<noteq> Some (rrb_retry_attempt_number b)
         \<or> blank (rrb_manifest_id b) \<or> length (rrb_manifest_id b) > MAX_CAPABILITY_ID_BYTES
         \<or> blank (rrb_logical_step_id b) \<or> length (rrb_logical_step_id b) > MAX_CAPABILITY_ID_BYTES
         \<or> rrb_capability_id b \<noteq> rrb_manifest_id b
         \<or> rrb_manifest_version b = 0
         \<or> take 7 (rrb_manifest_digest b) \<noteq> ''sha256:''
         \<or> length (rrb_manifest_digest b) \<le> 7
         \<or> length (rrb_manifest_digest b) > MAX_CAPABILITY_ARGUMENT_BYTES
         \<or> has_whitespace (rrb_manifest_digest b)
         \<or> rrb_idempotency_key b \<noteq> idempotency_key_of L (rrb_logical_invocation_id b)
         \<or> \<not> resumable_mode (rrb_recovery_mode b)
      then Err InvalidReference else Ok ())"

definition RECOVERY_RESUME_BINDING_NAMESPACE :: uuid where
  "RECOVERY_RESUME_BINDING_NAMESPACE = 0x9e12251719cb5f46a51c96201dc54208"

text \<open>
  \<open>RecoveryResumeBinding::new\<close> for the invocation and attempt number of an execution context.
\<close>

definition RecoveryResumeBinding_new ::
  "'x capability_lib_scheme \<Rightarrow> uuid \<Rightarrow> LogicalInvocation \<Rightarrow> u32 \<Rightarrow> CapabilityManifest
     \<Rightarrow> (CapabilityErrorCode crash, RecoveryResumeBinding) result" where
  "RecoveryResumeBinding_new L nonce invocation completed manifest =
     try_then (raised (ok_or (checked_add completed 1) Validation)) (\<lambda>retry.
     try_then (canonical_argument_digest L invocation) (\<lambda>digest.
     let i = li_id invocation;
         name = uuid_display L i @ '':'' @ show_nat (unat completed) @ '':'' @ show_nat (unat retry)
           @ '':'' @ cm_id manifest @ '':'' @ show_nat (unat (cm_version manifest)) @ '':''
           @ cm_schema_digest manifest @ '':'' @ uuid_display L nonce;
         value = \<lparr>rrb_logical_invocation_id = i,
           rrb_run_id = seed_run_id (li_seed invocation),
           rrb_logical_step_id = seed_logical_step_id (li_seed invocation),
           rrb_capability_id = seed_capability_id (li_seed invocation),
           rrb_canonical_argument_digest = digest,
           rrb_completed_attempt_number = completed, rrb_retry_attempt_number = retry,
           rrb_manifest_id = cm_id manifest, rrb_manifest_version = cm_version manifest,
           rrb_manifest_digest = cm_schema_digest manifest,
           rrb_recovery_mode = cm_recovery_mode manifest,
           rrb_idempotency_key = idempotency_key_of L i,
           rrb_authorization_identity = new_v5 L RECOVERY_RESUME_BINDING_NAMESPACE name\<rparr>
     in raised (map_err (\<lambda>_. Validation) (checked (RecoveryResumeBinding_validate L) value))))"

section \<open>Attempt records\<close>

datatype AttemptRecordState = AttemptPending | AttemptDispatching | AttemptCompleted | AttemptUncertain

record CheckpointCursor =
  cc_logical_invocation_id :: uuid
  cc_attempt_number :: u32
  cc_logical_step_id :: string

definition CheckpointCursor_validate :: "CheckpointCursor \<Rightarrow> (ExecutionErrorCode, unit) result" where
  "CheckpointCursor_validate c =
     try_then (valid_uuid (cc_logical_invocation_id c)) (\<lambda>_.
     if cc_attempt_number c = 0 then Err ExInvalidCheckpoint
     else valid_id (cc_logical_step_id c))"

definition CheckpointCursor_new ::
  "uuid \<Rightarrow> u32 \<Rightarrow> string \<Rightarrow> (ExecutionErrorCode, CheckpointCursor) result" where
  "CheckpointCursor_new i n step =
     checked CheckpointCursor_validate
       \<lparr>cc_logical_invocation_id = i, cc_attempt_number = n, cc_logical_step_id = step\<rparr>"

record InvocationAttemptRecord =
  iar_invocation :: LogicalInvocationBinding
  iar_normalized_arguments :: "json option"
  iar_attempt_number :: u32
  iar_state :: AttemptRecordState
  iar_manifest :: ManifestPin
  iar_recovery_mode :: RecoveryMode

text \<open>
  The check can panic where it takes the binding of the rebuilt invocation, whose arguments are
  encoded once more.
\<close>

definition InvocationAttemptRecord_validate ::
  "'x capability_lib_scheme \<Rightarrow> InvocationAttemptRecord \<Rightarrow> (ExecutionErrorCode crash, unit) result" where
  "InvocationAttemptRecord_validate L r =
     (if iar_attempt_number r = 0
         \<or> lib_capability_id (iar_invocation r) \<noteq> mp_id (iar_manifest r)
         \<or> lib_manifest_version (iar_invocation r) \<noteq> mp_version (iar_manifest r)
         \<or> iar_recovery_mode r \<noteq> mp_recovery_mode (iar_manifest r)
      then Err (Raised ExInvalidCheckpoint)
      else case iar_normalized_arguments r of
        None \<Rightarrow> Ok ()
      | Some arguments \<Rightarrow>
          try_then (raised (map_err (\<lambda>_. ExInvalidCheckpoint)
            (LogicalInvocation_new L (lib_run_id (iar_invocation r))
              (lib_logical_step_id (iar_invocation r)) (lib_capability_id (iar_invocation r))
              (lib_manifest_version (iar_invocation r)) arguments))) (\<lambda>reconstructed.
          try_then (LogicalInvocation_binding L reconstructed) (\<lambda>binding.
          if binding \<noteq> iar_invocation r then Err (Raised ExInvalidCheckpoint) else Ok ())))"

definition InvocationAttemptRecord_new ::
  "'x capability_lib_scheme \<Rightarrow> LogicalInvocationBinding \<Rightarrow> u32 \<Rightarrow> AttemptRecordState \<Rightarrow> ManifestPin
     \<Rightarrow> RecoveryMode \<Rightarrow> (ExecutionErrorCode crash, InvocationAttemptRecord) result" where
  "InvocationAttemptRecord_new L invocation n state manifest recovery_mode =
     checked (InvocationAttemptRecord_validate L)
       \<lparr>iar_invocation = invocation, iar_normalized_arguments = None, iar_attempt_number = n,
        iar_state = state, iar_manifest = manifest, iar_recovery_mode = recovery_mode\<rparr>"

definition InvocationAttemptRecord_new_durable ::
  "'x capability_lib_scheme \<Rightarrow> LogicalInvocation \<Rightarrow> u32 \<Rightarrow> AttemptRecordState \<Rightarrow> ManifestPin
     \<Rightarrow> RecoveryMode \<Rightarrow> (ExecutionErrorCode crash, InvocationAttemptRecord) result" where
  "InvocationAttemptRecord_new_durable L invocation n state manifest recovery_mode =
     try_then (LogicalInvocation_binding L invocation) (\<lambda>binding.
     checked (InvocationAttemptRecord_validate L)
       \<lparr>iar_invocation = binding,
        iar_normalized_arguments = Some (seed_normalized_arguments (li_seed invocation)),
        iar_attempt_number = n, iar_state = state, iar_manifest = manifest,
        iar_recovery_mode = recovery_mode\<rparr>)"

definition durable_invocation ::
  "'x capability_lib_scheme \<Rightarrow> InvocationAttemptRecord
     \<Rightarrow> (ExecutionErrorCode, LogicalInvocation option) result" where
  "durable_invocation L r =
     transpose_result (map_option (\<lambda>arguments.
       map_err (\<lambda>_. ExInvalidCheckpoint)
         (LogicalInvocation_new L (lib_run_id (iar_invocation r))
           (lib_logical_step_id (iar_invocation r)) (lib_capability_id (iar_invocation r))
           (lib_manifest_version (iar_invocation r)) arguments)) (iar_normalized_arguments r))"

record CompletedInvocationRecord =
  cir_invocation :: LogicalInvocationBinding
  cir_attempt_number :: u32
  cir_manifest :: ManifestPin
  cir_recovery_mode :: RecoveryMode
  cir_result_ref :: uuid

definition CompletedInvocationRecord_validate ::
  "'x capability_lib_scheme \<Rightarrow> CompletedInvocationRecord \<Rightarrow> (ExecutionErrorCode crash, unit) result" where
  "CompletedInvocationRecord_validate L r =
     try_then (InvocationAttemptRecord_new L (cir_invocation r) (cir_attempt_number r)
       AttemptCompleted (cir_manifest r) (cir_recovery_mode r)) (\<lambda>_. Ok ())"

section \<open>Recovery pauses\<close>

datatype RecoveryPauseReason =
    Retryable | AuthoritativeAbsence | UncertainOutcome | ReconciliationPending | ManualReview
  | HostRecovery

record RecoveryPauseRecord =
  rpr_invocation :: LogicalInvocationBinding
  rpr_attempt_number :: u32
  rpr_manifest :: ManifestPin
  rpr_reason :: RecoveryPauseReason

definition RecoveryPauseRecord_validate ::
  "'x capability_lib_scheme \<Rightarrow> RecoveryPauseRecord \<Rightarrow> (ExecutionErrorCode crash, unit) result" where
  "RecoveryPauseRecord_validate L r =
     try_then (InvocationAttemptRecord_new L (rpr_invocation r) (rpr_attempt_number r)
       AttemptUncertain (rpr_manifest r) (mp_recovery_mode (rpr_manifest r))) (\<lambda>_. Ok ())"

definition RecoveryPauseRecord_new ::
  "'x capability_lib_scheme \<Rightarrow> LogicalInvocationBinding \<Rightarrow> u32 \<Rightarrow> ManifestPin \<Rightarrow> RecoveryPauseReason
     \<Rightarrow> (ExecutionErrorCode crash, RecoveryPauseRecord) result" where
  "RecoveryPauseRecord_new L invocation n manifest r =
     checked (RecoveryPauseRecord_validate L)
       \<lparr>rpr_invocation = invocation, rpr_attempt_number = n, rpr_manifest = manifest,
        rpr_reason = r\<rparr>"

definition allows_automatic_resume :: "RecoveryPauseRecord \<Rightarrow> bool" where
  "allows_automatic_resume r \<longleftrightarrow>
     rpr_reason r \<in> {Retryable, AuthoritativeAbsence} \<and>
     mp_recovery_mode (rpr_manifest r) \<in> {InherentlyIdempotent, KeyedIdempotent, Reconcilable, Retry}"

definition matches_resume_binding :: "RecoveryPauseRecord \<Rightarrow> RecoveryResumeBinding \<Rightarrow> bool" where
  "matches_resume_binding r b \<longleftrightarrow>
     allows_automatic_resume r \<and>
     rrb_logical_invocation_id b = lib_id (rpr_invocation r) \<and>
     rrb_run_id b = lib_run_id (rpr_invocation r) \<and>
     rrb_logical_step_id b = lib_logical_step_id (rpr_invocation r) \<and>
     rrb_capability_id b = lib_capability_id (rpr_invocation r) \<and>
     rrb_canonical_argument_digest b = lib_canonical_argument_digest (rpr_invocation r) \<and>
     rrb_completed_attempt_number b = rpr_attempt_number r \<and>
     rrb_manifest_id b = mp_id (rpr_manifest r) \<and>
     rrb_manifest_version b = mp_version (rpr_manifest r) \<and>
     rrb_manifest_digest b = mp_schema_digest (rpr_manifest r) \<and>
     rrb_recovery_mode b = mp_recovery_mode (rpr_manifest r) \<and>
     rrb_idempotency_key b = lib_idempotency_key (rpr_invocation r)"

text \<open>\<open>UncertainInvocationRecord\<close>, also called \<open>RecoveryRecord\<close>.\<close>

record UncertainInvocationRecord =
  uir_pause :: RecoveryPauseRecord
  uir_resume_binding :: "RecoveryResumeBinding option"

definition UncertainInvocationRecord_validate ::
  "'x capability_lib_scheme \<Rightarrow> UncertainInvocationRecord \<Rightarrow> (ExecutionErrorCode crash, unit) result" where
  "UncertainInvocationRecord_validate L r =
     try_then (RecoveryPauseRecord_validate L (uir_pause r)) (\<lambda>_.
     case uir_resume_binding r of
       None \<Rightarrow> Ok ()
     | Some binding \<Rightarrow>
         if \<not> matches_resume_binding (uir_pause r) binding then Err (Raised ExInvalidCheckpoint)
         else Ok ())"

definition UncertainInvocationRecord_new_with_pause ::
  "'x capability_lib_scheme \<Rightarrow> RecoveryPauseRecord \<Rightarrow> RecoveryResumeBinding option
     \<Rightarrow> (ExecutionErrorCode crash, UncertainInvocationRecord) result" where
  "UncertainInvocationRecord_new_with_pause L pause binding =
     checked (UncertainInvocationRecord_validate L)
       \<lparr>uir_pause = pause, uir_resume_binding = binding\<rparr>"

definition UncertainInvocationRecord_new ::
  "'x capability_lib_scheme \<Rightarrow> LogicalInvocationBinding \<Rightarrow> u32 \<Rightarrow> ManifestPin \<Rightarrow> RecoveryMode
     \<Rightarrow> RecoveryResumeBinding option \<Rightarrow> (ExecutionErrorCode crash, UncertainInvocationRecord) result" where
  "UncertainInvocationRecord_new L invocation n manifest recovery_mode binding =
     (if recovery_mode \<noteq> mp_recovery_mode manifest then Err (Raised ExInvalidCheckpoint)
      else try_then (RecoveryPauseRecord_new L invocation n manifest
          (if binding \<noteq> None then AuthoritativeAbsence else UncertainOutcome)) (\<lambda>pause.
        UncertainInvocationRecord_new_with_pause L pause binding))"

section \<open>Pending approvals\<close>

record PendingApprovalRecord =
  par_request :: ApprovalRequest
  par_decision :: "ApprovalDecision option"

definition PendingApprovalRecord_validate ::
  "PendingApprovalRecord \<Rightarrow> (ExecutionErrorCode, unit) result" where
  "PendingApprovalRecord_validate r =
     try_then (map_err (\<lambda>_. ExInvalidCheckpoint) (ApprovalRequest_validate (par_request r))) (\<lambda>_.
     try_then (case par_decision r of
         None \<Rightarrow> Ok ()
       | Some d \<Rightarrow> map_err (\<lambda>_. ExInvalidCheckpoint) (ApprovalDecision_validate d)) (\<lambda>_.
     if is_some_and (par_decision r)
          (\<lambda>d. ad_request d \<noteq> par_request r \<or> ad_kind d \<noteq> ApproveDecision)
     then Err ExInvalidCheckpoint else Ok ()))"

definition PendingApprovalRecord_new ::
  "ApprovalRequest \<Rightarrow> ApprovalDecision option \<Rightarrow> (ExecutionErrorCode, PendingApprovalRecord) result" where
  "PendingApprovalRecord_new request decision =
     checked PendingApprovalRecord_validate \<lparr>par_request = request, par_decision = decision\<rparr>"

definition PendingApprovalRecord_validate_against ::
  "PendingApprovalRecord \<Rightarrow> DefinitionPin \<Rightarrow> InvocationAttemptRecord
     \<Rightarrow> (ExecutionErrorCode, unit) result" where
  "PendingApprovalRecord_validate_against r definition_pin attempt =
     try_then (PendingApprovalRecord_validate r) (\<lambda>_.
     let request = par_request r; invocation = iar_invocation attempt in
     if ar_agent_definition_id request \<noteq> dp_id definition_pin
        \<or> ar_agent_definition_version request \<noteq> dp_version definition_pin
        \<or> ar_run_id request \<noteq> lib_run_id invocation
        \<or> ar_logical_step_id request \<noteq> lib_logical_step_id invocation
        \<or> ar_logical_invocation_id request \<noteq> lib_id invocation
        \<or> ar_capability_id request \<noteq> lib_capability_id invocation
        \<or> ar_manifest_version request \<noteq> lib_manifest_version invocation
        \<or> ar_capability_id request \<noteq> mp_id (iar_manifest attempt)
        \<or> ar_manifest_version request \<noteq> mp_version (iar_manifest attempt)
        \<or> ar_canonical_argument_digest request \<noteq> lib_canonical_argument_digest invocation
     then Err ExInvalidCheckpoint else Ok ())"

section \<open>Resuming after a pause\<close>

lemma resume_binding_ok:
  "RecoveryResumeBinding_new L nonce i n m = Ok b \<Longrightarrow>
     RecoveryResumeBinding_validate L b = Ok () \<and> rrb_logical_invocation_id b = li_id i \<and>
     rrb_run_id b = seed_run_id (li_seed i) \<and> rrb_logical_step_id b = seed_logical_step_id (li_seed i) \<and>
     rrb_capability_id b = seed_capability_id (li_seed i) \<and>
     canonical_argument_digest L i = (Ok (rrb_canonical_argument_digest b) :: (CapabilityErrorCode crash, uuid) result) \<and>
     rrb_completed_attempt_number b = n \<and> rrb_manifest_id b = cm_id m \<and>
     rrb_manifest_version b = cm_version m \<and> rrb_manifest_digest b = cm_schema_digest m \<and>
     rrb_recovery_mode b = cm_recovery_mode m \<and> rrb_idempotency_key b = idempotency_key_of L (li_id i)"
  by (auto simp: RecoveryResumeBinding_new_def Let_def)

lemma resume_binding_valid:
  assumes "RecoveryResumeBinding_validate L b = Ok ()"
  shows "rrb_completed_attempt_number b \<noteq> 0" "resumable_mode (rrb_recovery_mode b)"
    "unat (rrb_retry_attempt_number b) = Suc (unat (rrb_completed_attempt_number b))"
    "rrb_capability_id b = rrb_manifest_id b"
  using assms by (auto simp: RecoveryResumeBinding_validate_def checked_add_Some_iff split: if_splits)

lemma argument_digest_Ok:
  "canonical_argument_digest L i = Ok d \<longleftrightarrow>
     (\<exists>bytes. jcs_json L (seed_normalized_arguments (li_seed i)) = Some bytes \<and>
        d = new_v5 L CAPABILITY_INVOCATION_NAMESPACE bytes)"
  by (auto simp: canonical_argument_digest_def expect_def ok_or_def split: option.splits)

lemma invocation_binding_Ok:
  "LogicalInvocation_binding L i = Ok b \<longleftrightarrow>
     (\<exists>bytes. jcs_json L (seed_normalized_arguments (li_seed i)) = Some bytes \<and>
        b = \<lparr>lib_id = li_id i, lib_run_id = seed_run_id (li_seed i),
           lib_logical_step_id = seed_logical_step_id (li_seed i),
           lib_capability_id = seed_capability_id (li_seed i),
           lib_manifest_version = seed_manifest_version (li_seed i),
           lib_canonical_argument_digest = new_v5 L CAPABILITY_INVOCATION_NAMESPACE bytes,
           lib_idempotency_key = idempotency_key_of L (li_id i)\<rparr>)"
  by (auto simp: LogicalInvocation_binding_def argument_digest_Ok)

lemma manifest_pin_ok:
  "ManifestPin_from_manifest m = Ok p \<longleftrightarrow> ManifestPin_validate p = Ok () \<and>
     p = \<lparr>mp_id = cm_id m, mp_version = cm_version m, mp_schema_digest = cm_schema_digest m,
        mp_recovery_mode = cm_recovery_mode m\<rparr>"
  by (auto simp: ManifestPin_from_manifest_def ManifestPin_new_with_recovery_mode_def)

lemma pause_new_ok:
  "RecoveryPauseRecord_new L i n p why = Ok r \<Longrightarrow>
     RecoveryPauseRecord_validate L r = Ok () \<and>
     r = \<lparr>rpr_invocation = i, rpr_attempt_number = n, rpr_manifest = p, rpr_reason = why\<rparr>"
  by (auto simp: RecoveryPauseRecord_new_def)

text \<open>The resume binding and the recovery pause that the runtime builds from the same invocation,
  attempt and manifest belong together: the binding authorises exactly the next attempt, without
  wrapping round, the recovery mode admits a retry, and the uncertain record that joins the two is
  accepted exactly when the pause says that the attempt is retryable or authoritatively absent; an
  uncertain outcome, a pending reconciliation and a manual review admit no binding.\<close>

theorem resume_binding_fits_pause:
  assumes b: "RecoveryResumeBinding_new L nonce i n m = Ok b"
    and ib: "LogicalInvocation_binding L i = (Ok ib :: (CapabilityErrorCode crash, _) result)"
    and pin: "ManifestPin_from_manifest m = Ok pin"
    and pause: "RecoveryPauseRecord_new L ib n pin why = Ok p"
  shows "unat (rrb_retry_attempt_number b) = Suc (unat n) \<and> resumable_mode (mp_recovery_mode pin) \<and>
     (UncertainInvocationRecord_new_with_pause L p (Some b) = Ok \<lparr>uir_pause = p, uir_resume_binding = Some b\<rparr>
        \<longleftrightarrow> why \<in> {Retryable, AuthoritativeAbsence})"
proof -
  note b' = resume_binding_ok [OF b] and p' = pause_new_ok [OF pause]
  note v = resume_binding_valid [OF conjunct1 [OF b']]
  have "matches_resume_binding p b \<longleftrightarrow> why \<in> {Retryable, AuthoritativeAbsence}"
    using b' p' ib pin v(2)
    by (auto simp: matches_resume_binding_def allows_automatic_resume_def resumable_mode_def
        manifest_pin_ok invocation_binding_Ok argument_digest_Ok)
  then show ?thesis
    using b' p' pin v
    by (auto simp: UncertainInvocationRecord_new_with_pause_def UncertainInvocationRecord_validate_def
        manifest_pin_ok)
qed

section \<open>Durable attempts\<close>

text \<open>A durable attempt record holds enough to restart the invocation: if canonical arguments
  are canonicalised to themselves, the invocation rebuilt from a durable record is the very one the
  record was made from, with the same identifier, so a retry after a restart presents the same
  idempotency key.\<close>

theorem durable_attempt_roundtrip:
  assumes new: "LogicalInvocation_new L run step cap ver arguments = Ok i"
    and canonical: "\<And>a b. canonicalize_arguments L a = Ok b \<Longrightarrow> canonicalize_arguments L b = Ok b"
    and r: "InvocationAttemptRecord_new_durable L i n st pin mode = Ok r"
  shows "durable_invocation L r = Ok (Some i) \<and>
    lib_idempotency_key (iar_invocation r) = idempotency_key_of L (li_id i)"
proof -
  from r obtain ib where ib: "LogicalInvocation_binding L i = (Ok ib :: (ExecutionErrorCode crash, _) result)"
    and valid: "InvocationAttemptRecord_validate L r = Ok ()" and
    rd: "r = \<lparr>iar_invocation = ib, iar_normalized_arguments = Some (seed_normalized_arguments (li_seed i)),
        iar_attempt_number = n, iar_state = st, iar_manifest = pin, iar_recovery_mode = mode\<rparr>"
    by (auto simp: InvocationAttemptRecord_new_durable_def)
  from new obtain a where a: "canonicalize_arguments L arguments = Ok a"
    and seed: "li_seed i = \<lparr>seed_run_id = run, seed_logical_step_id = step, seed_capability_id = cap,
      seed_manifest_version = ver, seed_normalized_arguments = a\<rparr>"
    and i: "LogicalInvocation_from_seed L (li_seed i) = Ok i"
    by (auto simp: LogicalInvocation_new_def LogicalInvocation_from_seed_def split: if_splits)
  have "LogicalInvocation_new L run step cap ver a = Ok i"
    using valid rd ib seed i canonical [OF a]
    by (auto simp: InvocationAttemptRecord_validate_def invocation_binding_Ok LogicalInvocation_new_def
        split: if_splits)
  then show ?thesis
    using rd ib seed by (auto simp: durable_invocation_def invocation_binding_Ok transpose_result_def)
qed

section \<open>Examples\<close>

definition recovery_lib :: capability_lib where
  "recovery_lib = example_lib\<lparr>uuid_display := \<lambda>_. ''u''\<rparr>"

definition example_invocation :: LogicalInvocation where
  "example_invocation = \<lparr>li_id = 0x43a6aa38239d5bf5963d45dc8731c2ef + 44,
     li_seed = \<lparr>seed_run_id = 11, seed_logical_step_id = ''s1'', seed_capability_id = ''fs.read'',
       seed_manifest_version = 1, seed_normalized_arguments = JNull\<rparr>\<rparr>"

definition example_invocation_binding :: LogicalInvocationBinding where
  "example_invocation_binding = \<lparr>lib_id = 0x43a6aa38239d5bf5963d45dc8731c2ef + 44, lib_run_id = 11,
     lib_logical_step_id = ''s1'', lib_capability_id = ''fs.read'', lib_manifest_version = 1,
     lib_canonical_argument_digest = 0x43a6aa38239d5bf5963d45dc8731c2ef + 4,
     lib_idempotency_key = ''anima-core:u''\<rparr>"

definition example_pin :: ManifestPin where
  "example_pin = \<lparr>mp_id = ''fs.read'', mp_version = 1, mp_schema_digest = ''sha256:'' @ replicate 64 (CHR ''0''),
     mp_recovery_mode = InherentlyIdempotent\<rparr>"

lemma example_invocation_new:
  "LogicalInvocation_new recovery_lib 11 ''s1'' ''fs.read'' 1 JNull = Ok example_invocation"
  by (simp add: LogicalInvocation_new_def LogicalInvocation_from_seed_def recovery_lib_def example_lib_def
      canonicalize_arguments_def argument_bounds_eq capability_consts example_invocation_def
      CAPABILITY_INVOCATION_NAMESPACE_def)

lemma example_invocation_bound:
  "LogicalInvocation_binding recovery_lib example_invocation = Ok example_invocation_binding"
  by (simp add: invocation_binding_Ok recovery_lib_def example_lib_def example_invocation_def
      example_invocation_binding_def CAPABILITY_INVOCATION_NAMESPACE_def idempotency_key_of_def)

lemma example_pinned: "ManifestPin_from_manifest example_manifest = Ok example_pin"
  by (simp add: manifest_pin_ok ManifestPin_validate_def example_manifest_def example_pin_def
      execution_checks not_blank_graph code_def MAX_ID_BYTES_def lower_hex_def is_ascii_digit_def
      list_all_iff)

lemma no_whitespace_graph: "\<forall>c \<in> set s. 33 \<le> code c \<and> code c \<le> 126 \<Longrightarrow> \<not> has_whitespace s"
  by (induction s rule: has_whitespace.induct) (auto simp: white1_def white2_def white3_def)

declare has_whitespace.simps [simp del]

lemma example_attempt_valid:
  "InvocationAttemptRecord_validate recovery_lib
     \<lparr>iar_invocation = example_invocation_binding,
      iar_normalized_arguments = Some (seed_normalized_arguments (li_seed example_invocation)),
      iar_attempt_number = 1, iar_state = st, iar_manifest = example_pin,
      iar_recovery_mode = InherentlyIdempotent\<rparr> = Ok ()"
proof -
  have "LogicalInvocation_new recovery_lib (lib_run_id example_invocation_binding)
      (lib_logical_step_id example_invocation_binding) (lib_capability_id example_invocation_binding)
      (lib_manifest_version example_invocation_binding)
      (seed_normalized_arguments (li_seed example_invocation)) = Ok example_invocation"
    using example_invocation_new by (simp add: example_invocation_binding_def example_invocation_def)
  then show ?thesis
    using example_invocation_bound
    by (simp add: InvocationAttemptRecord_validate_def example_pin_def)
      (simp add: example_invocation_binding_def)
qed

theorem resume_binding_fits_pause_witness:
  "\<exists>b p. UncertainInvocationRecord_new_with_pause recovery_lib p (Some b) =
     Ok \<lparr>uir_pause = p, uir_resume_binding = Some b\<rparr> \<and> unat (rrb_retry_attempt_number b) = 2"
proof -
  obtain p where p: "RecoveryPauseRecord_new recovery_lib example_invocation_binding 1 example_pin
      Retryable = Ok p"
    by (simp add: RecoveryPauseRecord_new_def RecoveryPauseRecord_validate_def
        InvocationAttemptRecord_new_def InvocationAttemptRecord_validate_def
        example_invocation_binding_def example_pin_def checked_def)
  obtain b where b: "RecoveryResumeBinding_new recovery_lib 5 example_invocation 1 example_manifest = Ok b"
    by (simp add: RecoveryResumeBinding_new_def RecoveryResumeBinding_validate_def checked_def
        checked_add_def canonical_argument_digest_def recovery_lib_def example_lib_def
        example_invocation_def example_manifest_def Let_def uuid_is_nil_def capability_consts
        not_blank_graph code_def resumable_mode_def idempotency_key_of_def show_nat.simps
        CAPABILITY_INVOCATION_NAMESPACE_def RECOVERY_RESUME_BINDING_NAMESPACE_def
        no_whitespace_graph list_all_iff)
  from resume_binding_fits_pause [OF b example_invocation_bound example_pinned p] show ?thesis by auto
qed

theorem durable_attempt_roundtrip_witness:
  "\<exists>r. InvocationAttemptRecord_new_durable recovery_lib example_invocation 1 AttemptPending example_pin
       InherentlyIdempotent = Ok r \<and>
     durable_invocation recovery_lib r = Ok (Some example_invocation)"
proof -
  have canonical: "canonicalize_arguments recovery_lib a = Ok b \<Longrightarrow>
      canonicalize_arguments recovery_lib b = Ok b" for a b
    by (simp add: canonicalize_arguments_def recovery_lib_def example_lib_def)
  obtain r where r: "InvocationAttemptRecord_new_durable recovery_lib example_invocation 1 AttemptPending
      example_pin InherentlyIdempotent = Ok r"
    by (simp add: InvocationAttemptRecord_new_durable_def example_attempt_valid
        example_invocation_bound checked_def)
  from durable_attempt_roundtrip  [OF example_invocation_new _ r] canonical r show ?thesis by blast
qed

end
