(* ===== verification/Run_State.thy ===== *)
theory Run_State
  imports Recovery
begin

text \<open>
  Sessions, runs, steps, attempts, leases, runtime commands and receipts of
  \<open>anima-core/src/execution/state.rs\<close>. A run is an immutable value: every operation returns the
  next run, built again by \<open>from_parts\<close>, or an error.

  Constructors of different Rust enums with the same name are told apart by a prefix
  (\<open>RunState::Completed\<close> is \<open>RunCompleted\<close>, \<open>RunPauseReason::Budget\<close> is \<open>PauseBudget\<close>).
\<close>

section \<open>Sessions\<close>

datatype SessionConcurrencyPolicy = Serial | Concurrent

record Session =
  se_id :: uuid
  se_definition :: DefinitionPin
  se_concurrency :: SessionConcurrencyPolicy
  se_allows_concurrent_sessions :: bool
  se_verified :: bool

definition Session_new_inner ::
  "uuid \<Rightarrow> DefinitionPin \<Rightarrow> SessionConcurrencyPolicy \<Rightarrow> bool \<Rightarrow> bool
     \<Rightarrow> (ExecutionErrorCode, Session) result" where
  "Session_new_inner i definition_pin concurrency allows verified =
     try_then (valid_uuid i) (\<lambda>_.
     if concurrency = Concurrent \<and> \<not> allows then Err ExConcurrentNotPinned
     else Ok \<lparr>se_id = i, se_definition = definition_pin, se_concurrency = concurrency,
       se_allows_concurrent_sessions = allows, se_verified = verified\<rparr>)"

definition Session_new ::
  "uuid \<Rightarrow> string \<Rightarrow> u32 \<Rightarrow> SessionConcurrencyPolicy \<Rightarrow> (ExecutionErrorCode, Session) result" where
  "Session_new i definition_id definition_version concurrency =
     (if concurrency = Concurrent then Err ExConcurrentNotPinned
      else try_then (DefinitionPin_new SUPPORTED_DEFINITION_SCHEMA_VERSION definition_id
          definition_version) (\<lambda>pin.
        Session_new_inner i pin concurrency False True))"

definition Session_new_for_definition ::
  "uuid \<Rightarrow> 'd AgentDefinition_scheme \<Rightarrow> SessionConcurrencyPolicy
     \<Rightarrow> (ExecutionErrorCode, Session) result" where
  "Session_new_for_definition i d concurrency =
     try_then (DefinitionPin_from_definition d) (\<lambda>pin.
       Session_new_inner i pin concurrency (def_allows_concurrent_sessions d) True)"

definition Session_concurrency ::
  "Session \<Rightarrow> (ExecutionErrorCode, SessionConcurrencyPolicy) result" where
  "Session_concurrency s =
     (if \<not> se_verified s then Err ExMissingPrerequisite else Ok (se_concurrency s))"

definition Session_assert_compatible ::
  "Session \<Rightarrow> 'd AgentDefinition_scheme \<Rightarrow> (ExecutionErrorCode, Session) result" where
  "Session_assert_compatible s d =
     try_then (DefinitionPin_from_definition d) (\<lambda>live_pin.
     if se_definition s \<noteq> live_pin
        \<or> se_allows_concurrent_sessions s \<noteq> def_allows_concurrent_sessions d
        \<or> (se_concurrency s = Concurrent \<and> \<not> def_allows_concurrent_sessions d)
     then Err ExIncompatibleCheckpoint
     else Ok (s\<lparr>se_verified := True\<rparr>))"

text \<open>The untagged wire enum \<open>SessionWire\<close>; the current form leaves out \<open>verified\<close>.\<close>

datatype SessionWire =
    CurrentSessionWire uuid DefinitionPin SessionConcurrencyPolicy bool
  | LegacySessionWire uuid string u32 SessionConcurrencyPolicy bool

definition Session_wire :: "Session \<Rightarrow> SessionWire" where
  "Session_wire s = CurrentSessionWire (se_id s) (se_definition s) (se_concurrency s)
     (se_allows_concurrent_sessions s)"

fun Session_load :: "SessionWire \<Rightarrow> (ExecutionErrorCode, Session) result" where
  "Session_load (CurrentSessionWire i pin concurrency allows) =
     try_then (checked DefinitionPin_validate pin) (\<lambda>pin.
       Session_new_inner i pin concurrency allows (concurrency = Serial))"
| "Session_load (LegacySessionWire i definition_id definition_version concurrency pinned) =
     try_then (DefinitionPin_new SUPPORTED_DEFINITION_SCHEMA_VERSION definition_id
         definition_version) (\<lambda>pin.
       Session_new_inner i pin concurrency pinned (concurrency = Serial))"

section \<open>Runs\<close>

datatype RunState =
    Queued | Running | WaitingForApproval | Paused | RecoveryRequired
  | RunCompleted | RunFailed | RunCancelled

definition is_terminal :: "RunState \<Rightarrow> bool" where
  "is_terminal s \<longleftrightarrow> s \<in> {RunCompleted, RunFailed, RunCancelled}"

datatype RunPauseReason =
    PauseRequested | PauseBudget | PauseRecoveryRequired | PauseHostShutdown | PausePolicy
  | PausePolicyDenied

datatype RecoveryTerminalResolution =
    ResolveCancel | ResolveFail | AdoptExternallyVerifiedResult uuid

record Run =
  run_id :: uuid
  run_session_id :: uuid
  run_definition_id :: string
  run_definition_version :: u32
  run_state :: RunState
  run_pause_reason :: "RunPauseReason option"
  run_pending_approval :: "ApprovalRequest option"
  run_recovery_pause :: "RecoveryPauseRecord option"
  run_recovery_binding :: "RecoveryResumeBinding option"

definition from_parts ::
  "uuid \<Rightarrow> uuid \<Rightarrow> string \<Rightarrow> u32 \<Rightarrow> RunState \<Rightarrow> RunPauseReason option \<Rightarrow> ApprovalRequest option
     \<Rightarrow> RecoveryPauseRecord option \<Rightarrow> RecoveryResumeBinding option
     \<Rightarrow> (ExecutionErrorCode, Run) result" where
  "from_parts i session_id definition_id definition_version state pause_reason pending_approval
       recovery_pause recovery_binding =
     try_then (valid_uuid i) (\<lambda>_.
     try_then (valid_uuid session_id) (\<lambda>_.
     try_then (valid_id definition_id) (\<lambda>_.
     try_then (valid_version definition_version) (\<lambda>_.
     if (state = Paused) \<noteq> (pause_reason \<noteq> None) \<or> pause_reason = Some PauseRecoveryRequired
       then Err ExInvalidState
     else if (state = WaitingForApproval) \<noteq> (pending_approval \<noteq> None)
        \<or> (state = RecoveryRequired) \<noteq> (recovery_pause \<noteq> None)
        \<or> is_some_and pending_approval (\<lambda>request. ar_run_id request \<noteq> i)
        \<or> is_some_and recovery_pause (\<lambda>pause. lib_run_id (rpr_invocation pause) \<noteq> i)
        \<or> is_some_and recovery_binding (\<lambda>binding.
             is_none_or recovery_pause (\<lambda>pause. \<not> matches_resume_binding pause binding))
       then Err ExInvalidState
     else Ok \<lparr>run_id = i, run_session_id = session_id, run_definition_id = definition_id,
       run_definition_version = definition_version, run_state = state,
       run_pause_reason = pause_reason, run_pending_approval = pending_approval,
       run_recovery_pause = recovery_pause, run_recovery_binding = recovery_binding\<rparr>))))"

text \<open>The calls of \<open>from_parts\<close> that keep the identity of a run.\<close>

definition with_parts ::
  "Run \<Rightarrow> RunState \<Rightarrow> RunPauseReason option \<Rightarrow> ApprovalRequest option \<Rightarrow> RecoveryPauseRecord option
     \<Rightarrow> RecoveryResumeBinding option \<Rightarrow> (ExecutionErrorCode, Run) result" where
  "with_parts r =
     from_parts (run_id r) (run_session_id r) (run_definition_id r) (run_definition_version r)"

definition run_queued ::
  "uuid \<Rightarrow> uuid \<Rightarrow> string \<Rightarrow> u32 \<Rightarrow> (ExecutionErrorCode, Run) result" where
  "run_queued i session_id definition_id definition_version =
     from_parts i session_id definition_id definition_version Queued None None None None"

text \<open>A run is serialized field by field and rebuilt by \<open>from_parts\<close>.\<close>

definition Run_load :: "Run \<Rightarrow> (ExecutionErrorCode, Run) result" where
  "Run_load w =
     from_parts (run_id w) (run_session_id w) (run_definition_id w) (run_definition_version w)
       (run_state w) (run_pause_reason w) (run_pending_approval w) (run_recovery_pause w)
       (run_recovery_binding w)"

fun legal_transition :: "RunState \<Rightarrow> RunState \<Rightarrow> bool" where
  "legal_transition Queued to \<longleftrightarrow> to = Running"
| "legal_transition Running to \<longleftrightarrow>
     to \<in> {WaitingForApproval, Paused, RecoveryRequired, RunCompleted, RunFailed, RunCancelled}"
| "legal_transition WaitingForApproval to \<longleftrightarrow> to = Paused"
| "legal_transition _ to \<longleftrightarrow> False"

definition transition ::
  "Run \<Rightarrow> RunState \<Rightarrow> RunPauseReason option \<Rightarrow> (ExecutionErrorCode, Run) result" where
  "transition r target pause_reason =
     (if is_terminal (run_state r) \<or> \<not> legal_transition (run_state r) target
        then Err ExIllegalTransition
      else if target = Paused \<and> pause_reason = None then Err ExMissingPrerequisite
      else if target \<noteq> Paused \<and> pause_reason \<noteq> None then Err ExInvalidState
      else if target \<in> {WaitingForApproval, RecoveryRequired} then Err ExMissingPrerequisite
      else with_parts r target pause_reason None None None)"

definition wait_for_approval :: "Run \<Rightarrow> ApprovalRequest \<Rightarrow> (ExecutionErrorCode, Run) result" where
  "wait_for_approval r request =
     (if run_state r \<noteq> Running \<or> ar_run_id request \<noteq> run_id r then Err ExMissingPrerequisite
      else with_parts r WaitingForApproval None (Some request) None None)"

definition pause_for_recovery :: "Run \<Rightarrow> RecoveryPauseRecord \<Rightarrow> (ExecutionErrorCode, Run) result" where
  "pause_for_recovery r pause =
     (if run_state r \<noteq> Running \<or> lib_run_id (rpr_invocation pause) \<noteq> run_id r
        then Err ExMissingPrerequisite
      else with_parts r RecoveryRequired None None (Some pause) None)"

definition require_recovery ::
  "Run \<Rightarrow> UncertainInvocationRecord \<Rightarrow> (ExecutionErrorCode, Run) result" where
  "require_recovery r recovery =
     (if run_state r \<noteq> Running \<or> lib_run_id (rpr_invocation (uir_pause recovery)) \<noteq> run_id r
        then Err ExMissingPrerequisite
      else with_parts r RecoveryRequired None None (Some (uir_pause recovery))
        (uir_resume_binding recovery))"

definition run_resume :: "Run \<Rightarrow> (ExecutionErrorCode, Run) result" where
  "run_resume r =
     (case run_state r of
        WaitingForApproval \<Rightarrow> Err ExMissingPrerequisite
      | RecoveryRequired \<Rightarrow> Err ExRecoveryRequired
      | Paused \<Rightarrow>
          if run_pause_reason r = Some PausePolicyDenied then Err ExMissingPrerequisite
          else with_parts r Running None None None None
      | _ \<Rightarrow> Err ExIllegalTransition)"

definition resolve_recovery_terminal ::
  "Run \<Rightarrow> RecoveryTerminalResolution \<Rightarrow> (ExecutionErrorCode, Run \<times> uuid option) result" where
  "resolve_recovery_terminal r resolution =
     (if run_state r \<noteq> RecoveryRequired \<or> run_recovery_pause r = None then Err ExIllegalTransition
      else try_then (case resolution of
          ResolveCancel \<Rightarrow> Ok (RunCancelled, None)
        | ResolveFail \<Rightarrow> Ok (RunFailed, None)
        | AdoptExternallyVerifiedResult result_ref \<Rightarrow>
            try_then (OpaqueReference_new result_ref) (\<lambda>ref. Ok (RunCompleted, Some ref)))
        (\<lambda>(target, adopted). try_then (with_parts r target None None None None) (\<lambda>run.
           Ok (run, adopted))))"

definition cancel_at_boundary :: "Run \<Rightarrow> (ExecutionErrorCode, Run) result" where
  "cancel_at_boundary r =
     (case run_state r of
        Running \<Rightarrow> transition r RunCancelled None
      | WaitingForApproval \<Rightarrow> with_parts r RunCancelled None None None None
      | RecoveryRequired \<Rightarrow>
          try_then (resolve_recovery_terminal r ResolveCancel) (\<lambda>outcome. Ok (fst outcome))
      | Paused \<Rightarrow>
          if run_pause_reason r = Some PausePolicyDenied
          then with_parts r RunCancelled None None None None
          else Err ExIllegalTransition
      | _ \<Rightarrow> Err ExIllegalTransition)"

definition request_pause_or_cancel ::
  "Run \<Rightarrow> bool \<Rightarrow> bool \<Rightarrow> bool \<Rightarrow> (ExecutionErrorCode, Run) result" where
  "request_pause_or_cancel r cancel_requested pause_requested safe_boundary =
     (if \<not> safe_boundary then Ok r
      else if cancel_requested then transition r RunCancelled None
      else if pause_requested then transition r Paused (Some PauseRequested)
      else Ok r)"

text \<open>The two resume calls that take a bare identifier instead of a validated claim always fail.\<close>

definition resume_with_claim :: "Run \<Rightarrow> uuid \<Rightarrow> uuid \<Rightarrow> (ExecutionErrorCode, Run) result" where
  "resume_with_claim r request_id decision_id = Err ExMissingPrerequisite"

definition resume_with_recovery :: "Run \<Rightarrow> uuid \<Rightarrow> (ExecutionErrorCode, Run) result" where
  "resume_with_recovery r key = Err ExRecoveryRequired"

section \<open>Steps and attempts\<close>

datatype StepKind = ModelStep | CapabilityStep | PolicyStep | MemoryStep

record Attempt =
  at_id :: uuid
  at_number :: u32
  at_logical_invocation_id :: uuid

record Step =
  st_run_id :: uuid
  st_logical_step_id :: string
  st_kind :: StepKind
  st_attempts :: "Attempt list"

definition attempt_uuid :: "'x capability_lib_scheme \<Rightarrow> uuid \<Rightarrow> u32 \<Rightarrow> uuid" where
  "attempt_uuid L invocation number =
     new_v5 L CAPABILITY_INVOCATION_NAMESPACE
       (''attempt='' @ uuid_display L invocation @ '':number='' @ show_nat (unat number))"

definition Attempt_new ::
  "'x capability_lib_scheme \<Rightarrow> uuid \<Rightarrow> u32 \<Rightarrow> (ExecutionErrorCode, Attempt) result" where
  "Attempt_new L invocation number =
     try_then (valid_uuid invocation) (\<lambda>_.
     if number = 0 then Err ExInvalidAttempt
     else Ok \<lparr>at_id = attempt_uuid L invocation number, at_number = number,
       at_logical_invocation_id = invocation\<rparr>)"

definition Attempt_retry ::
  "'x capability_lib_scheme \<Rightarrow> Attempt \<Rightarrow> (ExecutionErrorCode, Attempt) result" where
  "Attempt_retry L a =
     try_then (ok_or (checked_add (at_number a) 1) ExArithmeticOverflow)
       (Attempt_new L (at_logical_invocation_id a))"

definition Attempt_load ::
  "'x capability_lib_scheme \<Rightarrow> Attempt \<Rightarrow> (ExecutionErrorCode, Attempt) result" where
  "Attempt_load L w =
     try_then (Attempt_new L (at_logical_invocation_id w) (at_number w)) (\<lambda>a.
     if at_id a \<noteq> at_id w then Err ExInvalidAttempt else Ok a)"

definition Step_new :: "uuid \<Rightarrow> string \<Rightarrow> StepKind \<Rightarrow> (ExecutionErrorCode, Step) result" where
  "Step_new run step kind =
     try_then (valid_uuid run) (\<lambda>_. try_then (valid_id step) (\<lambda>_.
     Ok \<lparr>st_run_id = run, st_logical_step_id = step, st_kind = kind, st_attempts = []\<rparr>))"

text \<open>\<open>attempts.len() as u32\<close> keeps the low 32 bits of the length.\<close>

definition start_attempt ::
  "'x capability_lib_scheme \<Rightarrow> Step \<Rightarrow> uuid \<Rightarrow> (ExecutionErrorCode, Attempt) result" where
  "start_attempt L s invocation =
     try_then (ok_or (checked_add (of_nat (length (st_attempts s))) 1) ExArithmeticOverflow)
       (Attempt_new L invocation)"

definition append_attempt :: "Step \<Rightarrow> Attempt \<Rightarrow> (ExecutionErrorCode, Step) result" where
  "append_attempt s a =
     (if is_some_and (case st_attempts s of [] \<Rightarrow> None | x # _ \<Rightarrow> Some x)
           (\<lambda>x. at_logical_invocation_id x \<noteq> at_logical_invocation_id a)
         \<or> at_number a \<noteq> of_nat (length (st_attempts s)) + 1
      then Err ExInvalidAttempt
      else Ok (s\<lparr>st_attempts := st_attempts s @ [a]\<rparr>))"

text \<open>Loading a step loads its attempts one by one, then checks their numbers and invocation.\<close>

fun check_attempts ::
  "uuid option \<Rightarrow> u32 \<Rightarrow> Attempt list \<Rightarrow> (ExecutionErrorCode, unit) result" where
  "check_attempts invocation i [] = Ok ()"
| "check_attempts invocation i (a # as) =
     (if at_number a \<noteq> i + 1 \<or> invocation \<noteq> Some (at_logical_invocation_id a)
      then Err ExInvalidAttempt else check_attempts invocation (i + 1) as)"

fun load_attempts ::
  "'x capability_lib_scheme \<Rightarrow> Attempt list \<Rightarrow> (ExecutionErrorCode, Attempt list) result" where
  "load_attempts L [] = Ok []"
| "load_attempts L (w # ws) =
     try_then (Attempt_load L w) (\<lambda>a. try_then (load_attempts L ws) (\<lambda>as. Ok (a # as)))"

definition Step_load ::
  "'x capability_lib_scheme \<Rightarrow> Step \<Rightarrow> (ExecutionErrorCode, Step) result" where
  "Step_load L w =
     try_then (load_attempts L (st_attempts w)) (\<lambda>attempts.
     try_then (Step_new (st_run_id w) (st_logical_step_id w) (st_kind w)) (\<lambda>step.
     try_then (check_attempts
         (case attempts of [] \<Rightarrow> None | a # _ \<Rightarrow> Some (at_logical_invocation_id a)) 0 attempts) (\<lambda>_.
     Ok (step\<lparr>st_attempts := attempts\<rparr>))))"

section \<open>Leases\<close>

record ExecutionLease =
  el_run_id :: uuid
  el_fence :: uuid
  el_expires_at_ms :: u64

definition ExecutionLease_validate :: "ExecutionLease \<Rightarrow> (ExecutionErrorCode, unit) result" where
  "ExecutionLease_validate l =
     try_then (valid_uuid (el_run_id l)) (\<lambda>_. try_then (valid_uuid (el_fence l)) (\<lambda>_.
     if el_expires_at_ms l = 0 then Err ExInvalidIdentifier else Ok ()))"

definition ExecutionLease_new ::
  "uuid \<Rightarrow> uuid \<Rightarrow> u64 \<Rightarrow> (ExecutionErrorCode, ExecutionLease) result" where
  "ExecutionLease_new run fence expires =
     checked ExecutionLease_validate
       \<lparr>el_run_id = run, el_fence = fence, el_expires_at_ms = expires\<rparr>"

section \<open>Commands\<close>

datatype RuntimeCommandKind =
    CmdStart | CmdRecordProgress | CmdPrepareDispatch | CmdRequestApproval | CmdRequireRecovery
  | CmdPause | CmdResume | CmdRetry | CmdResumeApproval | CmdResumeRecovery | CmdComplete | CmdFail
  | CmdCancel

text \<open>\<open>ApprovalResumeBinding\<close> wraps one decision; the payload holds it directly.\<close>

datatype RuntimeCommandPayload =
    Start (payload_run_id: uuid)
  | RecordProgress (payload_run_id: uuid)
  | PrepareDispatch (payload_run_id: uuid) "UncertainInvocationRecord option"
  | RequestApproval (payload_run_id: uuid) ApprovalRequest
  | RequireRecovery (payload_run_id: uuid) UncertainInvocationRecord
  | Pause (payload_run_id: uuid) RunPauseReason "UncertainInvocationRecord option"
  | Resume (payload_run_id: uuid)
  | RetryRun (payload_run_id: uuid) uuid
  | ResumeApproval (payload_run_id: uuid) ApprovalDecision
  | ResumeRecovery (payload_run_id: uuid) RecoveryResumeBinding
  | Complete (payload_run_id: uuid)
  | Fail (payload_run_id: uuid)
  | Cancel (payload_run_id: uuid) "UncertainInvocationRecord option"

fun payload_kind :: "RuntimeCommandPayload \<Rightarrow> RuntimeCommandKind" where
  "payload_kind (Start _) = CmdStart"
| "payload_kind (RecordProgress _) = CmdRecordProgress"
| "payload_kind (PrepareDispatch _ _) = CmdPrepareDispatch"
| "payload_kind (RequestApproval _ _) = CmdRequestApproval"
| "payload_kind (RequireRecovery _ _) = CmdRequireRecovery"
| "payload_kind (Pause _ _ _) = CmdPause"
| "payload_kind (Resume _) = CmdResume"
| "payload_kind (RetryRun _ _) = CmdRetry"
| "payload_kind (ResumeApproval _ _) = CmdResumeApproval"
| "payload_kind (ResumeRecovery _ _) = CmdResumeRecovery"
| "payload_kind (Complete _) = CmdComplete"
| "payload_kind (Fail _) = CmdFail"
| "payload_kind (Cancel _ _) = CmdCancel"

definition recovery_run_id :: "UncertainInvocationRecord \<Rightarrow> uuid" where
  "recovery_run_id r = lib_run_id (rpr_invocation (uir_pause r))"

definition payload_validate :: "RuntimeCommandPayload \<Rightarrow> (ExecutionErrorCode, unit) result" where
  "payload_validate p =
     try_then (valid_uuid (payload_run_id p)) (\<lambda>_.
     case p of
       RequestApproval run request \<Rightarrow> reject_if (ar_run_id request \<noteq> run) ExMissingPrerequisite
     | RequireRecovery run recovery \<Rightarrow> reject_if (recovery_run_id recovery \<noteq> run) ExMissingPrerequisite
     | PrepareDispatch run (Some recovery) \<Rightarrow>
         reject_if (recovery_run_id recovery \<noteq> run) ExMissingPrerequisite
     | Pause run why recovery \<Rightarrow>
         if why = PauseRecoveryRequired then Err ExMissingPrerequisite
         else reject_if (is_some_and recovery (\<lambda>record. recovery_run_id record \<noteq> run))
           ExMissingPrerequisite
     | Cancel run recovery \<Rightarrow>
         reject_if (is_some_and recovery (\<lambda>record. recovery_run_id record \<noteq> run))
           ExMissingPrerequisite
     | RetryRun run new_run \<Rightarrow>
         try_then (valid_uuid new_run) (\<lambda>_. reject_if (run = new_run) ExInvalidState)
     | _ \<Rightarrow> Ok ())"

record RuntimeCommand =
  cmd_id :: uuid
  cmd_session_id :: uuid
  cmd_payload :: RuntimeCommandPayload

definition RuntimeCommand_new ::
  "uuid \<Rightarrow> uuid \<Rightarrow> RuntimeCommandPayload \<Rightarrow> (ExecutionErrorCode, RuntimeCommand) result" where
  "RuntimeCommand_new i session_id payload =
     try_then (valid_uuid i) (\<lambda>_. try_then (valid_uuid session_id) (\<lambda>_.
     try_then (payload_validate payload) (\<lambda>_.
     Ok \<lparr>cmd_id = i, cmd_session_id = session_id, cmd_payload = payload\<rparr>)))"

abbreviation command_kind :: "RuntimeCommand \<Rightarrow> RuntimeCommandKind" where
  "command_kind c \<equiv> payload_kind (cmd_payload c)"

abbreviation target_run_id :: "RuntimeCommand \<Rightarrow> uuid" where
  "target_run_id c \<equiv> payload_run_id (cmd_payload c)"

definition command_approval_request :: "RuntimeCommand \<Rightarrow> ApprovalRequest option" where
  "command_approval_request c = (case cmd_payload c of RequestApproval _ request \<Rightarrow> Some request | _ \<Rightarrow> None)"

definition command_recovery_record :: "RuntimeCommand \<Rightarrow> UncertainInvocationRecord option" where
  "command_recovery_record c =
     (case cmd_payload c of
        RequireRecovery _ recovery \<Rightarrow> Some recovery
      | PrepareDispatch _ (Some recovery) \<Rightarrow> Some recovery
      | Pause _ _ (Some recovery) \<Rightarrow> Some recovery
      | Cancel _ (Some recovery) \<Rightarrow> Some recovery
      | _ \<Rightarrow> None)"

definition command_pause_reason :: "RuntimeCommand \<Rightarrow> RunPauseReason option" where
  "command_pause_reason c = (case cmd_payload c of Pause _ why _ \<Rightarrow> Some why | _ \<Rightarrow> None)"

definition command_approval_binding :: "RuntimeCommand \<Rightarrow> ApprovalDecision option" where
  "command_approval_binding c =
     (case cmd_payload c of ResumeApproval _ binding \<Rightarrow> Some binding | _ \<Rightarrow> None)"

definition command_recovery_binding :: "RuntimeCommand \<Rightarrow> RecoveryResumeBinding option" where
  "command_recovery_binding c =
     (case cmd_payload c of ResumeRecovery _ binding \<Rightarrow> Some binding | _ \<Rightarrow> None)"

definition command_retry_run_id :: "RuntimeCommand \<Rightarrow> uuid option" where
  "command_retry_run_id c = (case cmd_payload c of RetryRun _ new_run \<Rightarrow> Some new_run | _ \<Rightarrow> None)"

text \<open>
  The encoders of the execution records: \<open>jcs_command\<close> is \<open>serde_jcs::to_vec\<close> of a session
  identifier and a payload; \<open>jcs_grant\<close> and \<open>parse_grant\<close> write and read a grant, \<open>jcs_authority\<close>
  writes the struct \<open>ImmutableGrantAuthority\<close> (a grant without its remaining uses), \<open>jcs_scope\<close> a
  grant scope.
\<close>

record execution_lib = capability_lib +
  jcs_command :: "uuid \<Rightarrow> RuntimeCommandPayload \<Rightarrow> string option"
  jcs_grant :: "AutonomyGrant \<Rightarrow> string option"
  parse_grant :: "string \<Rightarrow> AutonomyGrant option"
  jcs_authority :: "AutonomyGrant \<Rightarrow> string option"
  jcs_scope :: "GrantScope \<Rightarrow> string option"

definition COMMAND_NAMESPACE :: uuid where
  "COMMAND_NAMESPACE = 0xb83bd813b90b530083c7176604a9c05e"

text \<open>The encoding is unwrapped: a payload that cannot be encoded is a panic.\<close>

definition command_digest ::
  "'x execution_lib_scheme \<Rightarrow> RuntimeCommand \<Rightarrow> (ExecutionErrorCode crash, uuid) result" where
  "command_digest L c =
     try_then (expect (ok_or (jcs_command L (cmd_session_id c) (cmd_payload c)) ()))
       (\<lambda>bytes. Ok (new_v5 L COMMAND_NAMESPACE bytes))"

section \<open>Receipts\<close>

datatype CommandOutcome = Accepted | Rejected

record CommandReceipt =
  cr_command_id :: uuid
  cr_payload_digest :: uuid
  cr_outcome :: CommandOutcome

definition CommandReceipt_new ::
  "'x execution_lib_scheme \<Rightarrow> RuntimeCommand \<Rightarrow> CommandOutcome
     \<Rightarrow> (ExecutionErrorCode crash, CommandReceipt) result" where
  "CommandReceipt_new L c outcome =
     try_then (command_digest L c) (\<lambda>digest.
     Ok \<lparr>cr_command_id = cmd_id c, cr_payload_digest = digest, cr_outcome = outcome\<rparr>)"

definition receipt_replay ::
  "'x execution_lib_scheme \<Rightarrow> CommandReceipt \<Rightarrow> RuntimeCommand
     \<Rightarrow> (ExecutionErrorCode crash, CommandOutcome) result" where
  "receipt_replay L r c =
     (if cr_command_id r \<noteq> cmd_id c then Err (Raised ExCommandConflict)
      else try_then (command_digest L c) (\<lambda>digest.
        if cr_payload_digest r \<noteq> digest then Err (Raised ExCommandConflict)
        else Ok (cr_outcome r)))"

section \<open>Grant authority and approval claims\<close>

definition sha256_labelled :: "'x capability_lib_scheme \<Rightarrow> string \<Rightarrow> string \<Rightarrow> string" where
  "sha256_labelled L label bytes = label @ hex_encode L (sha256 L bytes)"

record GrantAuthorityBinding =
  gab_authority_key :: string
  gab_full_grant_digest :: string
  gab_scope_digest :: string
  gab_revision :: u32
  gab_status :: GrantStatus
  gab_effect :: GrantEffect
  gab_maximum_risk :: RiskLevel
  gab_valid_from_ms :: i64
  gab_valid_until_ms :: "i64 option"
  gab_remaining_uses :: "u32 option"

definition GrantAuthorityBinding_from_grant ::
  "'x execution_lib_scheme \<Rightarrow> AutonomyGrant \<Rightarrow> (ExecutionErrorCode, GrantAuthorityBinding) result" where
  "GrantAuthorityBinding_from_grant L g =
     try_then (ok_or (jcs_grant L g) ExMissingPrerequisite) (\<lambda>canonical.
     try_then (ok_or (parse_grant L canonical) ExMissingPrerequisite) (\<lambda>wire.
     try_then (map_err (\<lambda>_. ExMissingPrerequisite) (AutonomyGrant_load wire)) (\<lambda>validated.
     if validated \<noteq> g then Err ExMissingPrerequisite
     else try_then (ok_or (jcs_authority L g) ExMissingPrerequisite) (\<lambda>immutable_authority.
     try_then (ok_or (jcs_scope L (ag_scope g)) ExMissingPrerequisite) (\<lambda>scope.
     Ok \<lparr>gab_authority_key = sha256_labelled L ''gauth-v1:'' (ag_id g),
       gab_full_grant_digest = sha256_labelled L ''sha256:'' immutable_authority,
       gab_scope_digest = sha256_labelled L ''sha256:'' scope,
       gab_revision = ag_revision g, gab_status = ag_status g, gab_effect = ag_effect g,
       gab_maximum_risk = ag_maximum_risk g, gab_valid_from_ms = ag_valid_from_ms g,
       gab_valid_until_ms = ag_valid_until_ms g, gab_remaining_uses = ag_remaining_uses g\<rparr>)))))"

definition matches_consumption ::
  "'x capability_lib_scheme \<Rightarrow> GrantAuthorityBinding \<Rightarrow> GrantConsumption \<Rightarrow> bool" where
  "matches_consumption L b c \<longleftrightarrow>
     gab_authority_key b = sha256_labelled L ''gauth-v1:'' (gc_grant_id c) \<and>
     gab_revision b = gc_grant_revision c"

record GrantConsumptionSnapshot =
  gcs_consumption :: GrantConsumption
  gcs_remaining_uses :: u32

definition GrantConsumptionSnapshot_new ::
  "GrantConsumption \<Rightarrow> u32 \<Rightarrow> (ExecutionErrorCode, GrantConsumptionSnapshot) result" where
  "GrantConsumptionSnapshot_new c uses =
     (if uses = 0 then Err ExMissingPrerequisite
      else Ok \<lparr>gcs_consumption = c, gcs_remaining_uses = uses\<rparr>)"

record ApprovalResumeClaim =
  arc_decision :: ApprovalDecision
  arc_grant_consumption_snapshot :: "GrantConsumptionSnapshot option"
  arc_grant_authority_binding :: "GrantAuthorityBinding option"

definition claim_grant_consumption :: "ApprovalResumeClaim \<Rightarrow> GrantConsumption option" where
  "claim_grant_consumption c = map_option gcs_consumption (arc_grant_consumption_snapshot c)"

definition ApprovalResumeClaim_new ::
  "'x execution_lib_scheme \<Rightarrow> ApprovalRequest \<Rightarrow> ApprovalDecision \<Rightarrow> PolicyContext
     \<Rightarrow> AutonomyGrant list \<Rightarrow> (ExecutionErrorCode crash, ApprovalResumeClaim) result" where
  "ApprovalResumeClaim_new L pending decision context grants =
     (if ad_kind decision \<noteq> ApproveDecision \<or> ad_request decision \<noteq> pending
         \<or> validate_approval_with_grants decision context grants \<noteq> Valid
      then Err (Raised ExMissingPrerequisite)
      else try_then (map_raised (\<lambda>_. ExMissingPrerequisite)
          (evaluate_with_approval context grants (Some decision))) (\<lambda>evaluation.
      if decision_kind (ev_decision evaluation) \<noteq> AllowedByApproval
        then Err (Raised ExMissingPrerequisite)
      else try_then (case ev_consumption evaluation of
          None \<Rightarrow> Ok None
        | Some consumption \<Rightarrow>
            try_then (raised (ok_or (Option.bind
                (find (\<lambda>g. ag_id g = gc_grant_id consumption
                  \<and> ag_revision g = gc_grant_revision consumption) grants)
                ag_remaining_uses) ExMissingPrerequisite)) (\<lambda>remaining_uses.
            try_then (raised (GrantConsumptionSnapshot_new consumption remaining_uses)) (\<lambda>snapshot.
            Ok (Some snapshot)))) (\<lambda>snapshot.
      try_then (case (ar_grant_id pending, ar_grant_revision pending) of
          (Some grant_id, Some revision) \<Rightarrow>
            try_then (raised (ok_or (find (\<lambda>g. ag_id g = grant_id \<and> ag_revision g = revision) grants)
              ExMissingPrerequisite)) (\<lambda>grant.
            try_then (raised (GrantAuthorityBinding_from_grant L grant)) (\<lambda>authority.
            Ok (Some authority)))
        | (None, None) \<Rightarrow> Ok None
        | _ \<Rightarrow> Err (Raised ExMissingPrerequisite)) (\<lambda>authority.
      Ok \<lparr>arc_decision = decision, arc_grant_consumption_snapshot = snapshot,
          arc_grant_authority_binding = authority\<rparr>))))"

section \<open>Resuming with a claim\<close>

definition resume_with_pending_approval ::
  "'x execution_lib_scheme \<Rightarrow> Run \<Rightarrow> ApprovalRequest \<Rightarrow> ApprovalDecision \<Rightarrow> PolicyContext
     \<Rightarrow> AutonomyGrant list \<Rightarrow> (ExecutionErrorCode crash, Run \<times> GrantConsumption option) result" where
  "resume_with_pending_approval L r pending decision context grants =
     try_then (ApprovalResumeClaim_new L pending decision context grants) (\<lambda>claim.
     if run_pending_approval r \<noteq> Some pending \<or> ad_request (arc_decision claim) \<noteq> pending
       then Err (Raised ExMissingPrerequisite)
     else try_then (raised (with_parts r Running None None None None)) (\<lambda>run.
       Ok (run, claim_grant_consumption claim)))"

text \<open>
  \<open>recovery_claim\<close> is the binding of a \<open>ValidatedRecoveryResume\<close>, which only the registry makes.
\<close>

definition apply_resume_command ::
  "Run \<Rightarrow> RuntimeCommand \<Rightarrow> ApprovalResumeClaim option \<Rightarrow> RecoveryResumeBinding option
     \<Rightarrow> (ExecutionErrorCode, Run \<times> GrantConsumption option) result" where
  "apply_resume_command r command approval_claim recovery_claim =
     (if cmd_session_id command \<noteq> run_session_id r \<or> target_run_id command \<noteq> run_id r
        then Err ExMissingPrerequisite
      else try_then (case run_state r of
          WaitingForApproval \<Rightarrow>
            (case (run_pending_approval r, command_approval_binding command, approval_claim) of
               (Some expected, Some command_binding, Some claim) \<Rightarrow>
                 if command_kind command \<noteq> CmdResumeApproval \<or> recovery_claim \<noteq> None
                    \<or> arc_decision claim \<noteq> command_binding
                    \<or> ad_request (arc_decision claim) \<noteq> expected
                 then Err ExMissingPrerequisite
                 else Ok (claim_grant_consumption claim)
             | _ \<Rightarrow> Err ExMissingPrerequisite)
        | RecoveryRequired \<Rightarrow>
            (case (run_recovery_pause r, command_recovery_binding command, recovery_claim) of
               (Some expected, Some command_binding, Some claim) \<Rightarrow>
                 if command_kind command \<noteq> CmdResumeRecovery \<or> approval_claim \<noteq> None
                    \<or> claim \<noteq> command_binding
                    \<or> run_recovery_binding r \<noteq> Some command_binding
                    \<or> \<not> matches_resume_binding expected command_binding
                 then Err ExRecoveryRequired
                 else Ok None
             | _ \<Rightarrow> Err ExRecoveryRequired)
        | _ \<Rightarrow> Err ExIllegalTransition) (\<lambda>grant_consumption.
      try_then (with_parts r Running None None None None) (\<lambda>run. Ok (run, grant_consumption))))"

section \<open>The invariant of a run\<close>

definition run_inv :: "Run \<Rightarrow> bool" where
  "run_inv r \<longleftrightarrow>
     run_id r \<noteq> 0 \<and> run_session_id r \<noteq> 0 \<and>
     \<not> blank (run_definition_id r) \<and> length (run_definition_id r) \<le> MAX_ID_BYTES \<and>
     run_definition_version r \<noteq> 0 \<and>
     (run_state r = Paused \<longleftrightarrow> run_pause_reason r \<noteq> None) \<and>
     run_pause_reason r \<noteq> Some PauseRecoveryRequired \<and>
     (run_state r = WaitingForApproval \<longleftrightarrow> run_pending_approval r \<noteq> None) \<and>
     (run_state r = RecoveryRequired \<longleftrightarrow> run_recovery_pause r \<noteq> None) \<and>
     (\<forall>q. run_pending_approval r = Some q \<longrightarrow> ar_run_id q = run_id r) \<and>
     (\<forall>p. run_recovery_pause r = Some p \<longrightarrow> lib_run_id (rpr_invocation p) = run_id r) \<and>
     (\<forall>b. run_recovery_binding r = Some b \<longrightarrow>
        (\<exists>p. run_recovery_pause r = Some p \<and> matches_resume_binding p b))"

definition same_run :: "Run \<Rightarrow> Run \<Rightarrow> bool" where
  "same_run r r' \<longleftrightarrow> run_id r' = run_id r \<and> run_session_id r' = run_session_id r \<and>
     run_definition_id r' = run_definition_id r \<and>
     run_definition_version r' = run_definition_version r"

text \<open>
  One operation of the run interface. Claims are opaque outside \<open>state.rs\<close>: an approval claim
  comes from \<open>ApprovalResumeClaim::new\<close>.
\<close>

inductive run_step :: "'x execution_lib_scheme \<Rightarrow> Run \<Rightarrow> Run \<Rightarrow> bool" for L where
  transition: "transition r target p = Ok r' \<Longrightarrow> run_step L r r'"
| wait: "wait_for_approval r q = Ok r' \<Longrightarrow> run_step L r r'"
| pause: "pause_for_recovery r p = Ok r' \<Longrightarrow> run_step L r r'"
| recover: "require_recovery r u = Ok r' \<Longrightarrow> run_step L r r'"
| resume: "run_resume r = Ok r' \<Longrightarrow> run_step L r r'"
| approve: "resume_with_pending_approval L r q d c gs = Ok (r', k) \<Longrightarrow> run_step L r r'"
| command: "apply_resume_command r cmd claim b = Ok (r', k) \<Longrightarrow>
    (\<And>cl. claim = Some cl \<Longrightarrow> \<exists>q d c gs. ApprovalResumeClaim_new L q d c gs = Ok cl) \<Longrightarrow>
    run_step L r r'"
| resolve: "resolve_recovery_terminal r res = Ok (r', k) \<Longrightarrow> run_step L r r'"
| cancel: "cancel_at_boundary r = Ok r' \<Longrightarrow> run_step L r r'"
| request: "request_pause_or_cancel r cr pr sb = Ok r' \<Longrightarrow> run_step L r r'"

lemma from_parts_value:
  "from_parts i s d v st pr pa rp rb = Ok r \<Longrightarrow>
     r = \<lparr>run_id = i, run_session_id = s, run_definition_id = d, run_definition_version = v,
       run_state = st, run_pause_reason = pr, run_pending_approval = pa, run_recovery_pause = rp,
       run_recovery_binding = rb\<rparr>"
  unfolding from_parts_def by (simp split: if_splits)

lemma from_parts_inv:
  "from_parts i s d v st pr pa rp rb =
     Ok \<lparr>run_id = i, run_session_id = s, run_definition_id = d, run_definition_version = v,
       run_state = st, run_pause_reason = pr, run_pending_approval = pa, run_recovery_pause = rp,
       run_recovery_binding = rb\<rparr> \<longleftrightarrow>
   run_inv \<lparr>run_id = i, run_session_id = s, run_definition_id = d, run_definition_version = v,
       run_state = st, run_pause_reason = pr, run_pending_approval = pa, run_recovery_pause = rp,
       run_recovery_binding = rb\<rparr>"
  unfolding from_parts_def run_inv_def
  by (cases pa; cases rp; cases rb; simp add: execution_checks; blast)

lemma from_parts_ok:
  "from_parts i s d v st pr pa rp rb = Ok r \<longleftrightarrow>
     r = \<lparr>run_id = i, run_session_id = s, run_definition_id = d, run_definition_version = v,
       run_state = st, run_pause_reason = pr, run_pending_approval = pa, run_recovery_pause = rp,
       run_recovery_binding = rb\<rparr> \<and> run_inv r"
  using from_parts_value from_parts_inv by metis

lemma Run_load_ok: "Run_load w = Ok r \<longleftrightarrow> r = w \<and> run_inv w"
  by (cases w) (auto simp: Run_load_def from_parts_ok)

interpretation run_format: wire_format "\<lambda>r. r" Run_load run_inv
  by unfold_locales (simp_all add: Run_load_ok)

lemma with_parts_ok:
  "with_parts r st pr pa rp rb = Ok r' \<longleftrightarrow>
     r' = r\<lparr>run_state := st, run_pause_reason := pr, run_pending_approval := pa,
       run_recovery_pause := rp, run_recovery_binding := rb\<rparr> \<and> run_inv r'"
  by (auto simp: with_parts_def from_parts_ok)

definition bare :: "Run \<Rightarrow> RunState \<Rightarrow> Run" where
  "bare r st = r\<lparr>run_state := st, run_pause_reason := None, run_pending_approval := None,
     run_recovery_pause := None, run_recovery_binding := None\<rparr>"

lemma bare_ok:
  assumes "run_inv r" and "st \<notin> {Paused, WaitingForApproval, RecoveryRequired}"
  shows "with_parts r st None None None None = Ok (bare r st)"
  using assms by (simp add: with_parts_ok bare_def run_inv_def)

named_theorems run_ops "what each successful operation of a run does"

lemma transition_ok [run_ops]:
  "transition r t p = Ok r' \<longleftrightarrow> \<not> is_terminal (run_state r) \<and> legal_transition (run_state r) t \<and>
     (t = Paused \<longleftrightarrow> p \<noteq> None) \<and> t \<notin> {WaitingForApproval, RecoveryRequired} \<and>
     r' = (bare r t)\<lparr>run_pause_reason := p\<rparr> \<and> run_inv r'"
  by (auto simp: transition_def with_parts_ok bare_def)

lemma wait_for_approval_ok [run_ops]:
  "wait_for_approval r q = Ok r' \<longleftrightarrow> run_state r = Running \<and> ar_run_id q = run_id r \<and>
     r' = (bare r WaitingForApproval)\<lparr>run_pending_approval := Some q\<rparr> \<and> run_inv r'"
  by (auto simp: wait_for_approval_def with_parts_ok bare_def)

lemma pause_for_recovery_ok [run_ops]:
  "pause_for_recovery r p = Ok r' \<longleftrightarrow> run_state r = Running \<and> lib_run_id (rpr_invocation p) = run_id r \<and>
     r' = (bare r RecoveryRequired)\<lparr>run_recovery_pause := Some p\<rparr> \<and> run_inv r'"
  by (auto simp: pause_for_recovery_def with_parts_ok bare_def)

lemma require_recovery_ok [run_ops]:
  "require_recovery r u = Ok r' \<longleftrightarrow> run_state r = Running \<and> recovery_run_id u = run_id r \<and>
     r' = (bare r RecoveryRequired)\<lparr>run_recovery_pause := Some (uir_pause u),
       run_recovery_binding := uir_resume_binding u\<rparr> \<and> run_inv r'"
  by (auto simp: require_recovery_def with_parts_ok bare_def recovery_run_id_def)

lemma run_resume_ok [run_ops]:
  "run_resume r = Ok r' \<longleftrightarrow> run_state r = Paused \<and> run_pause_reason r \<noteq> Some PausePolicyDenied \<and>
     r' = bare r Running \<and> run_inv r'"
  by (auto simp: run_resume_def with_parts_ok bare_def split: RunState.splits)

lemma resolve_ok [run_ops]:
  "resolve_recovery_terminal r res = Ok (r', k) \<longleftrightarrow>
     run_state r = RecoveryRequired \<and> run_recovery_pause r \<noteq> None \<and> run_inv r' \<and>
     (case res of ResolveCancel \<Rightarrow> r' = bare r RunCancelled \<and> k = None
      | ResolveFail \<Rightarrow> r' = bare r RunFailed \<and> k = None
      | AdoptExternallyVerifiedResult ref \<Rightarrow> r' = bare r RunCompleted \<and> k = Some ref \<and> ref \<noteq> 0)"
  by (auto simp: resolve_recovery_terminal_def with_parts_ok bare_def OpaqueReference_new_def
      execution_checks split: RecoveryTerminalResolution.splits)

lemma request_ok [run_ops]:
  "request_pause_or_cancel r cr pr sb = Ok r' \<longleftrightarrow>
     (if sb \<and> cr then transition r RunCancelled None = Ok r'
      else if sb \<and> pr then transition r Paused (Some PauseRequested) = Ok r'
      else r' = r)"
  by (auto simp: request_pause_or_cancel_def)

lemma cancel_ok [run_ops]:
  "cancel_at_boundary r = Ok r' \<longleftrightarrow>
     (run_state r \<in> {Running, WaitingForApproval} \<or>
      run_state r = RecoveryRequired \<and> run_recovery_pause r \<noteq> None \<or>
      run_state r = Paused \<and> run_pause_reason r = Some PausePolicyDenied) \<and>
     r' = bare r RunCancelled \<and> run_inv r'"
  by (cases "run_state r")
    (auto simp: cancel_at_boundary_def with_parts_ok bare_def transition_ok resolve_ok is_terminal_def)

lemma apply_resume_ok [run_ops]:
  "apply_resume_command r cmd claim b = Ok (r', k) \<longleftrightarrow>
     cmd_session_id cmd = run_session_id r \<and> target_run_id cmd = run_id r \<and>
     (run_state r = WaitingForApproval \<and> b = None \<and> (\<exists>cl. claim = Some cl \<and>
        run_pending_approval r = Some (ad_request (arc_decision cl)) \<and>
        command_approval_binding cmd = Some (arc_decision cl) \<and> k = claim_grant_consumption cl) \<or>
      run_state r = RecoveryRequired \<and> claim = None \<and> k = None \<and> (\<exists>p rb. run_recovery_pause r = Some p \<and>
        b = Some rb \<and> command_recovery_binding cmd = Some rb \<and> run_recovery_binding r = Some rb \<and>
        matches_resume_binding p rb)) \<and>
     r' = bare r Running \<and> run_inv r'"
proof -
  have kind: "command_approval_binding cmd = Some d \<Longrightarrow> command_kind cmd = CmdResumeApproval"
    "command_recovery_binding cmd = Some rb \<Longrightarrow> command_kind cmd = CmdResumeRecovery" for d rb
    by (cases "cmd_payload cmd"; simp add: command_approval_binding_def command_recovery_binding_def)+
  show ?thesis
    by (cases "run_state r")
      (auto simp: apply_resume_command_def with_parts_ok bare_def kind split: option.splits if_splits)
qed

lemma resume_pending_ok [run_ops]:
  "resume_with_pending_approval L r q d c gs = Ok (r', k) \<longleftrightarrow>
     (\<exists>cl. ApprovalResumeClaim_new L q d c gs = Ok cl \<and> run_pending_approval r = Some q \<and>
        ad_request (arc_decision cl) = q \<and> k = claim_grant_consumption cl) \<and>
     r' = bare r Running \<and> run_inv r'"
  by (auto simp: resume_with_pending_approval_def with_parts_ok bare_def)

lemma same_run_simps [simp]:
  "same_run r r" "same_run r (bare r st)"
  "same_run r ((bare r st)\<lparr>run_pause_reason := p\<rparr>)"
  "same_run r ((bare r st)\<lparr>run_pending_approval := q\<rparr>)"
  "same_run r ((bare r st)\<lparr>run_recovery_pause := rp\<rparr>)"
  "same_run r ((bare r st)\<lparr>run_recovery_pause := rp, run_recovery_binding := b\<rparr>)"
  by (simp_all add: same_run_def bare_def)

lemma run_step_keeps:
  assumes "run_step L r r'" and "run_inv r"
  shows "run_inv r' \<and> same_run r r'"
  using assms
  by (cases rule: run_step.cases)
    (auto simp: run_ops split: if_splits RecoveryTerminalResolution.splits)

lemma run_steps_keep:
  assumes "(run_step L)\<^sup>*\<^sup>* r r'" and "run_inv r"
  shows "run_inv r' \<and> same_run r r'"
  using assms
proof (induction rule: rtranclp_induct)
  case (step y z)
  then show ?case using run_step_keeps [of L y z] by (simp add: same_run_def)
qed simp

text \<open>Whatever operations a host applies to a queued run, in whatever order, the run stays
  well formed (a pause reason exactly while paused, a pending approval exactly while waiting, a
  recovery pause exactly while recovery is required, each naming this run, and a resume binding only
  beside a pause it matches) and keeps its identity, session and definition; so it can always be
  stored and read back unchanged.\<close>

theorem run_reachable_wf:
  assumes "run_queued i s d v = Ok r" and "(run_step L)\<^sup>*\<^sup>* r r'"
  shows "run_inv r' \<and> Run_load r' = Ok r' \<and> run_id r' = i \<and> run_session_id r' = s \<and>
    run_definition_id r' = d \<and> run_definition_version r' = v"
proof -
  have "run_inv r" "run_id r = i" "run_session_id r = s" "run_definition_id r = d"
    "run_definition_version r = v"
    using assms(1) by (auto simp: run_queued_def from_parts_ok)
  then show ?thesis
    using run_steps_keep [OF assms(2)] run_format.load_wire by (auto simp: same_run_def)
qed

lemma terminal_parts:
  assumes "is_terminal (run_state r)" and "run_inv r"
  shows "run_pending_approval r = None" "run_recovery_pause r = None" "\<not> legal_transition (run_state r) t"
    "run_state r \<notin> {Queued, Running, WaitingForApproval, Paused, RecoveryRequired}"
  using assms by (auto simp: is_terminal_def run_inv_def)

lemma terminal_step:
  assumes "is_terminal (run_state r)" and "run_step L r r'" and "run_inv r"
  shows "r' = r"
  using assms(2) terminal_parts [OF assms(1,3)]
  by (cases rule: run_step.cases) (simp_all add: run_ops split: if_splits)

text \<open>A completed, failed or cancelled run never changes again.\<close>

theorem terminal_runs_final:
  assumes "is_terminal (run_state r)" and "run_inv r" and "(run_step L)\<^sup>*\<^sup>* r r'"
  shows "r' = r"
  using assms(3)
proof (induction rule: rtranclp_induct)
  case (step y z)
  then show ?case using terminal_step assms(1,2) by blast
qed simp

lemma ApprovalResumeClaim_okD:
  assumes "ApprovalResumeClaim_new L q d c gs = Ok cl"
  shows "arc_decision cl = d" and "ad_request d = q" and "ad_kind d = ApproveDecision"
    and "validate_approval_with_grants d c gs = Valid"
    and "\<exists>ev. evaluate_with_approval c gs (Some d) = Ok ev \<and>
      decision_kind (ev_decision ev) = AllowedByApproval"
  using assms by (auto simp: ApprovalResumeClaim_new_def split: if_splits)

text \<open>\<^bold>\<open>C7.\<close> A run waiting for approval starts running again only by a decision that approves exactly
  the pending request and that the policy engine accepts, against some current context and grants,
  as a valid approval under which evaluation allows the action.\<close>

theorem approval_gate:
  assumes "run_step L r r'" and "run_inv r" and "run_state r = WaitingForApproval"
    and "run_state r' = Running"
  shows "\<exists>d c gs ev. run_pending_approval r = Some (ad_request d) \<and> ad_kind d = ApproveDecision \<and>
    validate_approval_with_grants d c gs = Valid \<and>
    evaluate_with_approval c gs (Some d) = Ok ev \<and>
    decision_kind (ev_decision ev) = AllowedByApproval"
proof -
  obtain q d c gs cl where "ApprovalResumeClaim_new L q d c gs = Ok cl"
    and "run_pending_approval r = Some (ad_request (arc_decision cl))"
    using assms(1)
  proof (cases rule: run_step.cases)
    case (command cmd cl b k)
    then show ?thesis using assms(3) that by (auto simp: run_ops)
  qed (use assms(3,4) that in \<open>auto simp: run_ops bare_def split: if_splits\<close>)
  then show ?thesis using ApprovalResumeClaim_okD by metis
qed

lemma recovery_without_binding:
  assumes "run_state r = RecoveryRequired" and "run_inv r" and "run_recovery_binding r = None"
    and "(run_step L)\<^sup>*\<^sup>* r r'"
  shows "r' = r \<or> is_terminal (run_state r')"
  using assms(4)
proof (induction rule: rtranclp_induct)
  case (step y z)
  have inv: "run_inv y" using run_steps_keep step.hyps(1) assms(2) by blast
  show ?case
  proof (cases "is_terminal (run_state y)")
    case True
    then show ?thesis using terminal_step [OF True step.hyps(2) inv] by simp
  next
    case False
    with step.IH have "y = r" by simp
    with step.hyps(2) assms(1-3) show ?thesis
      by (cases rule: run_step.cases)
        (auto simp: run_ops run_inv_def is_terminal_def bare_def matches_resume_binding_def
          split: if_splits RecoveryTerminalResolution.splits)
  qed
qed simp

text \<open>\<^bold>\<open>C16.\<close> A run paused for recovery goes on only by a resume command that carries the resume binding the
  run recorded: the command is for this run and its session, it and the claim hold that binding and no
  approval, and the binding matches the paused attempt field by field, which also requires a pause that
  allows automatic resumption. Every other operation leaves the run as it is or ends it, so a run that
  recorded no binding never runs again.\<close>

theorem recovery_gate:
  assumes "run_state r = RecoveryRequired" and "run_inv r"
  shows "(\<forall>command claim binding r' k. apply_resume_command r command claim binding = Ok (r', k) \<longrightarrow>
      cmd_session_id command = run_session_id r \<and> target_run_id command = run_id r \<and>
      command_kind command = CmdResumeRecovery \<and> claim = None \<and> r' = bare r Running \<and>
      (\<exists>p b. run_recovery_pause r = Some p \<and> run_recovery_binding r = Some b \<and>
        command_recovery_binding command = Some b \<and> binding = Some b \<and>
        allows_automatic_resume p \<and> matches_resume_binding p b)) \<and>
    (\<forall>r'. run_step L r r' \<longrightarrow> r' = r \<or> is_terminal (run_state r') \<or>
      (\<exists>command claim binding k. apply_resume_command r command claim binding = Ok (r', k))) \<and>
    (run_recovery_binding r = None \<longrightarrow>
      (\<forall>r'. (run_step L)\<^sup>*\<^sup>* r r' \<longrightarrow> r' = r \<or> is_terminal (run_state r')))"
proof (intro conjI allI impI)
  fix command claim binding r' k assume c: "apply_resume_command r command claim binding = Ok (r', k)"
  show "cmd_session_id command = run_session_id r" "target_run_id command = run_id r"
    "command_kind command = CmdResumeRecovery" "claim = None" "r' = bare r Running"
    "\<exists>p b. run_recovery_pause r = Some p \<and> run_recovery_binding r = Some b \<and>
      command_recovery_binding command = Some b \<and> binding = Some b \<and>
      allows_automatic_resume p \<and> matches_resume_binding p b"
    using c assms by (auto simp: apply_resume_command_def with_parts_ok bare_def matches_resume_binding_def
        split: option.splits if_splits)
next
  fix r' assume "run_step L r r'"
  then show "r' = r \<or> is_terminal (run_state r') \<or>
      (\<exists>command claim binding k. apply_resume_command r command claim binding = Ok (r', k))"
  proof (cases rule: run_step.cases)
    case (command cmd claim b k)
    then show ?thesis by blast
  qed (use assms in \<open>auto simp: run_ops run_inv_def is_terminal_def bare_def
      split: if_splits RecoveryTerminalResolution.splits\<close>)
next
  fix r' assume "run_recovery_binding r = None" and "(run_step L)\<^sup>*\<^sup>* r r'"
  then show "r' = r \<or> is_terminal (run_state r')" by (rule recovery_without_binding [OF assms])
qed


section \<open>Examples\<close>

definition example_exec_lib :: execution_lib where
  "example_exec_lib = capability_lib.extend example_lib
     \<lparr>jcs_command = (\<lambda>s p. Some (show_nat (unat s) @ show_nat (unat (payload_run_id p)))),
      jcs_grant = (\<lambda>g. Some (ag_id g)), parse_grant = (\<lambda>_. None),
      jcs_authority = (\<lambda>g. Some (ag_id g)), jcs_scope = (\<lambda>s. Some (gs_owner_id s))\<rparr>"

definition example_run :: "RunState \<Rightarrow> Run" where
  "example_run st = \<lparr>run_id = 11, run_session_id = 2, run_definition_id = ''d'',
     run_definition_version = 1, run_state = st, run_pause_reason = None,
     run_pending_approval = None, run_recovery_pause = None, run_recovery_binding = None\<rparr>"

lemma example_run_sel [simp]:
  "run_state (example_run st) = st" "run_id (example_run st) = 11"
  "bare (example_run st) st' = example_run st'"
  by (simp_all add: example_run_def bare_def)

lemma example_run_inv:
  "st \<notin> {Paused, WaitingForApproval, RecoveryRequired} \<Longrightarrow> run_inv (example_run st)"
  by (simp add: run_inv_def example_run_def MAX_ID_BYTES_def not_blank_graph code_def)

lemma example_started: "(run_step example_exec_lib)\<^sup>*\<^sup>* (example_run Queued) (example_run Running)"
  by (intro r_into_rtranclp run_step.transition [where target = Running and p = None])
    (simp add: transition_ok is_terminal_def example_run_inv, simp add: example_run_def)

theorem run_reachable_wf_witness:
  "run_inv (example_run Running) \<and> Run_load (example_run Running) = Ok (example_run Running)"
proof -
  have "run_queued 11 2 ''d'' 1 = Ok (example_run Queued)"
    using example_run_inv [of Queued] by (simp add: run_queued_def from_parts_ok example_run_def)
  from run_reachable_wf [OF this example_started] show ?thesis by simp
qed

theorem terminal_runs_final_witness:
  "{r. (run_step example_exec_lib)\<^sup>*\<^sup>* (example_run RunFailed) r} = {example_run RunFailed}"
proof -
  have "is_terminal (run_state (example_run RunFailed))" by (simp add: is_terminal_def)
  with terminal_runs_final [OF this example_run_inv] show ?thesis by auto
qed

lemma approval_pending_run:
  assumes "run_inv (example_run Running)" and "ar_run_id q = 11"
  shows "run_inv ((example_run WaitingForApproval)\<lparr>run_pending_approval := Some q\<rparr>)"
  using assms by (simp add: run_inv_def example_run_def)

lemma example_claim:
  "\<exists>q d. ar_run_id q = 11 \<and> ad_request d = q \<and>
     ApprovalResumeClaim_new example_exec_lib q d (example_context None False 9) [] =
       Ok \<lparr>arc_decision = d, arc_grant_consumption_snapshot = None,
           arc_grant_authority_binding = None\<rparr>"
proof -
  let ?c = "example_context None False 9"
  obtain q d where qd: "approval_request (example_context None False 5) None = Ok q"
    "ApprovalDecision_new q ApproveDecision 7 = Ok d"
    using example_decision_made by blast
  have q: "ar_run_id q = 11" "ar_grant_id q = None" "ar_grant_revision q = None"
    using approval_request_ok [OF qd(1)] by (auto simp: binds_action_def example_context_def)
  have d: "ad_request d = q" "ad_kind d = ApproveDecision"
    using qd(2) by (auto simp: ApprovalDecision_new_def)
  have ev: "evaluate_with_approval ?c [] (Some d) = Ok (approved_verdict ?c None)"
    using approved_flow [OF qd, of 9] by simp
  have v: "validate_approval_with_grants d ?c [] = Valid"
    using qd approval_request_ok [OF qd(1)]
      context_at_later_time(4) [where c = "example_context None False 5" and t = 9 and q = q]
    by (auto simp: validate_approval_valid_iff ApprovalDecision_new_def example_context_valid
        validate_grant_set_ok binds_grant_def)
  have "ApprovalResumeClaim_new example_exec_lib q d ?c [] = Ok \<lparr>arc_decision = d,
      arc_grant_consumption_snapshot = None, arc_grant_authority_binding = None\<rparr>"
    using ev v d q
    by (simp add: ApprovalResumeClaim_new_def approved_verdict_def decision_kind_def)
  then show ?thesis using q d by blast
qed

theorem approval_gate_witness:
  "\<exists>d c gs ev. ad_kind d = ApproveDecision \<and> validate_approval_with_grants d c gs = Valid \<and>
     evaluate_with_approval c gs (Some d) = Ok ev"
proof -
  let ?c = "example_context None False 9"
  obtain q d where q: "ar_run_id q = 11" and d: "ad_request d = q"
    and claim: "ApprovalResumeClaim_new example_exec_lib q d ?c [] = Ok \<lparr>arc_decision = d,
      arc_grant_consumption_snapshot = None, arc_grant_authority_binding = None\<rparr>"
    using example_claim by blast
  let ?r = "(example_run WaitingForApproval)\<lparr>run_pending_approval := Some q\<rparr>"
  have "resume_with_pending_approval example_exec_lib ?r q d ?c [] =
      Ok (example_run Running, None)"
    using claim d by (simp add: resume_pending_ok claim_grant_consumption_def example_run_inv)
      (simp add: example_run_def bare_def)
  then have "run_step example_exec_lib ?r (example_run Running)" by (rule run_step.approve)
  from approval_gate [OF this approval_pending_run] show ?thesis
    using q example_run_inv [of Running] by auto
qed

definition example_pause :: "RecoveryPauseReason \<Rightarrow> RecoveryPauseRecord" where
  "example_pause why = \<lparr>rpr_invocation = \<lparr>lib_id = 21, lib_run_id = 11, lib_logical_step_id = ''s1'',
       lib_capability_id = ''fs.write'', lib_manifest_version = 1, lib_canonical_argument_digest = 22,
       lib_idempotency_key = ''k''\<rparr>,
     rpr_attempt_number = 1,
     rpr_manifest = \<lparr>mp_id = ''fs.write'', mp_version = 1, mp_schema_digest = ''sha256:'',
       mp_recovery_mode = KeyedIdempotent\<rparr>,
     rpr_reason = why\<rparr>"

definition example_binding :: RecoveryResumeBinding where
  "example_binding = \<lparr>rrb_logical_invocation_id = 21, rrb_run_id = 11, rrb_logical_step_id = ''s1'',
     rrb_capability_id = ''fs.write'', rrb_canonical_argument_digest = 22, rrb_completed_attempt_number = 1,
     rrb_retry_attempt_number = 2, rrb_manifest_id = ''fs.write'', rrb_manifest_version = 1,
     rrb_manifest_digest = ''sha256:'', rrb_recovery_mode = KeyedIdempotent, rrb_idempotency_key = ''k'',
     rrb_authorization_identity = 0\<rparr>"

definition example_recovering :: Run where
  "example_recovering = (example_run RecoveryRequired)\<lparr>run_recovery_pause := Some (example_pause Retryable),
     run_recovery_binding := Some example_binding\<rparr>"

text \<open>The recorded binding resumes the run; with another attempt number it does not.\<close>

theorem recovery_gate_witness:
  "apply_resume_command example_recovering \<lparr>cmd_id = 31, cmd_session_id = 2, cmd_payload = ResumeRecovery 11 example_binding\<rparr>
     None (Some example_binding) = Ok (example_run Running, None) \<and>
   apply_resume_command example_recovering \<lparr>cmd_id = 31, cmd_session_id = 2,
       cmd_payload = ResumeRecovery 11 (example_binding\<lparr>rrb_retry_attempt_number := 3\<rparr>)\<rparr>
     None (Some (example_binding\<lparr>rrb_retry_attempt_number := 3\<rparr>)) \<noteq> Ok (example_run Running, None)"
proof -
  have inv: "run_state example_recovering = RecoveryRequired" "run_inv example_recovering"
    using example_run_inv [of Running]
    by (simp_all add: run_inv_def example_recovering_def example_run_def example_pause_def example_binding_def
        matches_resume_binding_def allows_automatic_resume_def)
  have "run_recovery_binding example_recovering = Some example_binding"
    "example_binding \<noteq> example_binding\<lparr>rrb_retry_attempt_number := 3\<rparr>"
    by (simp_all add: example_recovering_def example_binding_def)
  moreover have "apply_resume_command example_recovering
      \<lparr>cmd_id = 31, cmd_session_id = 2, cmd_payload = ResumeRecovery 11 example_binding\<rparr> None (Some example_binding)
      = Ok (example_run Running, None)"
    using inv(2) example_run_inv [of Running]
    by (simp add: apply_resume_command_def example_recovering_def example_run_def example_pause_def example_binding_def
        matches_resume_binding_def allows_automatic_resume_def command_recovery_binding_def with_parts_ok)
  ultimately show ?thesis using recovery_gate [OF inv, of example_exec_lib] by fastforce
qed

section \<open>Attempts of a step\<close>

text \<open>Steps as the code builds them: a new step, extended by attempts made by \<open>Attempt::new\<close>.\<close>

inductive built_step :: "'x capability_lib_scheme \<Rightarrow> Step \<Rightarrow> bool" for L where
  new: "Step_new run step kind = Ok s \<Longrightarrow> built_step L s"
| append: "built_step L s \<Longrightarrow> Attempt_new L i n = Ok a \<Longrightarrow> append_attempt s a = Ok s' \<Longrightarrow> built_step L s'"

definition attempt_ok :: "'x capability_lib_scheme \<Rightarrow> uuid \<Rightarrow> nat \<Rightarrow> Attempt \<Rightarrow> bool" where
  "attempt_ok L v k a \<longleftrightarrow> unat (at_number a) = Suc k \<and> at_logical_invocation_id a = v \<and>
     Attempt_new L v (at_number a) = Ok a"

definition attempts_wf :: "'x capability_lib_scheme \<Rightarrow> Attempt list \<Rightarrow> bool" where
  "attempts_wf L as \<longleftrightarrow> length as < 2 ^ 32 \<and> (\<exists>v. \<forall>k < length as. attempt_ok L v k (as ! k))"

lemma Attempt_new_ok:
  "Attempt_new L i n = Ok a \<longleftrightarrow> i \<noteq> 0 \<and> n \<noteq> 0 \<and>
     a = \<lparr>at_id = attempt_uuid L i n, at_number = n, at_logical_invocation_id = i\<rparr>"
  by (auto simp: Attempt_new_def execution_checks)

lemma Attempt_load_ok:
  "Attempt_load L w = Ok a \<longleftrightarrow> a = w \<and> Attempt_new L (at_logical_invocation_id w) (at_number w) = Ok w"
  by (cases w) (auto simp: Attempt_load_def Attempt_new_ok)

interpretation attempt_format: wire_format "\<lambda>a. a" "Attempt_load L"
  "\<lambda>a. Attempt_new L (at_logical_invocation_id a) (at_number a) = Ok a" for L
  by unfold_locales (auto simp: Attempt_load_ok)

lemma unat_Suc_small: "n < 2 ^ 32 - 1 \<Longrightarrow> unat (of_nat n + 1 :: u32) = Suc n"
  by (simp add: unsigned_of_nat take_bit_nat_eq_self unat_word_ariths)

lemma append_attempt_wf:
  assumes wf: "attempts_wf L (st_attempts s)" and a: "Attempt_new L i n = Ok a"
    and s': "append_attempt s a = Ok s'"
  shows "attempts_wf L (st_attempts s')"
proof -
  let ?as = "st_attempts s"
  from s' have eq: "st_attempts s' = ?as @ [a]" and num: "at_number a = of_nat (length ?as) + 1"
    and inv: "?as \<noteq> [] \<Longrightarrow> at_logical_invocation_id a = at_logical_invocation_id (?as ! 0)"
    by (auto simp: append_attempt_def split: if_splits list.splits)
  have "length ?as \<noteq> 2 ^ 32 - 1"
  proof
    assume "length ?as = 2 ^ 32 - 1"
    then have "at_number a = 0" using num by (simp flip: of_nat_Suc)
    with a show False by (auto simp: Attempt_new_ok)
  qed
  with wf have len: "length ?as < 2 ^ 32 - 1" by (auto simp: attempts_wf_def)
  then have "attempt_ok L (at_logical_invocation_id a) (length ?as) a"
    using num a unat_Suc_small [OF len] by (auto simp: attempt_ok_def Attempt_new_ok)
  moreover have "attempt_ok L (at_logical_invocation_id a) k (?as ! k)" if k: "k < length ?as" for k
  proof -
    obtain v where v: "\<And>k. k < length ?as \<Longrightarrow> attempt_ok L v k (?as ! k)"
      using wf by (auto simp: attempts_wf_def)
    have ne: "0 < length ?as" using k by linarith
    then have "at_logical_invocation_id (?as ! 0) = v" using v [of 0] by (simp add: attempt_ok_def)
    moreover have "?as \<noteq> []" using ne by simp
    ultimately show ?thesis using v [OF k] inv by simp
  qed
  ultimately have "\<forall>k < Suc (length ?as). attempt_ok L (at_logical_invocation_id a) k ((?as @ [a]) ! k)"
    by (auto simp: less_Suc_eq nth_append)
  with len show ?thesis unfolding eq attempts_wf_def by auto
qed

lemma built_step_wf:
  "built_step L s \<Longrightarrow> attempts_wf L (st_attempts s) \<and>
     Step_new (st_run_id s) (st_logical_step_id s) (st_kind s) = Ok (s\<lparr>st_attempts := []\<rparr>)"
proof (induction rule: built_step.induct)
  case (new run step kind s)
  then show ?case by (auto simp: Step_new_def attempts_wf_def)
next
  case (append s i n a s')
  have "s' = s\<lparr>st_attempts := st_attempts s @ [a]\<rparr>"
    using append.hyps(3) by (auto simp: append_attempt_def split: if_splits)
  then show ?case using append.IH append_attempt_wf [OF _ append.hyps(2,3)] by simp
qed

lemma load_attempts_wf:
  "(\<And>a. a \<in> set as \<Longrightarrow> Attempt_load L a = Ok a) \<Longrightarrow> load_attempts L as = Ok as"
  by (induction as) auto

lemma check_attempts_wf:
  "(\<And>k. k < length as \<Longrightarrow> attempt_ok L v (n + k) (as ! k)) \<Longrightarrow> n + length as < 2 ^ 32 \<Longrightarrow>
   check_attempts (Some v) (of_nat n) as = Ok ()"
proof (induction as arbitrary: n)
  case (Cons a as)
  have a: "unat (at_number a) = Suc n" "v = at_logical_invocation_id a"
    using Cons.prems(1) [of 0] by (auto simp: attempt_ok_def)
  have n: "unat (of_nat n + 1 :: u32) = Suc n" using Cons.prems(2) by (intro unat_Suc_small) simp
  then have "at_number a = of_nat n + 1" using a(1) by (simp add: word_unat_eq_iff)
  moreover have "check_attempts (Some v) (of_nat (Suc n)) as = Ok ()"
    using Cons.prems(1) [of "Suc k" for k] Cons.prems(2) by (intro Cons.IH) auto
  ultimately show ?case using a(2) by (simp add: add.commute)
qed simp

text \<open>The attempts of a step are numbered 1, 2, 3 and so on without gap or repetition, all
  belong to one logical invocation, and each has the identity derived from that invocation and its
  number; the step can be written and read back unchanged. In particular the 32-bit counter never
  wraps.\<close>

theorem step_attempts_gapless:
  assumes "built_step L s"
  shows "Step_load L s = Ok s \<and> length (st_attempts s) < 2 ^ 32 \<and>
    (\<forall>k < length (st_attempts s). unat (at_number (st_attempts s ! k)) = Suc k \<and>
       at_logical_invocation_id (st_attempts s ! k) = at_logical_invocation_id (st_attempts s ! 0) \<and>
       at_id (st_attempts s ! k) = attempt_uuid L (at_logical_invocation_id (st_attempts s ! 0))
         (at_number (st_attempts s ! k)))"
proof -
  let ?as = "st_attempts s"
  have wf: "attempts_wf L ?as"
    and s0: "Step_new (st_run_id s) (st_logical_step_id s) (st_kind s) = Ok (s\<lparr>st_attempts := []\<rparr>)"
    using built_step_wf [OF assms] by auto
  from wf obtain v where v: "\<And>k. k < length ?as \<Longrightarrow> attempt_ok L v k (?as ! k)"
    and len: "length ?as < 2 ^ 32"
    by (auto simp: attempts_wf_def)
  have load: "load_attempts L ?as = Ok ?as"
    using v by (intro load_attempts_wf) (auto simp: attempt_ok_def in_set_conv_nth Attempt_load_ok)
  have "check_attempts (case ?as of [] \<Rightarrow> None | a # _ \<Rightarrow> Some (at_logical_invocation_id a)) 0 ?as
      = Ok ()"
  proof (cases ?as)
    case (Cons a as)
    then have "v = at_logical_invocation_id a" using v [of 0] by (simp add: attempt_ok_def)
    with Cons show ?thesis using check_attempts_wf [of ?as L v 0] v len by simp
  qed simp
  then have "Step_load L s = Ok s" using s0 load by (simp add: Step_load_def)
  moreover have "\<forall>k < length ?as. at_logical_invocation_id (?as ! k) = at_logical_invocation_id (?as ! 0)"
    using v unfolding attempt_ok_def by (metis gr_zeroI not_less_zero order.strict_trans)
  moreover have "\<forall>k < length ?as. at_id (?as ! k) =
      attempt_uuid L (at_logical_invocation_id (?as ! k)) (at_number (?as ! k))"
    using v unfolding attempt_ok_def Attempt_new_ok by (metis Attempt.select_convs(1))
  ultimately show ?thesis using v len by (simp add: attempt_ok_def)
qed

definition example_step :: Step where
  "example_step = \<lparr>st_run_id = 11, st_logical_step_id = ''s'', st_kind = CapabilityStep,
     st_attempts = [\<lparr>at_id = attempt_uuid example_lib 12 1, at_number = 1,
       at_logical_invocation_id = 12\<rparr>]\<rparr>"

lemma example_step_built: "built_step example_lib example_step"
proof (rule built_step.append)
  let ?s = "example_step\<lparr>st_attempts := []\<rparr>"
  have "Step_new 11 ''s'' CapabilityStep = Ok ?s"
    by (simp add: Step_new_def example_step_def execution_checks MAX_ID_BYTES_def not_blank_graph code_def)
  then show "built_step example_lib ?s" by (rule built_step.new)
  show "Attempt_new example_lib 12 1 = Ok \<lparr>at_id = attempt_uuid example_lib 12 1, at_number = 1,
      at_logical_invocation_id = 12\<rparr>"
    by (simp add: Attempt_new_ok)
  show "append_attempt ?s \<lparr>at_id = attempt_uuid example_lib 12 1, at_number = 1,
      at_logical_invocation_id = 12\<rparr> = Ok example_step"
    by (simp add: append_attempt_def example_step_def)
qed

theorem step_attempts_gapless_witness:
  "Step_load example_lib example_step = Ok example_step \<and>
   unat (at_number (st_attempts example_step ! 0)) = 1"
  using step_attempts_gapless [OF example_step_built] by (simp add: example_step_def)

section \<open>Receipts\<close>

text \<open>A receipt answers exactly the command it was made for: if the digest tells the two
  commands apart whenever their session or payload differ, and both can be encoded, replaying the
  receipt returns its outcome for the same command and a conflict for the other, even one that
  reuses the command identifier.\<close>

theorem receipt_replay_exact:
  assumes separates: "command_digest L c = command_digest L c' \<Longrightarrow>
      cmd_session_id c = cmd_session_id c' \<and> cmd_payload c = cmd_payload c'"
    and encodes: "command_digest L c' \<noteq> Err Panicked"
    and "CommandReceipt_new L c o1 = Ok rc"
  shows "receipt_replay L rc c' = (if c' = c then Ok o1 else Err (Raised ExCommandConflict))"
proof -
  obtain g where g: "command_digest L c = Ok g" "rc = \<lparr>cr_command_id = cmd_id c, cr_payload_digest = g,
      cr_outcome = o1\<rparr>"
    using assms(3) by (auto simp: CommandReceipt_new_def)
  obtain g' where g': "command_digest L c' = Ok g'"
    using encodes
    by (cases "jcs_command L (cmd_session_id c') (cmd_payload c')") (auto simp: command_digest_def)
  have "c' = c \<longleftrightarrow> cmd_id c' = cmd_id c \<and> g' = g"
    using separates g g' by (cases c; cases c') auto
  then show ?thesis using g g' by (auto simp: receipt_replay_def)
qed

theorem receipt_replay_exact_witness:
  "receipt_replay example_exec_lib
     \<lparr>cr_command_id = 5, cr_payload_digest = COMMAND_NAMESPACE + 3, cr_outcome = Accepted\<rparr>
     \<lparr>cmd_id = 5, cmd_session_id = 2, cmd_payload = Start 3\<rparr> = Err (Raised ExCommandConflict)"
proof -
  let ?c = "\<lparr>cmd_id = 5, cmd_session_id = 2, cmd_payload = Start 11\<rparr>"
  let ?c' = "\<lparr>cmd_id = 5, cmd_session_id = 2, cmd_payload = Start 3\<rparr>"
  have d: "command_digest example_exec_lib ?c = Ok (COMMAND_NAMESPACE + 3)"
    "command_digest example_exec_lib ?c' = Ok (COMMAND_NAMESPACE + 2)"
    by (simp_all add: command_digest_def example_exec_lib_def capability_lib.defs execution_lib.defs
        example_lib_def show_nat.simps)
  have "CommandReceipt_new example_exec_lib ?c Accepted =
      Ok \<lparr>cr_command_id = 5, cr_payload_digest = COMMAND_NAMESPACE + 3, cr_outcome = Accepted\<rparr>"
    by (simp add: CommandReceipt_new_def d)
  from receipt_replay_exact [OF _ _ this, of ?c'] d show ?thesis
    by simp
qed

section \<open>Sessions\<close>

lemma Session_new_inner_ok:
  "Session_new_inner i pin con al ver = Ok s \<longleftrightarrow> i \<noteq> 0 \<and> (con = Concurrent \<longrightarrow> al) \<and>
     s = \<lparr>se_id = i, se_definition = pin, se_concurrency = con, se_allows_concurrent_sessions = al,
       se_verified = ver\<rparr>"
  by (auto simp: Session_new_inner_def execution_checks)

text \<open>A stored session keeps its concurrency policy but not the right to use it: a session that
  was valid when written is read back with the same fields, its policy can be used at once only when
  it is serial, and a concurrent session becomes usable again exactly by checking it against a live
  definition that still allows concurrent sessions.\<close>

theorem session_reload_reverifies:
  assumes "Session_new_for_definition i d con = Ok s"
  shows "\<exists>s'. Session_load (Session_wire s) = Ok s' \<and> s'\<lparr>se_verified := True\<rparr> = s \<and>
    Session_concurrency s' = (if con = Serial then Ok Serial else Err ExMissingPrerequisite) \<and>
    (\<forall>d'. Session_assert_compatible s' d' = Ok s \<longleftrightarrow>
      DefinitionPin_from_definition d' = Ok (se_definition s) \<and>
      def_allows_concurrent_sessions d' = se_allows_concurrent_sessions s)"
proof -
  obtain pin where pin: "DefinitionPin_from_definition d = Ok pin"
    and s: "s = \<lparr>se_id = i, se_definition = pin, se_concurrency = con,
      se_allows_concurrent_sessions = def_allows_concurrent_sessions d, se_verified = True\<rparr>"
    and i: "i \<noteq> 0" and con: "con = Concurrent \<longrightarrow> def_allows_concurrent_sessions d"
    using assms by (auto simp: Session_new_for_definition_def Session_new_inner_ok)
  have "DefinitionPin_validate pin = Ok ()"
    using pin by (auto simp: DefinitionPin_from_definition_def DefinitionPin_new_def)
  then have "Session_load (Session_wire s) = Ok (s\<lparr>se_verified := (con = Serial)\<rparr>)"
    using i con by (simp add: s Session_wire_def Session_new_inner_ok)
  then show ?thesis
    using con by (cases con) (auto simp: s Session_concurrency_def Session_assert_compatible_def)
qed

definition example_definition :: AgentDefinition where
  "example_definition = \<lparr>def_schema_version = 1, def_id = ''d'', def_version = 1,
     def_resolved_capabilities = [], def_approval_policy_revision = 1,
     def_allows_concurrent_sessions = True\<rparr>"

lemma example_session:
  "Session_new_for_definition 2 example_definition Concurrent =
     Ok \<lparr>se_id = 2, se_definition = \<lparr>dp_schema_version = 1, dp_id = ''d'', dp_version = 1\<rparr>,
       se_concurrency = Concurrent, se_allows_concurrent_sessions = True, se_verified = True\<rparr>"
  by (simp add: Session_new_for_definition_def DefinitionPin_from_definition_def DefinitionPin_new_def
      DefinitionPin_validate_def example_definition_def SUPPORTED_DEFINITION_SCHEMA_VERSION_def
      Session_new_inner_ok execution_checks MAX_ID_BYTES_def not_blank_graph code_def)

theorem session_reload_reverifies_witness:
  "\<exists>s'. Session_load (CurrentSessionWire 2 \<lparr>dp_schema_version = 1, dp_id = ''d'', dp_version = 1\<rparr>
       Concurrent True) = Ok s' \<and> Session_concurrency s' = Err ExMissingPrerequisite"
  using session_reload_reverifies [OF example_session] by (auto simp: Session_wire_def)

section \<open>Cancellation\<close>

text \<open>At a boundary a well-formed run can be cancelled exactly when it is running, waiting for
  approval, in recovery, or paused because policy denied it; the cancelled run carries no approval,
  pause or binding. A queued run, and a run paused for any other reason, cannot.\<close>

theorem cancel_exactly_when:
  assumes "run_inv r"
  shows "cancel_at_boundary r =
    (if run_state r \<in> {Running, WaitingForApproval, RecoveryRequired} \<or>
        run_state r = Paused \<and> run_pause_reason r = Some PausePolicyDenied
     then Ok (bare r RunCancelled) else Err ExIllegalTransition)"
proof -
  have ok: "with_parts r RunCancelled None None None None = Ok (bare r RunCancelled)"
    using assms by (intro bare_ok) simp_all
  have inv: "run_inv (bare r RunCancelled)" using ok unfolding with_parts_ok by blast
  have "cancel_at_boundary r = Ok (bare r RunCancelled)"
    if "run_state r \<in> {Running, WaitingForApproval, RecoveryRequired} \<or>
        run_state r = Paused \<and> run_pause_reason r = Some PausePolicyDenied"
    using that assms inv unfolding cancel_ok by (auto simp: run_inv_def)
  moreover have "cancel_at_boundary r = Err ExIllegalTransition"
    if "\<not> (run_state r \<in> {Running, WaitingForApproval, RecoveryRequired} \<or>
        run_state r = Paused \<and> run_pause_reason r = Some PausePolicyDenied)"
    using that by (cases "run_state r") (simp_all add: cancel_at_boundary_def)
  ultimately show ?thesis by simp
qed

theorem cancel_exactly_when_witness:
  "cancel_at_boundary (example_run Running) = Ok (example_run RunCancelled)"
  using cancel_exactly_when [OF example_run_inv, of Running] by simp

section \<open>Approval claims\<close>

lemma claim_not_panicked: "ApprovalResumeClaim_new L q d c gs \<noteq> Err Panicked"
  by (auto simp: ApprovalResumeClaim_new_def try_then_eq_Inl map_raised_panicked
      evaluate_with_approval_not_panicked split: option.splits if_splits)

lemma consumption_of_Some:
  "consumption_of g c = Some k \<longleftrightarrow> ag_remaining_uses g \<noteq> None \<and>
     k = \<lparr>gc_grant_id = ag_id g, gc_grant_revision = ag_revision g,
          gc_logical_invocation_id = pc_logical_invocation_id c\<rparr>"
  by (auto simp: consumption_of_def)

lemma approved_claim:
  assumes "ApprovalResumeClaim_new L q d c gs = Ok cl"
  shows "evaluate_with_approval c gs (Some d) = Ok (approved_verdict c (bound_grant q gs))"
proof -
  note cl = ApprovalResumeClaim_okD [OF assms]
  obtain ev where ev: "evaluate_with_approval c gs (Some d) = Ok ev"
    "decision_kind (ev_decision ev) = AllowedByApproval"
    using cl(5) by blast
  have "evaluate c gs \<noteq> Ok ev"
  proof
    assume "evaluate c gs = Ok ev"
    then have "ev = verdict c (select_grant c gs)" by (simp add: evaluate_ok_iff)
    with ev(2) show False
      by (cases "select_grant c gs")
        (auto simp: verdict_def grant_verdict_def default_verdict_def decision_kind_def split: if_splits)
  qed
  then show ?thesis using evaluate_with_approval_cases [OF ev(1)] ev(1) cl(2) by auto
qed

text \<open>A claim to resume an approved run binds the use of its grant: it carries a consumption
  exactly when the grant the request was bound to has counted uses, and then that grant is in the
  list, still matches the context and is of the approval-first kind, the claim records its positive
  number of remaining uses, and its authority digest is the one of that grant and fits the
  consumption, which names the invocation about to run. Making a claim never panics.\<close>

theorem claim_binds_grant_use:
  "ApprovalResumeClaim_new L q d c gs \<noteq> Err Panicked \<and>
   (\<forall>cl. ApprovalResumeClaim_new L q d c gs = Ok cl \<longrightarrow>
     (case arc_grant_consumption_snapshot cl of
        None \<Rightarrow> Option.bind (bound_grant q gs) ag_remaining_uses = None
      | Some s \<Rightarrow> \<exists>g A. bound_grant q gs = Some g \<and> grant_matches g c \<and> ag_effect g = ApprovalFirst \<and>
          ag_remaining_uses g = Some (gcs_remaining_uses s) \<and> gcs_remaining_uses s \<noteq> 0 \<and>
          arc_grant_authority_binding cl = Some A \<and> GrantAuthorityBinding_from_grant L g = Ok A \<and>
          matches_consumption L A (gcs_consumption s) \<and>
          gc_logical_invocation_id (gcs_consumption s) = pc_logical_invocation_id c))"
proof (intro conjI allI impI)
  show "ApprovalResumeClaim_new L q d c gs \<noteq> Err Panicked" by (rule claim_not_panicked)
next
  fix cl assume cl: "ApprovalResumeClaim_new L q d c gs = Ok cl"
  note v = approval_binding_shape [OF ApprovalResumeClaim_okD(4) [OF cl]]
  have q: "ad_request d = q" by (rule ApprovalResumeClaim_okD(2) [OF cl])
  from v show "case arc_grant_consumption_snapshot cl of
        None \<Rightarrow> Option.bind (bound_grant q gs) ag_remaining_uses = None
      | Some s \<Rightarrow> \<exists>g A. bound_grant q gs = Some g \<and> grant_matches g c \<and> ag_effect g = ApprovalFirst \<and>
          ag_remaining_uses g = Some (gcs_remaining_uses s) \<and> gcs_remaining_uses s \<noteq> 0 \<and>
          arc_grant_authority_binding cl = Some A \<and> GrantAuthorityBinding_from_grant L g = Ok A \<and>
          matches_consumption L A (gcs_consumption s) \<and>
          gc_logical_invocation_id (gcs_consumption s) = pc_logical_invocation_id c"
  proof
    assume "(ar_grant_id (ad_request d), ar_grant_revision (ad_request d)) = (None, None) \<and>
      bound_grant (ad_request d) gs = None"
    then show ?thesis
      using cl approved_claim [OF cl] q
      by (auto simp: ApprovalResumeClaim_new_def approved_verdict_def split: if_splits)
  next
    assume "\<exists>i v g. (ar_grant_id (ad_request d), ar_grant_revision (ad_request d)) = (Some i, Some v) \<and>
      bound_grant (ad_request d) gs = Some g \<and> grant_matches g c \<and> ag_effect g = ApprovalFirst \<and>
      find (\<lambda>g. ag_id g = i \<and> ag_revision g = v) gs = Some g"
    then obtain i v g where g: "ar_grant_id q = Some i" "ar_grant_revision q = Some v"
      "bound_grant q gs = Some g" "grant_matches g c" "ag_effect g = ApprovalFirst"
      "find (\<lambda>g. ag_id g = i \<and> ag_revision g = v) gs = Some g"
      using q by auto
    have iv: "ag_id g = i" "ag_revision g = v" using find_Some_iff' [OF g(6)] by auto
    have auth: "matches_consumption L A k"
      if "GrantAuthorityBinding_from_grant L g = Ok A" "consumption_of g c = Some k" for A k
      using that
      by (auto simp: GrantAuthorityBinding_from_grant_def matches_consumption_def consumption_of_Some
          split: if_splits)
    show ?thesis
    proof (cases "ag_remaining_uses g")
      case None
      then show ?thesis
        using cl approved_claim [OF cl] g q
        by (auto simp: ApprovalResumeClaim_new_def approved_verdict_def consumption_of_def
            split: if_splits)
    next
      case (Some uses)
      then show ?thesis
        using cl approved_claim [OF cl] g q iv auth
        by (auto simp: ApprovalResumeClaim_new_def approved_verdict_def consumption_of_def
            GrantConsumptionSnapshot_new_def split: if_splits)
    qed
  qed
qed

theorem claim_binds_grant_use_witness:
  "\<exists>q d cl. ApprovalResumeClaim_new example_exec_lib q d (example_context None False 9) [] = Ok cl \<and>
     Option.bind (bound_grant q []) ag_remaining_uses = None"
proof -
  obtain q d where claim: "ApprovalResumeClaim_new example_exec_lib q d (example_context None False 9) [] =
      Ok \<lparr>arc_decision = d, arc_grant_consumption_snapshot = None, arc_grant_authority_binding = None\<rparr>"
    using example_claim by blast
  then show ?thesis
    using claim_binds_grant_use [of example_exec_lib q d "example_context None False 9" "[]"] by auto
qed

end
