(* ===== verification/Checkpoint.thy ===== *)
theory Checkpoint
  imports Primitives Run_State
begin

text \<open>
  Checkpoints, \<open>anima-core/src/execution/checkpoint.rs\<close>: the provider transcript, history
  fingerprints, \<open>CheckpointV1\<close> with its builder, its validation and the check against a live
  definition and catalog.
\<close>

section \<open>Orders\<close>

text \<open>\<open>RecoveryMode\<close> derives \<open>Ord\<close>: variants compare in the order of their declaration.\<close>

fun recovery_rank :: "RecoveryMode \<Rightarrow> nat" where
  "recovery_rank InherentlyIdempotent = 0"
| "recovery_rank KeyedIdempotent = 1"
| "recovery_rank Reconcilable = 2"
| "recovery_rank NonRetryable = 3"
| "recovery_rank NoRecovery = 4"
| "recovery_rank Retry = 5"
| "recovery_rank Compensate = 6"
| "recovery_rank Manual = 7"

lemma recovery_rank_inj: "recovery_rank a = recovery_rank b \<longleftrightarrow> a = b"
  by (cases a; cases b) simp_all

instantiation RecoveryMode :: linorder
begin

definition less_eq_RecoveryMode :: "RecoveryMode \<Rightarrow> RecoveryMode \<Rightarrow> bool" where
  "less_eq_RecoveryMode a b \<longleftrightarrow> recovery_rank a \<le> recovery_rank b"

definition less_RecoveryMode :: "RecoveryMode \<Rightarrow> RecoveryMode \<Rightarrow> bool" where
  "less_RecoveryMode a b \<longleftrightarrow> recovery_rank a < recovery_rank b"

instance
  by standard (auto simp: less_eq_RecoveryMode_def less_RecoveryMode_def recovery_rank_inj
      dest: antisym)

end

text \<open>The derived order of \<open>ManifestPin\<close> compares its fields in turn.\<close>

definition pin_order :: "ManifestPin \<Rightarrow> string \<times> u32 \<times> string \<times> RecoveryMode" where
  "pin_order p = (mp_id p, mp_version p, mp_schema_digest p, mp_recovery_mode p)"

text \<open>\<open>items.windows(2).any(p)\<close>.\<close>

fun adjacent_any :: "('a \<Rightarrow> 'a \<Rightarrow> bool) \<Rightarrow> 'a list \<Rightarrow> bool" where
  "adjacent_any p (x # y # zs) = (p x y \<or> adjacent_any p (y # zs))"
| "adjacent_any p _ = False"

definition canonical :: "'k::linorder list \<Rightarrow> (ExecutionErrorCode, unit) result" where
  "canonical items = (if adjacent_any (\<lambda>x y. x \<ge> y) items then Err ExInvalidCheckpoint else Ok ())"

definition canonical_by_pair ::
  "('a \<Rightarrow> uuid \<times> u32) \<Rightarrow> 'a list \<Rightarrow> (ExecutionErrorCode, unit) result" where
  "canonical_by_pair key items =
     (if adjacent_any (\<lambda>x y. key x \<ge> key y) items then Err ExInvalidCheckpoint else Ok ())"

section \<open>The provider transcript\<close>

datatype ProviderStopReason = StopEnd | StopToolCall | StopMaxTokens

record ProviderContent =
  pct_text :: string
  pct_attachments :: "Attachment list option"
  pct_metadata :: "(string \<times> json) list option"

record ProviderToolCall =
  ptc_id :: string
  ptc_name :: string
  ptc_arguments :: json

datatype ProviderTranscriptEntry =
    ModelResponse ProviderContent "ProviderToolCall list" ProviderStopReason
  | CapabilityResult string ProviderContent

text \<open>
  The encoders and the number reader of other crates: \<open>number_finite\<close> says that
  \<open>serde_json::Number::as_f64\<close> gives a finite number, \<open>jcs_attempt\<close> and \<open>jcs_completed\<close> are the
  canonical encodings of the two record types.
\<close>

record checkpoint_lib = execution_lib +
  number_finite :: "string \<Rightarrow> bool"
  jcs_attempt :: "InvocationAttemptRecord \<Rightarrow> string option"
  jcs_completed :: "CompletedInvocationRecord \<Rightarrow> string option"

text \<open>Whether \<open>provider_data_value\<close> converts a document; the converted value is not kept.\<close>

fun provider_data_value :: "'x checkpoint_lib_scheme \<Rightarrow> json \<Rightarrow> (ExecutionErrorCode, unit) result" where
  "provider_data_value L JNull = Ok ()"
| "provider_data_value L (JBool b) = Ok ()"
| "provider_data_value L (JNumber n) = (if number_finite L n then Ok () else Err ExInvalidCheckpoint)"
| "provider_data_value L (JString s) = Ok ()"
| "provider_data_value L (JArray vs) =
     (if list_all (\<lambda>v. provider_data_value L v = Ok ()) vs then Ok () else Err ExInvalidCheckpoint)"
| "provider_data_value L (JObject kvs) =
     (if list_all (\<lambda>kv. provider_data_value L (snd kv) = Ok ()) kvs then Ok ()
      else Err ExInvalidCheckpoint)"

definition to_content :: "'x checkpoint_lib_scheme \<Rightarrow> ProviderContent \<Rightarrow> (ExecutionErrorCode, unit) result" where
  "to_content L c =
     (case pct_metadata c of
        None \<Rightarrow> Ok ()
      | Some metadata \<Rightarrow> try_all (\<lambda>(k, v). provider_data_value L v) metadata)"

definition is_object :: "json \<Rightarrow> bool" where
  "is_object v \<longleftrightarrow> (case v of JObject _ \<Rightarrow> True | _ \<Rightarrow> False)"

definition ProviderToolCall_validate ::
  "'x checkpoint_lib_scheme \<Rightarrow> ProviderToolCall \<Rightarrow> (ExecutionErrorCode, unit) result" where
  "ProviderToolCall_validate L c =
     try_then (valid_id (ptc_id c)) (\<lambda>_. try_then (valid_id (ptc_name c)) (\<lambda>_.
     if \<not> is_object (ptc_arguments c) \<or> \<not> is_ok (provider_data_value L (ptc_arguments c))
     then Err ExInvalidCheckpoint else Ok ()))"

fun ProviderTranscriptEntry_validate ::
  "'x checkpoint_lib_scheme \<Rightarrow> ProviderTranscriptEntry \<Rightarrow> (ExecutionErrorCode, unit) result" where
  "ProviderTranscriptEntry_validate L (ModelResponse content tool_calls stop_reason) =
     try_then (to_content L content) (\<lambda>_.
     try_then (try_all (ProviderToolCall_validate L) tool_calls) (\<lambda>_.
     if (tool_calls = []) \<noteq> (stop_reason \<noteq> StopToolCall) then Err ExInvalidCheckpoint else Ok ()))"
| "ProviderTranscriptEntry_validate L (CapabilityResult tool_call_id content) =
     try_then (valid_id tool_call_id) (\<lambda>_. to_content L content)"

text \<open>The inner loop that registers the calls of a model response, and the loop over the entries.\<close>

fun add_calls :: "string set \<Rightarrow> string list \<Rightarrow> (ExecutionErrorCode, string set) result" where
  "add_calls pending [] = Ok pending"
| "add_calls pending (i # is) =
     (if i \<in> pending then Err ExInvalidCheckpoint else add_calls (insert i pending) is)"

fun transcript_loop ::
  "'x checkpoint_lib_scheme \<Rightarrow> string set \<Rightarrow> ProviderTranscriptEntry list
     \<Rightarrow> (ExecutionErrorCode, string set) result" where
  "transcript_loop L pending [] = Ok pending"
| "transcript_loop L pending (entry # entries) =
     try_then (ProviderTranscriptEntry_validate L entry) (\<lambda>_.
     try_then (case entry of
         ModelResponse _ tool_calls _ \<Rightarrow>
           if pending \<noteq> {} then Err ExInvalidCheckpoint else add_calls pending (map ptc_id tool_calls)
       | CapabilityResult tool_call_id _ \<Rightarrow>
           if tool_call_id \<in> pending then Ok (pending - {tool_call_id}) else Err ExInvalidCheckpoint)
       (\<lambda>pending. transcript_loop L pending entries))"

section \<open>History fingerprints\<close>

type_synonym HistoryFingerprint = "u8 list"

text \<open>\<open>for (slot, byte) in self.0.iter_mut().zip(digest) { *slot ^= byte }\<close>.\<close>

fun xor_bytes :: "u8 list \<Rightarrow> string \<Rightarrow> u8 list" where
  "xor_bytes (s # ss) (b # bs) = xor s (of_nat (code b)) # xor_bytes ss bs"
| "xor_bytes ss _ = ss"

definition fingerprint_include ::
  "'x capability_lib_scheme \<Rightarrow> ('a \<Rightarrow> string option) \<Rightarrow> HistoryFingerprint \<Rightarrow> 'a
     \<Rightarrow> (ExecutionErrorCode, HistoryFingerprint) result" where
  "fingerprint_include L encode fp value =
     try_then (ok_or (encode value) ExInvalidCheckpoint) (\<lambda>bytes. Ok (xor_bytes fp (sha256 L bytes)))"

fun fingerprint_all ::
  "'x capability_lib_scheme \<Rightarrow> ('a \<Rightarrow> string option) \<Rightarrow> HistoryFingerprint \<Rightarrow> 'a list
     \<Rightarrow> (ExecutionErrorCode, HistoryFingerprint) result" where
  "fingerprint_all L encode fp [] = Ok fp"
| "fingerprint_all L encode fp (v # vs) =
     try_then (fingerprint_include L encode fp v) (\<lambda>fp. fingerprint_all L encode fp vs)"

definition fingerprint_from_values ::
  "'x capability_lib_scheme \<Rightarrow> ('a \<Rightarrow> string option) \<Rightarrow> 'a list
     \<Rightarrow> (ExecutionErrorCode, HistoryFingerprint) result" where
  "fingerprint_from_values L encode values = fingerprint_all L encode (replicate 32 0) values"

section \<open>Checkpoints\<close>

definition CHECKPOINT_SCHEMA_VERSION :: u32 where "CHECKPOINT_SCHEMA_VERSION = 1"
definition RUNTIME_SCHEMA_VERSION :: u32 where "RUNTIME_SCHEMA_VERSION = 1"

record CheckpointWire =
  cw_schema_version :: u32
  cw_runtime_schema_version :: u32
  cw_definition :: DefinitionPin
  cw_manifests :: "ManifestPin list"
  cw_session_id :: uuid
  cw_run_id :: uuid
  cw_last_durable_event_sequence :: u64
  cw_state :: RunState
  cw_pause_reason :: "RunPauseReason option"
  cw_cursor :: "CheckpointCursor option"
  cw_attempts :: "InvocationAttemptRecord list"
  cw_provider_transcript :: "ProviderTranscriptEntry list"
  cw_message_context_refs :: "uuid list"
  cw_model_context_refs :: "uuid list"
  cw_completed_invocations :: "CompletedInvocationRecord list"
  cw_uncertain_invocations :: "UncertainInvocationRecord list"
  cw_pending_approval :: "PendingApprovalRecord option"
  cw_budget :: Budget
  cw_usage :: Usage
  cw_memory_refs :: "uuid list"
  cw_artifact_refs :: "uuid list"

text \<open>A checkpoint has the fields of the wire form and the two fingerprints, which are not written.\<close>

record CheckpointV1 = CheckpointWire +
  cp_attempts_fingerprint :: HistoryFingerprint
  cp_completed_fingerprint :: HistoryFingerprint

definition attempt_record_key :: "InvocationAttemptRecord \<Rightarrow> uuid \<times> u32" where
  "attempt_record_key a = (lib_id (iar_invocation a), iar_attempt_number a)"

definition completed_key :: "CompletedInvocationRecord \<Rightarrow> uuid \<times> u32" where
  "completed_key r = (lib_id (cir_invocation r), cir_attempt_number r)"

definition uncertain_key :: "UncertainInvocationRecord \<Rightarrow> uuid \<times> u32" where
  "uncertain_key r = (lib_id (rpr_invocation (uir_pause r)), rpr_attempt_number (uir_pause r))"

text \<open>\<open>manifest_map\<close>: later pins replace earlier ones with the same key.\<close>

definition manifest_map :: "ManifestPin list \<Rightarrow> (string \<times> u32) \<rightharpoonup> ManifestPin" where
  "manifest_map ms = map_of (rev (map (\<lambda>m. ((mp_id m, mp_version m), m)) ms))"

text \<open>The loop over the attempts with the previous key and the last number of each invocation.\<close>

fun attempts_loop ::
  "'x checkpoint_lib_scheme \<Rightarrow> uuid \<Rightarrow> ((string \<times> u32) \<rightharpoonup> ManifestPin) \<Rightarrow> (uuid \<times> u32) option
     \<Rightarrow> (uuid \<rightharpoonup> u32) \<Rightarrow> InvocationAttemptRecord list \<Rightarrow> (ExecutionErrorCode crash, unit) result" where
  "attempts_loop L run pins previous latest [] = Ok ()"
| "attempts_loop L run pins previous latest (a # as) =
     try_then (InvocationAttemptRecord_validate L a) (\<lambda>_.
     if lib_run_id (iar_invocation a) \<noteq> run
        \<or> pins (mp_id (iar_manifest a), mp_version (iar_manifest a)) \<noteq> Some (iar_manifest a)
     then Err (Raised ExInvalidCheckpoint)
     else if is_some_and previous (\<lambda>p. p \<ge> attempt_record_key a)
        \<or> (case latest (lib_id (iar_invocation a)) of
             None \<Rightarrow> iar_attempt_number a \<noteq> 1
           | Some n \<Rightarrow> checked_add n 1 \<noteq> Some (iar_attempt_number a))
     then Err (Raised ExInvalidCheckpoint)
     else attempts_loop L run pins (Some (attempt_record_key a))
       (latest(lib_id (iar_invocation a) \<mapsto> iar_attempt_number a)) as)"

definition completes :: "InvocationAttemptRecord \<Rightarrow> CompletedInvocationRecord \<Rightarrow> bool" where
  "completes a r \<longleftrightarrow> iar_invocation a = cir_invocation r \<and> iar_attempt_number a = cir_attempt_number r
     \<and> iar_state a = AttemptCompleted \<and> iar_manifest a = cir_manifest r
     \<and> iar_recovery_mode a = cir_recovery_mode r"

definition leaves_uncertain :: "InvocationAttemptRecord \<Rightarrow> UncertainInvocationRecord \<Rightarrow> bool" where
  "leaves_uncertain a r \<longleftrightarrow> iar_invocation a = rpr_invocation (uir_pause r)
     \<and> iar_attempt_number a = rpr_attempt_number (uir_pause r)
     \<and> iar_state a = AttemptUncertain \<and> iar_manifest a = rpr_manifest (uir_pause r)
     \<and> iar_recovery_mode a = mp_recovery_mode (rpr_manifest (uir_pause r))"

definition recorded ::
  "CompletedInvocationRecord list \<Rightarrow> UncertainInvocationRecord list \<Rightarrow> InvocationAttemptRecord \<Rightarrow> bool" where
  "recorded completed uncertain a =
     (case iar_state a of
        AttemptCompleted \<Rightarrow> list_ex (\<lambda>r. cir_invocation r = iar_invocation a
          \<and> cir_attempt_number r = iar_attempt_number a) completed
      | AttemptUncertain \<Rightarrow> list_ex (\<lambda>r. rpr_invocation (uir_pause r) = iar_invocation a
          \<and> rpr_attempt_number (uir_pause r) = iar_attempt_number a) uncertain
      | _ \<Rightarrow> True)"

definition active_attempts :: "InvocationAttemptRecord list \<Rightarrow> InvocationAttemptRecord list" where
  "active_attempts as = filter (\<lambda>a. iar_state a \<in> {AttemptPending, AttemptDispatching}) as"

definition cursor_attempt :: "'w CheckpointWire_scheme \<Rightarrow> InvocationAttemptRecord option" where
  "cursor_attempt c =
     (case cw_cursor c of
        None \<Rightarrow> None
      | Some cursor \<Rightarrow> find (\<lambda>a. lib_id (iar_invocation a) = cc_logical_invocation_id cursor
          \<and> iar_attempt_number a = cc_attempt_number cursor
          \<and> lib_logical_step_id (iar_invocation a) = cc_logical_step_id cursor) (cw_attempts c))"

text \<open>The check that relates the cursor, the active attempt and the state of the run.\<close>

definition cursor_misplaced :: "'w CheckpointWire_scheme \<Rightarrow> bool" where
  "cursor_misplaced c \<longleftrightarrow>
     (let current = cursor_attempt c; active = active_attempts (cw_attempts c) in
      (cw_cursor c \<noteq> None) \<noteq> (current \<noteq> None)
      \<or> is_some_and current (\<lambda>x. list_ex (\<lambda>a. lib_id (iar_invocation a) = lib_id (iar_invocation x)
          \<and> iar_attempt_number a > iar_attempt_number x) (cw_attempts c))
      \<or> (case active of [] \<Rightarrow> False | a # _ \<Rightarrow> current \<noteq> Some a)
      \<or> cw_state c = Queued \<and> (cw_attempts c \<noteq> [] \<or> cw_cursor c \<noteq> None)
      \<or> cw_state c \<in> {RunCompleted, RunFailed, RunCancelled} \<and> cw_cursor c \<noteq> None
      \<or> cw_state c \<in> {Running, WaitingForApproval, Paused, RecoveryRequired}
          \<and> cw_attempts c \<noteq> [] \<and> cw_cursor c = None
      \<or> cw_state c = RecoveryRequired \<and> is_none_or current (\<lambda>a. iar_state a \<noteq> AttemptUncertain)
      \<or> cw_state c = WaitingForApproval \<and> is_some_and current (\<lambda>a. iar_state a \<noteq> AttemptPending)
      \<or> cw_state c = Running \<and> is_some_and current (\<lambda>a.
          iar_state a \<notin> {AttemptPending, AttemptDispatching, AttemptCompleted}))"

definition CheckpointV1_validate ::
  "'x checkpoint_lib_scheme \<Rightarrow> 'w CheckpointWire_scheme \<Rightarrow> (ExecutionErrorCode crash, unit) result" where
  "CheckpointV1_validate L c =
     (if cw_schema_version c \<noteq> CHECKPOINT_SCHEMA_VERSION
         \<or> cw_runtime_schema_version c \<noteq> RUNTIME_SCHEMA_VERSION
      then Err (Raised ExIncompatibleCheckpoint)
      else try_then (raised (DefinitionPin_validate (cw_definition c))) (\<lambda>_.
      try_then (raised (valid_uuid (cw_session_id c))) (\<lambda>_.
      try_then (raised (valid_uuid (cw_run_id c))) (\<lambda>_.
      if cw_last_durable_event_sequence c = 0 then Err (Raised ExInvalidCheckpoint)
      else if (cw_state c = Paused) \<noteq> (cw_pause_reason c \<noteq> None)
         \<or> cw_pause_reason c = Some PauseRecoveryRequired
         \<or> (cw_state c = WaitingForApproval) \<noteq> (cw_pending_approval c \<noteq> None)
      then Err (Raised ExInvalidCheckpoint)
      else try_then (raised (case cw_cursor c of None \<Rightarrow> Ok () | Some k \<Rightarrow> CheckpointCursor_validate k)) (\<lambda>_.
      try_then (raised (canonical (map pin_order (cw_manifests c)))) (\<lambda>_.
      if adjacent_any (\<lambda>x y. mp_id x = mp_id y \<and> mp_version x = mp_version y) (cw_manifests c)
      then Err (Raised ExInvalidCheckpoint)
      else try_then (raised (canonical (cw_message_context_refs c))) (\<lambda>_.
      try_then (raised (canonical (cw_model_context_refs c))) (\<lambda>_.
      try_then (raised (canonical (cw_memory_refs c))) (\<lambda>_.
      try_then (raised (canonical (cw_artifact_refs c))) (\<lambda>_.
      try_then (raised (transcript_loop L {} (cw_provider_transcript c))) (\<lambda>_.
      try_then (attempts_loop L (cw_run_id c) (manifest_map (cw_manifests c)) None Map.empty
        (cw_attempts c)) (\<lambda>_.
      try_then (raised (canonical_by_pair completed_key (cw_completed_invocations c))) (\<lambda>_.
      try_then (raised (canonical_by_pair uncertain_key (cw_uncertain_invocations c))) (\<lambda>_.
      if list_ex (\<lambda>r. uncertain_key r \<in> completed_key ` set (cw_completed_invocations c))
           (cw_uncertain_invocations c)
      then Err (Raised ExInvalidCheckpoint)
      else try_then (try_all (\<lambda>r. try_then (CompletedInvocationRecord_validate L r) (\<lambda>_.
          reject_if (\<not> list_ex (\<lambda>a. completes a r) (cw_attempts c)) (Raised ExInvalidCheckpoint)))
        (cw_completed_invocations c)) (\<lambda>_.
      try_then (try_all (\<lambda>r. try_then (UncertainInvocationRecord_validate L r) (\<lambda>_.
          reject_if (\<not> list_ex (\<lambda>a. leaves_uncertain a r) (cw_attempts c))
            (Raised ExInvalidCheckpoint))) (cw_uncertain_invocations c)) (\<lambda>_.
      if \<not> list_all (recorded (cw_completed_invocations c) (cw_uncertain_invocations c)) (cw_attempts c)
      then Err (Raised ExInvalidCheckpoint)
      else if length (active_attempts (cw_attempts c)) > 1 then Err (Raised ExInvalidCheckpoint)
      else if cw_state c = RecoveryRequired \<and> (cw_uncertain_invocations c = []
         \<or> list_ex (\<lambda>r. recovery_run_id r \<noteq> cw_run_id c) (cw_uncertain_invocations c))
      then Err (Raised ExInvalidCheckpoint)
      else if cw_state c \<noteq> RecoveryRequired
         \<and> list_ex (\<lambda>r. uir_resume_binding r \<noteq> None) (cw_uncertain_invocations c)
      then Err (Raised ExInvalidCheckpoint)
      else if cursor_misplaced c then Err (Raised ExInvalidCheckpoint)
      else try_then (case cw_pending_approval c of
          None \<Rightarrow> Ok ()
        | Some approval \<Rightarrow>
            try_then (raised (ok_or (cursor_attempt c) ExInvalidCheckpoint)) (\<lambda>attempt.
            raised (PendingApprovalRecord_validate_against approval (cw_definition c) attempt))) (\<lambda>_.
      try_then (raised (Budget_validate (cw_budget c))) (\<lambda>_.
      raised (Usage_validate (cw_usage c))))))))))))))))))))"

definition CheckpointV1_from_wire ::
  "'x checkpoint_lib_scheme \<Rightarrow> CheckpointWire \<Rightarrow> (ExecutionErrorCode crash, CheckpointV1) result" where
  "CheckpointV1_from_wire L w =
     try_then (raised (fingerprint_from_values L (jcs_attempt L) (cw_attempts w))) (\<lambda>attempts_fp.
     try_then (raised (fingerprint_from_values L (jcs_completed L) (cw_completed_invocations w))) (\<lambda>completed_fp.
     checked (CheckpointV1_validate L) (CheckpointWire.extend w
       \<lparr>cp_attempts_fingerprint = attempts_fp, cp_completed_fingerprint = completed_fp\<rparr>)))"

text \<open>What serialization writes: everything but the fingerprints.\<close>

definition CheckpointV1_wire :: "CheckpointV1 \<Rightarrow> CheckpointWire" where
  "CheckpointV1_wire c = CheckpointWire.truncate c"

section \<open>The builder\<close>

definition CheckpointV1Builder_new ::
  "uuid \<Rightarrow> uuid \<Rightarrow> DefinitionPin \<Rightarrow> u64 \<Rightarrow> ManifestPin list \<Rightarrow> Budget \<Rightarrow> Usage \<Rightarrow> CheckpointWire" where
  "CheckpointV1Builder_new session run definition_pin sequence manifests budget usage =
     \<lparr>cw_schema_version = CHECKPOINT_SCHEMA_VERSION,
      cw_runtime_schema_version = RUNTIME_SCHEMA_VERSION, cw_definition = definition_pin,
      cw_manifests = sort_key pin_order manifests, cw_session_id = session, cw_run_id = run,
      cw_last_durable_event_sequence = sequence, cw_state = Queued, cw_pause_reason = None,
      cw_cursor = None, cw_attempts = [], cw_provider_transcript = [],
      cw_message_context_refs = [], cw_model_context_refs = [], cw_completed_invocations = [],
      cw_uncertain_invocations = [], cw_pending_approval = None, cw_budget = budget,
      cw_usage = usage, cw_memory_refs = [], cw_artifact_refs = []\<rparr>"

definition builder_attempts :: "InvocationAttemptRecord list \<Rightarrow> CheckpointWire \<Rightarrow> CheckpointWire" where
  "builder_attempts v w = w\<lparr>cw_attempts := sort_key attempt_record_key v\<rparr>"

definition builder_completed :: "CompletedInvocationRecord list \<Rightarrow> CheckpointWire \<Rightarrow> CheckpointWire" where
  "builder_completed v w = w\<lparr>cw_completed_invocations := sort_key completed_key v\<rparr>"

definition builder_uncertain :: "UncertainInvocationRecord list \<Rightarrow> CheckpointWire \<Rightarrow> CheckpointWire" where
  "builder_uncertain v w = w\<lparr>cw_uncertain_invocations := sort_key uncertain_key v\<rparr>"

text \<open>\<open>Iterator::max_by_key\<close> returns the last of the elements with the greatest key.\<close>

fun max_by_key :: "('a \<Rightarrow> 'k::linorder) \<Rightarrow> 'a list \<Rightarrow> 'a option" where
  "max_by_key key [] = None"
| "max_by_key key (x # xs) =
     (case max_by_key key xs of None \<Rightarrow> Some x | Some y \<Rightarrow> if key x > key y then Some x else Some y)"

definition CheckpointV1Builder_build ::
  "'x checkpoint_lib_scheme \<Rightarrow> CheckpointWire \<Rightarrow> string option
     \<Rightarrow> (ExecutionErrorCode crash, CheckpointV1) result" where
  "CheckpointV1Builder_build L w legacy_cursor_step_id =
     try_then (case (cw_cursor w, legacy_cursor_step_id) of
         (None, Some step) \<Rightarrow>
           (case max_by_key iar_attempt_number
               (filter (\<lambda>a. lib_logical_step_id (iar_invocation a) = step) (cw_attempts w)) of
              Some r \<Rightarrow>
                try_then (raised (CheckpointCursor_new (lib_id (iar_invocation r))
                  (iar_attempt_number r) step)) (\<lambda>cursor. Ok (w\<lparr>cw_cursor := Some cursor\<rparr>))
            | None \<Rightarrow> Err (Raised ExInvalidCheckpoint))
       | _ \<Rightarrow> Ok w)
       (CheckpointV1_from_wire L)"

section \<open>Compatibility with a live definition\<close>

fun expected_pins ::
  "ManifestCatalog \<Rightarrow> ResolvedCapability list \<Rightarrow> (ExecutionErrorCode, ManifestPin list) result" where
  "expected_pins catalog [] = Ok []"
| "expected_pins catalog (cap # caps) =
     try_then (ok_or (catalog_manifest catalog (rc_capability_id cap) (rc_manifest_version cap))
       ExIncompatibleCheckpoint) (\<lambda>manifest.
     try_then (ManifestPin_from_manifest manifest) (\<lambda>pin.
     if mp_schema_digest pin \<noteq> rc_schema_digest cap then Err ExIncompatibleCheckpoint
     else try_then (expected_pins catalog caps) (\<lambda>pins. Ok (pin # pins))))"

definition CheckpointV1_assert_compatible ::
  "'x checkpoint_lib_scheme \<Rightarrow> 'w CheckpointWire_scheme \<Rightarrow> 'd AgentDefinition_scheme \<Rightarrow> ManifestCatalog
     \<Rightarrow> (ExecutionErrorCode crash, unit) result" where
  "CheckpointV1_assert_compatible L c d catalog =
     try_then (CheckpointV1_validate L c) (\<lambda>_.
     try_then (raised (DefinitionPin_from_definition d)) (\<lambda>pin.
     if cw_definition c \<noteq> pin then Err (Raised ExIncompatibleCheckpoint)
     else if is_some_and (cw_pending_approval c) (\<lambda>approval.
          ar_policy_revision (par_request approval) \<noteq> def_approval_policy_revision d
          \<or> is_none_or (find (\<lambda>cap. rc_capability_id cap = ar_capability_id (par_request approval)
               \<and> rc_manifest_version cap = ar_manifest_version (par_request approval))
               (def_resolved_capabilities d))
             (\<lambda>cap. rc_approval_policy_revision cap \<noteq> ar_policy_revision (par_request approval)))
     then Err (Raised ExIncompatibleCheckpoint)
     else try_then (raised (expected_pins catalog (def_resolved_capabilities d))) (\<lambda>expected.
     if cw_manifests c \<noteq> sort_key pin_order expected then Err (Raised ExIncompatibleCheckpoint)
     else Ok ())))"

section \<open>Canonical lists\<close>

lemma adjacent_any_iff:
  "\<not> adjacent_any (\<lambda>x y. key x \<ge> key y) xs \<longleftrightarrow> sorted_wrt (<) (map key xs)"
  for key :: "'a \<Rightarrow> 'k::linorder"
proof (induction "\<lambda>x y. key x \<ge> key y" xs rule: adjacent_any.induct)
  case (1 x y zs)
  then show ?case by (auto simp: not_le intro: order.strict_trans)
qed simp_all

lemma canonical_ok: "canonical xs = Ok () \<longleftrightarrow> sorted_wrt (<) xs"
  using adjacent_any_iff [of "\<lambda>x. x" xs] by (auto simp: canonical_def)

lemma canonical_by_pair_ok: "canonical_by_pair key xs = Ok () \<longleftrightarrow> sorted_wrt (<) (map key xs)"
  using adjacent_any_iff [of key xs] by (auto simp: canonical_by_pair_def)

lemma sorted_distinct: "sorted_wrt (<) xs \<Longrightarrow> distinct xs" for xs :: "'k::linorder list"
  by (simp add: strict_sorted_iff)

section \<open>What a valid checkpoint guarantees\<close>

lemma checkpoint_valid_parts:
  assumes "CheckpointV1_validate L c = Ok ()"
  shows "attempts_loop L (cw_run_id c) (manifest_map (cw_manifests c)) None Map.empty (cw_attempts c) = Ok ()"
    and "sorted_wrt (<) (map completed_key (cw_completed_invocations c))"
    and "sorted_wrt (<) (map uncertain_key (cw_uncertain_invocations c))"
    and "\<forall>r \<in> set (cw_uncertain_invocations c). uncertain_key r \<notin> completed_key ` set (cw_completed_invocations c)"
    and "\<forall>r \<in> set (cw_completed_invocations c). \<exists>a \<in> set (cw_attempts c). completes a r"
    and "\<forall>r \<in> set (cw_uncertain_invocations c). \<exists>a \<in> set (cw_attempts c). leaves_uncertain a r"
    and "\<forall>a \<in> set (cw_attempts c). recorded (cw_completed_invocations c) (cw_uncertain_invocations c) a"
    and "length (active_attempts (cw_attempts c)) \<le> 1"
    and "cw_state c = RecoveryRequired \<Longrightarrow> cw_uncertain_invocations c \<noteq> []"
    and "cw_state c \<noteq> RecoveryRequired \<Longrightarrow>
      \<forall>r \<in> set (cw_uncertain_invocations c). uir_resume_binding r = None"
    and "\<not> cursor_misplaced c"
    and "cw_state c = WaitingForApproval \<longleftrightarrow> cw_pending_approval c \<noteq> None"
    and "\<forall>p. cw_pending_approval c = Some p \<longrightarrow> (\<exists>a. cursor_attempt c = Some a \<and>
      PendingApprovalRecord_validate_against p (cw_definition c) a = Ok ())"
    and "\<exists>p. transcript_loop L {} (cw_provider_transcript c) = Ok p"
    and "sorted_wrt (<) (map pin_order (cw_manifests c))"
  using assms unfolding CheckpointV1_validate_def canonical_ok canonical_by_pair_ok list_ex_iff list_all_iff
  by (simp_all add: canonical_ok canonical_by_pair_ok list_ex_iff split: if_splits option.splits)

section \<open>Attempts\<close>

definition latest_number :: "(uuid \<rightharpoonup> u32) \<Rightarrow> uuid \<Rightarrow> nat" where
  "latest_number latest i = (case latest i of None \<Rightarrow> 0 | Some n \<Rightarrow> unat n)"

lemma attempts_loop_Cons:
  assumes "attempts_loop L run pins prev latest (a # as) = Ok ()"
  shows "unat (iar_attempt_number a) = Suc (latest_number latest (lib_id (iar_invocation a)))"
    and "is_none_or prev (\<lambda>p. p < attempt_record_key a)"
    and "InvocationAttemptRecord_validate L a = Ok ()" and "lib_run_id (iar_invocation a) = run"
    and "attempts_loop L run pins (Some (attempt_record_key a))
      (latest(lib_id (iar_invocation a) \<mapsto> iar_attempt_number a)) as = Ok ()"
  using assms
  by (auto simp: latest_number_def checked_add_Some_iff is_none_or_def is_some_and_def not_le
      split: if_splits option.splits)

lemma attempts_loop_sorted:
  "attempts_loop L run pins prev latest as = Ok () \<Longrightarrow>
     sorted_wrt (<) (map attempt_record_key as) \<and>
     (\<forall>p. prev = Some p \<longrightarrow> (\<forall>a \<in> set as. p < attempt_record_key a))"
proof (induction as arbitrary: prev latest)
  case (Cons a as)
  note c = attempts_loop_Cons [OF Cons.prems]
  from Cons.IH [OF c(5)] c(2) show ?case
    by (cases prev) (auto intro: order.strict_trans)
qed simp

lemma attempts_loop_gapless:
  "attempts_loop L run pins prev latest as = Ok () \<Longrightarrow> a \<in> set as \<Longrightarrow>
     latest_number latest (lib_id (iar_invocation a)) < k \<Longrightarrow> k \<le> unat (iar_attempt_number a) \<Longrightarrow>
     \<exists>a' \<in> set as. lib_id (iar_invocation a') = lib_id (iar_invocation a) \<and> unat (iar_attempt_number a') = k"
proof (induction as arbitrary: prev latest)
  case (Cons x xs)
  note c = attempts_loop_Cons [OF Cons.prems(1)]
  show ?case
  proof (cases "lib_id (iar_invocation x) = lib_id (iar_invocation a) \<and> unat (iar_attempt_number x) = k")
    case True
    then show ?thesis by auto
  next
    case False
    then have "a \<noteq> x" using Cons.prems(3,4) c(1) by auto
    then have m: "a \<in> set xs" using Cons.prems(2) by simp
    have l: "latest_number (latest(lib_id (iar_invocation x) \<mapsto> iar_attempt_number x))
        (lib_id (iar_invocation a)) < k"
      using False c(1) Cons.prems(3) by (auto simp: latest_number_def split: option.splits if_splits)
    show ?thesis using Cons.IH [OF c(5) m l Cons.prems(4)] by (meson list.set_intros(2))
  qed
qed simp


lemmas attempts_loop_facts =
  attempts_loop_sorted [THEN conjunct1] attempts_loop_gapless [where latest = Map.empty]

lemma keys_agree:
  "completes a r \<Longrightarrow> completed_key r = attempt_record_key a \<and> iar_state a = AttemptCompleted"
  "leaves_uncertain a u \<Longrightarrow> uncertain_key u = attempt_record_key a \<and> iar_state a = AttemptUncertain"
  by (auto simp: completes_def leaves_uncertain_def completed_key_def uncertain_key_def
      attempt_record_key_def)

lemma recorded_D:
  assumes "recorded completed uncertain a"
  shows "iar_state a = AttemptCompleted \<Longrightarrow> attempt_record_key a \<in> completed_key ` set completed"
    and "iar_state a = AttemptUncertain \<Longrightarrow> attempt_record_key a \<in> uncertain_key ` set uncertain"
  using assms by (force simp: recorded_def list_ex_iff completed_key_def uncertain_key_def
      attempt_record_key_def)+

text \<open>\<^bold>\<open>C9.\<close> A valid checkpoint accounts for every attempt exactly once: attempts, completions and
  uncertain records are each listed in strictly increasing order of invocation and number, the
  numbers of an invocation run from one without a gap, the completion records are exactly those of
  the completed attempts and the uncertain records exactly those of the uncertain ones.\<close>

theorem checkpoint_history_exact:
  assumes valid: "CheckpointV1_validate L c = Ok ()"
  shows "sorted_wrt (<) (map attempt_record_key (cw_attempts c)) \<and>
    (\<forall>a k. a \<in> set (cw_attempts c) \<longrightarrow> 0 < k \<longrightarrow> k \<le> unat (iar_attempt_number a) \<longrightarrow>
       (\<exists>a' \<in> set (cw_attempts c). lib_id (iar_invocation a') = lib_id (iar_invocation a) \<and>
          unat (iar_attempt_number a') = k)) \<and>
    map completed_key (cw_completed_invocations c) =
      map attempt_record_key (filter (\<lambda>a. iar_state a = AttemptCompleted) (cw_attempts c)) \<and>
    map uncertain_key (cw_uncertain_invocations c) =
      map attempt_record_key (filter (\<lambda>a. iar_state a = AttemptUncertain) (cw_attempts c))"
proof -
  note v = checkpoint_valid_parts [OF valid]
  note s = attempts_loop_facts(1) [OF v(1)]
  have fs: "sorted_wrt (<) (map attempt_record_key (filter P (cw_attempts c)))" for P
    using s by (simp add: sorted_wrt_map sorted_wrt_filter)
  have c1: "set (map completed_key (cw_completed_invocations c)) =
      set (map attempt_record_key (filter (\<lambda>a. iar_state a = AttemptCompleted) (cw_attempts c)))"
    using v(5,7) recorded_D(1) by (fastforce dest: keys_agree(1))
  have c2: "set (map uncertain_key (cw_uncertain_invocations c)) =
      set (map attempt_record_key (filter (\<lambda>a. iar_state a = AttemptUncertain) (cw_attempts c)))"
    using v(6,7) recorded_D(2) by (fastforce dest: keys_agree(2))
  have g: "\<forall>a k. a \<in> set (cw_attempts c) \<longrightarrow> 0 < k \<longrightarrow> k \<le> unat (iar_attempt_number a) \<longrightarrow>
       (\<exists>a' \<in> set (cw_attempts c). lib_id (iar_invocation a') = lib_id (iar_invocation a) \<and>
          unat (iar_attempt_number a') = k)"
    using attempts_loop_facts(2) [OF v(1)] by (simp add: latest_number_def)
  from s g strict_sorted_equal [OF fs v(2) c1] strict_sorted_equal [OF fs v(3) c2]
  show ?thesis by (intro conjI)
qed

section \<open>The cursor\<close>

lemma short_filter: "length (filter P xs) \<le> 1 \<Longrightarrow> x \<in> set xs \<Longrightarrow> P x \<Longrightarrow> filter P xs = [x]"
proof -
  assume *: "length (filter P xs) \<le> 1" "x \<in> set xs" "P x"
  then have "x \<in> set (filter P xs)" by simp
  with *(1) show ?thesis by (cases "filter P xs") auto
qed

text \<open>In a valid checkpoint at most one attempt is pending or dispatching, the cursor points at it,
  no later attempt of the same invocation exists, and the run is neither queued nor finished: a
  finished run leaves no attempt in flight.\<close>

theorem checkpoint_cursor_on_active:
  assumes valid: "CheckpointV1_validate L c = Ok ()" and a: "a \<in> set (cw_attempts c)"
    and active: "iar_state a \<in> {AttemptPending, AttemptDispatching}"
  shows "cursor_attempt c = Some a \<and> active_attempts (cw_attempts c) = [a] \<and>
    cw_state c \<notin> {Queued, RunCompleted, RunFailed, RunCancelled} \<and>
    \<not> (\<exists>a' \<in> set (cw_attempts c). lib_id (iar_invocation a') = lib_id (iar_invocation a) \<and>
         iar_attempt_number a' > iar_attempt_number a)"
proof -
  note v = checkpoint_valid_parts [OF valid]
  have one: "active_attempts (cw_attempts c) = [a]"
    using short_filter [of "\<lambda>a. iar_state a \<in> {AttemptPending, AttemptDispatching}"] v(8) a active
    unfolding active_attempts_def by blast
  then have cur: "cursor_attempt c = Some a"
    using v(11) by (simp add: cursor_misplaced_def Let_def)
  then have "cw_cursor c \<noteq> None" by (auto simp: cursor_attempt_def split: option.splits)
  then show ?thesis
    using v(11) one cur by (auto simp: cursor_misplaced_def Let_def is_some_and_def list_ex_iff)
qed

text \<open>A checkpoint holds what its state needs to go on. Waiting for approval, it holds a pending
  request that names the pending attempt under the cursor - its run, step, invocation, capability,
  manifest version and argument digest; in recovery, the attempt under the cursor is uncertain; and
  a resume binding occurs only in recovery.\<close>

theorem checkpoint_state_supported:
  assumes valid: "CheckpointV1_validate L c = Ok ()"
  shows "(cw_state c = WaitingForApproval \<longrightarrow> (\<exists>p a. cw_pending_approval c = Some p \<and>
      cursor_attempt c = Some a \<and> iar_state a = AttemptPending \<and>
      ar_run_id (par_request p) = lib_run_id (iar_invocation a) \<and>
      ar_logical_step_id (par_request p) = lib_logical_step_id (iar_invocation a) \<and>
      ar_logical_invocation_id (par_request p) = lib_id (iar_invocation a) \<and>
      ar_capability_id (par_request p) = lib_capability_id (iar_invocation a) \<and>
      ar_manifest_version (par_request p) = lib_manifest_version (iar_invocation a) \<and>
      ar_canonical_argument_digest (par_request p) =
        lib_canonical_argument_digest (iar_invocation a))) \<and>
    (cw_state c = RecoveryRequired \<longrightarrow>
       (\<exists>a. cursor_attempt c = Some a \<and> iar_state a = AttemptUncertain)) \<and>
    (\<forall>r \<in> set (cw_uncertain_invocations c). uir_resume_binding r \<noteq> None \<longrightarrow>
       cw_state c = RecoveryRequired)"
proof (intro conjI impI)
  note v = checkpoint_valid_parts [OF valid]
  {
    assume w: "cw_state c = WaitingForApproval"
    then obtain p a where "cw_pending_approval c = Some p" "cursor_attempt c = Some a"
      "PendingApprovalRecord_validate_against p (cw_definition c) a = Ok ()"
      using v(12,13) by blast
    moreover have "iar_state a = AttemptPending"
      using v(11) w calculation(2) by (auto simp: cursor_misplaced_def Let_def is_some_and_def)
    ultimately show "\<exists>p a. cw_pending_approval c = Some p \<and>
      cursor_attempt c = Some a \<and> iar_state a = AttemptPending \<and>
      ar_run_id (par_request p) = lib_run_id (iar_invocation a) \<and>
      ar_logical_step_id (par_request p) = lib_logical_step_id (iar_invocation a) \<and>
      ar_logical_invocation_id (par_request p) = lib_id (iar_invocation a) \<and>
      ar_capability_id (par_request p) = lib_capability_id (iar_invocation a) \<and>
      ar_manifest_version (par_request p) = lib_manifest_version (iar_invocation a) \<and>
      ar_canonical_argument_digest (par_request p) = lib_canonical_argument_digest (iar_invocation a)"
      by (auto simp: PendingApprovalRecord_validate_against_def Let_def split: if_splits)
  next
    assume "cw_state c = RecoveryRequired"
    then show "\<exists>a. cursor_attempt c = Some a \<and> iar_state a = AttemptUncertain"
      using v(11) by (auto simp: cursor_misplaced_def Let_def is_none_or_def split: option.splits)
  next
    show "\<forall>r \<in> set (cw_uncertain_invocations c). uir_resume_binding r \<noteq> None \<longrightarrow>
       cw_state c = RecoveryRequired"
      by (cases "cw_state c = RecoveryRequired") (use v(10) in auto)
  }
qed

section \<open>Transcripts\<close>

lemma add_calls_ok: "add_calls pending is = Ok p \<Longrightarrow> p = pending \<union> set is \<and> distinct is \<and> pending \<inter> set is = {}"
  by (induction "is" arbitrary: pending) (auto split: if_splits)

definition is_result :: "ProviderTranscriptEntry \<Rightarrow> bool" where
  "is_result e = (case e of CapabilityResult _ _ \<Rightarrow> True | _ \<Rightarrow> False)"

lemma transcript_append:
  "transcript_loop L p (xs @ ys) = Ok r \<longleftrightarrow>
     (\<exists>q. transcript_loop L p xs = Ok q \<and> transcript_loop L q ys = Ok r)"
  by (induction xs arbitrary: p) auto

lemma transcript_response:
  assumes "transcript_loop L p (ModelResponse content calls stop # ys) = Ok r"
  shows "p = {} \<and> distinct (map ptc_id calls) \<and> transcript_loop L (ptc_id ` set calls) ys = Ok r"
  using assms by (auto split: if_splits dest: add_calls_ok)

lemma transcript_result:
  assumes "transcript_loop L p (CapabilityResult i content # ys) = Ok r"
  shows "i \<in> p \<and> transcript_loop L (p - {i}) ys = Ok r"
  using assms by (auto split: if_splits)

text \<open>An outstanding call was made by the latest response and has not been answered since.\<close>

lemma transcript_outstanding:
  "transcript_loop L {} xs = Ok p \<Longrightarrow> i \<in> p \<Longrightarrow>
     \<exists>before content calls stop since.
       xs = before @ ModelResponse content calls stop # since \<and> i \<in> ptc_id ` set calls \<and>
       list_all is_result since \<and> (\<forall>result. CapabilityResult i result \<notin> set since)"
proof (induction xs arbitrary: p rule: rev_induct)
  case (snoc x xs)
  from snoc.prems(1) obtain q where q: "transcript_loop L {} xs = Ok q" and x: "transcript_loop L q [x] = Ok p"
    by (auto simp: transcript_append)
  show ?case
  proof (cases x)
    case (ModelResponse content calls stop)
    have "i \<in> ptc_id ` set calls"
      using transcript_response [OF x [unfolded ModelResponse]] snoc.prems(2) by simp
    then have "xs @ [x] = xs @ ModelResponse content calls stop # [] \<and> i \<in> ptc_id ` set calls \<and>
        list_all is_result [] \<and> (\<forall>result. CapabilityResult i result \<notin> set [])"
      using ModelResponse by simp
    then show ?thesis by blast
  next
    case (CapabilityResult j res)
    have "i \<in> q" "i \<noteq> j"
      using transcript_result [OF x [unfolded CapabilityResult]] snoc.prems(2) by auto
    with snoc.IH [OF q] obtain before content calls stop since where
      "xs = before @ ModelResponse content calls stop # since" "i \<in> ptc_id ` set calls"
      "list_all is_result since" "\<forall>result. CapabilityResult i result \<notin> set since" by blast
    then have "xs @ [x] = before @ ModelResponse content calls stop # (since @ [x]) \<and>
        i \<in> ptc_id ` set calls \<and> list_all is_result (since @ [x]) \<and>
        (\<forall>result. CapabilityResult i result \<notin> set (since @ [x]))"
      using CapabilityResult \<open>i \<noteq> j\<close> by (auto simp: is_result_def)
    then show ?thesis by blast
  qed
qed simp

text \<open>In the transcript of a valid checkpoint every capability result answers a call of the latest
  model response before it, that call had not been answered yet, and the call identifiers of a
  response are distinct; a model response follows only once every call before it is answered.\<close>

theorem transcript_answers_calls:
  assumes "CheckpointV1_validate L c = Ok ()" and "cw_provider_transcript c = earlier @ entry # later"
  shows "case entry of
      CapabilityResult i result \<Rightarrow> (\<exists>before content calls stop since.
        earlier = before @ ModelResponse content calls stop # since \<and> i \<in> ptc_id ` set calls \<and>
        list_all is_result since \<and> (\<forall>r. CapabilityResult i r \<notin> set since))
    | ModelResponse content calls stop \<Rightarrow> distinct (map ptc_id calls) \<and> transcript_loop L {} earlier = Ok {}"
proof -
  obtain p where "transcript_loop L {} (earlier @ entry # later) = Ok p"
    using checkpoint_valid_parts(14) [OF assms(1)] assms(2) by auto
  then obtain q where q: "transcript_loop L {} earlier = Ok q" "transcript_loop L q (entry # later) = Ok p"
    by (auto simp: transcript_append)
  show ?thesis
  proof (cases entry)
    case (ModelResponse content calls stop)
    with transcript_response [OF q(2) [unfolded ModelResponse]] q(1) show ?thesis by simp
  next
    case (CapabilityResult i result)
    with transcript_outstanding [OF q(1)] transcript_result [OF q(2) [unfolded CapabilityResult]]
    show ?thesis by simp
  qed
qed

section \<open>Fingerprints\<close>

lemma xor_bytes_commute: "xor_bytes (xor_bytes fp a) b = xor_bytes (xor_bytes fp b) a"
proof (induction fp arbitrary: a b)
  case (Cons s ss)
  then show ?case by (cases a; cases b) (simp_all add: xor.assoc xor.commute xor.left_commute)
qed simp

lemma fingerprint_all_eq:
  "fingerprint_all L encode fp vs =
     (if list_all (\<lambda>v. encode v \<noteq> None) vs
      then Ok (fold (\<lambda>v fp. xor_bytes fp (sha256 L (the (encode v)))) vs fp) else Err ExInvalidCheckpoint)"
proof (induction vs arbitrary: fp)
  case (Cons v vs)
  then show ?case by (cases "encode v") (simp_all add: fingerprint_include_def ok_or_def)
qed simp

text \<open>A history fingerprint depends on the records and not on the order in which they were
  included, failures to encode a record included, so the fingerprint that is kept up to date record
  by record is the one computed from the stored list.\<close>

theorem fingerprint_order_independent:
  assumes "mset xs = mset ys"
  shows "fingerprint_from_values L encode xs = fingerprint_from_values L encode ys"
proof -
  have "fold (\<lambda>v fp. xor_bytes fp (sha256 L (the (encode v)))) xs =
      fold (\<lambda>v fp. xor_bytes fp (sha256 L (the (encode v)))) ys"
    using assms by (intro fold_multiset_equiv) (auto simp: fun_eq_iff xor_bytes_commute)
  moreover have "list_all P xs = list_all P ys" for P
    using mset_eq_setD [OF assms] by (simp add: list_all_iff)
  ultimately show ?thesis by (simp add: fingerprint_from_values_def fingerprint_all_eq)
qed

section \<open>Wire form\<close>

text \<open>What \<open>from_wire\<close> establishes: a valid checkpoint that carries its own fingerprints.\<close>

definition checkpoint_inv :: "'x checkpoint_lib_scheme \<Rightarrow> CheckpointV1 \<Rightarrow> bool" where
  "checkpoint_inv L c \<longleftrightarrow> CheckpointV1_validate L c = Ok () \<and>
     fingerprint_from_values L (jcs_attempt L) (cw_attempts c) = Ok (cp_attempts_fingerprint c) \<and>
     fingerprint_from_values L (jcs_completed L) (cw_completed_invocations c) =
       Ok (cp_completed_fingerprint c)"

lemma wire_extend:
  "CheckpointWire.truncate (CheckpointWire.extend w m) = w" for w :: CheckpointWire
  by (cases w) (simp add: CheckpointWire.defs)

lemma from_wire_ok: "CheckpointV1_from_wire L w = Ok c \<longleftrightarrow> CheckpointV1_wire c = w \<and> checkpoint_inv L c"
  by (cases w; cases c)
    (auto simp: CheckpointV1_from_wire_def CheckpointV1_wire_def checkpoint_inv_def CheckpointWire.defs)

interpretation checkpoint_format: wire_format CheckpointV1_wire "CheckpointV1_from_wire L" "checkpoint_inv L" for L
  by unfold_locales (simp_all add: from_wire_ok)

text \<open>The fingerprints need not be written: a checkpoint that was built or loaded is loaded again
  from its wire form, fingerprints included, and two such checkpoints with the same wire form are
  equal.\<close>

theorem checkpoint_reload:
  assumes "CheckpointV1Builder_build L w step = Ok c"
  shows "CheckpointV1_from_wire L (CheckpointV1_wire c) = Ok c \<and>
    (\<forall>w' c'. CheckpointV1_from_wire L w' = Ok c' \<and> CheckpointV1_wire c' = CheckpointV1_wire c \<longrightarrow> c' = c)"
proof -
  from assms obtain w' where c: "CheckpointV1_from_wire L w' = Ok c"
    by (auto simp: CheckpointV1Builder_build_def)
  then show ?thesis
    using checkpoint_format.reload [OF c] checkpoint_format.load_valid checkpoint_format.wire_inj by metis
qed

section \<open>Compatibility\<close>

lemma expected_pins_ok:
  "expected_pins catalog caps = Ok pins \<Longrightarrow> pin \<in> set pins \<Longrightarrow>
     \<exists>cap m. cap \<in> set caps \<and> catalog_manifest catalog (rc_capability_id cap) (rc_manifest_version cap) = Some m \<and>
       ManifestPin_from_manifest m = Ok pin \<and> mp_schema_digest pin = rc_schema_digest cap"
proof (induction caps arbitrary: pins)
  case (Cons cap caps)
  from Cons.prems(1) obtain m p ps where "expected_pins catalog caps = Ok ps" "pins = p # ps"
    "catalog_manifest catalog (rc_capability_id cap) (rc_manifest_version cap) = Some m"
    "ManifestPin_from_manifest m = Ok p" "mp_schema_digest p = rc_schema_digest cap"
    by (auto simp: ok_or_def split: if_splits option.splits)
  with Cons.IH Cons.prems(2) show ?case by fastforce
qed simp

lemma attempts_loop_pinned:
  "attempts_loop L run pins prev latest as = Ok () \<Longrightarrow> a \<in> set as \<Longrightarrow>
     pins (mp_id (iar_manifest a), mp_version (iar_manifest a)) = Some (iar_manifest a) \<and>
     lib_run_id (iar_invocation a) = run"
  by (induction as arbitrary: prev latest) (auto split: if_splits)

lemma attempts_loop_valid:
  "attempts_loop L run pins prev latest as = Ok () \<Longrightarrow> a \<in> set as \<Longrightarrow>
     InvocationAttemptRecord_validate L a = Ok ()"
  by (induction as arbitrary: prev latest) (auto split: if_splits)

text \<open>\<^bold>\<open>C17.\<close> A run resumes only on the capabilities it was started with: if a checkpoint is compatible
  with a definition and a catalog, it names that definition, and the manifest pinned by every attempt in
  it, identifier, version, schema digest and recovery mode, is the one the catalog now holds for a
  capability of the definition, with the schema digest the definition resolved; the attempt's own
  capability, manifest version and recovery mode are those of that manifest.\<close>

theorem compatible_checkpoint_pins:
  assumes ok: "CheckpointV1_assert_compatible L c d catalog = Ok ()" and a: "a \<in> set (cw_attempts c)"
  shows "dp_id (cw_definition c) = def_id d \<and> dp_version (cw_definition c) = def_version d \<and>
    (\<exists>cap m. cap \<in> set (def_resolved_capabilities d) \<and>
       catalog_manifest catalog (rc_capability_id cap) (rc_manifest_version cap) = Some m \<and>
       lib_capability_id (iar_invocation a) = cm_id m \<and> lib_manifest_version (iar_invocation a) = cm_version m \<and>
       cm_schema_digest m = rc_schema_digest cap \<and> iar_recovery_mode a = cm_recovery_mode m \<and>
       iar_manifest a = \<lparr>mp_id = cm_id m, mp_version = cm_version m, mp_schema_digest = cm_schema_digest m,
         mp_recovery_mode = cm_recovery_mode m\<rparr>)"
proof -
  from ok obtain pin expected where valid: "CheckpointV1_validate L c = Ok ()"
    and pin: "DefinitionPin_from_definition d = Ok pin" "cw_definition c = pin"
    and e: "expected_pins catalog (def_resolved_capabilities d) = Ok expected"
      "cw_manifests c = sort_key pin_order expected"
    by (auto simp: CheckpointV1_assert_compatible_def split: if_splits)
  note v = checkpoint_valid_parts [OF valid]
  have "iar_manifest a \<in> set (cw_manifests c)"
    using attempts_loop_pinned [OF v(1) a] by (auto simp: manifest_map_def dest!: map_of_SomeD)
  then have "iar_manifest a \<in> set expected" using e(2) by simp
  from expected_pins_ok [OF e(1) this] obtain cap m where "cap \<in> set (def_resolved_capabilities d)"
    "catalog_manifest catalog (rc_capability_id cap) (rc_manifest_version cap) = Some m"
    "ManifestPin_from_manifest m = Ok (iar_manifest a)" "mp_schema_digest (iar_manifest a) = rc_schema_digest cap"
    by blast
  moreover have "InvocationAttemptRecord_validate L a = Ok ()"
    using attempts_loop_valid [OF v(1) a] .
  ultimately show ?thesis
    using pin by (auto simp: DefinitionPin_from_definition_def DefinitionPin_new_def manifest_pin_ok
        InvocationAttemptRecord_validate_def split: if_splits)
qed

section \<open>Examples\<close>

definition example_checkpoint_lib :: checkpoint_lib where
  "example_checkpoint_lib = execution_lib.extend example_exec_lib
     \<lparr>number_finite = (\<lambda>_. True), jcs_attempt = (\<lambda>_. Some ''a''), jcs_completed = (\<lambda>_. Some ''c'')\<rparr>"

definition example_attempt :: "u32 \<Rightarrow> AttemptRecordState \<Rightarrow> InvocationAttemptRecord" where
  "example_attempt n st = \<lparr>iar_invocation = example_invocation_binding, iar_normalized_arguments = None,
     iar_attempt_number = n, iar_state = st, iar_manifest = example_pin,
     iar_recovery_mode = InherentlyIdempotent\<rparr>"

definition example_uncertain :: UncertainInvocationRecord where
  "example_uncertain = \<lparr>uir_pause = \<lparr>rpr_invocation = example_invocation_binding, rpr_attempt_number = 1,
     rpr_manifest = example_pin, rpr_reason = UncertainOutcome\<rparr>, uir_resume_binding = None\<rparr>"

definition example_transcript :: "ProviderTranscriptEntry list" where
  "example_transcript =
     [ModelResponse \<lparr>pct_text = [], pct_attachments = None, pct_metadata = None\<rparr>
        [\<lparr>ptc_id = ''c1'', ptc_name = ''fs.read'', ptc_arguments = JObject []\<rparr>] StopToolCall,
      CapabilityResult ''c1'' \<lparr>pct_text = [], pct_attachments = None, pct_metadata = None\<rparr>]"

definition example_checkpoint ::
  "RunState \<Rightarrow> InvocationAttemptRecord list \<Rightarrow> u32 \<Rightarrow> CheckpointWire" where
  "example_checkpoint st attempts n =
     (CheckpointV1Builder_new 2 11 \<lparr>dp_schema_version = 1, dp_id = ''d'', dp_version = 1\<rparr> 4 [example_pin]
        example_budget (example_usage 1))
     \<lparr>cw_state := st, cw_attempts := attempts, cw_uncertain_invocations := [example_uncertain],
      cw_cursor := Some \<lparr>cc_logical_invocation_id = lib_id example_invocation_binding,
        cc_attempt_number = n, cc_logical_step_id = ''s1''\<rparr>,
      cw_provider_transcript := example_transcript\<rparr>"

lemma example_transcript_ok: "transcript_loop example_checkpoint_lib {} example_transcript = Ok {}"
  by (simp add: example_transcript_def to_content_def ProviderToolCall_validate_def is_object_def
      execution_checks not_blank_graph code_def MAX_ID_BYTES_def is_ok_def)

lemma example_uncertain_valid: "UncertainInvocationRecord_validate L example_uncertain = Ok ()"
  by (simp add: UncertainInvocationRecord_validate_def RecoveryPauseRecord_validate_def
      example_uncertain_def InvocationAttemptRecord_new_def InvocationAttemptRecord_validate_def checked_def)
    (simp add: example_invocation_binding_def example_pin_def)

lemma example_run_id: "recovery_run_id example_uncertain = 11" "uir_resume_binding example_uncertain = None"
  "lib_id example_invocation_binding \<noteq> 0"
  by (simp_all add: recovery_run_id_def example_uncertain_def example_invocation_binding_def)

lemma example_attempt_ok: "n \<noteq> 0 \<Longrightarrow> InvocationAttemptRecord_validate L (example_attempt n st) = Ok ()"
  by (simp add: InvocationAttemptRecord_validate_def example_attempt_def)
    (simp add: example_invocation_binding_def example_pin_def)

lemmas example_checkpoint_defs = example_checkpoint_def CheckpointV1Builder_new_def

lemma example_attempts_ok:
  "attempts_loop L 11 (manifest_map [example_pin]) None Map.empty [example_attempt 1 AttemptUncertain] = Ok ()"
  "attempts_loop L 11 (manifest_map [example_pin]) None Map.empty
     [example_attempt 1 AttemptUncertain, example_attempt 2 AttemptPending] = Ok ()"
  by (simp_all add: example_attempt_ok manifest_map_def attempt_record_key_def checked_add_def is_some_and_def)
    (simp_all add: example_attempt_def example_invocation_binding_def word_le_nat_alt)

lemma example_checkpoint_valid:
  assumes "(st, as, n) \<in> {(RecoveryRequired, [example_attempt 1 AttemptUncertain], 1),
    (Running, [example_attempt 1 AttemptUncertain, example_attempt 2 AttemptPending], 2)}"
  shows "CheckpointV1_validate example_checkpoint_lib (example_checkpoint st as n) = Ok ()"
proof -
  have st: "st = RecoveryRequired \<or> st = Running" "n \<noteq> 0" "st \<noteq> Paused" "st \<noteq> WaitingForApproval" using assms by auto
  have u: "\<exists>a \<in> set as. leaves_uncertain a example_uncertain"
    using assms by (auto simp: leaves_uncertain_def example_uncertain_def example_attempt_def example_pin_def)
  have r: "list_all (recorded [] [example_uncertain]) as"
    using assms by (auto simp: recorded_def example_uncertain_def example_attempt_def)
  have l: "attempts_loop example_checkpoint_lib 11 (manifest_map [example_pin]) None Map.empty as = Ok ()"
    using assms example_attempts_ok by (auto simp del: attempts_loop.simps)
  have c: "\<not> cursor_misplaced (example_checkpoint st as n)" "length (active_attempts as) \<le> 1"
    using assms by (auto simp: cursor_misplaced_def cursor_attempt_def active_attempts_def example_checkpoint_defs
        example_attempt_def Let_def is_some_and_def is_none_or_def example_invocation_binding_def)
  show ?thesis
    using st u r l c(2)
    by (simp add: CheckpointV1_validate_def c(1))
      (simp add: example_checkpoint_defs CHECKPOINT_SCHEMA_VERSION_def RUNTIME_SCHEMA_VERSION_def
        DefinitionPin_validate_def SUPPORTED_DEFINITION_SCHEMA_VERSION_def CheckpointCursor_validate_def
        execution_checks not_blank_graph code_def MAX_ID_BYTES_def canonical_def canonical_by_pair_def
        example_transcript_ok example_uncertain_valid example_budget_valid example_usage_valid
        example_run_id list_ex_iff)
qed

definition example_attempts :: "InvocationAttemptRecord list" where
  "example_attempts = [example_attempt 1 AttemptUncertain, example_attempt 2 AttemptPending]"

lemma example_running_valid:
  "CheckpointV1_validate example_checkpoint_lib (example_checkpoint Running example_attempts 2) = Ok ()"
  by (rule example_checkpoint_valid) (simp add: example_attempts_def)

lemma example_checkpoint_sel [simp]:
  "cw_attempts (example_checkpoint st as n) = as" "cw_state (example_checkpoint st as n) = st"
  "cw_uncertain_invocations (example_checkpoint st as n) = [example_uncertain]"
  "cw_completed_invocations (example_checkpoint st as n) = []"
  "cw_provider_transcript (example_checkpoint st as n) = example_transcript"
  by (simp_all add: example_checkpoint_defs)

theorem checkpoint_history_exact_witness:
  "map uncertain_key [example_uncertain] =
     map attempt_record_key (filter (\<lambda>a. iar_state a = AttemptUncertain) example_attempts)"
  using checkpoint_history_exact [OF example_running_valid] by simp

theorem checkpoint_cursor_on_active_witness:
  "cursor_attempt (example_checkpoint Running example_attempts 2) = Some (example_attempt 2 AttemptPending)"
proof -
  have "example_attempt 2 AttemptPending \<in> set (cw_attempts (example_checkpoint Running example_attempts 2))"
    by (simp add: example_attempts_def)
  from checkpoint_cursor_on_active [OF example_running_valid this] show ?thesis
    by (simp add: example_attempt_def)
qed

theorem checkpoint_state_supported_witness:
  "\<exists>a. cursor_attempt (example_checkpoint RecoveryRequired [example_attempt 1 AttemptUncertain] 1) = Some a \<and>
     iar_state a = AttemptUncertain"
proof -
  let ?c = "example_checkpoint RecoveryRequired [example_attempt 1 AttemptUncertain] 1"
  have "CheckpointV1_validate example_checkpoint_lib ?c = Ok ()" by (rule example_checkpoint_valid) simp
  from checkpoint_state_supported [OF this] show ?thesis by simp
qed

theorem transcript_answers_calls_witness:
  "\<exists>before content calls stop since.
     [hd example_transcript] = before @ ModelResponse content calls stop # since \<and>
     ''c1'' \<in> ptc_id ` set calls"
proof -
  have "cw_provider_transcript (example_checkpoint Running example_attempts 2) =
      [hd example_transcript] @
      CapabilityResult ''c1'' \<lparr>pct_text = [], pct_attachments = None, pct_metadata = None\<rparr> # []"
    by (simp add: example_transcript_def)
  from transcript_answers_calls [OF example_running_valid this] show ?thesis by simp blast
qed

theorem fingerprint_order_independent_witness:
  "fingerprint_from_values example_lib Some [''a'', ''b''] = fingerprint_from_values example_lib Some [''b'', ''a'']"
  by (rule fingerprint_order_independent) simp

theorem checkpoint_reload_witness:
  "\<exists>c. CheckpointV1Builder_build example_checkpoint_lib (example_checkpoint Running example_attempts 2) None = Ok c \<and>
     CheckpointV1_from_wire example_checkpoint_lib (CheckpointV1_wire c) = Ok c"
proof -
  let ?w = "example_checkpoint Running example_attempts 2"
  have same: "CheckpointV1_validate L (CheckpointWire.extend w m) = CheckpointV1_validate L w"
    for L :: checkpoint_lib and w :: CheckpointWire and m
    by (cases w) (simp only: CheckpointV1_validate_def CheckpointWire.defs CheckpointWire.select_convs
        cursor_misplaced_def cursor_attempt_def)
  have jcs: "jcs_attempt example_checkpoint_lib = (\<lambda>_. Some ''a'')"
    by (simp add: example_checkpoint_lib_def execution_lib.defs)
  have build: "CheckpointV1Builder_build example_checkpoint_lib ?w None =
      CheckpointV1_from_wire example_checkpoint_lib ?w"
    by (simp add: CheckpointV1Builder_build_def split: option.splits)
  obtain c where "CheckpointV1Builder_build example_checkpoint_lib ?w None = Ok c"
    unfolding build using example_running_valid
    by (simp add: CheckpointV1_from_wire_def same checked_def fingerprint_from_values_def fingerprint_all_eq jcs
        list_all_iff)
  with checkpoint_reload [OF this] show ?thesis by blast
qed

theorem compatible_checkpoint_pins_witness:
  "\<exists>cap m. cap \<in> {\<lparr>rc_capability_id = ''fs.read'', rc_manifest_version = 1,
       rc_schema_digest = cm_schema_digest example_manifest, rc_approval_policy_revision = 1\<rparr>} \<and>
     catalog_manifest \<lparr>cat_manifests = [(''fs.read'', 1) \<mapsto> example_manifest], cat_profiles = Map.empty\<rparr>
       (rc_capability_id cap) (rc_manifest_version cap) = Some m \<and>
     lib_capability_id example_invocation_binding = cm_id m \<and>
     example_pin = \<lparr>mp_id = cm_id m, mp_version = cm_version m, mp_schema_digest = cm_schema_digest m,
       mp_recovery_mode = cm_recovery_mode m\<rparr>"
proof -
  let ?cap = "\<lparr>rc_capability_id = ''fs.read'', rc_manifest_version = 1,
     rc_schema_digest = cm_schema_digest example_manifest, rc_approval_policy_revision = 1\<rparr>"
  let ?catalog = "\<lparr>cat_manifests = [(''fs.read'', 1) \<mapsto> example_manifest], cat_profiles = Map.empty\<rparr>"
  let ?d = "\<lparr>def_schema_version = 1, def_id = ''d'', def_version = 1, def_resolved_capabilities = [?cap],
     def_approval_policy_revision = 1, def_allows_concurrent_sessions = False\<rparr>"
  let ?c = "example_checkpoint Running example_attempts 2"
  have pins: "expected_pins ?catalog [?cap] = Ok [example_pin]"
    by (simp add: catalog_manifest_def ok_or_def example_pinned)
      (simp add: example_pin_def example_manifest_def)
  have "CheckpointV1_assert_compatible example_checkpoint_lib ?c ?d ?catalog = Ok ()"
    by (simp add: CheckpointV1_assert_compatible_def example_running_valid pins
        DefinitionPin_from_definition_def DefinitionPin_new_def checked_def del: expected_pins.simps)
      (simp add: DefinitionPin_validate_def SUPPORTED_DEFINITION_SCHEMA_VERSION_def example_checkpoint_defs
        execution_checks not_blank_graph code_def MAX_ID_BYTES_def is_some_and_def)
  from compatible_checkpoint_pins [OF this, of "example_attempt 1 AttemptUncertain"]
  show ?thesis by (auto simp: example_attempts_def example_attempt_def)
qed

end
