(* ===== verification/Event.thy ===== *)
theory Event
  imports Budget
begin

text \<open>
  Runtime events, \<open>anima-core/src/execution/event.rs\<close>: the kinds, the payloads that carry no user
  data, the constructor and \<open>validate_batch\<close>, the check of every batch that is appended to or
  replayed from a run's history.
\<close>

section \<open>Events\<close>

datatype RuntimeEventKind =
    EvRunQueued | EvRunStarted | EvRunWaitingForApproval | EvRunPaused | EvRunResumed
  | EvRunCompleted | EvRunFailed | EvRunCancelled | EvModelStarted | EvModelCompleted
  | EvStepStarted | EvStepRetried | EvStepCompleted | EvStepFailed | EvCapabilityProposed
  | EvCapabilityApproved | EvCapabilityDenied | EvInvocationDispatchPrepared | EvCapabilityStarted
  | EvCapabilityCompleted | EvCapabilityFailed | EvPolicyEvaluated | EvApprovalRequested
  | EvApprovalResolved | EvMemoryRead | EvMemoryProposed | EvMemoryWritten | EvMemorySuperseded
  | EvMemoryForgotten | EvCheckpointSaved | EvArtifactRecorded | EvArtifactProposed
  | EvArtifactCreated | EvArtifactUpdated | EvBudgetUpdated | EvBudgetExtensionRequested
  | EvBudgetExhausted | EvUsageRecorded | EvError

datatype SafeEventPayload =
    PayloadNone
  | PayloadReference uuid
  | PayloadError ExecutionErrorCode "uuid option"

fun SafeEventPayload_validate :: "SafeEventPayload \<Rightarrow> (ExecutionErrorCode, unit) result" where
  "SafeEventPayload_validate (PayloadReference reference) = valid_uuid reference"
| "SafeEventPayload_validate (PayloadError c (Some reference)) = valid_uuid reference"
| "SafeEventPayload_validate _ = Ok ()"

definition RUNTIME_EVENT_SCHEMA_VERSION :: u32 where "RUNTIME_EVENT_SCHEMA_VERSION = 1"

record RuntimeEvent =
  ev_schema_version :: u32
  ev_event_id :: uuid
  ev_owner_id :: uuid
  ev_session_id :: uuid
  ev_run_id :: uuid
  ev_timestamp_ms :: u64
  ev_sequence :: u64
  ev_kind :: RuntimeEventKind
  ev_payload :: SafeEventPayload

definition RuntimeEvent_with_payload ::
  "uuid \<Rightarrow> uuid \<Rightarrow> uuid \<Rightarrow> uuid \<Rightarrow> u64 \<Rightarrow> u64 \<Rightarrow> RuntimeEventKind \<Rightarrow> SafeEventPayload
     \<Rightarrow> (ExecutionErrorCode, RuntimeEvent) result" where
  "RuntimeEvent_with_payload event owner session run timestamp_ms sequence kind payload =
     try_then (try_all valid_uuid [event, owner, session, run]) (\<lambda>_.
     if timestamp_ms = 0 \<or> sequence = 0 then Err ExInvalidEvent
     else try_then (SafeEventPayload_validate payload) (\<lambda>_.
     Ok \<lparr>ev_schema_version = RUNTIME_EVENT_SCHEMA_VERSION, ev_event_id = event,
       ev_owner_id = owner, ev_session_id = session, ev_run_id = run,
       ev_timestamp_ms = timestamp_ms, ev_sequence = sequence, ev_kind = kind,
       ev_payload = payload\<rparr>))"

definition RuntimeEvent_new ::
  "uuid \<Rightarrow> uuid \<Rightarrow> uuid \<Rightarrow> uuid \<Rightarrow> u64 \<Rightarrow> u64 \<Rightarrow> RuntimeEventKind
     \<Rightarrow> (ExecutionErrorCode, RuntimeEvent) result" where
  "RuntimeEvent_new event owner session run timestamp_ms sequence kind =
     RuntimeEvent_with_payload event owner session run timestamp_ms sequence kind PayloadNone"

text \<open>An event is written field by field; its payload is checked when it is read.\<close>

definition RuntimeEvent_load :: "RuntimeEvent \<Rightarrow> (ExecutionErrorCode, RuntimeEvent) result" where
  "RuntimeEvent_load w =
     try_then (SafeEventPayload_validate (ev_payload w)) (\<lambda>_.
     if ev_schema_version w \<noteq> RUNTIME_EVENT_SCHEMA_VERSION then Err ExInvalidEvent
     else RuntimeEvent_with_payload (ev_event_id w) (ev_owner_id w) (ev_session_id w) (ev_run_id w)
       (ev_timestamp_ms w) (ev_sequence w) (ev_kind w) (ev_payload w))"

record LiveRuntimeEvent =
  lre_run_id :: uuid
  lre_input_tokens :: u64
  lre_output_tokens :: u64

definition LiveRuntimeEvent_new ::
  "uuid \<Rightarrow> u64 \<Rightarrow> u64 \<Rightarrow> (ExecutionErrorCode, LiveRuntimeEvent) result" where
  "LiveRuntimeEvent_new run input_tokens output_tokens =
     try_then (valid_uuid run) (\<lambda>_.
     Ok \<lparr>lre_run_id = run, lre_input_tokens = input_tokens, lre_output_tokens = output_tokens\<rparr>)"

section \<open>Batches\<close>

definition event_scope :: "RuntimeEvent \<Rightarrow> uuid \<times> uuid \<times> uuid" where
  "event_scope e = (ev_owner_id e, ev_session_id e, ev_run_id e)"

text \<open>The loop of \<open>validate_batch\<close> with its four accumulators.\<close>

fun batch_loop ::
  "u64 \<Rightarrow> uuid set \<Rightarrow> (uuid \<times> uuid \<times> uuid) option \<Rightarrow> u64 option \<Rightarrow> RuntimeEvent list
     \<Rightarrow> (ExecutionErrorCode, unit) result" where
  "batch_loop expected ids scope prior [] = Ok ()"
| "batch_loop expected ids scope prior (e # es) =
     (if ev_schema_version e \<noteq> RUNTIME_EVENT_SCHEMA_VERSION \<or> ev_sequence e \<noteq> expected
         \<or> ev_timestamp_ms e = 0 \<or> is_some_and prior (\<lambda>p. ev_timestamp_ms e < p)
         \<or> ev_event_id e \<in> ids
      then Err ExInvalidEvent
      else if is_some_and scope (\<lambda>x. x \<noteq> event_scope e) then Err ExInvalidEvent
      else try_then (ok_or (checked_add expected 1) ExArithmeticOverflow) (\<lambda>next.
        batch_loop next (insert (ev_event_id e) ids) (Some (event_scope e))
          (Some (ev_timestamp_ms e)) es))"

definition validate_batch :: "u64 \<Rightarrow> RuntimeEvent list \<Rightarrow> (ExecutionErrorCode, unit) result" where
  "validate_batch start events = batch_loop start {} None None events"

section \<open>What a valid batch is\<close>

text \<open>The reference: consecutive numbers from \<open>start\<close>, rising time, distinct identifiers, one scope.\<close>

definition batch_ok :: "u64 \<Rightarrow> RuntimeEvent list \<Rightarrow> bool" where
  "batch_ok start es \<longleftrightarrow>
     map (\<lambda>e. unat (ev_sequence e)) es = [unat start..<unat start + length es] \<and>
     (es \<noteq> [] \<longrightarrow> unat start + length es < 2 ^ 64) \<and>
     (\<forall>e \<in> set es. ev_schema_version e = RUNTIME_EVENT_SCHEMA_VERSION \<and> ev_timestamp_ms e \<noteq> 0) \<and>
     sorted (map ev_timestamp_ms es) \<and> distinct (map ev_event_id es) \<and>
     (\<exists>s. \<forall>e \<in> set es. event_scope e = s)"

lemma batch_loop_ok:
  "batch_loop start ids scope prior es = Ok () \<longleftrightarrow>
     batch_ok start es \<and> (\<forall>e \<in> set es. ev_event_id e \<notin> ids \<and> is_none_or scope (\<lambda>x. x = event_scope e) \<and>
       is_none_or prior (\<lambda>p. p \<le> ev_timestamp_ms e))"
proof (induction es arbitrary: start ids scope prior)
  case (Cons e es)
  show ?case
  proof (cases "checked_add start 1")
    case None
    then have "\<not> batch_ok start (e # es)"
      by (auto simp: batch_ok_def checked_add_None_iff)
    with None show ?thesis by (auto split: if_splits)
  next
    case (Some n)
    then have n: "unat n = Suc (unat start)" by (simp add: checked_add_Some_iff)
    have lt: "unat n < 2 ^ LENGTH(64)" by (rule unsigned_less)
    have A: "map (\<lambda>e. unat (ev_sequence e)) (e # es) = [unat start..<unat start + length (e # es)] \<longleftrightarrow>
        ev_sequence e = start \<and> map (\<lambda>e. unat (ev_sequence e)) es = [unat n..<unat n + length es]"
      by (simp add: n upt_conv_Cons word_unat_eq_iff del: upt_Suc)
    have B: "(e # es \<noteq> [] \<longrightarrow> unat start + length (e # es) < 2 ^ 64) \<longleftrightarrow>
        (es \<noteq> [] \<longrightarrow> unat n + length es < 2 ^ 64)"
      using n lt by (cases es) simp_all
    have C: "(\<exists>s. \<forall>x \<in> set (e # es). event_scope x = s) \<longleftrightarrow>
        (\<exists>s. \<forall>x \<in> set es. event_scope x = s) \<and> (\<forall>x \<in> set es. event_scope x = event_scope e)"
      by (auto simp del: split_paired_Ex)
    have D: "ev_event_id e \<notin> ev_event_id ` set es \<longleftrightarrow> (\<forall>x \<in> set es. ev_event_id x \<noteq> ev_event_id e)"
      by (metis image_iff)
    have step: "batch_ok start (e # es) \<longleftrightarrow>
        ev_schema_version e = RUNTIME_EVENT_SCHEMA_VERSION \<and>
        ev_sequence e = start \<and> ev_timestamp_ms e \<noteq> 0 \<and> batch_ok n es \<and>
        (\<forall>x \<in> set es. ev_event_id x \<noteq> ev_event_id e \<and> event_scope x = event_scope e \<and>
           ev_timestamp_ms e \<le> ev_timestamp_ms x)"
      unfolding batch_ok_def A B C by (simp add: D ball_conj_distrib conj_commute conj_left_commute del: split_paired_Ex)
    have "batch_loop start ids scope prior (e # es) = Ok () \<longleftrightarrow>
        ev_schema_version e = RUNTIME_EVENT_SCHEMA_VERSION \<and> ev_sequence e = start \<and>
        ev_timestamp_ms e \<noteq> 0 \<and> is_none_or prior (\<lambda>p. p \<le> ev_timestamp_ms e) \<and>
        ev_event_id e \<notin> ids \<and> is_none_or scope (\<lambda>x. x = event_scope e) \<and>
        batch_loop n (insert (ev_event_id e) ids) (Some (event_scope e)) (Some (ev_timestamp_ms e)) es = Ok ()"
      using Some by (cases scope; cases prior) (auto simp: not_less)
    then show ?thesis
      unfolding step Cons.IH by (cases scope; cases prior) (fastforce simp: ball_conj_distrib)+
  qed
qed (simp add: batch_ok_def)

lemma validate_batch_ok: "validate_batch start es = Ok () \<longleftrightarrow> batch_ok start es"
  by (simp add: validate_batch_def batch_loop_ok)

text \<open>\<open>validate_batch\<close> accepts exactly the batches that continue a history: the sequence
  numbers are \<open>start\<close>, \<open>start + 1\<close>, \<dots> without wrapping around 64 bits and with a next number left,
  every event has the current schema version and a time, times never fall, no identifier is used
  twice, and all events belong to one owner, session and run.\<close>

theorem event_batch_exact: "validate_batch start es = Ok () \<longleftrightarrow> batch_ok start es"
  by (rule validate_batch_ok)

end
