(* ===== verification/Store.thy ===== *)
theory Store
  imports Checkpoint Event
begin

text \<open>
  The vocabulary of the execution store, \<open>anima-core/src/execution/store.rs\<close>: run inputs, the
  store's authoritative grants and policies with their compare-and-swap changes, the policy guard
  and the grant mutation of a dispatch, create and retry requests, stored runs and atomic commits.
  Values of type \<open>GrantAuthorityKey\<close> are their encoded string.
\<close>

section \<open>Errors\<close>

datatype ExecutionStoreErrorCode =
    StNotFound | StVersionConflict | StActiveRunConflict | StLeaseConflict | StLeaseExpired
  | StCommandConflict | StEventConflict | StCheckpointConflict | StGrantAlreadyConsumed
  | StGrantConflict | StPolicyConflict | StLineageConflict | StHistoryConflict | StBoundsExceeded
  | StArithmeticOverflow | StResultConflict | StStorageUnavailable | StCorruptState
  | StInvalidRequest

text \<open>\<open>From<ExecutionError> for ExecutionStoreError\<close>.\<close>

definition store_err :: "ExecutionErrorCode \<Rightarrow> ExecutionStoreErrorCode" where
  "store_err e = StInvalidRequest"

text \<open>
  The encoders the store uses: \<open>jcs_checkpoint\<close> and \<open>jcs_evaluation\<close> are \<open>serde_jcs::to_vec\<close> of a
  checkpoint and of a policy evaluation.
\<close>

record store_lib = checkpoint_lib +
  jcs_checkpoint :: "CheckpointV1 \<Rightarrow> string option"
  jcs_evaluation :: "PolicyEvaluation \<Rightarrow> string option"

section \<open>Run inputs\<close>

definition MAX_DURABLE_RUN_INPUT_BYTES :: nat where "MAX_DURABLE_RUN_INPUT_BYTES = 32 * 1024"

record DurableRunInput =
  dri_owner_id :: uuid
  dri_session_id :: uuid
  dri_run_id :: uuid
  dri_text :: string

definition DurableRunInput_validate :: "DurableRunInput \<Rightarrow> (ExecutionStoreErrorCode, unit) result" where
  "DurableRunInput_validate i =
     reject_if (uuid_is_nil (dri_owner_id i) \<or> uuid_is_nil (dri_session_id i)
         \<or> uuid_is_nil (dri_run_id i) \<or> length (dri_text i) > MAX_DURABLE_RUN_INPUT_BYTES)
       StInvalidRequest"

definition DurableRunInput_text ::
  "uuid \<Rightarrow> uuid \<Rightarrow> uuid \<Rightarrow> string \<Rightarrow> (ExecutionStoreErrorCode, DurableRunInput) result" where
  "DurableRunInput_text owner session run text =
     checked DurableRunInput_validate
       \<lparr>dri_owner_id = owner, dri_session_id = session, dri_run_id = run, dri_text = text\<rparr>"

definition DurableRunInput_empty :: "uuid \<Rightarrow> uuid \<Rightarrow> uuid \<Rightarrow> DurableRunInput" where
  "DurableRunInput_empty owner session run =
     \<lparr>dri_owner_id = owner, dri_session_id = session, dri_run_id = run, dri_text = []\<rparr>"

section \<open>Authoritative grants\<close>

definition canonical_sha256_label :: "string \<Rightarrow> string \<Rightarrow> bool" where
  "canonical_sha256_label value prefix \<longleftrightarrow>
     length value = length prefix + 64 \<and> take (length prefix) value = prefix \<and>
     list_all lower_hex (drop (length prefix) value)"

definition GrantAuthorityKey_from_encoded :: "string \<Rightarrow> (ExecutionErrorCode, string) result" where
  "GrantAuthorityKey_from_encoded value =
     (if \<not> canonical_sha256_label value ''gauth-v1:'' then Err ExInvalidIdentifier else Ok value)"

definition GrantAuthorityBinding_from_parts ::
  "string \<Rightarrow> string \<Rightarrow> string \<Rightarrow> u32 \<Rightarrow> GrantStatus \<Rightarrow> GrantEffect \<Rightarrow> RiskLevel \<Rightarrow> i64 \<Rightarrow> i64 option
     \<Rightarrow> u32 option \<Rightarrow> (ExecutionErrorCode, GrantAuthorityBinding) result" where
  "GrantAuthorityBinding_from_parts authority_key full_grant_digest scope_digest revision status
       effect maximum_risk valid_from_ms valid_until_ms remaining_uses =
     (if \<not> canonical_sha256_label full_grant_digest ''sha256:''
         \<or> \<not> canonical_sha256_label scope_digest ''sha256:''
         \<or> revision = 0 \<or> valid_from_ms < 0
         \<or> is_some_and valid_until_ms (\<lambda>until. until < valid_from_ms)
      then Err ExInvalidIdentifier
      else try_then (GrantAuthorityKey_from_encoded authority_key) (\<lambda>key.
        Ok \<lparr>gab_authority_key = key, gab_full_grant_digest = full_grant_digest,
          gab_scope_digest = scope_digest, gab_revision = revision, gab_status = status,
          gab_effect = effect, gab_maximum_risk = maximum_risk, gab_valid_from_ms = valid_from_ms,
          gab_valid_until_ms = valid_until_ms, gab_remaining_uses = remaining_uses\<rparr>))"

record AuthoritativeGrantState =
  ags_owner_id :: uuid
  ags_authority_key :: string
  ags_full_grant_digest :: string
  ags_scope_digest :: string
  ags_revision :: u32
  ags_status :: GrantStatus
  ags_effect :: GrantEffect
  ags_maximum_risk :: RiskLevel
  ags_valid_from_ms :: i64
  ags_valid_until_ms :: "i64 option"
  ags_remaining_uses :: "u32 option"

definition AuthoritativeGrantState_from_binding ::
  "uuid \<Rightarrow> GrantAuthorityBinding \<Rightarrow> (ExecutionStoreErrorCode, AuthoritativeGrantState) result" where
  "AuthoritativeGrantState_from_binding owner b =
     (if uuid_is_nil owner then Err StInvalidRequest
      else Ok \<lparr>ags_owner_id = owner, ags_authority_key = gab_authority_key b,
        ags_full_grant_digest = gab_full_grant_digest b, ags_scope_digest = gab_scope_digest b,
        ags_revision = gab_revision b, ags_status = gab_status b, ags_effect = gab_effect b,
        ags_maximum_risk = gab_maximum_risk b, ags_valid_from_ms = gab_valid_from_ms b,
        ags_valid_until_ms = gab_valid_until_ms b, ags_remaining_uses = gab_remaining_uses b\<rparr>)"

definition AuthoritativeGrantState_from_grant ::
  "'x store_lib_scheme \<Rightarrow> uuid \<Rightarrow> AutonomyGrant
     \<Rightarrow> (ExecutionStoreErrorCode, AuthoritativeGrantState) result" where
  "AuthoritativeGrantState_from_grant L owner g =
     (if uuid_is_nil owner then Err StInvalidRequest
      else try_then (map_err store_err (GrantAuthorityBinding_from_grant L g))
        (AuthoritativeGrantState_from_binding owner))"

definition grant_state_binding ::
  "AuthoritativeGrantState \<Rightarrow> (ExecutionStoreErrorCode, GrantAuthorityBinding) result" where
  "grant_state_binding s =
     map_err store_err (GrantAuthorityBinding_from_parts (ags_authority_key s)
       (ags_full_grant_digest s) (ags_scope_digest s) (ags_revision s) (ags_status s)
       (ags_effect s) (ags_maximum_risk s) (ags_valid_from_ms s) (ags_valid_until_ms s)
       (ags_remaining_uses s))"

text \<open>A stored grant is written field by field and rebuilt through its binding.\<close>

definition AuthoritativeGrantState_load ::
  "AuthoritativeGrantState \<Rightarrow> (ExecutionStoreErrorCode, AuthoritativeGrantState) result" where
  "AuthoritativeGrantState_load w =
     try_then (grant_state_binding w) (AuthoritativeGrantState_from_binding (ags_owner_id w))"

definition as_revoked :: "AuthoritativeGrantState \<Rightarrow> AuthoritativeGrantState" where
  "as_revoked s = s\<lparr>ags_status := Revoked\<rparr>"

definition validate_binding ::
  "AuthoritativeGrantState \<Rightarrow> GrantAuthorityBinding \<Rightarrow> u64
     \<Rightarrow> (ExecutionStoreErrorCode, unit) result" where
  "validate_binding s b now_ms =
     (let now = int (unat now_ms) in
      if now > i64_max then Err StGrantConflict
      else try_then (grant_state_binding s) (\<lambda>own.
        if own \<noteq> b \<or> ags_status s \<noteq> Active \<or> now < ags_valid_from_ms s
           \<or> is_some_and (ags_valid_until_ms s) (\<lambda>until. now \<ge> until)
           \<or> ags_remaining_uses s = Some 0
        then Err StGrantConflict else Ok ()))"

definition grant_consume ::
  "AuthoritativeGrantState \<Rightarrow> GrantAuthorityBinding \<Rightarrow> u64
     \<Rightarrow> (ExecutionStoreErrorCode, AuthoritativeGrantState) result" where
  "grant_consume s b now_ms =
     try_then (validate_binding s b now_ms) (\<lambda>_.
     try_then (ok_or (ags_remaining_uses s) StGrantConflict) (\<lambda>remaining.
     if remaining = 0 then Err StGrantConflict
     else Ok (s\<lparr>ags_remaining_uses := Some (remaining - 1)\<rparr>)))"

datatype AuthoritativeGrantChange =
    GrantCreate AuthoritativeGrantState
  | GrantUpdate u32 AuthoritativeGrantState
  | GrantRevoke string u32

definition GrantChange_update ::
  "u32 \<Rightarrow> AuthoritativeGrantState \<Rightarrow> (ExecutionStoreErrorCode, AuthoritativeGrantChange) result" where
  "GrantChange_update expected s =
     (if expected = 0 \<or> ags_revision s \<le> expected then Err StInvalidRequest
      else Ok (GrantUpdate expected s))"

definition GrantChange_revoke ::
  "string \<Rightarrow> u32 \<Rightarrow> (ExecutionStoreErrorCode, AuthoritativeGrantChange) result" where
  "GrantChange_revoke key expected =
     (if expected = 0 then Err StInvalidRequest else Ok (GrantRevoke key expected))"

fun grant_change_new_state :: "AuthoritativeGrantChange \<Rightarrow> AuthoritativeGrantState option" where
  "grant_change_new_state (GrantCreate s) = Some s"
| "grant_change_new_state (GrantUpdate _ s) = Some s"
| "grant_change_new_state (GrantRevoke _ _) = None"

fun grant_change_authority_key :: "AuthoritativeGrantChange \<Rightarrow> string" where
  "grant_change_authority_key (GrantCreate s) = ags_authority_key s"
| "grant_change_authority_key (GrantUpdate _ s) = ags_authority_key s"
| "grant_change_authority_key (GrantRevoke key _) = key"

fun grant_change_apply_to ::
  "AuthoritativeGrantChange \<Rightarrow> AuthoritativeGrantState option
     \<Rightarrow> (ExecutionStoreErrorCode, AuthoritativeGrantState) result" where
  "grant_change_apply_to (GrantCreate next) None = Ok next"
| "grant_change_apply_to (GrantUpdate expected next) (Some current) =
     (if ags_owner_id current = ags_owner_id next \<and> ags_authority_key current = ags_authority_key next
         \<and> ags_revision current = expected \<and> ags_revision next > ags_revision current
      then Ok next else Err StVersionConflict)"
| "grant_change_apply_to (GrantRevoke key expected) (Some current) =
     (if ags_authority_key current = key \<and> ags_revision current = expected
      then Ok (as_revoked current) else Err StVersionConflict)"
| "grant_change_apply_to _ _ = Err StVersionConflict"

section \<open>Authoritative policies\<close>

datatype AuthoritativePolicyStatus = PolicyActive | PolicyRevoked

record AuthoritativePolicyState =
  aps_owner_id :: uuid
  aps_agent_definition_id :: string
  aps_agent_definition_version :: u32
  aps_revision :: u32
  aps_status :: AuthoritativePolicyStatus
  aps_valid_until_ms :: "u64 option"

definition AuthoritativePolicyState_validate ::
  "AuthoritativePolicyState \<Rightarrow> (ExecutionStoreErrorCode, unit) result" where
  "AuthoritativePolicyState_validate p =
     reject_if (uuid_is_nil (aps_owner_id p) \<or> blank (aps_agent_definition_id p)
         \<or> length (aps_agent_definition_id p) > MAX_CAPABILITY_ID_BYTES
         \<or> aps_agent_definition_version p = 0 \<or> aps_revision p = 0
         \<or> aps_valid_until_ms p = Some 0) StInvalidRequest"

definition AuthoritativePolicyState_active ::
  "uuid \<Rightarrow> string \<Rightarrow> u32 \<Rightarrow> u32 \<Rightarrow> u64 option
     \<Rightarrow> (ExecutionStoreErrorCode, AuthoritativePolicyState) result" where
  "AuthoritativePolicyState_active owner definition_id definition_version revision valid_until_ms =
     checked AuthoritativePolicyState_validate
       \<lparr>aps_owner_id = owner, aps_agent_definition_id = definition_id,
        aps_agent_definition_version = definition_version, aps_revision = revision,
        aps_status = PolicyActive, aps_valid_until_ms = valid_until_ms\<rparr>"

definition policy_key :: "AuthoritativePolicyState \<Rightarrow> string \<times> u32" where
  "policy_key p = (aps_agent_definition_id p, aps_agent_definition_version p)"

definition policy_revoked :: "AuthoritativePolicyState \<Rightarrow> AuthoritativePolicyState" where
  "policy_revoked p = p\<lparr>aps_status := PolicyRevoked\<rparr>"

datatype AuthoritativePolicyChange =
    PolicyCreate AuthoritativePolicyState
  | PolicyUpdate u32 AuthoritativePolicyState
  | PolicyRevoke string u32 u32

definition PolicyChange_update ::
  "u32 \<Rightarrow> AuthoritativePolicyState \<Rightarrow> (ExecutionStoreErrorCode, AuthoritativePolicyChange) result" where
  "PolicyChange_update expected p =
     (if expected = 0 \<or> aps_revision p \<le> expected then Err StInvalidRequest
      else Ok (PolicyUpdate expected p))"

definition PolicyChange_revoke ::
  "string \<Rightarrow> u32 \<Rightarrow> u32 \<Rightarrow> (ExecutionStoreErrorCode, AuthoritativePolicyChange) result" where
  "PolicyChange_revoke definition_id definition_version expected =
     (if blank definition_id \<or> definition_version = 0 \<or> expected = 0 then Err StInvalidRequest
      else Ok (PolicyRevoke definition_id definition_version expected))"

fun policy_change_key :: "AuthoritativePolicyChange \<Rightarrow> string \<times> u32" where
  "policy_change_key (PolicyCreate p) = policy_key p"
| "policy_change_key (PolicyUpdate _ p) = policy_key p"
| "policy_change_key (PolicyRevoke definition_id definition_version _) =
     (definition_id, definition_version)"

fun policy_change_apply_to ::
  "AuthoritativePolicyChange \<Rightarrow> AuthoritativePolicyState option
     \<Rightarrow> (ExecutionStoreErrorCode, AuthoritativePolicyState) result" where
  "policy_change_apply_to (PolicyCreate next) None = Ok next"
| "policy_change_apply_to (PolicyUpdate expected next) (Some current) =
     (if aps_owner_id current = aps_owner_id next \<and> policy_key current = policy_key next
         \<and> aps_revision current = expected \<and> aps_revision next > aps_revision current
      then Ok next else Err StVersionConflict)"
| "policy_change_apply_to (PolicyRevoke definition_id definition_version expected) (Some current) =
     (if aps_agent_definition_id current = definition_id
         \<and> aps_agent_definition_version current = definition_version
         \<and> aps_revision current = expected
      then Ok (policy_revoked current) else Err StVersionConflict)"
| "policy_change_apply_to _ _ = Err StVersionConflict"

section \<open>Dispatch authority\<close>

record DispatchPolicyGuard =
  dpg_owner_id :: uuid
  dpg_run_id :: uuid
  dpg_agent_definition_id :: string
  dpg_agent_definition_version :: u32
  dpg_logical_invocation_id :: uuid
  dpg_capability_id :: string
  dpg_manifest_version :: u32
  dpg_canonical_argument_digest :: uuid
  dpg_policy_revision :: u32
  dpg_decision_digest :: string

definition is_allow :: "PolicyDecision \<Rightarrow> bool" where
  "is_allow d = (case d of Allow _ \<Rightarrow> True | _ \<Rightarrow> False)"

definition DispatchPolicyGuard_from_current_policy ::
  "'x store_lib_scheme \<Rightarrow> uuid \<Rightarrow> PolicyContext \<Rightarrow> AutonomyGrant list \<Rightarrow> ApprovalDecision option
     \<Rightarrow> PolicyEvaluation \<Rightarrow> (ExecutionStoreErrorCode crash, DispatchPolicyGuard) result" where
  "DispatchPolicyGuard_from_current_policy L owner c grants approval evaluation =
     (if uuid_is_nil owner \<or> pc_owner_id c \<noteq> uuid_display L owner
         \<or> \<not> is_allow (ev_decision evaluation)
      then Err (Raised StPolicyConflict)
      else case evaluate_with_approval c grants approval of
        Inl Panicked \<Rightarrow> Err Panicked
      | again \<Rightarrow>
          if again \<noteq> Ok evaluation then Err (Raised StPolicyConflict)
          else try_then (raised (ok_or (jcs_evaluation L evaluation) StPolicyConflict)) (\<lambda>digest.
            Ok \<lparr>dpg_owner_id = owner, dpg_run_id = pc_run_id c,
              dpg_agent_definition_id = pc_agent_definition_id c,
              dpg_agent_definition_version = pc_agent_definition_version c,
              dpg_logical_invocation_id = pc_logical_invocation_id c,
              dpg_capability_id = pc_capability_id c, dpg_manifest_version = pc_manifest_version c,
              dpg_canonical_argument_digest = pc_canonical_argument_digest c,
              dpg_policy_revision = pc_policy_revision c,
              dpg_decision_digest = ''sha256:'' @ hex_encode L (sha256 L digest)\<rparr>))"

definition guard_matches_attempt ::
  "DispatchPolicyGuard \<Rightarrow> uuid \<Rightarrow> InvocationAttemptRecord \<Rightarrow> bool" where
  "guard_matches_attempt g owner a \<longleftrightarrow>
     dpg_owner_id g = owner \<and> dpg_run_id g = lib_run_id (iar_invocation a) \<and>
     dpg_logical_invocation_id g = lib_id (iar_invocation a) \<and>
     dpg_capability_id g = lib_capability_id (iar_invocation a) \<and>
     dpg_manifest_version g = lib_manifest_version (iar_invocation a) \<and>
     dpg_canonical_argument_digest g = lib_canonical_argument_digest (iar_invocation a) \<and>
     dpg_decision_digest g \<noteq> []"

definition policy_validates :: "AuthoritativePolicyState \<Rightarrow> DispatchPolicyGuard \<Rightarrow> u64 \<Rightarrow> bool" where
  "policy_validates p g now_ms \<longleftrightarrow>
     aps_owner_id p = dpg_owner_id g \<and> aps_agent_definition_id p = dpg_agent_definition_id g \<and>
     aps_agent_definition_version p = dpg_agent_definition_version g \<and>
     aps_revision p = dpg_policy_revision g \<and> aps_status p = PolicyActive \<and>
     is_none_or (aps_valid_until_ms p) (\<lambda>until. now_ms < until)"

record DispatchGrantMutation =
  dgm_owner_id :: uuid
  dgm_run_id :: uuid
  dgm_logical_invocation_id :: uuid
  dgm_capability_id :: string
  dgm_canonical_argument_digest :: uuid
  dgm_policy_revision :: u32
  dgm_consumption :: GrantConsumption
  dgm_authority_binding :: GrantAuthorityBinding
  dgm_remaining_uses :: u32

definition DispatchGrantMutation_from_current_policy ::
  "'x store_lib_scheme \<Rightarrow> uuid \<Rightarrow> PolicyContext \<Rightarrow> AutonomyGrant list \<Rightarrow> PolicyEvaluation
     \<Rightarrow> (ExecutionStoreErrorCode crash, DispatchGrantMutation option) result" where
  "DispatchGrantMutation_from_current_policy L owner c grants evaluation =
     (case ev_consumption evaluation of
        None \<Rightarrow> Ok None
      | Some consumption \<Rightarrow>
          if uuid_is_nil owner \<or> pc_owner_id c \<noteq> uuid_display L owner \<or> uuid_is_nil (pc_run_id c)
             \<or> pc_logical_invocation_id c \<noteq> gc_logical_invocation_id consumption
             \<or> uuid_is_nil (pc_canonical_argument_digest c) \<or> pc_policy_revision c = 0
          then Err (Raised StGrantConflict)
          else case evaluate c grants of
            Inl Panicked \<Rightarrow> Err Panicked
          | again \<Rightarrow>
              if again \<noteq> Ok evaluation then Err (Raised StGrantConflict)
              else raised (try_then (ok_or (find (\<lambda>g. ag_id g = gc_grant_id consumption
                  \<and> ag_revision g = gc_grant_revision consumption) grants) StGrantConflict) (\<lambda>grant.
                if ag_effect grant \<noteq> AutoAllow then Err StGrantConflict
                else try_then (case ag_remaining_uses grant of
                    None \<Rightarrow> Err StGrantConflict
                  | Some n \<Rightarrow> if n > 0 then Ok n else Err StGrantConflict) (\<lambda>remaining_uses.
                try_then (map_err store_err (GrantAuthorityBinding_from_grant L grant)) (\<lambda>binding.
                if \<not> matches_consumption L binding consumption then Err StGrantConflict
                else Ok (Some \<lparr>dgm_owner_id = owner, dgm_run_id = pc_run_id c,
                  dgm_logical_invocation_id = pc_logical_invocation_id c,
                  dgm_capability_id = pc_capability_id c,
                  dgm_canonical_argument_digest = pc_canonical_argument_digest c,
                  dgm_policy_revision = pc_policy_revision c, dgm_consumption = consumption,
                  dgm_authority_binding = binding, dgm_remaining_uses = remaining_uses\<rparr>))))))"

definition grant_matches_attempt ::
  "DispatchGrantMutation \<Rightarrow> uuid \<Rightarrow> InvocationAttemptRecord \<Rightarrow> bool" where
  "grant_matches_attempt d owner a \<longleftrightarrow>
     dgm_owner_id d = owner \<and> dgm_run_id d = lib_run_id (iar_invocation a) \<and>
     dgm_logical_invocation_id d = lib_id (iar_invocation a) \<and>
     dgm_capability_id d = lib_capability_id (iar_invocation a) \<and>
     dgm_canonical_argument_digest d = lib_canonical_argument_digest (iar_invocation a) \<and>
     dgm_policy_revision d > 0"

section \<open>Requests and stored runs\<close>

record CreateRun =
  crq_owner_id :: uuid
  crq_session :: Session
  crq_run :: Run
  crq_expected_session_version :: u64
  crq_concurrency_policy :: SessionConcurrencyPolicy
  crq_initial_input :: DurableRunInput

definition CreateRun_new_for_owner ::
  "uuid \<Rightarrow> Session \<Rightarrow> Run \<Rightarrow> u64 \<Rightarrow> SessionConcurrencyPolicy \<Rightarrow> CreateRun" where
  "CreateRun_new_for_owner owner session run expected policy =
     \<lparr>crq_owner_id = owner, crq_session = session, crq_run = run,
      crq_expected_session_version = expected, crq_concurrency_policy = policy,
      crq_initial_input = DurableRunInput_empty owner (se_id session) (run_id run)\<rparr>"

definition with_initial_input ::
  "CreateRun \<Rightarrow> DurableRunInput \<Rightarrow> (ExecutionStoreErrorCode, CreateRun) result" where
  "with_initial_input q i =
     try_then (DurableRunInput_validate i) (\<lambda>_.
     if dri_owner_id i \<noteq> crq_owner_id q \<or> dri_session_id i \<noteq> se_id (crq_session q)
        \<or> dri_run_id i \<noteq> run_id (crq_run q)
     then Err StInvalidRequest else Ok (q\<lparr>crq_initial_input := i\<rparr>))"

record RetryRequest =
  rtq_command_id :: uuid
  rtq_source_run_id :: uuid
  rtq_new_run_id :: uuid

definition RetryRun_new ::
  "uuid \<Rightarrow> uuid \<Rightarrow> uuid \<Rightarrow> (ExecutionStoreErrorCode, RetryRequest) result" where
  "RetryRun_new command source new_run =
     (if uuid_is_nil command \<or> uuid_is_nil source \<or> uuid_is_nil new_run \<or> source = new_run
      then Err StInvalidRequest
      else Ok \<lparr>rtq_command_id = command, rtq_source_run_id = source, rtq_new_run_id = new_run\<rparr>)"

record StoredRun =
  sr_owner_id :: uuid
  sr_run :: Run
  sr_run_version :: u64
  sr_session_version :: u64
  sr_initial_input :: DurableRunInput

definition StoredRun_new_with_initial_input ::
  "uuid \<Rightarrow> Run \<Rightarrow> u64 \<Rightarrow> u64 \<Rightarrow> DurableRunInput \<Rightarrow> (ExecutionStoreErrorCode, StoredRun) result" where
  "StoredRun_new_with_initial_input owner run run_version session_version i =
     (if uuid_is_nil owner \<or> run_version = 0 \<or> session_version = 0 then Err StInvalidRequest
      else try_then (DurableRunInput_validate i) (\<lambda>_.
        if dri_owner_id i \<noteq> owner \<or> dri_session_id i \<noteq> run_session_id run
           \<or> dri_run_id i \<noteq> run_id run
        then Err StInvalidRequest
        else Ok \<lparr>sr_owner_id = owner, sr_run = run, sr_run_version = run_version,
          sr_session_version = session_version, sr_initial_input = i\<rparr>))"

record RetryRunOutcome =
  rro_source_run_id :: uuid
  rro_run :: StoredRun
  rro_receipt :: CommandReceipt

definition RetryRunOutcome_new ::
  "uuid \<Rightarrow> StoredRun \<Rightarrow> CommandReceipt \<Rightarrow> (ExecutionStoreErrorCode, RetryRunOutcome) result" where
  "RetryRunOutcome_new source stored receipt =
     (if uuid_is_nil source \<or> source = run_id (sr_run stored) then Err StInvalidRequest
      else Ok \<lparr>rro_source_run_id = source, rro_run = stored, rro_receipt = receipt\<rparr>)"

section \<open>Commits\<close>

record DurableResultMutation =
  drm_completed :: CompletedInvocationRecord
  drm_result :: DurableCapabilityResult

datatype CheckpointMutation = Unchanged | Replace CheckpointV1 | Clear

text \<open>An \<open>ApprovalGrantMutation\<close> wraps an approval claim; the commit holds the claim directly.\<close>

record ExecutionCommit =
  ec_expected_run_version :: u64
  ec_expected_checkpoint_version :: u64
  ec_lease :: ExecutionLease
  ec_command :: RuntimeCommand
  ec_events :: "RuntimeEvent list"
  ec_steps :: "Step list"
  ec_attempts :: "InvocationAttemptRecord list"
  ec_results :: "DurableResultMutation list"
  ec_approval :: "ApprovalResumeClaim option"
  ec_policy_guard :: "DispatchPolicyGuard option"
  ec_dispatch_grant :: "DispatchGrantMutation option"
  ec_checkpoint :: CheckpointMutation
  ec_target_run :: Run

definition MAX_COMMIT_EVENTS :: nat where "MAX_COMMIT_EVENTS = 256"
definition MAX_COMMIT_STEPS :: nat where "MAX_COMMIT_STEPS = 128"
definition MAX_COMMIT_ATTEMPTS :: nat where "MAX_COMMIT_ATTEMPTS = 256"
definition MAX_COMMIT_RESULTS :: nat where "MAX_COMMIT_RESULTS = 128"
definition MAX_COMMIT_BATCH_ITEMS :: nat where "MAX_COMMIT_BATCH_ITEMS = 512"
definition MAX_COMMIT_CHECKPOINT_BYTES :: nat where "MAX_COMMIT_CHECKPOINT_BYTES = 1048576"

text \<open>The sum of four lengths bounded above cannot overflow a \<open>usize\<close>.\<close>

definition validate_bounds ::
  "'x store_lib_scheme \<Rightarrow> ExecutionCommit \<Rightarrow> (ExecutionStoreErrorCode, unit) result" where
  "validate_bounds L c =
     (if length (ec_events c) > MAX_COMMIT_EVENTS \<or> length (ec_steps c) > MAX_COMMIT_STEPS
         \<or> length (ec_attempts c) > MAX_COMMIT_ATTEMPTS \<or> length (ec_results c) > MAX_COMMIT_RESULTS
      then Err StBoundsExceeded
      else if length (ec_events c) + length (ec_steps c) + length (ec_attempts c)
             + length (ec_results c) > MAX_COMMIT_BATCH_ITEMS
         \<or> (case ec_checkpoint c of
              Replace checkpoint \<Rightarrow>
                is_none_or (jcs_checkpoint L checkpoint)
                  (\<lambda>bytes. length bytes > MAX_COMMIT_CHECKPOINT_BYTES)
            | _ \<Rightarrow> False)
      then Err StBoundsExceeded else Ok ())"

record ExecutionCommitOutcome =
  eco_stored_run :: StoredRun
  eco_receipt :: CommandReceipt
  eco_checkpoint_version :: u64
  eco_checkpoint :: "CheckpointV1 option"
  eco_grant_consumption :: "GrantConsumption option"

end
