(* ===== verification/Memory_Store.thy ===== *)
theory Memory_Store
  imports Store Ordered_Map
begin

text \<open>
  The in-process execution store, \<open>anima-core/src/execution/memory_store.rs\<close>: its state and the
  operations of \<open>impl ExecutionStore for InMemoryExecutionStore\<close>. Each operation runs under the
  store's lock, so it is a function from the state to the answer and the next state; the clock's
  \<open>now_ms\<close> and fresh identifiers are arguments. Maps that are only looked up are functions to
  \<open>option\<close>, maps that are iterated or counted are ordered lists.
\<close>

section \<open>State\<close>

record StoredSession =
  ss_version :: u64
  ss_owner_id :: uuid
  ss_definition :: DefinitionPin
  ss_policy :: SessionConcurrencyPolicy

record StoredDurableResult =
  sdr_completed :: CompletedInvocationRecord
  sdr_result :: DurableCapabilityResult

record RunAggregate =
  ra_stored :: StoredRun
  ra_lease :: "ExecutionLease option"
  ra_checkpoint_version :: u64
  ra_checkpoint :: "CheckpointV1 option"
  ra_events :: "RuntimeEvent list"
  ra_steps :: "string \<rightharpoonup> Step"
  ra_step_order :: "(u64 \<times> string) list"
  ra_next_step_sequence :: u64
  ra_attempts :: "((uuid \<times> u32) \<times> InvocationAttemptRecord) list"
  ra_attempt_order :: "(u64 \<times> uuid \<times> u32) list"
  ra_next_attempt_sequence :: u64
  ra_attempts_fingerprint :: HistoryFingerprint
  ra_results :: "(uuid \<times> StoredDurableResult) list"
  ra_completed_fingerprint :: HistoryFingerprint

record CommandIndexRecord =
  cix_session_id :: uuid
  cix_run_id :: uuid
  cix_kind :: RuntimeCommandKind
  cix_payload_digest :: uuid

record ApprovalIndexRecord =
  aix_run_id :: uuid
  aix_requested_at_ms :: i64
  aix_expires_at_ms :: i64
  aix_decision_command_id :: "uuid option"
  aix_decision_kind :: "ApprovalDecisionKind option"
  aix_decided_at_ms :: "i64 option"

type_synonym consumption_key = "uuid \<times> string \<times> u32 \<times> uuid"

record State =
  sessions :: "(uuid \<times> uuid) \<rightharpoonup> StoredSession"
  runs :: "(uuid \<times> uuid) \<rightharpoonup> RunAggregate"
  serial_claims :: "(uuid \<times> uuid) \<rightharpoonup> uuid"
  receipts :: "(uuid \<times> uuid) \<rightharpoonup> CommandReceipt"
  commands :: "(uuid \<times> uuid) \<rightharpoonup> CommandIndexRecord"
  outcomes :: "(uuid \<times> uuid) \<rightharpoonup> ExecutionCommitOutcome"
  authoritative_grants :: "(uuid \<times> string) \<rightharpoonup> AuthoritativeGrantState"
  authoritative_policies :: "(uuid \<times> string \<times> u32) \<rightharpoonup> AuthoritativePolicyState"
  grant_consumptions :: "consumption_key set"
  approvals :: "(uuid \<times> uuid) \<rightharpoonup> ApprovalIndexRecord"

definition State_default :: State where
  "State_default = \<lparr>sessions = Map.empty, runs = Map.empty, serial_claims = Map.empty,
     receipts = Map.empty, commands = Map.empty, outcomes = Map.empty,
     authoritative_grants = Map.empty, authoritative_policies = Map.empty,
     grant_consumptions = {}, approvals = Map.empty\<rparr>"

text \<open>What an operation returns: its answer, which may be an error or a panic, and the state after it.\<close>

type_synonym 'a answer = "(ExecutionStoreErrorCode crash, 'a) result \<times> State"

abbreviation fails :: "ExecutionStoreErrorCode \<Rightarrow> State \<Rightarrow> 'a answer" where
  "fails e s \<equiv> (Err (Raised e), s)"

section \<open>Policies and grants\<close>

definition apply_authoritative_policy ::
  "State \<Rightarrow> uuid \<Rightarrow> AuthoritativePolicyChange \<Rightarrow> AuthoritativePolicyState answer" where
  "apply_authoritative_policy s owner change =
     (if uuid_is_nil owner then fails StInvalidRequest s
      else let key = (owner, policy_change_key change) in
        case policy_change_apply_to change (authoritative_policies s key) of
          Inl e \<Rightarrow> fails e s
        | Inr next \<Rightarrow>
            if aps_owner_id next \<noteq> owner then fails StInvalidRequest s
            else (Ok next, s\<lparr>authoritative_policies := (authoritative_policies s)(key \<mapsto> next)\<rparr>))"

definition apply_authoritative_grant ::
  "State \<Rightarrow> uuid \<Rightarrow> AuthoritativeGrantChange \<Rightarrow> AuthoritativeGrantState answer" where
  "apply_authoritative_grant s owner change =
     (if uuid_is_nil owner
         \<or> is_some_and (grant_change_new_state change) (\<lambda>next. ags_owner_id next \<noteq> owner)
      then fails StInvalidRequest s
      else case grant_change_apply_to change
          (authoritative_grants s (owner, grant_change_authority_key change)) of
        Inl e \<Rightarrow> fails e s
      | Inr next \<Rightarrow> (Ok next, s\<lparr>authoritative_grants :=
          (authoritative_grants s)((owner, ags_authority_key next) \<mapsto> next)\<rparr>))"

section \<open>Creating and retrying runs\<close>

definition new_aggregate :: "StoredRun \<Rightarrow> RunAggregate" where
  "new_aggregate stored =
     \<lparr>ra_stored = stored, ra_lease = None, ra_checkpoint_version = 0, ra_checkpoint = None,
      ra_events = [], ra_steps = Map.empty, ra_step_order = [], ra_next_step_sequence = 1,
      ra_attempts = [], ra_attempt_order = [], ra_next_attempt_sequence = 1,
      ra_attempts_fingerprint = replicate 32 0, ra_results = [],
      ra_completed_fingerprint = replicate 32 0\<rparr>"

text \<open>The version the session gets, from the match on the stored session.\<close>

definition next_session_version ::
  "StoredSession option \<Rightarrow> CreateRun \<Rightarrow> (ExecutionStoreErrorCode, u64) result" where
  "next_session_version stored q =
     (case stored of
        Some current \<Rightarrow>
          if ss_version current = crq_expected_session_version q
             \<and> ss_owner_id current = crq_owner_id q
             \<and> ss_definition current = se_definition (crq_session q)
             \<and> ss_policy current = crq_concurrency_policy q
          then ok_or (checked_add (ss_version current) 1) StArithmeticOverflow
          else if ss_owner_id current \<noteq> crq_owner_id q
             \<or> ss_definition current \<noteq> se_definition (crq_session q)
          then Err StInvalidRequest
          else Err StVersionConflict
      | None \<Rightarrow> if crq_expected_session_version q = 0 then Ok 1 else Err StVersionConflict)"

text \<open>
  The session and the claim are written before the stored run is built, so a failure there would
  leave them behind.
\<close>

definition create_run :: "State \<Rightarrow> uuid \<Rightarrow> CreateRun \<Rightarrow> StoredRun answer" where
  "create_run s owner q =
     (let session = crq_session q; run = crq_run q; policy = crq_concurrency_policy q in
      if uuid_is_nil owner \<or> crq_owner_id q \<noteq> owner \<or> run_state run \<noteq> Queued
         \<or> run_session_id run \<noteq> se_id session
         \<or> run_definition_id run \<noteq> dp_id (se_definition session)
         \<or> run_definition_version run \<noteq> dp_version (se_definition session)
         \<or> Session_concurrency session \<noteq> Ok policy
      then fails StInvalidRequest s
      else if runs s (owner, run_id run) \<noteq> None then fails StVersionConflict s
      else let session_key = (owner, se_id session) in
      case next_session_version (sessions s session_key) q of
        Inl e \<Rightarrow> fails e s
      | Inr session_version \<Rightarrow>
          if policy = Serial \<and> serial_claims s session_key \<noteq> None then fails StActiveRunConflict s
          else
            let s1 = s\<lparr>sessions := (sessions s)(session_key \<mapsto>
                  \<lparr>ss_version = session_version, ss_owner_id = crq_owner_id q,
                   ss_definition = se_definition session, ss_policy = policy\<rparr>)\<rparr>;
                s2 = (if policy = Serial
                  then s1\<lparr>serial_claims := (serial_claims s1)(session_key \<mapsto> run_id run)\<rparr> else s1)
            in case StoredRun_new_with_initial_input owner run 1 session_version
                (crq_initial_input q) of
              Inl e \<Rightarrow> fails e s2
            | Inr stored \<Rightarrow>
                (Ok stored, s2\<lparr>runs := (runs s2)((owner, run_id run) \<mapsto> new_aggregate stored)\<rparr>))"

text \<open>The answer to a retry command that was seen before. The digest of a command panics when its
  payload cannot be encoded, and is compared last.\<close>

definition retry_replay ::
  "'x store_lib_scheme \<Rightarrow> State \<Rightarrow> uuid \<Rightarrow> RetryRequest \<Rightarrow> RuntimeCommand \<Rightarrow> CommandIndexRecord
     \<Rightarrow> (ExecutionStoreErrorCode crash, RetryRunOutcome) result" where
  "retry_replay L s owner q command existing =
     (if cix_session_id existing \<noteq> cmd_session_id command \<or> cix_run_id existing \<noteq> rtq_source_run_id q
         \<or> cix_kind existing \<noteq> CmdRetry
      then Err (Raised StCommandConflict)
      else try_then (map_raised store_err (command_digest L command)) (\<lambda>digest.
        if cix_payload_digest existing \<noteq> digest then Err (Raised StCommandConflict)
        else raised (try_then (ok_or (runs s (owner, rtq_new_run_id q)) StHistoryConflict) (\<lambda>run.
          try_then (ok_or (receipts s (owner, rtq_command_id q)) StHistoryConflict) (\<lambda>receipt.
          RetryRunOutcome_new (rtq_source_run_id q) (ra_stored run) receipt)))))"

text \<open>The checks of a first retry: the session, its next version and the run to store.\<close>

definition retry_prepare ::
  "State \<Rightarrow> uuid \<Rightarrow> RetryRequest \<Rightarrow> StoredRun
     \<Rightarrow> (ExecutionStoreErrorCode, StoredSession \<times> u64 \<times> StoredRun) result" where
  "retry_prepare s owner q source =
     (let run = sr_run source; session_id = run_session_id run; session_key = (owner, session_id) in
      if runs s (owner, rtq_new_run_id q) \<noteq> None then Err StVersionConflict
      else try_then (ok_or (sessions s session_key) StNotFound) (\<lambda>session.
      if dp_id (ss_definition session) \<noteq> run_definition_id run
         \<or> dp_version (ss_definition session) \<noteq> run_definition_version run
         \<or> ss_policy session = Serial \<and> serial_claims s session_key \<noteq> None
      then Err StActiveRunConflict
      else try_then (ok_or (checked_add (ss_version session) 1) StArithmeticOverflow) (\<lambda>session_version.
      try_then (map_err store_err (run_queued (rtq_new_run_id q) session_id
        (run_definition_id run) (run_definition_version run))) (\<lambda>new_run.
      try_then (DurableRunInput_text owner session_id (rtq_new_run_id q)
        (dri_text (sr_initial_input source))) (\<lambda>input.
      try_then (StoredRun_new_with_initial_input owner new_run 1 session_version input) (\<lambda>stored.
      Ok (session, session_version, stored)))))))"

text \<open>
  What a first retry writes. The session, the claim and the run are written before the receipt is
  made, so a panic there leaves them behind; the digest of the receipt is the command's.
\<close>

definition retry_fresh ::
  "'x store_lib_scheme \<Rightarrow> State \<Rightarrow> uuid \<Rightarrow> RetryRequest \<Rightarrow> RunAggregate \<Rightarrow> RuntimeCommand
     \<Rightarrow> RetryRunOutcome answer" where
  "retry_fresh L s owner q source command =
     (let session_id = run_session_id (sr_run (ra_stored source));
          session_key = (owner, session_id); command_key = (owner, rtq_command_id q) in
      case retry_prepare s owner q (ra_stored source) of
        Inl e \<Rightarrow> fails e s
      | Inr (session, session_version, stored) \<Rightarrow>
          let s1 = s\<lparr>
            sessions := (sessions s)(session_key \<mapsto> session\<lparr>ss_version := session_version\<rparr>),
            serial_claims := (if ss_policy session = Serial
              then (serial_claims s)(session_key \<mapsto> rtq_new_run_id q) else serial_claims s),
            runs := (runs s)((owner, rtq_new_run_id q) \<mapsto> new_aggregate stored)\<rparr>
          in case map_raised store_err (CommandReceipt_new L command Accepted) of
            Inl e \<Rightarrow> (Err e, s1)
          | Inr receipt \<Rightarrow>
              (raised (RetryRunOutcome_new (rtq_source_run_id q) stored receipt), s1\<lparr>
                receipts := (receipts s1)(command_key \<mapsto> receipt),
                outcomes := (outcomes s1)(command_key \<mapsto> \<lparr>eco_stored_run = ra_stored source,
                  eco_receipt = receipt, eco_checkpoint_version = ra_checkpoint_version source,
                  eco_checkpoint = None, eco_grant_consumption = None\<rparr>),
                commands := (commands s1)(command_key \<mapsto> \<lparr>cix_session_id = session_id,
                  cix_run_id = rtq_source_run_id q, cix_kind = CmdRetry,
                  cix_payload_digest = cr_payload_digest receipt\<rparr>)\<rparr>))"

definition retry_run ::
  "'x store_lib_scheme \<Rightarrow> State \<Rightarrow> uuid \<Rightarrow> RetryRequest \<Rightarrow> RetryRunOutcome answer" where
  "retry_run L s owner q =
     (if uuid_is_nil owner then fails StInvalidRequest s
      else case runs s (owner, rtq_source_run_id q) of
        None \<Rightarrow> fails StNotFound s
      | Some source \<Rightarrow>
          let run = sr_run (ra_stored source) in
          if run_state run \<notin> {RunFailed, RunCancelled} then fails StInvalidRequest s
          else case RuntimeCommand_new (rtq_command_id q) (run_session_id run)
              (RetryRun (rtq_source_run_id q) (rtq_new_run_id q)) of
            Inl e \<Rightarrow> fails (store_err e) s
          | Inr command \<Rightarrow>
              (case commands s (owner, rtq_command_id q) of
                 Some existing \<Rightarrow> (retry_replay L s owner q command existing, s)
               | None \<Rightarrow> retry_fresh L s owner q source command))"

section \<open>Leases\<close>

definition set_lease :: "State \<Rightarrow> uuid \<times> uuid \<Rightarrow> RunAggregate \<Rightarrow> ExecutionLease \<Rightarrow> State" where
  "set_lease s key a lease = s\<lparr>runs := (runs s)(key \<mapsto> a\<lparr>ra_lease := Some lease\<rparr>)\<rparr>"

definition store_acquire_lease ::
  "State \<Rightarrow> uuid \<Rightarrow> uuid \<Rightarrow> u64 \<Rightarrow> u64 \<Rightarrow> uuid \<Rightarrow> u64 \<Rightarrow> ExecutionLease answer" where
  "store_acquire_lease s owner run expected_run_version duration_ms new_v4 now_ms =
     (if duration_ms = 0 then fails StInvalidRequest s
      else case runs s (owner, run) of
        None \<Rightarrow> fails StNotFound s
      | Some a \<Rightarrow>
          if sr_run_version (ra_stored a) \<noteq> expected_run_version then fails StVersionConflict s
          else if is_terminal (run_state (sr_run (ra_stored a))) then fails StInvalidRequest s
          else if is_some_and (ra_lease a) (\<lambda>l. el_expires_at_ms l > now_ms)
          then fails StLeaseConflict s
          else case checked_add now_ms duration_ms of
            None \<Rightarrow> fails StArithmeticOverflow s
          | Some expires \<Rightarrow>
              (case ExecutionLease_new run new_v4 expires of
                 Inl e \<Rightarrow> fails (store_err e) s
               | Inr lease \<Rightarrow> (Ok lease, set_lease s (owner, run) a lease)))"

definition store_renew_lease ::
  "State \<Rightarrow> uuid \<Rightarrow> ExecutionLease \<Rightarrow> u64 \<Rightarrow> u64 \<Rightarrow> ExecutionLease answer" where
  "store_renew_lease s owner lease duration_ms now_ms =
     (if duration_ms = 0 then fails StInvalidRequest s
      else case runs s (owner, el_run_id lease) of
        None \<Rightarrow> fails StNotFound s
      | Some a \<Rightarrow>
          if ra_lease a \<noteq> Some lease then fails StLeaseExpired s
          else if el_expires_at_ms lease \<le> now_ms then fails StLeaseExpired s
          else case checked_add now_ms duration_ms of
            None \<Rightarrow> fails StArithmeticOverflow s
          | Some expires \<Rightarrow>
              (case ExecutionLease_new (el_run_id lease) (el_fence lease) expires of
                 Inl e \<Rightarrow> fails (store_err e) s
               | Inr renewed \<Rightarrow> (Ok renewed, set_lease s (owner, el_run_id lease) a renewed)))"

section \<open>Which commands move a run where\<close>

definition ok_and :: "('e, 'a) result \<Rightarrow> ('a \<Rightarrow> bool) \<Rightarrow> bool" where
  "ok_and r p = (case r of Inl _ \<Rightarrow> False | Inr x \<Rightarrow> p x)"

definition dispatching :: "InvocationAttemptRecord list \<Rightarrow> InvocationAttemptRecord list" where
  "dispatching as = filter (\<lambda>a. iar_state a = AttemptDispatching) as"

text \<open>\<open>attempt\<close> is the uncertain attempt that \<open>pause\<close> is about.\<close>

definition pause_attempt :: "RecoveryPauseRecord \<Rightarrow> InvocationAttemptRecord \<Rightarrow> bool" where
  "pause_attempt pause a \<longleftrightarrow>
     iar_invocation a = rpr_invocation pause \<and> iar_attempt_number a = rpr_attempt_number pause \<and>
     iar_state a = AttemptUncertain \<and> iar_manifest a = rpr_manifest pause \<and>
     iar_recovery_mode a = mp_recovery_mode (rpr_manifest pause)"

text \<open>\<open>attempt\<close> is the pending retry that a resume binding authorises.\<close>

definition retry_attempt :: "RecoveryResumeBinding \<Rightarrow> InvocationAttemptRecord \<Rightarrow> bool" where
  "retry_attempt b a \<longleftrightarrow>
     lib_id (iar_invocation a) = rrb_logical_invocation_id b \<and>
     iar_attempt_number a = rrb_retry_attempt_number b \<and> iar_state a = AttemptPending \<and>
     mp_id (iar_manifest a) = rrb_manifest_id b \<and> mp_version (iar_manifest a) = rrb_manifest_version b \<and>
     mp_schema_digest (iar_manifest a) = rrb_manifest_digest b \<and>
     iar_recovery_mode a = rrb_recovery_mode b"

definition valid_command_transition ::
  "Run \<Rightarrow> Run \<Rightarrow> RuntimeCommand \<Rightarrow> ApprovalResumeClaim option \<Rightarrow> DispatchGrantMutation option
     \<Rightarrow> InvocationAttemptRecord list \<Rightarrow> bool" where
  "valid_command_transition current target command approval dispatch_grant attempts \<longleftrightarrow>
     run_id current = run_id target \<and> run_session_id current = run_session_id target \<and>
     run_definition_id current = run_definition_id target \<and>
     run_definition_version current = run_definition_version target \<and>
     cmd_session_id command = run_session_id current \<and> target_run_id command = run_id current \<and>
     \<not> is_terminal (run_state current) \<and>
     (dispatching attempts \<noteq> [] \<longrightarrow> command_kind command \<in> {CmdPrepareDispatch, CmdResumeApproval}) \<and>
     (case command_kind command of
        CmdStart \<Rightarrow> approval = None \<and> run_state current = Queued \<and> run_state target = Running
      | CmdRecordProgress \<Rightarrow>
          approval = None \<and> dispatch_grant = None \<and> dispatching attempts = [] \<and>
          run_state current = Running \<and> current = target
      | CmdPrepareDispatch \<Rightarrow>
          approval = None \<and> length (dispatching attempts) = 1 \<and>
          run_state current = Running \<and> current = target
      | CmdRequestApproval \<Rightarrow>
          approval = None \<and> is_some_and (command_approval_request command) (\<lambda>request.
            ok_and (wait_for_approval current request) (\<lambda>expected. expected = target))
      | CmdRequireRecovery \<Rightarrow>
          approval = None \<and> is_some_and (command_recovery_record command) (\<lambda>recovery.
            list_ex (pause_attempt (uir_pause recovery)) attempts \<and>
            ok_and (require_recovery current recovery) (\<lambda>expected. expected = target))
      | CmdPause \<Rightarrow>
          approval = None \<and> is_some_and (command_pause_reason command) (\<lambda>why.
            ok_and (transition current Paused (Some why)) (\<lambda>expected. expected = target))
      | CmdResume \<Rightarrow>
          approval = None \<and> dispatch_grant = None \<and> dispatching attempts = [] \<and>
          ok_and (run_resume current) (\<lambda>expected. expected = target)
      | CmdRetry \<Rightarrow> False
      | CmdResumeApproval \<Rightarrow>
          ok_and (apply_resume_command current command approval None) (\<lambda>out. fst out = target)
      | CmdResumeRecovery \<Rightarrow>
          approval = None \<and> run_state current = RecoveryRequired \<and>
          is_some_and (run_recovery_pause current) (\<lambda>pause.
            is_some_and (command_recovery_binding command) (\<lambda>binding.
              run_recovery_binding current = Some binding \<and> matches_resume_binding pause binding \<and>
              list_ex (retry_attempt binding) attempts)) \<and>
          run_state target = Running \<and> run_pause_reason target = None \<and>
          run_pending_approval target = None \<and> run_recovery_pause target = None
      | CmdComplete \<Rightarrow>
          approval = None \<and> ok_and (transition current RunCompleted None) (\<lambda>expected. expected = target)
      | CmdFail \<Rightarrow>
          approval = None \<and> (case run_state current of
              Running \<Rightarrow> ok_and (transition current RunFailed None) (\<lambda>expected. expected = target)
            | RecoveryRequired \<Rightarrow>
                ok_and (resolve_recovery_terminal current ResolveFail) (\<lambda>out. fst out = target)
            | _ \<Rightarrow> False)
      | CmdCancel \<Rightarrow>
          approval = None \<and> ok_and (cancel_at_boundary current) (\<lambda>expected. expected = target))"

section \<open>Building a commit\<close>

text \<open>
  \<open>build_commit_patch\<close> checks a commit against the state and collects what it changes; the state is
  not touched. Its blocks are the definitions below, in the order of the code.
\<close>

text \<open>A prepared retry brings exactly the uncertain attempt and its successor.\<close>

definition prepare_dispatch_lineage :: "ExecutionCommit \<Rightarrow> (ExecutionStoreErrorCode, unit) result" where
  "prepare_dispatch_lineage c =
     (if command_kind (ec_command c) \<noteq> CmdPrepareDispatch then Ok ()
      else case command_recovery_record (ec_command c) of
        None \<Rightarrow> Ok ()
      | Some recovery \<Rightarrow>
          let pause = uir_pause recovery in
          try_then (ok_or (checked_add (rpr_attempt_number pause) 1) StLineageConflict) (\<lambda>retry_number.
          reject_if (length (ec_attempts c) \<noteq> 2
              \<or> length (filter (pause_attempt pause) (ec_attempts c)) \<noteq> 1
              \<or> length (filter (\<lambda>a. iar_state a = AttemptDispatching
                    \<and> iar_invocation a = rpr_invocation pause \<and> iar_attempt_number a = retry_number
                    \<and> iar_manifest a = rpr_manifest pause
                    \<and> iar_recovery_mode a = mp_recovery_mode (rpr_manifest pause))
                  (ec_attempts c)) \<noteq> 1)
            StLineageConflict))"

text \<open>A dispatch needs a guard for it and the store's own active policy at the guard's revision.\<close>

definition dispatch_policy_gate ::
  "State \<Rightarrow> uuid \<Rightarrow> ExecutionCommit \<Rightarrow> u64 \<Rightarrow> (ExecutionStoreErrorCode, unit) result" where
  "dispatch_policy_gate s owner c now_ms =
     (case (dispatching (ec_attempts c), ec_policy_guard c) of
        ([attempt], Some guard) \<Rightarrow>
          if guard_matches_attempt guard owner attempt
          then try_then (ok_or (authoritative_policies s (owner, dpg_agent_definition_id guard,
              dpg_agent_definition_version guard)) StPolicyConflict) (\<lambda>authority.
            reject_if (\<not> policy_validates authority guard now_ms) StPolicyConflict)
          else Err StPolicyConflict
      | ([], None) \<Rightarrow> Ok ()
      | _ \<Rightarrow> Err StPolicyConflict)"

text \<open>\<open>u64::try_from(len)\<close>.\<close>

definition u64_from :: "nat \<Rightarrow> (ExecutionStoreErrorCode, u64) result" where
  "u64_from n = (if n < 2 ^ 64 then Ok (of_nat n) else Err StArithmeticOverflow)"

text \<open>The events must continue the history of the run; the last sequence number is returned.\<close>

definition event_window ::
  "State \<Rightarrow> uuid \<Rightarrow> RunAggregate \<Rightarrow> ExecutionCommit
     \<Rightarrow> (ExecutionStoreErrorCode, StoredSession \<times> u64) result" where
  "event_window s owner a c =
     try_then (u64_from (length (ra_events a))) (\<lambda>current.
     try_then (ok_or (checked_add current 1) StArithmeticOverflow) (\<lambda>first_sequence.
     try_then (u64_from (length (ec_events c))) (\<lambda>count.
     try_then (ok_or (checked_add current count) StArithmeticOverflow) (\<lambda>last_sequence.
     try_then (map_err (\<lambda>_. StEventConflict) (validate_batch first_sequence (ec_events c))) (\<lambda>_.
     let session_id = run_session_id (sr_run (ra_stored a)) in
     try_then (ok_or (sessions s (owner, session_id)) StNotFound) (\<lambda>session.
     if list_ex (\<lambda>e. ev_owner_id e \<noteq> ss_owner_id session \<or> ev_run_id e \<noteq> el_run_id (ec_lease c)
          \<or> ev_session_id e \<noteq> session_id) (ec_events c)
     then Err StEventConflict else Ok (session, last_sequence)))))))"

definition checkpoint_header_conflict ::
  "RunAggregate \<Rightarrow> ExecutionCommit \<Rightarrow> u64 \<Rightarrow> CheckpointV1 \<Rightarrow> bool" where
  "checkpoint_header_conflict a c last_sequence k \<longleftrightarrow>
     (let run = sr_run (ra_stored a); target = ec_target_run c in
      cw_run_id k \<noteq> el_run_id (ec_lease c) \<or> cw_session_id k \<noteq> run_session_id run
      \<or> dp_id (cw_definition k) \<noteq> run_definition_id run
      \<or> dp_version (cw_definition k) \<noteq> run_definition_version run
      \<or> cw_state k \<noteq> run_state target \<or> cw_pause_reason k \<noteq> run_pause_reason target
      \<or> map_option par_request (cw_pending_approval k) \<noteq> run_pending_approval target
      \<or> run_state target = RecoveryRequired \<and> \<not> list_ex (\<lambda>r. run_recovery_pause target = Some (uir_pause r)
          \<and> run_recovery_binding target = uir_resume_binding r) (cw_uncertain_invocations k)
      \<or> cw_last_durable_event_sequence k \<noteq> last_sequence)"

type_synonym grant_update = "(AuthoritativeGrantState \<times> consumption_key option) option"

text \<open>The grant an approval claim uses, and the one use it consumes.\<close>

definition approval_grant_update ::
  "'x store_lib_scheme \<Rightarrow> State \<Rightarrow> uuid \<Rightarrow> RunAggregate \<Rightarrow> ExecutionCommit \<Rightarrow> u64 \<Rightarrow> ApprovalResumeClaim
     \<Rightarrow> (ExecutionStoreErrorCode, grant_update) result" where
  "approval_grant_update L s owner a c now_ms claim =
     try_then (map_err (\<lambda>_. StInvalidRequest)
       (apply_resume_command (sr_run (ra_stored a)) (ec_command c) (Some claim) None)) (\<lambda>(run, consumption).
     if run \<noteq> ec_target_run c \<or> consumption \<noteq> claim_grant_consumption claim then Err StInvalidRequest
     else let request = ad_request (arc_decision claim) in
     case (ar_grant_id request, ar_grant_revision request, ar_grant_remaining_uses request) of
       (Some _, Some revision, claimed) \<Rightarrow>
         try_then (ok_or (arc_grant_authority_binding claim) StGrantConflict) (\<lambda>binding.
         try_then (ok_or (authoritative_grants s (owner, gab_authority_key binding))
           StGrantConflict) (\<lambda>authoritative.
         try_then (validate_binding authoritative binding now_ms) (\<lambda>_.
         if ags_revision authoritative \<noteq> revision \<or> ags_remaining_uses authoritative \<noteq> claimed
         then Err StGrantConflict
         else case (claim_grant_consumption claim, claimed) of
           (Some consumption, Some remaining) \<Rightarrow>
             try_then (ok_or (arc_grant_consumption_snapshot claim) StGrantConflict) (\<lambda>snapshot.
             if gcs_remaining_uses snapshot \<noteq> remaining
                \<or> \<not> matches_consumption L binding consumption
             then Err StGrantConflict
             else let key = (owner, gab_authority_key binding, gc_grant_revision consumption,
                 gc_logical_invocation_id consumption) in
             if key \<in> grant_consumptions s then Err StGrantAlreadyConsumed
             else try_then (grant_consume authoritative binding now_ms) (\<lambda>consumed.
               Ok (Some (consumed, Some key))))
         | (None, None) \<Rightarrow> Ok (Some (authoritative, None))
         | _ \<Rightarrow> Err StGrantConflict)))
     | (None, None, None) \<Rightarrow>
         if claim_grant_consumption claim = None then Ok None else Err StGrantConflict
     | _ \<Rightarrow> Err StGrantConflict)"

text \<open>The counted automatic grant that a dispatch consumes.\<close>

definition dispatch_grant_update ::
  "'x store_lib_scheme \<Rightarrow> State \<Rightarrow> uuid \<Rightarrow> ExecutionCommit \<Rightarrow> u64 \<Rightarrow> DispatchGrantMutation
     \<Rightarrow> (ExecutionStoreErrorCode, grant_update) result" where
  "dispatch_grant_update L s owner c now_ms d =
     try_then (ok_or (find (\<lambda>a. iar_state a = AttemptDispatching) (ec_attempts c))
       StGrantConflict) (\<lambda>attempt.
     if command_kind (ec_command c) \<noteq> CmdPrepareDispatch \<or> \<not> grant_matches_attempt d owner attempt
        \<or> length (dispatching (ec_attempts c)) \<noteq> 1
     then Err StGrantConflict
     else let binding = dgm_authority_binding d in
     try_then (ok_or (authoritative_grants s (owner, gab_authority_key binding))
       StGrantConflict) (\<lambda>authoritative.
     if ags_remaining_uses authoritative \<noteq> Some (dgm_remaining_uses d)
        \<or> \<not> matches_consumption L binding (dgm_consumption d)
     then Err StGrantConflict
     else let key = (owner, gab_authority_key binding, gc_grant_revision (dgm_consumption d),
         gc_logical_invocation_id (dgm_consumption d)) in
     if key \<in> grant_consumptions s then Err StGrantAlreadyConsumed
     else try_then (grant_consume authoritative binding now_ms) (\<lambda>consumed.
       Ok (Some (consumed, Some key)))))"

definition commit_grant_update ::
  "'x store_lib_scheme \<Rightarrow> State \<Rightarrow> uuid \<Rightarrow> RunAggregate \<Rightarrow> ExecutionCommit \<Rightarrow> u64
     \<Rightarrow> (ExecutionStoreErrorCode, grant_update) result" where
  "commit_grant_update L s owner a c now_ms =
     (case (ec_approval c, ec_dispatch_grant c) of
        (Some _, Some _) \<Rightarrow> Err StInvalidRequest
      | (Some claim, None) \<Rightarrow> approval_grant_update L s owner a c now_ms claim
      | (None, Some d) \<Rightarrow> dispatch_grant_update L s owner c now_ms d
      | (None, None) \<Rightarrow> Ok None)"

text \<open>New steps are numbered in order; a step that is already stored must be the same.\<close>

type_synonym step_patches = "(string \<times> u64 \<times> Step) list"

fun steps_loop ::
  "uuid \<Rightarrow> (string \<rightharpoonup> Step) \<Rightarrow> step_patches \<Rightarrow> u64 \<Rightarrow> Step list
     \<Rightarrow> (ExecutionStoreErrorCode, step_patches \<times> u64) result" where
  "steps_loop run stored patches next [] = Ok (patches, next)"
| "steps_loop run stored patches next (x # xs) =
     (if st_run_id x \<noteq> run then Err StInvalidRequest
      else case stored (st_logical_step_id x) of
        Some existing \<Rightarrow>
          if existing = x then steps_loop run stored patches next xs else Err StHistoryConflict
      | None \<Rightarrow>
          (case map_of patches (st_logical_step_id x) of
             Some (_, existing) \<Rightarrow>
               if existing = x then steps_loop run stored patches next xs else Err StHistoryConflict
           | None \<Rightarrow>
               try_then (ok_or (checked_add next 1) StArithmeticOverflow) (\<lambda>next'.
               steps_loop run stored (bt_insert (st_logical_step_id x) (next, x) patches) next' xs)))"

text \<open>The changes of the attempts: an attempt is new, unchanged, or moves one step forward.\<close>

definition attempt_advances :: "InvocationAttemptRecord \<Rightarrow> InvocationAttemptRecord \<Rightarrow> bool" where
  "attempt_advances existing a \<longleftrightarrow>
     (iar_state existing = AttemptDispatching \<and> iar_state a \<in> {AttemptCompleted, AttemptUncertain}
      \<or> iar_state existing = AttemptPending \<and> iar_state a = AttemptDispatching) \<and>
     iar_invocation existing = iar_invocation a \<and> iar_manifest existing = iar_manifest a \<and>
     iar_recovery_mode existing = iar_recovery_mode a"

record AttemptChanges =
  ac_patches :: "((uuid \<times> u32) \<times> u64 \<times> InvocationAttemptRecord) list"
  ac_transitions :: "((uuid \<times> u32) \<times> unit) list"
  ac_new_count :: nat
  ac_next_sequence :: u64
  ac_fingerprint :: HistoryFingerprint

definition include_attempt ::
  "'x store_lib_scheme \<Rightarrow> HistoryFingerprint \<Rightarrow> InvocationAttemptRecord
     \<Rightarrow> (ExecutionStoreErrorCode, HistoryFingerprint) result" where
  "include_attempt L fp a = map_err store_err (fingerprint_include L (jcs_attempt L) fp a)"

definition attempt_change ::
  "'x store_lib_scheme \<Rightarrow> uuid \<Rightarrow> RunAggregate \<Rightarrow> AttemptChanges \<Rightarrow> InvocationAttemptRecord
     \<Rightarrow> (ExecutionStoreErrorCode, AttemptChanges) result" where
  "attempt_change L run g acc a =
     (let key = attempt_record_key a in
      if lib_run_id (iar_invocation a) \<noteq> run then Err StInvalidRequest
      else case map_of (ra_attempts g) key of
        Some existing \<Rightarrow>
          if existing = a then Ok acc
          else if attempt_advances existing a
          then try_then (ok_or (map_option fst (find (\<lambda>(_, k). k = key) (ra_attempt_order g)))
              StHistoryConflict) (\<lambda>sequence.
            try_then (include_attempt L (ac_fingerprint acc) existing) (\<lambda>fp.
            try_then (include_attempt L fp a) (\<lambda>fp.
            Ok (acc\<lparr>ac_patches := bt_insert key (sequence, a) (ac_patches acc),
              ac_transitions := bt_insert key () (ac_transitions acc), ac_fingerprint := fp\<rparr>))))
          else Err StHistoryConflict
      | None \<Rightarrow>
          (case map_of (ac_patches acc) key of
             Some (_, existing) \<Rightarrow> if existing = a then Ok acc else Err StHistoryConflict
           | None \<Rightarrow>
               try_then (ok_or (checked_add (ac_next_sequence acc) 1) StArithmeticOverflow) (\<lambda>next.
               try_then (include_attempt L (ac_fingerprint acc) a) (\<lambda>fp.
               Ok (acc\<lparr>ac_patches := bt_insert key (ac_next_sequence acc, a) (ac_patches acc),
                 ac_new_count := Suc (ac_new_count acc), ac_next_sequence := next,
                 ac_fingerprint := fp\<rparr>)))))"

fun attempt_changes_loop ::
  "'x store_lib_scheme \<Rightarrow> uuid \<Rightarrow> RunAggregate \<Rightarrow> AttemptChanges \<Rightarrow> InvocationAttemptRecord list
     \<Rightarrow> (ExecutionStoreErrorCode, AttemptChanges) result" where
  "attempt_changes_loop L run g acc [] = Ok acc"
| "attempt_changes_loop L run g acc (a # as) =
     try_then (attempt_change L run g acc a) (\<lambda>acc. attempt_changes_loop L run g acc as)"

definition attempt_changes ::
  "'x store_lib_scheme \<Rightarrow> RunAggregate \<Rightarrow> ExecutionCommit \<Rightarrow> (ExecutionStoreErrorCode, AttemptChanges) result" where
  "attempt_changes L g c =
     attempt_changes_loop L (el_run_id (ec_lease c)) g
       \<lparr>ac_patches = [], ac_transitions = [], ac_new_count = 0,
        ac_next_sequence = ra_next_attempt_sequence g, ac_fingerprint = ra_attempts_fingerprint g\<rparr>
       (ec_attempts c)"

text \<open>
  A new dispatch is the first attempt of its invocation, or it follows the one that is dispatching
  and that this commit leaves uncertain.
\<close>

definition dispatch_lineage ::
  "RunAggregate \<Rightarrow> AttemptChanges \<Rightarrow> (uuid \<times> u32) \<times> u64 \<times> InvocationAttemptRecord
     \<Rightarrow> (ExecutionStoreErrorCode, unit) result" where
  "dispatch_lineage g acc entry =
     (case entry of (key, _, d) \<Rightarrow>
      if iar_state d \<noteq> AttemptDispatching \<or> map_of (ra_attempts g) key \<noteq> None then Ok ()
      else case find (\<lambda>((i, _), a). i = lib_id (iar_invocation d) \<and> iar_state a = AttemptDispatching)
          (ra_attempts g) of
        None \<Rightarrow>
          reject_if (iar_attempt_number d \<noteq> 1
            \<or> list_ex (\<lambda>((i, _), _). i = lib_id (iar_invocation d)) (ra_attempts g)) StLineageConflict
      | Some ((prior_invocation, prior_number), prior) \<Rightarrow>
          try_then (ok_or (checked_add prior_number 1) StLineageConflict) (\<lambda>expected.
          reject_if (iar_attempt_number d \<noteq> expected \<or> iar_invocation prior \<noteq> iar_invocation d
              \<or> iar_manifest prior \<noteq> iar_manifest d \<or> iar_recovery_mode prior \<noteq> iar_recovery_mode d
              \<or> \<not> is_some_and (map_option snd (map_of (ac_patches acc) (prior_invocation, prior_number)))
                  (\<lambda>a. iar_state a = AttemptUncertain \<and> iar_invocation a = iar_invocation prior
                    \<and> iar_manifest a = iar_manifest prior
                    \<and> iar_recovery_mode a = iar_recovery_mode prior))
            StLineageConflict))"

text \<open>Results: recorded once per invocation, for a completed attempt with the same manifest.\<close>

type_synonym result_patches = "(uuid \<times> StoredDurableResult) list"

definition result_change ::
  "'x store_lib_scheme \<Rightarrow> uuid \<Rightarrow> RunAggregate \<Rightarrow> AttemptChanges \<Rightarrow> result_patches \<times> HistoryFingerprint
     \<Rightarrow> DurableResultMutation \<Rightarrow> (ExecutionStoreErrorCode, result_patches \<times> HistoryFingerprint) result" where
  "result_change L run g changes acc m =
     (let completed = drm_completed m; patches = fst acc; fp = snd acc in
      if lib_run_id (cir_invocation completed) \<noteq> run
         \<or> cir_result_ref completed \<noteq> dcr_result_ref (drm_result m)
      then Err StLineageConflict
      else let key = lib_id (cir_invocation completed); attempt_key = completed_key completed in
      try_then (ok_or (case map_of (ac_patches changes) attempt_key of
          Some (_, a) \<Rightarrow> Some a | None \<Rightarrow> map_of (ra_attempts g) attempt_key) StLineageConflict) (\<lambda>a.
      if iar_invocation a \<noteq> cir_invocation completed \<or> iar_state a \<noteq> AttemptCompleted
         \<or> iar_manifest a \<noteq> cir_manifest completed
         \<or> iar_recovery_mode a \<noteq> cir_recovery_mode completed
         \<or> dcr_schema_digest (drm_result m) \<noteq> mp_schema_digest (iar_manifest a)
      then Err StLineageConflict
      else let value = \<lparr>sdr_completed = completed, sdr_result = drm_result m\<rparr> in
      case map_of (ra_results g) key of
        Some existing \<Rightarrow> if existing = value then Ok acc else Err StResultConflict
      | None \<Rightarrow>
          (case map_of patches key of
             Some existing \<Rightarrow> if existing = value then Ok acc else Err StResultConflict
           | None \<Rightarrow>
               try_then (map_err store_err (fingerprint_include L (jcs_completed L) fp completed)) (\<lambda>fp.
               Ok (bt_insert key value patches, fp)))))"

fun result_changes_loop ::
  "'x store_lib_scheme \<Rightarrow> uuid \<Rightarrow> RunAggregate \<Rightarrow> AttemptChanges \<Rightarrow> result_patches \<times> HistoryFingerprint
     \<Rightarrow> DurableResultMutation list
     \<Rightarrow> (ExecutionStoreErrorCode, result_patches \<times> HistoryFingerprint) result" where
  "result_changes_loop L run g changes acc [] = Ok acc"
| "result_changes_loop L run g changes acc (m # ms) =
     try_then (result_change L run g changes acc m) (\<lambda>acc. result_changes_loop L run g changes acc ms)"

text \<open>What must come with each attempt that moved: a result, a recovery record or an approval.\<close>

definition transition_supported ::
  "RunAggregate \<Rightarrow> ExecutionCommit \<Rightarrow> AttemptChanges \<Rightarrow> result_patches \<Rightarrow> uuid \<times> u32
     \<Rightarrow> (ExecutionStoreErrorCode, unit) result" where
  "transition_supported g c changes results key =
     try_then (ok_or (map_option snd (map_of (ac_patches changes) key)) StHistoryConflict) (\<lambda>a.
     case iar_state a of
       AttemptCompleted \<Rightarrow>
         reject_if (\<not> is_some_and (map_of results (lib_id (iar_invocation a))) (\<lambda>stored.
             cir_invocation (sdr_completed stored) = iar_invocation a
             \<and> cir_attempt_number (sdr_completed stored) = iar_attempt_number a
             \<and> cir_manifest (sdr_completed stored) = iar_manifest a
             \<and> cir_recovery_mode (sdr_completed stored) = iar_recovery_mode a)) StLineageConflict
     | AttemptUncertain \<Rightarrow>
         reject_if (\<not> is_some_and (command_recovery_record (ec_command c)) (\<lambda>recovery.
             rpr_invocation (uir_pause recovery) = iar_invocation a
             \<and> rpr_attempt_number (uir_pause recovery) = iar_attempt_number a
             \<and> rpr_manifest (uir_pause recovery) = iar_manifest a
             \<and> mp_recovery_mode (rpr_manifest (uir_pause recovery)) = iar_recovery_mode a))
           StLineageConflict
     | AttemptDispatching \<Rightarrow>
         reject_if (\<not> (command_kind (ec_command c) = CmdResumeApproval \<and> ec_approval c \<noteq> None
             \<and> run_state (sr_run (ra_stored g)) = WaitingForApproval
             \<and> run_state (ec_target_run c) = Running
             \<and> is_some_and (run_pending_approval (sr_run (ra_stored g))) (\<lambda>request.
                 ar_logical_invocation_id request = lib_id (iar_invocation a)
                 \<and> ar_canonical_argument_digest request = lib_canonical_argument_digest (iar_invocation a)
                 \<and> ar_capability_id request = lib_capability_id (iar_invocation a)
                 \<and> ar_manifest_version request = lib_manifest_version (iar_invocation a))))
           StLineageConflict
     | _ \<Rightarrow> Err StHistoryConflict)"

definition checkpoint_body_conflict ::
  "RunAggregate \<Rightarrow> step_patches \<Rightarrow> AttemptChanges \<Rightarrow> result_patches \<times> HistoryFingerprint \<Rightarrow> CheckpointV1
     \<Rightarrow> bool" where
  "checkpoint_body_conflict g step_patches changes results k \<longleftrightarrow>
     length (cw_attempts k) \<noteq> length (ra_attempts g) + ac_new_count changes
     \<or> length (cw_completed_invocations k) \<noteq> length (ra_results g) + length (fst results)
     \<or> cp_attempts_fingerprint k \<noteq> ac_fingerprint changes
     \<or> cp_completed_fingerprint k \<noteq> snd results
     \<or> is_some_and (cw_cursor k) (\<lambda>cursor. ra_steps g (cc_logical_step_id cursor) = None
         \<and> map_of step_patches (cc_logical_step_id cursor) = None)"

text \<open>The checkpoint generation, and whether the old checkpoint may be kept.\<close>

definition commit_checkpoint_version ::
  "RunAggregate \<Rightarrow> ExecutionCommit \<Rightarrow> bool \<Rightarrow> (ExecutionStoreErrorCode, u64) result" where
  "commit_checkpoint_version g c changed =
     (if changed \<and> ec_checkpoint c = Unchanged then Err StCheckpointConflict
      else if is_terminal (run_state (ec_target_run c)) \<and> ec_checkpoint c \<noteq> Clear
      then Err StCheckpointConflict
      else case ec_checkpoint c of
        Unchanged \<Rightarrow> Ok (ra_checkpoint_version g)
      | Replace _ \<Rightarrow> ok_or (checked_add (ra_checkpoint_version g) 1) StArithmeticOverflow
      | Clear \<Rightarrow>
          if ra_checkpoint g \<noteq> None
          then ok_or (checked_add (ra_checkpoint_version g) 1) StArithmeticOverflow
          else Ok (ra_checkpoint_version g))"

text \<open>The lease is given up when the run waits for approval or was asked to pause.\<close>

definition commit_lease :: "RunAggregate \<Rightarrow> ExecutionCommit \<Rightarrow> ExecutionLease option" where
  "commit_lease g c =
     (if run_state (ec_target_run c) = WaitingForApproval
         \<or> run_state (ec_target_run c) = Paused \<and> run_pause_reason (ec_target_run c) = Some PauseRequested
      then None else ra_lease g)"

text \<open>The stored run with its new version; a finished run that holds its session's claim releases it.\<close>

definition commit_stored_run ::
  "State \<Rightarrow> uuid \<Rightarrow> RunAggregate \<Rightarrow> ExecutionCommit \<Rightarrow> StoredSession
     \<Rightarrow> (ExecutionStoreErrorCode, StoredRun \<times> StoredSession option) result" where
  "commit_stored_run s owner g c session =
     (let target = ec_target_run c; input = sr_initial_input (ra_stored g) in
      try_then (ok_or (checked_add (sr_run_version (ra_stored g)) 1) StArithmeticOverflow) (\<lambda>run_version.
      try_then (StoredRun_new_with_initial_input owner target run_version
        (sr_session_version (ra_stored g)) input) (\<lambda>stored.
      if is_terminal (run_state target)
         \<and> serial_claims s (owner, run_session_id target) = Some (el_run_id (ec_lease c))
      then try_then (ok_or (checked_add (ss_version session) 1) StArithmeticOverflow) (\<lambda>version.
        try_then (StoredRun_new_with_initial_input owner target run_version version input) (\<lambda>stored.
        Ok (stored, Some (session\<lparr>ss_version := version\<rparr>))))
      else Ok (stored, None))))"

text \<open>The index of approvals: requests are entered, decisions recorded, abandoned requests removed.\<close>

definition approval_index_update ::
  "State \<Rightarrow> uuid \<Rightarrow> ExecutionCommit \<Rightarrow> (ExecutionStoreErrorCode, (uuid \<times> ApprovalIndexRecord) option) result" where
  "approval_index_update s owner c =
     (let run = el_run_id (ec_lease c) in
      case command_kind (ec_command c) of
        CmdRequestApproval \<Rightarrow>
          try_then (ok_or (command_approval_request (ec_command c)) StInvalidRequest) (\<lambda>request.
          if approvals s (owner, ar_logical_invocation_id request) \<noteq> None then Err StCommandConflict
          else Ok (Some (ar_logical_invocation_id request,
            \<lparr>aix_run_id = run, aix_requested_at_ms = ar_requested_at_ms request,
             aix_expires_at_ms = ar_expires_at_ms request, aix_decision_command_id = None,
             aix_decision_kind = None, aix_decided_at_ms = None\<rparr>)))
      | CmdResumeApproval \<Rightarrow>
          try_then (ok_or (ec_approval c) StInvalidRequest) (\<lambda>claim.
          let decision = arc_decision claim; request = ad_request decision in
          try_then (ok_or (approvals s (owner, ar_logical_invocation_id request)) StInvalidRequest) (\<lambda>existing.
          if aix_run_id existing \<noteq> run \<or> aix_requested_at_ms existing \<noteq> ar_requested_at_ms request
             \<or> aix_expires_at_ms existing \<noteq> ar_expires_at_ms request
             \<or> aix_decision_command_id existing \<noteq> None
          then Err StCommandConflict
          else Ok (Some (ar_logical_invocation_id request,
            existing\<lparr>aix_run_id := run, aix_decision_command_id := Some (cmd_id (ec_command c)),
             aix_decision_kind := Some (ad_kind decision),
             aix_decided_at_ms := Some (ad_decided_at_ms decision)\<rparr>))))
      | _ \<Rightarrow> Ok None)"

definition approval_index_removal ::
  "State \<Rightarrow> uuid \<Rightarrow> RunAggregate \<Rightarrow> ExecutionCommit \<Rightarrow> (ExecutionStoreErrorCode, uuid option) result" where
  "approval_index_removal s owner g c =
     (if command_kind (ec_command c) \<noteq> CmdResumeApproval \<and> run_pending_approval (ec_target_run c) = None
      then case run_pending_approval (sr_run (ra_stored g)) of
        None \<Rightarrow> Ok None
      | Some pending \<Rightarrow>
          try_then (ok_or (approvals s (owner, ar_logical_invocation_id pending)) StInvalidRequest) (\<lambda>existing.
          if aix_run_id existing \<noteq> el_run_id (ec_lease c)
             \<or> aix_requested_at_ms existing \<noteq> ar_requested_at_ms pending
             \<or> aix_expires_at_ms existing \<noteq> ar_expires_at_ms pending
             \<or> aix_decision_command_id existing \<noteq> None
          then Err StCommandConflict else Ok (Some (ar_logical_invocation_id pending)))
      else Ok None)"

record CommitPatch =
  cpt_stored :: StoredRun
  cpt_lease :: "ExecutionLease option"
  cpt_checkpoint_version :: u64
  cpt_checkpoint :: "CheckpointV1 option"
  cpt_events :: "RuntimeEvent list"
  cpt_steps :: step_patches
  cpt_next_step_sequence :: u64
  cpt_attempts :: AttemptChanges
  cpt_results :: "result_patches \<times> HistoryFingerprint"
  cpt_grant :: grant_update
  cpt_session_update :: "StoredSession option"
  cpt_receipt :: CommandReceipt
  cpt_command_index :: CommandIndexRecord
  cpt_grant_consumption :: "GrantConsumption option"
  cpt_approval_index_update :: "(uuid \<times> ApprovalIndexRecord) option"
  cpt_approval_index_removal :: "uuid option"

text \<open>The fence of a commit: the run and checkpoint versions it expects and the lease it holds.\<close>

definition commit_fence :: "RunAggregate \<Rightarrow> ExecutionCommit \<Rightarrow> u64 \<Rightarrow> (ExecutionStoreErrorCode, unit) result" where
  "commit_fence g c now_ms =
     (if sr_run_version (ra_stored g) \<noteq> ec_expected_run_version c then Err StVersionConflict
      else if ra_checkpoint_version g \<noteq> ec_expected_checkpoint_version c then Err StCheckpointConflict
      else if ra_lease g \<noteq> Some (ec_lease c) \<or> el_expires_at_ms (ec_lease c) \<le> now_ms
      then Err StLeaseExpired else Ok ())"

definition build_commit_patch ::
  "'x store_lib_scheme \<Rightarrow> State \<Rightarrow> uuid \<Rightarrow> ExecutionCommit \<Rightarrow> u64
     \<Rightarrow> (ExecutionStoreErrorCode crash, CommitPatch) result" where
  "build_commit_patch L s owner c now_ms =
     (let run = el_run_id (ec_lease c); target = ec_target_run c; command = ec_command c in
      try_then (raised (ok_or (runs s (owner, run)) StNotFound)) (\<lambda>g.
      try_then (raised (commit_fence g c now_ms)) (\<lambda>_.
      try_then (raised (reject_if (\<not> valid_command_transition (sr_run (ra_stored g)) target command
          (ec_approval c) (ec_dispatch_grant c) (ec_attempts c)) StInvalidRequest)) (\<lambda>_.
      try_then (raised (prepare_dispatch_lineage c)) (\<lambda>_.
      try_then (raised (dispatch_policy_gate s owner c now_ms)) (\<lambda>_.
      try_then (raised (event_window s owner g c)) (\<lambda>(session, last_sequence).
      try_then (raised (case ec_checkpoint c of
          Replace k \<Rightarrow> reject_if (checkpoint_header_conflict g c last_sequence k) StCheckpointConflict
        | _ \<Rightarrow> Ok ())) (\<lambda>_.
      try_then (raised (commit_grant_update L s owner g c now_ms)) (\<lambda>grant.
      try_then (raised (steps_loop run (ra_steps g) [] (ra_next_step_sequence g) (ec_steps c)))
        (\<lambda>(step_patches, next_step_sequence).
      try_then (raised (attempt_changes L g c)) (\<lambda>changes.
      try_then (raised (try_all (dispatch_lineage g changes) (ac_patches changes))) (\<lambda>_.
      try_then (raised (result_changes_loop L run g changes ([], ra_completed_fingerprint g)
        (ec_results c))) (\<lambda>results.
      try_then (raised (try_all (transition_supported g c changes (fst results))
        (map fst (ac_transitions changes)))) (\<lambda>_.
      try_then (raised (case ec_checkpoint c of
          Replace k \<Rightarrow>
            reject_if (checkpoint_body_conflict g step_patches changes results k) StCheckpointConflict
        | _ \<Rightarrow> Ok ())) (\<lambda>_.
      try_then (raised (commit_checkpoint_version g c (sr_run (ra_stored g) \<noteq> target
          \<or> ec_events c \<noteq> [] \<or> step_patches \<noteq> [] \<or> ac_patches changes \<noteq> [] \<or> fst results \<noteq> [])))
        (\<lambda>checkpoint_version.
      try_then (raised (commit_stored_run s owner g c session)) (\<lambda>(stored, session_update).
      try_then (map_raised store_err (CommandReceipt_new L command Accepted)) (\<lambda>receipt.
      try_then (raised (approval_index_update s owner c)) (\<lambda>index_update.
      try_then (raised (approval_index_removal s owner g c)) (\<lambda>index_removal.
      try_then (map_raised store_err (command_digest L command)) (\<lambda>digest.
      Ok \<lparr>cpt_stored = stored, cpt_lease = commit_lease g c,
        cpt_checkpoint_version = checkpoint_version,
        cpt_checkpoint = (if ec_checkpoint c = Unchanged then ra_checkpoint g else None),
        cpt_events = ec_events c, cpt_steps = step_patches,
        cpt_next_step_sequence = next_step_sequence, cpt_attempts = changes, cpt_results = results,
        cpt_grant = grant, cpt_session_update = session_update, cpt_receipt = receipt,
        cpt_command_index = \<lparr>cix_session_id = cmd_session_id command,
          cix_run_id = target_run_id command, cix_kind = command_kind command,
          cix_payload_digest = digest\<rparr>,
        cpt_grant_consumption = (case Option.bind (ec_approval c) claim_grant_consumption of
            Some k \<Rightarrow> Some k | None \<Rightarrow> map_option dgm_consumption (ec_dispatch_grant c)),
        cpt_approval_index_update = index_update, cpt_approval_index_removal = index_removal\<rparr>)))))))))))))))))))))"

section \<open>Applying a commit\<close>

definition patch_aggregate :: "RunAggregate \<Rightarrow> CommitPatch \<Rightarrow> RunAggregate" where
  "patch_aggregate g p = g\<lparr>
     ra_stored := cpt_stored p, ra_lease := cpt_lease p,
     ra_checkpoint_version := cpt_checkpoint_version p, ra_checkpoint := cpt_checkpoint p,
     ra_events := ra_events g @ cpt_events p,
     ra_step_order := fold (\<lambda>(key, sequence, step). bt_insert sequence key) (cpt_steps p) (ra_step_order g),
     ra_steps := fold (\<lambda>(key, sequence, step) m. m(key \<mapsto> step)) (cpt_steps p) (ra_steps g),
     ra_next_step_sequence := cpt_next_step_sequence p,
     ra_attempt_order := fold (\<lambda>(key, sequence, a). bt_insert sequence key)
       (ac_patches (cpt_attempts p)) (ra_attempt_order g),
     ra_attempts := fold (\<lambda>(key, sequence, a). bt_insert key a)
       (ac_patches (cpt_attempts p)) (ra_attempts g),
     ra_next_attempt_sequence := ac_next_sequence (cpt_attempts p),
     ra_attempts_fingerprint := ac_fingerprint (cpt_attempts p),
     ra_results := fold (\<lambda>(key, r). bt_insert key r) (fst (cpt_results p)) (ra_results g),
     ra_completed_fingerprint := snd (cpt_results p)\<rparr>"

text \<open>The run is still there: \<open>expect\<close> cannot fail, since \<open>build_commit_patch\<close> found it.\<close>

definition apply_commit_patch ::
  "State \<Rightarrow> uuid \<Rightarrow> uuid \<Rightarrow> CommitPatch \<Rightarrow> ExecutionCommitOutcome \<Rightarrow> (ExecutionStoreErrorCode crash, State) result" where
  "apply_commit_patch s owner run p outcome =
     (let command_key = (owner, cr_command_id (cpt_receipt p));
          session_key = (owner, run_session_id (sr_run (cpt_stored p))) in
      try_then (expect (ok_or (runs s (owner, run)) ())) (\<lambda>g.
      Ok (s\<lparr>
        runs := (runs s)((owner, run) \<mapsto> patch_aggregate g p),
        authoritative_grants := (case cpt_grant p of
            None \<Rightarrow> authoritative_grants s
          | Some (a, _) \<Rightarrow> (authoritative_grants s)((owner, ags_authority_key a) \<mapsto> a)),
        grant_consumptions := (case cpt_grant p of
            Some (_, Some key) \<Rightarrow> insert key (grant_consumptions s)
          | _ \<Rightarrow> grant_consumptions s),
        sessions := (case cpt_session_update p of
            None \<Rightarrow> sessions s | Some session \<Rightarrow> (sessions s)(session_key \<mapsto> session)),
        serial_claims := (if cpt_session_update p = None then serial_claims s
          else (serial_claims s)(session_key := None)),
        approvals := (let removed = (case cpt_approval_index_removal p of
              None \<Rightarrow> approvals s | Some i \<Rightarrow> (approvals s)((owner, i) := None)) in
            case cpt_approval_index_update p of
              None \<Rightarrow> removed | Some (i, r) \<Rightarrow> removed((owner, i) \<mapsto> r)),
        receipts := (receipts s)(command_key \<mapsto> cpt_receipt p),
        commands := (commands s)(command_key \<mapsto> cpt_command_index p),
        outcomes := (outcomes s)(command_key \<mapsto> outcome)\<rparr>)))"

text \<open>A command that has a receipt is answered from it; otherwise it is built and applied.\<close>

definition commit_replay ::
  "'x store_lib_scheme \<Rightarrow> State \<Rightarrow> uuid \<times> uuid \<Rightarrow> CommandReceipt \<Rightarrow> RuntimeCommand
     \<Rightarrow> (ExecutionStoreErrorCode crash, ExecutionCommitOutcome) result" where
  "commit_replay L s command_key receipt command =
     try_then (map_raised (\<lambda>_. StCommandConflict) (receipt_replay L receipt command)) (\<lambda>_.
     raised (ok_or (outcomes s command_key) StNotFound))"

definition commit_fresh ::
  "'x store_lib_scheme \<Rightarrow> State \<Rightarrow> uuid \<Rightarrow> ExecutionCommit \<Rightarrow> u64
     \<Rightarrow> (ExecutionStoreErrorCode crash, ExecutionCommitOutcome \<times> State) result" where
  "commit_fresh L s owner c now_ms =
     try_then (build_commit_patch L s owner c now_ms) (\<lambda>built.
     let patch = built\<lparr>cpt_checkpoint := (case ec_checkpoint c of
           Unchanged \<Rightarrow> cpt_checkpoint built | Replace k \<Rightarrow> Some k | Clear \<Rightarrow> None)\<rparr>;
         outcome = \<lparr>eco_stored_run = cpt_stored patch, eco_receipt = cpt_receipt patch,
           eco_checkpoint_version = cpt_checkpoint_version patch,
           eco_checkpoint = cpt_checkpoint patch,
           eco_grant_consumption = cpt_grant_consumption patch\<rparr>
     in try_then (apply_commit_patch s owner (el_run_id (ec_lease c)) patch outcome) (\<lambda>s'.
       Ok (outcome, s')))"

definition commit_execution ::
  "'x store_lib_scheme \<Rightarrow> State \<Rightarrow> uuid \<Rightarrow> ExecutionCommit \<Rightarrow> u64 \<Rightarrow> ExecutionCommitOutcome answer" where
  "commit_execution L s owner c now_ms =
     (case validate_bounds L c of
        Inl e \<Rightarrow> fails e s
      | Inr _ \<Rightarrow>
          if target_run_id (ec_command c) \<noteq> el_run_id (ec_lease c)
             \<or> run_id (ec_target_run c) \<noteq> el_run_id (ec_lease c)
          then fails StInvalidRequest s
          else let command_key = (owner, cmd_id (ec_command c)) in
          case receipts s command_key of
            Some receipt \<Rightarrow> (commit_replay L s command_key receipt (ec_command c), s)
          | None \<Rightarrow>
              (case commit_fresh L s owner c now_ms of
                 Inl e \<Rightarrow> (Err e, s)
               | Inr (outcome, s') \<Rightarrow> (Ok outcome, s')))"

section \<open>Reading\<close>

definition load_authoritative_policy :: "State \<Rightarrow> uuid \<Rightarrow> string \<Rightarrow> u32 \<Rightarrow> AuthoritativePolicyState option" where
  "load_authoritative_policy s owner definition_id definition_version =
     authoritative_policies s (owner, definition_id, definition_version)"

definition load_authoritative_grant :: "State \<Rightarrow> uuid \<Rightarrow> string \<Rightarrow> AuthoritativeGrantState option" where
  "load_authoritative_grant s owner authority_key = authoritative_grants s (owner, authority_key)"

definition load_run :: "State \<Rightarrow> uuid \<Rightarrow> uuid \<Rightarrow> StoredRun option" where
  "load_run s owner run = map_option ra_stored (runs s (owner, run))"

definition load_checkpoint ::
  "State \<Rightarrow> uuid \<Rightarrow> uuid \<Rightarrow> (ExecutionStoreErrorCode, (u64 \<times> CheckpointV1) option) result" where
  "load_checkpoint s owner run =
     try_then (ok_or (runs s (owner, run)) StNotFound) (\<lambda>g.
     Ok (map_option (\<lambda>k. (ra_checkpoint_version g, k)) (ra_checkpoint g)))"

definition load_durable_result ::
  "State \<Rightarrow> uuid \<Rightarrow> uuid \<Rightarrow> uuid \<Rightarrow> (ExecutionStoreErrorCode, DurableCapabilityResult option) result" where
  "load_durable_result s owner run invocation =
     try_then (ok_or (runs s (owner, run)) StNotFound) (\<lambda>g.
     Ok (map_option sdr_result (map_of (ra_results g) invocation)))"

end
