(* ===== verification/Commit_Facts.thy ===== *)
theory Commit_Facts
  imports Memory_Store
begin

text \<open>
  What a commit that the in-process store accepts went through (\<open>commit_patch_parts\<close>, one fact per
  stage of \<open>build_commit_patch\<close>), the three ways \<open>commit_execution\<close> can end and the state after a
  commit that was not seen before.
\<close>

lemma ex_unit: "(\<exists>u::unit. P u) \<longleftrightarrow> P ()"
  by (metis (full_types) unit.exhaust)

lemma replace_check:
  "(case k of Replace x \<Rightarrow> reject_if (P x) e | _ \<Rightarrow> Ok ()) = Ok u \<longleftrightarrow> (\<forall>x. k = Replace x \<longrightarrow> \<not> P x)"
  by (cases k) auto

section \<open>What a successful commit went through\<close>

lemma commit_patch_parts:
  assumes "build_commit_patch L s owner c now = Ok p"
  obtains g session last_sequence where
    "runs s (owner, el_run_id (ec_lease c)) = Some g"
    "commit_fence g c now = Ok ()"
    "valid_command_transition (sr_run (ra_stored g)) (ec_target_run c) (ec_command c)
       (ec_approval c) (ec_dispatch_grant c) (ec_attempts c)"
    "prepare_dispatch_lineage c = Ok ()"
    "dispatch_policy_gate s owner c now = Ok ()"
    "event_window s owner g c = Ok (session, last_sequence)"
    "commit_grant_update L s owner g c now = Ok (cpt_grant p)"
    "steps_loop (el_run_id (ec_lease c)) (ra_steps g) [] (ra_next_step_sequence g) (ec_steps c) =
       Ok (cpt_steps p, cpt_next_step_sequence p)"
    "attempt_changes L g c = Ok (cpt_attempts p)"
    "\<forall>e \<in> set (ac_patches (cpt_attempts p)). dispatch_lineage g (cpt_attempts p) e = Ok ()"
    "result_changes_loop L (el_run_id (ec_lease c)) g (cpt_attempts p) ([], ra_completed_fingerprint g)
       (ec_results c) = Ok (cpt_results p)"
    "\<forall>k \<in> set (map fst (ac_transitions (cpt_attempts p))).
       transition_supported g c (cpt_attempts p) (fst (cpt_results p)) k = Ok ()"
    "\<forall>k. ec_checkpoint c = Replace k \<longrightarrow> \<not> checkpoint_header_conflict g c last_sequence k"
    "\<forall>k. ec_checkpoint c = Replace k \<longrightarrow> \<not> checkpoint_body_conflict g (cpt_steps p) (cpt_attempts p) (cpt_results p) k"
    "commit_checkpoint_version g c (sr_run (ra_stored g) \<noteq> ec_target_run c \<or> ec_events c \<noteq> [] \<or>
       cpt_steps p \<noteq> [] \<or> ac_patches (cpt_attempts p) \<noteq> [] \<or> fst (cpt_results p) \<noteq> []) =
       Ok (cpt_checkpoint_version p)"
    "commit_stored_run s owner g c session = Ok (cpt_stored p, cpt_session_update p)"
    "CommandReceipt_new L (ec_command c) Accepted = Ok (cpt_receipt p)"
    "approval_index_update s owner c = Ok (cpt_approval_index_update p)"
    "approval_index_removal s owner g c = Ok (cpt_approval_index_removal p)"
    "cpt_lease p = commit_lease g c" "cpt_events p = ec_events c"
    "command_digest L (ec_command c) = Ok (cix_payload_digest (cpt_command_index p))"
    "cpt_command_index p = \<lparr>cix_session_id = cmd_session_id (ec_command c),
       cix_run_id = target_run_id (ec_command c), cix_kind = command_kind (ec_command c),
       cix_payload_digest = cix_payload_digest (cpt_command_index p)\<rparr>"
  using assms unfolding build_commit_patch_def Let_def
  apply (simp only: try_then_eq_Inr raised_simps map_raised_simps reject_if_simps ok_or_simps
      split_paired_Ex split_paired_All case_prod_conv try_all_eq_Inr simp_thms sum.inject ex_unit prod.sel
      replace_check)
  apply (elim exE conjE)
  apply hypsubst
  subgoal premises prems
    by (rule prems(1), simp_all only: CommitPatch.select_convs CommandIndexRecord.select_convs prod.sel)
      (rule prems)+
  done

text \<open>The patch that is applied, the outcome and the state after a commit that was not seen before.\<close>

definition final_patch :: "ExecutionCommit \<Rightarrow> CommitPatch \<Rightarrow> CommitPatch" where
  "final_patch c p = p\<lparr>cpt_checkpoint := (case ec_checkpoint c of
     Unchanged \<Rightarrow> cpt_checkpoint p | Replace k \<Rightarrow> Some k | Clear \<Rightarrow> None)\<rparr>"

definition commit_outcome :: "CommitPatch \<Rightarrow> ExecutionCommitOutcome" where
  "commit_outcome p = \<lparr>eco_stored_run = cpt_stored p, eco_receipt = cpt_receipt p,
     eco_checkpoint_version = cpt_checkpoint_version p, eco_checkpoint = cpt_checkpoint p,
     eco_grant_consumption = cpt_grant_consumption p\<rparr>"

lemma final_patch_sel [simp]:
  "cpt_stored (final_patch c p) = cpt_stored p" "cpt_lease (final_patch c p) = cpt_lease p"
  "cpt_checkpoint_version (final_patch c p) = cpt_checkpoint_version p"
  "cpt_events (final_patch c p) = cpt_events p" "cpt_steps (final_patch c p) = cpt_steps p"
  "cpt_next_step_sequence (final_patch c p) = cpt_next_step_sequence p"
  "cpt_attempts (final_patch c p) = cpt_attempts p" "cpt_results (final_patch c p) = cpt_results p"
  "cpt_grant (final_patch c p) = cpt_grant p"
  "cpt_session_update (final_patch c p) = cpt_session_update p"
  "cpt_receipt (final_patch c p) = cpt_receipt p"
  "cpt_command_index (final_patch c p) = cpt_command_index p"
  "cpt_approval_index_update (final_patch c p) = cpt_approval_index_update p"
  "cpt_approval_index_removal (final_patch c p) = cpt_approval_index_removal p"
  by (simp_all add: final_patch_def)

inductive fresh_commit ::
  "'x store_lib_scheme \<Rightarrow> uuid \<Rightarrow> ExecutionCommit \<Rightarrow> u64 \<Rightarrow> State \<Rightarrow> RunAggregate \<Rightarrow> CommitPatch \<Rightarrow> State \<Rightarrow> bool"
  for L owner c now s g p s' where
  "validate_bounds L c = Ok () \<Longrightarrow> target_run_id (ec_command c) = el_run_id (ec_lease c) \<Longrightarrow>
   run_id (ec_target_run c) = el_run_id (ec_lease c) \<Longrightarrow>
   receipts s (owner, cmd_id (ec_command c)) = None \<Longrightarrow>
   build_commit_patch L s owner c now = Ok p \<Longrightarrow>
   runs s (owner, el_run_id (ec_lease c)) = Some g \<Longrightarrow>
   apply_commit_patch s owner (el_run_id (ec_lease c)) (final_patch c p)
     (commit_outcome (final_patch c p)) = Ok s' \<Longrightarrow>
   fresh_commit L owner c now s g p s'"

lemma fresh_commit_parts:
  assumes "fresh_commit L owner c now s g p s'"
  obtains session last_sequence where
    "runs s (owner, el_run_id (ec_lease c)) = Some g"
    "commit_fence g c now = Ok ()"
    "valid_command_transition (sr_run (ra_stored g)) (ec_target_run c) (ec_command c)
       (ec_approval c) (ec_dispatch_grant c) (ec_attempts c)"
    "prepare_dispatch_lineage c = Ok ()"
    "dispatch_policy_gate s owner c now = Ok ()"
    "event_window s owner g c = Ok (session, last_sequence)"
    "commit_grant_update L s owner g c now = Ok (cpt_grant p)"
    "steps_loop (el_run_id (ec_lease c)) (ra_steps g) [] (ra_next_step_sequence g) (ec_steps c) =
       Ok (cpt_steps p, cpt_next_step_sequence p)"
    "attempt_changes L g c = Ok (cpt_attempts p)"
    "\<forall>e \<in> set (ac_patches (cpt_attempts p)). dispatch_lineage g (cpt_attempts p) e = Ok ()"
    "result_changes_loop L (el_run_id (ec_lease c)) g (cpt_attempts p) ([], ra_completed_fingerprint g)
       (ec_results c) = Ok (cpt_results p)"
    "\<forall>k \<in> set (map fst (ac_transitions (cpt_attempts p))).
       transition_supported g c (cpt_attempts p) (fst (cpt_results p)) k = Ok ()"
    "\<forall>k. ec_checkpoint c = Replace k \<longrightarrow> \<not> checkpoint_header_conflict g c last_sequence k"
    "\<forall>k. ec_checkpoint c = Replace k \<longrightarrow> \<not> checkpoint_body_conflict g (cpt_steps p) (cpt_attempts p) (cpt_results p) k"
    "commit_checkpoint_version g c (sr_run (ra_stored g) \<noteq> ec_target_run c \<or> ec_events c \<noteq> [] \<or>
       cpt_steps p \<noteq> [] \<or> ac_patches (cpt_attempts p) \<noteq> [] \<or> fst (cpt_results p) \<noteq> []) =
       Ok (cpt_checkpoint_version p)"
    "commit_stored_run s owner g c session = Ok (cpt_stored p, cpt_session_update p)"
    "CommandReceipt_new L (ec_command c) Accepted = Ok (cpt_receipt p)"
    "approval_index_update s owner c = Ok (cpt_approval_index_update p)"
    "approval_index_removal s owner g c = Ok (cpt_approval_index_removal p)"
    "cpt_lease p = commit_lease g c" "cpt_events p = ec_events c"
    "command_digest L (ec_command c) = Ok (cix_payload_digest (cpt_command_index p))"
    "cpt_command_index p = \<lparr>cix_session_id = cmd_session_id (ec_command c),
       cix_run_id = target_run_id (ec_command c), cix_kind = command_kind (ec_command c),
       cix_payload_digest = cix_payload_digest (cpt_command_index p)\<rparr>"
proof -
  from assms have build: "build_commit_patch L s owner c now = Ok p"
    and g: "runs s (owner, el_run_id (ec_lease c)) = Some g"
    by (simp_all add: fresh_commit.simps)
  show ?thesis
    using build
    apply (rule commit_patch_parts)
    subgoal premises prems for g'
    proof -
      have "g' = g" using prems(1) g by simp
      show ?thesis by (rule that; rule prems [unfolded \<open>g' = g\<close>])
    qed
    done
qed

lemma commit_fresh_ok:
  "commit_fresh L s owner c now = Ok (out, s') \<longleftrightarrow>
     (\<exists>p. build_commit_patch L s owner c now = Ok p \<and> out = commit_outcome (final_patch c p) \<and>
       apply_commit_patch s owner (el_run_id (ec_lease c)) (final_patch c p) out = Ok s')"
  unfolding commit_fresh_def Let_def final_patch_def [symmetric] commit_outcome_def [symmetric]
  by (simp only: try_then_eq_Inr sum.inject prod.inject) blast

lemma commit_execution_cases [consumes 1, case_names refused replayed fresh]:
  assumes "commit_execution L s owner c now = (r, s')"
  obtains e where "r = Err e" "s' = s"
  | receipt out where "receipts s (owner, cmd_id (ec_command c)) = Some receipt"
      "r = Ok out" "commit_replay L s (owner, cmd_id (ec_command c)) receipt (ec_command c) = Ok out" "s' = s"
  | g p where "fresh_commit L owner c now s g p s'" "r = Ok (commit_outcome (final_patch c p))"
proof (cases "validate_bounds L c = Ok () \<and> target_run_id (ec_command c) = el_run_id (ec_lease c)
    \<and> run_id (ec_target_run c) = el_run_id (ec_lease c)")
  case False
  then have "\<exists>e. r = Err e" "s' = s" using assms
    by (auto simp: commit_execution_def split: sum.splits if_splits)
  then show ?thesis using that(1) by blast
next
  case True
  then have step: "commit_execution L s owner c now = (case receipts s (owner, cmd_id (ec_command c)) of
      Some receipt \<Rightarrow> (commit_replay L s (owner, cmd_id (ec_command c)) receipt (ec_command c), s)
    | None \<Rightarrow> (case commit_fresh L s owner c now of
        Inl e \<Rightarrow> (Err e, s) | Inr (outcome, t) \<Rightarrow> (Ok outcome, t)))"
    by (simp add: commit_execution_def Let_def)
  show ?thesis
  proof (cases "receipts s (owner, cmd_id (ec_command c))")
    case (Some receipt)
    then have eq: "commit_replay L s (owner, cmd_id (ec_command c)) receipt (ec_command c) = r" "s' = s"
      using assms unfolding step by auto
    show ?thesis
    proof (cases r)
      case (Inl e)
      then show ?thesis using that(1) eq(2) by blast
    next
      case (Inr out)
      then show ?thesis using that(2) [OF Some Inr] eq by simp
    qed
  next
    case None
    show ?thesis
    proof (cases "commit_fresh L s owner c now")
      case (Inl e)
      then have "r = Err e" "s' = s" using assms None unfolding step by auto
      then show ?thesis by (rule that(1))
    next
      case (Inr y)
      obtain out t where y: "y = (out, t)" by (cases y)
      have r: "r = Ok out" "s' = t" using assms None Inr y unfolding step by simp_all
      obtain p where p: "build_commit_patch L s owner c now = Ok p"
        "out = commit_outcome (final_patch c p)"
        "apply_commit_patch s owner (el_run_id (ec_lease c)) (final_patch c p) out = Ok t"
        using Inr unfolding y commit_fresh_ok by blast
      obtain g where g: "runs s (owner, el_run_id (ec_lease c)) = Some g"
        using commit_patch_parts [OF p(1)] by metis
      have "fresh_commit L owner c now s g p t"
        using True None p g by (intro fresh_commit.intros) simp_all
      then show ?thesis using that(3) p(2) r by blast
    qed
  qed
qed

text \<open>The state after it, component by component.\<close>

lemma fresh_commit_state:
  assumes "fresh_commit L owner c now s g p s'"
  shows "runs s' = (runs s)((owner, el_run_id (ec_lease c)) \<mapsto> patch_aggregate g (final_patch c p))"
    and "authoritative_grants s' = (case cpt_grant p of None \<Rightarrow> authoritative_grants s
        | Some (a, _) \<Rightarrow> (authoritative_grants s)((owner, ags_authority_key a) \<mapsto> a))"
    and "grant_consumptions s' = (case cpt_grant p of
        Some (_, Some key) \<Rightarrow> insert key (grant_consumptions s) | _ \<Rightarrow> grant_consumptions s)"
    and "sessions s' = (case cpt_session_update p of None \<Rightarrow> sessions s
        | Some session \<Rightarrow> (sessions s)((owner, run_session_id (sr_run (cpt_stored p))) \<mapsto> session))"
    and "serial_claims s' = (if cpt_session_update p = None then serial_claims s
        else (serial_claims s)((owner, run_session_id (sr_run (cpt_stored p))) := None))"
    and "receipts s' = (receipts s)((owner, cr_command_id (cpt_receipt p)) \<mapsto> cpt_receipt p)"
    and "commands s' = (commands s)((owner, cr_command_id (cpt_receipt p)) \<mapsto> cpt_command_index p)"
    and "outcomes s' = (outcomes s)((owner, cr_command_id (cpt_receipt p)) \<mapsto> commit_outcome (final_patch c p))"
    and "authoritative_policies s' = authoritative_policies s"
    and "approvals s' = (let removed = (case cpt_approval_index_removal p of
              None \<Rightarrow> approvals s | Some i \<Rightarrow> (approvals s)((owner, i) := None)) in
            case cpt_approval_index_update p of
              None \<Rightarrow> removed | Some (i, r) \<Rightarrow> removed((owner, i) \<mapsto> r))"
  using assms by (auto simp: fresh_commit.simps apply_commit_patch_def Let_def)

lemma fresh_commit_receipt:
  assumes "fresh_commit L owner c now s g p s'"
  shows "CommandReceipt_new L (ec_command c) Accepted = Ok (cpt_receipt p)"
    and "cr_command_id (cpt_receipt p) = cmd_id (ec_command c)"
    and "receipts s (owner, cmd_id (ec_command c)) = None"
proof -
  from assms have build: "build_commit_patch L s owner c now = Ok p"
    and none: "receipts s (owner, cmd_id (ec_command c)) = None"
    by (simp_all add: fresh_commit.simps)
  show r: "CommandReceipt_new L (ec_command c) Accepted = Ok (cpt_receipt p)"
    using build by (rule commit_patch_parts)
  then show "cr_command_id (cpt_receipt p) = cmd_id (ec_command c)"
    by (auto simp: CommandReceipt_new_def dest: sym)
  show "receipts s (owner, cmd_id (ec_command c)) = None" by (rule none)
qed

lemma commit_stored_run_ok:
  assumes "commit_stored_run s owner g c session = Ok (stored, update)"
  shows "sr_run stored = ec_target_run c" and "sr_owner_id stored = owner"
    and "unat (sr_run_version stored) = Suc (unat (sr_run_version (ra_stored g)))"
    and "sr_initial_input stored = sr_initial_input (ra_stored g)"
    and "update = (if is_terminal (run_state (ec_target_run c)) \<and>
        serial_claims s (owner, run_session_id (ec_target_run c)) = Some (el_run_id (ec_lease c))
      then Some (session\<lparr>ss_version := ss_version session + 1\<rparr>) else None)"
  using assms
  by (auto simp: commit_stored_run_def Let_def StoredRun_new_with_initial_input_def
      checked_add_def unat_add_in_range split: if_splits)

lemma fresh_commit_run:
  assumes "fresh_commit L owner c now s g p s'"
  obtains session where
    "runs s (owner, el_run_id (ec_lease c)) = Some g"
    "run_id (ec_target_run c) = el_run_id (ec_lease c)"
    "target_run_id (ec_command c) = el_run_id (ec_lease c)"
    "commit_fence g c now = Ok ()"
    "valid_command_transition (sr_run (ra_stored g)) (ec_target_run c) (ec_command c)
       (ec_approval c) (ec_dispatch_grant c) (ec_attempts c)"
    "sessions s (owner, run_session_id (sr_run (ra_stored g))) = Some session"
    "commit_stored_run s owner g c session = Ok (cpt_stored p, cpt_session_update p)"
proof (rule fresh_commit_parts [OF assms])
  fix session last_sequence
  assume *: "runs s (owner, el_run_id (ec_lease c)) = Some g" "commit_fence g c now = Ok ()"
    "valid_command_transition (sr_run (ra_stored g)) (ec_target_run c) (ec_command c)
      (ec_approval c) (ec_dispatch_grant c) (ec_attempts c)"
    and window: "event_window s owner g c = Ok (session, last_sequence)"
    and stored: "commit_stored_run s owner g c session = Ok (cpt_stored p, cpt_session_update p)"
  have "sessions s (owner, run_session_id (sr_run (ra_stored g))) = Some session"
    using window by (auto simp: event_window_def Let_def split: if_splits)
  moreover have "run_id (ec_target_run c) = el_run_id (ec_lease c)"
    "target_run_id (ec_command c) = el_run_id (ec_lease c)"
    using assms by (simp_all add: fresh_commit.simps)
  ultimately show thesis using that * stored by blast
qed

end
