(* ===== verification/Step_System.thy ===== *)
theory Step_System
  imports Anima_Prelude
begin

text \<open>
  Transition systems: the contract between the operations of a component, each a step that keeps an
  invariant, and the properties of its histories. The store, the workflows and their templates, the
  standing intentions, the execution limits and the completion review interpret these locales on their
  own step relations.
\<close>

text \<open>
  A step relation with an invariant. \<open>along_steps\<close> is how properties of histories are proved: a
  relation to the first state that every step from a good state keeps holds at the end of any run.
\<close>

locale step_invariant =
  fixes step :: "'s \<Rightarrow> 's \<Rightarrow> bool" and good :: "'s \<Rightarrow> bool"
  assumes step_good: "step s s' \<Longrightarrow> good s \<Longrightarrow> good s'"
begin

lemma steps_good: "step\<^sup>*\<^sup>* s s' \<Longrightarrow> good s \<Longrightarrow> good s'"
  by (induction rule: rtranclp_induct) (auto intro: step_good)

lemma along_steps:
  assumes "step\<^sup>*\<^sup>* s s'" and "good s" and "R s s"
    and "\<And>t u. good t \<Longrightarrow> step t u \<Longrightarrow> R s t \<Longrightarrow> R s u"
  shows "R s s'"
  using assms(1)
proof (induction rule: rtranclp_induct)
  case (step t u)
  then show ?case using assms(2,4) steps_good by blast
qed (rule assms(3))

end

text \<open>With an initial state, every reachable state is good.\<close>

locale guarded_system = step_invariant step good
  for step :: "'s \<Rightarrow> 's \<Rightarrow> bool" and good :: "'s \<Rightarrow> bool" +
  fixes init :: 's
  assumes init_good: "good init"
begin

lemma reachable_good: "step\<^sup>*\<^sup>* init s \<Longrightarrow> good s"
  using steps_good init_good by blast

end

text \<open>
  An operation that a client may repeat: accepting a request leaves a record of it, no step removes a
  record, and the operation answers a recorded request from its record.
\<close>

locale retry_safe = step_invariant step good
  for step :: "'s \<Rightarrow> 's \<Rightarrow> bool" and good :: "'s \<Rightarrow> bool" +
  fixes accepts :: "'s \<Rightarrow> 'q \<Rightarrow> 's \<Rightarrow> bool"
    and recorded :: "'s \<Rightarrow> 'q \<Rightarrow> bool"
    and answers :: "'s \<Rightarrow> 'q \<Rightarrow> bool"
  assumes accepts_records: "accepts s q s' \<Longrightarrow> good s' \<and> recorded s' q"
    and records_kept: "step s s' \<Longrightarrow> good s \<Longrightarrow> recorded s q \<Longrightarrow> recorded s' q"
    and record_answers: "good s \<Longrightarrow> recorded s q \<Longrightarrow> answers s q"
begin

lemma repeated_answers:
  assumes "accepts s q s'" and "step\<^sup>*\<^sup>* s' s''"
  shows "answers s'' q"
proof -
  have s': "good s'" "recorded s' q" using accepts_records [OF assms(1)] by auto
  then have "recorded s'' q" by (intro along_steps [OF assms(2), of "\<lambda>_ t. recorded t q"]) (auto intro: records_kept)
  then show ?thesis using steps_good [OF assms(2) s'(1)] by (intro record_answers)
qed

end

end
