(* ===== verification/Store_Steps.thy ===== *)
theory Store_Steps
  imports Commit_Facts Step_System
begin

text \<open>
  The store as a transition system: \<open>store_step\<close> is one call of a client, \<open>store_effect\<close> what a
  call can do to the state, \<open>store_inv\<close> the invariant of the reachable states. Above it stands a
  specification without indexes, \<open>spec_step\<close>, that the store refines.
\<close>

section \<open>Steps of the store\<close>

text \<open>
  What the constructors of the requests guarantee: the fields of a \<open>CreateRun\<close> are private, runs
  come from the run interface, approval claims from \<open>ApprovalResumeClaim::new\<close>.
\<close>

definition built_request :: "CreateRun \<Rightarrow> bool" where
  "built_request q \<longleftrightarrow> run_inv (crq_run q) \<and>
     (\<exists>owner session run expected policy. let q0 = CreateRun_new_for_owner owner session run expected policy in
       q = q0 \<or> (\<exists>i. with_initial_input q0 i = Ok q))"

definition built_commit :: "'x store_lib_scheme \<Rightarrow> ExecutionCommit \<Rightarrow> bool" where
  "built_commit L c \<longleftrightarrow> run_inv (ec_target_run c) \<and>
     (\<forall>claim. ec_approval c = Some claim \<longrightarrow>
       (\<exists>q d x gs. ApprovalResumeClaim_new L q d x gs = Ok claim))"

text \<open>One call of the store by a client that acts for \<open>owner\<close>, whatever its answer.\<close>

inductive store_step :: "'x store_lib_scheme \<Rightarrow> uuid \<Rightarrow> State \<Rightarrow> State \<Rightarrow> bool" for L owner s where
  policy: "apply_authoritative_policy s owner change = (r, s') \<Longrightarrow> store_step L owner s s'"
| grant: "apply_authoritative_grant s owner change' = (r', s') \<Longrightarrow> store_step L owner s s'"
| create: "create_run s owner q = (r'', s') \<Longrightarrow> built_request q \<Longrightarrow> store_step L owner s s'"
| retry: "retry_run L s owner q' = (r3, s') \<Longrightarrow> store_step L owner s s'"
| acquire: "store_acquire_lease s owner run version duration new_v4 now = (r4, s') \<Longrightarrow> store_step L owner s s'"
| renew: "store_renew_lease s owner lease duration now = (r5, s') \<Longrightarrow> store_step L owner s s'"
| commit: "commit_execution L s owner c now = (r6, s') \<Longrightarrow> built_commit L c \<Longrightarrow> store_step L owner s s'"

definition any_step :: "'x store_lib_scheme \<Rightarrow> State \<Rightarrow> State \<Rightarrow> bool" where
  "any_step L s s' \<longleftrightarrow> (\<exists>owner. store_step L owner s s')"

definition store_reachable :: "'x store_lib_scheme \<Rightarrow> State \<Rightarrow> bool" where
  "store_reachable L s \<longleftrightarrow> (any_step L)\<^sup>*\<^sup>* State_default s"

lemma store_reachable_step: "store_reachable L s \<Longrightarrow> store_step L owner s s' \<Longrightarrow> store_reachable L s'"
  unfolding store_reachable_def using rtranclp.rtrancl_into_rtrancl [of "any_step L"]
  by (auto simp: any_step_def)

section \<open>Their effects\<close>

definition fits_session :: "StoredSession \<Rightarrow> Run \<Rightarrow> bool" where
  "fits_session session run \<longleftrightarrow> dp_id (ss_definition session) = run_definition_id run \<and>
     dp_version (ss_definition session) = run_definition_version run"

definition input_of :: "uuid \<Rightarrow> Run \<Rightarrow> DurableRunInput \<Rightarrow> bool" where
  "input_of owner run i \<longleftrightarrow> DurableRunInput_validate i = Ok () \<and> dri_owner_id i = owner \<and>
     dri_session_id i = run_session_id run \<and> dri_run_id i = run_id run"

text \<open>A run enters the store: under its session, which it creates or moves on by one version.\<close>

definition opens_run :: "uuid \<Rightarrow> StoredRun \<Rightarrow> StoredSession \<Rightarrow> State \<Rightarrow> State \<Rightarrow> bool" where
  "opens_run owner stored session s s' \<longleftrightarrow>
     (let run = sr_run stored; key = (owner, run_session_id run) in
      runs s (owner, run_id run) = None \<and> run_inv run \<and> run_state run = Queued \<and>
      sr_owner_id stored = owner \<and> input_of owner run (sr_initial_input stored) \<and> fits_session session run \<and>
      (case sessions s key of
         None \<Rightarrow> ss_owner_id session = owner
       | Some old \<Rightarrow> ss_owner_id session = ss_owner_id old \<and> ss_policy session = ss_policy old \<and>
           ss_definition session = ss_definition old) \<and>
      (ss_policy session = Serial \<longrightarrow> serial_claims s key = None) \<and>
      sessions s' = (sessions s)(key \<mapsto> session) \<and>
      serial_claims s' = (if ss_policy session = Serial then (serial_claims s)(key \<mapsto> run_id run)
        else serial_claims s) \<and>
      runs s' = (runs s)((owner, run_id run) \<mapsto> new_aggregate stored) \<and>
      authoritative_grants s' = authoritative_grants s \<and>
      authoritative_policies s' = authoritative_policies s \<and>
      grant_consumptions s' = grant_consumptions s \<and> approvals s' = approvals s)"

definition same_index :: "State \<Rightarrow> State \<Rightarrow> bool" where
  "same_index s s' \<longleftrightarrow> receipts s' = receipts s \<and> commands s' = commands s \<and> outcomes s' = outcomes s"

definition indexes :: "uuid \<Rightarrow> State \<Rightarrow> State \<Rightarrow> bool" where
  "indexes owner s s' \<longleftrightarrow> (\<exists>i receipt command outcome. commands s (owner, i) = None \<and>
     receipts s' = (receipts s)((owner, i) \<mapsto> receipt) \<and>
     commands s' = (commands s)((owner, i) \<mapsto> command) \<and>
     outcomes s' = (outcomes s)((owner, i) \<mapsto> outcome))"

lemma create_run_effect:
  assumes "create_run s owner q = (r, s')" and "built_request q"
  shows "(\<exists>e. r = Err e) \<and> s' = s \<or>
    (\<exists>stored session. r = Ok stored \<and> opens_run owner stored session s s' \<and> same_index s s')"
proof -
  let ?run = "crq_run q" and ?session = "crq_session q"
  have inv: "run_inv ?run" using assms(2) by (simp add: built_request_def)
  have input: "input_of owner ?run (crq_initial_input q)"
    if "crq_owner_id q = owner" "\<not> uuid_is_nil owner" "run_session_id ?run = se_id ?session"
    using assms(2) that inv
    by (auto simp: built_request_def Let_def CreateRun_new_for_owner_def with_initial_input_def input_of_def
        DurableRunInput_empty_def DurableRunInput_validate_def run_inv_def uuid_is_nil_def
        MAX_DURABLE_RUN_INPUT_BYTES_def split: if_splits)
  have store: "StoredRun_new_with_initial_input owner ?run 1 v (crq_initial_input q) =
      Ok \<lparr>sr_owner_id = owner, sr_run = ?run, sr_run_version = 1, sr_session_version = v,
        sr_initial_input = crq_initial_input q\<rparr>"
    if "input_of owner ?run (crq_initial_input q)" "\<not> uuid_is_nil owner" "v \<noteq> 0" for v
    using that by (simp add: StoredRun_new_with_initial_input_def input_of_def)
  have version: "v \<noteq> 0 \<and> (case sessions s (owner, se_id ?session) of None \<Rightarrow> True
      | Some old \<Rightarrow> ss_owner_id old = crq_owner_id q \<and> ss_definition old = se_definition ?session \<and>
          ss_policy old = crq_concurrency_policy q)"
    if "next_session_version (sessions s (owner, se_id ?session)) q = Ok v" for v
    using that by (auto simp: next_session_version_def checked_add_Some_iff split: option.splits if_splits)
  show ?thesis
  proof (cases "\<exists>e. r = Err e \<and> s' = s")
    case False
    with assms(1) obtain v where ok: "\<not> uuid_is_nil owner" "crq_owner_id q = owner" "run_state ?run = Queued"
      "run_session_id ?run = se_id ?session" "run_definition_id ?run = dp_id (se_definition ?session)"
      "run_definition_version ?run = dp_version (se_definition ?session)"
      "runs s (owner, run_id ?run) = None"
      "next_session_version (sessions s (owner, se_id ?session)) q = Ok v"
      "crq_concurrency_policy q = Serial \<longrightarrow> serial_claims s (owner, se_id ?session) = None"
      unfolding create_run_def Let_def by (auto split: if_splits sum.splits)
    define stored where "stored = \<lparr>sr_owner_id = owner, sr_run = ?run, sr_run_version = 1,
      sr_session_version = v, sr_initial_input = crq_initial_input q\<rparr>"
    define session where "session = \<lparr>ss_version = v, ss_owner_id = crq_owner_id q,
      ss_definition = se_definition ?session, ss_policy = crq_concurrency_policy q\<rparr>"
    have new: "StoredRun_new_with_initial_input owner ?run 1 v (crq_initial_input q) = Ok stored"
      unfolding stored_def using ok input version by (intro store) simp_all
    have *: "r = Ok stored" "s' = s\<lparr>sessions := (sessions s)((owner, se_id ?session) \<mapsto> session),
      serial_claims := (if crq_concurrency_policy q = Serial
        then (serial_claims s)((owner, se_id ?session) \<mapsto> run_id ?run) else serial_claims s),
      runs := (runs s)((owner, run_id ?run) \<mapsto> new_aggregate stored)\<rparr>"
      using assms(1) False ok(1-7) unfolding create_run_def Let_def ok(8)
      by (auto simp: session_def new ok split: if_splits)
    have "opens_run owner stored session s s'"
      using ok inv input [OF ok(2,1,4)] version [OF ok(8)] unfolding *(2)
      by (simp add: opens_run_def stored_def session_def fits_session_def split: option.splits)
    moreover have "same_index s s'" unfolding *(2) by (simp add: same_index_def)
    ultimately show ?thesis using *(1) by blast
  qed blast
qed

lemma retry_prepare_opens:
  assumes "retry_prepare s owner q source = Ok (session, version, stored)"
    and s1: "sessions s' = (sessions s)((owner, run_session_id (sr_run source)) \<mapsto> session\<lparr>ss_version := version\<rparr>)"
      "serial_claims s' = (if ss_policy session = Serial
         then (serial_claims s)((owner, run_session_id (sr_run source)) \<mapsto> rtq_new_run_id q) else serial_claims s)"
      "runs s' = (runs s)((owner, rtq_new_run_id q) \<mapsto> new_aggregate stored)"
      "authoritative_grants s' = authoritative_grants s" "authoritative_policies s' = authoritative_policies s"
      "grant_consumptions s' = grant_consumptions s" "approvals s' = approvals s"
  shows "opens_run owner stored (session\<lparr>ss_version := version\<rparr>) s s'"
proof -
  let ?run = "sr_run source"
  obtain new_run i where
    ok: "runs s (owner, rtq_new_run_id q) = None"
      "sessions s (owner, run_session_id ?run) = Some session"
      "\<not> (dp_id (ss_definition session) \<noteq> run_definition_id ?run
        \<or> dp_version (ss_definition session) \<noteq> run_definition_version ?run
        \<or> ss_policy session = Serial \<and> serial_claims s (owner, run_session_id ?run) \<noteq> None)"
      "run_queued (rtq_new_run_id q) (run_session_id ?run) (run_definition_id ?run)
        (run_definition_version ?run) = Ok new_run"
      "StoredRun_new_with_initial_input owner new_run 1 version i = Ok stored"
    using assms(1) unfolding retry_prepare_def Let_def
    by (auto simp del: split_paired_Ex split: if_splits)
  have run: "run_id new_run = rtq_new_run_id q" "run_session_id new_run = run_session_id ?run"
    "run_definition_id new_run = run_definition_id ?run"
    "run_definition_version new_run = run_definition_version ?run" "run_state new_run = Queued" "run_inv new_run"
    using ok(4) by (auto simp: run_queued_def from_parts_ok)
  have stored: "sr_run stored = new_run" "sr_owner_id stored = owner" "input_of owner new_run (sr_initial_input stored)"
    using ok(5) by (auto simp: StoredRun_new_with_initial_input_def input_of_def split: if_splits)
  show ?thesis
    using ok(1-3) by (auto simp: opens_run_def run stored fits_session_def s1)
qed

lemma CommandReceipt_new_Err: "CommandReceipt_new L c outcome = Err e \<Longrightarrow> e = Panicked"
  by (auto simp: CommandReceipt_new_def command_digest_def try_then_eq_Inl expect_def split: sum.splits)

lemma retry_fresh_effect:
  assumes "retry_fresh L s owner q source command = (r, s')" and "commands s (owner, rtq_command_id q) = None"
    and ids: "rtq_source_run_id q \<noteq> 0" "rtq_source_run_id q \<noteq> rtq_new_run_id q"
  shows "s' = s \<and> (\<exists>e. r = Err (Raised e)) \<or>
    (\<exists>stored session. opens_run owner stored session s s' \<and>
      (r = Err Panicked \<and> same_index s s' \<or>
       (\<exists>answer. r = Ok answer \<and> rro_run answer = stored) \<and> indexes owner s s'))"
proof (cases "retry_prepare s owner q (ra_stored source)")
  case (Inr x)
  obtain session version stored where x: "x = (session, version, stored)" by (cases x)
  note p = Inr [unfolded x]
  have open': "opens_run owner stored (session\<lparr>ss_version := version\<rparr>) s s'"
    using assms(1) by (intro retry_prepare_opens [OF p])
      (auto simp: retry_fresh_def p Let_def split: sum.splits)
  have new: "run_id (sr_run stored) = rtq_new_run_id q"
    using p unfolding retry_prepare_def Let_def
    by (auto simp: run_queued_def from_parts_ok StoredRun_new_with_initial_input_def split: if_splits)
  show ?thesis
  proof (cases "CommandReceipt_new L command Accepted")
    case (Inl e)
    then have "e = Panicked" by (rule CommandReceipt_new_Err)
    with Inl assms(1) have "r = Err Panicked" "same_index s s'"
      by (auto simp: retry_fresh_def p Let_def same_index_def)
    with open' show ?thesis by blast
  next
    case (Inr receipt)
    have "\<exists>answer. r = Ok answer \<and> rro_run answer = stored"
      using assms(1) Inr ids new by (auto simp: retry_fresh_def p Let_def RetryRunOutcome_new_def uuid_is_nil_def)
    moreover have "indexes owner s s'"
      unfolding indexes_def using assms(1,2) Inr
      by (intro exI [of _ "rtq_command_id q"] exI conjI) (auto simp: retry_fresh_def p Let_def)
    ultimately show ?thesis using open' by blast
  qed
qed (use assms(1) in \<open>auto simp: retry_fresh_def\<close>)

lemma retry_run_effect:
  assumes "retry_run L s owner q = (r, s')"
  shows "s' = s \<or>
    (\<exists>stored session. opens_run owner stored session s s' \<and>
      (r = Err Panicked \<and> same_index s s' \<or>
       (\<exists>answer. r = Ok answer \<and> rro_run answer = stored) \<and> indexes owner s s'))"
proof (cases "s' = s")
  case False
  with assms obtain source command where "retry_fresh L s owner q source command = (r, s')"
    "commands s (owner, rtq_command_id q) = None" and command: "RuntimeCommand_new (rtq_command_id q)
      (run_session_id (sr_run (ra_stored source))) (RetryRun (rtq_source_run_id q) (rtq_new_run_id q)) = Ok command"
    unfolding retry_run_def Let_def by (auto split: if_splits option.splits sum.splits)
  moreover have "rtq_source_run_id q \<noteq> 0" "rtq_source_run_id q \<noteq> rtq_new_run_id q"
    using command by (auto simp: RuntimeCommand_new_def payload_validate_def valid_uuid_def uuid_is_nil_def)
  ultimately show ?thesis using retry_fresh_effect by blast
qed simp

definition leases :: "uuid \<Rightarrow> RunAggregate \<Rightarrow> ExecutionLease \<Rightarrow> State \<Rightarrow> State \<Rightarrow> bool" where
  "leases owner g lease s s' \<longleftrightarrow> runs s (owner, el_run_id lease) = Some g \<and>
     s' = set_lease s (owner, el_run_id lease) g lease"

lemma acquire_lease_effect:
  assumes "store_acquire_lease s owner run version duration new_v4 now = (r, s')"
  shows "(\<exists>e. r = Err e) \<and> s' = s \<or> (\<exists>g lease. r = Ok lease \<and> leases owner g lease s s')"
  using assms unfolding store_acquire_lease_def leases_def
  by (auto simp: ExecutionLease_new_def split: if_splits option.splits sum.splits)

lemma renew_lease_effect:
  assumes "store_renew_lease s owner lease duration now = (r, s')"
  shows "(\<exists>e. r = Err e) \<and> s' = s \<or> (\<exists>g renewed. r = Ok renewed \<and> leases owner g renewed s s')"
  using assms unfolding store_renew_lease_def leases_def
  by (auto simp: ExecutionLease_new_def split: if_splits option.splits sum.splits)

text \<open>A grant that replaces the one stored under its key: created, revised upwards or revoked.\<close>

definition grant_succeeds :: "AuthoritativeGrantState option \<Rightarrow> AuthoritativeGrantState \<Rightarrow> bool" where
  "grant_succeeds old a \<longleftrightarrow> (case old of None \<Rightarrow> True
     | Some b \<Rightarrow> ags_revision b < ags_revision a \<or> a = as_revoked b)"

lemma grant_effect:
  assumes "apply_authoritative_grant s owner change = (r, s')"
  shows "(\<exists>e. r = Err e) \<and> s' = s \<or>
    (\<exists>a. r = Ok a \<and> grant_succeeds (authoritative_grants s (owner, ags_authority_key a)) a \<and>
       s' = s\<lparr>authoritative_grants := (authoritative_grants s)((owner, ags_authority_key a) \<mapsto> a)\<rparr>)"
  using assms unfolding apply_authoritative_grant_def grant_succeeds_def
  by (cases change; cases "authoritative_grants s (owner, grant_change_authority_key change)")
    (auto simp: as_revoked_def split: if_splits)

definition policy_succeeds :: "AuthoritativePolicyState option \<Rightarrow> AuthoritativePolicyState \<Rightarrow> bool" where
  "policy_succeeds old p \<longleftrightarrow> (case old of None \<Rightarrow> True
     | Some b \<Rightarrow> aps_revision b < aps_revision p \<or> p = policy_revoked b)"

lemma policy_effect:
  assumes "apply_authoritative_policy s owner change = (r, s')"
  shows "(\<exists>e. r = Err e) \<and> s' = s \<or>
    (\<exists>p. r = Ok p \<and> aps_owner_id p = owner \<and> policy_succeeds (authoritative_policies s (owner, policy_key p)) p \<and>
       s' = s\<lparr>authoritative_policies := (authoritative_policies s)((owner, policy_key p) \<mapsto> p)\<rparr>)"
  using assms unfolding apply_authoritative_policy_def policy_succeeds_def Let_def
  by (cases change; cases "authoritative_policies s (owner, policy_change_key change)")
    (auto simp: policy_revoked_def policy_key_def split: if_splits)

text \<open>The six things a call can do to the state.\<close>

inductive store_effect :: "'x store_lib_scheme \<Rightarrow> uuid \<Rightarrow> State \<Rightarrow> State \<Rightarrow> bool" for L owner s where
  nothing: "store_effect L owner s s"
| policy: "policy_succeeds (authoritative_policies s (owner, policy_key p)) p \<Longrightarrow> aps_owner_id p = owner \<Longrightarrow>
    s' = s\<lparr>authoritative_policies := (authoritative_policies s)((owner, policy_key p) \<mapsto> p)\<rparr> \<Longrightarrow>
    store_effect L owner s s'"
| grant: "grant_succeeds (authoritative_grants s (owner, ags_authority_key a)) a \<Longrightarrow>
    s' = s\<lparr>authoritative_grants := (authoritative_grants s)((owner, ags_authority_key a) \<mapsto> a)\<rparr> \<Longrightarrow>
    store_effect L owner s s'"
| opened: "opens_run owner stored session s s' \<Longrightarrow> same_index s s' \<or> indexes owner s s' \<Longrightarrow>
    store_effect L owner s s'"
| lease: "leases owner g l s s' \<Longrightarrow> store_effect L owner s s'"
| commit: "fresh_commit L owner c now s g p s' \<Longrightarrow> built_commit L c \<Longrightarrow> store_effect L owner s s'"

lemma store_step_effect: "store_step L owner s s' \<Longrightarrow> store_effect L owner s s'"
proof (induction rule: store_step.induct)
  case (policy change r s')
  then show ?case using policy_effect store_effect.nothing store_effect.policy by metis
next
  case (grant change r s')
  then show ?case using grant_effect store_effect.nothing store_effect.grant by metis
next
  case (create q r s')
  then show ?case using create_run_effect store_effect.nothing store_effect.opened by metis
next
  case (retry q r s')
  then show ?case using retry_run_effect store_effect.nothing store_effect.opened by metis
next
  case (acquire run version duration new_v4 now r s')
  then show ?case using acquire_lease_effect store_effect.nothing store_effect.lease by metis
next
  case (renew lease duration now r s')
  then show ?case using renew_lease_effect store_effect.nothing store_effect.lease by metis
next
  case (commit c now r s')
  from commit(1) show ?case
    by (cases rule: commit_execution_cases)
      (use commit(2) store_effect.nothing store_effect.commit in \<open>blast+\<close>)
qed

section \<open>The invariant\<close>

definition live :: "Run \<Rightarrow> bool" where
  "live r \<longleftrightarrow> \<not> is_terminal (run_state r)"

text \<open>What holds of a stored run: its keys, its shape, its lease and its numbered events.\<close>

definition entry_ok :: "uuid \<Rightarrow> uuid \<Rightarrow> RunAggregate \<Rightarrow> bool" where
  "entry_ok owner i g \<longleftrightarrow>
     (let run = sr_run (ra_stored g) in
      run_id run = i \<and> sr_owner_id (ra_stored g) = owner \<and> run_inv run \<and>
      input_of owner run (sr_initial_input (ra_stored g)) \<and>
      (\<forall>l. ra_lease g = Some l \<longrightarrow> el_run_id l = i) \<and>
      map (\<lambda>e. unat (ev_sequence e)) (ra_events g) = [1..<Suc (length (ra_events g))] \<and>
      length (ra_events g) < 2 ^ 64 \<and>
      (\<forall>e \<in> set (ra_events g). event_scope e = (owner, run_session_id run, i)))"

text \<open>The session of a run, and the claim that a serial session has on its live run.\<close>

definition session_ok :: "State \<Rightarrow> uuid \<Rightarrow> uuid \<Rightarrow> RunAggregate \<Rightarrow> bool" where
  "session_ok s owner i g \<longleftrightarrow>
     (\<exists>session. sessions s (owner, run_session_id (sr_run (ra_stored g))) = Some session \<and>
        fits_session session (sr_run (ra_stored g)) \<and>
        (ss_policy session = Serial \<and> live (sr_run (ra_stored g)) \<longrightarrow>
           serial_claims s (owner, run_session_id (sr_run (ra_stored g))) = Some i))"

definition claim_ok :: "State \<Rightarrow> uuid \<Rightarrow> uuid \<Rightarrow> uuid \<Rightarrow> bool" where
  "claim_ok s owner k i \<longleftrightarrow>
     (\<exists>g session. runs s (owner, i) = Some g \<and> run_session_id (sr_run (ra_stored g)) = k \<and>
        live (sr_run (ra_stored g)) \<and> sessions s (owner, k) = Some session \<and> ss_policy session = Serial)"

definition store_inv :: "State \<Rightarrow> bool" where
  "store_inv s \<longleftrightarrow>
     (\<forall>owner i g. runs s (owner, i) = Some g \<longrightarrow> entry_ok owner i g \<and> session_ok s owner i g) \<and>
     (\<forall>owner k i. serial_claims s (owner, k) = Some i \<longrightarrow> claim_ok s owner k i) \<and>
     (\<forall>owner k session. sessions s (owner, k) = Some session \<longrightarrow> ss_owner_id session = owner) \<and>
     (\<forall>owner k a. authoritative_grants s (owner, k) = Some a \<longrightarrow> ags_authority_key a = k) \<and>
     dom (receipts s) = dom (commands s) \<and> dom (outcomes s) = dom (commands s) \<and>
     finite (grant_consumptions s)"

lemma entry_ok_runD:
  "entry_ok owner i g \<Longrightarrow> run_id (sr_run (ra_stored g)) = i \<and> run_inv (sr_run (ra_stored g))"
  by (simp add: entry_ok_def Let_def)

lemma entry_ok_new:
  "sr_owner_id stored = owner \<Longrightarrow> run_inv (sr_run stored) \<Longrightarrow> input_of owner (sr_run stored) (sr_initial_input stored) \<Longrightarrow>
    entry_ok owner (run_id (sr_run stored)) (new_aggregate stored)"
  by (simp add: entry_ok_def new_aggregate_def)

lemma entry_ok_lease:
  "entry_ok owner (el_run_id l) g \<Longrightarrow> entry_ok owner (el_run_id l) (g\<lparr>ra_lease := Some l\<rparr>)"
  by (simp add: entry_ok_def Let_def)

lemma patch_aggregate_sel [simp]:
  "ra_stored (patch_aggregate g p) = cpt_stored p" "ra_lease (patch_aggregate g p) = cpt_lease p"
  "ra_events (patch_aggregate g p) = ra_events g @ cpt_events p"
  by (simp_all add: patch_aggregate_def)

lemma event_window_ok:
  assumes "event_window s owner g c = Ok (session, n)"
  shows "sessions s (owner, run_session_id (sr_run (ra_stored g))) = Some session"
    and "batch_ok (of_nat (length (ra_events g)) + 1) (ec_events c)"
    and "length (ra_events g) + length (ec_events c) < 2 ^ 64"
    and "unat (of_nat (length (ra_events g)) + 1 :: u64) = Suc (length (ra_events g))"
    and "unat n = length (ra_events g) + length (ec_events c)"
    and "\<forall>e \<in> set (ec_events c). event_scope e =
      (ss_owner_id session, run_session_id (sr_run (ra_stored g)), el_run_id (ec_lease c))"
proof -
  from assms obtain cur first cnt where w: "u64_from (length (ra_events g)) = Ok cur"
    "checked_add cur 1 = Some first" "u64_from (length (ec_events c)) = Ok cnt"
    "checked_add cur cnt = Some n" "validate_batch first (ec_events c) = Ok ()"
    "sessions s (owner, run_session_id (sr_run (ra_stored g))) = Some session"
    "\<forall>e \<in> set (ec_events c). ev_owner_id e = ss_owner_id session \<and> ev_run_id e = el_run_id (ec_lease c) \<and>
       ev_session_id e = run_session_id (sr_run (ra_stored g))"
    by (auto simp: event_window_def Let_def list_ex_iff split: if_splits)
  have cur: "cur = of_nat (length (ra_events g))" "unat cur = length (ra_events g)"
    and cnt: "unat cnt = length (ec_events c)"
    using w(1,3) by (auto simp: u64_from_def unsigned_of_nat take_bit_nat_eq_self split: if_splits)
  have first: "first = cur + 1" "unat first = Suc (length (ra_events g))"
    using w(2) cur by (auto simp: checked_add_def unat_add_in_range split: if_splits)
  show "sessions s (owner, run_session_id (sr_run (ra_stored g))) = Some session" by (rule w(6))
  show "batch_ok (of_nat (length (ra_events g)) + 1) (ec_events c)"
    using w(5) first cur by (simp add: validate_batch_ok)
  show n: "unat n = length (ra_events g) + length (ec_events c)"
    using w(4) cur cnt by (simp add: checked_add_Some_iff)
  have "unat n < 2 ^ LENGTH(64)" by (rule unsigned_less)
  then show "length (ra_events g) + length (ec_events c) < 2 ^ 64" using n by simp
  show "unat (of_nat (length (ra_events g)) + 1 :: u64) = Suc (length (ra_events g))"
    using first cur by simp
  show "\<forall>e \<in> set (ec_events c). event_scope e =
      (ss_owner_id session, run_session_id (sr_run (ra_stored g)), el_run_id (ec_lease c))"
    using w(7) by (simp add: event_scope_def)
qed

lemma valid_transition_ids:
  assumes "valid_command_transition r r' cmd approval grant attempts"
  shows "run_id r' = run_id r" "run_session_id r' = run_session_id r"
    "run_definition_id r' = run_definition_id r" "run_definition_version r' = run_definition_version r"
    "live r" "cmd_session_id cmd = run_session_id r" "target_run_id cmd = run_id r"
  using assms by (simp_all add: valid_command_transition_def live_def)

lemma entry_okD:
  assumes "entry_ok owner i g"
  shows "run_id (sr_run (ra_stored g)) = i" and "sr_owner_id (ra_stored g) = owner"
    and "run_inv (sr_run (ra_stored g))"
    and "input_of owner (sr_run (ra_stored g)) (sr_initial_input (ra_stored g))"
    and "\<forall>l. ra_lease g = Some l \<longrightarrow> el_run_id l = i"
    and "map (\<lambda>e. unat (ev_sequence e)) (ra_events g) = [1..<Suc (length (ra_events g))]"
    and "length (ra_events g) < 2 ^ 64"
    and "\<forall>e \<in> set (ra_events g). event_scope e = (owner, run_session_id (sr_run (ra_stored g)), i)"
  using assms unfolding entry_ok_def Let_def by blast+

lemma commit_entry_ok:
  assumes "fresh_commit L owner c now s g p s'" and "built_commit L c"
    and "entry_ok owner (el_run_id (ec_lease c)) g"
    and "\<forall>k session. sessions s (owner, k) = Some session \<longrightarrow> ss_owner_id session = owner"
  shows "entry_ok owner (el_run_id (ec_lease c)) (patch_aggregate g (final_patch c p))"
proof (rule fresh_commit_parts [OF assms(1)])
  fix session last_sequence
  assume ids: "valid_command_transition (sr_run (ra_stored g)) (ec_target_run c) (ec_command c)
      (ec_approval c) (ec_dispatch_grant c) (ec_attempts c)"
    and window: "event_window s owner g c = Ok (session, last_sequence)"
    and stored: "commit_stored_run s owner g c session = Ok (cpt_stored p, cpt_session_update p)"
    and lease: "cpt_lease p = commit_lease g c" and events: "cpt_events p = ec_events c"
  note w = event_window_ok [OF window]
  have "map (\<lambda>e. unat (ev_sequence e)) (ec_events c) =
      [Suc (length (ra_events g))..<Suc (length (ra_events g) + length (ec_events c))]"
    using w(2,4) by (simp add: batch_ok_def)
  moreover have "[1..<Suc (length (ra_events g) + length (ec_events c))] =
      [1..<Suc (length (ra_events g))] @ [Suc (length (ra_events g))..<Suc (length (ra_events g) + length (ec_events c))]"
    using upt_add_eq_append [of 1 "Suc (length (ra_events g))" "length (ec_events c)"] by simp
  ultimately have seq: "map (\<lambda>e. unat (ev_sequence e)) (ra_events g @ ec_events c) =
      [1..<Suc (length (ra_events g @ ec_events c))]"
    by (simp add: entry_okD(6) [OF assms(3)] del: upt_Suc)
  have owner: "ss_owner_id session = owner" using assms(4) w(1) by blast
  note st = commit_stored_run_ok [OF stored] and same = valid_transition_ids [OF ids]
  note g = entry_okD [OF assms(3)]
  show ?thesis
    unfolding entry_ok_def Let_def patch_aggregate_sel final_patch_sel st(1,2,4) lease events same(1,2) g(1)
  proof (intro conjI)
    show "input_of owner (ec_target_run c) (sr_initial_input (ra_stored g))"
      using g(4) by (simp add: input_of_def same)
    show "\<forall>l. commit_lease g c = Some l \<longrightarrow> el_run_id l = el_run_id (ec_lease c)"
      using g(5) unfolding commit_lease_def by (metis option.distinct(1))
    show "\<forall>e \<in> set (ra_events g @ ec_events c). event_scope e =
        (owner, run_session_id (sr_run (ra_stored g)), el_run_id (ec_lease c))"
      using g(8) w(6) owner by (simp add: ball_Un)
  qed (use seq w(3) assms(2) in \<open>simp_all add: built_commit_def del: upt_Suc\<close>)
qed

text \<open>How a commit moves the session and the claim of its run.\<close>

lemma commit_session:
  assumes "fresh_commit L owner c now s g p s'"
  obtains session where
    "sessions s (owner, run_session_id (sr_run (ra_stored g))) = Some session"
    "\<exists>v. sessions s' = (sessions s)((owner, run_session_id (sr_run (ra_stored g))) \<mapsto> session\<lparr>ss_version := v\<rparr>)"
    "serial_claims s' = (if \<not> live (ec_target_run c) \<and>
        serial_claims s (owner, run_session_id (sr_run (ra_stored g))) = Some (el_run_id (ec_lease c))
      then (serial_claims s)((owner, run_session_id (sr_run (ra_stored g))) := None) else serial_claims s)"
proof -
  obtain session where session: "sessions s (owner, run_session_id (sr_run (ra_stored g))) = Some session"
    and stored: "commit_stored_run s owner g c session = Ok (cpt_stored p, cpt_session_update p)"
    and ids: "valid_command_transition (sr_run (ra_stored g)) (ec_target_run c) (ec_command c)
      (ec_approval c) (ec_dispatch_grant c) (ec_attempts c)"
    using assms by (rule fresh_commit_run)
  note st = commit_stored_run_ok [OF stored] and k = valid_transition_ids(2) [OF ids]
  have "\<exists>v. sessions s' = (sessions s)((owner, run_session_id (sr_run (ra_stored g))) \<mapsto> session\<lparr>ss_version := v\<rparr>)"
  proof (cases "cpt_session_update p")
    case None
    then have "sessions s' = sessions s" by (simp add: fresh_commit_state(4) [OF assms])
    then show ?thesis using session by (intro exI [of _ "ss_version session"]) (simp add: map_upd_triv)
  next
    case (Some update)
    then have "update = session\<lparr>ss_version := ss_version session + 1\<rparr>" using st(5) by (simp split: if_splits)
    then show ?thesis using Some by (auto simp: fresh_commit_state(4) [OF assms] st(1) k)
  qed
  moreover have "serial_claims s' = (if \<not> live (ec_target_run c) \<and>
        serial_claims s (owner, run_session_id (sr_run (ra_stored g))) = Some (el_run_id (ec_lease c))
      then (serial_claims s)((owner, run_session_id (sr_run (ra_stored g))) := None) else serial_claims s)"
    unfolding fresh_commit_state(5) [OF assms] st(5) by (simp add: st(1) k live_def)
  ultimately show thesis using that session by blast
qed

lemma store_invD:
  assumes "store_inv s"
  shows "runs s (owner, i) = Some g \<Longrightarrow> entry_ok owner i g"
    and "runs s (owner, i) = Some g \<Longrightarrow> session_ok s owner i g"
    and "serial_claims s (owner, k) = Some i \<Longrightarrow> claim_ok s owner k i"
    and "sessions s (owner, k) = Some session \<Longrightarrow> ss_owner_id session = owner"
    and "authoritative_grants s (owner, key) = Some a \<Longrightarrow> ags_authority_key a = key"
    and "dom (receipts s) = dom (commands s)" "dom (outcomes s) = dom (commands s)"
    and "finite (grant_consumptions s)"
  using assms unfolding store_inv_def by blast+

lemma open_run_new:
  assumes "opens_run owner stored session s s'"
  shows "runs s (owner, run_id (sr_run stored)) = None"
    and "runs s' = (runs s)((owner, run_id (sr_run stored)) \<mapsto> new_aggregate stored)"
    and "sessions s' = (sessions s)((owner, run_session_id (sr_run stored)) \<mapsto> session)"
    and "serial_claims s' = (if ss_policy session = Serial
      then (serial_claims s)((owner, run_session_id (sr_run stored)) \<mapsto> run_id (sr_run stored)) else serial_claims s)"
    and "ss_policy session = Serial \<Longrightarrow> serial_claims s (owner, run_session_id (sr_run stored)) = None"
    and "entry_ok owner (run_id (sr_run stored)) (new_aggregate stored)"
    and "fits_session session (sr_run stored)" and "live (sr_run stored)" and "run_inv (sr_run stored)"
    and "run_state (sr_run stored) = Queued"
    and "case sessions s (owner, run_session_id (sr_run stored)) of
         None \<Rightarrow> ss_owner_id session = owner
       | Some old \<Rightarrow> ss_owner_id session = ss_owner_id old \<and> ss_policy session = ss_policy old \<and>
           ss_definition session = ss_definition old"
    and "authoritative_grants s' = authoritative_grants s" "grant_consumptions s' = grant_consumptions s"
      "authoritative_policies s' = authoritative_policies s" "approvals s' = approvals s"
  using assms unfolding opens_run_def Let_def
  by (simp_all add: entry_ok_new live_def is_terminal_def)

lemma open_session_ok:
  assumes "opens_run owner stored session s s'" and "store_inv s" and "runs s' (o', i) = Some g"
  shows "session_ok s' o' i g"
proof (cases "(o', i) = (owner, run_id (sr_run stored))")
  case True
  then have "g = new_aggregate stored" using assms(3) open_run_new(2) [OF assms(1)] by simp
  then show ?thesis using True open_run_new(3,4,7) [OF assms(1)]
    by (simp add: session_ok_def new_aggregate_def)
next
  case False
  then have g: "runs s (o', i) = Some g" using assms(3) open_run_new(2) [OF assms(1)] by (auto split: if_splits)
  from store_invD(2) [OF assms(2) g] obtain old where
    old: "sessions s (o', run_session_id (sr_run (ra_stored g))) = Some old" "fits_session old (sr_run (ra_stored g))"
      "ss_policy old = Serial \<and> live (sr_run (ra_stored g)) \<longrightarrow>
         serial_claims s (o', run_session_id (sr_run (ra_stored g))) = Some i"
    by (auto simp: session_ok_def)
  show ?thesis
  proof (cases "(o', run_session_id (sr_run (ra_stored g))) = (owner, run_session_id (sr_run stored))")
    case True
    then show ?thesis using old open_run_new(3,4,5,11) [OF assms(1)]
      by (auto simp: session_ok_def fits_session_def)
  next
    case False
    then show ?thesis using old open_run_new(3,4) [OF assms(1)]
      by (auto simp: session_ok_def)
  qed
qed

lemma open_claim_ok:
  assumes "opens_run owner stored session s s'" and "store_inv s" and "serial_claims s' (o', k) = Some i"
  shows "claim_ok s' o' k i"
proof (cases "ss_policy session = Serial \<and> (o', k) = (owner, run_session_id (sr_run stored))")
  case True
  then show ?thesis using assms(3) open_run_new(2,3,4,8) [OF assms(1)]
    by (auto simp: claim_ok_def new_aggregate_def)
next
  case False
  then have "serial_claims s (o', k) = Some i"
    using assms(3) open_run_new(4) [OF assms(1)] by (auto split: if_splits)
  from store_invD(3) [OF assms(2) this] obtain g old where
    "runs s (o', i) = Some g" "run_session_id (sr_run (ra_stored g)) = k" "live (sr_run (ra_stored g))"
    "sessions s (o', k) = Some old" "ss_policy old = Serial"
    by (auto simp: claim_ok_def)
  moreover from this have "(o', i) \<noteq> (owner, run_id (sr_run stored))"
    using open_run_new(1) [OF assms(1)] by auto
  ultimately show ?thesis
    using False open_run_new(2,3,11) [OF assms(1)] unfolding claim_ok_def by auto
qed

lemma open_inv:
  assumes "opens_run owner stored session s s'" and "same_index s s' \<or> indexes owner s s'" and "store_inv s"
  shows "store_inv s'"
proof -
  have entry: "entry_ok o' i g" if "runs s' (o', i) = Some g" for o' i g
    using that open_run_new(2,6) [OF assms(1)] store_invD(1) [OF assms(3)] by (auto split: if_splits)
  have owner: "ss_owner_id x = o'" if "sessions s' (o', k) = Some x" for o' k x
    using that open_run_new(3,11) [OF assms(1)] store_invD(4) [OF assms(3)]
    by (auto split: if_splits option.splits)
  have "dom (receipts s') = dom (commands s') \<and> dom (outcomes s') = dom (commands s')"
    using assms(2)
  proof
    assume "same_index s s'"
    then show ?thesis using store_invD(6,7) [OF assms(3)] by (simp add: same_index_def)
  next
    assume "indexes owner s s'"
    then show ?thesis unfolding indexes_def
      by (elim exE conjE) (simp add: store_invD(6,7) [OF assms(3)])
  qed
  then show ?thesis
    unfolding store_inv_def
    using entry owner open_session_ok [OF assms(1,3)] open_claim_ok [OF assms(1,3)]
      store_invD(5,8) [OF assms(3)] open_run_new(12,13) [OF assms(1)] by simp
qed

lemma lease_inv:
  assumes "leases owner g l s s'" and "store_inv s"
  shows "store_inv s'"
proof -
  have g: "runs s (owner, el_run_id l) = Some g" and s': "s' = set_lease s (owner, el_run_id l) g l"
    using assms(1) by (simp_all add: leases_def)
  have entry: "entry_ok o' i h" if "runs s' (o', i) = Some h" for o' i h
    using that store_invD(1) [OF assms(2)] entry_ok_lease [OF store_invD(1) [OF assms(2) g]]
    unfolding s' by (auto simp: set_lease_def split: if_splits)
  have session: "session_ok s' o' i h" if h: "runs s' (o', i) = Some h" for o' i h
  proof -
    obtain h0 where "runs s (o', i) = Some h0" "ra_stored h0 = ra_stored h"
      using h g unfolding s' by (auto simp: set_lease_def split: if_splits)
    then show ?thesis using store_invD(2) [OF assms(2)] unfolding s'
      by (force simp: session_ok_def set_lease_def)
  qed
  have claim: "claim_ok s' o' k i" if "serial_claims s' (o', k) = Some i" for o' k i
    using that store_invD(3) [OF assms(2), of o' k i] g unfolding s'
    by (auto simp: claim_ok_def set_lease_def)
  show ?thesis
    unfolding store_inv_def using entry session claim store_invD(4-8) [OF assms(2)]
    unfolding s' by (simp add: set_lease_def)
qed

lemma commit_target:
  assumes "fresh_commit L owner c now s g p s'"
  shows "runs s (owner, el_run_id (ec_lease c)) = Some g"
    and "runs s' = (runs s)((owner, el_run_id (ec_lease c)) \<mapsto> patch_aggregate g (final_patch c p))"
    and "sr_run (cpt_stored p) = ec_target_run c"
    and "run_session_id (ec_target_run c) = run_session_id (sr_run (ra_stored g))"
    and "fits_session x (ec_target_run c) \<longleftrightarrow> fits_session x (sr_run (ra_stored g))"
    and "live (sr_run (ra_stored g))"
proof -
  obtain session where "runs s (owner, el_run_id (ec_lease c)) = Some g"
    and stored: "commit_stored_run s owner g c session = Ok (cpt_stored p, cpt_session_update p)"
    and ids: "valid_command_transition (sr_run (ra_stored g)) (ec_target_run c) (ec_command c)
      (ec_approval c) (ec_dispatch_grant c) (ec_attempts c)"
    using assms by (rule fresh_commit_run)
  then show "runs s (owner, el_run_id (ec_lease c)) = Some g"
    "sr_run (cpt_stored p) = ec_target_run c"
    "run_session_id (ec_target_run c) = run_session_id (sr_run (ra_stored g))"
    "fits_session x (ec_target_run c) \<longleftrightarrow> fits_session x (sr_run (ra_stored g))"
    "live (sr_run (ra_stored g))"
    using commit_stored_run_ok(1) [OF stored] valid_transition_ids [OF ids]
    by (simp_all add: fits_session_def)
  show "runs s' = (runs s)((owner, el_run_id (ec_lease c)) \<mapsto> patch_aggregate g (final_patch c p))"
    by (rule fresh_commit_state(1) [OF assms])
qed

lemma commit_session_ok:
  assumes "fresh_commit L owner c now s g p s'" and "store_inv s" and "runs s' (o', i) = Some h"
  shows "session_ok s' o' i h"
proof -
  note t = commit_target [OF assms(1)]
  obtain session v where session: "sessions s (owner, run_session_id (sr_run (ra_stored g))) = Some session"
    and sessions: "sessions s' = (sessions s)((owner, run_session_id (sr_run (ra_stored g))) \<mapsto> session\<lparr>ss_version := v\<rparr>)"
    and claims: "serial_claims s' = (if \<not> live (ec_target_run c) \<and>
        serial_claims s (owner, run_session_id (sr_run (ra_stored g))) = Some (el_run_id (ec_lease c))
      then (serial_claims s)((owner, run_session_id (sr_run (ra_stored g))) := None) else serial_claims s)"
    using commit_session [OF assms(1)] by metis
  have keep: "\<exists>x. sessions s' (o', k) = Some x \<and> ss_policy x = ss_policy y \<and> ss_definition x = ss_definition y"
    if "sessions s (o', k) = Some y" for k y
    using that session unfolding sessions by auto
  show ?thesis
  proof (cases "(o', i) = (owner, el_run_id (ec_lease c))")
    case True
    then have h: "h = patch_aggregate g (final_patch c p)" using assms(3) t(2) by simp
    have "session_ok s owner (el_run_id (ec_lease c)) g" using store_invD(2) [OF assms(2)] t(1) .
    then show ?thesis using True session t(3-6) unfolding h session_ok_def claims sessions
      by (auto simp: fits_session_def)
  next
    case False
    then have h: "runs s (o', i) = Some h" using assms(3) t(2) by (auto split: if_splits)
    from store_invD(2) [OF assms(2) this] keep show ?thesis
      using False unfolding session_ok_def fits_session_def claims by fastforce
  qed
qed

lemma commit_claim_ok:
  assumes "fresh_commit L owner c now s g p s'" and "store_inv s" and "serial_claims s' (o', k) = Some i"
  shows "claim_ok s' o' k i"
proof -
  note t = commit_target [OF assms(1)]
  obtain session v where session: "sessions s (owner, run_session_id (sr_run (ra_stored g))) = Some session"
    and sessions: "sessions s' = (sessions s)((owner, run_session_id (sr_run (ra_stored g))) \<mapsto> session\<lparr>ss_version := v\<rparr>)"
    and claims: "serial_claims s' = (if \<not> live (ec_target_run c) \<and>
        serial_claims s (owner, run_session_id (sr_run (ra_stored g))) = Some (el_run_id (ec_lease c))
      then (serial_claims s)((owner, run_session_id (sr_run (ra_stored g))) := None) else serial_claims s)"
    using commit_session [OF assms(1)] by metis
  have old: "serial_claims s (o', k) = Some i" using assms(3) unfolding claims by (auto split: if_splits)
  from store_invD(3) [OF assms(2) old] obtain h x where
    h: "runs s (o', i) = Some h" "run_session_id (sr_run (ra_stored h)) = k" "live (sr_run (ra_stored h))"
      "sessions s (o', k) = Some x" "ss_policy x = Serial"
    by (auto simp: claim_ok_def)
  have x: "\<exists>y. sessions s' (o', k) = Some y \<and> ss_policy y = Serial"
    using h(4,5) session unfolding sessions by auto
  show ?thesis
  proof (cases "(o', i) = (owner, el_run_id (ec_lease c))")
    case True
    then have "h = g" using h(1) t(1) by simp
    then have "live (ec_target_run c)" using assms(3) True h(2) old unfolding claims by (auto split: if_splits)
    then show ?thesis using True x h(2) \<open>h = g\<close> t(2-4) unfolding claim_ok_def by simp
  next
    case False
    then have "runs s' (o', i) = Some h" using t(2) h(1) by auto
    then show ?thesis using x h(2,3) unfolding claim_ok_def by blast
  qed
qed

lemma commit_inv:
  assumes "fresh_commit L owner c now s g p s'" and "built_commit L c" and "store_inv s"
  shows "store_inv s'"
proof -
  note t = commit_target [OF assms(1)] and st = fresh_commit_state [OF assms(1)]
  have entry: "entry_ok o' i h" if "runs s' (o', i) = Some h" for o' i h
    using that t(2) store_invD(1) [OF assms(3)] store_invD(4) [OF assms(3)]
      commit_entry_ok [OF assms(1,2) store_invD(1) [OF assms(3) t(1)]]
    by (auto split: if_splits)
  have owner: "ss_owner_id x = o'" if x: "sessions s' (o', k) = Some x" for o' k x
  proof -
    obtain z v where "sessions s (owner, run_session_id (sr_run (ra_stored g))) = Some z"
      "sessions s' = (sessions s)((owner, run_session_id (sr_run (ra_stored g))) \<mapsto> z\<lparr>ss_version := v\<rparr>)"
      using commit_session [OF assms(1)] by metis
    then obtain y where "sessions s (o', k) = Some y" "ss_owner_id x = ss_owner_id y"
      using x by (auto split: if_splits)
    then show ?thesis using store_invD(4) [OF assms(3)] by simp
  qed
  have grants: "ags_authority_key a = key" if "authoritative_grants s' (o', key) = Some a" for o' key a
    using that store_invD(5) [OF assms(3)] unfolding st(2) by (auto split: option.splits if_splits)
  have "finite (grant_consumptions s')"
    using store_invD(8) [OF assms(3)] unfolding st(3) by (auto split: option.splits)
  then show ?thesis
    unfolding store_inv_def
    using entry owner grants commit_session_ok [OF assms(1,3)] commit_claim_ok [OF assms(1,3)]
      store_invD(6,7) [OF assms(3)]
    by (simp add: st(6-8))
qed

lemma store_effect_inv: "store_effect L owner s s' \<Longrightarrow> store_inv s \<Longrightarrow> store_inv s'"
proof (induction rule: store_effect.induct)
  case (policy p s')
  then show ?case by (simp add: store_inv_def session_ok_def claim_ok_def)
next
  case (grant a s')
  then show ?case by (simp add: store_inv_def session_ok_def claim_ok_def)
qed (use open_inv lease_inv commit_inv in blast)+

lemma default_inv: "store_inv State_default"
  by (simp add: store_inv_def State_default_def)

section \<open>Reachable states\<close>

interpretation store_system: guarded_system "any_step L" store_inv State_default for L :: "'x store_lib_scheme"
  by unfold_locales (auto simp: any_step_def default_inv dest: store_step_effect intro: store_effect_inv)

lemma reachable_inv: "store_reachable L s \<Longrightarrow> store_inv s"
  unfolding store_reachable_def by (rule store_system.reachable_good)

end
