(* ===== verification/Store_Example.thy ===== *)
theory Store_Example
  imports Store_Steps
begin

text \<open>
  A concrete history of the store, evaluated step by step: a policy and a counted grant are
  installed, a run of a serial session is created, leased and started, and it dispatches one
  invocation under the grant. The closed instances of the store's theorems use its states.
\<close>

definition example_store_lib :: store_lib where
  "example_store_lib = checkpoint_lib.extend example_checkpoint_lib
     \<lparr>jcs_checkpoint = (\<lambda>_. Some ''k''), jcs_evaluation = (\<lambda>_. Some ''e'')\<rparr>
     \<lparr>sha256 := (\<lambda>x. take 32 (x @ replicate 32 (CHR ''0'')))\<rparr>"

lemma new_aggregate_sel [simp]:
  "ra_stored (new_aggregate r) = r" "ra_lease (new_aggregate r) = None" "ra_events (new_aggregate r) = []"
  "ra_attempts (new_aggregate r) = []" "ra_results (new_aggregate r) = []" "ra_steps (new_aggregate r) = Map.empty"
  "ra_checkpoint (new_aggregate r) = None" "ra_checkpoint_version (new_aggregate r) = 0"
  "ra_attempt_order (new_aggregate r) = []" "ra_step_order (new_aggregate r) = []"
  "ra_next_step_sequence (new_aggregate r) = 1" "ra_next_attempt_sequence (new_aggregate r) = 1"
  "ra_attempts_fingerprint (new_aggregate r) = replicate 32 0"
  "ra_completed_fingerprint (new_aggregate r) = replicate 32 0"
  by (simp_all add: new_aggregate_def)

section \<open>A store with a policy, a grant, a session and a run\<close>

definition example_policy :: AuthoritativePolicyState where
  "example_policy = \<lparr>aps_owner_id = 5, aps_agent_definition_id = ''d'', aps_agent_definition_version = 1,
     aps_revision = 1, aps_status = PolicyActive, aps_valid_until_ms = None\<rparr>"

definition example_key :: string where
  "example_key = ''gauth-v1:'' @ replicate 64 (CHR ''0'')"

definition example_authority :: "u32 \<Rightarrow> AuthoritativeGrantState" where
  "example_authority uses = \<lparr>ags_owner_id = 5, ags_authority_key = example_key,
     ags_full_grant_digest = ''sha256:'' @ replicate 64 (CHR ''0''),
     ags_scope_digest = ''sha256:'' @ replicate 64 (CHR ''0''), ags_revision = 1, ags_status = Active,
     ags_effect = AutoAllow, ags_maximum_risk = Low, ags_valid_from_ms = 0, ags_valid_until_ms = None,
     ags_remaining_uses = Some uses\<rparr>"

definition example_session_record :: Session where
  "example_session_record = \<lparr>se_id = 2,
     se_definition = \<lparr>dp_schema_version = 1, dp_id = ''d'', dp_version = 1\<rparr>,
     se_concurrency = Serial, se_allows_concurrent_sessions = False, se_verified = True\<rparr>"

definition example_request :: CreateRun where
  "example_request = CreateRun_new_for_owner 5 example_session_record (example_run Queued) 0 Serial"

definition example_stored :: "RunState \<Rightarrow> u64 \<Rightarrow> StoredRun" where
  "example_stored st v = \<lparr>sr_owner_id = 5, sr_run = example_run st, sr_run_version = v,
     sr_session_version = 1, sr_initial_input = DurableRunInput_empty 5 2 11\<rparr>"

definition example_created :: State where
  "example_created = State_default\<lparr>
     authoritative_policies := [(5, ''d'', 1) \<mapsto> example_policy],
     authoritative_grants := [(5, example_key) \<mapsto> example_authority 2],
     sessions := [(5, 2) \<mapsto> \<lparr>ss_version = 1, ss_owner_id = 5,
       ss_definition = se_definition example_session_record, ss_policy = Serial\<rparr>],
     serial_claims := [(5, 2) \<mapsto> 11],
     runs := [(5, 11) \<mapsto> new_aggregate (example_stored Queued 1)]\<rparr>"

lemma example_steps_to_created:
  "apply_authoritative_policy State_default 5 (PolicyCreate example_policy) =
     (Ok example_policy, State_default\<lparr>authoritative_policies := [(5, ''d'', 1) \<mapsto> example_policy]\<rparr>)"
  "apply_authoritative_grant (State_default\<lparr>authoritative_policies := [(5, ''d'', 1) \<mapsto> example_policy]\<rparr>) 5
     (GrantCreate (example_authority 2)) =
     (Ok (example_authority 2), State_default\<lparr>authoritative_policies := [(5, ''d'', 1) \<mapsto> example_policy],
        authoritative_grants := [(5, example_key) \<mapsto> example_authority 2]\<rparr>)"
  "create_run (State_default\<lparr>authoritative_policies := [(5, ''d'', 1) \<mapsto> example_policy],
        authoritative_grants := [(5, example_key) \<mapsto> example_authority 2]\<rparr>) 5 example_request =
     (Ok (example_stored Queued 1), example_created)"
  by (simp_all add: apply_authoritative_policy_def apply_authoritative_grant_def example_policy_def
      example_authority_def State_default_def policy_key_def uuid_is_nil_def create_run_def Let_def
      example_request_def CreateRun_new_for_owner_def example_session_record_def example_run_def
      Session_concurrency_def next_session_version_def StoredRun_new_with_initial_input_def
      DurableRunInput_empty_def DurableRunInput_validate_def MAX_DURABLE_RUN_INPUT_BYTES_def
      example_stored_def example_created_def)

lemma example_request_built: "built_request example_request"
proof -
  have "run_inv (crq_run example_request)"
    using example_run_inv [of Queued] by (simp add: example_request_def CreateRun_new_for_owner_def)
  then show ?thesis unfolding built_request_def Let_def example_request_def by blast
qed

lemma example_created_reachable: "store_reachable L example_created"
proof -
  note steps = example_steps_to_created
  have "any_step L State_default (State_default\<lparr>authoritative_policies := [(5, ''d'', 1) \<mapsto> example_policy]\<rparr>)"
    using store_step.policy [OF steps(1)] by (auto simp: any_step_def)
  moreover have "any_step L (State_default\<lparr>authoritative_policies := [(5, ''d'', 1) \<mapsto> example_policy]\<rparr>)
      (State_default\<lparr>authoritative_policies := [(5, ''d'', 1) \<mapsto> example_policy],
        authoritative_grants := [(5, example_key) \<mapsto> example_authority 2]\<rparr>)"
    using store_step.grant [OF steps(2)] by (auto simp: any_step_def)
  moreover have "any_step L (State_default\<lparr>authoritative_policies := [(5, ''d'', 1) \<mapsto> example_policy],
        authoritative_grants := [(5, example_key) \<mapsto> example_authority 2]\<rparr>) example_created"
    using store_step.create [OF steps(3) example_request_built] by (auto simp: any_step_def)
  ultimately show ?thesis unfolding store_reachable_def
    by (meson rtranclp.rtrancl_into_rtrancl rtranclp.rtrancl_refl)
qed

section \<open>The run starts and dispatches an invocation\<close>

definition example_lease :: ExecutionLease where
  "example_lease = \<lparr>el_run_id = 11, el_fence = 7, el_expires_at_ms = 1010\<rparr>"

definition example_leased :: State where
  "example_leased = set_lease example_created (5, 11) (new_aggregate (example_stored Queued 1)) example_lease"

lemma example_lease_new: "ExecutionLease_new 11 7 1010 = Ok example_lease"
  by (simp add: ExecutionLease_new_def ExecutionLease_validate_def execution_checks example_lease_def)

lemma example_acquire:
  "store_acquire_lease example_created 5 11 1 1000 7 10 = (Ok example_lease, example_leased)"
  by (simp add: store_acquire_lease_def example_created_def example_stored_def
      is_terminal_def checked_add_def example_lease_new example_leased_def)

definition example_event :: "u64 \<Rightarrow> RuntimeEvent" where
  "example_event n = \<lparr>ev_schema_version = 1, ev_event_id = 30 + ucast n, ev_owner_id = 5, ev_session_id = 2,
     ev_run_id = 11, ev_timestamp_ms = 10, ev_sequence = n, ev_kind = EvRunStarted, ev_payload = PayloadNone\<rparr>"

definition example_commit :: "u64 \<Rightarrow> uuid \<Rightarrow> RuntimeCommandPayload \<Rightarrow> RunState \<Rightarrow> ExecutionCommit" where
  "example_commit v i payload target = \<lparr>ec_expected_run_version = v, ec_expected_checkpoint_version = 0,
     ec_lease = example_lease,
     ec_command = \<lparr>cmd_id = i, cmd_session_id = 2, cmd_payload = payload\<rparr>,
     ec_events = [example_event v], ec_steps = [], ec_attempts = [], ec_results = [], ec_approval = None,
     ec_policy_guard = None, ec_dispatch_grant = None, ec_checkpoint = Clear,
     ec_target_run = example_run target\<rparr>"

lemma build_commit_patchI:
  assumes "runs s (owner, el_run_id (ec_lease c)) = Some g" "commit_fence g c now = Ok ()"
    "valid_command_transition (sr_run (ra_stored g)) (ec_target_run c) (ec_command c)
       (ec_approval c) (ec_dispatch_grant c) (ec_attempts c)"
    "prepare_dispatch_lineage c = Ok ()" "dispatch_policy_gate s owner c now = Ok ()"
    "event_window s owner g c = Ok (session, last_sequence)" "ec_checkpoint c = Clear"
    "commit_grant_update L s owner g c now = Ok grant"
    "steps_loop (el_run_id (ec_lease c)) (ra_steps g) [] (ra_next_step_sequence g) (ec_steps c) = Ok (steps, next)"
    "attempt_changes L g c = Ok changes"
    "try_all (dispatch_lineage g changes) (ac_patches changes) = Ok ()"
    "result_changes_loop L (el_run_id (ec_lease c)) g changes ([], ra_completed_fingerprint g) (ec_results c) = Ok results"
    "try_all (transition_supported g c changes (fst results)) (map fst (ac_transitions changes)) = Ok ()"
    "commit_stored_run s owner g c session = Ok (stored, update)" "ra_checkpoint g = None"
    "CommandReceipt_new L (ec_command c) Accepted = Ok receipt"
    "approval_index_update s owner c = Ok index_update"
    "approval_index_removal s owner g c = Ok index_removal"
    "command_digest L (ec_command c) = Ok digest"
  shows "build_commit_patch L s owner c now = Ok \<lparr>cpt_stored = stored, cpt_lease = commit_lease g c,
        cpt_checkpoint_version = ra_checkpoint_version g, cpt_checkpoint = None,
        cpt_events = ec_events c, cpt_steps = steps,
        cpt_next_step_sequence = next, cpt_attempts = changes, cpt_results = results,
        cpt_grant = grant, cpt_session_update = update, cpt_receipt = receipt,
        cpt_command_index = \<lparr>cix_session_id = cmd_session_id (ec_command c),
          cix_run_id = target_run_id (ec_command c), cix_kind = command_kind (ec_command c),
          cix_payload_digest = digest\<rparr>,
        cpt_grant_consumption = (case Option.bind (ec_approval c) claim_grant_consumption of
            Some k \<Rightarrow> Some k | None \<Rightarrow> map_option dgm_consumption (ec_dispatch_grant c)),
        cpt_approval_index_update = index_update, cpt_approval_index_removal = index_removal\<rparr>"
  using assms(7,15) unfolding build_commit_patch_def Let_def assms(1-6,8-14,16-) 
  by (simp add: assms commit_checkpoint_version_def del: try_all_eq_Inr)

lemma example_run_fields [simp]:
  "run_session_id (example_run st) = 2" "run_definition_id (example_run st) = ''d''"
  "run_definition_version (example_run st) = 1" "run_pause_reason (example_run st) = None"
  "run_pending_approval (example_run st) = None"
  by (simp_all add: example_run_def)

lemma example_stored_fields [simp]:
  "sr_run (example_stored st v) = example_run st" "sr_run_version (example_stored st v) = v"
  by (simp_all add: example_stored_def)

lemma example_receipt:
  "command_digest example_store_lib c = Ok (COMMAND_NAMESPACE +
     of_nat (length (show_nat (unat (cmd_session_id c)) @ show_nat (unat (target_run_id c)))))"
  by (simp add: command_digest_def example_store_lib_def example_checkpoint_lib_def example_exec_lib_def
      checkpoint_lib.defs execution_lib.defs example_lib_def store_lib.defs capability_lib.defs)

lemma commit_executes:
  assumes "validate_bounds L c = Ok ()" "target_run_id (ec_command c) = el_run_id (ec_lease c)"
    "run_id (ec_target_run c) = el_run_id (ec_lease c)" "receipts s (owner, cmd_id (ec_command c)) = None"
    "build_commit_patch L s owner c now = Ok p" "runs s (owner, el_run_id (ec_lease c)) = Some g"
  shows "fresh_commit L owner c now s g p (snd (commit_execution L s owner c now))"
    and "fst (commit_execution L s owner c now) = Ok (commit_outcome (final_patch c p))"
proof -
  obtain s' where s': "apply_commit_patch s owner (el_run_id (ec_lease c)) (final_patch c p)
      (commit_outcome (final_patch c p)) = Ok s'"
    using assms(6) by (simp add: apply_commit_patch_def Let_def)
  then have "commit_fresh L s owner c now = Ok (commit_outcome (final_patch c p), s')"
    unfolding commit_fresh_ok using assms(5) by blast
  then have "commit_execution L s owner c now = (Ok (commit_outcome (final_patch c p)), s')"
    using assms(1-4) by (simp add: commit_execution_def Let_def)
  moreover have "fresh_commit L owner c now s g p s'"
    using assms s' by (intro fresh_commit.intros)
  ultimately show "fresh_commit L owner c now s g p (snd (commit_execution L s owner c now))"
    "fst (commit_execution L s owner c now) = Ok (commit_outcome (final_patch c p))" by simp_all
qed

lemmas commit_bounds = validate_bounds_def MAX_COMMIT_EVENTS_def MAX_COMMIT_STEPS_def
  MAX_COMMIT_ATTEMPTS_def MAX_COMMIT_RESULTS_def MAX_COMMIT_BATCH_ITEMS_def

definition example_start :: ExecutionCommit where
  "example_start = example_commit 1 21 (Start 11) Running"

definition example_running :: State where
  "example_running = snd (commit_execution example_store_lib example_leased 5 example_start 20)"

lemma example_leased_sel [simp]:
  "runs example_leased (5, 11) = Some ((new_aggregate (example_stored Queued 1))\<lparr>ra_lease := Some example_lease\<rparr>)"
  "receipts example_leased = Map.empty" "approvals example_leased = Map.empty"
  "serial_claims example_leased = [(5, 2) \<mapsto> 11]"
  "sessions example_leased = [(5, 2) \<mapsto> \<lparr>ss_version = 1, ss_owner_id = 5,
       ss_definition = se_definition example_session_record, ss_policy = Serial\<rparr>]"
  "authoritative_policies example_leased = [(5, ''d'', 1) \<mapsto> example_policy]"
  "authoritative_grants example_leased = [(5, example_key) \<mapsto> example_authority 2]"
  "grant_consumptions example_leased = {}"
  by (simp_all add: example_leased_def set_lease_def example_created_def State_default_def)

lemma example_start_build:
  "\<exists>p. build_commit_patch example_store_lib example_leased 5 example_start 20 = Ok p \<and>
     cpt_stored p = example_stored Running 2 \<and> cpt_lease p = Some example_lease \<and>
     cpt_events p = [example_event 1] \<and> cpt_steps p = [] \<and> cpt_next_step_sequence p = 1 \<and>
     cpt_attempts p = \<lparr>ac_patches = [], ac_transitions = [], ac_new_count = 0, ac_next_sequence = 1,
       ac_fingerprint = replicate 32 0\<rparr> \<and> cpt_results p = ([], replicate 32 0) \<and>
     cpt_grant p = None \<and> cpt_checkpoint_version p = 0 \<and> cr_command_id (cpt_receipt p) = 21 \<and>
     cpt_session_update p = None \<and> cpt_approval_index_update p = None \<and> cpt_approval_index_removal p = None"
proof -
  let ?g = "(new_aggregate (example_stored Queued 1))\<lparr>ra_lease := Some example_lease\<rparr>"
  let ?c = example_start
  have sel: "ec_lease ?c = example_lease" "ec_attempts ?c = []" "ec_results ?c = []" "ec_steps ?c = []"
    "ec_approval ?c = None" "ec_dispatch_grant ?c = None" "ec_checkpoint ?c = Clear" "ec_policy_guard ?c = None"
    "ec_target_run ?c = example_run Running" "ec_events ?c = [example_event 1]" "el_run_id example_lease = 11"
    "ec_command ?c = \<lparr>cmd_id = 21, cmd_session_id = 2, cmd_payload = Start 11\<rparr>"
    by (simp_all add: example_start_def example_commit_def example_lease_def)
  have fence: "commit_fence ?g ?c 20 = Ok ()"
    by (simp add: commit_fence_def example_start_def example_commit_def example_lease_def)
  have valid: "valid_command_transition (example_run Queued) (example_run Running)
      \<lparr>cmd_id = 21, cmd_session_id = 2, cmd_payload = Start 11\<rparr> None None []"
    by (simp add: sel valid_command_transition_def is_terminal_def dispatching_def)
  have gate: "prepare_dispatch_lineage ?c = Ok ()" "dispatch_policy_gate example_leased 5 ?c 20 = Ok ()"
    by (simp_all add: sel prepare_dispatch_lineage_def dispatch_policy_gate_def dispatching_def)
  have window: "event_window example_leased 5 ?g ?c = Ok (\<lparr>ss_version = 1, ss_owner_id = 5,
       ss_definition = se_definition example_session_record, ss_policy = Serial\<rparr>, 1)"
    by (simp add: sel event_window_def u64_from_def checked_add_def validate_batch_def example_event_def
        RUNTIME_EVENT_SCHEMA_VERSION_def)
  have stored: "commit_stored_run example_leased 5 ?g ?c x = Ok (example_stored Running 2, None)" for x
    by (simp add: sel commit_stored_run_def checked_add_def StoredRun_new_with_initial_input_def
        example_stored_def DurableRunInput_validate_def DurableRunInput_empty_def uuid_is_nil_def
        MAX_DURABLE_RUN_INPUT_BYTES_def is_terminal_def)
  have rest: "commit_grant_update L example_leased 5 ?g ?c 20 = Ok None"
    "steps_loop (el_run_id (ec_lease ?c)) (ra_steps ?g) [] (ra_next_step_sequence ?g) (ec_steps ?c) = Ok ([], 1)"
    "approval_index_update example_leased 5 ?c = Ok None" "approval_index_removal example_leased 5 ?g ?c = Ok None"
    "commit_lease ?g ?c = Some example_lease" for L :: store_lib
    by (simp_all add: sel commit_grant_update_def approval_index_update_def approval_index_removal_def commit_lease_def)
  show ?thesis
    by (intro exI conjI, rule build_commit_patchI [where g = ?g], simp_all add: sel fence valid gate
        window stored rest attempt_changes_def CommandReceipt_new_def example_receipt) simp_all
qed

lemma example_commit_ok:
  "run_inv (example_run Running)" "validate_bounds example_store_lib example_start = Ok ()"
  "target_run_id (ec_command example_start) = 11" "run_id (ec_target_run example_start) = 11"
  "el_run_id (ec_lease example_start) = 11" "cmd_id (ec_command example_start) = 21"
  "ec_checkpoint example_start = Clear" "built_commit L example_start"
  using example_run_inv [of Running]
  by (simp_all add: commit_bounds example_start_def example_commit_def example_lease_def built_commit_def)

definition example_running_run :: RunAggregate where
  "example_running_run = (new_aggregate (example_stored Running 2))
     \<lparr>ra_lease := Some example_lease, ra_events := [example_event 1]\<rparr>"

lemma example_running_state:
  "\<exists>p. fresh_commit example_store_lib 5 example_start 20 example_leased
     ((new_aggregate (example_stored Queued 1))\<lparr>ra_lease := Some example_lease\<rparr>) p example_running"
  "runs example_running = (runs example_leased)((5, 11) \<mapsto> example_running_run)"
  "sessions example_running = sessions example_leased"
  "serial_claims example_running = serial_claims example_leased"
  "authoritative_policies example_running = authoritative_policies example_leased"
  "authoritative_grants example_running = authoritative_grants example_leased"
  "grant_consumptions example_running = {}" "approvals example_running = Map.empty"
  "\<exists>r. receipts example_running = [(5, 21) \<mapsto> r]"
proof -
  let ?g = "(new_aggregate (example_stored Queued 1))\<lparr>ra_lease := Some example_lease\<rparr>"
  obtain p where p: "build_commit_patch example_store_lib example_leased 5 example_start 20 = Ok p"
    "cpt_stored p = example_stored Running 2" "cpt_lease p = Some example_lease"
     "cpt_events p = [example_event 1]" "cpt_steps p = []" "cpt_next_step_sequence p = 1"
     "cpt_attempts p = \<lparr>ac_patches = [], ac_transitions = [], ac_new_count = 0, ac_next_sequence = 1,
       ac_fingerprint = replicate 32 0\<rparr>" "cpt_results p = ([], replicate 32 0)"
     "cpt_grant p = None" "cpt_checkpoint_version p = 0" "cr_command_id (cpt_receipt p) = 21"
     "cpt_session_update p = None" "cpt_approval_index_update p = None" "cpt_approval_index_removal p = None"
    using example_start_build by blast
  have f: "fresh_commit example_store_lib 5 example_start 20 example_leased ?g p example_running"
    unfolding example_running_def by (rule commit_executes) (simp_all add: example_commit_ok p(1))
  then show "\<exists>p. fresh_commit example_store_lib 5 example_start 20 example_leased ?g p example_running" by blast
  have "cpt_checkpoint (final_patch example_start p) = None"
    by (simp add: final_patch_def example_commit_ok)
  then have "patch_aggregate ?g (final_patch example_start p) = example_running_run"
    by (simp add: patch_aggregate_def p example_running_run_def new_aggregate_def)
  then show "runs example_running = (runs example_leased)((5, 11) \<mapsto> example_running_run)"
    by (simp add: fresh_commit_state(1) [OF f] example_commit_ok)
  show "sessions example_running = sessions example_leased"
    "serial_claims example_running = serial_claims example_leased"
    "authoritative_policies example_running = authoritative_policies example_leased"
    "authoritative_grants example_running = authoritative_grants example_leased"
    "grant_consumptions example_running = {}" "approvals example_running = Map.empty"
    using fresh_commit_state(2-10) [OF f] p by simp_all
  show "\<exists>r. receipts example_running = [(5, 21) \<mapsto> r]"
    unfolding fresh_commit_state(6) [OF f] p(11) example_leased_sel by blast
qed

text \<open>The dispatch of the example invocation under a counted grant and a policy guard.\<close>

definition example_guard :: DispatchPolicyGuard where
  "example_guard = \<lparr>dpg_owner_id = 5, dpg_run_id = 11, dpg_agent_definition_id = ''d'',
     dpg_agent_definition_version = 1, dpg_logical_invocation_id = lib_id example_invocation_binding,
     dpg_capability_id = ''fs.read'', dpg_manifest_version = 1,
     dpg_canonical_argument_digest = lib_canonical_argument_digest example_invocation_binding,
     dpg_policy_revision = 1, dpg_decision_digest = ''sha256:''\<rparr>"

definition example_consumption :: GrantConsumption where
  "example_consumption = \<lparr>gc_grant_id = ''g'', gc_grant_revision = 1,
     gc_logical_invocation_id = lib_id example_invocation_binding\<rparr>"

definition example_binding :: "u32 \<Rightarrow> GrantAuthorityBinding" where
  "example_binding uses = \<lparr>gab_authority_key = example_key,
     gab_full_grant_digest = ''sha256:'' @ replicate 64 (CHR ''0''),
     gab_scope_digest = ''sha256:'' @ replicate 64 (CHR ''0''), gab_revision = 1, gab_status = Active,
     gab_effect = AutoAllow, gab_maximum_risk = Low, gab_valid_from_ms = 0, gab_valid_until_ms = None,
     gab_remaining_uses = Some uses\<rparr>"

definition example_use :: DispatchGrantMutation where
  "example_use = \<lparr>dgm_owner_id = 5, dgm_run_id = 11,
     dgm_logical_invocation_id = lib_id example_invocation_binding, dgm_capability_id = ''fs.read'',
     dgm_canonical_argument_digest = lib_canonical_argument_digest example_invocation_binding,
     dgm_policy_revision = 1, dgm_consumption = example_consumption,
     dgm_authority_binding = example_binding 2, dgm_remaining_uses = 2\<rparr>"

definition example_dispatch :: ExecutionCommit where
  "example_dispatch = (example_commit 2 22 (PrepareDispatch 11 None) Running)
     \<lparr>ec_attempts := [example_attempt 1 AttemptDispatching], ec_policy_guard := Some example_guard,
      ec_dispatch_grant := Some example_use\<rparr>"

lemma example_authority_binding: "grant_state_binding (example_authority n) = Ok (example_binding n)"
  by (simp add: grant_state_binding_def GrantAuthorityBinding_from_parts_def canonical_sha256_label_def
      GrantAuthorityKey_from_encoded_def example_authority_def example_binding_def example_key_def
      lower_hex_def is_ascii_digit_def code_def list_all_iff)

lemma example_authority_sel:
  "ags_status (example_authority n) = Active" "ags_valid_from_ms (example_authority n) = 0"
  "ags_valid_until_ms (example_authority n) = None" "ags_remaining_uses (example_authority n) = Some n"
  "ags_authority_key (example_authority n) = example_key" "ags_revision (example_authority n) = 1"
  "(example_authority n)\<lparr>ags_remaining_uses := Some m\<rparr> = example_authority m"
  by (simp_all add: example_authority_def)

lemma example_dispatch_sel [simp]:
  "ec_lease example_dispatch = example_lease" "ec_attempts example_dispatch = [example_attempt 1 AttemptDispatching]"
  "ec_results example_dispatch = []" "ec_steps example_dispatch = []" "ec_approval example_dispatch = None"
  "ec_dispatch_grant example_dispatch = Some example_use" "ec_checkpoint example_dispatch = Clear"
  "ec_policy_guard example_dispatch = Some example_guard" "ec_target_run example_dispatch = example_run Running"
  "ec_events example_dispatch = [example_event 2]" "el_run_id example_lease = 11"
  "ec_command example_dispatch = \<lparr>cmd_id = 22, cmd_session_id = 2, cmd_payload = PrepareDispatch 11 None\<rparr>"
  by (simp_all add: example_dispatch_def example_commit_def example_lease_def)

lemma example_use_sel:
  "dgm_owner_id example_use = 5" "dgm_run_id example_use = lib_run_id example_invocation_binding"
  "dgm_logical_invocation_id example_use = lib_id example_invocation_binding"
  "dgm_capability_id example_use = lib_capability_id example_invocation_binding"
  "dgm_canonical_argument_digest example_use = lib_canonical_argument_digest example_invocation_binding"
  "dgm_policy_revision example_use = 1" "dgm_consumption example_use = example_consumption"
  "dgm_authority_binding example_use = example_binding 2" "dgm_remaining_uses example_use = 2"
  "gab_authority_key (example_binding n) = example_key" "gc_grant_revision example_consumption = 1"
  "gc_logical_invocation_id example_consumption = lib_id example_invocation_binding"
  "iar_invocation (example_attempt k st) = example_invocation_binding" "iar_state (example_attempt k st) = st"
  by (simp_all add: example_use_def example_binding_def example_consumption_def example_attempt_def
      example_invocation_binding_def)

lemma example_grant_use:
  "dispatch_grant_update example_store_lib example_running 5 example_dispatch 30 example_use =
     Ok (Some (example_authority 1, Some (5, example_key, 1, lib_id example_invocation_binding)))"
proof -
  have "matches_consumption example_store_lib (example_binding 2) example_consumption"
    by (simp add: matches_consumption_def sha256_labelled_def example_binding_def example_consumption_def
        example_key_def example_store_lib_def example_checkpoint_lib_def example_exec_lib_def
        checkpoint_lib.defs execution_lib.defs capability_lib.defs example_lib_def)
  moreover have "grant_consume (example_authority 2) (example_binding 2) 30 = Ok (example_authority 1)"
    by (simp add: grant_consume_def validate_binding_def example_authority_binding i64_max_def
        example_authority_sel)
  ultimately show ?thesis
    by (simp add: dispatch_grant_update_def Let_def example_dispatch_sel example_use_sel
        grant_matches_attempt_def dispatching_def example_running_state example_authority_sel)
qed

lemma example_running_run_sel [simp]:
  "ra_stored example_running_run = example_stored Running 2" "ra_lease example_running_run = Some example_lease"
  "ra_events example_running_run = [example_event 1]" "ra_attempts example_running_run = []"
  "ra_results example_running_run = []" "ra_steps example_running_run = Map.empty"
  "ra_checkpoint example_running_run = None" "ra_checkpoint_version example_running_run = 0"
  "ra_next_step_sequence example_running_run = 1" "ra_next_attempt_sequence example_running_run = 1"
  "ra_attempts_fingerprint example_running_run = replicate 32 0"
  "ra_completed_fingerprint example_running_run = replicate 32 0"
  by (simp_all add: example_running_run_def)

definition example_dispatched :: State where
  "example_dispatched = snd (commit_execution example_store_lib example_running 5 example_dispatch 30)"

lemma example_dispatching: "dispatching [example_attempt 1 AttemptDispatching] = [example_attempt 1 AttemptDispatching]"
  by (simp add: dispatching_def example_attempt_def)

lemma example_attempt_added:
  "\<exists>ch. attempt_changes example_store_lib example_running_run example_dispatch = Ok ch \<and> ac_transitions ch = [] \<and>
     ac_patches ch = [((lib_id example_invocation_binding, 1), 1, example_attempt 1 AttemptDispatching)]"
  by (auto simp: attempt_changes_def attempt_change_def Let_def attempt_record_key_def example_attempt_def
      example_invocation_binding_def checked_add_def include_attempt_def fingerprint_include_def
      example_store_lib_def example_checkpoint_lib_def example_exec_lib_def checkpoint_lib.defs
      execution_lib.defs capability_lib.defs example_lib_def)

lemma example_dispatch_build:
  "\<exists>p. build_commit_patch example_store_lib example_running 5 example_dispatch 30 = Ok p \<and>
     cpt_grant p = Some (example_authority 1, Some (5, example_key, 1, lib_id example_invocation_binding)) \<and>
     ac_patches (cpt_attempts p) = [((lib_id example_invocation_binding, 1), 1, example_attempt 1 AttemptDispatching)] \<and>
     cpt_stored p = example_stored Running 3 \<and> cpt_events p = [example_event 2] \<and> cpt_lease p = Some example_lease \<and>
     cpt_checkpoint_version p = 0 \<and> cpt_session_update p = None \<and> cpt_approval_index_update p = None \<and>
     cpt_approval_index_removal p = None \<and> cr_command_id (cpt_receipt p) = 22"
proof -
  let ?g = example_running_run and ?c = example_dispatch
  have fence: "commit_fence ?g ?c 30 = Ok ()"
    by (simp add: commit_fence_def) (simp add: example_dispatch_def example_commit_def example_lease_def)
  have valid: "valid_command_transition (example_run Running) (example_run Running)
      \<lparr>cmd_id = 22, cmd_session_id = 2, cmd_payload = PrepareDispatch 11 None\<rparr> None (Some example_use)
      [example_attempt 1 AttemptDispatching]"
    by (simp add: valid_command_transition_def is_terminal_def example_dispatching)
  have gate: "prepare_dispatch_lineage ?c = Ok ()" "dispatch_policy_gate example_running 5 ?c 30 = Ok ()"
    by (simp_all add: prepare_dispatch_lineage_def command_recovery_record_def dispatch_policy_gate_def
        example_dispatching example_running_state)
      (simp add: guard_matches_attempt_def example_guard_def example_attempt_def policy_validates_def
        example_policy_def example_invocation_binding_def)
  have window: "event_window example_running 5 ?g ?c = Ok (\<lparr>ss_version = 1, ss_owner_id = 5,
       ss_definition = se_definition example_session_record, ss_policy = Serial\<rparr>, 2)"
    by (simp add: event_window_def u64_from_def checked_add_def validate_batch_def example_event_def
        RUNTIME_EVENT_SCHEMA_VERSION_def example_running_state)
  have stored: "commit_stored_run example_running 5 ?g ?c x = Ok (example_stored Running 3, None)" for x
    by (simp add: commit_stored_run_def checked_add_def StoredRun_new_with_initial_input_def
        example_stored_def DurableRunInput_validate_def DurableRunInput_empty_def uuid_is_nil_def
        MAX_DURABLE_RUN_INPUT_BYTES_def is_terminal_def)
  have rest: "commit_grant_update example_store_lib example_running 5 ?g ?c 30 =
      Ok (Some (example_authority 1, Some (5, example_key, 1, lib_id example_invocation_binding)))"
    "approval_index_update example_running 5 ?c = Ok None" "approval_index_removal example_running 5 ?g ?c = Ok None"
    by (simp_all add: commit_grant_update_def example_grant_use approval_index_update_def approval_index_removal_def)
  obtain ch where ch: "attempt_changes example_store_lib ?g ?c = Ok ch" "ac_transitions ch = []"
     "ac_patches ch = [((lib_id example_invocation_binding, 1), 1, example_attempt 1 AttemptDispatching)]"
    using example_attempt_added by blast
  have lineage: "dispatch_lineage ?g ch ((lib_id example_invocation_binding, 1), 1, example_attempt 1 AttemptDispatching) = Ok ()"
    by (simp add: dispatch_lineage_def) (simp add: example_attempt_def)
  show ?thesis
    by (intro exI conjI, rule build_commit_patchI [where g = ?g and changes = ch], simp_all add: example_running_state fence valid gate
        window stored rest ch lineage CommandReceipt_new_def example_receipt) (simp_all add: commit_lease_def)
qed

lemma example_dispatch_fresh:
  assumes "build_commit_patch example_store_lib example_running 5 example_dispatch 30 = Ok p"
  shows "fresh_commit example_store_lib 5 example_dispatch 30 example_running example_running_run p example_dispatched"
proof -
  have "validate_bounds example_store_lib example_dispatch = Ok ()" by (simp add: commit_bounds)
  moreover have "receipts example_running (5, 22) = None" using example_running_state(9) by auto
  ultimately show ?thesis
    unfolding example_dispatched_def
    by (intro commit_executes(1)) (simp_all add: assms example_running_state)
qed

lemma example_dispatched_state:
  "\<exists>p. fresh_commit example_store_lib 5 example_dispatch 30 example_running example_running_run p example_dispatched"
  "authoritative_grants example_dispatched (5, example_key) = Some (example_authority 1)"
  "grant_consumptions example_dispatched = {(5, example_key, 1, lib_id example_invocation_binding)}"
  "\<exists>g. runs example_dispatched (5, 11) = Some g \<and>
     ra_attempts g = [((lib_id example_invocation_binding, 1), example_attempt 1 AttemptDispatching)]"
  "built_commit L example_dispatch"
proof -
  obtain p where p: "build_commit_patch example_store_lib example_running 5 example_dispatch 30 = Ok p"
     "cpt_grant p = Some (example_authority 1, Some (5, example_key, 1, lib_id example_invocation_binding))"
     "ac_patches (cpt_attempts p) = [((lib_id example_invocation_binding, 1), 1, example_attempt 1 AttemptDispatching)]"
    using example_dispatch_build by blast
  have f: "fresh_commit example_store_lib 5 example_dispatch 30 example_running example_running_run p example_dispatched"
    by (rule example_dispatch_fresh) (rule p(1))
  then show "\<exists>p. fresh_commit example_store_lib 5 example_dispatch 30 example_running example_running_run p example_dispatched"
    by blast
  have "ags_authority_key (example_authority 1) = example_key" by (simp add: example_authority_def)
  then show "authoritative_grants example_dispatched (5, example_key) = Some (example_authority 1)"
    "grant_consumptions example_dispatched = {(5, example_key, 1, lib_id example_invocation_binding)}"
    by (simp_all add: fresh_commit_state(2,3) [OF f] p(2) example_running_state)
  show "\<exists>g. runs example_dispatched (5, 11) = Some g \<and>
     ra_attempts g = [((lib_id example_invocation_binding, 1), example_attempt 1 AttemptDispatching)]"
    by (simp add: fresh_commit_state(1) [OF f] patch_aggregate_def p(3))
  show "built_commit L example_dispatch" using example_commit_ok(1) by (simp add: built_commit_def)
qed

text \<open>What the run and the store hold after the dispatch.\<close>

lemma example_dispatched_run:
  "\<exists>g. runs example_dispatched (5, 11) = Some g \<and>
     ra_attempts g = [((lib_id example_invocation_binding, 1), example_attempt 1 AttemptDispatching)] \<and>
     ra_attempt_order g = [(1, lib_id example_invocation_binding, 1)] \<and> ra_stored g = example_stored Running 3 \<and>
     ra_events g = [example_event 1, example_event 2] \<and> ra_lease g = Some example_lease \<and> ra_checkpoint g = None \<and>
     ra_checkpoint_version g = 0"
  "sessions example_dispatched = sessions example_leased" "serial_claims example_dispatched = serial_claims example_leased"
  "approvals example_dispatched = Map.empty" "\<exists>r r'. receipts example_dispatched = [(5, 21) \<mapsto> r, (5, 22) \<mapsto> r']"
proof -
  obtain p where p: "build_commit_patch example_store_lib example_running 5 example_dispatch 30 = Ok p"
    "ac_patches (cpt_attempts p) = [((lib_id example_invocation_binding, 1), 1, example_attempt 1 AttemptDispatching)]"
    "cpt_stored p = example_stored Running 3" "cpt_events p = [example_event 2]" "cpt_lease p = Some example_lease"
    "cpt_checkpoint_version p = 0" "cpt_session_update p = None" "cpt_approval_index_update p = None"
    "cpt_approval_index_removal p = None" "cr_command_id (cpt_receipt p) = 22"
    using example_dispatch_build by blast
  note f = example_dispatch_fresh [OF p(1)]
  show "\<exists>g. runs example_dispatched (5, 11) = Some g \<and>
     ra_attempts g = [((lib_id example_invocation_binding, 1), example_attempt 1 AttemptDispatching)] \<and>
     ra_attempt_order g = [(1, lib_id example_invocation_binding, 1)] \<and> ra_stored g = example_stored Running 3 \<and>
     ra_events g = [example_event 1, example_event 2] \<and> ra_lease g = Some example_lease \<and> ra_checkpoint g = None \<and>
     ra_checkpoint_version g = 0"
    by (simp add: fresh_commit_state(1) [OF f] patch_aggregate_def final_patch_def p example_running_run_def new_aggregate_def)
  show "sessions example_dispatched = sessions example_leased" "serial_claims example_dispatched = serial_claims example_leased"
    "approvals example_dispatched = Map.empty"
    using fresh_commit_state(2-10) [OF f] p by (simp_all add: example_running_state)
  obtain r where "receipts example_running = [(5, 21) \<mapsto> r]" using example_running_state(9) by blast
  then show "\<exists>r r'. receipts example_dispatched = [(5, 21) \<mapsto> r, (5, 22) \<mapsto> r']"
    unfolding fresh_commit_state(6) [OF f] p(10) by auto
qed

lemma example_reachable:
  "store_reachable L example_leased" "store_reachable example_store_lib example_running"
  "store_reachable example_store_lib example_dispatched"
  "store_step example_store_lib 5 example_running example_dispatched"
proof -
  have step: "store_step L owner s (snd (commit_execution L s owner c now))" if "built_commit L c"
    for L :: "'y store_lib_scheme" and owner s c now
    using store_step.commit [OF _ that] by (metis surjective_pairing)
  show 1: "store_reachable L example_leased" for L :: "'x store_lib_scheme"
    using example_created_reachable store_step.acquire [OF example_acquire] by (rule store_reachable_step)
  have "store_step example_store_lib 5 example_leased example_running"
    unfolding example_running_def by (rule step) (rule example_commit_ok)
  with 1 show 2: "store_reachable example_store_lib example_running" by (rule store_reachable_step)
  show 3: "store_step example_store_lib 5 example_running example_dispatched"
    unfolding example_dispatched_def by (rule step) (rule example_dispatched_state)
  show "store_reachable example_store_lib example_dispatched" using 2 3 by (rule store_reachable_step)
qed

end
