(* ===== verification/Store_Refinement.thy ===== *)
theory Store_Refinement
  imports Store_Example
begin

text \<open>
  The store keeps versions, leases, claims and indexes; above it stands a specification that has
  none of them. The theorems: every call of the store is a step of the specification, a serial
  session never has two live runs, and what a commit may do to its run.
\<close>

section \<open>What a commit does to its run\<close>

lemma ok_and_iff: "ok_and r P \<longleftrightarrow> (\<exists>x. r = Ok x \<and> P x)"
  by (cases r) (auto simp: ok_and_def)

lemma bare_unique:
  assumes "run_inv r'" and "same_run r r'" and "run_state r' = Running"
  shows "r' = bare r Running"
  using assms by (cases r; cases r') (auto simp: run_inv_def same_run_def bare_def)

lemma command_moves_run:
  assumes "valid_command_transition r r' cmd approval dispatch attempts" and "run_inv r" and "run_inv r'"
    and "\<And>claim. approval = Some claim \<Longrightarrow> \<exists>q d c gs. ApprovalResumeClaim_new L q d c gs = Ok claim"
  shows "r' = r \<or> run_step L r r'"
proof -
  have same: "same_run r r'" and ids: "cmd_session_id cmd = run_session_id r" "target_run_id cmd = run_id r"
    using assms(1) by (simp_all add: valid_command_transition_def same_run_def)
  show ?thesis
  proof (cases "command_kind cmd")
    case CmdStart
    then have "run_state r = Queued" "run_state r' = Running"
      using assms(1) by (simp_all add: valid_command_transition_def)
    then have "transition r Running None = Ok r'"
      using bare_unique [OF assms(3) same] assms(3) by (auto simp: transition_ok is_terminal_def bare_def)
    then show ?thesis by (blast intro: run_step.transition)
  next
    case CmdResumeRecovery
    then obtain pause binding where r: "run_state r = RecoveryRequired" "run_recovery_pause r = Some pause"
      "command_recovery_binding cmd = Some binding" "run_recovery_binding r = Some binding"
      "matches_resume_binding pause binding" "run_state r' = Running"
      using assms(1) by (auto simp: valid_command_transition_def is_some_and_def split: option.splits)
    then have "apply_resume_command r cmd None (Some binding) = Ok (r', None)"
      using bare_unique [OF assms(3) same] assms(3) ids by (simp add: apply_resume_ok)
    then show ?thesis by (blast intro: run_step.command)
  next
    case CmdResumeApproval
    then obtain k where "apply_resume_command r cmd approval None = Ok (r', k)"
      using assms(1) by (auto simp: valid_command_transition_def ok_and_iff)
    then show ?thesis using assms(4) by (blast intro: run_step.command)
  next
    case CmdFail
    then show ?thesis using assms(1)
      by (auto simp: valid_command_transition_def ok_and_iff split: RunState.splits
          intro: run_step.transition run_step.resolve)
  qed (use assms(1) in \<open>auto simp: valid_command_transition_def ok_and_iff is_some_and_def
      split: option.splits intro: run_step.transition run_step.wait run_step.recover run_step.resume
      run_step.cancel\<close>)
qed

section \<open>The store refines a specification of runs and sessions\<close>

text \<open>
  The specification has no versions, leases, claims, indexes or history: runs, the policy of each
  session, and a serial session opens a run only when none of its runs is live.
\<close>

record RunSpec =
  spec_runs :: "(uuid \<times> uuid) \<rightharpoonup> Run"
  spec_policy :: "(uuid \<times> uuid) \<rightharpoonup> SessionConcurrencyPolicy"

definition session_free :: "RunSpec \<Rightarrow> uuid \<Rightarrow> uuid \<Rightarrow> bool" where
  "session_free a owner k \<longleftrightarrow>
     (\<forall>i r. spec_runs a (owner, i) = Some r \<longrightarrow> run_session_id r = k \<longrightarrow> \<not> live r)"

inductive spec_step :: "'x execution_lib_scheme \<Rightarrow> uuid \<Rightarrow> RunSpec \<Rightarrow> RunSpec \<Rightarrow> bool" for L owner a where
  idle: "spec_step L owner a a"
| opened: "spec_runs a (owner, run_id r) = None \<Longrightarrow> run_inv r \<Longrightarrow> run_state r = Queued \<Longrightarrow>
    spec_policy a (owner, run_session_id r) \<in> {None, Some policy} \<Longrightarrow>
    policy = Serial \<longrightarrow> session_free a owner (run_session_id r) \<Longrightarrow>
    a' = \<lparr>spec_runs = (spec_runs a)((owner, run_id r) \<mapsto> r),
      spec_policy = (spec_policy a)((owner, run_session_id r) \<mapsto> policy)\<rparr> \<Longrightarrow> spec_step L owner a a'"
| moved: "spec_runs a (owner, run_id r) = Some r \<Longrightarrow> live r \<Longrightarrow> run_step L r r' \<Longrightarrow>
    a' = a\<lparr>spec_runs := (spec_runs a)((owner, run_id r) \<mapsto> r')\<rparr> \<Longrightarrow> spec_step L owner a a'"

definition any_spec_step :: "'x execution_lib_scheme \<Rightarrow> RunSpec \<Rightarrow> RunSpec \<Rightarrow> bool" where
  "any_spec_step L a a' \<longleftrightarrow> (\<exists>owner. spec_step L owner a a')"

definition spec_init :: RunSpec where
  "spec_init = \<lparr>spec_runs = Map.empty, spec_policy = Map.empty\<rparr>"

definition spec_of :: "State \<Rightarrow> RunSpec" where
  "spec_of s = \<lparr>spec_runs = (\<lambda>k. map_option (\<lambda>g. sr_run (ra_stored g)) (runs s k)),
     spec_policy = (\<lambda>k. map_option ss_policy (sessions s k))\<rparr>"

lemma session_free_claim:
  assumes "store_inv s" and "sessions s (owner, k) = Some x" and "ss_policy x = Serial"
    and "serial_claims s (owner, k) = None"
  shows "session_free (spec_of s) owner k"
  using store_invD(2) [OF assms(1)] assms(2-4)
  by (fastforce simp: session_free_def spec_of_def session_ok_def)

lemma session_free_new:
  assumes "store_inv s" and "sessions s (owner, k) = None"
  shows "session_free (spec_of s) owner k"
  using store_invD(2) [OF assms(1)] assms(2) by (fastforce simp: session_free_def spec_of_def session_ok_def)

lemma store_effect_refines:
  assumes "store_effect L owner s s'" and "store_inv s"
  shows "spec_step L owner (spec_of s) (spec_of s')"
  using assms(1)
proof (cases rule: store_effect.cases)
  case (opened stored session)
  note o = open_run_new [OF opened(1)]
  let ?r = "sr_run stored"
  have "spec_of s' = \<lparr>spec_runs = (spec_runs (spec_of s))((owner, run_id ?r) \<mapsto> ?r),
      spec_policy = (spec_policy (spec_of s))((owner, run_session_id ?r) \<mapsto> ss_policy session)\<rparr>"
    by (auto simp: spec_of_def o(2,3) new_aggregate_def)
  moreover have "spec_policy (spec_of s) (owner, run_session_id ?r) \<in> {None, Some (ss_policy session)}"
    using o(11) by (auto simp: spec_of_def split: option.splits)
  moreover have "ss_policy session = Serial \<longrightarrow> session_free (spec_of s) owner (run_session_id ?r)"
    using o(5,11) session_free_claim [OF assms(2)] session_free_new [OF assms(2)]
    by (cases "sessions s (owner, run_session_id ?r)") auto
  ultimately show ?thesis using o(1,9,10) by (intro spec_step.opened) (auto simp: spec_of_def)
next
  case (lease g l)
  then have "spec_of s' = spec_of s" by (auto simp: spec_of_def leases_def set_lease_def)
  then show ?thesis by (simp add: spec_step.idle)
next
  case (commit c now g p)
  note t = commit_target [OF commit(1)] and inv = entry_okD [OF store_invD(1) [OF assms(2)]]
  obtain session v where "sessions s (owner, run_session_id (sr_run (ra_stored g))) = Some session"
    "sessions s' = (sessions s)((owner, run_session_id (sr_run (ra_stored g))) \<mapsto> session\<lparr>ss_version := v\<rparr>)"
    using commit_session [OF commit(1)] by metis
  then have a: "spec_of s' = (spec_of s)\<lparr>spec_runs := (spec_runs (spec_of s))((owner, el_run_id (ec_lease c)) \<mapsto> ec_target_run c)\<rparr>"
    by (auto simp: spec_of_def t(2,3))
  have id: "run_id (sr_run (ra_stored g)) = el_run_id (ec_lease c)" using inv(1) t(1) .
  have spec: "spec_runs (spec_of s) (owner, run_id (sr_run (ra_stored g))) = Some (sr_run (ra_stored g))"
    using t(1) id by (simp add: spec_of_def)
  have "ec_target_run c = sr_run (ra_stored g) \<or> run_step L (sr_run (ra_stored g)) (ec_target_run c)"
    using fresh_commit_run [OF commit(1)] command_moves_run inv(3) t(1) commit(2)
    unfolding built_commit_def by metis
  then show ?thesis
  proof
    assume "ec_target_run c = sr_run (ra_stored g)"
    then have "spec_of s' = spec_of s" using a spec id by (simp add: map_upd_triv)
    then show ?thesis by (simp add: spec_step.idle)
  next
    assume "run_step L (sr_run (ra_stored g)) (ec_target_run c)"
    then show ?thesis using spec t(6) a id by (intro spec_step.moved) auto
  qed
qed (auto simp: spec_of_def intro: spec_step.idle)

lemma store_steps_refine:
  assumes "(any_step L)\<^sup>*\<^sup>* State_default s"
  shows "(any_spec_step L)\<^sup>*\<^sup>* spec_init (spec_of s)"
  using assms
proof (induction rule: rtranclp_induct)
  case base
  have "spec_of State_default = spec_init" by (simp add: spec_of_def spec_init_def State_default_def)
  then show ?case by simp
next
  case (step t u)
  then obtain owner where "store_step L owner t u" by (auto simp: any_step_def)
  then have "any_spec_step L (spec_of t) (spec_of u)"
    unfolding any_spec_step_def using store_effect_refines store_step_effect store_system.reachable_good step.hyps(1) by blast
  then show ?case using step.IH by (simp add: rtranclp.rtrancl_into_rtrancl)
qed

text \<open>\<^bold>\<open>C1.\<close> The in-process store refines the specification of runs and sessions: every state it reaches
  from the empty store is, seen without its bookkeeping, a state the specification reaches, and every
  call by a client, whatever its arguments and its answer, either leaves all runs as they are, opens
  one well-formed queued run that is new for its owner and, in a serial session, only when no run of the session
  is live, or moves one live run by an operation of the run interface.\<close>

theorem store_refines_runs:
  assumes "store_reachable L s" and "store_step L owner s s'"
  shows "(any_spec_step L)\<^sup>*\<^sup>* spec_init (spec_of s) \<and>
    spec_step L owner (spec_of s) (spec_of s')"
  using assms store_steps_refine store_effect_refines store_step_effect reachable_inv
  unfolding store_reachable_def by blast

theorem store_refines_runs_witness:
  "spec_step example_store_lib 5 (spec_of example_running) (spec_of example_dispatched) \<and>
   spec_runs (spec_of example_running) (5, 11) = Some (example_run Running)"
  using store_refines_runs [OF example_reachable(2,4)]
  by (simp add: spec_of_def example_running_state)

text \<open>\<^bold>\<open>C13.\<close> A serial session never has two live runs, whatever calls were made: the claim index, the
  releases at the end of a run and the retries keep the promise of the session policy.\<close>

theorem serial_session_one_live_run:
  assumes "store_reachable L s" and "sessions s (owner, k) = Some session" and "ss_policy session = Serial"
  shows "\<exists>i. {j. \<exists>g. runs s (owner, j) = Some g \<and> run_session_id (sr_run (ra_stored g)) = k \<and>
    live (sr_run (ra_stored g))} \<subseteq> {i}"
proof (cases "serial_claims s (owner, k)")
  case None
  then show ?thesis using store_invD(2) [OF reachable_inv [OF assms(1)]] assms(2,3)
    by (fastforce simp: session_ok_def)
next
  case (Some i)
  then show ?thesis using store_invD(2) [OF reachable_inv [OF assms(1)]] assms(2,3)
    by (fastforce simp: session_ok_def)
qed

theorem serial_session_one_live_run_witness:
  "\<exists>i. {j. \<exists>g. runs example_running (5, j) = Some g \<and> run_session_id (sr_run (ra_stored g)) = 2 \<and>
    live (sr_run (ra_stored g))} \<subseteq> {i} \<and> runs example_running (5, 11) = Some example_running_run"
  using serial_session_one_live_run [OF example_reachable(2), of 5 2]
  by (simp add: example_running_state)

end
