(* ===== verification/Store_History.thy ===== *)
theory Store_History
  imports Store_Refinement
begin

text \<open>
  What the store promises about time: histories only grow, commands are answered once and the
  answer is repeated, writers that expect the same version exclude each other.
\<close>

section \<open>What the loops of a commit collect\<close>

lemma map_of_fold_insert:
  "distinct (map fst ps) \<Longrightarrow> map_of (fold (\<lambda>(k, v). bt_insert k (f v)) ps t) x =
     (case map_of ps x of None \<Rightarrow> map_of t x | Some v \<Rightarrow> Some (f v))"
  by (induction ps arbitrary: t) (auto split: option.splits simp: map_of_eq_None_iff image_iff)

lemma fold_map_upd:
  "distinct (map fst ps) \<Longrightarrow> fold (\<lambda>(k, v) m. m(k \<mapsto> f v)) ps m x =
     (case map_of ps x of None \<Rightarrow> m x | Some v \<Rightarrow> Some (f v))"
  by (induction ps arbitrary: m) (auto split: option.splits simp: map_of_eq_None_iff image_iff)

text \<open>Steps are only added.\<close>

definition fresh_patches :: "('k::linorder \<times> 'v) list \<Rightarrow> ('k \<rightharpoonup> 'w) \<Rightarrow> bool" where
  "fresh_patches ps stored \<longleftrightarrow> bt_wf ps \<and> (\<forall>k. stored k \<noteq> None \<longrightarrow> map_of ps k = None)"

lemma fresh_patches_insert: "fresh_patches ps stored \<Longrightarrow> stored k = None \<Longrightarrow> fresh_patches (bt_insert k v ps) stored"
  by (auto simp: fresh_patches_def simp del: bt_wf_Cons)

lemma steps_loop_new:
  assumes "steps_loop run stored patches n xs = Ok (patches', n')" and "fresh_patches patches stored"
  shows "fresh_patches patches' stored"
  using assms
proof (induction run stored patches n xs rule: steps_loop.induct)
  case (2 run stored patches n x xs)
  show ?case
  proof (cases "stored (st_logical_step_id x)")
    case None
    then show ?thesis using 2 fresh_patches_insert [OF 2(5) None]
      by (cases "map_of patches (st_logical_step_id x)") (auto split: if_splits)
  next
    case (Some y)
    then show ?thesis using 2 by (auto split: if_splits)
  qed
qed simp

text \<open>Attempts are added, or moved one step forward from the stored attempt.\<close>

definition attempt_patches_ok ::
  "RunAggregate \<Rightarrow> InvocationAttemptRecord list \<Rightarrow> AttemptChanges \<Rightarrow> bool" where
  "attempt_patches_ok g as acc \<longleftrightarrow> bt_wf (ac_patches acc) \<and>
     (\<forall>k n a. map_of (ac_patches acc) k = Some (n, a) \<longrightarrow> a \<in> set as \<and> attempt_record_key a = k \<and>
        (\<forall>e. map_of (ra_attempts g) k = Some e \<longrightarrow> attempt_advances e a))"

lemma attempt_change_ok:
  assumes "attempt_change L run g acc a = Ok acc'" and "attempt_patches_ok g as acc" and "a \<in> set as"
  shows "attempt_patches_ok g as acc'"
  using assms unfolding attempt_change_def Let_def
  by (auto simp: attempt_patches_ok_def split: if_splits option.splits)

lemma attempt_changes_loop_ok:
  assumes "attempt_changes_loop L run g acc xs = Ok acc'" and "attempt_patches_ok g as acc"
    and "set xs \<subseteq> set as"
  shows "attempt_patches_ok g as acc'"
  using assms
proof (induction L run g acc xs rule: attempt_changes_loop.induct)
  case (2 L run g acc a xs)
  then show ?case by (auto intro: attempt_change_ok)
qed simp

lemma attempt_changes_ok:
  assumes "attempt_changes L g c = Ok changes"
  shows "attempt_patches_ok g (ec_attempts c) changes"
  using assms unfolding attempt_changes_def
  by (rule attempt_changes_loop_ok) (simp_all add: attempt_patches_ok_def)

text \<open>Results are only added.\<close>

lemma result_change_ok:
  assumes "result_change L run g changes acc m = Ok acc'" and "fresh_patches (fst acc) (map_of (ra_results g))"
  shows "fresh_patches (fst acc') (map_of (ra_results g))"
  using assms unfolding result_change_def Let_def
  by (auto intro: fresh_patches_insert split: if_splits option.splits)

lemma result_changes_loop_ok:
  assumes "result_changes_loop L run g changes acc ms = Ok acc'" and "fresh_patches (fst acc) (map_of (ra_results g))"
  shows "fresh_patches (fst acc') (map_of (ra_results g))"
  using assms
proof (induction L run g changes acc ms rule: result_changes_loop.induct)
  case (2 L run g changes acc m ms)
  then show ?case by (auto simp del: split_paired_Ex split_paired_All intro: result_change_ok)
qed simp

section \<open>Histories only grow\<close>

definition extends_history :: "RunAggregate \<Rightarrow> RunAggregate \<Rightarrow> bool" where
  "extends_history g g' \<longleftrightarrow>
     same_run (sr_run (ra_stored g)) (sr_run (ra_stored g')) \<and>
     sr_initial_input (ra_stored g') = sr_initial_input (ra_stored g) \<and>
     sr_run_version (ra_stored g) \<le> sr_run_version (ra_stored g') \<and>
     (\<exists>es. ra_events g' = ra_events g @ es) \<and> ra_steps g \<subseteq>\<^sub>m ra_steps g' \<and>
     map_of (ra_results g) \<subseteq>\<^sub>m map_of (ra_results g') \<and>
     (\<forall>k a. map_of (ra_attempts g) k = Some a \<longrightarrow>
        (\<exists>a'. map_of (ra_attempts g') k = Some a' \<and> attempt_advances\<^sup>*\<^sup>* a a'))"

lemma extends_history_refl [simp]: "extends_history g g"
  by (simp add: extends_history_def)

lemma extends_history_trans:
  assumes gh: "extends_history g h" and hk: "extends_history h k"
  shows "extends_history g k"
  unfolding extends_history_def
proof (intro conjI allI impI)
  show "same_run (sr_run (ra_stored g)) (sr_run (ra_stored k))"
    "sr_initial_input (ra_stored k) = sr_initial_input (ra_stored g)"
    using gh hk unfolding extends_history_def same_run_def by metis+
  show "sr_run_version (ra_stored g) \<le> sr_run_version (ra_stored k)"
    using gh hk unfolding extends_history_def by (metis order_trans)
  show "\<exists>es. ra_events k = ra_events g @ es"
    using gh hk unfolding extends_history_def by (metis append_assoc)
  show "ra_steps g \<subseteq>\<^sub>m ra_steps k" "map_of (ra_results g) \<subseteq>\<^sub>m map_of (ra_results k)"
    using gh hk unfolding extends_history_def by (metis map_le_trans)+
  fix x a assume "map_of (ra_attempts g) x = Some a"
  then show "\<exists>a'. map_of (ra_attempts k) x = Some a' \<and> attempt_advances\<^sup>*\<^sup>* a a'"
    using gh hk unfolding extends_history_def by (metis rtranclp_trans)
qed

lemma extends_history_lease [simp]: "extends_history g (g\<lparr>ra_lease := l\<rparr>)"
  by (simp add: extends_history_def)

lemma patch_history:
  assumes "fresh_patches (cpt_steps p) (ra_steps g)" and "attempt_patches_ok g as (cpt_attempts p)"
    and "fresh_patches (fst (cpt_results p)) (map_of (ra_results g))"
    and "same_run (sr_run (ra_stored g)) (sr_run (cpt_stored p))"
    and "sr_initial_input (cpt_stored p) = sr_initial_input (ra_stored g)"
    and "sr_run_version (ra_stored g) \<le> sr_run_version (cpt_stored p)"
  shows "extends_history g (patch_aggregate g p)"
proof -
  have d: "distinct (map fst (cpt_steps p))" "distinct (map fst (ac_patches (cpt_attempts p)))"
    "distinct (map fst (fst (cpt_results p)))"
    using assms(1-3) by (simp_all add: fresh_patches_def attempt_patches_ok_def bt_wf_distinct)
  have steps: "ra_steps (patch_aggregate g p) x = (case map_of (cpt_steps p) x of
      None \<Rightarrow> ra_steps g x | Some v \<Rightarrow> Some (snd v))" for x
    using fold_map_upd [OF d(1), of snd] by (simp add: patch_aggregate_def case_prod_beta')
  have results: "map_of (ra_results (patch_aggregate g p)) x = (case map_of (fst (cpt_results p)) x of
      None \<Rightarrow> map_of (ra_results g) x | Some v \<Rightarrow> Some v)" for x
    using map_of_fold_insert [OF d(3), of "\<lambda>v. v"] by (simp add: patch_aggregate_def)
  have attempts: "map_of (ra_attempts (patch_aggregate g p)) x = (case map_of (ac_patches (cpt_attempts p)) x of
      None \<Rightarrow> map_of (ra_attempts g) x | Some v \<Rightarrow> Some (snd v))" for x
    using map_of_fold_insert [OF d(2), of snd] by (simp add: patch_aggregate_def case_prod_beta')
  have "ra_steps g \<subseteq>\<^sub>m ra_steps (patch_aggregate g p)"
    using assms(1) by (auto simp: map_le_def steps fresh_patches_def dom_def)
  moreover have "map_of (ra_results g) \<subseteq>\<^sub>m map_of (ra_results (patch_aggregate g p))"
    using assms(3) by (auto simp: map_le_def results fresh_patches_def dom_def)
  moreover have "\<exists>a'. map_of (ra_attempts (patch_aggregate g p)) k = Some a' \<and> attempt_advances\<^sup>*\<^sup>* a a'"
    if "map_of (ra_attempts g) k = Some a" for k a
    using that assms(2) unfolding attempts attempt_patches_ok_def
    by (cases "map_of (ac_patches (cpt_attempts p)) k") fastforce+
  ultimately show ?thesis using assms(4-6) by (simp add: extends_history_def)
qed

lemma commit_history:
  assumes "fresh_commit L owner c now s g p s'"
  shows "extends_history g (patch_aggregate g (final_patch c p))"
proof (rule fresh_commit_parts [OF assms])
  fix session last_sequence
  assume ids: "valid_command_transition (sr_run (ra_stored g)) (ec_target_run c) (ec_command c)
      (ec_approval c) (ec_dispatch_grant c) (ec_attempts c)"
    and steps: "steps_loop (el_run_id (ec_lease c)) (ra_steps g) [] (ra_next_step_sequence g) (ec_steps c) =
      Ok (cpt_steps p, cpt_next_step_sequence p)"
    and attempts: "attempt_changes L g c = Ok (cpt_attempts p)"
    and results: "result_changes_loop L (el_run_id (ec_lease c)) g (cpt_attempts p)
      ([], ra_completed_fingerprint g) (ec_results c) = Ok (cpt_results p)"
    and stored: "commit_stored_run s owner g c session = Ok (cpt_stored p, cpt_session_update p)"
  note st = commit_stored_run_ok [OF stored]
  have "same_run (sr_run (ra_stored g)) (sr_run (cpt_stored p))"
    using valid_transition_ids [OF ids] st(1) by (simp add: same_run_def)
  moreover have "sr_run_version (ra_stored g) \<le> sr_run_version (cpt_stored p)"
    using st(3) by (simp add: word_le_nat_alt)
  ultimately show ?thesis
    using steps_loop_new [OF steps] attempt_changes_ok [OF attempts] result_changes_loop_ok [OF results] st(4)
    by (intro patch_history [where as = "ec_attempts c"]) (simp_all add: fresh_patches_def)
qed

lemma effect_history:
  assumes "store_effect L owner s s'" and "runs s k = Some g"
  shows "\<exists>g'. runs s' k = Some g' \<and> extends_history g g'"
  using assms(1)
proof (cases rule: store_effect.cases)
  case (opened stored session)
  then show ?thesis using assms(2) open_run_new(1,2) [OF opened(1)] by auto
next
  case (lease h l)
  then show ?thesis using assms(2) by (auto simp: leases_def set_lease_def)
next
  case (commit c now h p)
  then show ?thesis using assms(2) commit_target(1,2) [OF commit(1)] commit_history [OF commit(1)] by auto
qed (use assms(2) in auto)

lemma run_history:
  assumes "store_reachable L s" and "(any_step L)\<^sup>*\<^sup>* s s'" and "runs s k = Some g"
  shows "\<exists>g'. runs s' k = Some g' \<and> extends_history g g'"
proof (rule store_system.along_steps [OF assms(2) reachable_inv [OF assms(1)],
    where R = "\<lambda>_ t. \<exists>g'. runs t k = Some g' \<and> extends_history g g'"])
  fix t u assume "any_step L t u" and "\<exists>g'. runs t k = Some g' \<and> extends_history g g'"
  then show "\<exists>g'. runs u k = Some g' \<and> extends_history g g'"
    using effect_history store_step_effect extends_history_trans unfolding any_step_def by metis
qed (use assms(3) in simp)

text \<open>\<^bold>\<open>C14.\<close> The history of a run only grows, over any sequence of calls by any clients: its identity and
  its input stay, its version never falls, events are appended, steps and results are added and
  never changed, and an attempt moves only from pending to dispatching and from dispatching to
  completed or uncertain, keeping its invocation, manifest and recovery mode.\<close>

theorem history_append_only:
  assumes "store_reachable L s" and "(any_step L)\<^sup>*\<^sup>* s s'" and "runs s k = Some g"
  shows "\<exists>g'. runs s' k = Some g' \<and> extends_history g g'"
  using assms by (rule run_history)

theorem history_append_only_witness:
  "\<exists>g'. runs example_dispatched (5, 11) = Some g' \<and> extends_history example_running_run g' \<and>
     length (ra_events example_running_run) = 1"
proof -
  have "(any_step example_store_lib)\<^sup>*\<^sup>* example_running example_dispatched"
    using example_reachable(4) by (intro r_into_rtranclp) (auto simp: any_step_def)
  from history_append_only [OF example_reachable(2) this, of "(5, 11)" example_running_run]
  show ?thesis by (simp add: example_running_state)
qed

section \<open>Commands are answered once\<close>

lemma effect_index:
  assumes "store_effect L owner s s'" and "store_inv s"
  shows "receipts s \<subseteq>\<^sub>m receipts s' \<and> outcomes s \<subseteq>\<^sub>m outcomes s'"
  using assms(1)
proof (cases rule: store_effect.cases)
  case (opened stored session)
  from opened(2) show ?thesis
  proof
    assume "indexes owner s s'"
    then obtain i receipt outcome where "commands s (owner, i) = None"
      "receipts s' = (receipts s)((owner, i) \<mapsto> receipt)" "outcomes s' = (outcomes s)((owner, i) \<mapsto> outcome)"
      by (auto simp: indexes_def)
    moreover from this have "receipts s (owner, i) = None" "outcomes s (owner, i) = None"
      using store_invD(6,7) [OF assms(2)] by (metis domIff)+
    ultimately show ?thesis by (auto simp: map_le_def)
  qed (simp add: same_index_def)
next
  case (commit c now g p)
  note r = fresh_commit_receipt [OF commit(1)]
  have "outcomes s (owner, cmd_id (ec_command c)) = None"
    using r(3) store_invD(6,7) [OF assms(2)] by (metis domIff)
  then show ?thesis
    using r(2,3) by (auto simp: fresh_commit_state(6,8) [OF commit(1)] map_le_def)
next
  case (lease g l)
  then show ?thesis by (simp add: leases_def set_lease_def)
qed simp_all

lemma index_kept:
  assumes "(any_step L)\<^sup>*\<^sup>* s s'" and "store_inv s"
  shows "receipts s \<subseteq>\<^sub>m receipts s' \<and> outcomes s \<subseteq>\<^sub>m outcomes s'"
proof (rule store_system.along_steps [OF assms,
    where R = "\<lambda>s t. receipts s \<subseteq>\<^sub>m receipts t \<and> outcomes s \<subseteq>\<^sub>m outcomes t"])
  fix t u assume "store_inv t" "any_step L t u" "receipts s \<subseteq>\<^sub>m receipts t \<and> outcomes s \<subseteq>\<^sub>m outcomes t"
  then show "receipts s \<subseteq>\<^sub>m receipts u \<and> outcomes s \<subseteq>\<^sub>m outcomes u"
    using effect_index store_step_effect unfolding any_step_def by (meson map_le_trans)
qed simp

lemma accepted_is_indexed:
  assumes "commit_execution L s owner c now = (Ok out, s')"
  obtains receipt where "receipts s' (owner, cmd_id (ec_command c)) = Some receipt"
    and "outcomes s' (owner, cmd_id (ec_command c)) = Some out"
    and "cr_command_id receipt = cmd_id (ec_command c)"
    and "command_digest L (ec_command c) = Ok (cr_payload_digest receipt)"
    and "validate_bounds L c = Ok ()" and "target_run_id (ec_command c) = el_run_id (ec_lease c)"
    and "run_id (ec_target_run c) = el_run_id (ec_lease c)"
proof -
  have guards: "validate_bounds L c = Ok ()" "target_run_id (ec_command c) = el_run_id (ec_lease c)"
    "run_id (ec_target_run c) = el_run_id (ec_lease c)"
    using assms by (auto simp: commit_execution_def split: sum.splits if_splits)
  from assms show ?thesis
  proof (cases rule: commit_execution_cases)
    case (replayed receipt x)
    then show ?thesis using that [of receipt] guards
      by (auto simp: commit_replay_def receipt_replay_def split: if_splits)
  next
    case (fresh g p)
    note r = fresh_commit_receipt [OF fresh(1)]
    have "command_digest L (ec_command c) = Ok (cr_payload_digest (cpt_receipt p))"
      using r(1) by (auto simp: CommandReceipt_new_def dest: sym)
    then show ?thesis using that [of "cpt_receipt p"] guards fresh(2) r(2)
      by (simp add: fresh_commit_state(6,8) [OF fresh(1)])
  qed simp
qed

text \<open>\<^bold>\<open>C12.\<close> A commit is applied at most once: after a commit was accepted, sending it again at any later
  time, after any calls by any clients, returns the same outcome and changes nothing. A lost
  answer can therefore be asked for again.\<close>

theorem commit_replay_idempotent:
  assumes "store_reachable L s" and "built_commit L c"
    and "commit_execution L s owner c now = (Ok out, s1)" and "(any_step L)\<^sup>*\<^sup>* s1 s2"
  shows "commit_execution L s2 owner c later = (Ok out, s2)"
proof -
  obtain receipt where r: "receipts s1 (owner, cmd_id (ec_command c)) = Some receipt"
    "outcomes s1 (owner, cmd_id (ec_command c)) = Some out"
    "cr_command_id receipt = cmd_id (ec_command c)" "command_digest L (ec_command c) = Ok (cr_payload_digest receipt)"
    "validate_bounds L c = Ok ()" "target_run_id (ec_command c) = el_run_id (ec_lease c)"
    "run_id (ec_target_run c) = el_run_id (ec_lease c)"
    using assms(3) by (rule accepted_is_indexed)
  have "store_inv s1"
    using store_reachable_step [OF assms(1) store_step.commit [OF assms(3,2)]] by (rule reachable_inv)
  then have "receipts s2 (owner, cmd_id (ec_command c)) = Some receipt"
    "outcomes s2 (owner, cmd_id (ec_command c)) = Some out"
    using index_kept [OF assms(4)] r(1,2) unfolding map_le_def by (metis domI)+
  then show ?thesis using r
    by (simp add: commit_execution_def Let_def commit_replay_def receipt_replay_def)
qed

lemma fresh_commit_answer:
  assumes "fresh_commit L owner c now s g p s'"
  shows "commit_execution L s owner c now = (Ok (commit_outcome (final_patch c p)), s')"
proof -
  have "commit_fresh L s owner c now = Ok (commit_outcome (final_patch c p), s')"
    unfolding commit_fresh_ok using assms by (auto simp: fresh_commit.simps)
  then show ?thesis using assms by (auto simp: fresh_commit.simps commit_execution_def Let_def)
qed

theorem commit_replay_idempotent_witness:
  "\<exists>out. commit_execution example_store_lib example_leased 5 example_start 20 = (Ok out, example_running) \<and>
     commit_execution example_store_lib example_dispatched 5 example_start 5000 = (Ok out, example_dispatched)"
proof -
  obtain out where out: "commit_execution example_store_lib example_leased 5 example_start 20 = (Ok out, example_running)"
    using example_running_state(1) fresh_commit_answer by blast
  have "(any_step example_store_lib)\<^sup>*\<^sup>* example_running example_dispatched"
    using example_reachable(4) by (intro r_into_rtranclp) (auto simp: any_step_def)
  from commit_replay_idempotent [OF example_reachable(1) example_commit_ok(8) out this] out
  show ?thesis by blast
qed

section \<open>Writers exclude each other\<close>

lemma fresh_commit_version:
  assumes "fresh_commit L owner c now s g p s'"
  shows "ec_expected_run_version c = sr_run_version (ra_stored g)"
    and "unat (sr_run_version (cpt_stored p)) = Suc (unat (ec_expected_run_version c))"
    and "ra_lease g = Some (ec_lease c)" and "now < el_expires_at_ms (ec_lease c)"
proof -
  obtain session where fence: "commit_fence g c now = Ok ()"
    and stored: "commit_stored_run s owner g c session = Ok (cpt_stored p, cpt_session_update p)"
    using assms by (rule fresh_commit_run)
  show v: "ec_expected_run_version c = sr_run_version (ra_stored g)"
    and "ra_lease g = Some (ec_lease c)" "now < el_expires_at_ms (ec_lease c)"
    using fence by (auto simp: commit_fence_def not_le split: if_splits)
  show "unat (sr_run_version (cpt_stored p)) = Suc (unat (ec_expected_run_version c))"
    using commit_stored_run_ok(3) [OF stored] v by simp
qed

text \<open>\<^bold>\<open>C5.\<close> Two different commits to one run are ordered by the version they expect: if one was accepted
  and, after any calls by any clients, another new commit to the same run is accepted, then that
  one expected a later version, held the run's current lease and was made before the lease expired.
  Of several writers that read the same version, at most one succeeds.\<close>

theorem commit_versions_exclusive:
  assumes "store_reachable L s" and "built_commit L c"
    and "commit_execution L s owner c now = (Ok out, s1)" and "receipts s (owner, cmd_id (ec_command c)) = None"
    and "(any_step L)\<^sup>*\<^sup>* s1 s2"
    and "commit_execution L s2 owner c' now' = (Ok out', s3)" and "receipts s2 (owner, cmd_id (ec_command c')) = None"
    and "el_run_id (ec_lease c') = el_run_id (ec_lease c)"
  shows "ec_expected_run_version c < ec_expected_run_version c' \<and>
    (\<exists>g. runs s2 (owner, el_run_id (ec_lease c)) = Some g \<and> ra_lease g = Some (ec_lease c') \<and>
       now' < el_expires_at_ms (ec_lease c'))"
proof -
  obtain g p where f: "fresh_commit L owner c now s g p s1"
    using assms(3,4) by (cases rule: commit_execution_cases) auto
  obtain h q where f': "fresh_commit L owner c' now' s2 h q s3"
    using assms(6,7) by (cases rule: commit_execution_cases) auto
  have s1: "store_reachable L s1"
    using store_reachable_step [OF assms(1) store_step.commit [OF assms(3,2)]] .
  have "runs s1 (owner, el_run_id (ec_lease c)) = Some (patch_aggregate g (final_patch c p))"
    by (simp add: commit_target(2) [OF f])
  moreover have h: "runs s2 (owner, el_run_id (ec_lease c)) = Some h"
    using commit_target(1) [OF f'] assms(8) by simp
  ultimately have "sr_run_version (cpt_stored p) \<le> sr_run_version (ra_stored h)"
    using run_history [OF s1 assms(5)] by (fastforce simp: extends_history_def)
  then have "ec_expected_run_version c < ec_expected_run_version c'"
    using fresh_commit_version(2) [OF f] fresh_commit_version(1) [OF f']
    by (simp add: word_le_nat_alt word_less_nat_alt)
  then show ?thesis using h fresh_commit_version(3,4) [OF f'] by blast
qed

theorem commit_versions_exclusive_witness:
  "ec_expected_run_version example_start < ec_expected_run_version example_dispatch"
proof -
  obtain out where out: "commit_execution example_store_lib example_leased 5 example_start 20 = (Ok out, example_running)"
    using example_running_state(1) fresh_commit_answer by blast
  obtain out' where out': "commit_execution example_store_lib example_running 5 example_dispatch 30 = (Ok out', example_dispatched)"
    using example_dispatched_state(1) fresh_commit_answer by blast
  show ?thesis
    using commit_versions_exclusive [OF example_reachable(1) example_commit_ok(8) out _ _ out']
      example_running_state(9) by (auto simp: example_commit_ok)
qed

section \<open>Stored runs and errors\<close>

text \<open>\<^bold>\<open>C21.\<close> In every reachable state each stored run is filed under its own identifier and owner, is well
  formed, belongs to a stored session of the same definition, holds only leases for itself, and its
  events are numbered 1, 2, 3, ... without gap and all name this owner, session and run.\<close>

theorem stored_runs_wf:
  assumes "store_reachable L s" and "runs s (owner, i) = Some g"
  shows "run_id (sr_run (ra_stored g)) = i \<and> sr_owner_id (ra_stored g) = owner \<and> run_inv (sr_run (ra_stored g)) \<and>
    (\<exists>session. sessions s (owner, run_session_id (sr_run (ra_stored g))) = Some session \<and>
       fits_session session (sr_run (ra_stored g)) \<and> ss_owner_id session = owner) \<and>
    (\<forall>l. ra_lease g = Some l \<longrightarrow> el_run_id l = i) \<and>
    map (\<lambda>e. unat (ev_sequence e)) (ra_events g) = [1..<Suc (length (ra_events g))] \<and>
    (\<forall>e \<in> set (ra_events g). event_scope e = (owner, run_session_id (sr_run (ra_stored g)), i))"
proof -
  note I = reachable_inv [OF assms(1)]
  show ?thesis
    using entry_okD [OF store_invD(1) [OF I assms(2)]] store_invD(2) [OF I assms(2)] store_invD(4) [OF I]
    unfolding session_ok_def by blast
qed

theorem stored_runs_wf_witness:
  "run_inv (sr_run (ra_stored example_running_run)) \<and>
   map (\<lambda>e. unat (ev_sequence e)) (ra_events example_running_run) = [1..<Suc (length (ra_events example_running_run))]"
  using stored_runs_wf [OF example_reachable(2), of 5 11 example_running_run]
  by (simp only: example_running_state fun_upd_same simp_thms)

text \<open>A call that answers with an error changes nothing. \<open>create_run\<close> writes the session and the claim
  before it builds the stored run, but for a request made by its constructors building it
  cannot fail; \<open>retry_run\<close> writes the new run before it makes the receipt, which only a panic of the
  digest can prevent.\<close>

theorem errors_change_nothing:
  assumes "built_request q"
  shows "(create_run s owner q = (Err e, s1) \<longrightarrow> s1 = s) \<and> (retry_run L s owner rq = (Err (Raised e'), s2) \<longrightarrow> s2 = s) \<and>
    (commit_execution L s owner c now = (Err e, s3) \<longrightarrow> s3 = s) \<and>
    (store_acquire_lease s owner run v d f now = (Err e, s4) \<longrightarrow> s4 = s) \<and>
    (store_renew_lease s owner l d now = (Err e, s5) \<longrightarrow> s5 = s) \<and>
    (apply_authoritative_policy s owner pc = (Err e, s6) \<longrightarrow> s6 = s) \<and>
    (apply_authoritative_grant s owner gc = (Err e, s7) \<longrightarrow> s7 = s)"
proof (intro conjI impI)
  show "s1 = s" if "create_run s owner q = (Err e, s1)" using create_run_effect [OF that assms] by simp
  show "s2 = s" if "retry_run L s owner rq = (Err (Raised e'), s2)" using retry_run_effect [OF that] by simp
  show "s3 = s" if "commit_execution L s owner c now = (Err e, s3)"
    using that by (cases rule: commit_execution_cases) simp_all
  show "s4 = s" if "store_acquire_lease s owner run v d f now = (Err e, s4)"
    using acquire_lease_effect [OF that] by simp
  show "s5 = s" if "store_renew_lease s owner l d now = (Err e, s5)" using renew_lease_effect [OF that] by simp
  show "s6 = s" if "apply_authoritative_policy s owner pc = (Err e, s6)" using policy_effect [OF that] by simp
  show "s7 = s" if "apply_authoritative_grant s owner gc = (Err e, s7)" using grant_effect [OF that] by simp
qed

theorem errors_change_nothing_witness:
  "create_run example_running 5 example_request = (Err (Raised StVersionConflict), example_running)"
proof -
  have "fst (create_run example_running 5 example_request) = Err (Raised StVersionConflict)"
    by (simp add: create_run_def Let_def example_request_def CreateRun_new_for_owner_def example_session_record_def
        uuid_is_nil_def Session_concurrency_def example_running_state)
  then show ?thesis
    using errors_change_nothing [OF example_request_built, of example_running 5 _ "snd (create_run example_running 5 example_request)"]
    by (metis surjective_pairing)
qed

section \<open>The running fingerprint of the attempts\<close>

lemma xor_bytes_cancel: "xor_bytes (xor_bytes fp b) b = fp"
  by (induction fp b rule: xor_bytes.induct) (auto simp: bit_eq_iff bit_simps)

lemma xor_bytes_twice: "xor_bytes (xor_bytes (xor_bytes (xor_bytes fp x) y) x) y = fp"
  by (simp only: xor_bytes_commute [of "xor_bytes fp x" y x] xor_bytes_cancel)

text \<open>An attempt listed \<open>n\<close> times toggles the old and the new record \<open>n\<close> times.\<close>

lemma toggle_power:
  "((\<lambda>fp. xor_bytes (xor_bytes fp x) y) ^^ n) fp = (if even n then fp else xor_bytes (xor_bytes fp x) y)"
  by (induction n) (auto simp: xor_bytes_twice)

lemma repeated_attempt_change:
  assumes "attempt_change L run g acc a = Ok acc'" and "map_of (ra_attempts g) (attempt_record_key a) = Some e" and "e \<noteq> a"
  obtains x y n where "jcs_attempt L e = Some x" "jcs_attempt L a = Some y"
    "ac_fingerprint acc' = xor_bytes (xor_bytes (ac_fingerprint acc) (sha256 L x)) (sha256 L y)"
    "ac_patches acc' = bt_insert (attempt_record_key a) (n, a) (ac_patches acc)"
  using assms
  by (auto simp: attempt_change_def Let_def include_attempt_def fingerprint_include_def
      split: if_splits option.splits)

lemma repeated_attempt_changes:
  assumes "attempt_changes_loop L run g acc (replicate n a) = Ok acc'"
    and "map_of (ra_attempts g) (attempt_record_key a) = Some e" and "e \<noteq> a"
    and "jcs_attempt L e = Some x" and "jcs_attempt L a = Some y"
  shows "ac_fingerprint acc' =
      ((\<lambda>fp. xor_bytes (xor_bytes fp (sha256 L x)) (sha256 L y)) ^^ n) (ac_fingerprint acc) \<and>
    (0 < n \<longrightarrow> (\<exists>m. map_of (ac_patches acc') (attempt_record_key a) = Some (m, a)))"
  using assms(1)
proof (induction n arbitrary: acc)
  case (Suc n)
  then obtain b where b: "attempt_change L run g acc a = Ok b" "attempt_changes_loop L run g b (replicate n a) = Ok acc'"
    by auto
  from repeated_attempt_change [OF b(1) assms(2,3)] obtain m
    where m: "ac_fingerprint b = xor_bytes (xor_bytes (ac_fingerprint acc) (sha256 L x)) (sha256 L y)"
      "ac_patches b = bt_insert (attempt_record_key a) (m, a) (ac_patches acc)"
    using assms(4,5) by (metis option.inject)
  let ?t = "\<lambda>fp. xor_bytes (xor_bytes fp (sha256 L x)) (sha256 L y)"
  have "ac_fingerprint acc' = (?t ^^ n) (?t (ac_fingerprint acc))" using Suc.IH [OF b(2)] m(1) by simp
  then have "ac_fingerprint acc' = (?t ^^ Suc n) (ac_fingerprint acc)"
    unfolding funpow_Suc_right comp_apply .
  moreover have "\<exists>k. map_of (ac_patches acc') (attempt_record_key a) = Some (k, a)"
    using Suc.IH [OF b(2)] b(2) m(2) by (cases "n = 0") auto
  ultimately show ?case by blast
qed simp

text \<open>\<^bold>\<open>C35.\<close> The fingerprint of the stored attempts is kept up to date by toggling the record before and the record
  after each change. An accepted commit that lists one changed attempt any number of times stores the
  attempt; listed an odd number of times the fingerprint moves from the old record to the new one, listed
  an even number of times it stays what it was, so it no longer describes the stored attempts.\<close>

theorem repeated_attempt_keeps_old_fingerprint:
  assumes "commit_execution L s owner c now = (Ok out, s')" and "receipts s (owner, cmd_id (ec_command c)) = None"
    and "runs s (owner, el_run_id (ec_lease c)) = Some g" and "ec_attempts c = replicate n a" and "0 < n"
    and "map_of (ra_attempts g) (attempt_record_key a) = Some e" and "e \<noteq> a"
  shows "\<exists>g' x y. runs s' (owner, el_run_id (ec_lease c)) = Some g' \<and>
    map_of (ra_attempts g') (attempt_record_key a) = Some a \<and> jcs_attempt L e = Some x \<and> jcs_attempt L a = Some y \<and>
    ra_attempts_fingerprint g' = (if even n then ra_attempts_fingerprint g
      else xor_bytes (xor_bytes (ra_attempts_fingerprint g) (sha256 L x)) (sha256 L y))"
proof -
  obtain p where f: "fresh_commit L owner c now s g p s'"
    using assms(1) by (cases rule: commit_execution_cases) (use assms(2,3) commit_target(1) in fastforce)+
  have ok: "attempt_changes L g c = Ok (cpt_attempts p)" by (rule fresh_commit_parts [OF f])
  have "\<exists>b. attempt_change L (el_run_id (ec_lease c)) g \<lparr>ac_patches = [], ac_transitions = [], ac_new_count = 0,
      ac_next_sequence = ra_next_attempt_sequence g, ac_fingerprint = ra_attempts_fingerprint g\<rparr> a = Ok b"
    using ok assms(4,5) by (cases n) (auto simp: attempt_changes_def)
  then obtain x y where xy: "jcs_attempt L e = Some x" "jcs_attempt L a = Some y"
    using repeated_attempt_change assms(6,7) by metis
  have changes: "ac_fingerprint (cpt_attempts p) = (if even n then ra_attempts_fingerprint g
      else xor_bytes (xor_bytes (ra_attempts_fingerprint g) (sha256 L x)) (sha256 L y))"
    "\<exists>m. map_of (ac_patches (cpt_attempts p)) (attempt_record_key a) = Some (m, a)"
    using repeated_attempt_changes [OF ok [unfolded attempt_changes_def assms(4)] assms(6,7) xy] assms(5)
    by (simp_all add: toggle_power)
  have "distinct (map fst (ac_patches (cpt_attempts p)))"
    using attempt_changes_ok [OF ok] by (simp add: attempt_patches_ok_def bt_wf_distinct)
  from map_of_fold_insert [OF this, of snd] changes(2)
  have "map_of (ra_attempts (patch_aggregate g (final_patch c p))) (attempt_record_key a) = Some a"
    by (auto simp: patch_aggregate_def final_patch_def case_prod_beta')
  moreover have "ra_attempts_fingerprint (patch_aggregate g (final_patch c p)) = ac_fingerprint (cpt_attempts p)"
    by (simp add: patch_aggregate_def final_patch_def)
  ultimately show ?thesis using commit_target(2) [OF f] changes(1) xy by auto
qed

text \<open>A cancellation of the dispatched run that lists the attempt it leaves uncertain twice.\<close>

definition example_twice :: ExecutionCommit where
  "example_twice = (example_commit 3 24 (Cancel 11 (Some example_uncertain)) RunCancelled)
     \<lparr>ec_attempts := [example_attempt 1 AttemptUncertain, example_attempt 1 AttemptUncertain]\<rparr>"

lemma example_twice_sel [simp]:
  "ec_lease example_twice = example_lease"
  "ec_attempts example_twice = [example_attempt 1 AttemptUncertain, example_attempt 1 AttemptUncertain]"
  "ec_results example_twice = []" "ec_steps example_twice = []" "ec_approval example_twice = None"
  "ec_dispatch_grant example_twice = None" "ec_checkpoint example_twice = Clear"
  "ec_policy_guard example_twice = None" "ec_target_run example_twice = example_run RunCancelled"
  "ec_events example_twice = [example_event 3]"
  "ec_command example_twice = \<lparr>cmd_id = 24, cmd_session_id = 2, cmd_payload = Cancel 11 (Some example_uncertain)\<rparr>"
  by (simp_all add: example_twice_def example_commit_def)

lemma example_twice_build:
  assumes "runs example_dispatched (5, 11) = Some g"
    and "ra_attempts g = [((lib_id example_invocation_binding, 1), example_attempt 1 AttemptDispatching)]"
    and "ra_attempt_order g = [(1, lib_id example_invocation_binding, 1)]" and "ra_stored g = example_stored Running 3"
    and "ra_events g = [example_event 1, example_event 2]" and "ra_lease g = Some example_lease"
    and "ra_checkpoint g = None" and "ra_checkpoint_version g = 0"
  shows "\<exists>p. build_commit_patch example_store_lib example_dispatched 5 example_twice 30 = Ok p"
proof -
  let ?c = example_twice and ?a = "example_attempt 1 AttemptUncertain"
  have fence: "commit_fence g ?c 30 = Ok ()"
    using assms by (simp add: commit_fence_def) (simp add: example_twice_def example_commit_def example_lease_def)
  have quiet: "dispatching [?a, ?a] = []" by (simp add: dispatching_def example_attempt_def)
  have "cancel_at_boundary (example_run Running) = Ok (example_run RunCancelled)"
    using example_run_inv [of RunCancelled] by (simp add: cancel_ok example_run_def bare_def)
  then have valid: "valid_command_transition (example_run Running) (example_run RunCancelled) (ec_command ?c) None None [?a, ?a]"
    by (simp add: valid_command_transition_def is_terminal_def quiet ok_and_def)
  have gate: "prepare_dispatch_lineage ?c = Ok ()" "dispatch_policy_gate example_dispatched 5 ?c 30 = Ok ()"
    by (simp_all add: prepare_dispatch_lineage_def dispatch_policy_gate_def quiet)
  have window: "event_window example_dispatched 5 g ?c = Ok (\<lparr>ss_version = 1, ss_owner_id = 5,
       ss_definition = se_definition example_session_record, ss_policy = Serial\<rparr>, 3)"
    using assms by (simp add: event_window_def u64_from_def checked_add_def validate_batch_def example_event_def
        RUNTIME_EVENT_SCHEMA_VERSION_def example_dispatched_run)
  let ?x = "\<lparr>ss_version = 1, ss_owner_id = 5, ss_definition = se_definition example_session_record, ss_policy = Serial\<rparr>"
  obtain st u where stored: "commit_stored_run example_dispatched 5 g ?c ?x = Ok (st, u)"
    using assms by (simp add: commit_stored_run_def checked_add_def StoredRun_new_with_initial_input_def
        example_stored_def DurableRunInput_validate_def DurableRunInput_empty_def uuid_is_nil_def
        MAX_DURABLE_RUN_INPUT_BYTES_def is_terminal_def example_dispatched_run)
  have rest: "commit_grant_update example_store_lib example_dispatched 5 g ?c 30 = Ok None"
    "approval_index_update example_dispatched 5 ?c = Ok None" "approval_index_removal example_dispatched 5 g ?c = Ok None"
    using assms by (simp_all add: commit_grant_update_def approval_index_update_def approval_index_removal_def)
  have "jcs_attempt example_store_lib z = Some ''a''" for z
    by (simp add: example_store_lib_def example_checkpoint_lib_def checkpoint_lib.defs execution_lib.defs
        example_exec_lib_def capability_lib.defs example_lib_def store_lib.defs)
  then obtain ch where ch: "attempt_changes example_store_lib g ?c = Ok ch" "ac_patches ch = [((lib_id example_invocation_binding, 1), 1, ?a)]"
    "ac_transitions ch = [((lib_id example_invocation_binding, 1), ())]"
    using assms by (auto simp: attempt_changes_def attempt_change_def Let_def attempt_record_key_def attempt_advances_def
        example_attempt_def example_invocation_binding_def include_attempt_def fingerprint_include_def)
  have lineage: "dispatch_lineage g ch ((lib_id example_invocation_binding, 1), 1, ?a) = Ok ()"
    "transition_supported g ?c ch [] (lib_id example_invocation_binding, 1) = Ok ()"
    by (simp_all add: dispatch_lineage_def transition_supported_def ch(2) command_recovery_record_def)
      (simp_all add: example_attempt_def example_uncertain_def example_pin_def command_recovery_record_def)
  show ?thesis
    by (intro exI, rule build_commit_patchI [where g = g and changes = ch and stored = st and update = u and session = ?x
          and results = "([], ra_completed_fingerprint g)"])
      (simp_all add: assms(1-4,7,8) fence valid gate window stored rest ch lineage CommandReceipt_new_def example_receipt
        del: example_twice_sel(11))
qed

theorem repeated_attempt_keeps_old_fingerprint_witness:
  "\<exists>g out s' g'. runs example_dispatched (5, 11) = Some g \<and>
     commit_execution example_store_lib example_dispatched 5 example_twice 30 = (Ok out, s') \<and>
     runs s' (5, 11) = Some g' \<and> ra_attempts_fingerprint g' = ra_attempts_fingerprint g \<and> ra_attempts g' \<noteq> ra_attempts g"
proof -
  obtain g where g: "runs example_dispatched (5, 11) = Some g"
    "ra_attempts g = [((lib_id example_invocation_binding, 1), example_attempt 1 AttemptDispatching)]"
    "ra_attempt_order g = [(1, lib_id example_invocation_binding, 1)]" "ra_stored g = example_stored Running 3"
    "ra_events g = [example_event 1, example_event 2]" "ra_lease g = Some example_lease" "ra_checkpoint g = None"
    "ra_checkpoint_version g = 0"
    using example_dispatched_run(1) by blast
  obtain p where p: "build_commit_patch example_store_lib example_dispatched 5 example_twice 30 = Ok p"
    using example_twice_build [OF g] by blast
  have receipt: "receipts example_dispatched (5, 24) = None" using example_dispatched_run(5) by auto
  have "validate_bounds example_store_lib example_twice = Ok ()" by (simp add: commit_bounds)
  then have ok: "commit_execution example_store_lib example_dispatched 5 example_twice 30 =
      (Ok (commit_outcome (final_patch example_twice p)), snd (commit_execution example_store_lib example_dispatched 5 example_twice 30))"
    using commit_executes(2) [OF _ _ _ _ p, of g] receipt g(1) by (simp add: prod_eq_iff)
  have e: "map_of (ra_attempts g) (attempt_record_key (example_attempt 1 AttemptUncertain)) = Some (example_attempt 1 AttemptDispatching)"
    "example_attempt 1 AttemptDispatching \<noteq> example_attempt 1 AttemptUncertain"
    by (simp_all add: g(2) attempt_record_key_def example_attempt_def)
  have two: "ec_attempts example_twice = replicate 2 (example_attempt 1 AttemptUncertain)" by (simp add: numeral_2_eq_2)
  from repeated_attempt_keeps_old_fingerprint [OF ok _ _ two _ e] receipt g(1) obtain g'
    where g': "runs (snd (commit_execution example_store_lib example_dispatched 5 example_twice 30)) (5, 11) = Some g'"
      "map_of (ra_attempts g') (attempt_record_key (example_attempt 1 AttemptUncertain)) = Some (example_attempt 1 AttemptUncertain)"
      "ra_attempts_fingerprint g' = ra_attempts_fingerprint g"
    by auto
  then have "ra_attempts g' \<noteq> ra_attempts g" using e by auto
  then show ?thesis using g(1) ok g' by blast
qed

end
