(* ===== verification/Store_Authority.thy ===== *)
theory Store_Authority
  imports Store_History
begin

text \<open>
  Who may do what: the uses of counted grants add up, and nothing is dispatched without the store's
  own policy.
\<close>

section \<open>Counted grants\<close>

definition used :: "State \<Rightarrow> uuid \<Rightarrow> string \<Rightarrow> u32 \<Rightarrow> nat" where
  "used s owner key revision = card {i. (owner, key, revision, i) \<in> grant_consumptions s}"

text \<open>A grant as a commit finds it: active, valid now and not used up.\<close>

definition usable :: "AuthoritativeGrantState \<Rightarrow> u64 \<Rightarrow> bool" where
  "usable a now \<longleftrightarrow> ags_status a = Active \<and> ags_valid_from_ms a \<le> int (unat now) \<and>
     is_none_or (ags_valid_until_ms a) (\<lambda>until. int (unat now) < until) \<and> ags_remaining_uses a \<noteq> Some 0"

definition spend :: "AuthoritativeGrantState \<Rightarrow> AuthoritativeGrantState" where
  "spend a = a\<lparr>ags_remaining_uses := map_option (\<lambda>n. n - 1) (ags_remaining_uses a)\<rparr>"

lemma grant_state_binding_ok:
  "grant_state_binding a = Ok b \<Longrightarrow> gab_authority_key b = ags_authority_key a \<and> gab_revision b = ags_revision a"
  by (auto simp: grant_state_binding_def GrantAuthorityBinding_from_parts_def GrantAuthorityKey_from_encoded_def
      split: if_splits)

lemma validate_binding_ok:
  assumes "validate_binding a b now = Ok ()"
  shows "usable a now" and "gab_authority_key b = ags_authority_key a" and "gab_revision b = ags_revision a"
proof -
  have "grant_state_binding a = Ok b" "usable a now"
    using assms by (auto simp: validate_binding_def Let_def usable_def is_some_and_def is_none_or_def
        not_less not_le split: if_splits option.splits)
  then show "usable a now" "gab_authority_key b = ags_authority_key a" "gab_revision b = ags_revision a"
    using grant_state_binding_ok by simp_all
qed

lemma grant_consume_ok:
  assumes "grant_consume a b now = Ok a'"
  shows "usable a now" and "gab_authority_key b = ags_authority_key a" and "gab_revision b = ags_revision a"
    and "a' = spend a" and "ags_remaining_uses a \<noteq> None"
  using assms validate_binding_ok [of a b now]
  by (auto simp: grant_consume_def spend_def split: if_splits)

text \<open>What a commit may do to a grant: leave it as it is, or spend one use of a usable one.\<close>

inductive grant_moves :: "State \<Rightarrow> uuid \<Rightarrow> u64 \<Rightarrow> grant_update \<Rightarrow> bool" for s owner now where
  none: "grant_moves s owner now None"
| kept: "authoritative_grants s (owner, ags_authority_key a) = Some a \<Longrightarrow> grant_moves s owner now (Some (a, None))"
| spent: "authoritative_grants s (owner, ags_authority_key a) = Some a \<Longrightarrow> usable a now \<Longrightarrow>
    ags_remaining_uses a \<noteq> None \<Longrightarrow> (owner, ags_authority_key a, ags_revision a, i) \<notin> grant_consumptions s \<Longrightarrow>
    grant_moves s owner now (Some (spend a, Some (owner, ags_authority_key a, ags_revision a, i)))"

lemma grant_spent:
  assumes "authoritative_grants s (owner, gab_authority_key b) = Some a" and "grant_consume a b now = Ok a'"
    and "matches_consumption L b k" and "(owner, gab_authority_key b, gc_grant_revision k, i) \<notin> grant_consumptions s"
  shows "grant_moves s owner now (Some (a', Some (owner, gab_authority_key b, gc_grant_revision k, i)))"
proof -
  note ok = grant_consume_ok [OF assms(2)]
  have "gc_grant_revision k = ags_revision a" using assms(3) ok(3) by (simp add: matches_consumption_def)
  then show ?thesis using assms(1,4) ok by (simp add: grant_moves.spent)
qed

lemma grant_kept:
  assumes "authoritative_grants s (owner, gab_authority_key b) = Some a" and "validate_binding a b now = Ok ()"
  shows "grant_moves s owner now (Some (a, None))"
  using assms validate_binding_ok(2) [OF assms(2)] by (simp add: grant_moves.kept)

lemma approval_grant_moves:
  assumes "approval_grant_update L s owner g c now claim = Ok u"
  shows "grant_moves s owner now u"
proof -
  let ?q = "ad_request (arc_decision claim)"
  show ?thesis
    using assms unfolding approval_grant_update_def Let_def
    by (cases "ar_grant_id ?q"; cases "ar_grant_revision ?q"; cases "ar_grant_remaining_uses ?q";
        cases "claim_grant_consumption claim"; clarsimp split: if_splits)
      (auto intro: grant_moves.none grant_kept grant_spent)
qed

lemma dispatch_grant_moves:
  assumes "dispatch_grant_update L s owner c now d = Ok u"
  shows "grant_moves s owner now u"
  using assms unfolding dispatch_grant_update_def Let_def
  by (auto split: if_splits intro: grant_spent)

lemma commit_grant_moves:
  "commit_grant_update L s owner g c now = Ok u \<Longrightarrow> grant_moves s owner now u"
  unfolding commit_grant_update_def
  by (auto split: option.splits prod.splits intro: approval_grant_moves dispatch_grant_moves grant_moves.none)

lemma commit_grants:
  assumes "fresh_commit L owner c now s g p s'"
  shows "grant_moves s owner now (cpt_grant p)"
proof (rule fresh_commit_parts [OF assms])
  assume "commit_grant_update L s owner g c now = Ok (cpt_grant p)"
  then show ?thesis by (rule commit_grant_moves)
qed

text \<open>The account of a grant between two states, for as long as its revision stays.\<close>

definition account_kept :: "uuid \<Rightarrow> string \<Rightarrow> AuthoritativeGrantState \<Rightarrow> nat \<Rightarrow> State \<Rightarrow> bool" where
  "account_kept owner key a n s \<longleftrightarrow> (\<exists>a'. authoritative_grants s (owner, key) = Some a' \<and>
     (ags_revision a < ags_revision a' \<or>
      ags_revision a' = ags_revision a \<and> (ags_status a = Revoked \<longrightarrow> ags_status a' = Revoked) \<and>
      (case ags_remaining_uses a of
         None \<Rightarrow> ags_remaining_uses a' = None \<and> used s owner key (ags_revision a) = n
       | Some m \<Rightarrow> (\<exists>m'. ags_remaining_uses a' = Some m' \<and>
           unat m' + used s owner key (ags_revision a) = unat m + n))))"

lemma used_spend:
  assumes "finite (grant_consumptions s)" and "(owner, key, revision, i) \<notin> grant_consumptions s"
    and "grant_consumptions s' = insert (owner, key, revision, i) (grant_consumptions s)"
  shows "used s' o' k r = used s o' k r + (if (o', k, r) = (owner, key, revision) then 1 else 0)"
proof (cases "(o', k, r) = (owner, key, revision)")
  case True
  have "{j. (owner, key, revision, j) \<in> grant_consumptions s'} =
      insert i {j. (owner, key, revision, j) \<in> grant_consumptions s}" using assms(3) by auto
  moreover have "finite {j. (owner, key, revision, j) \<in> grant_consumptions s}"
    by (rule finite_surj [OF assms(1), of _ "\<lambda>x. snd (snd (snd x))"]) force
  ultimately show ?thesis using True assms(2) by (simp add: used_def)
next
  case False
  then have "{j. (o', k, r, j) \<in> grant_consumptions s'} = {j. (o', k, r, j) \<in> grant_consumptions s}"
    using assms(3) by auto
  then show ?thesis using False by (auto simp: used_def)
qed

lemma account_unchanged:
  "account_kept owner key a n s \<Longrightarrow> authoritative_grants s' (owner, key) = authoritative_grants s (owner, key) \<Longrightarrow>
    used s' owner key (ags_revision a) = used s owner key (ags_revision a) \<Longrightarrow> account_kept owner key a n s'"
  unfolding account_kept_def by (simp cong: option.case_cong)

lemma account_spend:
  assumes "account_kept owner key a n s" and "authoritative_grants s (owner, key) = Some b"
    and "usable b now" and "ags_remaining_uses b \<noteq> None"
    and "authoritative_grants s' (owner, key) = Some (spend b)"
    and "used s' owner key (ags_revision a) =
      used s owner key (ags_revision a) + (if ags_revision b = ags_revision a then 1 else 0)"
  shows "account_kept owner key a n s'"
proof -
  obtain m where m: "ags_remaining_uses b = Some m" "m \<noteq> 0"
    using assms(3,4) by (auto simp: usable_def)
  then have "unat (m - 1) + 1 = unat m" by (simp add: unat_minus_one word_unat_eq_iff)
  then show ?thesis
    using assms(1,2,5,6) m by (auto simp: account_kept_def spend_def split: option.splits)
qed

lemma effect_account:
  assumes "store_effect L o' s s'" and "store_inv s" and "account_kept owner key a n s"
  shows "account_kept owner key a n s'"
  using assms(1)
proof (cases rule: store_effect.cases)
  case (grant b)
  show ?thesis
  proof (cases "(o', ags_authority_key b) = (owner, key)")
    case True
    then show ?thesis using grant assms(3)
      by (auto simp: account_kept_def grant_succeeds_def as_revoked_def used_def split: option.splits)
  next
    case False
    then show ?thesis using grant by (intro account_unchanged [OF assms(3)]) (auto simp: used_def)
  qed
next
  case (opened stored session)
  then show ?thesis using open_run_new(12,13) [OF opened(1)]
    by (intro account_unchanged [OF assms(3)]) (simp_all add: used_def)
next
  case (lease g l)
  then show ?thesis
    by (intro account_unchanged [OF assms(3)]) (simp_all add: used_def leases_def set_lease_def)
next
  case (commit c now g p)
  note st = fresh_commit_state(2,3) [OF commit(1)]
  from commit_grants [OF commit(1)] show ?thesis
  proof (cases rule: grant_moves.cases)
    case (spent b i)
    have u: "used s' x k r = used s x k r +
        (if (x, k, r) = (o', ags_authority_key b, ags_revision b) then 1 else 0)" for x k r
      using used_spend [OF store_invD(8) [OF assms(2)] spent(5)] st(2) spent(1) by simp
    have key: "ags_authority_key (spend b) = ags_authority_key b" by (simp add: spend_def)
    show ?thesis
    proof (cases "(o', ags_authority_key b) = (owner, key)")
      case True
      then show ?thesis using spent u st(1)
        by (intro account_spend [OF assms(3), of b now]) (auto simp: key)
    next
      case False
      then show ?thesis using spent(1) u st(1)
        by (intro account_unchanged [OF assms(3)]) (auto simp: key)
    qed
  next
    case none
    then show ?thesis using st by (intro account_unchanged [OF assms(3)]) (simp_all add: used_def)
  next
    case (kept b)
    then show ?thesis using st by (intro account_unchanged [OF assms(3)]) (auto simp: used_def)
  qed
next
  case (policy p)
  then show ?thesis by (intro account_unchanged [OF assms(3)]) (simp_all add: used_def)
qed (use assms(3) in simp)

text \<open>\<^bold>\<open>C4.\<close> The uses of a counted grant are never overspent. Between any two states with the same revision of a
  grant, whatever calls were made in between, the uses that are left and the invocations recorded
  as having consumed the revision add up to the same number; so at most as many further
  invocations can consume it as it has uses left. A revoked grant stays revoked within its revision.\<close>

theorem grant_uses_accounted:
  assumes "store_reachable L s" and "(any_step L)\<^sup>*\<^sup>* s s'"
    and "authoritative_grants s (owner, key) = Some a" and "ags_remaining_uses a = Some m"
    and "authoritative_grants s' (owner, key) = Some a'" and "ags_revision a' = ags_revision a"
  shows "(\<exists>m'. ags_remaining_uses a' = Some m' \<and>
      unat m' + used s' owner key (ags_revision a) = unat m + used s owner key (ags_revision a)) \<and>
    (ags_status a = Revoked \<longrightarrow> ags_status a' = Revoked)"
proof -
  have "account_kept owner key a (used s owner key (ags_revision a)) s'"
  proof (rule store_system.along_steps [OF assms(2) reachable_inv [OF assms(1)],
      where R = "\<lambda>_ t. account_kept owner key a (used s owner key (ags_revision a)) t"])
    show "account_kept owner key a (used s owner key (ags_revision a)) s"
      using assms(3,4) by (simp add: account_kept_def)
    fix t u assume "store_inv t" "any_step L t u" "account_kept owner key a (used s owner key (ags_revision a)) t"
    then show "account_kept owner key a (used s owner key (ags_revision a)) u"
      using effect_account store_step_effect unfolding any_step_def by blast
  qed
  then show ?thesis using assms(4-6) by (simp add: account_kept_def)
qed

theorem grant_uses_accounted_witness:
  "\<exists>m'. ags_remaining_uses (example_authority 1) = Some m' \<and>
     unat m' + used example_dispatched 5 example_key 1 = 2 + used example_running 5 example_key 1"
proof -
  have "(any_step example_store_lib)\<^sup>*\<^sup>* example_running example_dispatched"
    using example_reachable(4) by (intro r_into_rtranclp) (auto simp: any_step_def)
  from grant_uses_accounted [OF example_reachable(2) this, of 5 example_key "example_authority 2" 2 "example_authority 1"]
  show ?thesis by (simp add: example_running_state example_dispatched_state(2) example_authority_sel)
qed

section \<open>Dispatching\<close>

lemma patched_attempt:
  assumes "fresh_commit L owner c now s g p s'"
    and "map_of (ra_attempts (patch_aggregate g (final_patch c p))) key = Some a"
  shows "map_of (ra_attempts g) key = Some a \<or> a \<in> set (ec_attempts c)"
proof (rule fresh_commit_parts [OF assms(1)])
  assume "attempt_changes L g c = Ok (cpt_attempts p)"
  then have ok: "attempt_patches_ok g (ec_attempts c) (cpt_attempts p)" by (rule attempt_changes_ok)
  then have "distinct (map fst (ac_patches (cpt_attempts p)))"
    by (simp add: attempt_patches_ok_def bt_wf_distinct)
  from map_of_fold_insert [OF this, of snd] have
    "map_of (ra_attempts (patch_aggregate g (final_patch c p))) key = (case map_of (ac_patches (cpt_attempts p)) key of
      None \<Rightarrow> map_of (ra_attempts g) key | Some v \<Rightarrow> Some (snd v))"
    by (simp add: patch_aggregate_def case_prod_beta')
  then show ?thesis using assms(2) ok
    by (auto simp: attempt_patches_ok_def simp del: split_paired_All split: option.splits)
qed

lemma gate_passed:
  assumes "dispatch_policy_gate s owner c now = Ok ()" and "a \<in> set (ec_attempts c)"
    and "iar_state a = AttemptDispatching"
  obtains guard policy where "dispatching (ec_attempts c) = [a]" "ec_policy_guard c = Some guard"
    "guard_matches_attempt guard owner a"
    "authoritative_policies s (owner, dpg_agent_definition_id guard, dpg_agent_definition_version guard) = Some policy"
    "policy_validates policy guard now"
proof -
  have "a \<in> set (dispatching (ec_attempts c))" using assms(2,3) by (simp add: dispatching_def)
  then show thesis using assms(1) that unfolding dispatch_policy_gate_def
    by (auto split: list.splits option.splits if_splits)
qed

text \<open>What an accepted commit that brings an attempt into the dispatching state has shown of its guard.\<close>

definition dispatch_authorized :: "State \<Rightarrow> uuid \<Rightarrow> uuid \<Rightarrow> ExecutionCommit \<Rightarrow> u64 \<Rightarrow> InvocationAttemptRecord \<Rightarrow> bool" where
  "dispatch_authorized s owner i c now a \<longleftrightarrow>
     el_run_id (ec_lease c) = i \<and> dispatching (ec_attempts c) = [a] \<and>
     (\<exists>g. runs s (owner, i) = Some g \<and> ra_lease g = Some (ec_lease c)) \<and> now < el_expires_at_ms (ec_lease c) \<and>
     (\<exists>guard policy. ec_policy_guard c = Some guard \<and>
        dpg_owner_id guard = owner \<and> dpg_run_id guard = lib_run_id (iar_invocation a) \<and>
        dpg_logical_invocation_id guard = lib_id (iar_invocation a) \<and>
        dpg_capability_id guard = lib_capability_id (iar_invocation a) \<and>
        dpg_manifest_version guard = lib_manifest_version (iar_invocation a) \<and>
        dpg_canonical_argument_digest guard = lib_canonical_argument_digest (iar_invocation a) \<and>
        authoritative_policies s (owner, dpg_agent_definition_id guard, dpg_agent_definition_version guard) = Some policy \<and>
        aps_status policy = PolicyActive \<and> aps_revision policy = dpg_policy_revision guard \<and>
        is_none_or (aps_valid_until_ms policy) (\<lambda>until. now < until))"

lemma commit_dispatch_authorized:
  assumes "fresh_commit L owner c now s g p s'" and "runs s' (owner, i) = Some g'"
    and "map_of (ra_attempts g') key = Some a" and "iar_state a = AttemptDispatching"
    and "\<not> (\<exists>g. runs s (owner, i) = Some g \<and> map_of (ra_attempts g) key = Some a)"
  shows "dispatch_authorized s owner i c now a"
proof -
  note t = commit_target(1,2) [OF assms(1)]
  have i: "i = el_run_id (ec_lease c)" "g' = patch_aggregate g (final_patch c p)"
    using assms(2,3,5) t by (auto split: if_splits)
  have a: "a \<in> set (ec_attempts c)"
    using patched_attempt [OF assms(1), of key a] assms(3,5) t(1) i by auto
  have "dispatch_policy_gate s owner c now = Ok ()" by (rule fresh_commit_parts [OF assms(1)])
  then obtain guard policy where "dispatching (ec_attempts c) = [a]" "ec_policy_guard c = Some guard"
    "guard_matches_attempt guard owner a"
    "authoritative_policies s (owner, dpg_agent_definition_id guard, dpg_agent_definition_version guard) = Some policy"
    "policy_validates policy guard now"
    using a assms(4) by (rule gate_passed)
  then show ?thesis using i(1) t(1) fresh_commit_version(3,4) [OF assms(1)]
    unfolding dispatch_authorized_def policy_validates_def guard_matches_attempt_def by auto
qed

text \<open>\<^bold>\<open>C3.\<close> Nothing is dispatched without authority. A call that brings an attempt of some run into the
  dispatching state is a commit for the run's owner, and every commit that does so holds the run's
  lease, unexpired, dispatches this attempt and no other, and carries a policy guard which matches exactly
  this invocation and names the definition whose policy in the store was active, unexpired and at the
  guard's revision at that moment.\<close>

theorem dispatch_needs_policy:
  assumes "store_step L o' s s'" and "runs s' (owner, i) = Some g'"
    and "map_of (ra_attempts g') key = Some a" and "iar_state a = AttemptDispatching"
    and "\<not> (\<exists>g. runs s (owner, i) = Some g \<and> map_of (ra_attempts g) key = Some a)"
  shows "o' = owner \<and> (\<exists>c now out. commit_execution L s owner c now = (Ok out, s')) \<and>
    (\<forall>c now r. commit_execution L s owner c now = (r, s') \<longrightarrow> dispatch_authorized s owner i c now a)"
proof -
  have new: "s' \<noteq> s" using assms(2,3,5) by auto
  have every: "dispatch_authorized s owner i c now a" if "commit_execution L s owner c now = (r, s')" for c now r
    using that new commit_dispatch_authorized [OF _ assms(2-5)] by (cases rule: commit_execution_cases) auto
  have "o' = owner \<and> (\<exists>c now out. commit_execution L s owner c now = (Ok out, s'))"
    using store_step_effect [OF assms(1)]
  proof (cases rule: store_effect.cases)
    case (opened stored session)
    then show ?thesis using assms(2,3,5) open_run_new(2) [OF opened(1)] by (auto split: if_splits)
  next
    case (lease g l)
    then show ?thesis using assms(2,3,5) by (auto simp: leases_def set_lease_def split: if_splits)
  next
    case (commit c now g p)
    then have "o' = owner" using assms(2,3,5) commit_target(1,2) [OF commit(1)] by (auto split: if_splits)
    then show ?thesis using fresh_commit_answer [OF commit(1)] by blast
  qed (use assms(2,3,5) in auto)
  then show ?thesis using every by blast
qed

theorem dispatch_needs_policy_witness:
  "\<exists>c now. dispatch_authorized example_running 5 11 c now (example_attempt 1 AttemptDispatching)"
proof -
  obtain g where g: "runs example_dispatched (5, 11) = Some g"
    "ra_attempts g = [((lib_id example_invocation_binding, 1), example_attempt 1 AttemptDispatching)]"
    using example_dispatched_state(4) by blast
  have "map_of (ra_attempts g) (lib_id example_invocation_binding, 1) = Some (example_attempt 1 AttemptDispatching)"
    "\<not> (\<exists>h. runs example_running (5, 11) = Some h \<and>
      map_of (ra_attempts h) (lib_id example_invocation_binding, 1) = Some (example_attempt 1 AttemptDispatching))"
    by (simp_all add: g(2) example_running_state)
  from dispatch_needs_policy [OF example_reachable(4) g(1) this(1) example_use_sel(14) this(2)]
  show ?thesis by blast
qed

end
