(* ===== verification/Store_Owners.thy ===== *)
theory Store_Owners
  imports Store_Authority
begin

text \<open>
  The owners of one store: a call for one of them cannot change, and cannot depend on, what the
  store keeps for another.
\<close>

section \<open>Owners\<close>

text \<open>Everything the store keeps for one owner.\<close>

record OwnerView =
  view_sessions :: "uuid \<rightharpoonup> StoredSession"
  view_runs :: "uuid \<rightharpoonup> RunAggregate"
  view_claims :: "uuid \<rightharpoonup> uuid"
  view_receipts :: "uuid \<rightharpoonup> CommandReceipt"
  view_commands :: "uuid \<rightharpoonup> CommandIndexRecord"
  view_outcomes :: "uuid \<rightharpoonup> ExecutionCommitOutcome"
  view_grants :: "string \<rightharpoonup> AuthoritativeGrantState"
  view_policies :: "string \<times> u32 \<rightharpoonup> AuthoritativePolicyState"
  view_consumptions :: "(string \<times> u32 \<times> uuid) set"
  view_approvals :: "uuid \<rightharpoonup> ApprovalIndexRecord"

definition view :: "State \<Rightarrow> uuid \<Rightarrow> OwnerView" where
  "view s owner = \<lparr>view_sessions = (\<lambda>k. sessions s (owner, k)), view_runs = (\<lambda>k. runs s (owner, k)),
     view_claims = (\<lambda>k. serial_claims s (owner, k)), view_receipts = (\<lambda>k. receipts s (owner, k)),
     view_commands = (\<lambda>k. commands s (owner, k)), view_outcomes = (\<lambda>k. outcomes s (owner, k)),
     view_grants = (\<lambda>k. authoritative_grants s (owner, k)),
     view_policies = (\<lambda>k. authoritative_policies s (owner, k)),
     view_consumptions = {k. (owner, k) \<in> grant_consumptions s}, view_approvals = (\<lambda>k. approvals s (owner, k))\<rparr>"

lemma view_eq:
  "view s owner = view t owner \<longleftrightarrow> (\<forall>k. sessions s (owner, k) = sessions t (owner, k)) \<and>
     (\<forall>k. runs s (owner, k) = runs t (owner, k)) \<and> (\<forall>k. serial_claims s (owner, k) = serial_claims t (owner, k)) \<and>
     (\<forall>k. receipts s (owner, k) = receipts t (owner, k)) \<and> (\<forall>k. commands s (owner, k) = commands t (owner, k)) \<and>
     (\<forall>k. outcomes s (owner, k) = outcomes t (owner, k)) \<and>
     (\<forall>k. authoritative_grants s (owner, k) = authoritative_grants t (owner, k)) \<and>
     (\<forall>k. authoritative_policies s (owner, k) = authoritative_policies t (owner, k)) \<and>
     (\<forall>k. (owner, k) \<in> grant_consumptions s \<longleftrightarrow> (owner, k) \<in> grant_consumptions t) \<and>
     (\<forall>k. approvals s (owner, k) = approvals t (owner, k))"
  unfolding view_def by (simp only: OwnerView.ext_inject fun_eq_iff set_eq_iff mem_Collect_eq simp_thms)

lemma effect_other_owner:
  assumes "store_effect L owner s s'" and "o' \<noteq> owner"
  shows "view s' o' = view s o'"
  using assms(1)
proof (cases rule: store_effect.cases)
  case (opened stored session)
  note o = open_run_new(2,3,4,12-15) [OF opened(1)]
  have "receipts s' (o', k) = receipts s (o', k)" "commands s' (o', k) = commands s (o', k)"
    "outcomes s' (o', k) = outcomes s (o', k)" for k
    using opened(2) assms(2) by (auto simp: same_index_def indexes_def)
  then show ?thesis using assms(2) by (simp add: view_eq o)
next
  case (lease g l)
  then show ?thesis using assms(2) by (simp add: view_eq leases_def set_lease_def)
next
  case (commit c now g p)
  note st = fresh_commit_state [OF commit(1)]
  have "authoritative_grants s' (o', k) = authoritative_grants s (o', k)" for k
    using assms(2) by (auto simp: st split: option.splits)
  moreover have "(o', k) \<in> grant_consumptions s' \<longleftrightarrow> (o', k) \<in> grant_consumptions s" for k
    using commit_grants [OF commit(1)] assms(2)
    by (cases rule: grant_moves.cases) (simp_all add: st)
  moreover have "approvals s' (o', k) = approvals s (o', k)" for k
    using assms(2) by (auto simp: st Let_def split: option.splits)
  moreover have "sessions s' (o', k) = sessions s (o', k)" "serial_claims s' (o', k) = serial_claims s (o', k)" for k
    using assms(2) by (auto simp: st split: option.splits)
  ultimately show ?thesis using assms(2) by (simp add: view_eq st(1,6-9))
qed (use assms(2) in \<open>simp_all add: view_eq\<close>)

lemma view_lookup:
  assumes "view s owner = view t owner"
  shows "sessions s (owner, k) = sessions t (owner, k)" "runs s (owner, k) = runs t (owner, k)"
    "serial_claims s (owner, k) = serial_claims t (owner, k)" "receipts s (owner, k) = receipts t (owner, k)"
    "commands s (owner, k) = commands t (owner, k)" "outcomes s (owner, k) = outcomes t (owner, k)"
    "authoritative_grants s (owner, n) = authoritative_grants t (owner, n)"
    "authoritative_policies s (owner, d) = authoritative_policies t (owner, d)"
    "(owner, u) \<in> grant_consumptions s \<longleftrightarrow> (owner, u) \<in> grant_consumptions t"
    "approvals s (owner, k) = approvals t (owner, k)"
  using assms unfolding view_eq by blast+

lemma commit_view_patch:
  assumes "view s owner = view t owner"
  shows "build_commit_patch L s owner c now = build_commit_patch L t owner c now"
proof -
  note v = view_lookup [OF assms]
  show ?thesis
    unfolding build_commit_patch_def dispatch_policy_gate_def event_window_def commit_grant_update_def
      approval_grant_update_def dispatch_grant_update_def commit_stored_run_def approval_index_update_def
      approval_index_removal_def Let_def v by (rule refl)
qed

lemma commit_view_state:
  assumes "view s owner = view t owner"
    and f: "fresh_commit L owner c now s g p s'" and f': "fresh_commit L owner c now t g p t'"
  shows "view s' owner = view t' owner"
proof -
  note v = view_lookup [OF assms(1)] and S = fresh_commit_state [OF f] and T = fresh_commit_state [OF f']
  have runs: "runs s' (owner, k) = runs t' (owner, k)" for k unfolding S T by (simp add: v)
  have grants: "authoritative_grants s' (owner, k) = authoritative_grants t' (owner, k)" for k
    unfolding S T by (cases "cpt_grant p") (auto simp: v)
  have consumptions: "(owner, k) \<in> grant_consumptions s' \<longleftrightarrow> (owner, k) \<in> grant_consumptions t'" for k
    unfolding S T using commit_grants [OF f] by (cases rule: grant_moves.cases) (simp_all add: v)
  have sessions: "sessions s' (owner, k) = sessions t' (owner, k)" for k
    unfolding S T by (cases "cpt_session_update p") (simp_all add: v)
  have claims: "serial_claims s' (owner, k) = serial_claims t' (owner, k)" for k
    unfolding S T by (simp add: v)
  have approvals: "approvals s' (owner, k) = approvals t' (owner, k)" for k
    unfolding S T Let_def
    by (cases "cpt_approval_index_removal p"; cases "cpt_approval_index_update p") (auto simp: v)
  have index: "receipts s' (owner, k) = receipts t' (owner, k)" "commands s' (owner, k) = commands t' (owner, k)"
    "outcomes s' (owner, k) = outcomes t' (owner, k)" for k
    unfolding S T by (simp_all add: v)
  show ?thesis unfolding view_eq using runs grants consumptions sessions claims approvals index S(9) T(9) v(8)
    by simp
qed

lemma commit_answer:
  "fst (commit_execution L s owner c now) =
    (case validate_bounds L c of Inl e \<Rightarrow> Err (Raised e)
     | Inr _ \<Rightarrow> if target_run_id (ec_command c) \<noteq> el_run_id (ec_lease c)
         \<or> run_id (ec_target_run c) \<noteq> el_run_id (ec_lease c) then Err (Raised StInvalidRequest)
       else case receipts s (owner, cmd_id (ec_command c)) of
           Some r \<Rightarrow> commit_replay L s (owner, cmd_id (ec_command c)) r (ec_command c)
         | None \<Rightarrow> (case build_commit_patch L s owner c now of
             Inl e \<Rightarrow> Err e | Inr p \<Rightarrow> Ok (commit_outcome (final_patch c p))))"
proof (cases "build_commit_patch L s owner c now")
  case (Inl e)
  then have "commit_fresh L s owner c now = Err e" by (simp add: commit_fresh_def)
  then show ?thesis using Inl by (auto simp: commit_execution_def Let_def split: sum.splits option.splits)
next
  case (Inr p)
  obtain g where "runs s (owner, el_run_id (ec_lease c)) = Some g"
    using Inr by (rule commit_patch_parts)
  then obtain s' where "apply_commit_patch s owner (el_run_id (ec_lease c)) (final_patch c p)
      (commit_outcome (final_patch c p)) = Ok s'"
    by (simp add: apply_commit_patch_def Let_def)
  then have "commit_fresh L s owner c now = Ok (commit_outcome (final_patch c p), s')"
    unfolding commit_fresh_ok using Inr by blast
  then show ?thesis using Inr by (auto simp: commit_execution_def Let_def split: sum.splits option.splits)
qed

lemma commit_view:
  assumes "view s owner = view t owner"
    and "commit_execution L s owner c now = (r, s')" and "commit_execution L t owner c now = (r', t')"
  shows "r = r' \<and> view s' owner = view t' owner"
proof -
  note v = view_lookup [OF assms(1)]
  have r: "r = r'"
    using commit_answer [of L s owner c now] commit_answer [of L t owner c now] assms(2,3)
    unfolding commit_replay_def v commit_view_patch [OF assms(1)] by simp
  from assms(2) show ?thesis
  proof (cases rule: commit_execution_cases)
    case (fresh g p)
    have none: "receipts t (owner, cmd_id (ec_command c)) = None"
      using fresh_commit_receipt(3) [OF fresh(1)] v by simp
    obtain h q where f: "fresh_commit L owner c now t h q t'"
      using assms(3) fresh(2) r none by (cases rule: commit_execution_cases) auto
    moreover have "h = g" "q = p"
      using f fresh(1) commit_view_patch [OF assms(1), of L c now] v by (auto simp: fresh_commit.simps)
    ultimately show ?thesis using commit_view_state [OF assms(1) fresh(1)] r by simp
  next
    case (replayed receipt out)
    have "t' = t" using assms(3)
    proof (cases rule: commit_execution_cases)
      case (fresh h q)
      then show ?thesis using fresh_commit_receipt(3) [OF fresh(1)] v replayed(1) by simp
    qed simp_all
    then show ?thesis using r replayed assms(1) by simp
  next
    case (refused e)
    have "t' = t" using assms(3) r refused by (cases rule: commit_execution_cases) simp_all
    then show ?thesis using r refused assms(1) by simp
  qed
qed

text \<open>The other calls read and write one key of each map they touch.\<close>

lemma view_update:
  "view s owner = view t owner \<Longrightarrow>
     view (s\<lparr>runs := (runs s)((owner, i) := x)\<rparr>) owner = view (t\<lparr>runs := (runs t)((owner, i) := x)\<rparr>) owner"
  "view s owner = view t owner \<Longrightarrow>
     view (s\<lparr>authoritative_grants := (authoritative_grants s)((owner, key) := y)\<rparr>) owner =
     view (t\<lparr>authoritative_grants := (authoritative_grants t)((owner, key) := y)\<rparr>) owner"
  "view s owner = view t owner \<Longrightarrow>
     view (s\<lparr>authoritative_policies := (authoritative_policies s)((owner, d) := z)\<rparr>) owner =
     view (t\<lparr>authoritative_policies := (authoritative_policies t)((owner, d) := z)\<rparr>) owner"
  by (simp_all add: view_eq)

lemma policy_view:
  assumes "view s owner = view t owner"
  shows "fst (apply_authoritative_policy s owner change) = fst (apply_authoritative_policy t owner change)"
    and "view (snd (apply_authoritative_policy s owner change)) owner = view (snd (apply_authoritative_policy t owner change)) owner"
  using assms view_update(3) [OF assms]
  unfolding apply_authoritative_policy_def Let_def view_lookup [OF assms] by (auto split: sum.splits)

lemma grant_view:
  assumes "view s owner = view t owner"
  shows "fst (apply_authoritative_grant s owner change) = fst (apply_authoritative_grant t owner change)"
    and "view (snd (apply_authoritative_grant s owner change)) owner = view (snd (apply_authoritative_grant t owner change)) owner"
  using assms view_update(2) [OF assms]
  unfolding apply_authoritative_grant_def Let_def view_lookup [OF assms] by (auto split: sum.splits)

lemma acquire_view:
  assumes "view s owner = view t owner"
  shows "fst (store_acquire_lease s owner run n d f now) = fst (store_acquire_lease t owner run n d f now)"
    and "view (snd (store_acquire_lease s owner run n d f now)) owner = view (snd (store_acquire_lease t owner run n d f now)) owner"
  using assms view_update(1) [OF assms]
  unfolding store_acquire_lease_def Let_def view_lookup [OF assms] by (auto simp: set_lease_def split: sum.splits option.splits)

lemma renew_view:
  assumes "view s owner = view t owner"
  shows "fst (store_renew_lease s owner l d now) = fst (store_renew_lease t owner l d now)"
    and "view (snd (store_renew_lease s owner l d now)) owner = view (snd (store_renew_lease t owner l d now)) owner"
  using assms view_update(1) [OF assms]
  unfolding store_renew_lease_def Let_def view_lookup [OF assms] by (auto simp: set_lease_def split: sum.splits option.splits)

lemma create_view:
  assumes "view s owner = view t owner" and "built_request q"
    and "create_run s owner q = (r, s')" and "create_run t owner q = (r', t')"
  shows "r = r' \<and> view s' owner = view t' owner"
proof -
  note v = view_lookup [OF assms(1)]
  have r: "r = r'"
    using assms(3,4) unfolding create_run_def Let_def v
    by (auto split: if_splits sum.splits)
  show ?thesis
  proof (cases r)
    case (Inl e)
    then show ?thesis using r create_run_effect [OF assms(3,2)] create_run_effect [OF assms(4,2)] assms(1) by simp
  next
    case (Inr stored)
    then have own: "crq_owner_id q = owner" using assms(3) by (auto simp: create_run_def Let_def split: if_splits)
    have "view s' owner = view t' owner"
      using Inr r assms(3,4) unfolding create_run_def Let_def v own
      by (auto simp: view_eq v own split: if_splits sum.splits)
    then show ?thesis using r by simp
  qed
qed

lemma retry_prepare_view:
  assumes "view s owner = view t owner"
  shows "retry_prepare s owner q source = retry_prepare t owner q source"
  unfolding retry_prepare_def Let_def view_lookup [OF assms] ..

lemma retry_fresh_view:
  assumes "view s owner = view t owner"
    and "retry_fresh L s owner q g c = (r, s')" and "retry_fresh L t owner q g c = (r', t')"
  shows "r = r' \<and> view s' owner = view t' owner"
proof (cases "retry_prepare t owner q (ra_stored g)")
  case (Inl e)
  then show ?thesis
    using assms unfolding retry_fresh_def Let_def retry_prepare_view [OF assms(1)] by simp
next
  case (Inr x)
  obtain session version stored where x: "x = (session, version, stored)" by (cases x)
  show ?thesis
    using assms(2,3) unfolding retry_fresh_def Let_def retry_prepare_view [OF assms(1)] Inr x
    by (cases "map_raised store_err (CommandReceipt_new L c Accepted)")
      (auto simp: view_eq view_lookup [OF assms(1)])
qed

lemma retry_view:
  assumes "view s owner = view t owner"
    and "retry_run L s owner q = (r, s')" and "retry_run L t owner q = (r', t')"
  shows "r = r' \<and> view s' owner = view t' owner"
proof -
  note v = view_lookup [OF assms(1)]
  show ?thesis
    using assms unfolding retry_run_def retry_replay_def Let_def v
    by (auto dest: retry_fresh_view [OF assms(1)] split: option.splits sum.splits if_splits)
qed

text \<open>\<^bold>\<open>C20.\<close> Owners are isolated. A call for one owner leaves everything the store keeps for any other owner as
  it was, and both the answer of a call and what it leaves for its own owner depend only on what
  the store keeps for that owner: two stores that agree on it give the same answers, whatever else
  they hold.\<close>

theorem owners_isolated:
  assumes "o' \<noteq> owner" and "store_step L owner s s'" and "view s owner = view t owner"
  shows "view s' o' = view s o' \<and>
    (commit_execution L s owner c now = (r1, s1) \<and> commit_execution L t owner c now = (r1', t1) \<longrightarrow>
       r1 = r1' \<and> view s1 owner = view t1 owner) \<and>
    (retry_run L s owner rq = (r2, s2) \<and> retry_run L t owner rq = (r2', t2) \<longrightarrow>
       r2 = r2' \<and> view s2 owner = view t2 owner) \<and>
    (built_request q \<and> create_run s owner q = (r3, s3) \<and> create_run t owner q = (r3', t3) \<longrightarrow>
       r3 = r3' \<and> view s3 owner = view t3 owner) \<and>
    (store_acquire_lease s owner run n d f now = (r4, s4) \<and> store_acquire_lease t owner run n d f now = (r4', t4) \<longrightarrow>
       r4 = r4' \<and> view s4 owner = view t4 owner) \<and>
    (store_renew_lease s owner l d now = (r5, s5) \<and> store_renew_lease t owner l d now = (r5', t5) \<longrightarrow>
       r5 = r5' \<and> view s5 owner = view t5 owner) \<and>
    (apply_authoritative_grant s owner gch = (r6, s6) \<and> apply_authoritative_grant t owner gch = (r6', t6) \<longrightarrow>
       r6 = r6' \<and> view s6 owner = view t6 owner) \<and>
    (apply_authoritative_policy s owner pch = (r7, s7) \<and> apply_authoritative_policy t owner pch = (r7', t7) \<longrightarrow>
       r7 = r7' \<and> view s7 owner = view t7 owner)"
proof (intro conjI impI)
  show "view s' o' = view s o'" using effect_other_owner store_step_effect assms(1,2) by blast
  show "r1 = r1'" "view s1 owner = view t1 owner"
    if "commit_execution L s owner c now = (r1, s1) \<and> commit_execution L t owner c now = (r1', t1)"
    using commit_view [OF assms(3)] that by blast+
  show "r2 = r2'" "view s2 owner = view t2 owner"
    if "retry_run L s owner rq = (r2, s2) \<and> retry_run L t owner rq = (r2', t2)"
    using retry_view [OF assms(3)] that by blast+
  show "r3 = r3'" "view s3 owner = view t3 owner"
    if "built_request q \<and> create_run s owner q = (r3, s3) \<and> create_run t owner q = (r3', t3)"
    using create_view [OF assms(3)] that by blast+
  show "r4 = r4'" "view s4 owner = view t4 owner"
    if "store_acquire_lease s owner run n d f now = (r4, s4) \<and> store_acquire_lease t owner run n d f now = (r4', t4)"
    using acquire_view [OF assms(3), of run n d f now] that by simp_all
  show "r5 = r5'" "view s5 owner = view t5 owner"
    if "store_renew_lease s owner l d now = (r5, s5) \<and> store_renew_lease t owner l d now = (r5', t5)"
    using renew_view [OF assms(3), of l d now] that by simp_all
  show "r6 = r6'" "view s6 owner = view t6 owner"
    if "apply_authoritative_grant s owner gch = (r6, s6) \<and> apply_authoritative_grant t owner gch = (r6', t6)"
    using grant_view [OF assms(3), of gch] that by simp_all
  show "r7 = r7'" "view s7 owner = view t7 owner"
    if "apply_authoritative_policy s owner pch = (r7, s7) \<and> apply_authoritative_policy t owner pch = (r7', t7)"
    using policy_view [OF assms(3), of pch] that by simp_all
qed

theorem owners_isolated_witness:
  "view example_dispatched 6 = view example_running 6 \<and> view example_dispatched 5 \<noteq> view example_running 5"
proof -
  have "view example_dispatched 6 = view example_running 6"
    using owners_isolated [OF _ example_reachable(4) refl, of 6] by simp
  moreover have "(5, example_key, 1, lib_id example_invocation_binding) \<in> grant_consumptions example_dispatched"
    "(5, example_key, 1, lib_id example_invocation_binding) \<notin> grant_consumptions example_running"
    by (simp_all add: example_dispatched_state(3) example_running_state)
  ultimately show ?thesis using view_lookup(9) [of example_dispatched 5 example_running] by blast
qed

end
