(* ===== verification/Paging.thy ===== *)
theory Paging
  imports Memory_Store
begin

text \<open>
  Reading the history of a run in pages, from \<open>anima-core/src/execution/memory_store.rs\<close> and
  \<open>store.rs\<close>: authenticated cursors, the window of a page, and the three paged reads. Bytes are
  characters; \<open>sha256\<close> is the digest of the library record and \<open>key\<close> the store's \<open>cursor_key\<close>.
\<close>

section \<open>Pages\<close>

definition MAX_STORE_READ_PAGE_SIZE :: nat where "MAX_STORE_READ_PAGE_SIZE = 256"
definition MAX_STORE_READ_CURSOR_BYTES :: nat where "MAX_STORE_READ_CURSOR_BYTES = 256"

text \<open>A \<open>StoreReadCursor\<close> is its string.\<close>

definition StoreReadCursor_from_opaque :: "string \<Rightarrow> (ExecutionStoreErrorCode, string) result" where
  "StoreReadCursor_from_opaque value =
     (if value = [] \<or> length value > MAX_STORE_READ_CURSOR_BYTES \<or> \<not> list_all (\<lambda>c. code c < 128) value
      then Err StBoundsExceeded else Ok value)"

record StoreReadPage =
  srp_cursor :: "string option"
  srp_limit :: u32

definition StoreReadPage_new ::
  "string option \<Rightarrow> u32 \<Rightarrow> (ExecutionStoreErrorCode, StoreReadPage) result" where
  "StoreReadPage_new cursor limit =
     (if limit = 0 \<or> unat limit > MAX_STORE_READ_PAGE_SIZE then Err StBoundsExceeded
      else Ok \<lparr>srp_cursor = cursor, srp_limit = limit\<rparr>)"

record 'a StoreHistoryPage =
  shp_items :: "'a list"
  shp_next_cursor :: "string option"

definition StoreHistoryPage_new ::
  "'a list \<Rightarrow> string option \<Rightarrow> (ExecutionStoreErrorCode, 'a StoreHistoryPage) result" where
  "StoreHistoryPage_new items next_cursor =
     (if length items > MAX_STORE_READ_PAGE_SIZE \<or> items = [] \<and> next_cursor \<noteq> None
      then Err StBoundsExceeded else Ok \<lparr>shp_items = items, shp_next_cursor = next_cursor\<rparr>)"

text \<open>A page of events is checked as a batch.\<close>

definition EventReplayPage_new ::
  "RuntimeEvent list \<Rightarrow> string option \<Rightarrow> (ExecutionStoreErrorCode, RuntimeEvent StoreHistoryPage) result" where
  "EventReplayPage_new events next_cursor =
     (if length events > MAX_STORE_READ_PAGE_SIZE \<or> events = [] \<and> next_cursor \<noteq> None
      then Err StBoundsExceeded
      else try_then (case events of [] \<Rightarrow> Ok ()
          | first # _ \<Rightarrow> map_err (\<lambda>_. StEventConflict) (validate_batch (ev_sequence first) events)) (\<lambda>_.
        Ok \<lparr>shp_items = events, shp_next_cursor = next_cursor\<rparr>))"

section \<open>Cursors\<close>

datatype HistoryCollection = Events | Steps | Attempts

fun collection_tag :: "HistoryCollection \<Rightarrow> nat" where
  "collection_tag Events = 1"
| "collection_tag Steps = 2"
| "collection_tag Attempts = 3"

text \<open>\<open>to_be_bytes\<close> of \<open>n\<close> bytes and \<open>from_be_bytes\<close>.\<close>

fun be_bytes :: "nat \<Rightarrow> nat \<Rightarrow> string" where
  "be_bytes 0 v = []"
| "be_bytes (Suc n) v = be_bytes n (v div 256) @ [char_of (v mod 256)]"

definition from_be_bytes :: "string \<Rightarrow> nat" where
  "from_be_bytes bs = foldl (\<lambda>a b. a * 256 + code b) 0 bs"

definition hex_digit :: "nat \<Rightarrow> char" where
  "hex_digit n = (if n < 10 then char_of (48 + n) else char_of (87 + n))"

fun encode_hex :: "string \<Rightarrow> string" where
  "encode_hex [] = []"
| "encode_hex (b # bs) = hex_digit (code b div 16) # hex_digit (code b mod 16) # encode_hex bs"

definition hex_value :: "char \<Rightarrow> nat option" where
  "hex_value c =
     (if 48 \<le> code c \<and> code c \<le> 57 then Some (code c - 48)
      else if 97 \<le> code c \<and> code c \<le> 102 then Some (code c - 97 + 10) else None)"

fun decode_hex :: "string \<Rightarrow> string option" where
  "decode_hex [] = Some []"
| "decode_hex [_] = None"
| "decode_hex (a # b # rest) =
     (case (hex_value a, hex_value b, decode_hex rest) of
        (Some x, Some y, Some bs) \<Rightarrow> Some (char_of (x * 16 + y) # bs)
      | _ \<Rightarrow> None)"

definition cursor_payload :: "uuid \<Rightarrow> uuid \<Rightarrow> HistoryCollection \<Rightarrow> u64 \<Rightarrow> u64 \<Rightarrow> string" where
  "cursor_payload owner run collection snapshot last_seq =
     [char_of (1::nat), char_of (collection_tag collection)] @ be_bytes 16 (unat owner) @
     be_bytes 16 (unat run) @ be_bytes 8 (unat snapshot) @ be_bytes 8 (unat last_seq)"

definition write_cursor ::
  "'x capability_lib_scheme \<Rightarrow> string \<Rightarrow> uuid \<Rightarrow> uuid \<Rightarrow> HistoryCollection \<Rightarrow> u64 \<Rightarrow> u64
     \<Rightarrow> (ExecutionStoreErrorCode, string) result" where
  "write_cursor L key owner run collection snapshot last_seq =
     (let payload = cursor_payload owner run collection snapshot last_seq in
      StoreReadCursor_from_opaque (''sc1.'' @ encode_hex (payload @ sha256 L (payload @ key))))"

text \<open>The comparison of the digest, without an early exit.\<close>

definition tag_difference :: "string \<Rightarrow> string \<Rightarrow> u8" where
  "tag_difference expected given =
     fold (\<lambda>(left, right) difference. or difference (xor (of_nat (code left)) (of_nat (code right))))
       (zip expected given) 0"

definition strip_prefix :: "string \<Rightarrow> string \<Rightarrow> string option" where
  "strip_prefix prefix value =
     (if take (length prefix) value = prefix then Some (drop (length prefix) value) else None)"

definition decode_cursor ::
  "'x capability_lib_scheme \<Rightarrow> string \<Rightarrow> string
     \<Rightarrow> (ExecutionStoreErrorCode, uuid \<times> uuid \<times> HistoryCollection \<times> u64 \<times> u64) result" where
  "decode_cursor L key cursor =
     try_then (ok_or (strip_prefix ''sc1.'' cursor) StInvalidRequest) (\<lambda>encoded.
     try_then (ok_or (decode_hex encoded) StInvalidRequest) (\<lambda>bytes.
     if length bytes \<noteq> 82 \<or> code (bytes ! 0) \<noteq> 1 then Err StInvalidRequest
     else try_then (ok_or (
         if code (bytes ! 1) = 1 then Some Events
         else if code (bytes ! 1) = 2 then Some Steps
         else if code (bytes ! 1) = 3 then Some Attempts
         else None) StInvalidRequest) (\<lambda>collection.
     let payload = take 50 bytes in
     if tag_difference (sha256 L (payload @ key)) (drop 50 bytes) \<noteq> 0 then Err StInvalidRequest
     else Ok (of_nat (from_be_bytes (take 16 (drop 2 bytes))),
       of_nat (from_be_bytes (take 16 (drop 18 bytes))), collection,
       of_nat (from_be_bytes (take 8 (drop 34 bytes))),
       of_nat (from_be_bytes (take 8 (drop 42 bytes)))))))"

section \<open>Paged reads\<close>

definition read_window ::
  "'x capability_lib_scheme \<Rightarrow> string \<Rightarrow> uuid \<Rightarrow> uuid \<Rightarrow> HistoryCollection \<Rightarrow> u64 \<Rightarrow> StoreReadPage
     \<Rightarrow> (ExecutionStoreErrorCode, u64 \<times> u64) result" where
  "read_window L key owner run collection current_snapshot page =
     (case srp_cursor page of
        None \<Rightarrow> Ok (current_snapshot, 0)
      | Some cursor \<Rightarrow>
          try_then (decode_cursor L key cursor) (\<lambda>(cursor_owner, cursor_run, cursor_collection, snapshot, last_seq).
          if cursor_owner \<noteq> owner \<or> cursor_run \<noteq> run \<or> cursor_collection \<noteq> collection
             \<or> snapshot > current_snapshot \<or> last_seq \<ge> snapshot
          then Err StInvalidRequest else Ok (snapshot, last_seq)))"

text \<open>\<open>limit + 1\<close> fits a \<open>usize\<close>, since a limit is a \<open>u32\<close>.\<close>

definition page_take :: "StoreReadPage \<Rightarrow> nat" where
  "page_take page = unat (srp_limit page) + 1"

definition replay_events ::
  "'x store_lib_scheme \<Rightarrow> string \<Rightarrow> State \<Rightarrow> uuid \<Rightarrow> uuid \<Rightarrow> StoreReadPage
     \<Rightarrow> (ExecutionStoreErrorCode, RuntimeEvent StoreHistoryPage) result" where
  "replay_events L key s owner run page =
     try_then (ok_or (runs s (owner, run)) StNotFound) (\<lambda>g.
     try_then (u64_from (length (ra_events g))) (\<lambda>current_snapshot.
     try_then (read_window L key owner run Events current_snapshot page) (\<lambda>(snapshot, last_seq).
     let taken = take (page_take page) (drop (unat last_seq) (take (unat snapshot) (ra_events g)));
         has_more = length taken > unat (srp_limit page);
         events = (if has_more then butlast taken else taken) in
     try_then (if has_more
       then try_then (if events = [] then Err StEventConflict else Ok (ev_sequence (last events))) (\<lambda>last_seq.
         try_then (write_cursor L key owner run Events snapshot last_seq) (\<lambda>c. Ok (Some c)))
       else Ok None) (\<lambda>next_cursor.
     EventReplayPage_new events next_cursor))))"

text \<open>The items that a list of keys names; a missing one is an error.\<close>

fun lookup_all :: "('k \<rightharpoonup> 'v) \<Rightarrow> 'k list \<Rightarrow> (ExecutionStoreErrorCode, 'v list) result" where
  "lookup_all m [] = Ok []"
| "lookup_all m (k # ks) =
     try_then (ok_or (m k) StHistoryConflict) (\<lambda>v. try_then (lookup_all m ks) (\<lambda>vs. Ok (v # vs)))"

definition load_steps_page ::
  "'x store_lib_scheme \<Rightarrow> string \<Rightarrow> State \<Rightarrow> uuid \<Rightarrow> uuid \<Rightarrow> StoreReadPage
     \<Rightarrow> (ExecutionStoreErrorCode, Step StoreHistoryPage) result" where
  "load_steps_page L key s owner run page =
     try_then (ok_or (runs s (owner, run)) StNotFound) (\<lambda>g.
     let current = (case bt_last_key (ra_step_order g) of None \<Rightarrow> 0 | Some n \<Rightarrow> n) in
     try_then (read_window L key owner run Steps current page) (\<lambda>(snapshot, last_seq).
     let range = bt_range last_seq snapshot (ra_step_order g) in
     try_then (lookup_all (ra_steps g) (map snd (take (page_take page) range))) (\<lambda>taken.
     let has_more = length taken > unat (srp_limit page);
         items = (if has_more then butlast taken else taken) in
     try_then (if has_more
       then try_then (if length items - 1 < length range then Ok (fst (range ! (length items - 1)))
           else Err StHistoryConflict) (\<lambda>last_seq.
         try_then (write_cursor L key owner run Steps snapshot last_seq) (\<lambda>c. Ok (Some c)))
       else Ok None) (\<lambda>next_cursor.
     StoreHistoryPage_new items next_cursor))))"

definition load_attempts_page ::
  "'x store_lib_scheme \<Rightarrow> string \<Rightarrow> State \<Rightarrow> uuid \<Rightarrow> uuid \<Rightarrow> StoreReadPage
     \<Rightarrow> (ExecutionStoreErrorCode, InvocationAttemptRecord StoreHistoryPage) result" where
  "load_attempts_page L key s owner run page =
     try_then (ok_or (runs s (owner, run)) StNotFound) (\<lambda>g.
     let current = (case bt_last_key (ra_attempt_order g) of None \<Rightarrow> 0 | Some n \<Rightarrow> n) in
     try_then (read_window L key owner run Attempts current page) (\<lambda>(snapshot, last_seq).
     let taken = take (page_take page) (bt_range last_seq snapshot (ra_attempt_order g));
         has_more = length taken > unat (srp_limit page);
         entries = (if has_more then butlast taken else taken) in
     try_then (if has_more
       then try_then (if entries = [] then Err StHistoryConflict else Ok (fst (last entries))) (\<lambda>last_seq.
         try_then (write_cursor L key owner run Attempts snapshot last_seq) (\<lambda>c. Ok (Some c)))
       else Ok None) (\<lambda>next_cursor.
     try_then (lookup_all (map_of (ra_attempts g)) (map snd entries)) (\<lambda>items.
     StoreHistoryPage_new items next_cursor))))"

end
