(* ===== verification/Paging_Facts.thy ===== *)
theory Paging_Facts
  imports Store_History Paging
begin

text \<open>
  Cursors are authentic, and reading page by page delivers the events of one snapshot exactly, even
  while the run goes on. The last section shows a history that the store accepts and cannot replay.
\<close>

section \<open>Cursors are authentic\<close>

lemma code_less: "code c < 256"
  by (simp add: code_def of_char_def) 

lemma code_char_of [simp]: "code (char_of n) = n mod 256"
  by (simp add: code_def)

lemma char_of_code [simp]: "char_of (code c) = c"
  by (simp add: code_def)

lemma code_inject: "code a = code b \<longleftrightarrow> a = b"
  by (metis char_of_code)

lemma length_be_bytes [simp]: "length (be_bytes n v) = n"
  by (induction n arbitrary: v) simp_all

lemma from_be_append: "from_be_bytes (bs @ [b]) = from_be_bytes bs * 256 + code b"
  by (simp add: from_be_bytes_def)

lemma from_be_bytes_be_bytes: "v < 256 ^ n \<Longrightarrow> from_be_bytes (be_bytes n v) = v"
proof (induction n arbitrary: v)
  case (Suc n)
  then have "v div 256 < 256 ^ n" by (simp add: div_less_iff_less_mult mult.commute)
  then show ?case using Suc.IH by (simp add: from_be_append)
qed (simp add: from_be_bytes_def)

lemma be_bytes_from_be_bytes: "be_bytes (length bs) (from_be_bytes bs) = bs"
proof (induction bs rule: rev_induct)
  case (snoc b bs)
  then show ?case using code_less [of b] by (simp add: from_be_append)
qed simp

lemma from_be_bytes_less: "from_be_bytes bs < 256 ^ length bs"
proof (induction bs rule: rev_induct)
  case (snoc b bs)
  then show ?case using code_less [of b] by (simp add: from_be_append)
qed (simp add: from_be_bytes_def)

lemma hex_value_digit: "n < 16 \<Longrightarrow> hex_value (hex_digit n) = Some n"
  by (simp add: hex_value_def hex_digit_def)

lemma hex_digit_value: "hex_value c = Some n \<Longrightarrow> n < 16 \<and> hex_digit n = c"
  by (auto simp: hex_value_def hex_digit_def split: if_splits)

lemma decode_encode_hex: "decode_hex (encode_hex bs) = Some bs"
proof (induction bs)
  case (Cons b bs)
  have "code b div 16 < 16" using code_less [of b] by simp
  then show ?case using Cons by (simp add: hex_value_digit)
qed simp

lemma encode_decode_hex: "decode_hex s = Some bs \<Longrightarrow> encode_hex bs = s"
proof (induction s arbitrary: bs rule: decode_hex.induct)
  case (3 a b rest)
  then obtain x y cs where "hex_value a = Some x" "hex_value b = Some y" "decode_hex rest = Some cs"
    "bs = char_of (x * 16 + y) # cs" by (auto split: option.splits)
  moreover from this have "x < 16" "y < 16" "hex_digit x = a" "hex_digit y = b"
    using hex_digit_value by blast+
  ultimately show ?case using 3 by simp
qed auto

lemma length_encode_hex [simp]: "length (encode_hex bs) = 2 * length bs"
  by (induction bs) simp_all

lemma hex_digit_ascii: "n < 16 \<Longrightarrow> code (hex_digit n) < 128"
  by (simp add: hex_digit_def)

lemma encode_hex_ascii: "list_all (\<lambda>c. code c < 128) (encode_hex bs)"
proof (induction bs)
  case (Cons b bs)
  have "code b div 16 < 16" using code_less [of b] by simp
  then show ?case using Cons by (simp add: hex_digit_ascii)
qed simp

lemma or_xor_zero: "or d (xor (of_nat (code a)) (of_nat (code b))) = (0::u8) \<longleftrightarrow> d = 0 \<and> a = b"
proof -
  have "xor x y = 0 \<longleftrightarrow> x = y" for x y :: u8
    by (auto simp: bit_eq_iff bit_simps)
  moreover have "(of_nat (code a) :: u8) = of_nat (code b) \<longleftrightarrow> a = b"
    using code_less [of a] code_less [of b] code_inject [of a b]
    by (simp add: word_of_nat_eq_iff take_bit_nat_eq_self)
  moreover have "or d x = 0 \<longleftrightarrow> d = 0 \<and> x = 0" for x :: u8
    by (auto simp: bit_eq_iff bit_simps)
  ultimately show ?thesis by simp
qed

lemma tag_difference_zero:
  assumes "length a = length b"
  shows "tag_difference a b = 0 \<longleftrightarrow> a = b"
proof -
  have "fold (\<lambda>(left, right) difference. or difference (xor (of_nat (code left)) (of_nat (code right))))
      (zip a b) d = (0::u8) \<longleftrightarrow> d = 0 \<and> a = b" for d
    using assms by (induction a b arbitrary: d rule: list_induct2) (auto simp: or_xor_zero)
  then show ?thesis by (simp add: tag_difference_def)
qed

lemma cursor_payload_parts:
  "length (cursor_payload owner run c n m) = 50"
  "cursor_payload owner run c n m ! 0 = char_of (1::nat)" "cursor_payload owner run c n m ! 1 = char_of (collection_tag c)"
  "take 16 (drop 2 (cursor_payload owner run c n m)) = be_bytes 16 (unat owner)"
  "take 16 (drop 18 (cursor_payload owner run c n m)) = be_bytes 16 (unat run)"
  "take 8 (drop 34 (cursor_payload owner run c n m)) = be_bytes 8 (unat n)"
  "take 8 (drop 42 (cursor_payload owner run c n m)) = be_bytes 8 (unat m)"
  by (simp_all add: cursor_payload_def)

lemma be_bytes_word:
  "of_nat (from_be_bytes (be_bytes 16 (unat u))) = (u :: uuid)" "of_nat (from_be_bytes (be_bytes 8 (unat v))) = (v :: u64)"
proof -
  have "unat u < 2 ^ LENGTH(128)" "unat v < 2 ^ LENGTH(64)" by (rule unsigned_less)+
  then show "of_nat (from_be_bytes (be_bytes 16 (unat u))) = u" "of_nat (from_be_bytes (be_bytes 8 (unat v))) = v"
    by (simp_all add: from_be_bytes_be_bytes)
qed

lemma word_be_bytes:
  "length bs = 16 \<Longrightarrow> be_bytes 16 (unat (of_nat (from_be_bytes bs) :: uuid)) = bs"
  "length cs = 8 \<Longrightarrow> be_bytes 8 (unat (of_nat (from_be_bytes cs) :: u64)) = cs"
  using from_be_bytes_less [of bs] from_be_bytes_less [of cs] be_bytes_from_be_bytes [of bs] be_bytes_from_be_bytes [of cs]
  by (simp_all add: unsigned_of_nat take_bit_nat_eq_self)

lemma strip_prefix_ok: "strip_prefix p v = Some r \<longleftrightarrow> v = p @ r"
  by (auto simp: strip_prefix_def) (metis append_take_drop_id)

text \<open>A digest has 32 bytes.\<close>

definition digest_length :: "'x capability_lib_scheme \<Rightarrow> bool" where
  "digest_length L \<longleftrightarrow> (\<forall>x. length (sha256 L x) = 32)"

definition cursor_text :: "'x capability_lib_scheme \<Rightarrow> string \<Rightarrow> string \<Rightarrow> string" where
  "cursor_text L key payload = ''sc1.'' @ encode_hex (payload @ sha256 L (payload @ key))"

lemma write_cursor_ok:
  assumes "digest_length L"
  shows "write_cursor L key owner run c n m = Ok (cursor_text L key (cursor_payload owner run c n m))"
  using assms encode_hex_ascii
  by (simp add: write_cursor_def Let_def StoreReadCursor_from_opaque_def MAX_STORE_READ_CURSOR_BYTES_def
      cursor_text_def digest_length_def cursor_payload_parts(1) code_def)

lemma decode_cursor_text:
  assumes "digest_length L"
  shows "decode_cursor L key (cursor_text L key (cursor_payload owner run c n m)) = Ok (owner, run, c, n, m)"
proof -
  let ?p = "cursor_payload owner run c n m"
  let ?bs = "?p @ sha256 L (?p @ key)"
  have "length ?bs = 82" "take 50 ?bs = ?p" "drop 50 ?bs = sha256 L (?p @ key)"
    using assms by (simp_all add: digest_length_def cursor_payload_parts(1))
  moreover have "?bs ! 0 = char_of (1::nat)" "?bs ! 1 = char_of (collection_tag c)"
    "take 16 (drop 2 ?bs) = be_bytes 16 (unat owner)" "take 16 (drop 18 ?bs) = be_bytes 16 (unat run)"
    "take 8 (drop 34 ?bs) = be_bytes 8 (unat n)" "take 8 (drop 42 ?bs) = be_bytes 8 (unat m)"
    by (simp_all add: nth_append cursor_payload_parts cursor_payload_parts(3) [simplified])
  ultimately show ?thesis
    unfolding decode_cursor_def cursor_text_def Let_def
    by (cases c) (simp_all add: strip_prefix_def decode_encode_hex tag_difference_zero be_bytes_word)
qed

lemma payload_of_bytes:
  assumes "length p = 50" "code (p ! 0) = 1" "code (p ! 1) = collection_tag c"
  shows "cursor_payload (of_nat (from_be_bytes (take 16 (drop 2 p)))) (of_nat (from_be_bytes (take 16 (drop 18 p)))) c
    (of_nat (from_be_bytes (take 8 (drop 34 p)))) (of_nat (from_be_bytes (take 8 (drop 42 p)))) = p"
proof -
  have "drop 2 p = take 16 (drop 2 p) @ drop 18 p" "drop 18 p = take 16 (drop 18 p) @ drop 34 p"
    "drop 34 p = take 8 (drop 34 p) @ drop 42 p" "drop 42 p = take 8 (drop 42 p)"
    using append_take_drop_id [of 16 "drop 2 p"] append_take_drop_id [of 16 "drop 18 p"]
      append_take_drop_id [of 8 "drop 34 p"] assms(1) by simp_all
  moreover have "take 2 p = [char_of (1::nat), char_of (collection_tag c)]"
    using assms char_of_code [of "p ! 0"] char_of_code [of "p ! 1"]
    by (simp add: numeral_2_eq_2 take_Suc_conv_app_nth)
  ultimately have "p = [char_of (1::nat), char_of (collection_tag c)] @ take 16 (drop 2 p) @ take 16 (drop 18 p) @
      take 8 (drop 34 p) @ take 8 (drop 42 p)"
    by (metis append_take_drop_id)
  then show ?thesis unfolding cursor_payload_def using assms(1)
    by (simp add: word_be_bytes)
qed

lemma decode_cursor_ok:
  assumes "digest_length L" and "decode_cursor L key cursor = Ok (owner, run, c, n, m)"
  shows "cursor = cursor_text L key (cursor_payload owner run c n m)"
proof -
  obtain encoded bytes where b: "cursor = ''sc1.'' @ encoded" "decode_hex encoded = Some bytes"
    "length bytes = 82" "code (bytes ! 0) = 1" "code (bytes ! 1) = collection_tag c"
    "tag_difference (sha256 L (take 50 bytes @ key)) (drop 50 bytes) = 0"
    "owner = of_nat (from_be_bytes (take 16 (drop 2 bytes)))" "run = of_nat (from_be_bytes (take 16 (drop 18 bytes)))"
    "n = of_nat (from_be_bytes (take 8 (drop 34 bytes)))" "m = of_nat (from_be_bytes (take 8 (drop 42 bytes)))"
    using assms(2) by (auto simp: decode_cursor_def Let_def strip_prefix_ok split: if_splits)
  have "drop 50 bytes = sha256 L (take 50 bytes @ key)"
    using b(3,6) assms(1) by (simp add: tag_difference_zero digest_length_def)
  then have bytes: "bytes = take 50 bytes @ sha256 L (take 50 bytes @ key)" by (metis append_take_drop_id)
  have "cursor_payload owner run c n m = take 50 bytes"
    using payload_of_bytes [of "take 50 bytes" c] b(3-5) unfolding b(7-10)
    by (simp add: drop_take)
  then show ?thesis using b(1) encode_decode_hex [OF b(2)] bytes by (simp add: cursor_text_def)
qed

text \<open>\<^bold>\<open>C19.\<close> Cursors are authentic: a string is accepted as a cursor for some owner, run, collection, snapshot
  and position exactly when it is the cursor the store itself writes for them. Writing never fails,
  and a string whose digest, prefix, case or length differs anywhere is refused.\<close>

theorem cursor_authentic:
  assumes "digest_length L"
  shows "decode_cursor L key cursor = Ok (owner, run, c, n, m) \<longleftrightarrow> write_cursor L key owner run c n m = Ok cursor"
  using decode_cursor_ok [OF assms] decode_cursor_text [OF assms] write_cursor_ok [OF assms] by fastforce

definition cursor_lib :: capability_lib where
  "cursor_lib = example_lib\<lparr>sha256 := (\<lambda>x. take 32 (x @ replicate 32 (CHR ''0'')))\<rparr>"

theorem cursor_authentic_witness:
  "\<exists>cursor. write_cursor cursor_lib ''k'' 5 11 Events 3 2 = Ok cursor \<and>
     decode_cursor cursor_lib ''k'' cursor = Ok (5, 11, Events, 3, 2)"
proof -
  have d: "digest_length cursor_lib" by (auto simp: digest_length_def cursor_lib_def min_def)
  show ?thesis using cursor_authentic [OF d] write_cursor_ok [OF d] by blast
qed

section \<open>Reading page by page\<close>

lemma batch_ok_slice:
  assumes "batch_ok 1 es" and "take k (drop n es) = e # r"
  shows "batch_ok (ev_sequence e) (take k (drop n es))" and "unat (ev_sequence e) = Suc n"
proof -
  let ?xs = "take k (drop n es)"
  have num: "map (\<lambda>e. unat (ev_sequence e)) es = [1..<Suc (length es)]" and bound: "es \<noteq> [] \<longrightarrow> Suc (length es) < 2 ^ 64"
    using assms(1) by (simp_all add: batch_ok_def del: upt_Suc)
  have n: "n < length es" using assms(2) by (metis drop_all linorder_not_le list.distinct(1) take_Nil)
  then have len: "n + length ?xs \<le> length es" by simp
  have "map (\<lambda>e. unat (ev_sequence e)) ?xs = take k (drop n [1..<Suc (length es)])"
    by (simp only: take_map [symmetric] drop_map [symmetric] num)
  also have "\<dots> = [Suc n..<Suc n + length ?xs]"
    using n by (auto simp: min_def)
  finally have seq: "map (\<lambda>e. unat (ev_sequence e)) ?xs = [Suc n..<Suc n + length ?xs]" .
  have e: "unat (ev_sequence e) = Suc n"
    using arg_cong [OF seq, of hd] by (simp add: assms(2) upt_rec)
  then show "unat (ev_sequence e) = Suc n" .
  have sub: "set ?xs \<subseteq> set es" by (metis set_drop_subset set_take_subset subset_trans)
  have "sorted (map ev_timestamp_ms ?xs)" "distinct (map ev_event_id ?xs)"
    using assms(1) by (simp_all add: batch_ok_def take_map [symmetric] drop_map [symmetric] sorted_wrt_take sorted_wrt_drop distinct_take distinct_drop)
  moreover have "\<exists>s. \<forall>e \<in> set ?xs. event_scope e = s"
    using assms(1) sub unfolding batch_ok_def by (metis subsetD)
  ultimately show "batch_ok (ev_sequence e) ?xs"
    using assms(1) sub seq bound len unfolding batch_ok_def e by auto
qed

lemma event_number:
  assumes "batch_ok 1 es" and "i < length es"
  shows "unat (ev_sequence (es ! i)) = Suc i"
proof -
  have "map (\<lambda>e. unat (ev_sequence e)) es ! i = [1..<Suc (length es)] ! i"
    using assms(1) by (simp add: batch_ok_def del: upt_Suc)
  then show ?thesis using assms(2) by (simp del: upt_Suc)
qed

lemma EventReplayPage_slice:
  assumes "batch_ok 1 es" and "k \<le> MAX_STORE_READ_PAGE_SIZE" and "take k (drop n es) = [] \<longrightarrow> next = None"
  shows "EventReplayPage_new (take k (drop n es)) next = Ok \<lparr>shp_items = take k (drop n es), shp_next_cursor = next\<rparr>"
proof (cases "take k (drop n es)")
  case Nil
  then have "next = None" using assms(3) by blast
  then show ?thesis unfolding EventReplayPage_new_def Nil by simp
next
  case (Cons e r)
  have "length (take k (drop n es)) \<le> MAX_STORE_READ_PAGE_SIZE" using assms(2) by simp
  moreover have "validate_batch (ev_sequence e) (take k (drop n es)) = Ok ()"
    using batch_ok_slice(1) [OF assms(1) Cons] by (simp add: validate_batch_ok)
  ultimately show ?thesis unfolding EventReplayPage_new_def Cons by simp
qed

text \<open>One page: \<open>pos\<close> events were read of the first \<open>n\<close>, the snapshot.\<close>

lemma replay_page:
  assumes digest: "digest_length L" and g: "runs s (owner, run) = Some g"
    and snap: "take n (ra_events g) = es" "n = length es" "length (ra_events g) < 2 ^ 64"
    and ok: "batch_ok 1 es" and limit: "limit \<noteq> 0" "unat limit \<le> MAX_STORE_READ_PAGE_SIZE"
    and cur: "cursor = None \<and> pos = 0 \<and> ra_events g = es \<or>
      cursor = Some (cursor_text L key (cursor_payload owner run Events (of_nat n) (of_nat pos))) \<and> pos < n"
  shows "replay_events L key s owner run \<lparr>srp_cursor = cursor, srp_limit = limit\<rparr> =
    Ok \<lparr>shp_items = take (unat limit) (drop pos es),
      shp_next_cursor = (if n - pos > unat limit
        then Some (cursor_text L key (cursor_payload owner run Events (of_nat n) (of_nat (pos + unat limit)))) else None)\<rparr>"
proof -
  let ?N = "length (ra_events g)" and ?page = "\<lparr>srp_cursor = cursor, srp_limit = limit\<rparr>"
  have n: "n \<le> ?N" using snap by (metis length_take min.cobounded1 min.absorb_iff1 length_take nat_le_linear take_all)
  then have words: "unat (of_nat n :: u64) = n" "unat (of_nat pos :: u64) = pos" "unat (of_nat ?N :: u64) = ?N"
    using snap(3) cur by (auto simp: unsigned_of_nat take_bit_nat_eq_self)
  have window: "read_window L key owner run Events (of_nat ?N) ?page = Ok (of_nat n, of_nat pos)"
    using cur n words snap(2) by (auto simp: read_window_def decode_cursor_text [OF digest] word_less_nat_alt word_le_nat_alt)
  have taken: "drop (unat (of_nat pos :: u64)) (take (unat (of_nat n :: u64)) (ra_events g)) = drop pos es"
    by (simp add: words snap(1))
  have l: "0 < unat limit" using limit(1) by (simp add: unat_gt_0)
  show ?thesis
  proof (cases "n - pos > unat limit")
    case True
    then have len: "length (take (unat limit) (drop pos es)) = unat limit"
      "length (take (unat limit + 1) (drop pos es)) = unat limit + 1" using snap(2) by simp_all
    have ne: "take (unat limit) (drop pos es) \<noteq> []" using len(1) l by (metis less_numeral_extra(3) list.size(3))
    have more: "butlast (take (unat limit + 1) (drop pos es)) = take (unat limit) (drop pos es)"
      using True snap(2) by (simp add: butlast_take)
    have idx: "pos + unat limit - 1 < length es" using True snap(2) l by linarith
    have "last (take (unat limit) (drop pos es)) = es ! (pos + unat limit - 1)"
      using ne len(1) l True snap(2) by (simp add: last_conv_nth)
    moreover have "unat (ev_sequence (es ! (pos + unat limit - 1))) = pos + unat limit"
      using event_number [OF ok idx] l by simp
    moreover have "of_nat (unat x) = x" for x :: u64 by simp
    ultimately have last_seq: "ev_sequence (last (take (unat limit) (drop pos es))) = of_nat (pos + unat limit)"
      by metis
    have page: "EventReplayPage_new (take (unat limit) (drop pos es)) (Some c) =
        Ok \<lparr>shp_items = take (unat limit) (drop pos es), shp_next_cursor = Some c\<rparr>" for c
      using EventReplayPage_slice [OF ok limit(2)] ne by blast
    have u: "u64_from ?N = Ok (of_nat ?N)" using snap(3) by (simp add: u64_from_def)
    show ?thesis
      unfolding replay_events_def g u Let_def page_take_def StoreReadPage.select_convs ok_or_simps try_then_simps window
        prod.case taken len(2) more
      using ne True last_seq by (simp add: write_cursor_ok [OF digest] page)
  next
    case False
    then have all: "take (unat limit + 1) (drop pos es) = drop pos es" "take (unat limit) (drop pos es) = drop pos es"
      "length (drop pos es) \<le> unat limit" using snap(2) by simp_all
    have page: "EventReplayPage_new (drop pos es) None = Ok \<lparr>shp_items = drop pos es, shp_next_cursor = None\<rparr>"
      using EventReplayPage_slice [OF ok limit(2), of pos None] all(2) by simp
    have u: "u64_from ?N = Ok (of_nat ?N)" using snap(3) by (simp add: u64_from_def)
    show ?thesis
      unfolding replay_events_def g u Let_def page_take_def StoreReadPage.select_convs ok_or_simps try_then_simps window
        prod.case taken all(1)
      using False all(2,3) page by simp
  qed
qed

text \<open>
  A reader: page \<open>k\<close> is read from the state \<open>states k\<close>, so other clients may act between two pages. It
  gives up when the fuel is spent or a page is an error.
\<close>

fun read_pages ::
  "nat \<Rightarrow> 'x store_lib_scheme \<Rightarrow> string \<Rightarrow> (nat \<Rightarrow> State) \<Rightarrow> uuid \<Rightarrow> uuid \<Rightarrow> u32 \<Rightarrow> string option
     \<Rightarrow> RuntimeEvent list option" where
  "read_pages 0 L key states owner run limit cursor = None"
| "read_pages (Suc fuel) L key states owner run limit cursor =
     (case replay_events L key (states 0) owner run \<lparr>srp_cursor = cursor, srp_limit = limit\<rparr> of
        Inl _ \<Rightarrow> None
      | Inr page \<Rightarrow>
          (case shp_next_cursor page of
             None \<Rightarrow> Some (shp_items page)
           | Some next \<Rightarrow> map_option ((@) (shp_items page))
               (read_pages fuel L key (\<lambda>k. states (Suc k)) owner run limit (Some next))))"

lemma read_pages_from:
  assumes "digest_length L" and "limit \<noteq> 0" "unat limit \<le> MAX_STORE_READ_PAGE_SIZE" and "batch_ok 1 es"
    and "\<And>k. \<exists>g more. runs (states k) (owner, run) = Some g \<and> ra_events g = es @ more \<and> length (ra_events g) < 2 ^ 64"
    and "cursor = None \<and> pos = 0 \<and> (\<exists>g. runs (states 0) (owner, run) = Some g \<and> ra_events g = es) \<or>
      cursor = Some (cursor_text L key (cursor_payload owner run Events (of_nat (length es)) (of_nat pos))) \<and> pos < length es"
    and "length es - pos < fuel"
  shows "read_pages fuel L key states owner run limit cursor = Some (drop pos es)"
  using assms(5-)
proof (induction fuel arbitrary: states cursor pos)
  case (Suc fuel)
  obtain g more where g: "runs (states 0) (owner, run) = Some g" "ra_events g = es @ more" "length (ra_events g) < 2 ^ 64"
    using Suc.prems(1) by blast
  have l: "0 < unat limit" using assms(2) by (simp add: unat_gt_0)
  have cur: "cursor = None \<and> pos = 0 \<and> ra_events g = es \<or>
      cursor = Some (cursor_text L key (cursor_payload owner run Events (of_nat (length es)) (of_nat pos))) \<and> pos < length es"
    using Suc.prems(2) g(1) by auto
  have page: "replay_events L key (states 0) owner run \<lparr>srp_cursor = cursor, srp_limit = limit\<rparr> =
    Ok \<lparr>shp_items = take (unat limit) (drop pos es),
      shp_next_cursor = (if length es - pos > unat limit
        then Some (cursor_text L key (cursor_payload owner run Events (of_nat (length es)) (of_nat (pos + unat limit))))
        else None)\<rparr>"
    by (rule replay_page [OF assms(1) g(1) _ refl g(3) assms(4,2,3) cur]) (simp add: g(2))
  show ?case
  proof (cases "length es - pos > unat limit")
    case True
    have "read_pages fuel L key (\<lambda>k. states (Suc k)) owner run limit
        (Some (cursor_text L key (cursor_payload owner run Events (of_nat (length es)) (of_nat (pos + unat limit))))) =
        Some (drop (pos + unat limit) es)"
      using Suc.prems(1,3) True l by (intro Suc.IH) auto
    then show ?thesis using page True by (simp add: add.commute [of pos] flip: drop_drop)
  next
    case False
    then show ?thesis using page by simp
  qed
qed simp

lemma later_events:
  assumes "store_reachable L (states 0)" and "\<And>k. (any_step L)\<^sup>*\<^sup>* (states k) (states (Suc k))"
    and "runs (states 0) (owner, run) = Some g"
  shows "\<exists>h more. runs (states k) (owner, run) = Some h \<and> ra_events h = ra_events g @ more \<and> length (ra_events h) < 2 ^ 64"
proof -
  have steps: "(any_step L)\<^sup>*\<^sup>* (states 0) (states k)" for k
    by (induction k) (use assms(2) in \<open>auto intro: rtranclp_trans\<close>)
  obtain h where h: "runs (states k) (owner, run) = Some h" "extends_history g h"
    using run_history [OF assms(1) steps assms(3)] by blast
  have "store_inv (states k)"
    using store_system.steps_good [OF steps] reachable_inv [OF assms(1)] by blast
  then have "length (ra_events h) < 2 ^ 64" using entry_okD(7) store_invD(1) h(1) by blast
  then show ?thesis using h by (auto simp: extends_history_def)
qed

text \<open>\<^bold>\<open>C18.\<close> For a run whose history is one valid batch (times never fall, identifiers differ, one scope),
  reading the events page by page, with any page size and whatever calls clients make between two
  pages, ends after at most one page more than there are events and returns exactly the events the run
  had when the first page was read: none is missing, repeated or newer.\<close>

theorem paged_replay_is_snapshot:
  assumes "digest_length L" and "StoreReadPage_new None limit = Ok page"
    and "store_reachable L (states 0)" and "\<And>k. (any_step L)\<^sup>*\<^sup>* (states k) (states (Suc k))"
    and "runs (states 0) (owner, run) = Some g" and "validate_batch 1 (ra_events g) = Ok ()"
  shows "read_pages (Suc (length (ra_events g))) L key states owner run limit None = Some (ra_events g)"
proof -
  have limit: "limit \<noteq> 0" "unat limit \<le> MAX_STORE_READ_PAGE_SIZE"
    using assms(2) by (auto simp: StoreReadPage_new_def split: if_splits)
  have "batch_ok 1 (ra_events g)" using assms(6) by (simp add: validate_batch_ok)
  from read_pages_from [OF assms(1) limit this, where states = states and cursor = None and pos = 0
      and fuel = "Suc (length (ra_events g))" and owner = owner and run = run and key = key]
    later_events [OF assms(3-5)] assms(5)
  show ?thesis by simp
qed

theorem paged_replay_is_snapshot_witness:
  "read_pages 2 example_store_lib ''k'' (\<lambda>k. if k = 0 then example_running else example_dispatched) 5 11 1 None =
     Some [example_event 1]"
proof -
  have d: "digest_length example_store_lib" by (auto simp: digest_length_def example_store_lib_def min_def)
  have page: "StoreReadPage_new None 1 = Ok \<lparr>srp_cursor = None, srp_limit = 1\<rparr>"
    by (simp add: StoreReadPage_new_def MAX_STORE_READ_PAGE_SIZE_def)
  have steps: "(any_step example_store_lib)\<^sup>*\<^sup>* example_running example_dispatched"
    using example_reachable(4) by (intro r_into_rtranclp) (auto simp: any_step_def)
  have batch: "validate_batch 1 (ra_events example_running_run) = Ok ()"
    by (simp add: validate_batch_def example_event_def RUNTIME_EVENT_SCHEMA_VERSION_def checked_add_def)
  show ?thesis
    using paged_replay_is_snapshot [OF d page, of "\<lambda>k. if k = 0 then example_running else example_dispatched" 5 11
        example_running_run "''k''"] example_reachable(2) steps batch example_running_state(2)
    by (simp add: numeral_2_eq_2)
qed

section \<open>Accepted and not replayable\<close>

lemma falling_batch:
  assumes "Suc i < length es" and "ev_timestamp_ms (es ! Suc i) < ev_timestamp_ms (es ! i)"
  shows "\<exists>e. validate_batch start es = Err e"
proof -
  have "\<not> sorted (map ev_timestamp_ms es)"
    using sorted_nth_mono [of "map ev_timestamp_ms es" i "Suc i"] assms by (auto simp: not_le [symmetric])
  then have "validate_batch start es \<noteq> Ok ()" by (simp add: validate_batch_ok batch_ok_def)
  then show ?thesis by (cases "validate_batch start es") auto
qed

lemma falling_page:
  assumes "length es \<le> MAX_STORE_READ_PAGE_SIZE" and "Suc i < length es"
    and "ev_timestamp_ms (es ! Suc i) < ev_timestamp_ms (es ! i)"
  shows "EventReplayPage_new es nc = Err StEventConflict"
  using assms(1,2) falling_batch [OF assms(2,3), of "ev_sequence (hd es)"]
  by (cases es) (auto simp: EventReplayPage_new_def)

text \<open>A first page that holds an event and an earlier event after it is refused.\<close>

lemma first_page_conflict:
  assumes "digest_length L" and "StoreReadPage_new None limit = Ok page" and "runs s (owner, run) = Some g"
    and "length (ra_events g) < 2 ^ 64" and "Suc i < unat limit" "Suc i < length (ra_events g)"
    and "ev_timestamp_ms (ra_events g ! Suc i) < ev_timestamp_ms (ra_events g ! i)"
  shows "replay_events L key s owner run page = Err StEventConflict"
proof -
  have page: "page = \<lparr>srp_cursor = None, srp_limit = limit\<rparr>" "limit \<noteq> 0" "unat limit \<le> MAX_STORE_READ_PAGE_SIZE"
    using assms(2) by (auto simp: StoreReadPage_new_def split: if_splits)
  let ?es = "ra_events g"
  have "length (take (unat limit) ?es) \<le> MAX_STORE_READ_PAGE_SIZE" "Suc i < length (take (unat limit) ?es)"
    using page(3) assms(5,6) by simp_all
  from falling_page [OF this] have refused: "EventReplayPage_new (take (unat limit) ?es) nc = Err StEventConflict" for nc
    using assms(5-7) by simp
  have n: "unat (of_nat (length ?es) :: u64) = length ?es" using assms(4) by (simp add: unat_of_nat)
  have u: "u64_from (length ?es) = Ok (of_nat (length ?es))" using assms(4) by (simp add: u64_from_def)
  have more: "unat limit < length ?es \<Longrightarrow> butlast (take (Suc (unat limit)) ?es) = take (unat limit) ?es"
    "\<not> unat limit < length ?es \<Longrightarrow> take (unat limit) ?es = ?es"
    by (simp_all add: butlast_take)
  have "take (unat limit) ?es \<noteq> []" using assms(5,6) by auto
  then show ?thesis
    unfolding replay_events_def page assms(3) ok_or_simps try_then_simps u read_window_def StoreReadPage.select_convs option.case
      prod.case Let_def page_take_def n
    using refused more
    by (cases "unat limit < length ?es") (simp_all add: write_cursor_ok [OF assms(1)] del: take_eq_Nil take_all_iff)
qed

text \<open>A commit whose one event is earlier than the last event of the commit before it.\<close>

definition example_progress :: ExecutionCommit where
  "example_progress = (example_commit 2 23 (RecordProgress 11) Running)
     \<lparr>ec_events := [(example_event 2)\<lparr>ev_timestamp_ms := 5\<rparr>]\<rparr>"

definition example_progressed :: State where
  "example_progressed = snd (commit_execution example_store_lib example_running 5 example_progress 30)"

lemma example_progress_sel [simp]:
  "ec_lease example_progress = example_lease" "ec_attempts example_progress = []"
  "ec_results example_progress = []" "ec_steps example_progress = []" "ec_approval example_progress = None"
  "ec_dispatch_grant example_progress = None" "ec_checkpoint example_progress = Clear"
  "ec_policy_guard example_progress = None" "ec_target_run example_progress = example_run Running"
  "ec_events example_progress = [(example_event 2)\<lparr>ev_timestamp_ms := 5\<rparr>]"
  "ec_command example_progress = \<lparr>cmd_id = 23, cmd_session_id = 2, cmd_payload = RecordProgress 11\<rparr>"
  by (simp_all add: example_progress_def example_commit_def)

lemma example_progress_build:
  "\<exists>p. build_commit_patch example_store_lib example_running 5 example_progress 30 = Ok p \<and>
     cpt_events p = [(example_event 2)\<lparr>ev_timestamp_ms := 5\<rparr>]"
proof -
  let ?g = example_running_run and ?c = example_progress
  have fence: "commit_fence ?g ?c 30 = Ok ()"
    by (simp add: commit_fence_def) (simp add: example_progress_def example_commit_def example_lease_def)
  have valid: "valid_command_transition (example_run Running) (example_run Running)
      \<lparr>cmd_id = 23, cmd_session_id = 2, cmd_payload = RecordProgress 11\<rparr> None None []"
    by (simp add: valid_command_transition_def is_terminal_def dispatching_def)
  have gate: "prepare_dispatch_lineage ?c = Ok ()" "dispatch_policy_gate example_running 5 ?c 30 = Ok ()"
    by (simp_all add: prepare_dispatch_lineage_def dispatch_policy_gate_def dispatching_def)
  have window: "event_window example_running 5 ?g ?c = Ok (\<lparr>ss_version = 1, ss_owner_id = 5,
       ss_definition = se_definition example_session_record, ss_policy = Serial\<rparr>, 2)"
    by (simp add: event_window_def u64_from_def checked_add_def validate_batch_def example_event_def
        RUNTIME_EVENT_SCHEMA_VERSION_def example_running_state)
  have stored: "commit_stored_run example_running 5 ?g ?c x = Ok (example_stored Running 3, None)" for x
    by (simp add: commit_stored_run_def checked_add_def StoredRun_new_with_initial_input_def
        example_stored_def DurableRunInput_validate_def DurableRunInput_empty_def uuid_is_nil_def
        MAX_DURABLE_RUN_INPUT_BYTES_def is_terminal_def)
  have rest: "commit_grant_update example_store_lib example_running 5 ?g ?c 30 = Ok None"
    "approval_index_update example_running 5 ?c = Ok None" "approval_index_removal example_running 5 ?g ?c = Ok None"
    by (simp_all add: commit_grant_update_def approval_index_update_def approval_index_removal_def)
  show ?thesis
    by (intro exI conjI, rule build_commit_patchI [where g = ?g], simp_all add: example_running_state fence valid gate
        window stored rest attempt_changes_def CommandReceipt_new_def example_receipt) simp_all
qed

text \<open>\<^bold>\<open>C34.\<close> A commit checks its events only among themselves, a page of a replay checks all events it holds.
  So after an accepted commit whose first event is earlier than the last event the run had, a first
  page that holds both events is refused with an event conflict, at that moment and after any later
  calls.\<close>

theorem accepted_events_not_replayable:
  assumes "digest_length L" and "store_reachable L s" and "built_commit L c"
    and "commit_execution L s owner c now = (Ok out, s')" and "receipts s (owner, cmd_id (ec_command c)) = None"
    and "runs s (owner, el_run_id (ec_lease c)) = Some g" and "ra_events g \<noteq> []" and "ec_events c \<noteq> []"
    and "ev_timestamp_ms (hd (ec_events c)) < ev_timestamp_ms (last (ra_events g))"
    and "(any_step L)\<^sup>*\<^sup>* s' s''" and "StoreReadPage_new None limit = Ok page" and "length (ra_events g) < unat limit"
  shows "replay_events L key s'' owner (el_run_id (ec_lease c)) page = Err StEventConflict"
proof -
  obtain p where f: "fresh_commit L owner c now s g p s'"
    using assms(4) by (cases rule: commit_execution_cases) (use assms(5,6) commit_target(1) in fastforce)+
  have p: "cpt_events p = ec_events c" by (rule fresh_commit_parts [OF f])
  have steps: "store_reachable L s'"
    using store_reachable_step [OF assms(2) store_step.commit [OF assms(4,3)]] .
  have "runs s' (owner, el_run_id (ec_lease c)) = Some (patch_aggregate g (final_patch c p))"
    using commit_target(2) [OF f] by simp
  then obtain h where h: "runs s'' (owner, el_run_id (ec_lease c)) = Some h"
    "extends_history (patch_aggregate g (final_patch c p)) h"
    using run_history [OF steps assms(10)] by blast
  then obtain es where es: "ra_events h = ra_events g @ ec_events c @ es" by (auto simp: extends_history_def p)
  have "store_inv s''" using store_system.steps_good [OF assms(10)] reachable_inv [OF steps] by blast
  then have len: "length (ra_events h) < 2 ^ 64" using entry_okD(7) store_invD(1) h(1) by blast
  let ?i = "length (ra_events g) - 1"
  have i: "Suc ?i = length (ra_events g)" using assms(7) by simp
  have "ra_events h ! ?i = last (ra_events g)" "ra_events h ! Suc ?i = hd (ec_events c)"
    using assms(7,8) unfolding i es by (simp_all add: nth_append last_conv_nth hd_conv_nth)
  then show ?thesis
    using assms(8,9,12) i es by (intro first_page_conflict [OF assms(1,11) h(1) len, of ?i]) auto
qed

theorem accepted_events_not_replayable_witness:
  "store_reachable example_store_lib example_progressed \<and>
   (\<exists>out. commit_execution example_store_lib example_running 5 example_progress 30 = (Ok out, example_progressed)) \<and>
   replay_events example_store_lib ''k'' example_progressed 5 11 \<lparr>srp_cursor = None, srp_limit = 2\<rparr> = Err StEventConflict"
proof -
  obtain p where p: "build_commit_patch example_store_lib example_running 5 example_progress 30 = Ok p"
    using example_progress_build by blast
  have "validate_bounds example_store_lib example_progress = Ok ()" by (simp add: commit_bounds)
  moreover have r: "receipts example_running (5, 23) = None" using example_running_state(9) by auto
  ultimately have f: "fresh_commit example_store_lib 5 example_progress 30 example_running example_running_run p example_progressed"
    unfolding example_progressed_def by (intro commit_executes(1)) (simp_all add: p example_running_state)
  have built: "built_commit example_store_lib example_progress" using example_commit_ok(1) by (simp add: built_commit_def)
  have d: "digest_length example_store_lib" by (auto simp: digest_length_def example_store_lib_def min_def)
  have page: "StoreReadPage_new None 2 = Ok \<lparr>srp_cursor = None, srp_limit = 2\<rparr>"
    by (simp add: StoreReadPage_new_def MAX_STORE_READ_PAGE_SIZE_def)
  have "store_reachable example_store_lib example_progressed"
    using store_reachable_step [OF example_reachable(2) store_step.commit [OF fresh_commit_answer [OF f] built]] .
  then show ?thesis
    using accepted_events_not_replayable [OF d example_reachable(2) built fresh_commit_answer [OF f], of example_running_run
        example_progressed 2 _ "''k''"] fresh_commit_answer [OF f] page r example_running_state(2)
    by (simp add: example_event_def)
qed

end
