(* ===== verification/Workflow.thy ===== *)
theory Workflow
  imports Text
begin

text \<open>
  Durable sequential workflows, \<open>anima-core/src/workflows.rs\<close>: definitions, saved runs with their
  steps, attempts and decisions, \<open>WorkflowRun::validate\<close> with its search for a history that explains
  the saved state, and the operations on a run. The pin of a template (\<open>WorkflowTemplateSource\<close> of
  \<open>workflow_templates.rs\<close>) is here too, since a run carries it.

  The code reports errors as messages; here each message is one constructor of \<open>WorkflowError\<close>.
  Every operation checks all it needs before it changes the run, so it returns either an error or
  the changed run.
\<close>

section \<open>Errors and limits\<close>

datatype WorkflowError =
    WeReference string
  | WeStepCount | WeTitle | WeRequestKey | WeStepId | WeStepText | WeDefinitionBytes
  | WeRevisionOrTimestamps | WeCreationTimestamp | WeCurrentStep | WeReviewMismatch
  | WeAttemptCount | WeJobNotUnique | WeJobNotLatest | WeCheckpointJob | WeEarlierStep | WeLaterStep
  | WeCurrentStatus | WeSavedResult | WeUnfinishedResult | WeDecisionLimit | WeDecision | WeHistory
  | WeNotAdmitting | WeJobUsed | WeNotRunning | WeResultBytes | WeNotReviewable | WeReviewError
  | WeDifferentDecision | WeRevisionConflict | WeNoCheckpoint | WeAttemptsExhausted
  | WeCancellationConflict | WeCompleted | WeClock | WeRevisionExhausted
  | WeDecisionRevision | WeNoValueExpected | WeValueExpected | WeNotAcknowledged
  | WeSlug | WeRunInput | WeTemplateValues | WePinnedRevision | WePinnedInputs
  | WeTemplateRevision | WeTemplateSaveConflict | WeTemplateCapacity | WeTemplateClock
  | WeTemplateDeleteConflict | WeTemplateAgent | WeTemplateHistory | WeTemplateReceipt
  | WeTemplateLatest | WeTemplateRunConflict | WeParameterUnknown string | WeParameterMissing string
  | WeParameterCount | WeParameterName | WeEscapeUnclosed | WePlaceholderUnclosed
  | WePlaceholderName | WeExpandedBytes

definition MAX_WORKFLOW_STEPS :: nat where "MAX_WORKFLOW_STEPS = 16"
definition MAX_WORKFLOW_STEP_ID_BYTES :: nat where "MAX_WORKFLOW_STEP_ID_BYTES = 64"
definition MAX_WORKFLOW_TITLE_CHARS :: nat where "MAX_WORKFLOW_TITLE_CHARS = 160"
definition MAX_WORKFLOW_REQUEST_KEY_BYTES :: nat where "MAX_WORKFLOW_REQUEST_KEY_BYTES = 128"
definition MAX_WORKFLOW_PROMPT_BYTES :: nat where "MAX_WORKFLOW_PROMPT_BYTES = 8 * 1024"
definition MAX_WORKFLOW_DEFINITION_BYTES :: nat where "MAX_WORKFLOW_DEFINITION_BYTES = 32 * 1024"
definition MAX_WORKFLOW_INPUT_BYTES :: nat where "MAX_WORKFLOW_INPUT_BYTES = 8 * 1024"
definition MAX_WORKFLOW_RESULT_BYTES :: nat where "MAX_WORKFLOW_RESULT_BYTES = 64 * 1024"
definition MAX_WORKFLOW_ATTEMPTS :: u32 where "MAX_WORKFLOW_ATTEMPTS = 3"
definition MAX_WORKFLOW_DECISIONS :: nat where "MAX_WORKFLOW_DECISIONS = 64"
definition MAX_WORKFLOW_TEMPLATE_PARAMETERS :: nat where "MAX_WORKFLOW_TEMPLATE_PARAMETERS = 16"
definition MAX_WORKFLOW_TEMPLATE_INPUT_BYTES :: nat where "MAX_WORKFLOW_TEMPLATE_INPUT_BYTES = 8192"

section \<open>Data\<close>

datatype WorkflowStepKind = TaskStep | ApprovalStep | InputStep

datatype WorkflowStatus =
    WfRunning | WfAwaitingApproval | WfAwaitingInput | WfNeedsReview | WfCompleted | WfCancelled

datatype WorkflowStepStatus =
    WsPending | WsRunning | WsAwaitingApproval | WsAwaitingInput | WsNeedsReview | WsCompleted
  | WsCancelled

datatype WorkflowResumeAction = Approve | Answer | Retry | Resolve

record WorkflowStepSpec =
  wsp_id :: string
  wsp_title :: string
  wsp_kind :: WorkflowStepKind
  wsp_prompt :: string

record WorkflowInput =
  wi_title :: string
  wi_request_key :: string
  wi_steps :: "WorkflowStepSpec list"

record WorkflowStep =
  ws_id :: string
  ws_title :: string
  ws_kind :: WorkflowStepKind
  ws_prompt :: string
  ws_status :: WorkflowStepStatus
  ws_job_id :: "string option"
  ws_attempt :: u32
  ws_attempts :: "string list"
  ws_result :: "string option"

record WorkflowResumeRequest =
  wq_revision :: u64
  wq_action :: WorkflowResumeAction
  wq_value :: "string option"
  wq_acknowledge_uncertain :: bool

record WorkflowDecision =
  wd_step_index :: nat
  wd_request :: WorkflowResumeRequest
  wd_decided_at_ms :: u64

record WorkflowTemplateRunInput =
  tri_request_key :: string
  tri_revision :: u64
  tri_inputs :: "(string \<times> string) list"

record WorkflowTemplateSource =
  wts_slug :: string
  wts_revision :: u64
  wts_inputs :: "(string \<times> string) list"
  wts_request :: WorkflowTemplateRunInput

record WorkflowRun =
  wr_id :: string
  wr_agent_id :: string
  wr_title :: string
  wr_request_key :: string
  wr_status :: WorkflowStatus
  wr_revision :: u64
  wr_current_step :: nat
  wr_steps :: "WorkflowStep list"
  wr_decisions :: "WorkflowDecision list"
  wr_created_at_ms :: u64
  wr_updated_at_ms :: u64
  wr_error :: "string option"
  wr_source_template :: "WorkflowTemplateSource option"

section \<open>The pin of a template\<close>

definition validate_slug :: "string \<Rightarrow> (WorkflowError, unit) result" where
  "validate_slug value =
     reject_if (value = [] \<or> length value > 64
         \<or> \<not> list_all (\<lambda>b. (97 \<le> code b \<and> code b \<le> 122) \<or> is_ascii_digit b \<or> b \<in> {CHR ''-'', CHR ''_''}) value)
       WeSlug"

definition is_ascii_alphabetic :: "char \<Rightarrow> bool" where
  "is_ascii_alphabetic b \<longleftrightarrow> (65 \<le> code b \<and> code b \<le> 90) \<or> (97 \<le> code b \<and> code b \<le> 122)"

definition valid_name :: "string \<Rightarrow> bool" where
  "valid_name value \<longleftrightarrow> value \<noteq> [] \<and> length value \<le> 64 \<and>
     list_all (\<lambda>(index, b). is_ascii_alphabetic b \<or> b = CHR ''_'' \<or> (index > 0 \<and> is_ascii_digit b))
       (enumerate 0 value)"

definition validate_values :: "(string \<times> string) list \<Rightarrow> (WorkflowError, unit) result" where
  "validate_values inputs =
     reject_if (length inputs > MAX_WORKFLOW_TEMPLATE_PARAMETERS
         \<or> list_ex (\<lambda>(key, value). \<not> valid_name key \<or> length value > MAX_WORKFLOW_TEMPLATE_INPUT_BYTES
              \<or> CHR 0x00 \<in> set value) inputs
         \<or> sum_list (map (\<lambda>(key, value). length value) inputs) > 16 * 1024)
       WeTemplateValues"

definition validate_run_input :: "WorkflowTemplateRunInput \<Rightarrow> (WorkflowError, unit) result" where
  "validate_run_input i =
     (if tri_revision i = 0 \<or> blank (tri_request_key i) \<or> length (tri_request_key i) > 128
         \<or> any_control (tri_request_key i)
      then Err WeRunInput else validate_values (tri_inputs i))"

definition WorkflowTemplateSource_validate ::
  "WorkflowTemplateSource \<Rightarrow> string \<Rightarrow> (WorkflowError, unit) result" where
  "WorkflowTemplateSource_validate t request_key =
     try_then (validate_slug (wts_slug t)) (\<lambda>_.
     try_then (validate_run_input (wts_request t)) (\<lambda>_.
     if wts_revision t = 0 \<or> wts_revision t \<noteq> tri_revision (wts_request t)
        \<or> tri_request_key (wts_request t) \<noteq> request_key
     then Err WePinnedRevision
     else try_then (validate_values (wts_inputs t)) (\<lambda>_.
       reject_if (list_ex (\<lambda>(name, value). map_of (wts_inputs t) name \<noteq> Some value)
         (tri_inputs (wts_request t))) WePinnedInputs)))"

section \<open>Checking references, definitions and decisions\<close>

definition validate_reference :: "string \<Rightarrow> string \<Rightarrow> (WorkflowError, unit) result" where
  "validate_reference value name =
     reject_if (value = [] \<or> length value > 256 \<or> any_control value) (WeReference name)"

definition step_id_char :: "char \<Rightarrow> bool" where
  "step_id_char b \<longleftrightarrow> is_ascii_alphanumeric b \<or> b \<in> {CHR ''_'', CHR ''-''}"

text \<open>The loop over the steps, with the identifiers and the bytes seen so far.\<close>

fun definition_loop ::
  "string set \<Rightarrow> nat \<Rightarrow> WorkflowStepSpec list \<Rightarrow> (WorkflowError, nat) result" where
  "definition_loop ids bytes [] = Ok bytes"
| "definition_loop ids bytes (x # xs) =
     (if wsp_id x = [] \<or> length (wsp_id x) > MAX_WORKFLOW_STEP_ID_BYTES
         \<or> \<not> list_all step_id_char (wsp_id x) \<or> wsp_id x \<in> ids
      then Err WeStepId
      else if blank (wsp_title x) \<or> blank (wsp_prompt x)
         \<or> char_count (wsp_title x) > MAX_WORKFLOW_TITLE_CHARS
         \<or> length (wsp_prompt x) > MAX_WORKFLOW_PROMPT_BYTES
      then Err WeStepText
      else definition_loop (insert (wsp_id x) ids)
        (bytes + length (wsp_id x) + length (wsp_title x) + length (wsp_prompt x)) xs)"

definition validate_definition :: "WorkflowInput \<Rightarrow> (WorkflowError, unit) result" where
  "validate_definition i =
     (if wi_steps i = [] \<or> length (wi_steps i) > MAX_WORKFLOW_STEPS then Err WeStepCount
      else if blank (wi_title i) \<or> char_count (wi_title i) > MAX_WORKFLOW_TITLE_CHARS then Err WeTitle
      else if blank (wi_request_key i) \<or> length (wi_request_key i) > MAX_WORKFLOW_REQUEST_KEY_BYTES
      then Err WeRequestKey
      else try_then (definition_loop {} (length (wi_title i) + length (wi_request_key i)) (wi_steps i))
        (\<lambda>definition_bytes. reject_if (definition_bytes > MAX_WORKFLOW_DEFINITION_BYTES) WeDefinitionBytes))"

definition validate_resume_request :: "WorkflowResumeRequest \<Rightarrow> (WorkflowError, unit) result" where
  "validate_resume_request q =
     (if wq_revision q = 0 then Err WeDecisionRevision
      else try_then (case wq_action q of
          Approve \<Rightarrow> reject_if (wq_value q \<noteq> None) WeNoValueExpected
        | Retry \<Rightarrow> reject_if (wq_value q \<noteq> None) WeNoValueExpected
        | _ \<Rightarrow> reject_if (\<not> is_some_and (wq_value q) (\<lambda>value.
            \<not> blank value \<and> length value \<le> MAX_WORKFLOW_INPUT_BYTES)) WeValueExpected) (\<lambda>_.
        reject_if (wq_action q \<in> {Retry, Resolve} \<and> \<not> wq_acknowledge_uncertain q) WeNotAcknowledged))"

section \<open>The search for a history\<close>

text \<open>
  A point of a history: the step that is current, its phase, how many attempts it has, whether the
  last one is still attached, how many decisions were taken and the revision. The two counters
  \<open>attempt\<close> and \<open>revision\<close> only reach the number of saved attempts and one past the saved revision;
  \<open>validate\<close> has bounded them before the search, so they are natural numbers here.
\<close>

record ReplayState =
  rp_step :: nat
  rp_phase :: WorkflowStepStatus
  rp_attempt :: nat
  rp_attached :: bool
  rp_decision :: nat
  rp_revision :: nat

fun initial_phase :: "WorkflowStepKind \<Rightarrow> WorkflowStepStatus" where
  "initial_phase TaskStep = WsPending"
| "initial_phase ApprovalStep = WsAwaitingApproval"
| "initial_phase InputStep = WsAwaitingInput"

text \<open>\<open>slice::get\<close>.\<close>

definition nth_opt :: "'a list \<Rightarrow> nat \<Rightarrow> 'a option" where
  "nth_opt xs i = (if i < length xs then Some (xs ! i) else None)"

definition last_opt :: "'a list \<Rightarrow> 'a option" where
  "last_opt xs = (if xs = [] then None else Some (last xs))"

definition replay_matches_attempt :: "WorkflowRun \<Rightarrow> ReplayState \<Rightarrow> bool" where
  "replay_matches_attempt w st =
     (case nth_opt (wr_steps w) (rp_step st) of
        None \<Rightarrow> wr_status w = WfCompleted
      | Some x \<Rightarrow> rp_attempt st = unat (ws_attempt x) \<and>
          (if rp_attached st then ws_job_id x = last_opt (ws_attempts x) else ws_job_id x = None))"

text \<open>\<open>steps[i]\<close> is read only where the code has compared \<open>i\<close> with the length before.\<close>

definition replay_matches_current :: "WorkflowRun \<Rightarrow> ReplayState \<Rightarrow> bool" where
  "replay_matches_current w st =
     (if wr_status w = WfCompleted then rp_step st = length (wr_steps w)
      else if wr_status w = WfCancelled then False
      else replay_matches_attempt w st \<and> ws_status (wr_steps w ! rp_step st) = rp_phase st)"

definition replay_can_complete :: "WorkflowRun \<Rightarrow> ReplayState \<Rightarrow> string option \<Rightarrow> bool" where
  "replay_can_complete w st result \<longleftrightarrow>
     ws_status (wr_steps w ! rp_step st) = WsCompleted \<and> replay_matches_attempt w st \<and>
     ws_result (wr_steps w ! rp_step st) = result"

definition replay_advance :: "WorkflowRun \<Rightarrow> ReplayState \<Rightarrow> ReplayState" where
  "replay_advance w st = st\<lparr>rp_step := Suc (rp_step st), rp_attempt := 0, rp_attached := False,
     rp_phase := (case nth_opt (wr_steps w) (Suc (rp_step st)) of
         Some x \<Rightarrow> initial_phase (ws_kind x) | None \<Rightarrow> WsCompleted)\<rparr>"

definition replay_start :: "WorkflowRun \<Rightarrow> ReplayState" where
  "replay_start w = \<lparr>rp_step = 0, rp_phase = initial_phase (ws_kind (wr_steps w ! 0)), rp_attempt = 0,
     rp_attached = False, rp_decision = 0, rp_revision = 1\<rparr>"

definition replay_stale :: "WorkflowRun \<Rightarrow> ReplayState \<Rightarrow> bool" where
  "replay_stale w st \<longleftrightarrow> is_some_and (nth_opt (wr_decisions w) (rp_decision st))
     (\<lambda>d. unat (wq_revision (wd_request d)) < rp_revision st)"

definition replay_accepts :: "WorkflowRun \<Rightarrow> ReplayState \<Rightarrow> bool" where
  "replay_accepts w st \<longleftrightarrow> rp_decision st = length (wr_decisions w) \<and> rp_step st = wr_current_step w \<and>
     (rp_revision st = unat (wr_revision w) \<and> replay_matches_current w st
      \<or> wr_status w = WfCancelled \<and> Suc (rp_revision st) = unat (wr_revision w) \<and>
        replay_matches_attempt w st)"

text \<open>What the decision taken at this revision makes of a point.\<close>

definition replay_decide :: "WorkflowRun \<Rightarrow> ReplayState \<Rightarrow> WorkflowDecision \<Rightarrow> ReplayState list" where
  "replay_decide w st d =
     (let next = st\<lparr>rp_revision := Suc (rp_revision st), rp_decision := Suc (rp_decision st)\<rparr>;
          value = wq_value (wd_request d) in
      if wd_step_index d \<noteq> rp_step st then []
      else case (rp_phase st, wq_action (wd_request d)) of
        (WsNeedsReview, Retry) \<Rightarrow>
          if rp_attempt st < unat MAX_WORKFLOW_ATTEMPTS
          then [next\<lparr>rp_phase := WsPending, rp_attached := False\<rparr>] else []
      | (WsNeedsReview, Resolve) \<Rightarrow> if replay_can_complete w st value then [replay_advance w next] else []
      | (WsAwaitingApproval, Approve) \<Rightarrow> if replay_can_complete w st None then [replay_advance w next] else []
      | (WsAwaitingInput, Answer) \<Rightarrow> if replay_can_complete w st value then [replay_advance w next] else []
      | _ \<Rightarrow> [])"

text \<open>What attaching, settling and reviewing a job make of it, in the order they are pushed.\<close>

definition replay_work :: "WorkflowRun \<Rightarrow> ReplayState \<Rightarrow> WorkflowStep \<Rightarrow> ReplayState list" where
  "replay_work w st x =
     (let next = st\<lparr>rp_revision := Suc (rp_revision st)\<rparr> in
      case rp_phase st of
        WsPending \<Rightarrow>
          (if rp_attempt st < length (ws_attempts x)
           then [next\<lparr>rp_attempt := Suc (rp_attempt st), rp_attached := True, rp_phase := WsRunning\<rparr>]
           else []) @ [next\<lparr>rp_phase := WsNeedsReview\<rparr>]
      | WsRunning \<Rightarrow>
          (if replay_can_complete w st (ws_result x) then [replay_advance w next] else [])
          @ [next\<lparr>rp_phase := WsNeedsReview\<rparr>]
      | _ \<Rightarrow> [])"

definition replay_moves :: "WorkflowRun \<Rightarrow> ReplayState \<Rightarrow> ReplayState list" where
  "replay_moves w st =
     (case nth_opt (wr_steps w) (rp_step st) of
        None \<Rightarrow> []
      | Some x \<Rightarrow>
          (case nth_opt (wr_decisions w) (rp_decision st) of
             Some d \<Rightarrow>
               if unat (wq_revision (wd_request d)) = rp_revision st then replay_decide w st d
               else if rp_revision st \<ge> unat (wr_revision w) then [] else replay_work w st x
           | None \<Rightarrow> if rp_revision st \<ge> unat (wr_revision w) then [] else replay_work w st x))"

text \<open>The loop: a stack of points, the top first, and the points visited.\<close>

function replay_search :: "WorkflowRun \<Rightarrow> ReplayState list \<Rightarrow> ReplayState set \<Rightarrow> bool" where
  "replay_search w [] visited = False"
| "replay_search w (st # stack) visited =
     (if rp_revision st > unat (wr_revision w) \<or> st \<in> visited then replay_search w stack visited
      else if replay_stale w st then replay_search w stack (insert st visited)
      else if replay_accepts w st then True
      else replay_search w (rev (replay_moves w st) @ stack) (insert st visited))"
  by pat_completeness auto

lemma replay_decide_revision: "st' \<in> set (replay_decide w st d) \<Longrightarrow> rp_revision st' = Suc (rp_revision st)"
  by (auto simp: replay_decide_def replay_advance_def Let_def
      split: if_splits WorkflowStepStatus.splits WorkflowResumeAction.splits)

lemma replay_work_revision: "st' \<in> set (replay_work w st x) \<Longrightarrow> rp_revision st' = Suc (rp_revision st)"
  by (auto simp: replay_work_def replay_advance_def Let_def split: if_splits WorkflowStepStatus.splits)

lemma replay_moves_revision: "st' \<in> set (replay_moves w st) \<Longrightarrow> rp_revision st' = Suc (rp_revision st)"
  by (auto simp: replay_moves_def replay_decide_revision replay_work_revision
      split: if_splits option.splits)

lemma replay_moves_length: "length (replay_moves w st) \<le> 2"
  by (simp add: replay_moves_def replay_decide_def replay_work_def Let_def
      split: option.splits WorkflowStepStatus.splits WorkflowResumeAction.splits)

text \<open>
  A point weighs three to the number of revisions that are left; the at most two points it leads
  to are one revision later and weigh less together.
\<close>

definition replay_weight :: "WorkflowRun \<Rightarrow> ReplayState \<Rightarrow> nat" where
  "replay_weight w st = 3 ^ (Suc (unat (wr_revision w)) - rp_revision st)"

lemma replay_moves_weight:
  assumes "rp_revision st \<le> unat (wr_revision w)"
  shows "sum_list (map (replay_weight w) (replay_moves w st)) < replay_weight w st"
proof -
  let ?k = "3 ^ (unat (wr_revision w) - rp_revision st) :: nat"
  have w: "replay_weight w x = ?k" if "x \<in> set (replay_moves w st)" for x
    using replay_moves_revision [OF that] by (simp add: replay_weight_def)
  have "map (replay_weight w) (replay_moves w st) = replicate (length (replay_moves w st)) ?k"
    using w by (induction "replay_moves w st") (auto intro: nth_equalityI)
  then have "sum_list (map (replay_weight w) (replay_moves w st)) = length (replay_moves w st) * ?k"
    by (simp add: sum_list_replicate)
  also have "\<dots> \<le> 2 * ?k" using replay_moves_length by (rule mult_le_mono1)
  also have "\<dots> < 3 * ?k" by simp
  also have "\<dots> = replay_weight w st" using assms by (simp add: replay_weight_def Suc_diff_le)
  finally show ?thesis .
qed

termination replay_search
  by (relation "measure (\<lambda>(w, stack, visited). sum_list (map (replay_weight w) stack))")
    (auto simp: replay_weight_def rev_map [symmetric] sum_list_rev dest!: replay_moves_weight [OF leI])

section \<open>Checking a saved run\<close>

definition history_is_reachable :: "WorkflowRun \<Rightarrow> bool" where
  "history_is_reachable w = replay_search w [replay_start w] {}"

fun jobs_loop :: "string set \<Rightarrow> string list \<Rightarrow> (WorkflowError, string set) result" where
  "jobs_loop ids [] = Ok ids"
| "jobs_loop ids (j # js) =
     try_then (validate_reference j ''workflow job ID'') (\<lambda>_.
     if j \<in> ids then Err WeJobNotUnique else jobs_loop (insert j ids) js)"

text \<open>Whether a step fits the run's status, by its place before, after or at the current step.\<close>

definition current_step_valid :: "WorkflowStatus \<Rightarrow> WorkflowStep \<Rightarrow> bool" where
  "current_step_valid status x =
     (case status of
        WfRunning \<Rightarrow> ws_kind x = TaskStep \<and> ws_status x \<in> {WsPending, WsRunning}
      | WfAwaitingApproval \<Rightarrow> ws_kind x = ApprovalStep \<and> ws_status x = WsAwaitingApproval
      | WfAwaitingInput \<Rightarrow> ws_kind x = InputStep \<and> ws_status x = WsAwaitingInput
      | WfNeedsReview \<Rightarrow> ws_kind x = TaskStep \<and> ws_status x = WsNeedsReview
      | WfCancelled \<Rightarrow> ws_status x = WsCancelled
      | WfCompleted \<Rightarrow> False)"

definition place_check :: "WorkflowRun \<Rightarrow> nat \<Rightarrow> WorkflowStep \<Rightarrow> (WorkflowError, unit) result" where
  "place_check w index x =
     (if index < wr_current_step w then reject_if (ws_status x \<noteq> WsCompleted) WeEarlierStep
      else if index > wr_current_step w
      then reject_if (ws_status x \<noteq> (if wr_status w = WfCancelled then WsCancelled else WsPending)
        \<or> ws_attempt x \<noteq> 0 \<or> ws_job_id x \<noteq> None) WeLaterStep
      else reject_if (\<not> current_step_valid (wr_status w) x) WeCurrentStatus)"

definition result_check :: "WorkflowStep \<Rightarrow> (WorkflowError, unit) result" where
  "result_check x =
     (if ws_status x = WsCompleted
      then case (ws_kind x, ws_result x) of
          (TaskStep, Some result) \<Rightarrow> reject_if (length result > MAX_WORKFLOW_RESULT_BYTES) WeSavedResult
        | (InputStep, Some result) \<Rightarrow>
            reject_if (blank result \<or> length result > MAX_WORKFLOW_INPUT_BYTES) WeSavedResult
        | (ApprovalStep, None) \<Rightarrow> Ok ()
        | _ \<Rightarrow> Err WeSavedResult
      else reject_if (ws_result x \<noteq> None) WeUnfinishedResult)"

fun steps_check ::
  "WorkflowRun \<Rightarrow> nat \<Rightarrow> string set \<Rightarrow> WorkflowStep list \<Rightarrow> (WorkflowError, unit) result" where
  "steps_check w index ids [] = Ok ()"
| "steps_check w index ids (x # xs) =
     (if unat (ws_attempt x) \<noteq> length (ws_attempts x) \<or> ws_attempt x > MAX_WORKFLOW_ATTEMPTS
      then Err WeAttemptCount
      else try_then (jobs_loop ids (ws_attempts x)) (\<lambda>ids.
      if is_some_and (ws_job_id x) (\<lambda>j. last_opt (ws_attempts x) \<noteq> Some j) then Err WeJobNotLatest
      else if ws_kind x \<noteq> TaskStep \<and> (ws_attempt x \<noteq> 0 \<or> ws_job_id x \<noteq> None) then Err WeCheckpointJob
      else try_then (place_check w index x) (\<lambda>_.
      try_then (result_check x) (\<lambda>_. steps_check w (Suc index) ids xs))))"

fun decisions_loop ::
  "WorkflowRun \<Rightarrow> u64 \<Rightarrow> u64 \<Rightarrow> WorkflowDecision list \<Rightarrow> (WorkflowError, unit) result" where
  "decisions_loop w last_revision last_timestamp [] = Ok ()"
| "decisions_loop w last_revision last_timestamp (d # ds) =
     try_then (validate_resume_request (wd_request d)) (\<lambda>_.
     if wd_step_index d \<ge> length (wr_steps w)
        \<or> wq_revision (wd_request d) \<le> last_revision
        \<or> wq_revision (wd_request d) \<ge> wr_revision w
        \<or> wd_decided_at_ms d < last_timestamp
        \<or> wd_decided_at_ms d > wr_updated_at_ms w
        \<or> wq_revision (wd_request d) + 1 = wr_revision w \<and> wd_decided_at_ms d \<noteq> wr_updated_at_ms w
     then Err WeDecision
     else decisions_loop w (wq_revision (wd_request d)) (wd_decided_at_ms d) ds)"

definition spec_of_step :: "WorkflowStep \<Rightarrow> WorkflowStepSpec" where
  "spec_of_step x = \<lparr>wsp_id = ws_id x, wsp_title = ws_title x, wsp_kind = ws_kind x,
     wsp_prompt = ws_prompt x\<rparr>"

definition review_error_fits :: "WorkflowRun \<Rightarrow> bool" where
  "review_error_fits w =
     (case wr_error w of
        Some e \<Rightarrow> wr_status w = WfNeedsReview \<and> \<not> blank e \<and> length e \<le> MAX_WORKFLOW_RESULT_BYTES
      | None \<Rightarrow> wr_status w \<noteq> WfNeedsReview)"

definition WorkflowRun_validate :: "WorkflowRun \<Rightarrow> (WorkflowError, unit) result" where
  "WorkflowRun_validate w =
     try_then (case wr_source_template w of
         None \<Rightarrow> Ok () | Some source \<Rightarrow> WorkflowTemplateSource_validate source (wr_request_key w)) (\<lambda>_.
     try_then (validate_reference (wr_id w) ''workflow ID'') (\<lambda>_.
     try_then (validate_reference (wr_agent_id w) ''agent ID'') (\<lambda>_.
     try_then (validate_definition \<lparr>wi_title = wr_title w, wi_request_key = wr_request_key w,
       wi_steps = map spec_of_step (wr_steps w)\<rparr>) (\<lambda>_.
     if wr_revision w = 0 \<or> wr_updated_at_ms w < wr_created_at_ms w then Err WeRevisionOrTimestamps
     else if wr_revision w = 1 \<and> wr_updated_at_ms w \<noteq> wr_created_at_ms w then Err WeCreationTimestamp
     else if wr_current_step w > length (wr_steps w)
        \<or> (wr_status w = WfCompleted) \<noteq> (wr_current_step w = length (wr_steps w))
     then Err WeCurrentStep
     else if \<not> review_error_fits w then Err WeReviewMismatch
     else try_then (steps_check w 0 {} (wr_steps w)) (\<lambda>_.
     if length (wr_decisions w) > MAX_WORKFLOW_DECISIONS then Err WeDecisionLimit
     else try_then (decisions_loop w 0 (wr_created_at_ms w) (wr_decisions w)) (\<lambda>_.
     reject_if (\<not> history_is_reachable w) WeHistory))))))"

section \<open>The operations\<close>

text \<open>The status the run and its current step take when the step is entered.\<close>

fun activate :: "WorkflowStepKind \<Rightarrow> WorkflowStatus \<times> WorkflowStepStatus" where
  "activate TaskStep = (WfRunning, WsPending)"
| "activate ApprovalStep = (WfAwaitingApproval, WsAwaitingApproval)"
| "activate InputStep = (WfAwaitingInput, WsAwaitingInput)"

definition activate_current_step :: "WorkflowRun \<Rightarrow> WorkflowRun" where
  "activate_current_step w =
     (case nth_opt (wr_steps w) (wr_current_step w) of
        None \<Rightarrow> w\<lparr>wr_status := WfCompleted\<rparr>
      | Some x \<Rightarrow> w\<lparr>wr_status := fst (activate (ws_kind x)),
          wr_steps := (wr_steps w)[wr_current_step w := x\<lparr>ws_status := snd (activate (ws_kind x))\<rparr>]\<rparr>)"

definition fresh_step :: "WorkflowStepSpec \<Rightarrow> WorkflowStep" where
  "fresh_step s = \<lparr>ws_id = wsp_id s, ws_title = wsp_title s, ws_kind = wsp_kind s,
     ws_prompt = wsp_prompt s, ws_status = WsPending, ws_job_id = None, ws_attempt = 0,
     ws_attempts = [], ws_result = None\<rparr>"

definition WorkflowRun_new ::
  "string \<Rightarrow> string \<Rightarrow> WorkflowInput \<Rightarrow> u64 \<Rightarrow> (WorkflowError, WorkflowRun) result" where
  "WorkflowRun_new i agent_id input now =
     try_then (validate_definition input) (\<lambda>_.
     checked WorkflowRun_validate (activate_current_step
       \<lparr>wr_id = i, wr_agent_id = agent_id, wr_title = wi_title input,
        wr_request_key = wi_request_key input, wr_status = WfRunning, wr_revision = 1,
        wr_current_step = 0, wr_steps = map fresh_step (wi_steps input), wr_decisions = [],
        wr_created_at_ms = now, wr_updated_at_ms = now, wr_error = None,
        wr_source_template = None\<rparr>))"

definition definition_matches :: "WorkflowRun \<Rightarrow> WorkflowInput \<Rightarrow> bool" where
  "definition_matches w i \<longleftrightarrow>
     wr_title w = wi_title i \<and> wr_request_key w = wi_request_key i \<and>
     length (wr_steps w) = length (wi_steps i) \<and>
     list_all (\<lambda>(saved, s). ws_id saved = wsp_id s \<and> ws_title saved = wsp_title s \<and>
       ws_kind saved = wsp_kind s \<and> ws_prompt saved = wsp_prompt s) (zip (wr_steps w) (wi_steps i))"

definition next_revision :: "WorkflowRun \<Rightarrow> u64 \<Rightarrow> (WorkflowError, u64) result" where
  "next_revision w now =
     (if now < wr_updated_at_ms w then Err WeClock
      else ok_or (checked_add (wr_revision w) 1) WeRevisionExhausted)"

abbreviation current_step :: "WorkflowRun \<Rightarrow> WorkflowStep" where
  "current_step w \<equiv> wr_steps w ! wr_current_step w"

text \<open>\<open>&mut self.steps[self.current_step]\<close>.\<close>

definition set_current :: "WorkflowStep \<Rightarrow> WorkflowRun \<Rightarrow> WorkflowRun" where
  "set_current x w = w\<lparr>wr_steps := (wr_steps w)[wr_current_step w := x]\<rparr>"

definition attach_job :: "WorkflowRun \<Rightarrow> string \<Rightarrow> u64 \<Rightarrow> (WorkflowError, WorkflowRun) result" where
  "attach_job w job now =
     try_then (WorkflowRun_validate w) (\<lambda>_.
     try_then (validate_reference job ''workflow job ID'') (\<lambda>_.
     if wr_status w \<noteq> WfRunning \<or> ws_status (current_step w) \<noteq> WsPending
        \<or> ws_attempt (current_step w) \<ge> MAX_WORKFLOW_ATTEMPTS
     then Err WeNotAdmitting
     else if list_ex (\<lambda>x. job \<in> set (ws_attempts x)) (wr_steps w) then Err WeJobUsed
     else try_then (next_revision w now) (\<lambda>revision.
       let x = current_step w in
       Ok ((set_current (x\<lparr>ws_attempt := ws_attempt x + 1, ws_attempts := ws_attempts x @ [job],
           ws_job_id := Some job, ws_status := WsRunning\<rparr>) w)
         \<lparr>wr_revision := revision, wr_updated_at_ms := now\<rparr>))))"

text \<open>The step is completed with a result and the next one is entered.\<close>

definition complete_current :: "string option \<Rightarrow> WorkflowRun \<Rightarrow> WorkflowRun" where
  "complete_current result w =
     activate_current_step
       ((set_current ((current_step w)\<lparr>ws_result := result, ws_status := WsCompleted\<rparr>) w)
         \<lparr>wr_current_step := Suc (wr_current_step w)\<rparr>)"

definition complete_task :: "WorkflowRun \<Rightarrow> string \<Rightarrow> u64 \<Rightarrow> (WorkflowError, WorkflowRun) result" where
  "complete_task w result now =
     try_then (WorkflowRun_validate w) (\<lambda>_.
     if wr_status w \<noteq> WfRunning \<or> ws_status (current_step w) \<noteq> WsRunning then Err WeNotRunning
     else if length result > MAX_WORKFLOW_RESULT_BYTES then Err WeResultBytes
     else try_then (next_revision w now) (\<lambda>revision.
       Ok ((complete_current (Some result) w)\<lparr>wr_revision := revision, wr_updated_at_ms := now\<rparr>)))"

definition needs_review :: "WorkflowRun \<Rightarrow> string \<Rightarrow> u64 \<Rightarrow> (WorkflowError, WorkflowRun) result" where
  "needs_review w why now =
     try_then (WorkflowRun_validate w) (\<lambda>_.
     if wr_status w \<noteq> WfRunning \<or> ws_status (current_step w) \<notin> {WsPending, WsRunning}
     then Err WeNotReviewable
     else if blank why \<or> length why > MAX_WORKFLOW_RESULT_BYTES then Err WeReviewError
     else try_then (next_revision w now) (\<lambda>revision.
       Ok ((set_current ((current_step w)\<lparr>ws_status := WsNeedsReview\<rparr>) w)
         \<lparr>wr_status := WfNeedsReview, wr_error := Some why, wr_revision := revision,
          wr_updated_at_ms := now\<rparr>)))"

definition action_fits :: "WorkflowResumeAction \<Rightarrow> WorkflowStatus \<Rightarrow> bool" where
  "action_fits action status =
     (case action of
        Approve \<Rightarrow> status = WfAwaitingApproval
      | Answer \<Rightarrow> status = WfAwaitingInput
      | _ \<Rightarrow> status = WfNeedsReview)"

definition workflow_resume ::
  "WorkflowRun \<Rightarrow> WorkflowResumeRequest \<Rightarrow> u64 \<Rightarrow> (WorkflowError, bool \<times> WorkflowRun) result" where
  "workflow_resume w q now =
     try_then (WorkflowRun_validate w) (\<lambda>_.
     case find (\<lambda>saved. wq_revision (wd_request saved) = wq_revision q) (wr_decisions w) of
       Some saved \<Rightarrow> if wd_request saved = q then Ok (False, w) else Err WeDifferentDecision
     | None \<Rightarrow>
         if wq_revision q \<noteq> wr_revision w then Err WeRevisionConflict
         else try_then (validate_resume_request q) (\<lambda>_.
         if length (wr_decisions w) \<ge> MAX_WORKFLOW_DECISIONS then Err WeDecisionLimit
         else if \<not> action_fits (wq_action q) (wr_status w) then Err WeNoCheckpoint
         else if wq_action q = Retry \<and> ws_attempt (current_step w) \<ge> MAX_WORKFLOW_ATTEMPTS
         then Err WeAttemptsExhausted
         else try_then (next_revision w now) (\<lambda>revision.
           let moved = (if wq_action q = Retry
             then (set_current ((current_step w)\<lparr>ws_status := WsPending, ws_job_id := None\<rparr>) w)
               \<lparr>wr_status := WfRunning\<rparr>
             else complete_current (wq_value q) w)
           in Ok (True, moved\<lparr>wr_error := None,
             wr_decisions := wr_decisions w @ [\<lparr>wd_step_index = wr_current_step w, wd_request = q,
               wd_decided_at_ms = now\<rparr>],
             wr_revision := revision, wr_updated_at_ms := now\<rparr>))))"

definition workflow_cancel ::
  "WorkflowRun \<Rightarrow> u64 \<Rightarrow> u64 \<Rightarrow> (WorkflowError, bool \<times> WorkflowRun) result" where
  "workflow_cancel w revision now =
     try_then (WorkflowRun_validate w) (\<lambda>_.
     if wr_status w = WfCancelled
     then if checked_add revision 1 = Some (wr_revision w) then Ok (False, w)
       else Err WeCancellationConflict
     else if revision \<noteq> wr_revision w then Err WeRevisionConflict
     else if wr_status w = WfCompleted then Err WeCompleted
     else try_then (next_revision w now) (\<lambda>revision.
       Ok (True, w\<lparr>wr_steps := take (wr_current_step w) (wr_steps w)
           @ map (\<lambda>x. x\<lparr>ws_status := WsCancelled\<rparr>) (drop (wr_current_step w) (wr_steps w)),
         wr_status := WfCancelled, wr_error := None, wr_revision := revision,
         wr_updated_at_ms := now\<rparr>)))"

end
