(* ===== verification/Workflow_Replay.thy ===== *)
theory Workflow_Replay
  imports Workflow
begin

text \<open>
  What \<open>WorkflowRun::validate\<close> accepts. The depth-first search over histories is exact, the loops
  of the check are conditions on the steps and decisions, the operations keep them, and every
  accepted run can be rebuilt by the operations: a saved workflow is valid exactly when some sequence
  of calls produces it.
\<close>

section \<open>The search is exact\<close>

text \<open>One event of a history, and a point where the saved run may be.\<close>

definition replay_step :: "WorkflowRun \<Rightarrow> ReplayState \<Rightarrow> ReplayState \<Rightarrow> bool" where
  "replay_step w st st' \<longleftrightarrow>
     rp_revision st \<le> unat (wr_revision w) \<and> \<not> replay_stale w st \<and> st' \<in> set (replay_moves w st)"

definition replay_goal :: "WorkflowRun \<Rightarrow> ReplayState \<Rightarrow> bool" where
  "replay_goal w st \<longleftrightarrow>
     rp_revision st \<le> unat (wr_revision w) \<and> \<not> replay_stale w st \<and> replay_accepts w st"

definition replay_reaches :: "WorkflowRun \<Rightarrow> ReplayState \<Rightarrow> bool" where
  "replay_reaches w st \<longleftrightarrow> (\<exists>t. (replay_step w)\<^sup>*\<^sup>* st t \<and> replay_goal w t)"

text \<open>The points visited: none is a goal, and what follows them was visited, is on the stack or too late.\<close>

definition replay_closed :: "WorkflowRun \<Rightarrow> ReplayState list \<Rightarrow> ReplayState set \<Rightarrow> bool" where
  "replay_closed w stack visited \<longleftrightarrow>
     (\<forall>v \<in> visited. \<not> replay_goal w v \<and>
       (\<forall>t. replay_step w v t \<longrightarrow> t \<in> visited \<or> t \<in> set stack \<or> unat (wr_revision w) < rp_revision t))"

lemma reaches_unfold:
  "replay_reaches w st \<longleftrightarrow> replay_goal w st \<or> (\<exists>t. replay_step w st t \<and> replay_reaches w t)"
  unfolding replay_reaches_def by (metis converse_rtranclpE converse_rtranclp_into_rtranclp rtranclp.rtrancl_refl)

lemma reaches_late: "replay_reaches w st \<Longrightarrow> rp_revision st \<le> unat (wr_revision w)"
  by (subst (asm) reaches_unfold) (auto simp: replay_goal_def replay_step_def)

lemma visited_reaches:
  assumes "replay_closed w stack visited" and "v \<in> visited" and "replay_reaches w v"
  shows "\<exists>s \<in> set stack. replay_reaches w s"
proof -
  obtain t where t: "(replay_step w)\<^sup>*\<^sup>* v t" "replay_goal w t" using assms(3) by (auto simp: replay_reaches_def)
  from t(1) assms(2) show ?thesis
  proof (induction rule: converse_rtranclp_induct)
    case base
    with t(2) assms(1) show ?case by (auto simp: replay_closed_def)
  next
    case (step v v')
    have r: "replay_reaches w v'" using step(2) t(2) by (auto simp: replay_reaches_def)
    consider "v' \<in> visited" | "v' \<in> set stack"
      using step(1,4) assms(1) reaches_late [OF r] by (fastforce simp: replay_closed_def)
    then show ?case using step(3) r by cases auto
  qed
qed

lemma replay_search_exact:
  "replay_closed w stack visited \<Longrightarrow> replay_search w stack visited \<longleftrightarrow> (\<exists>s \<in> set stack. replay_reaches w s)"
proof (induction w stack visited rule: replay_search.induct)
  case (2 w st stack visited)
  show ?case
  proof (cases "rp_revision st > unat (wr_revision w) \<or> st \<in> visited")
    case True
    then have "replay_closed w stack visited" using 2(4) by (auto simp: replay_closed_def)
    moreover have "\<exists>s \<in> set stack. replay_reaches w s" if "replay_reaches w st"
      using True that reaches_late visited_reaches [OF \<open>replay_closed w stack visited\<close>] by force
    ultimately show ?thesis using True 2(1) by auto
  next
    case False
    note pop = this
    show ?thesis
    proof (cases "replay_stale w st")
      case True
      then have stuck: "\<not> replay_goal w st" "\<not> replay_step w st t" for t
        by (auto simp: replay_goal_def replay_step_def)
      then have "replay_closed w stack (insert st visited)" using 2(4) by (auto simp: replay_closed_def)
      then show ?thesis using True pop 2(2) stuck reaches_unfold [of w st] by auto
    next
      case fresh: False
      show ?thesis
      proof (cases "replay_accepts w st")
        case True
        then have "replay_goal w st" using pop fresh by (simp add: replay_goal_def)
        then show ?thesis using pop fresh True reaches_unfold [of w st] by auto
      next
        case False
        then have moves: "\<not> replay_goal w st" "replay_step w st t \<longleftrightarrow> t \<in> set (replay_moves w st)" for t
          using pop fresh by (auto simp: replay_goal_def replay_step_def)
        then have "replay_closed w (rev (replay_moves w st) @ stack) (insert st visited)"
          using 2(4) by (auto simp: replay_closed_def)
        then show ?thesis
          using False fresh pop 2(3) moves reaches_unfold [of w st] by auto
      qed
    qed
  qed
qed simp

lemma history_is_reachable_iff: "history_is_reachable w \<longleftrightarrow> replay_reaches w (replay_start w)"
  using replay_search_exact [of w "[replay_start w]" "{}"]
  by (simp add: history_is_reachable_def replay_closed_def)

section \<open>The check as conditions\<close>

lemma jobs_loop_ok:
  "jobs_loop ids js = Ok ids' \<longleftrightarrow> (\<forall>j \<in> set js. validate_reference j ''workflow job ID'' = Ok ()) \<and>
     distinct js \<and> set js \<inter> ids = {} \<and> ids' = ids \<union> set js"
  by (induction ids js rule: jobs_loop.induct) auto

definition step_fits :: "WorkflowRun \<Rightarrow> nat \<Rightarrow> WorkflowStep \<Rightarrow> bool" where
  "step_fits w i x \<longleftrightarrow>
     unat (ws_attempt x) = length (ws_attempts x) \<and> ws_attempt x \<le> MAX_WORKFLOW_ATTEMPTS \<and>
     (\<forall>j \<in> set (ws_attempts x). validate_reference j ''workflow job ID'' = Ok ()) \<and>
     (\<forall>j. ws_job_id x = Some j \<longrightarrow> last_opt (ws_attempts x) = Some j) \<and>
     (ws_kind x \<noteq> TaskStep \<longrightarrow> ws_attempt x = 0 \<and> ws_job_id x = None) \<and>
     place_check w i x = Ok () \<and> result_check x = Ok ()"

definition jobs_of :: "WorkflowStep list \<Rightarrow> string list" where
  "jobs_of xs = concat (map ws_attempts xs)"

lemma jobs_of_simps [simp]: "jobs_of [] = []" "jobs_of (x # xs) = ws_attempts x @ jobs_of xs"
  "jobs_of (xs @ ys) = jobs_of xs @ jobs_of ys"
  by (simp_all add: jobs_of_def)

lemma all_less_Suc_shift: "(\<forall>k<Suc n. P k) \<longleftrightarrow> P 0 \<and> (\<forall>k<n. P (Suc k))"
  by (auto simp: less_Suc_eq_0_disj)

lemma steps_check_ok:
  "steps_check w i ids xs = Ok () \<longleftrightarrow> (\<forall>k<length xs. step_fits w (i + k) (xs ! k)) \<and>
     distinct (jobs_of xs) \<and> set (jobs_of xs) \<inter> ids = {}"
proof (induction xs arbitrary: i ids)
  case (Cons x xs)
  have "steps_check w i ids (x # xs) = Ok () \<longleftrightarrow> step_fits w i x \<and> distinct (ws_attempts x) \<and>
      set (ws_attempts x) \<inter> ids = {} \<and> steps_check w (Suc i) (ids \<union> set (ws_attempts x)) xs = Ok ()"
    by (cases "ws_job_id x") (auto simp: step_fits_def jobs_loop_ok not_less)
  then show ?case unfolding Cons.IH by (auto simp: all_less_Suc_shift)
qed simp

abbreviation saved_definition :: "WorkflowRun \<Rightarrow> WorkflowInput" where
  "saved_definition w \<equiv> \<lparr>wi_title = wr_title w, wi_request_key = wr_request_key w,
     wi_steps = map spec_of_step (wr_steps w)\<rparr>"

text \<open>What stays the same in the life of a run, and what every saved state satisfies.\<close>

definition header_ok :: "WorkflowRun \<Rightarrow> bool" where
  "header_ok w \<longleftrightarrow>
     (\<forall>t. wr_source_template w = Some t \<longrightarrow> WorkflowTemplateSource_validate t (wr_request_key w) = Ok ()) \<and>
     validate_reference (wr_id w) ''workflow ID'' = Ok () \<and>
     validate_reference (wr_agent_id w) ''agent ID'' = Ok () \<and> validate_definition (saved_definition w) = Ok ()"

definition body_ok :: "WorkflowRun \<Rightarrow> bool" where
  "body_ok w \<longleftrightarrow>
     wr_revision w \<noteq> 0 \<and> wr_created_at_ms w \<le> wr_updated_at_ms w \<and>
     (wr_revision w = 1 \<longrightarrow> wr_updated_at_ms w = wr_created_at_ms w) \<and>
     wr_current_step w \<le> length (wr_steps w) \<and>
     (wr_status w = WfCompleted \<longleftrightarrow> wr_current_step w = length (wr_steps w)) \<and>
     review_error_fits w \<and> (\<forall>i<length (wr_steps w). step_fits w i (wr_steps w ! i)) \<and>
     distinct (jobs_of (wr_steps w)) \<and> length (wr_decisions w) \<le> MAX_WORKFLOW_DECISIONS \<and>
     decisions_loop w 0 (wr_created_at_ms w) (wr_decisions w) = Ok ()"

lemma workflow_valid_iff:
  "WorkflowRun_validate w = Ok () \<longleftrightarrow> header_ok w \<and> body_ok w \<and> replay_reaches w (replay_start w)"
proof -
  have src: "(case wr_source_template w of None \<Rightarrow> Ok ()
      | Some source \<Rightarrow> WorkflowTemplateSource_validate source (wr_request_key w)) = Ok () \<longleftrightarrow>
    (\<forall>t. wr_source_template w = Some t \<longrightarrow> WorkflowTemplateSource_validate t (wr_request_key w) = Ok ())"
    by (cases "wr_source_template w") auto
  show ?thesis
    unfolding WorkflowRun_validate_def header_ok_def body_ok_def try_then_eq_Inr
    by (auto simp: src steps_check_ok history_is_reachable_iff not_less)
qed

lemma header_step_count: "header_ok w \<Longrightarrow> wr_steps w \<noteq> [] \<and> length (wr_steps w) \<le> MAX_WORKFLOW_STEPS"
  by (auto simp: header_ok_def validate_definition_def split: if_splits)

section \<open>Decisions\<close>

abbreviation decided_revision :: "WorkflowDecision \<Rightarrow> u64" where
  "decided_revision d \<equiv> wq_revision (wd_request d)"

definition decision_fits :: "WorkflowRun \<Rightarrow> WorkflowDecision \<Rightarrow> bool" where
  "decision_fits w d \<longleftrightarrow> validate_resume_request (wd_request d) = Ok () \<and>
     wd_step_index d < length (wr_steps w) \<and> decided_revision d < wr_revision w \<and>
     wd_decided_at_ms d \<le> wr_updated_at_ms w \<and>
     (decided_revision d + 1 = wr_revision w \<longrightarrow> wd_decided_at_ms d = wr_updated_at_ms w)"

lemma decisions_loop_ok:
  "decisions_loop w l t ds = Ok () \<longleftrightarrow> (\<forall>d \<in> set ds. decision_fits w d) \<and>
     sorted_wrt (<) (l # map decided_revision ds) \<and> sorted (t # map wd_decided_at_ms ds)"
proof (induction ds arbitrary: l t)
  case (Cons d ds)
  have "decisions_loop w l t (d # ds) = Ok () \<longleftrightarrow> decision_fits w d \<and> l < decided_revision d \<and>
      t \<le> wd_decided_at_ms d \<and> decisions_loop w (decided_revision d) (wd_decided_at_ms d) ds = Ok ()"
    by (auto simp: decision_fits_def not_less not_le)
  moreover have "sorted_wrt (<) (l # map decided_revision (d # ds)) \<longleftrightarrow>
      l < decided_revision d \<and> sorted_wrt (<) (decided_revision d # map decided_revision ds)"
    by simp (blast intro: order.strict_trans)
  moreover have "sorted (t # map wd_decided_at_ms (d # ds)) \<longleftrightarrow>
      t \<le> wd_decided_at_ms d \<and> sorted (wd_decided_at_ms d # map wd_decided_at_ms ds)"
    by simp (blast intro: order.trans)
  ultimately show ?case unfolding Cons.IH by (simp del: sorted_wrt.simps) blast
qed simp

text \<open>A later state of the run: one more revision at a time that has not gone back.\<close>

definition follows :: "WorkflowRun \<Rightarrow> WorkflowRun \<Rightarrow> bool" where
  "follows w w' \<longleftrightarrow> unat (wr_revision w') = Suc (unat (wr_revision w)) \<and>
     wr_updated_at_ms w \<le> wr_updated_at_ms w' \<and> wr_created_at_ms w' = wr_created_at_ms w \<and>
     length (wr_steps w') = length (wr_steps w)"

lemma next_revision_ok:
  "next_revision w now = Ok r \<longleftrightarrow> wr_updated_at_ms w \<le> now \<and> unat r = Suc (unat (wr_revision w))"
  by (auto simp: next_revision_def not_less checked_add_Some_iff)

lemma follows_decision: "follows w w' \<Longrightarrow> decision_fits w d \<Longrightarrow> decision_fits w' d"
proof -
  assume f: "follows w w'" and d: "decision_fits w d"
  then have "decided_revision d < wr_revision w" by (simp add: decision_fits_def)
  then have "unat (decided_revision d) < unat (wr_revision w)" by (simp add: word_less_nat_alt)
  moreover have "unat (decided_revision d + 1) = Suc (unat (decided_revision d))"
    using unat_add_in_range [of "decided_revision d" 1] unsigned_less [of "wr_revision w", where 'a = nat] calculation
    by (simp add: less_trans_Suc)
  ultimately have "decided_revision d + 1 \<noteq> wr_revision w'" "decided_revision d < wr_revision w'"
    using f by (auto simp: follows_def word_less_nat_alt)
  then show ?thesis using f d by (auto simp: decision_fits_def follows_def)
qed

lemma follows_decisions:
  "follows w w' \<Longrightarrow> decisions_loop w 0 (wr_created_at_ms w) ds = Ok () \<Longrightarrow>
     decisions_loop w' 0 (wr_created_at_ms w') ds = Ok ()"
  by (auto simp: decisions_loop_ok follows_decision) (simp_all add: follows_def)

lemma follows_decide:
  assumes "follows w w'" and "decisions_loop w 0 (wr_created_at_ms w) ds = Ok ()"
    and "wr_created_at_ms w \<le> wr_updated_at_ms w" and "wr_revision w \<noteq> 0"
    and "validate_resume_request q = Ok ()" and "wq_revision q = wr_revision w" and "i < length (wr_steps w)"
  shows "decisions_loop w' 0 (wr_created_at_ms w')
    (ds @ [\<lparr>wd_step_index = i, wd_request = q, wd_decided_at_ms = wr_updated_at_ms w'\<rparr>]) = Ok ()"
proof -
  have "wr_revision w < wr_revision w'" using assms(1) by (simp add: follows_def word_less_nat_alt)
  moreover have "decided_revision d < wr_revision w" "wd_decided_at_ms d \<le> wr_updated_at_ms w"
    if "d \<in> set ds" for d using assms(2) that by (auto simp: decisions_loop_ok decision_fits_def)
  ultimately show ?thesis
    using follows_decisions [OF assms(1,2)] assms(3-) assms(1)
    by (auto simp: decisions_loop_ok sorted_wrt_append sorted_append decision_fits_def follows_def word_neq_0_conv
        intro: order.trans)
qed

section \<open>The events of a history\<close>

definition settles :: "WorkflowStepStatus \<Rightarrow> WorkflowResumeAction \<Rightarrow> bool" where
  "settles phase action \<longleftrightarrow> (phase, action) \<in>
     {(WsNeedsReview, Resolve), (WsAwaitingApproval, Approve), (WsAwaitingInput, Answer)}"

lemma replay_decide_iff:
  "st' \<in> set (replay_decide w st d) \<longleftrightarrow> wd_step_index d = rp_step st \<and>
     (let next = st\<lparr>rp_revision := Suc (rp_revision st), rp_decision := Suc (rp_decision st)\<rparr>;
          q = wd_request d in
      rp_phase st = WsNeedsReview \<and> wq_action q = Retry \<and> rp_attempt st < unat MAX_WORKFLOW_ATTEMPTS \<and>
        st' = next\<lparr>rp_phase := WsPending, rp_attached := False\<rparr> \<or>
      settles (rp_phase st) (wq_action q) \<and> st' = replay_advance w next \<and>
        replay_can_complete w st (if wq_action q = Approve then None else wq_value q))"
  by (cases "rp_phase st"; cases "wq_action (wd_request d)") (auto simp: replay_decide_def settles_def Let_def)

lemma replay_work_iff:
  "st' \<in> set (replay_work w st x) \<longleftrightarrow>
     (let next = st\<lparr>rp_revision := Suc (rp_revision st)\<rparr> in
      rp_phase st = WsPending \<and> rp_attempt st < length (ws_attempts x) \<and>
        st' = next\<lparr>rp_attempt := Suc (rp_attempt st), rp_attached := True, rp_phase := WsRunning\<rparr> \<or>
      rp_phase st = WsRunning \<and> replay_can_complete w st (ws_result x) \<and> st' = replay_advance w next \<or>
      rp_phase st \<in> {WsPending, WsRunning} \<and> st' = next\<lparr>rp_phase := WsNeedsReview\<rparr>)"
  by (cases "rp_phase st") (auto simp: replay_work_def Let_def)

section \<open>Where a run is in its history\<close>

definition current_point :: "WorkflowRun \<Rightarrow> ReplayState" where
  "current_point w =
     (let c = wr_current_step w; live = c < length (wr_steps w) in
      \<lparr>rp_step = c, rp_phase = (if live then ws_status (wr_steps w ! c) else WsCompleted),
       rp_attempt = (if live then unat (ws_attempt (wr_steps w ! c)) else 0),
       rp_attached = (live \<and> ws_job_id (wr_steps w ! c) \<noteq> None),
       rp_decision = length (wr_decisions w), rp_revision = unat (wr_revision w)\<rparr>)"

text \<open>What holds at every point of a history.\<close>

definition point_ok :: "WorkflowRun \<Rightarrow> ReplayState \<Rightarrow> bool" where
  "point_ok w st \<longleftrightarrow> rp_step st \<le> length (wr_steps w) \<and> (rp_attached st \<longrightarrow> 0 < rp_attempt st) \<and>
     (rp_step st = length (wr_steps w) \<longrightarrow> rp_attempt st = 0 \<and> \<not> rp_attached st \<and> rp_phase st = WsCompleted)"

lemma nth_opt_simps [simp]:
  "nth_opt xs i = None \<longleftrightarrow> length xs \<le> i"
  "nth_opt xs i = Some x \<longleftrightarrow> i < length xs \<and> xs ! i = x"
  by (auto simp: nth_opt_def)

lemma point_ok_advance: "rp_step st < length (wr_steps w) \<Longrightarrow> point_ok w (replay_advance w st)"
  by (auto simp: point_ok_def replay_advance_def split: option.splits)

lemma point_ok_update:
  "point_ok w st \<Longrightarrow> rp_step st < length (wr_steps w) \<Longrightarrow> rp_step st' = rp_step st \<Longrightarrow>
     (rp_attached st' \<longrightarrow> 0 < rp_attempt st') \<Longrightarrow> point_ok w st'"
  by (simp add: point_ok_def)

lemma point_ok_moves:
  assumes "point_ok w st" and "st' \<in> set (replay_moves w st)"
  shows "point_ok w st'"
proof -
  have lt: "rp_step st < length (wr_steps w)"
    using assms(2) by (auto simp: replay_moves_def nth_opt_def split: if_splits)
  show ?thesis
    using assms(2) lt point_ok_advance point_ok_update [OF assms(1) lt] assms(1)
    by (auto simp: replay_moves_def nth_opt_def replay_decide_iff replay_work_iff Let_def point_ok_def
        split: if_splits)
qed

lemma point_ok_start: "wr_steps w \<noteq> [] \<Longrightarrow> point_ok w (replay_start w)"
  by (simp add: point_ok_def replay_start_def)

lemma point_ok_history:
  "(replay_step w)\<^sup>*\<^sup>* (replay_start w) st \<Longrightarrow> wr_steps w \<noteq> [] \<Longrightarrow> point_ok w st"
  by (induction rule: rtranclp_induct) (auto simp: point_ok_start replay_step_def dest: point_ok_moves)

lemma body_current:
  assumes "body_ok w" and "wr_status w \<noteq> WfCompleted"
  shows "wr_current_step w < length (wr_steps w)" and "step_fits w (wr_current_step w) (current_step w)"
    and "current_step_valid (wr_status w) (current_step w)" and "ws_status (current_step w) \<noteq> WsCompleted"
proof -
  show lt: "wr_current_step w < length (wr_steps w)" using assms by (auto simp: body_ok_def)
  then show fits: "step_fits w (wr_current_step w) (current_step w)" using assms by (auto simp: body_ok_def)
  then show "current_step_valid (wr_status w) (current_step w)" by (simp add: step_fits_def place_check_def)
  then show "ws_status (current_step w) \<noteq> WsCompleted"
    by (auto simp: current_step_valid_def split: WorkflowStatus.splits)
qed

lemma current_point_goal:
  assumes "body_ok w" and "wr_status w \<noteq> WfCancelled"
  shows "replay_goal w (current_point w)"
proof -
  have m: "replay_matches_current w (current_point w)"
  proof (cases "wr_status w = WfCompleted")
    case True
    then show ?thesis using assms by (simp add: replay_matches_current_def body_ok_def current_point_def Let_def)
  next
    case False
    note c = body_current [OF assms(1) False]
    show ?thesis using False assms(2) c(1,2)
      by (cases "ws_job_id (current_step w)")
        (auto simp: replay_matches_current_def replay_matches_attempt_def current_point_def Let_def step_fits_def
          nth_opt_def)
  qed
  have "\<not> replay_stale w (current_point w)"
    by (simp add: replay_stale_def current_point_def Let_def nth_opt_def)
  with m show ?thesis by (simp add: replay_goal_def replay_accepts_def) (simp add: current_point_def Let_def)
qed

lemma goal_is_current:
  assumes "body_ok w" and "wr_status w \<noteq> WfCancelled" and "replay_goal w st" and "point_ok w st"
  shows "st = current_point w"
proof (cases "wr_status w = WfCompleted")
  case True
  with assms show ?thesis
    by (intro ReplayState.equality)
      (auto simp: current_point_def Let_def replay_goal_def replay_accepts_def point_ok_def body_ok_def
        replay_matches_current_def)
next
  case False
  note c = body_current [OF assms(1) False]
  have "rp_attached st \<longleftrightarrow> ws_job_id (current_step w) \<noteq> None"
    using assms False c(1,2)
    by (auto simp: replay_goal_def replay_accepts_def replay_matches_current_def replay_matches_attempt_def
        nth_opt_def point_ok_def last_opt_def step_fits_def split: if_splits)
  with assms False c(1) show ?thesis
    by (intro ReplayState.equality)
      (auto simp: current_point_def Let_def replay_goal_def replay_accepts_def replay_matches_current_def
        replay_matches_attempt_def nth_opt_def)
qed

lemma history_iff:
  assumes "body_ok w" and "wr_status w \<noteq> WfCancelled" and "wr_steps w \<noteq> []"
  shows "replay_reaches w (replay_start w) \<longleftrightarrow> (replay_step w)\<^sup>*\<^sup>* (replay_start w) (current_point w)"
  unfolding replay_reaches_def
  using current_point_goal [OF assms(1,2)] goal_is_current [OF assms(1,2)] point_ok_history [OF _ assms(3)]
  by blast

section \<open>Histories of later states\<close>

definition extends_run :: "WorkflowRun \<Rightarrow> WorkflowRun \<Rightarrow> bool" where
  "extends_run w w' \<longleftrightarrow>
     map ws_kind (wr_steps w') = map ws_kind (wr_steps w) \<and>
     (\<forall>i<wr_current_step w. wr_steps w' ! i = wr_steps w ! i) \<and>
     length (ws_attempts (current_step w)) \<le> length (ws_attempts (wr_steps w' ! wr_current_step w)) \<and>
     (\<exists>ds. wr_decisions w' = wr_decisions w @ ds \<and>
        (\<forall>d \<in> set ds. unat (wr_revision w) \<le> unat (decided_revision d))) \<and>
     unat (wr_revision w) \<le> unat (wr_revision w')"

lemma extends_moves:
  assumes e: "extends_run w w'" and c: "wr_current_step w < length (wr_steps w)"
    "ws_status (current_step w) \<noteq> WsCompleted" and s: "rp_step st \<le> wr_current_step w"
    and step: "replay_step w st st'" and rev: "rp_revision st < unat (wr_revision w)"
  shows "replay_step w' st st' \<and> rp_step st' \<le> wr_current_step w"
proof -
  let ?x = "wr_steps w ! rp_step st" and ?x' = "wr_steps w' ! rp_step st"
  have kinds: "map ws_kind (wr_steps w') = map ws_kind (wr_steps w)" using e by (simp add: extends_run_def)
  then have len: "length (wr_steps w') = length (wr_steps w)" by (rule map_eq_imp_length_eq)
  have lt: "rp_step st < length (wr_steps w)" "rp_step st < length (wr_steps w')" using s c len by auto
  have kind: "ws_kind (wr_steps w' ! i) = ws_kind (wr_steps w ! i)" if "i < length (wr_steps w)" for i
    using arg_cong [OF kinds, of "\<lambda>l. l ! i"] that len by simp
  have adv: "replay_advance w' p = replay_advance w p" for p
    using kind len by (auto simp: replay_advance_def nth_opt_def)
  have before: "rp_step st < wr_current_step w \<and> ?x' = ?x" if "ws_status ?x = WsCompleted"
  proof -
    have "rp_step st < wr_current_step w" using that s c(2) by (cases "rp_step st = wr_current_step w") auto
    then show ?thesis using e by (simp add: extends_run_def)
  qed
  have cc: "replay_can_complete w' st r" "rp_step st < wr_current_step w" "?x' = ?x"
    if "replay_can_complete w st r" for r
    using that before lt len by (auto simp: replay_can_complete_def replay_matches_attempt_def nth_opt_def)
  have att: "length (ws_attempts ?x) \<le> length (ws_attempts ?x')"
    using e s by (cases "rp_step st = wr_current_step w") (auto simp: extends_run_def)
  obtain ds where ds: "wr_decisions w' = wr_decisions w @ ds"
    "\<And>d. d \<in> set ds \<Longrightarrow> rp_revision st < unat (decided_revision d)"
    using e rev by (fastforce simp: extends_run_def)
  have rev': "rp_revision st < unat (wr_revision w')" using e rev by (auto simp: extends_run_def)
  have forward: "rp_step (replay_advance w p) \<le> wr_current_step w"
    if "replay_can_complete w st r" "rp_step p = rp_step st" for p r
    using cc(2) [OF that(1)] that(2) by (simp add: replay_advance_def)
  have work: "st' \<in> set (replay_work w' st ?x') \<and> rp_step st' \<le> wr_current_step w"
    if "st' \<in> set (replay_work w st ?x)"
    using that att s cc(1,3) forward [of "ws_result ?x"] unfolding replay_work_iff Let_def adv by fastforce
  have decide: "st' \<in> set (replay_decide w' st d) \<and> rp_step st' \<le> wr_current_step w"
    if "st' \<in> set (replay_decide w st d)" for d
    using that s cc(1) forward unfolding replay_decide_iff Let_def adv by fastforce
  have moves: "st' \<in> set (replay_moves w' st) \<and> rp_step st' \<le> wr_current_step w \<and> \<not> replay_stale w' st"
  proof (cases "rp_decision st < length (wr_decisions w)")
    case True
    then show ?thesis using step lt rev rev' ds(1) work decide
      by (auto simp: replay_step_def replay_moves_def replay_stale_def nth_opt_def nth_append split: if_splits)
  next
    case False
    have "is_none_or (nth_opt (wr_decisions w') (rp_decision st)) (\<lambda>d. rp_revision st < unat (decided_revision d))"
      using False ds by (auto simp: nth_opt_def nth_append)
    then show ?thesis using False step lt rev rev' work
      by (auto simp: replay_step_def replay_moves_def replay_stale_def nth_opt_def split: if_splits)
  qed
  then show ?thesis using rev' by (simp add: replay_step_def)
qed

lemma extends_history:
  assumes e: "extends_run w w'" and c: "wr_current_step w < length (wr_steps w)"
    "ws_status (current_step w) \<noteq> WsCompleted"
    and h: "(replay_step w)\<^sup>*\<^sup>* (replay_start w) st" and rev: "rp_revision st \<le> unat (wr_revision w)"
  shows "(replay_step w')\<^sup>*\<^sup>* (replay_start w') st \<and> rp_step st \<le> wr_current_step w"
  using h rev
proof (induction rule: rtranclp_induct)
  case base
  have kinds: "map ws_kind (wr_steps w') = map ws_kind (wr_steps w)" using e by (simp add: extends_run_def)
  then have "length (wr_steps w') = length (wr_steps w)" by (rule map_eq_imp_length_eq)
  moreover have "0 < length (wr_steps w)" using c(1) by linarith
  ultimately have "replay_start w' = replay_start w"
    using arg_cong [OF kinds, of "\<lambda>l. l ! 0"] by (simp add: replay_start_def)
  then show ?case by (simp add: replay_start_def)
next
  case (step st st')
  have "rp_revision st' = Suc (rp_revision st)"
    using step(2) by (auto simp: replay_step_def dest: replay_moves_revision)
  with step.prems have "rp_revision st < unat (wr_revision w)" by simp
  with step show ?case using extends_moves [OF e c] by (meson less_imp_le rtranclp.rtrancl_into_rtrancl)
qed

lemma history_extends:
  assumes e: "extends_run w w'" and b: "body_ok w" "body_ok w'" and st: "wr_status w \<notin> {WfCompleted, WfCancelled}"
    and r: "replay_reaches w (replay_start w)"
    and step: "wr_status w' \<noteq> WfCancelled \<Longrightarrow> replay_step w' (current_point w) (current_point w')"
    and cancel: "wr_status w' = WfCancelled \<Longrightarrow> replay_goal w' (current_point w)"
  shows "replay_reaches w' (replay_start w')"
proof -
  have c: "wr_current_step w < length (wr_steps w)" "ws_status (current_step w) \<noteq> WsCompleted"
    using body_current [OF b(1)] st by auto
  have ne: "wr_steps w \<noteq> []" using c(1) by auto
  have "(replay_step w)\<^sup>*\<^sup>* (replay_start w) (current_point w)" using history_iff [OF b(1)] st ne r by blast
  then have h: "(replay_step w')\<^sup>*\<^sup>* (replay_start w') (current_point w)"
    using extends_history [OF e c] by (simp add: current_point_def Let_def)
  show ?thesis
  proof (cases "wr_status w' = WfCancelled")
    case True
    then show ?thesis using h cancel by (auto simp: replay_reaches_def)
  next
    case False
    then show ?thesis
      using h step current_point_goal [OF b(2)] rtranclp.rtrancl_into_rtrancl [OF h]
      by (auto simp: replay_reaches_def)
  qed
qed

section \<open>The operations keep a run valid\<close>

lemma body_next:
  assumes b: "body_ok w" and f: "follows w w'" and c: "wr_current_step w' \<le> length (wr_steps w')"
    and "wr_status w' = WfCompleted \<longleftrightarrow> wr_current_step w' = length (wr_steps w')" and "review_error_fits w'"
    and "\<And>i. i < length (wr_steps w') \<Longrightarrow> step_fits w' i (wr_steps w' ! i)" and "distinct (jobs_of (wr_steps w'))"
    and "wr_decisions w' = wr_decisions w \<or>
      (\<exists>q i. wr_decisions w' = wr_decisions w @ [\<lparr>wd_step_index = i, wd_request = q, wd_decided_at_ms = wr_updated_at_ms w'\<rparr>] \<and>
        validate_resume_request q = Ok () \<and> wq_revision q = wr_revision w \<and> i < length (wr_steps w) \<and>
        length (wr_decisions w) < MAX_WORKFLOW_DECISIONS)"
  shows "body_ok w'"
proof -
  have d: "decisions_loop w 0 (wr_created_at_ms w) (wr_decisions w) = Ok ()" "wr_revision w \<noteq> 0"
    "wr_created_at_ms w \<le> wr_updated_at_ms w" "length (wr_decisions w) \<le> MAX_WORKFLOW_DECISIONS"
    using b by (auto simp: body_ok_def)
  have "decisions_loop w' 0 (wr_created_at_ms w') (wr_decisions w') = Ok ()"
    using assms(8) follows_decisions [OF f d(1)] follows_decide [OF f d(1,3,2)] by auto
  moreover have "length (wr_decisions w') \<le> MAX_WORKFLOW_DECISIONS" using assms(8) d(4) by auto
  moreover have "unat (wr_revision w') \<noteq> 0" "unat (wr_revision w') \<noteq> 1"
    using f d(2) by (auto simp: follows_def unat_eq_0)
  then have "wr_revision w' \<noteq> 0" "wr_revision w' \<noteq> 1" by auto
  moreover have "wr_created_at_ms w' \<le> wr_updated_at_ms w'" using f d(3) by (auto simp: follows_def)
  ultimately show ?thesis using assms(3-7) by (simp add: body_ok_def)
qed

lemma map_list_update_same: "f x = f (xs ! c) \<Longrightarrow> map f (xs[c := x]) = map f xs"
  by (cases "c < length xs") (simp_all add: map_update list_update_same_conv list_update_beyond)

lemma jobs_of_update:
  assumes "c < length xs" and "ws_attempts x = ws_attempts (xs ! c) @ js"
  shows "distinct (jobs_of (xs[c := x])) \<longleftrightarrow> distinct (jobs_of xs) \<and> distinct js \<and> set js \<inter> set (jobs_of xs) = {}"
proof -
  have "xs = take c xs @ xs ! c # drop (Suc c) xs" using assms(1) by (rule id_take_nth_drop)
  then have "jobs_of xs = jobs_of (take c xs) @ ws_attempts (xs ! c) @ jobs_of (drop (Suc c) xs)"
    by (metis jobs_of_simps(2,3))
  moreover have "jobs_of (xs[c := x]) =
      jobs_of (take c xs) @ (ws_attempts (xs ! c) @ js) @ jobs_of (drop (Suc c) xs)"
    using assms by (simp add: upd_conv_take_nth_drop)
  ultimately show ?thesis by auto
qed

lemma step_fits_place: "step_fits w i x \<Longrightarrow> place_check w' i x = Ok () \<Longrightarrow> step_fits w' i x"
  by (simp add: step_fits_def)

lemma set_jobs_of: "set (jobs_of xs) = (\<Union>x \<in> set xs. set (ws_attempts x))"
  by (simp add: jobs_of_def)

text \<open>A change of the current step that leaves it current.\<close>

definition change_current ::
  "WorkflowRun \<Rightarrow> WorkflowStep \<Rightarrow> WorkflowStatus \<Rightarrow> string option \<Rightarrow> WorkflowDecision list \<Rightarrow> u64 \<Rightarrow> u64 \<Rightarrow> WorkflowRun" where
  "change_current w x s e ds r now = w\<lparr>wr_steps := (wr_steps w)[wr_current_step w := x], wr_status := s,
     wr_error := e, wr_decisions := ds, wr_revision := r, wr_updated_at_ms := now\<rparr>"

lemma header_change: "header_ok w \<Longrightarrow> spec_of_step x = spec_of_step (current_step w) \<Longrightarrow>
    header_ok (change_current w x s e ds r now)"
  by (simp add: header_ok_def change_current_def map_list_update_same)

lemma follows_change:
  "next_revision w now = Ok r \<Longrightarrow> follows w (change_current w x s e ds r now)"
  by (simp add: follows_def change_current_def next_revision_ok)

lemma body_change:
  assumes b: "body_ok w" and st: "wr_status w \<notin> {WfCompleted, WfCancelled}" "s \<notin> {WfCompleted, WfCancelled}"
    and f: "next_revision w now = Ok r"
    and x: "step_fits (change_current w x s e ds r now) (wr_current_step w) x"
      "ws_attempts x = ws_attempts (current_step w) @ js" "distinct js" "set js \<inter> set (jobs_of (wr_steps w)) = {}"
    and "case e of Some m \<Rightarrow> s = WfNeedsReview \<and> \<not> blank m \<and> length m \<le> MAX_WORKFLOW_RESULT_BYTES | None \<Rightarrow> s \<noteq> WfNeedsReview"
    and "ds = wr_decisions w \<or>
      (\<exists>q i. ds = wr_decisions w @ [\<lparr>wd_step_index = i, wd_request = q, wd_decided_at_ms = now\<rparr>] \<and>
        validate_resume_request q = Ok () \<and> wq_revision q = wr_revision w \<and> i < length (wr_steps w) \<and>
        length (wr_decisions w) < MAX_WORKFLOW_DECISIONS)"
  shows "body_ok (change_current w x s e ds r now)"
proof -
  let ?w = "change_current w x s e ds r now"
  have c: "wr_current_step w < length (wr_steps w)" using body_current(1) [OF b] st(1) by simp
  have fits: "step_fits w i (wr_steps w ! i)" if "i < length (wr_steps w)" for i using b that by (auto simp: body_ok_def)
  have steps: "step_fits ?w i (wr_steps ?w ! i)" if i: "i < length (wr_steps ?w)" for i
  proof (cases "i = wr_current_step w")
    case True
    then show ?thesis using x(1) c by (simp add: change_current_def)
  next
    case False
    then have "wr_steps ?w ! i = wr_steps w ! i" by (simp add: change_current_def)
    moreover have "step_fits w i (wr_steps w ! i)" using fits i by (simp add: change_current_def)
    moreover from this have "place_check ?w i (wr_steps w ! i) = Ok ()"
      using False st by (auto simp: step_fits_def place_check_def change_current_def)
    ultimately show ?thesis using step_fits_place by metis
  qed
  have dj: "distinct (jobs_of (wr_steps ?w))"
    using jobs_of_update [OF c x(2)] x(3,4) b by (simp add: change_current_def body_ok_def)
  show ?thesis
    using c st assms(9,10)
    by (intro body_next [OF b follows_change [OF f]] steps dj)
      (auto simp: change_current_def review_error_fits_def split: option.splits)
qed

lemma extends_change:
  assumes "spec_of_step x = spec_of_step (current_step w)" and "next_revision w now = Ok r"
    and "length (ws_attempts (current_step w)) \<le> length (ws_attempts x)"
    and "wr_current_step w < length (wr_steps w)"
    and "ds = wr_decisions w \<or> (\<exists>d. ds = wr_decisions w @ [d] \<and> decided_revision d = wr_revision w)"
  shows "extends_run w (change_current w x s e ds r now)"
proof -
  have "ws_kind x = ws_kind (current_step w)" using assms(1) by (simp add: spec_of_step_def)
  then show ?thesis
    using assms(2-) by (auto simp: extends_run_def change_current_def map_list_update_same next_revision_ok)
qed

lemma change_valid:
  assumes "WorkflowRun_validate w = Ok ()"
    and st: "wr_status w \<notin> {WfCompleted, WfCancelled}" "s \<notin> {WfCompleted, WfCancelled}"
    and "spec_of_step x = spec_of_step (current_step w)" and "next_revision w now = Ok r"
    and "body_ok (change_current w x s e ds r now)"
    and "length (ws_attempts (current_step w)) \<le> length (ws_attempts x)"
    and "ds = wr_decisions w \<or> (\<exists>d. ds = wr_decisions w @ [d] \<and> decided_revision d = wr_revision w)"
    and "replay_step (change_current w x s e ds r now) (current_point w)
      (current_point (change_current w x s e ds r now))"
  shows "WorkflowRun_validate (change_current w x s e ds r now) = Ok ()"
proof -
  have w: "header_ok w" "body_ok w" "replay_reaches w (replay_start w)" using assms(1) by (auto simp: workflow_valid_iff)
  have c: "wr_current_step w < length (wr_steps w)" using body_current(1) [OF w(2)] st(1) by simp
  have "replay_reaches (change_current w x s e ds r now) (replay_start (change_current w x s e ds r now))"
    using history_extends [OF extends_change [OF assms(4,5,7) c assms(8)] w(2) assms(6) st(1) w(3)] assms(9) st(2)
    by (simp add: change_current_def)
  then show ?thesis using header_change [OF w(1) assms(4)] assms(6) by (simp add: workflow_valid_iff)
qed

lemma unat_Suc_attempt: "x < MAX_WORKFLOW_ATTEMPTS \<Longrightarrow> unat (x + 1) = Suc (unat x) \<and> x + 1 \<le> MAX_WORKFLOW_ATTEMPTS"
  using unat_add_in_range [of x 1] by (simp add: MAX_WORKFLOW_ATTEMPTS_def word_less_nat_alt word_le_nat_alt)

lemma running_error: "body_ok w \<Longrightarrow> wr_status w \<noteq> WfNeedsReview \<Longrightarrow> wr_error w = None"
  by (auto simp: body_ok_def review_error_fits_def split: option.splits)

lemma attach_valid:
  assumes "attach_job w job now = Ok w'"
  shows "WorkflowRun_validate w' = Ok ()"
proof -
  let ?x = "current_step w"
  let ?x' = "?x\<lparr>ws_attempt := ws_attempt ?x + 1, ws_attempts := ws_attempts ?x @ [job], ws_job_id := Some job,
    ws_status := WsRunning\<rparr>"
  obtain r where v: "WorkflowRun_validate w = Ok ()" and job: "validate_reference job ''workflow job ID'' = Ok ()"
    and st: "wr_status w = WfRunning" "ws_status ?x = WsPending" "ws_attempt ?x < MAX_WORKFLOW_ATTEMPTS"
    and fresh: "job \<notin> set (jobs_of (wr_steps w))" and r: "next_revision w now = Ok r"
    and w': "w' = (set_current ?x' w)\<lparr>wr_revision := r, wr_updated_at_ms := now\<rparr>"
    using assms by (auto simp: attach_job_def Let_def set_jobs_of list_ex_iff not_le split: if_splits)
  have b: "body_ok w" using v by (simp add: workflow_valid_iff)
  note c = body_current [OF b]
  have w'_eq: "w' = change_current w ?x' WfRunning None (wr_decisions w) r now"
    using st(1) running_error [OF b] by (simp add: w' change_current_def set_current_def)
  have x: "step_fits w (wr_current_step w) ?x" "current_step_valid WfRunning ?x" "ws_result ?x = None"
    using c(2,3) st by (auto simp: step_fits_def result_check_def)
  have "body_ok (change_current w ?x' WfRunning None (wr_decisions w) r now)"
    using x st job fresh unat_Suc_attempt [OF st(3)]
    by (intro body_change [OF b _ _ r, where js = "[job]"])
      (auto simp: step_fits_def place_check_def change_current_def current_step_valid_def last_opt_def result_check_def)
  moreover have "replay_step (change_current w ?x' WfRunning None (wr_decisions w) r now) (current_point w)
      (current_point (change_current w ?x' WfRunning None (wr_decisions w) r now))"
    using c(1) st r x(1) unat_Suc_attempt [OF st(3)]
    by (auto simp: replay_step_def replay_moves_def replay_work_iff Let_def current_point_def change_current_def
        nth_opt_def next_revision_ok step_fits_def replay_stale_def)
  ultimately show ?thesis unfolding w'_eq using st
    by (intro change_valid [OF v _ _ _ r]) (auto simp: spec_of_step_def)
qed

lemma review_valid:
  assumes "needs_review w why now = Ok w'"
  shows "WorkflowRun_validate w' = Ok ()"
proof -
  let ?x = "current_step w" and ?x' = "(current_step w)\<lparr>ws_status := WsNeedsReview\<rparr>"
  obtain r where v: "WorkflowRun_validate w = Ok ()" and st: "wr_status w = WfRunning" "ws_status ?x \<in> {WsPending, WsRunning}"
    and why: "\<not> blank why" "length why \<le> MAX_WORKFLOW_RESULT_BYTES" and r: "next_revision w now = Ok r"
    and w': "w' = (set_current ?x' w)\<lparr>wr_status := WfNeedsReview, wr_error := Some why, wr_revision := r,
      wr_updated_at_ms := now\<rparr>"
    using assms by (auto simp: needs_review_def not_less split: if_splits)
  have b: "body_ok w" using v by (simp add: workflow_valid_iff)
  note c = body_current [OF b]
  have w'_eq: "w' = change_current w ?x' WfNeedsReview (Some why) (wr_decisions w) r now"
    by (simp add: w' change_current_def set_current_def)
  have x: "step_fits w (wr_current_step w) ?x" "current_step_valid WfRunning ?x" "ws_result ?x = None"
    using c(2,3) st by (auto simp: step_fits_def result_check_def)
  have "body_ok (change_current w ?x' WfNeedsReview (Some why) (wr_decisions w) r now)"
    using x st why
    by (intro body_change [OF b _ _ r, where js = "[]"])
      (auto simp: step_fits_def place_check_def change_current_def current_step_valid_def result_check_def)
  moreover have "replay_step (change_current w ?x' WfNeedsReview (Some why) (wr_decisions w) r now) (current_point w)
      (current_point (change_current w ?x' WfNeedsReview (Some why) (wr_decisions w) r now))"
    using c(1) st r
    by (auto simp: replay_step_def replay_moves_def replay_work_iff Let_def current_point_def change_current_def
        nth_opt_def next_revision_ok replay_stale_def)
  ultimately show ?thesis unfolding w'_eq using st
    by (intro change_valid [OF v _ _ _ r]) (auto simp: spec_of_step_def)
qed

text \<open>The current step is completed and the next one is entered.\<close>

definition advance_current ::
  "WorkflowRun \<Rightarrow> string option \<Rightarrow> WorkflowDecision list \<Rightarrow> u64 \<Rightarrow> u64 \<Rightarrow> WorkflowRun" where
  "advance_current w res ds r now =
     (complete_current res w)\<lparr>wr_error := None, wr_decisions := ds, wr_revision := r, wr_updated_at_ms := now\<rparr>"

lemma activate_simps: "snd (activate k) = initial_phase k" "fst (activate k) \<notin> {WfCompleted, WfCancelled, WfNeedsReview}"
  by (cases k; simp)+

lemma advance_fields [simp]:
  "wr_current_step (advance_current w res ds r now) = Suc (wr_current_step w)"
  "length (wr_steps (advance_current w res ds r now)) = length (wr_steps w)"
  "wr_decisions (advance_current w res ds r now) = ds" "wr_revision (advance_current w res ds r now) = r"
  "wr_updated_at_ms (advance_current w res ds r now) = now" "wr_error (advance_current w res ds r now) = None"
  "wr_created_at_ms (advance_current w res ds r now) = wr_created_at_ms w"
  "wr_id (advance_current w res ds r now) = wr_id w" "wr_agent_id (advance_current w res ds r now) = wr_agent_id w"
  "wr_title (advance_current w res ds r now) = wr_title w" "wr_request_key (advance_current w res ds r now) = wr_request_key w"
  "wr_source_template (advance_current w res ds r now) = wr_source_template w"
  by (auto simp: advance_current_def complete_current_def activate_current_step_def set_current_def split: option.splits)

lemma advance_status:
  assumes "wr_current_step w < length (wr_steps w)"
  shows "wr_status (advance_current w res ds r now) = (if Suc (wr_current_step w) < length (wr_steps w)
    then fst (activate (ws_kind (wr_steps w ! Suc (wr_current_step w)))) else WfCompleted)"
  using assms by (auto simp: advance_current_def complete_current_def activate_current_step_def set_current_def
      nth_opt_def)

lemma advance_nth:
  assumes "wr_current_step w < length (wr_steps w)" and "i < length (wr_steps w)"
  shows "wr_steps (advance_current w res ds r now) ! i =
    (if i = wr_current_step w then (wr_steps w ! i)\<lparr>ws_result := res, ws_status := WsCompleted\<rparr>
     else if i = Suc (wr_current_step w) then (wr_steps w ! i)\<lparr>ws_status := initial_phase (ws_kind (wr_steps w ! i))\<rparr>
     else wr_steps w ! i)"
  using assms by (auto simp: advance_current_def complete_current_def activate_current_step_def set_current_def
      nth_opt_def activate_simps nth_list_update)

lemma advance_map:
  assumes "wr_current_step w < length (wr_steps w)"
    and "\<And>x s v. f (x\<lparr>ws_result := v, ws_status := s\<rparr>) = f x" and "\<And>x s. f (x\<lparr>ws_status := s\<rparr>) = f x"
  shows "map f (wr_steps (advance_current w res ds r now)) = map f (wr_steps w)"
  using assms by (intro nth_equalityI) (auto simp: advance_nth)

lemma body_advance:
  assumes b: "body_ok w" and st: "wr_status w \<notin> {WfCompleted, WfCancelled}" and r: "next_revision w now = Ok r"
    and res: "result_check ((current_step w)\<lparr>ws_result := res, ws_status := WsCompleted\<rparr>) = Ok ()"
    and ds: "ds = wr_decisions w \<or>
      (\<exists>q i. ds = wr_decisions w @ [\<lparr>wd_step_index = i, wd_request = q, wd_decided_at_ms = now\<rparr>] \<and>
        validate_resume_request q = Ok () \<and> wq_revision q = wr_revision w \<and> i < length (wr_steps w) \<and>
        length (wr_decisions w) < MAX_WORKFLOW_DECISIONS)"
  shows "body_ok (advance_current w res ds r now)"
proof -
  let ?w = "advance_current w res ds r now" and ?c = "wr_current_step w"
  have c: "?c < length (wr_steps w)" using body_current(1) [OF b] st by simp
  have fits: "step_fits w i (wr_steps w ! i)" if "i < length (wr_steps w)" for i using b that by (auto simp: body_ok_def)
  have steps: "step_fits ?w i (wr_steps ?w ! i)" if "i < length (wr_steps ?w)" for i
  proof -
    have i: "i < length (wr_steps w)" using that by simp
    note f = fits [OF i]
    consider "i < ?c" | "i = ?c" | "i = Suc ?c" | "Suc ?c < i" by linarith
    then show ?thesis
    proof cases
      case 1
      then show ?thesis using f i c by (simp add: step_fits_def place_check_def advance_nth)
    next
      case 2
      then show ?thesis using f i res by (simp add: step_fits_def place_check_def advance_nth)
    next
      case 3
      then have "ws_result (wr_steps w ! i) = None"
        using f st by (auto simp: step_fits_def place_check_def result_check_def)
      then show ?thesis using f i c 3 st
        by (cases "ws_kind (wr_steps w ! i)")
          (auto simp: step_fits_def place_check_def advance_nth advance_status current_step_valid_def result_check_def)
    next
      case 4
      then show ?thesis using f i c st activate_simps(2)
        by (auto simp: step_fits_def place_check_def advance_nth advance_status)
    qed
  qed
  have "map ws_attempts (wr_steps ?w) = map ws_attempts (wr_steps w)" by (rule advance_map [OF c]) simp_all
  then have "jobs_of (wr_steps ?w) = jobs_of (wr_steps w)" by (simp add: jobs_of_def)
  then have dj: "distinct (jobs_of (wr_steps ?w))" using b by (simp add: body_ok_def)
  have "follows w ?w" using r by (simp add: follows_def next_revision_ok)
  then show ?thesis
    using c ds activate_simps(2) by (intro body_next [OF b] steps dj) (auto simp: advance_status review_error_fits_def)
qed

lemma header_advance:
  assumes "header_ok w" and "wr_current_step w < length (wr_steps w)"
  shows "header_ok (advance_current w res ds r now)"
  using assms advance_map [OF assms(2), of spec_of_step res ds r now] by (simp add: header_ok_def spec_of_step_def)

lemma extends_advance:
  assumes "wr_current_step w < length (wr_steps w)" and "next_revision w now = Ok r"
    and "ds = wr_decisions w \<or> (\<exists>d. ds = wr_decisions w @ [d] \<and> decided_revision d = wr_revision w)"
  shows "extends_run w (advance_current w res ds r now)"
  using assms advance_map [OF assms(1), of ws_kind res ds r now]
  by (auto simp: extends_run_def next_revision_ok advance_nth)

lemma advance_point:
  assumes "wr_current_step w < length (wr_steps w)" and "next_revision w now = Ok r"
    and "\<And>i. wr_current_step w < i \<Longrightarrow> i < length (wr_steps w) \<Longrightarrow> ws_attempt (wr_steps w ! i) = 0 \<and> ws_job_id (wr_steps w ! i) = None"
    and "rp_step st = wr_current_step w" and "rp_decision st = length ds" and "rp_revision st = Suc (unat (wr_revision w))"
  shows "replay_advance (advance_current w res ds r now) st = current_point (advance_current w res ds r now)"
  using assms by (intro ReplayState.equality)
    (auto simp: replay_advance_def current_point_def Let_def advance_nth next_revision_ok nth_opt_def)

lemma advance_completes:
  assumes b: "body_ok w" and c: "wr_current_step w < length (wr_steps w)"
  shows "replay_can_complete (advance_current w res ds r now) (current_point w) res"
  using assms by (cases "ws_job_id (current_step w)")
    (auto simp: replay_can_complete_def replay_matches_attempt_def nth_opt_def advance_nth current_point_def Let_def
      body_ok_def step_fits_def)

lemma later_fresh:
  assumes "body_ok w" and "wr_status w \<noteq> WfCancelled" and "wr_current_step w < i" and "i < length (wr_steps w)"
  shows "ws_attempt (wr_steps w ! i) = 0 \<and> ws_job_id (wr_steps w ! i) = None \<and> ws_status (wr_steps w ! i) = WsPending \<and>
    ws_attempts (wr_steps w ! i) = [] \<and> ws_result (wr_steps w ! i) = None"
  using assms by (auto simp: body_ok_def step_fits_def place_check_def result_check_def)

lemma advance_valid:
  assumes v: "WorkflowRun_validate w = Ok ()" and st: "wr_status w \<notin> {WfCompleted, WfCancelled}"
    and r: "next_revision w now = Ok r" and b': "body_ok (advance_current w res ds r now)"
    and ds: "ds = wr_decisions w \<or> (\<exists>d. ds = wr_decisions w @ [d] \<and> decided_revision d = wr_revision w)"
    and step: "replay_step (advance_current w res ds r now) (current_point w) (current_point (advance_current w res ds r now))"
  shows "WorkflowRun_validate (advance_current w res ds r now) = Ok ()"
proof -
  have w: "header_ok w" "body_ok w" "replay_reaches w (replay_start w)" using v by (auto simp: workflow_valid_iff)
  have c: "wr_current_step w < length (wr_steps w)" using body_current(1) [OF w(2)] st by simp
  have "wr_status (advance_current w res ds r now) \<noteq> WfCancelled" using activate_simps(2) by (auto simp: advance_status [OF c])
  then have "replay_reaches (advance_current w res ds r now) (replay_start (advance_current w res ds r now))"
    using history_extends [OF extends_advance [OF c r ds] w(2) b' st w(3)] step by simp
  then show ?thesis using header_advance [OF w(1) c] b' by (simp add: workflow_valid_iff)
qed

lemma complete_valid:
  assumes "complete_task w result now = Ok w'"
  shows "WorkflowRun_validate w' = Ok ()"
proof -
  obtain r where v: "WorkflowRun_validate w = Ok ()" and st: "wr_status w = WfRunning" "ws_status (current_step w) = WsRunning"
    and res: "length result \<le> MAX_WORKFLOW_RESULT_BYTES" and r: "next_revision w now = Ok r"
    and w': "w' = (complete_current (Some result) w)\<lparr>wr_revision := r, wr_updated_at_ms := now\<rparr>"
    using assms by (auto simp: complete_task_def not_less split: if_splits)
  have b: "body_ok w" using v by (simp add: workflow_valid_iff)
  have c: "wr_current_step w < length (wr_steps w)" "ws_kind (current_step w) = TaskStep"
    using body_current [OF b] st by (auto simp: current_step_valid_def)
  have "wr_error (complete_current (Some result) w) = None" "wr_decisions (complete_current (Some result) w) = wr_decisions w"
    using running_error [OF b] st
    by (auto simp: complete_current_def activate_current_step_def set_current_def split: option.splits)
  then have w'_eq: "w' = advance_current w (Some result) (wr_decisions w) r now" by (simp add: w' advance_current_def)
  let ?w = "advance_current w (Some result) (wr_decisions w) r now"
  have "replay_step ?w (current_point w) (current_point ?w)"
    using c st r advance_completes [OF b c(1), of "Some result" "wr_decisions w" r now]
      advance_point [OF c(1) r, of "(current_point w)\<lparr>rp_revision := Suc (unat (wr_revision w))\<rparr>" "wr_decisions w"]
      later_fresh [OF b]
    by (auto simp: replay_step_def replay_moves_def replay_work_iff Let_def current_point_def nth_opt_def advance_nth
        next_revision_ok replay_stale_def)
  then show ?thesis unfolding w'_eq using st c res
    by (intro advance_valid [OF v _ r body_advance [OF b _ r]]) (auto simp: result_check_def)
qed

lemma find_decision_None:
  assumes "body_ok w" and "wq_revision q = wr_revision w"
  shows "find (\<lambda>saved. decided_revision saved = wq_revision q) (wr_decisions w) = None"
  using assms by (auto simp: find_None_iff body_ok_def decisions_loop_ok decision_fits_def)

text \<open>What a decision does to the run, apart from the record it leaves.\<close>

definition decide_current :: "WorkflowRun \<Rightarrow> WorkflowResumeRequest \<Rightarrow> u64 \<Rightarrow> u64 \<Rightarrow> WorkflowRun" where
  "decide_current w q r now =
     (let ds = wr_decisions w @ [\<lparr>wd_step_index = wr_current_step w, wd_request = q, wd_decided_at_ms = now\<rparr>] in
      if wq_action q = Retry
      then change_current w ((current_step w)\<lparr>ws_status := WsPending, ws_job_id := None\<rparr>) WfRunning None ds r now
      else advance_current w (wq_value q) ds r now)"

lemma resume_ok:
  "workflow_resume w q now = Ok (True, w') \<longleftrightarrow> WorkflowRun_validate w = Ok () \<and> wq_revision q = wr_revision w \<and>
     validate_resume_request q = Ok () \<and> length (wr_decisions w) < MAX_WORKFLOW_DECISIONS \<and>
     action_fits (wq_action q) (wr_status w) \<and>
     (wq_action q = Retry \<longrightarrow> ws_attempt (current_step w) < MAX_WORKFLOW_ATTEMPTS) \<and>
     (\<exists>r. next_revision w now = Ok r \<and> w' = decide_current w q r now)"
proof (cases "WorkflowRun_validate w = Ok () \<and> wq_revision q = wr_revision w")
  case True
  then have "find (\<lambda>saved. decided_revision saved = wr_revision w) (wr_decisions w) = None"
    using find_decision_None [of w q] by (simp add: workflow_valid_iff)
  with True show ?thesis
    by (auto simp: workflow_resume_def decide_current_def change_current_def advance_current_def set_current_def Let_def
        not_le complete_current_def activate_current_step_def split: option.splits)
next
  case False
  then show ?thesis by (auto simp: workflow_resume_def split: option.splits if_splits)
qed

lemma decide_body:
  assumes b: "body_ok w" and q: "wq_revision q = wr_revision w" "validate_resume_request q = Ok ()"
    and n: "length (wr_decisions w) < MAX_WORKFLOW_DECISIONS" and a: "action_fits (wq_action q) (wr_status w)"
    and r: "next_revision w now = Ok r"
  shows "body_ok (decide_current w q r now)"
proof -
  have st: "wr_status w \<notin> {WfCompleted, WfCancelled}" using a by (auto simp: action_fits_def split: WorkflowResumeAction.splits)
  note c = body_current [OF b]
  have x: "step_fits w (wr_current_step w) (current_step w)" "wr_current_step w < length (wr_steps w)"
    "current_step_valid (wr_status w) (current_step w)" using c st by auto
  show ?thesis
  proof (cases "wq_action q = Retry")
    case True
    then show ?thesis
      using x a q n st unfolding decide_current_def Let_def
      by (simp, intro body_change [OF b _ _ r, where js = "[]"])
        (auto simp: step_fits_def place_check_def change_current_def current_step_valid_def result_check_def action_fits_def)
  next
    case False
    have "result_check ((current_step w)\<lparr>ws_result := wq_value q, ws_status := WsCompleted\<rparr>) = Ok ()"
      using x(3) a q(2) False
      by (cases "wq_action q"; cases "wq_value q")
        (auto simp: result_check_def action_fits_def current_step_valid_def validate_resume_request_def
          MAX_WORKFLOW_RESULT_BYTES_def MAX_WORKFLOW_INPUT_BYTES_def split: if_splits)
    then show ?thesis
      using False x q n st unfolding decide_current_def Let_def by (simp, intro body_advance [OF b _ r]) auto
  qed
qed

lemma decide_replay:
  assumes b: "body_ok w" and q: "wq_revision q = wr_revision w" "validate_resume_request q = Ok ()"
    and a: "action_fits (wq_action q) (wr_status w)" and r: "next_revision w now = Ok r"
    and t: "wq_action q = Retry \<longrightarrow> ws_attempt (current_step w) < MAX_WORKFLOW_ATTEMPTS"
  shows "replay_step (decide_current w q r now) (current_point w) (current_point (decide_current w q r now))"
proof -
  let ?d = "\<lparr>wd_step_index = wr_current_step w, wd_request = q, wd_decided_at_ms = now\<rparr>"
  let ?ds = "wr_decisions w @ [?d]"
  have st: "wr_status w \<notin> {WfCompleted, WfCancelled}" using a by (auto simp: action_fits_def split: WorkflowResumeAction.splits)
  note c = body_current [OF b]
  have x: "wr_current_step w < length (wr_steps w)" "current_step_valid (wr_status w) (current_step w)" using c st by auto
  have ds: "wr_decisions (decide_current w q r now) = ?ds" "wr_revision (decide_current w q r now) = r"
    "length (wr_steps (decide_current w q r now)) = length (wr_steps w)"
    by (simp_all add: decide_current_def change_current_def Let_def)
  have pt: "rp_decision (current_point w) = length (wr_decisions w)" "rp_revision (current_point w) = unat (wr_revision w)"
    "rp_step (current_point w) = wr_current_step w" "rp_phase (current_point w) = ws_status (current_step w)"
    using x(1) by (simp_all add: current_point_def Let_def)
  have "current_point (decide_current w q r now) \<in> set (replay_decide (decide_current w q r now) (current_point w) ?d)"
  proof (cases "wq_action q = Retry")
    case True
    then show ?thesis using x a t r unfolding replay_decide_iff Let_def
      by (auto simp: current_point_def decide_current_def change_current_def Let_def action_fits_def current_step_valid_def
          next_revision_ok word_less_nat_alt)
  next
    case False
    then have dc: "decide_current w q r now = advance_current w (wq_value q) ?ds r now" by (simp add: decide_current_def Let_def)
    have "settles (ws_status (current_step w)) (wq_action q)"
      using x(2) a False by (cases "wq_action q") (auto simp: action_fits_def current_step_valid_def settles_def)
    moreover have "wq_action q = Approve \<Longrightarrow> wq_value q = None"
      using q(2) by (auto simp: validate_resume_request_def split: if_splits)
    moreover note advance_completes [OF b x(1), of "wq_value q" ?ds r now]
    moreover have "current_point (decide_current w q r now) = replay_advance (decide_current w q r now)
        ((current_point w)\<lparr>rp_revision := Suc (rp_revision (current_point w)), rp_decision := Suc (rp_decision (current_point w))\<rparr>)"
      unfolding dc using later_fresh [OF b] st pt by (intro advance_point [OF x(1) r, symmetric]) auto
    ultimately show ?thesis unfolding replay_decide_iff Let_def pt dc by auto
  qed
  then show ?thesis using x r q(1) unfolding replay_step_def replay_moves_def replay_stale_def ds pt
    by (simp add: nth_opt_def ds pt next_revision_ok)
qed

lemma resume_valid:
  assumes "workflow_resume w q now = Ok (b, w')"
  shows "WorkflowRun_validate w' = Ok ()"
proof (cases b)
  case True
  obtain r where v: "WorkflowRun_validate w = Ok ()" and q: "wq_revision q = wr_revision w" "validate_resume_request q = Ok ()"
    and n: "length (wr_decisions w) < MAX_WORKFLOW_DECISIONS" and a: "action_fits (wq_action q) (wr_status w)"
    and t: "wq_action q = Retry \<longrightarrow> ws_attempt (current_step w) < MAX_WORKFLOW_ATTEMPTS"
    and r: "next_revision w now = Ok r" and w': "w' = decide_current w q r now"
    using assms True resume_ok [of w q now w'] by auto
  have st: "wr_status w \<notin> {WfCompleted, WfCancelled}" using a by (auto simp: action_fits_def split: WorkflowResumeAction.splits)
  have bw: "body_ok w" using v by (simp add: workflow_valid_iff)
  note body = decide_body [OF bw q n a r] and step = decide_replay [OF bw q a r t]
  show ?thesis
  proof (cases "wq_action q = Retry")
    case True
    then show ?thesis using body step st q unfolding w' decide_current_def Let_def
      by (simp, intro change_valid [OF v _ _ _ r]) (auto simp: spec_of_step_def)
  next
    case False
    then show ?thesis using body step st q unfolding w' decide_current_def Let_def
      by (simp, intro advance_valid [OF v _ r]) auto
  qed
next
  case False
  with assms show ?thesis
    by (auto simp: workflow_resume_def Let_def split: option.splits if_splits)
qed

text \<open>Cancelling marks every step from the current one on.\<close>

definition cancel_current :: "WorkflowRun \<Rightarrow> u64 \<Rightarrow> u64 \<Rightarrow> WorkflowRun" where
  "cancel_current w r now = w\<lparr>wr_steps := take (wr_current_step w) (wr_steps w)
       @ map (\<lambda>x. x\<lparr>ws_status := WsCancelled\<rparr>) (drop (wr_current_step w) (wr_steps w)),
     wr_status := WfCancelled, wr_error := None, wr_revision := r, wr_updated_at_ms := now\<rparr>"

lemma workflow_cancel_ok:
  "workflow_cancel w revision now = Ok (True, w') \<longleftrightarrow> WorkflowRun_validate w = Ok () \<and>
     wr_status w \<notin> {WfCompleted, WfCancelled} \<and> revision = wr_revision w \<and>
     (\<exists>r. next_revision w now = Ok r \<and> w' = cancel_current w r now)"
  by (auto simp: workflow_cancel_def cancel_current_def)

lemma cancel_nth:
  assumes "i < length (wr_steps w)"
  shows "wr_steps (cancel_current w r now) ! i =
    (if i < wr_current_step w then wr_steps w ! i else (wr_steps w ! i)\<lparr>ws_status := WsCancelled\<rparr>)"
  using assms by (auto simp: cancel_current_def nth_append)

lemma cancel_length: "wr_current_step w \<le> length (wr_steps w) \<Longrightarrow>
    length (wr_steps (cancel_current w r now)) = length (wr_steps w)"
  by (simp add: cancel_current_def)

lemma cancel_map:
  assumes "wr_current_step w \<le> length (wr_steps w)" and "\<And>x s. f (x\<lparr>ws_status := s\<rparr>) = f x"
  shows "map f (wr_steps (cancel_current w r now)) = map f (wr_steps w)"
  using assms by (intro nth_equalityI) (auto simp: cancel_nth cancel_length)

lemma cancel_fields [simp]:
  "wr_current_step (cancel_current w r now) = wr_current_step w" "wr_status (cancel_current w r now) = WfCancelled"
  "wr_decisions (cancel_current w r now) = wr_decisions w" "wr_revision (cancel_current w r now) = r"
  "wr_updated_at_ms (cancel_current w r now) = now" "wr_created_at_ms (cancel_current w r now) = wr_created_at_ms w"
  "wr_error (cancel_current w r now) = None"
  by (simp_all add: cancel_current_def)

lemma cancel_step_fits:
  assumes b: "body_ok w" and st: "wr_status w \<notin> {WfCompleted, WfCancelled}" and i: "i < length (wr_steps w)"
  shows "step_fits (cancel_current w r now) i (wr_steps (cancel_current w r now) ! i)"
proof -
  have fi: "step_fits w i (wr_steps w ! i)" using b i by (simp add: body_ok_def)
  show ?thesis
  proof (cases "i < wr_current_step w")
    case True
    then show ?thesis using i fi by (simp add: cancel_nth step_fits_def place_check_def)
  next
    case False
    have "ws_status (wr_steps w ! i) \<noteq> WsCompleted"
      using False body_current(4) [OF b] later_fresh [OF b _ _ i] st by (cases "i = wr_current_step w") auto
    then have "ws_result (wr_steps w ! i) = None" using fi by (simp add: step_fits_def result_check_def)
    moreover have "place_check (cancel_current w r now) i ((wr_steps w ! i)\<lparr>ws_status := WsCancelled\<rparr>) = Ok ()"
      using False later_fresh [OF b _ _ i] st by (simp add: place_check_def current_step_valid_def)
    ultimately show ?thesis using False fi i by (simp add: cancel_nth step_fits_def result_check_def)
  qed
qed

lemma cancel_body:
  assumes b: "body_ok w" and st: "wr_status w \<notin> {WfCompleted, WfCancelled}" and r: "next_revision w now = Ok r"
  shows "body_ok (cancel_current w r now)"
proof -
  have c: "wr_current_step w < length (wr_steps w)" using body_current(1) [OF b] st by simp
  have "map ws_attempts (wr_steps (cancel_current w r now)) = map ws_attempts (wr_steps w)"
    using c by (intro cancel_map) simp_all
  then have "distinct (jobs_of (wr_steps (cancel_current w r now)))" using b by (simp add: jobs_of_def body_ok_def)
  moreover have "follows w (cancel_current w r now)" using r c by (simp add: follows_def next_revision_ok cancel_length)
  ultimately show ?thesis
    using c by (intro body_next [OF b] cancel_step_fits [OF b st]) (auto simp: review_error_fits_def cancel_length)
qed

lemma cancel_goal:
  assumes b: "body_ok w" and st: "wr_status w \<notin> {WfCompleted, WfCancelled}" and r: "next_revision w now = Ok r"
  shows "replay_goal (cancel_current w r now) (current_point w)"
proof -
  have c: "wr_current_step w < length (wr_steps w)" "step_fits w (wr_current_step w) (current_step w)"
    using body_current [OF b] st by auto
  have "replay_matches_attempt (cancel_current w r now) (current_point w)"
    using c by (cases "ws_job_id (current_step w)")
      (auto simp: replay_matches_attempt_def current_point_def Let_def nth_opt_def cancel_nth cancel_length step_fits_def)
  then show ?thesis
    using r by (simp add: replay_goal_def replay_stale_def replay_accepts_def next_revision_ok)
      (simp add: current_point_def Let_def nth_opt_def)
qed

lemma cancel_valid:
  assumes "workflow_cancel w revision now = Ok (b, w')"
  shows "WorkflowRun_validate w' = Ok ()"
proof (cases b)
  case True
  obtain r where v: "WorkflowRun_validate w = Ok ()" and st: "wr_status w \<notin> {WfCompleted, WfCancelled}"
    and r: "next_revision w now = Ok r" and w': "w' = cancel_current w r now"
    using assms True workflow_cancel_ok [of w revision now w'] by auto
  have w: "header_ok w" "body_ok w" "replay_reaches w (replay_start w)" using v by (auto simp: workflow_valid_iff)
  have c: "wr_current_step w < length (wr_steps w)" using body_current(1) [OF w(2)] st by simp
  have kinds: "map ws_kind (wr_steps w') = map ws_kind (wr_steps w)"
    and specs: "map spec_of_step (wr_steps w') = map spec_of_step (wr_steps w)"
    unfolding w' using c by (intro cancel_map; simp add: spec_of_step_def)+
  have "extends_run w w'"
    unfolding extends_run_def kinds using r c by (simp add: w' cancel_nth next_revision_ok)
  then have "replay_reaches w' (replay_start w')"
    using history_extends [of w w'] w cancel_body [OF w(2) st r] cancel_goal [OF w(2) st r] st by (simp add: w')
  moreover have "header_ok w'" using w(1) unfolding header_ok_def specs by (simp add: w' cancel_current_def)
  ultimately show ?thesis using cancel_body [OF w(2) st r] by (simp add: workflow_valid_iff w')
next
  case False
  with assms show ?thesis by (auto simp: workflow_cancel_def Let_def split: if_splits)
qed

section \<open>New runs\<close>

definition new_run :: "string \<Rightarrow> string \<Rightarrow> WorkflowInput \<Rightarrow> u64 \<Rightarrow> WorkflowRun" where
  "new_run i agent_id input now = activate_current_step
     \<lparr>wr_id = i, wr_agent_id = agent_id, wr_title = wi_title input,
      wr_request_key = wi_request_key input, wr_status = WfRunning, wr_revision = 1,
      wr_current_step = 0, wr_steps = map fresh_step (wi_steps input), wr_decisions = [],
      wr_created_at_ms = now, wr_updated_at_ms = now, wr_error = None, wr_source_template = None\<rparr>"

lemma new_run_fields:
  assumes "wi_steps input \<noteq> []"
  shows "wr_steps (new_run i a input now) = (let k = wsp_kind (wi_steps input ! 0) in
      (map fresh_step (wi_steps input))[0 := (fresh_step (wi_steps input ! 0))\<lparr>ws_status := initial_phase k\<rparr>])"
    and "wr_status (new_run i a input now) = fst (activate (wsp_kind (wi_steps input ! 0)))"
  using assms by (auto simp: new_run_def activate_current_step_def nth_opt_def activate_simps Let_def fresh_step_def)

lemma new_run_simps [simp]:
  "wr_id (new_run i a input now) = i" "wr_agent_id (new_run i a input now) = a"
  "wr_title (new_run i a input now) = wi_title input" "wr_request_key (new_run i a input now) = wi_request_key input"
  "wr_revision (new_run i a input now) = 1" "wr_current_step (new_run i a input now) = 0"
  "wr_decisions (new_run i a input now) = []" "wr_created_at_ms (new_run i a input now) = now"
  "wr_updated_at_ms (new_run i a input now) = now" "wr_error (new_run i a input now) = None"
  "wr_source_template (new_run i a input now) = None" "length (wr_steps (new_run i a input now)) = length (wi_steps input)"
  by (auto simp: new_run_def activate_current_step_def split: option.splits)

lemma spec_fresh [simp]: "spec_of_step (fresh_step s) = s" "spec_of_step (x\<lparr>ws_status := p\<rparr>) = spec_of_step x"
  by (simp_all add: spec_of_step_def fresh_step_def)

lemma new_run_header:
  assumes "validate_definition input = Ok ()" and "validate_reference i ''workflow ID'' = Ok ()"
    and "validate_reference a ''agent ID'' = Ok ()"
  shows "header_ok (new_run i a input now)"
proof -
  have ne: "wi_steps input \<noteq> []" using assms(1) by (auto simp: validate_definition_def split: if_splits)
  then have "map spec_of_step (wr_steps (new_run i a input now)) = wi_steps input"
    by (simp add: new_run_fields Let_def map_update comp_def list_update_same_conv)
  then show ?thesis using assms by (cases input) (simp add: header_ok_def)
qed

lemma new_run_body:
  assumes "wi_steps input \<noteq> []"
  shows "body_ok (new_run i a input now)"
proof -
  let ?w = "new_run i a input now"
  have "step_fits ?w k (wr_steps ?w ! k)" if "k < length (wi_steps input)" for k
    using that assms
    by (cases k; cases "wsp_kind (wi_steps input ! 0)")
      (auto simp: new_run_fields Let_def step_fits_def fresh_step_def place_check_def current_step_valid_def
        result_check_def last_opt_def)
  moreover have "jobs_of (wr_steps ?w) = []"
    by (auto simp: new_run_fields [OF assms] Let_def jobs_of_def set_update_memI fresh_step_def dest!: set_update_subset_insert [THEN subsetD])
  ultimately show ?thesis
    using assms activate_simps(2) by (auto simp: body_ok_def review_error_fits_def new_run_fields)
qed

lemma new_run_valid:
  assumes "validate_definition input = Ok ()" and "validate_reference i ''workflow ID'' = Ok ()"
    and "validate_reference a ''agent ID'' = Ok ()"
  shows "WorkflowRun_validate (new_run i a input now) = Ok ()"
proof -
  let ?w = "new_run i a input now"
  have ne: "wi_steps input \<noteq> []" using assms(1) by (auto simp: validate_definition_def split: if_splits)
  have b: "body_ok ?w" using ne by (rule new_run_body)
  have "current_point ?w = replay_start ?w"
    using ne by (simp add: current_point_def replay_start_def Let_def new_run_fields fresh_step_def)
  moreover have "wr_status ?w \<noteq> WfCancelled" using activate_simps(2) by (simp add: new_run_fields ne)
  ultimately have "replay_reaches ?w (replay_start ?w)"
    using current_point_goal [OF b] by (auto simp: replay_reaches_def)
  then show ?thesis using new_run_header [OF assms] b by (simp add: workflow_valid_iff)
qed

lemma new_ok_iff:
  "WorkflowRun_new i a input now = Ok w \<longleftrightarrow> validate_definition input = Ok () \<and>
     validate_reference i ''workflow ID'' = Ok () \<and> validate_reference a ''agent ID'' = Ok () \<and> w = new_run i a input now"
proof -
  have "header_ok (new_run i a input now) \<Longrightarrow> validate_reference i ''workflow ID'' = Ok () \<and> validate_reference a ''agent ID'' = Ok ()"
    by (simp add: header_ok_def)
  then show ?thesis using new_run_valid [of input i a now]
    by (auto simp: WorkflowRun_new_def new_run_def [symmetric] workflow_valid_iff)
qed

text \<open>A pin changes nothing but the header.\<close>

lemma pinned_body: "body_ok (w\<lparr>wr_source_template := t\<rparr>) = body_ok w"
proof -
  have f: "step_fits (w\<lparr>wr_source_template := t\<rparr>) i x = step_fits w i x" for i x
    by (simp add: step_fits_def place_check_def)
  show ?thesis unfolding body_ok_def decisions_loop_ok by (simp add: f decision_fits_def review_error_fits_def cong: option.case_cong)
qed

lemma pinned_reaches: "replay_reaches (w\<lparr>wr_source_template := t\<rparr>) = replay_reaches w"
proof -
  let ?w = "w\<lparr>wr_source_template := t\<rparr>"
  have m: "replay_matches_attempt ?w = replay_matches_attempt w" "replay_advance ?w = replay_advance w"
    "replay_stale ?w = replay_stale w"
    by (simp_all add: fun_eq_iff replay_matches_attempt_def replay_advance_def replay_stale_def cong: option.case_cong)
  then have c: "replay_can_complete ?w = replay_can_complete w" "replay_matches_current ?w = replay_matches_current w"
    by (simp_all add: fun_eq_iff replay_can_complete_def replay_matches_current_def)
  have dw: "replay_decide ?w st d = replay_decide w st d" "replay_work ?w st x = replay_work w st x" for st d x
    unfolding replay_decide_def replay_work_def m c by (rule refl)+
  have f: "wr_steps ?w = wr_steps w" "wr_decisions ?w = wr_decisions w" "wr_revision ?w = wr_revision w" by simp_all
  have "replay_moves ?w = replay_moves w" by (rule ext) (unfold replay_moves_def f dw, rule refl)
  with m c have "replay_step ?w = replay_step w" "replay_goal ?w = replay_goal w"
    by (simp_all add: fun_eq_iff replay_step_def replay_goal_def replay_accepts_def)
  then show ?thesis by (intro ext) (simp add: replay_reaches_def)
qed

lemma pinned_valid:
  assumes "WorkflowRun_validate w = Ok ()" and "WorkflowTemplateSource_validate t (wr_request_key w) = Ok ()"
  shows "WorkflowRun_validate (w\<lparr>wr_source_template := Some t\<rparr>) = Ok ()"
  using assms by (simp add: workflow_valid_iff pinned_body pinned_reaches header_ok_def) (simp add: replay_start_def)

section \<open>Reachable runs\<close>

text \<open>One call that succeeds, and the runs a sequence of calls produces.\<close>

inductive workflow_step :: "WorkflowRun \<Rightarrow> WorkflowRun \<Rightarrow> bool" where
  attach: "attach_job w job now = Ok w' \<Longrightarrow> workflow_step w w'"
| complete: "complete_task w result now = Ok w' \<Longrightarrow> workflow_step w w'"
| review: "needs_review w why now = Ok w' \<Longrightarrow> workflow_step w w'"
| resume: "workflow_resume w q now = Ok (changed, w') \<Longrightarrow> workflow_step w w'"
| cancel: "workflow_cancel w revision now = Ok (changed, w') \<Longrightarrow> workflow_step w w'"

inductive workflow_reachable :: "WorkflowRun \<Rightarrow> bool" where
  new: "WorkflowRun_new i a input now = Ok w \<Longrightarrow> workflow_reachable w"
| pinned: "WorkflowRun_new i a input now = Ok w \<Longrightarrow> WorkflowTemplateSource_validate t (wi_request_key input) = Ok () \<Longrightarrow>
    workflow_reachable (w\<lparr>wr_source_template := Some t\<rparr>)"
| step: "workflow_reachable w \<Longrightarrow> workflow_step w w' \<Longrightarrow> workflow_reachable w'"

inductive_cases workflow_stepE: "workflow_step w w'"

lemma step_valid: "workflow_step w w' \<Longrightarrow> WorkflowRun_validate w' = Ok ()"
  by (erule workflow_stepE) (auto intro: attach_valid complete_valid review_valid resume_valid cancel_valid)

lemma reachable_valid: "workflow_reachable w \<Longrightarrow> WorkflowRun_validate w = Ok ()"
proof (induction rule: workflow_reachable.induct)
  case (new i a input now w)
  then show ?case by (simp add: WorkflowRun_new_def)
next
  case (pinned i a input now w t)
  then have "WorkflowRun_validate w = Ok ()" "wr_request_key w = wi_request_key input"
    by (simp_all add: WorkflowRun_new_def new_ok_iff) (auto simp: activate_current_step_def split: option.splits)
  then show ?case using pinned(2) by (intro pinned_valid) simp_all
qed (rule step_valid)

end
