(* ===== verification/Workflow_Exact.thy ===== *)
theory Workflow_Exact
  imports Workflow_Replay Step_System
begin

text \<open>
  A valid run can be rebuilt: every point of the history that \<open>validate\<close> finds is a run that the
  operations produce, and the last point is the saved run. With the preservation lemmas this makes
  \<open>validate\<close> an exact test of reachability. The promises of a workflow follow: how often a task is
  attempted, in what order steps run, what a repeated request answers.
\<close>

section \<open>The run at a point of its history\<close>

fun status_at :: "WorkflowStepStatus \<Rightarrow> WorkflowStatus" where
  "status_at WsPending = WfRunning"
| "status_at WsRunning = WfRunning"
| "status_at WsAwaitingApproval = WfAwaitingApproval"
| "status_at WsAwaitingInput = WfAwaitingInput"
| "status_at WsNeedsReview = WfNeedsReview"
| "status_at WsCompleted = WfCompleted"
| "status_at WsCancelled = WfCancelled"

definition step_at :: "ReplayState \<Rightarrow> nat \<Rightarrow> WorkflowStep \<Rightarrow> WorkflowStep" where
  "step_at st i x =
     (if i < rp_step st then x
      else if i = rp_step st then
        (let js = take (rp_attempt st) (ws_attempts x) in
         x\<lparr>ws_status := rp_phase st, ws_attempt := of_nat (rp_attempt st), ws_attempts := js,
           ws_job_id := (if rp_attached st then last_opt js else None), ws_result := None\<rparr>)
      else fresh_step (spec_of_step x))"

definition run_at :: "WorkflowRun \<Rightarrow> ReplayState \<Rightarrow> string \<Rightarrow> u64 \<Rightarrow> WorkflowRun" where
  "run_at w st e t = w\<lparr>
     wr_status := (if rp_step st < length (wr_steps w) then status_at (rp_phase st) else WfCompleted),
     wr_revision := of_nat (rp_revision st), wr_current_step := rp_step st,
     wr_steps := map (\<lambda>i. step_at st i (wr_steps w ! i)) [0..<length (wr_steps w)],
     wr_decisions := take (rp_decision st) (wr_decisions w), wr_updated_at_ms := t,
     wr_error := (if rp_phase st = WsNeedsReview then Some e else None)\<rparr>"

lemma run_at_simps [simp]:
  "wr_current_step (run_at w st e t) = rp_step st" "length (wr_steps (run_at w st e t)) = length (wr_steps w)"
  "wr_decisions (run_at w st e t) = take (rp_decision st) (wr_decisions w)"
  "wr_revision (run_at w st e t) = of_nat (rp_revision st)" "wr_updated_at_ms (run_at w st e t) = t"
  "i < length (wr_steps w) \<Longrightarrow> wr_steps (run_at w st e t) ! i = step_at st i (wr_steps w ! i)"
  by (simp_all add: run_at_def)

text \<open>When the run may have reached a point: not before the last decision, and exactly then if it was the last event.\<close>

definition last_time :: "WorkflowRun \<Rightarrow> ReplayState \<Rightarrow> u64" where
  "last_time w st = (if rp_decision st = 0 then wr_created_at_ms w
     else wd_decided_at_ms (wr_decisions w ! (rp_decision st - 1)))"

definition time_ok :: "WorkflowRun \<Rightarrow> ReplayState \<Rightarrow> u64 \<Rightarrow> bool" where
  "time_ok w st t \<longleftrightarrow> last_time w st \<le> t \<and> (rp_revision st = 1 \<longrightarrow> t = wr_created_at_ms w) \<and>
     (rp_decision st > 0 \<and> Suc (unat (decided_revision (wr_decisions w ! (rp_decision st - 1)))) = rp_revision st \<longrightarrow>
        t = last_time w st)"

definition phase_fits :: "WorkflowStepKind \<Rightarrow> WorkflowStepStatus \<Rightarrow> bool" where
  "phase_fits k p \<longleftrightarrow> p = initial_phase k \<or> k = TaskStep \<and> p \<in> {WsPending, WsRunning, WsNeedsReview}"

text \<open>What holds along a history of a valid run.\<close>

definition past_ok :: "WorkflowRun \<Rightarrow> ReplayState \<Rightarrow> bool" where
  "past_ok w st \<longleftrightarrow> 0 < rp_revision st \<and> rp_revision st \<le> unat (wr_revision w) \<and>
     rp_decision st \<le> length (wr_decisions w) \<and>
     (\<forall>k<rp_decision st. unat (decided_revision (wr_decisions w ! k)) < rp_revision st) \<and>
     (rp_step st < length (wr_steps w) \<longrightarrow> phase_fits (ws_kind (wr_steps w ! rp_step st)) (rp_phase st) \<and>
        rp_attempt st \<le> length (ws_attempts (wr_steps w ! rp_step st)))"

lemma last_time_ok: "body_ok w \<Longrightarrow> past_ok w st \<Longrightarrow> time_ok w st (last_time w st)"
proof -
  assume b: "body_ok w" and p: "past_ok w st"
  have "rp_decision st = 0" if "rp_revision st = 1"
  proof (rule ccontr)
    assume n: "rp_decision st \<noteq> 0"
    with p that have "unat (decided_revision (wr_decisions w ! 0)) < 1" "0 < length (wr_decisions w)"
      by (auto simp: past_ok_def)
    then have "decided_revision (wr_decisions w ! 0) = 0" by (simp add: unat_eq_0)
    moreover have "0 < decided_revision d" if "d \<in> set (wr_decisions w)" for d
      using b that by (auto simp: body_ok_def decisions_loop_ok)
    ultimately show False using \<open>0 < length (wr_decisions w)\<close> nth_mem by fastforce
  qed
  then show ?thesis by (auto simp: time_ok_def last_time_def)
qed

lemma initial_phase_fits [simp]: "phase_fits k (initial_phase k)"
  by (simp add: phase_fits_def)

lemma past_ok_step:
  assumes b: "body_ok w" and p: "past_ok w st" and step: "replay_step w st st'"
  shows "past_ok w st'"
proof -
  have lt: "rp_step st < length (wr_steps w)"
    using step by (auto simp: replay_step_def replay_moves_def nth_opt_def split: if_splits)
  have adv: "rp_step (replay_advance w s) < length (wr_steps w) \<Longrightarrow>
      phase_fits (ws_kind (wr_steps w ! rp_step (replay_advance w s))) (rp_phase (replay_advance w s)) \<and>
      rp_attempt (replay_advance w s) = 0" for s
    by (simp add: replay_advance_def nth_opt_def)
  have adv': "rp_decision (replay_advance w s) = rp_decision s" "rp_revision (replay_advance w s) = rp_revision s" for s
    by (simp_all add: replay_advance_def)
  have task: "ws_kind (wr_steps w ! rp_step st) = TaskStep" if "rp_phase st \<in> {WsPending, WsRunning, WsNeedsReview}"
    using p lt that by (cases "ws_kind (wr_steps w ! rp_step st)") (auto simp: past_ok_def phase_fits_def)
  consider (decide) d where "rp_decision st < length (wr_decisions w)" "d = wr_decisions w ! rp_decision st"
      "unat (decided_revision d) = rp_revision st" "st' \<in> set (replay_decide w st d)"
    | (work) "rp_revision st < unat (wr_revision w)" "st' \<in> set (replay_work w st (wr_steps w ! rp_step st))"
    using step lt by (auto simp: replay_step_def replay_moves_def nth_opt_def split: if_splits)
  then show ?thesis
  proof cases
    case decide
    have "decided_revision d < wr_revision w"
      using b decide(1,2) nth_mem by (auto simp: body_ok_def decisions_loop_ok decision_fits_def)
    then have "rp_revision st < unat (wr_revision w)" using decide(3) by (simp add: word_less_nat_alt)
    moreover have "\<forall>k<Suc (rp_decision st). unat (decided_revision (wr_decisions w ! k)) < Suc (rp_revision st)"
      using p decide(2,3) by (auto simp: past_ok_def less_Suc_eq)
    ultimately show ?thesis
      using decide p lt adv task unfolding replay_decide_iff Let_def past_ok_def
      by (auto simp: adv' phase_fits_def)
  next
    case work
    then show ?thesis
      using p lt adv task unfolding replay_work_iff Let_def past_ok_def by (auto simp: adv' phase_fits_def less_Suc_eq)
  qed
qed

lemma past_ok_start: "body_ok w \<Longrightarrow> wr_steps w \<noteq> [] \<Longrightarrow> past_ok w (replay_start w)"
  by (auto simp: past_ok_def replay_start_def body_ok_def Suc_le_eq unat_gt_0)

lemma past_ok_history:
  "(replay_step w)\<^sup>*\<^sup>* (replay_start w) st \<Longrightarrow> body_ok w \<Longrightarrow> wr_steps w \<noteq> [] \<Longrightarrow> past_ok w st"
  by (induction rule: rtranclp_induct) (auto simp: past_ok_start intro: past_ok_step)

section \<open>Every event of a history is an operation\<close>

lemma run_at_current: "rp_step st < length (wr_steps w) \<Longrightarrow> current_step (run_at w st e t) = step_at st (rp_step st) (wr_steps w ! rp_step st)"
  by simp

lemma run_at_next:
  assumes "past_ok w st" and "rp_revision st < unat (wr_revision w)" and "t \<le> t'"
  shows "next_revision (run_at w st e t) t' = Ok (of_nat (Suc (rp_revision st)))"
proof -
  have "unat (wr_revision w) < 2 ^ 64" using unsigned_less [of "wr_revision w", where 'a = nat] by simp
  then have n: "Suc (rp_revision st) < 2 ^ 64" using assms(2) by simp
  then have "unat (of_nat (Suc (rp_revision st)) :: u64) = Suc (rp_revision st)"
    by (simp add: unat_of_nat del: of_nat_Suc)
  with n show ?thesis using assms(3) by (simp add: next_revision_ok unat_of_nat)
qed

lemma jobs_disjoint:
  assumes "distinct (jobs_of xs)" and "i < j" and "j < length xs"
  shows "set (ws_attempts (xs ! i)) \<inter> set (ws_attempts (xs ! j)) = {}"
proof -
  have "xs = take j xs @ xs ! j # drop (Suc j) xs" using assms(3) by (rule id_take_nth_drop)
  then have "jobs_of xs = jobs_of (take j xs) @ ws_attempts (xs ! j) @ jobs_of (drop (Suc j) xs)"
    by (metis jobs_of_simps(2,3))
  moreover have "xs ! i \<in> set (take j xs)" using assms(2,3) by (auto simp: in_set_conv_nth intro!: exI [of _ i])
  then have "set (ws_attempts (xs ! i)) \<subseteq> set (jobs_of (take j xs))" by (auto simp: set_jobs_of)
  ultimately show ?thesis using assms(1) by auto
qed

lemma run_at_eqI:
  assumes "rp_step st \<le> length (wr_steps w)"
    and "wr_status w' = (if rp_step st < length (wr_steps w) then status_at (rp_phase st) else WfCompleted)"
    and "wr_revision w' = of_nat (rp_revision st)" and "wr_current_step w' = rp_step st"
    and "length (wr_steps w') = length (wr_steps w)"
    and "\<And>i. i < length (wr_steps w) \<Longrightarrow> wr_steps w' ! i = step_at st i (wr_steps w ! i)"
    and "wr_decisions w' = take (rp_decision st) (wr_decisions w)" and "wr_updated_at_ms w' = t"
    and "wr_error w' = (if rp_phase st = WsNeedsReview then Some e else None)"
    and "wr_id w' = wr_id w" "wr_agent_id w' = wr_agent_id w" "wr_title w' = wr_title w"
    "wr_request_key w' = wr_request_key w" "wr_created_at_ms w' = wr_created_at_ms w"
    "wr_source_template w' = wr_source_template w"
  shows "w' = run_at w st e t"
  using assms by (intro WorkflowRun.equality) (auto simp: run_at_def intro: nth_equalityI)

lemma body_attempts:
  assumes "body_ok w" and "i < length (wr_steps w)"
  shows "length (ws_attempts (wr_steps w ! i)) = unat (ws_attempt (wr_steps w ! i))"
    and "length (ws_attempts (wr_steps w ! i)) \<le> 3"
    and "\<And>j. j \<in> set (ws_attempts (wr_steps w ! i)) \<Longrightarrow> validate_reference j ''workflow job ID'' = Ok ()"
    and "distinct (ws_attempts (wr_steps w ! i))"
proof -
  have f: "step_fits w i (wr_steps w ! i)" and d: "distinct (jobs_of (wr_steps w))" using assms by (auto simp: body_ok_def)
  then show "length (ws_attempts (wr_steps w ! i)) = unat (ws_attempt (wr_steps w ! i))"
    and "\<And>j. j \<in> set (ws_attempts (wr_steps w ! i)) \<Longrightarrow> validate_reference j ''workflow job ID'' = Ok ()"
    by (auto simp: step_fits_def)
  then show "length (ws_attempts (wr_steps w ! i)) \<le> 3"
    using f by (auto simp: step_fits_def MAX_WORKFLOW_ATTEMPTS_def word_le_nat_alt)
  show "distinct (ws_attempts (wr_steps w ! i))"
    using d assms(2) by (auto simp: jobs_of_def distinct_concat_iff)
qed

lemma rebuild_attach:
  assumes v: "WorkflowRun_validate (run_at w st e t) = Ok ()" and b: "body_ok w" and p: "past_ok w st"
    and lt: "rp_step st < length (wr_steps w)" and rev: "rp_revision st < unat (wr_revision w)" and t: "t \<le> t'"
    and ph: "rp_phase st = WsPending" and k: "rp_attempt st < length (ws_attempts (wr_steps w ! rp_step st))"
  shows "attach_job (run_at w st e t) (ws_attempts (wr_steps w ! rp_step st) ! rp_attempt st) t' =
    Ok (run_at w (st\<lparr>rp_revision := Suc (rp_revision st), rp_attempt := Suc (rp_attempt st), rp_attached := True,
      rp_phase := WsRunning\<rparr>) e' t')"
proof -
  let ?x = "wr_steps w ! rp_step st" and ?w = "run_at w st e t"
  let ?job = "ws_attempts ?x ! rp_attempt st"
  let ?st = "st\<lparr>rp_revision := Suc (rp_revision st), rp_attempt := Suc (rp_attempt st), rp_attached := True,
      rp_phase := WsRunning\<rparr>"
  note att = body_attempts [OF b lt]
  have "\<not> list_ex (\<lambda>x. ?job \<in> set (ws_attempts x)) (wr_steps ?w)"
  proof -
    have "?job \<notin> set (ws_attempts (step_at st i (wr_steps w ! i)))" if "i < length (wr_steps w)" for i
    proof (cases i "rp_step st" rule: linorder_cases)
      case less
      then show ?thesis
        using jobs_disjoint [of "wr_steps w", OF _ less lt] b k nth_mem by (fastforce simp: step_at_def body_ok_def)
    next
      case equal
      then show ?thesis using att(4) k by (auto simp: step_at_def Let_def in_set_conv_nth nth_eq_iff_index_eq)
    qed (simp add: step_at_def fresh_step_def)
    then show ?thesis by (auto simp: list_ex_iff in_set_conv_nth)
  qed
  moreover have "of_nat (rp_attempt st) < MAX_WORKFLOW_ATTEMPTS"
    using k att(2) by (simp add: MAX_WORKFLOW_ATTEMPTS_def word_less_nat_alt unat_of_nat)
  moreover have "wr_status ?w = WfRunning" using lt ph by (simp add: run_at_def)
  ultimately have ok: "attach_job ?w ?job t' = Ok ((set_current ((current_step ?w)\<lparr>ws_attempt := ws_attempt (current_step ?w) + 1,
      ws_attempts := ws_attempts (current_step ?w) @ [?job], ws_job_id := Some ?job, ws_status := WsRunning\<rparr>) ?w)
      \<lparr>wr_revision := of_nat (Suc (rp_revision st)), wr_updated_at_ms := t'\<rparr>)"
    using v att(3) k ph lt run_at_next [OF p rev t]
    by (simp add: attach_job_def step_at_def Let_def)
  show ?thesis unfolding ok using lt ph k
    by (intro arg_cong [of _ _ Inr] run_at_eqI)
      (auto simp: set_current_def run_at_def step_at_def Let_def nth_list_update take_Suc_conv_app_nth last_opt_def)
qed

lemma rebuild_review:
  assumes v: "WorkflowRun_validate (run_at w st e t) = Ok ()" and p: "past_ok w st"
    and lt: "rp_step st < length (wr_steps w)" and rev: "rp_revision st < unat (wr_revision w)" and t: "t \<le> t'"
    and ph: "rp_phase st \<in> {WsPending, WsRunning}" and e': "\<not> blank e'" "length e' \<le> MAX_WORKFLOW_RESULT_BYTES"
  shows "needs_review (run_at w st e t) e' t' =
    Ok (run_at w (st\<lparr>rp_revision := Suc (rp_revision st), rp_phase := WsNeedsReview\<rparr>) e' t')"
proof -
  let ?w = "run_at w st e t"
  have "wr_status ?w = WfRunning" using lt ph by (auto simp: run_at_def)
  then have ok: "needs_review ?w e' t' = Ok ((set_current ((current_step ?w)\<lparr>ws_status := WsNeedsReview\<rparr>) ?w)
      \<lparr>wr_status := WfNeedsReview, wr_error := Some e', wr_revision := of_nat (Suc (rp_revision st)), wr_updated_at_ms := t'\<rparr>)"
    using v ph lt e' run_at_next [OF p rev t] by (auto simp: needs_review_def step_at_def Let_def)
  show ?thesis unfolding ok using lt ph
    by (intro arg_cong [of _ _ Inr] run_at_eqI)
      (auto simp: set_current_def run_at_def step_at_def Let_def nth_list_update)
qed

text \<open>A step that its history completes is saved with all that the point says, and nothing else.\<close>

lemma completed_step_at:
  assumes "body_ok w" and "rp_step st < length (wr_steps w)" and "replay_can_complete w st res"
  shows "(step_at st (rp_step st) (wr_steps w ! rp_step st))\<lparr>ws_result := res, ws_status := WsCompleted\<rparr> = wr_steps w ! rp_step st"
proof -
  let ?x = "wr_steps w ! rp_step st"
  have "length (ws_attempts ?x) = unat (ws_attempt ?x)" using body_attempts [OF assms(1,2)] by simp
  moreover have "ws_status ?x = WsCompleted" "ws_result ?x = res" "rp_attempt st = unat (ws_attempt ?x)"
    "ws_job_id ?x = (if rp_attached st then last_opt (ws_attempts ?x) else None)"
    using assms(2,3) by (auto simp: replay_can_complete_def replay_matches_attempt_def nth_opt_def)
  ultimately show ?thesis by (intro WorkflowStep.equality) (auto simp: step_at_def Let_def)
qed

lemma status_at_initial [simp]: "status_at (initial_phase k) = fst (activate k)" "initial_phase k \<noteq> WsNeedsReview"
  by (cases k; simp)+

lemma entered_step_at: "(fresh_step (spec_of_step x))\<lparr>ws_status := initial_phase (ws_kind x)\<rparr> =
    x\<lparr>ws_status := initial_phase (ws_kind x), ws_attempt := 0, ws_attempts := [], ws_job_id := None, ws_result := None\<rparr>"
  by (simp add: fresh_step_def spec_of_step_def)

lemma fresh_kind [simp]: "ws_kind (fresh_step (spec_of_step x)) = ws_kind x"
  by (simp add: fresh_step_def spec_of_step_def)

lemma rebuild_advance:
  assumes b: "body_ok w" and lt: "rp_step st < length (wr_steps w)" and c: "replay_can_complete w st res"
    and nx: "rp_step nx = rp_step st"
  shows "advance_current (run_at w st e t) res (take (rp_decision nx) (wr_decisions w)) (of_nat (rp_revision nx)) t' =
    run_at w (replay_advance w nx) e' t'"
proof (rule run_at_eqI)
  let ?w = "advance_current (run_at w st e t) res (take (rp_decision nx) (wr_decisions w)) (of_nat (rp_revision nx)) t'"
  have live: "wr_current_step (run_at w st e t) < length (wr_steps (run_at w st e t))" using lt by simp
  show "wr_status ?w = (if rp_step (replay_advance w nx) < length (wr_steps w) then status_at (rp_phase (replay_advance w nx)) else WfCompleted)"
    using lt nx unfolding advance_status [OF live] by (simp add: replay_advance_def nth_opt_def step_at_def)
  show "wr_steps ?w ! i = step_at (replay_advance w nx) i (wr_steps w ! i)" if "i < length (wr_steps w)" for i
  proof -
    have i: "i < length (wr_steps (run_at w st e t))" using that by simp
    have "wr_steps ?w ! i = (if i = rp_step st then (step_at st i (wr_steps w ! i))\<lparr>ws_result := res, ws_status := WsCompleted\<rparr>
        else if i = Suc (rp_step st) then (step_at st i (wr_steps w ! i))\<lparr>ws_status := initial_phase (ws_kind (step_at st i (wr_steps w ! i)))\<rparr>
        else step_at st i (wr_steps w ! i))"
      unfolding advance_nth [OF live i] using that by simp
    then show ?thesis
      using nx that completed_step_at [OF b lt c]
      by (auto simp: step_at_def replay_advance_def nth_opt_def entered_step_at Let_def last_opt_def)
  qed
qed (use lt nx in \<open>auto simp: replay_advance_def nth_opt_def run_at_def\<close>)

lemma rebuild_complete:
  assumes v: "WorkflowRun_validate (run_at w st e t) = Ok ()" and b: "body_ok w" and p: "past_ok w st"
    and lt: "rp_step st < length (wr_steps w)" and rev: "rp_revision st < unat (wr_revision w)" and t: "t \<le> t'"
    and ph: "rp_phase st = WsRunning" and c: "replay_can_complete w st (ws_result (wr_steps w ! rp_step st))"
  shows "\<exists>result. complete_task (run_at w st e t) result t' =
    Ok (run_at w (replay_advance w (st\<lparr>rp_revision := Suc (rp_revision st)\<rparr>)) e' t')"
proof -
  let ?x = "wr_steps w ! rp_step st" and ?w = "run_at w st e t"
  have "ws_kind ?x = TaskStep" using p lt ph by (cases "ws_kind ?x") (auto simp: past_ok_def phase_fits_def)
  moreover have "result_check ?x = Ok ()" "ws_status ?x = WsCompleted"
    using b lt c by (auto simp: body_ok_def step_fits_def replay_can_complete_def)
  ultimately obtain res where res: "ws_result ?x = Some res" "length res \<le> MAX_WORKFLOW_RESULT_BYTES"
    by (cases "ws_result ?x") (auto simp: result_check_def)
  have w: "wr_status ?w = WfRunning" "ws_status (current_step ?w) = WsRunning" "wr_error ?w = None"
    using lt ph by (simp_all add: run_at_def step_at_def Let_def)
  have "wr_error (complete_current (Some res) ?w) = None" "wr_decisions (complete_current (Some res) ?w) = wr_decisions ?w"
    using w(3) by (auto simp: complete_current_def activate_current_step_def set_current_def split: option.splits)
  then have "complete_task ?w res t' = Ok (advance_current ?w (Some res) (wr_decisions ?w) (of_nat (Suc (rp_revision st))) t')"
    using v w res run_at_next [OF p rev t] by (simp add: complete_task_def advance_current_def)
  also have "\<dots> = Ok (run_at w (replay_advance w (st\<lparr>rp_revision := Suc (rp_revision st)\<rparr>)) e' t')"
    using rebuild_advance [OF b lt, of "Some res" "st\<lparr>rp_revision := Suc (rp_revision st)\<rparr>" e t t' e'] c res by simp
  finally show ?thesis by blast
qed

lemma rebuild_decide:
  assumes v: "WorkflowRun_validate (run_at w st e t) = Ok ()" and b: "body_ok w" and p: "past_ok w st"
    and lt: "rp_step st < length (wr_steps w)" and d: "rp_decision st < length (wr_decisions w)" "d = wr_decisions w ! rp_decision st"
    and rev: "unat (decided_revision d) = rp_revision st" and st': "st' \<in> set (replay_decide w st d)"
    and t: "t \<le> wd_decided_at_ms d"
  shows "workflow_resume (run_at w st e t) (wd_request d) (wd_decided_at_ms d) = Ok (True, run_at w st' e' (wd_decided_at_ms d))"
proof -
  let ?w = "run_at w st e t" and ?q = "wd_request d" and ?now = "wd_decided_at_ms d"
  let ?nx = "st\<lparr>rp_revision := Suc (rp_revision st), rp_decision := Suc (rp_decision st)\<rparr>"
  have fits: "decision_fits w d" using b d nth_mem by (auto simp: body_ok_def decisions_loop_ok)
  then have less: "rp_revision st < unat (wr_revision w)" using rev by (simp add: decision_fits_def word_less_nat_alt)
  have q: "validate_resume_request ?q = Ok ()" using fits by (simp add: decision_fits_def)
  have r: "next_revision ?w ?now = Ok (of_nat (Suc (rp_revision st)))" by (rule run_at_next [OF p less t])
  have idx: "wd_step_index d = rp_step st" using st' by (auto simp: replay_decide_iff)
  have rv: "wq_revision ?q = wr_revision ?w" unfolding run_at_simps rev [symmetric] by simp
  have ds: "wr_decisions ?w @ [\<lparr>wd_step_index = wr_current_step ?w, wd_request = ?q, wd_decided_at_ms = ?now\<rparr>] =
      take (Suc (rp_decision st)) (wr_decisions w)"
    using d idx by (cases d) (simp add: take_Suc_conv_app_nth)
  have n: "length (wr_decisions ?w) < MAX_WORKFLOW_DECISIONS" using b d by (simp add: body_ok_def)
  have status: "wr_status ?w = status_at (rp_phase st)" using lt by (simp add: run_at_def)
  consider (retry) "rp_phase st = WsNeedsReview" "wq_action ?q = Retry" "rp_attempt st < unat MAX_WORKFLOW_ATTEMPTS"
      "st' = ?nx\<lparr>rp_phase := WsPending, rp_attached := False\<rparr>"
    | (settle) "settles (rp_phase st) (wq_action ?q)" "st' = replay_advance w ?nx"
      "replay_can_complete w st (if wq_action ?q = Approve then None else wq_value ?q)"
    using st' unfolding replay_decide_iff Let_def by auto
  then have "action_fits (wq_action ?q) (wr_status ?w) \<and>
    (wq_action ?q = Retry \<longrightarrow> ws_attempt (current_step ?w) < MAX_WORKFLOW_ATTEMPTS) \<and>
    decide_current ?w ?q (of_nat (Suc (rp_revision st))) ?now = run_at w st' e' ?now"
  proof cases
    case retry
    have "ws_attempt (current_step ?w) < MAX_WORKFLOW_ATTEMPTS"
      using retry(3) lt by (simp add: step_at_def Let_def word_less_nat_alt unat_of_nat MAX_WORKFLOW_ATTEMPTS_def)
    moreover have "decide_current ?w ?q (of_nat (Suc (rp_revision st))) ?now = run_at w st' e' ?now"
      using retry lt ds unfolding decide_current_def Let_def ds
      by (intro run_at_eqI) (auto simp: change_current_def run_at_def step_at_def Let_def nth_list_update)
    ultimately show ?thesis using retry status by (simp add: action_fits_def)
  next
    case settle
    have "wq_action ?q = Approve \<Longrightarrow> wq_value ?q = None" using q by (auto simp: validate_resume_request_def split: if_splits)
    then have c: "replay_can_complete w st (wq_value ?q)" using settle(3) by (auto split: if_splits)
    have "decide_current ?w ?q (of_nat (Suc (rp_revision st))) ?now = run_at w st' e' ?now"
      using settle rebuild_advance [OF b lt c, of ?nx e t ?now e'] unfolding decide_current_def Let_def ds
      by (auto simp: settles_def)
    then show ?thesis using settle(1) status by (auto simp: settles_def action_fits_def)
  qed
  then show ?thesis using v rv q n r by (auto simp: resume_ok)
qed

section \<open>A valid run is one that the operations produce\<close>

lemmas reachable_attach = workflow_reachable.step [OF _ workflow_step.attach]
lemmas reachable_complete = workflow_reachable.step [OF _ workflow_step.complete]
lemmas reachable_review = workflow_reachable.step [OF _ workflow_step.review]
lemmas reachable_resume = workflow_reachable.step [OF _ workflow_step.resume]
lemmas reachable_cancel = workflow_reachable.step [OF _ workflow_step.cancel]

lemma start_is_new:
  assumes "wr_steps w \<noteq> []"
  shows "run_at w (replay_start w) e (wr_created_at_ms w) =
    (new_run (wr_id w) (wr_agent_id w) (saved_definition w) (wr_created_at_ms w))\<lparr>wr_source_template := wr_source_template w\<rparr>"
proof -
  have k: "wsp_kind (map spec_of_step (wr_steps w) ! 0) = ws_kind (wr_steps w ! 0)" using assms by (simp add: spec_of_step_def)
  show ?thesis
    using assms
    by (intro run_at_eqI [symmetric])
      (auto simp: new_run_fields Let_def k replay_start_def step_at_def nth_list_update entered_step_at spec_of_step_def [of "wr_steps w ! 0"]
        last_opt_def fresh_step_def)
qed

lemma start_reachable:
  assumes "header_ok w" and "time_ok w (replay_start w) t"
  shows "workflow_reachable (run_at w (replay_start w) e t)"
proof -
  have t: "t = wr_created_at_ms w" using assms(2) by (simp add: time_ok_def replay_start_def)
  have new: "WorkflowRun_new (wr_id w) (wr_agent_id w) (saved_definition w) (wr_created_at_ms w) =
      Ok (new_run (wr_id w) (wr_agent_id w) (saved_definition w) (wr_created_at_ms w))"
    using assms(1) by (simp add: new_ok_iff header_ok_def)
  show ?thesis
  proof (cases "wr_source_template w")
    case None
    then have "run_at w (replay_start w) e t = new_run (wr_id w) (wr_agent_id w) (saved_definition w) (wr_created_at_ms w)"
      using header_step_count [OF assms(1)] unfolding t by (intro WorkflowRun.equality) (simp_all add: start_is_new)
    then show ?thesis using workflow_reachable.new [OF new] by simp
  next
    case (Some s)
    then have "WorkflowTemplateSource_validate s (wi_request_key (saved_definition w)) = Ok ()"
      using assms(1) by (simp add: header_ok_def)
    then show ?thesis using workflow_reachable.pinned [OF new] header_step_count [OF assms(1)] Some
      unfolding t by (simp add: start_is_new)
  qed
qed

lemma decision_times:
  assumes b: "body_ok w" and k: "rp_decision st < length (wr_decisions w)"
  shows "last_time w st \<le> wd_decided_at_ms (wr_decisions w ! rp_decision st)"
proof -
  have "sorted (wr_created_at_ms w # map wd_decided_at_ms (wr_decisions w))"
    using b by (simp add: body_ok_def decisions_loop_ok)
  then have "(wr_created_at_ms w # map wd_decided_at_ms (wr_decisions w)) ! rp_decision st \<le>
      (wr_created_at_ms w # map wd_decided_at_ms (wr_decisions w)) ! Suc (rp_decision st)"
    using k by (intro sorted_nth_mono) auto
  then show ?thesis using k by (cases "rp_decision st") (simp_all add: last_time_def)
qed

lemma history_reachable:
  assumes h: "header_ok w" and b: "body_ok w" and hist: "(replay_step w)\<^sup>*\<^sup>* (replay_start w) st"
  shows "time_ok w st t \<Longrightarrow> (rp_phase st = WsNeedsReview \<longrightarrow> \<not> blank e \<and> length e \<le> MAX_WORKFLOW_RESULT_BYTES) \<Longrightarrow>
    workflow_reachable (run_at w st e t)"
  using hist
proof (induction arbitrary: t e rule: rtranclp_induct)
  case base
  then show ?case using start_reachable [OF h] by simp
next
  case (step st st')
  have ne: "wr_steps w \<noteq> []" using header_step_count [OF h] by simp
  have p: "past_ok w st" using past_ok_history [OF step(1) b ne] .
  have lt: "rp_step st < length (wr_steps w)"
    using step(2) by (auto simp: replay_step_def replay_moves_def nth_opt_def split: if_splits)
  let ?t = "last_time w st"
  have r: "workflow_reachable (run_at w st ''x'' ?t)"
    by (rule step.IH [OF last_time_ok [OF b p]]) (simp add: blank_def white1_def code_def MAX_WORKFLOW_RESULT_BYTES_def)
  note v = reachable_valid [OF r]
  consider (decide) d where "rp_decision st < length (wr_decisions w)" "d = wr_decisions w ! rp_decision st"
      "unat (decided_revision d) = rp_revision st" "st' \<in> set (replay_decide w st d)"
    | (work) "rp_revision st < unat (wr_revision w)" "st' \<in> set (replay_work w st (wr_steps w ! rp_step st))"
    using step(2) lt by (auto simp: replay_step_def replay_moves_def nth_opt_def split: if_splits)
  then show ?case
  proof cases
    case decide
    have "rp_decision st' = Suc (rp_decision st) \<and> rp_revision st' = Suc (rp_revision st)"
      using decide(4) by (auto simp: replay_decide_iff Let_def replay_advance_def)
    then have "t = wd_decided_at_ms d" using step.prems(1) decide(2,3) by (simp add: time_ok_def last_time_def)
    then show ?thesis
      using reachable_resume [OF r rebuild_decide [OF v b p lt decide]] decision_times [OF b decide(1)] decide(2)
      by simp
  next
    case work
    have "rp_decision st' = rp_decision st" using work(2) by (auto simp: replay_work_iff Let_def replay_advance_def)
    then have "last_time w st' = ?t" by (simp add: last_time_def)
    then have t: "?t \<le> t" using step.prems(1) by (simp add: time_ok_def)
    let ?nx = "st\<lparr>rp_revision := Suc (rp_revision st)\<rparr>"
    consider (attach) "rp_phase st = WsPending" "rp_attempt st < length (ws_attempts (wr_steps w ! rp_step st))"
        "st' = ?nx\<lparr>rp_attempt := Suc (rp_attempt st), rp_attached := True, rp_phase := WsRunning\<rparr>"
      | (complete) "rp_phase st = WsRunning" "replay_can_complete w st (ws_result (wr_steps w ! rp_step st))" "st' = replay_advance w ?nx"
      | (review) "rp_phase st \<in> {WsPending, WsRunning}" "st' = ?nx\<lparr>rp_phase := WsNeedsReview\<rparr>"
      using work(2) unfolding replay_work_iff Let_def by auto
    then show ?thesis
    proof cases
      case attach
      then show ?thesis using reachable_attach [OF r rebuild_attach [OF v b p lt work(1) t attach(1,2)]] by simp
    next
      case complete
      then show ?thesis using rebuild_complete [OF v b p lt work(1) t complete(1,2)] reachable_complete [OF r] by blast
    next
      case review
      then show ?thesis using reachable_review [OF r rebuild_review [OF v p lt work(1) t review(1)]] step.prems(2) by simp
    qed
  qed
qed

text \<open>The last point of a history is the saved run, or the run that was cancelled.\<close>

lemma run_at_current_point:
  assumes b: "body_ok w" and st: "wr_status w \<noteq> WfCancelled"
  shows "run_at w (current_point w) (case wr_error w of Some e \<Rightarrow> e | None \<Rightarrow> '''') (wr_updated_at_ms w) = w"
proof -
  have live: "wr_current_step w < length (wr_steps w) \<and> current_step_valid (wr_status w) (current_step w) \<and>
      length (ws_attempts (current_step w)) = unat (ws_attempt (current_step w)) \<and> ws_result (current_step w) = None \<and>
      (ws_job_id (current_step w) = None \<or> ws_job_id (current_step w) = last_opt (ws_attempts (current_step w)))"
    if "wr_status w \<noteq> WfCompleted"
    using body_current [OF b that] by (auto simp: step_fits_def result_check_def split: option.splits)
  have status: "wr_status w = (if wr_current_step w < length (wr_steps w) then status_at (ws_status (current_step w)) else WfCompleted)"
    using live b st by (cases "wr_status w") (auto simp: current_step_valid_def body_ok_def)
  have steps: "wr_steps w ! i = step_at (current_point w) i (wr_steps w ! i)" if "i < length (wr_steps w)" for i
  proof (cases i "wr_current_step w" rule: linorder_cases)
    case less
    then show ?thesis by (simp add: step_at_def current_point_def Let_def)
  next
    case equal
    then have "wr_status w \<noteq> WfCompleted" using that b by (auto simp: body_ok_def)
    then show ?thesis using equal live by (intro WorkflowStep.equality) (auto simp: step_at_def current_point_def Let_def)
  next
    case greater
    then show ?thesis using later_fresh [OF b st greater that]
      by (intro WorkflowStep.equality) (auto simp: step_at_def current_point_def Let_def fresh_step_def spec_of_step_def)
  qed
  have "rp_phase (current_point w) = WsNeedsReview \<longleftrightarrow> wr_status w = WfNeedsReview"
    using live st b by (cases "wr_status w") (auto simp: current_point_def Let_def current_step_valid_def body_ok_def)
  then have "wr_error w = (if rp_phase (current_point w) = WsNeedsReview then Some (case wr_error w of Some e \<Rightarrow> e | None \<Rightarrow> '''') else None)"
    using b by (cases "wr_error w") (simp_all add: body_ok_def review_error_fits_def)
  then show ?thesis
    using b status steps by (intro run_at_eqI [symmetric]) (auto simp: current_point_def Let_def body_ok_def)
qed

lemma current_time_ok: "body_ok w \<Longrightarrow> time_ok w (current_point w) (wr_updated_at_ms w)"
proof -
  assume b: "body_ok w"
  have "wr_created_at_ms w \<le> wr_updated_at_ms w" "wr_revision w = 1 \<longrightarrow> wr_updated_at_ms w = wr_created_at_ms w"
    using b by (simp_all add: body_ok_def)
  moreover have "wd_decided_at_ms d \<le> wr_updated_at_ms w \<and>
      (Suc (unat (decided_revision d)) = unat (wr_revision w) \<longrightarrow> wd_decided_at_ms d = wr_updated_at_ms w)"
    if "d \<in> set (wr_decisions w)" for d
  proof -
    have d: "decision_fits w d" using b that by (auto simp: body_ok_def decisions_loop_ok)
    have "decided_revision d + 1 = wr_revision w" if "Suc (unat (decided_revision d)) = unat (wr_revision w)"
      using arg_cong [OF that, of "of_nat :: nat \<Rightarrow> u64"] by (simp add: add.commute)
    with d show ?thesis by (auto simp: decision_fits_def)
  qed
  moreover have "unat (wr_revision w) = 1 \<longleftrightarrow> wr_revision w = 1" by (simp add: word_unat_eq_iff)
  ultimately show ?thesis by (auto simp: time_ok_def last_time_def current_point_def Let_def)
qed

lemma run_at_identity [simp]:
  "wr_id (run_at w st e t) = wr_id w" "wr_agent_id (run_at w st e t) = wr_agent_id w" "wr_title (run_at w st e t) = wr_title w"
  "wr_request_key (run_at w st e t) = wr_request_key w" "wr_created_at_ms (run_at w st e t) = wr_created_at_ms w"
  "wr_source_template (run_at w st e t) = wr_source_template w"
  by (simp_all add: run_at_def)

lemma cancel_eqI:
  assumes "wr_steps (cancel_current w r now) = wr_steps w'" and "wr_status w' = WfCancelled" "wr_error w' = None"
    "wr_revision w' = r" "wr_updated_at_ms w' = now" "wr_id w = wr_id w'" "wr_agent_id w = wr_agent_id w'"
    "wr_title w = wr_title w'" "wr_request_key w = wr_request_key w'" "wr_created_at_ms w = wr_created_at_ms w'"
    "wr_source_template w = wr_source_template w'" "wr_current_step w = wr_current_step w'" "wr_decisions w = wr_decisions w'"
  shows "cancel_current w r now = w'"
  using assms by (intro WorkflowRun.equality) (simp_all add: cancel_current_def)

lemma cancelled_point:
  assumes b: "body_ok w" and st: "wr_status w = WfCancelled" and goal: "replay_goal w st"
  shows "rp_step st < length (wr_steps w) \<and> last_time w st \<le> wr_updated_at_ms w \<and>
    cancel_current (run_at w st e (last_time w st)) (of_nat (Suc (rp_revision st))) (wr_updated_at_ms w) = w"
proof -
  have c: "rp_decision st = length (wr_decisions w)" "rp_step st = wr_current_step w"
    "Suc (rp_revision st) = unat (wr_revision w)" "replay_matches_attempt w st"
    using goal st by (auto simp: replay_goal_def replay_accepts_def replay_matches_current_def)
  note cur = body_current [OF b]
  have lt: "rp_step st < length (wr_steps w)" using cur(1) st c(2) by simp
  have time: "last_time w st \<le> wr_updated_at_ms w"
    using current_time_ok [OF b] c(1) by (auto simp: time_ok_def last_time_def current_point_def Let_def)
  let ?w = "run_at w st e (last_time w st)"
  have steps: "wr_steps (cancel_current ?w r now) ! i = wr_steps w ! i" if "i < length (wr_steps w)" for i r now
  proof -
    have f: "step_fits w i (wr_steps w ! i)" using b that by (simp add: body_ok_def)
    have a: "length (ws_attempts (wr_steps w ! i)) = unat (ws_attempt (wr_steps w ! i))" using f by (simp add: step_fits_def)
    have i: "i < length (wr_steps ?w)" using that by simp
    have past: "ws_status (wr_steps w ! i) = WsCancelled \<and> ws_result (wr_steps w ! i) = None" if "rp_step st \<le> i"
      using f that st c(2) by (cases "i = rp_step st") (auto simp: step_fits_def place_check_def current_step_valid_def result_check_def)
    show ?thesis
    proof (cases i "rp_step st" rule: linorder_cases)
      case less
      then show ?thesis unfolding cancel_nth [OF i] using that by (simp add: step_at_def)
    next
      case equal
      have "rp_attempt st = unat (ws_attempt (wr_steps w ! i))"
        "ws_job_id (wr_steps w ! i) = (if rp_attached st then last_opt (ws_attempts (wr_steps w ! i)) else None)"
        using c(4) lt equal by (auto simp: replay_matches_attempt_def nth_opt_def)
      then show ?thesis unfolding cancel_nth [OF i] using equal past a that
        by (intro WorkflowStep.equality) (simp_all add: step_at_def Let_def)
    next
      case greater
      have "ws_attempt (wr_steps w ! i) = 0" "ws_job_id (wr_steps w ! i) = None"
        using f greater c(2) by (auto simp: step_fits_def place_check_def)
      then show ?thesis unfolding cancel_nth [OF i] using greater past a that
        by (intro WorkflowStep.equality) (simp_all add: step_at_def fresh_step_def spec_of_step_def)
    qed
  qed
  have "wr_steps (cancel_current ?w (of_nat (Suc (rp_revision st))) (wr_updated_at_ms w)) = wr_steps w"
    using lt steps by (intro nth_equalityI) (auto simp: cancel_length)
  moreover have "wr_error w = None" using b st by (auto simp: body_ok_def review_error_fits_def split: option.splits)
  ultimately have "cancel_current ?w (of_nat (Suc (rp_revision st))) (wr_updated_at_ms w) = w"
    unfolding c(3) using c(1,2) st by (intro cancel_eqI) simp_all
  with lt time show ?thesis by simp
qed

lemma valid_is_reachable:
  assumes v: "WorkflowRun_validate w = Ok ()"
  shows "workflow_reachable w"
proof -
  have w: "header_ok w" "body_ok w" "replay_reaches w (replay_start w)" using v by (simp_all add: workflow_valid_iff)
  have ne: "wr_steps w \<noteq> []" using header_step_count [OF w(1)] by simp
  show ?thesis
  proof (cases "wr_status w = WfCancelled")
    case False
    let ?e = "case wr_error w of Some e \<Rightarrow> e | None \<Rightarrow> ''''"
    have h: "(replay_step w)\<^sup>*\<^sup>* (replay_start w) (current_point w)" using history_iff [OF w(2) False ne] w(3) by simp
    have "\<not> blank ?e \<and> length ?e \<le> MAX_WORKFLOW_RESULT_BYTES" if "wr_status w = WfNeedsReview"
      using w(2) that by (auto simp: body_ok_def review_error_fits_def split: option.splits)
    moreover have "wr_status w = WfNeedsReview" if "rp_phase (current_point w) = WsNeedsReview"
      using that arg_cong [OF run_at_current_point [OF w(2) False], of wr_status]
      by (auto simp: run_at_def current_point_def Let_def split: if_splits)
    ultimately show ?thesis
      using history_reachable [OF w(1,2) h current_time_ok [OF w(2)]] run_at_current_point [OF w(2) False] by metis
  next
    case True
    obtain st where h: "(replay_step w)\<^sup>*\<^sup>* (replay_start w) st" and g: "replay_goal w st"
      using w(3) by (auto simp: replay_reaches_def)
    have p: "past_ok w st" using past_ok_history [OF h w(2) ne] .
    let ?w = "run_at w st ''x'' (last_time w st)"
    have r: "workflow_reachable ?w"
      by (rule history_reachable [OF w(1,2) h last_time_ok [OF w(2) p]]) (simp add: blank_def white1_def code_def MAX_WORKFLOW_RESULT_BYTES_def)
    note c = cancelled_point [OF w(2) True g, of "''x''"]
    have "wr_status ?w = status_at (rp_phase st)" using c by (simp add: run_at_def)
    moreover have "status_at (rp_phase st) \<notin> {WfCompleted, WfCancelled}"
      using p c by (cases "ws_kind (wr_steps w ! rp_step st)") (auto simp: past_ok_def phase_fits_def)
    moreover have "rp_revision st < unat (wr_revision w)"
      using g True by (auto simp: replay_goal_def replay_accepts_def replay_matches_current_def)
    ultimately have "workflow_cancel ?w (wr_revision ?w) (wr_updated_at_ms w) = Ok (True, w)"
      using reachable_valid [OF r] run_at_next [OF p] c by (auto simp: workflow_cancel_ok)
    then show ?thesis using reachable_cancel [OF r] by blast
  qed
qed

section \<open>What one call changes\<close>

text \<open>A call that succeeds changes nothing, or changes, completes or cancels the current step.\<close>

definition more_decisions :: "WorkflowRun \<Rightarrow> WorkflowDecision list \<Rightarrow> bool" where
  "more_decisions w ds \<longleftrightarrow> (\<exists>more. ds = wr_decisions w @ more)"

lemma more_decisions_simps [simp]: "more_decisions w (wr_decisions w)" "more_decisions w (wr_decisions w @ ds)"
  by (auto simp: more_decisions_def)

inductive changes :: "WorkflowRun \<Rightarrow> WorkflowRun \<Rightarrow> bool" where
  change: "next_revision w now = Ok r \<Longrightarrow> more_decisions w ds \<Longrightarrow> spec_of_step x = spec_of_step (current_step w) \<Longrightarrow>
    changes w (change_current w x s e ds r now)"
| advance: "next_revision w now = Ok r \<Longrightarrow> more_decisions w ds \<Longrightarrow> changes w (advance_current w res ds r now)"
| cancel: "next_revision w now = Ok r \<Longrightarrow> changes w (cancel_current w r now)"

lemma workflow_step_shape:
  assumes "workflow_step w w'"
  shows "w' = w \<or> wr_status w \<notin> {WfCompleted, WfCancelled} \<and> WorkflowRun_validate w = Ok () \<and> changes w w'"
  using assms
proof (cases rule: workflow_step.cases)
  case (attach job now)
  let ?x = "(current_step w)\<lparr>ws_attempt := ws_attempt (current_step w) + 1, ws_attempts := ws_attempts (current_step w) @ [job],
    ws_job_id := Some job, ws_status := WsRunning\<rparr>"
  obtain r where r: "next_revision w now = Ok r" "WorkflowRun_validate w = Ok ()" "wr_status w = WfRunning"
    "w' = (set_current ?x w)\<lparr>wr_revision := r, wr_updated_at_ms := now\<rparr>"
    using attach by (auto simp: attach_job_def Let_def split: if_splits)
  then have "w' = change_current w ?x (wr_status w) (wr_error w) (wr_decisions w) r now"
    by (simp only: change_current_def set_current_def) simp
  then have "changes w w'" using r(1) by (simp add: changes.change spec_of_step_def)
  then show ?thesis using r by simp
next
  case (complete result now)
  then obtain r where r: "next_revision w now = Ok r" "WorkflowRun_validate w = Ok ()" "wr_status w = WfRunning"
    "w' = (complete_current (Some result) w)\<lparr>wr_revision := r, wr_updated_at_ms := now\<rparr>"
    by (auto simp: complete_task_def split: if_splits)
  have "wr_error w = None" using r(2,3) running_error by (simp add: workflow_valid_iff)
  then have "w' = advance_current w (Some result) (wr_decisions w) r now"
    unfolding r(4) advance_current_def
    by (auto simp: complete_current_def activate_current_step_def set_current_def split: option.splits)
  then show ?thesis using r by (simp add: changes.advance)
next
  case (review why now)
  then obtain x r where "next_revision w now = Ok r" "WorkflowRun_validate w = Ok ()" "wr_status w = WfRunning"
    "w' = change_current w x WfNeedsReview (Some why) (wr_decisions w) r now" "spec_of_step x = spec_of_step (current_step w)"
    by (auto simp: needs_review_def Let_def set_current_def change_current_def spec_of_step_def split: if_splits)
  then show ?thesis by (simp add: changes.change)
next
  case (resume q now changed)
  show ?thesis
  proof (cases changed)
    case True
    then obtain r where r: "next_revision w now = Ok r" "WorkflowRun_validate w = Ok ()" "w' = decide_current w q r now"
      "action_fits (wq_action q) (wr_status w)"
      using resume resume_ok by auto
    have "wr_status w \<notin> {WfCompleted, WfCancelled}"
      using r(4) by (auto simp: action_fits_def split: WorkflowResumeAction.splits)
    moreover have "changes w w'"
      using r(1) unfolding r(3) decide_current_def Let_def
      by (cases "wq_action q = Retry") (simp_all add: changes.change changes.advance spec_of_step_def)
    ultimately show ?thesis using r(2) by simp
  next
    case False
    with resume show ?thesis by (auto simp: workflow_resume_def Let_def split: option.splits if_splits)
  qed
next
  case (cancel revision now changed)
  then show ?thesis
    by (cases changed) (auto simp: workflow_cancel_ok intro: changes.cancel, auto simp: workflow_cancel_def Let_def split: if_splits)
qed

lemma workflow_step_decisions: "workflow_step w w' \<Longrightarrow> more_decisions w (wr_decisions w')"
  using workflow_step_shape [of w w'] by (auto elim!: changes.cases simp: change_current_def)

lemma resume_records:
  assumes "workflow_resume w q now = Ok (changed, w')"
  shows "q \<in> wd_request ` set (wr_decisions w')"
proof (cases changed)
  case True
  with assms have "\<exists>r. w' = decide_current w q r now" by (auto simp: resume_ok)
  then show ?thesis by (auto simp: decide_current_def Let_def change_current_def)
next
  case False
  with assms show ?thesis
    by (auto simp: workflow_resume_def Let_def find_Some_iff split: option.splits if_splits)
qed

lemma find_by_key:
  assumes "distinct (map f xs)" and "x \<in> set xs"
  shows "find (\<lambda>y. f y = f x) xs = Some x"
  using assms by (induction xs) (auto dest: image_eqI [of "f x" f x])

lemma recorded_decision:
  assumes v: "WorkflowRun_validate w = Ok ()" and x: "x \<in> set (wr_decisions w)"
  shows "workflow_resume w (wd_request x) now = Ok (False, w)"
proof -
  have "sorted_wrt (<) (map decided_revision (wr_decisions w))"
    using v by (simp add: workflow_valid_iff body_ok_def decisions_loop_ok)
  then have d: "distinct (map decided_revision (wr_decisions w))" by (simp add: strict_sorted_iff)
  show ?thesis using v find_by_key [OF d x] by (simp add: workflow_resume_def)
qed

interpretation workflow_decisions: retry_safe workflow_step "\<lambda>w. WorkflowRun_validate w = Ok ()"
  "\<lambda>w q w'. \<exists>now changed. workflow_resume w q now = Ok (changed, w')"
  "\<lambda>w q. q \<in> wd_request ` set (wr_decisions w)"
  "\<lambda>w q. \<forall>now. workflow_resume w q now = Ok (False, w)"
proof unfold_locales
  show "WorkflowRun_validate w' = Ok ()" if "workflow_step w w'" for w w' using that by (rule step_valid)
next
  fix w q w' assume "\<exists>now changed. workflow_resume w q now = Ok (changed, w')"
  then show "WorkflowRun_validate w' = Ok () \<and> q \<in> wd_request ` set (wr_decisions w')"
    using resume_valid resume_records by blast
next
  fix w w' q assume "workflow_step w w'" "q \<in> wd_request ` set (wr_decisions w)"
  then show "q \<in> wd_request ` set (wr_decisions w')" by (auto simp: more_decisions_def dest!: workflow_step_decisions)
next
  fix w q assume "WorkflowRun_validate w = Ok ()" "q \<in> wd_request ` set (wr_decisions w)"
  then show "\<forall>now. workflow_resume w q now = Ok (False, w)" using recorded_decision by blast
qed

end
