(* ===== verification/Workflow_Facts.thy ===== *)
theory Workflow_Facts
  imports Workflow_Exact
begin

text \<open>
  What a workflow promises: a saved run is valid exactly when calls produce it, an accepted decision
  can be repeated at any time, a run only goes forward, within bounds, and ends for good. A small
  run, evaluated from start to end, shows that the hypotheses can be met.
\<close>

section \<open>A run from start to end\<close>

text \<open>A task and an approval: the task is attached to a job and completed, the approval is given.\<close>

definition example_workflow :: WorkflowInput where
  "example_workflow = \<lparr>wi_title = ''t'', wi_request_key = ''k'', wi_steps =
     [\<lparr>wsp_id = ''a'', wsp_title = ''t'', wsp_kind = TaskStep, wsp_prompt = ''p''\<rparr>,
      \<lparr>wsp_id = ''b'', wsp_title = ''t'', wsp_kind = ApprovalStep, wsp_prompt = ''p''\<rparr>]\<rparr>"

definition example_task :: "WorkflowStepStatus \<Rightarrow> string list \<Rightarrow> string option \<Rightarrow> WorkflowStep" where
  "example_task p js res = \<lparr>ws_id = ''a'', ws_title = ''t'', ws_kind = TaskStep, ws_prompt = ''p'', ws_status = p,
     ws_job_id = last_opt js, ws_attempt = of_nat (length js), ws_attempts = js, ws_result = res\<rparr>"

definition example_approval :: "WorkflowStepStatus \<Rightarrow> WorkflowStep" where
  "example_approval p = \<lparr>ws_id = ''b'', ws_title = ''t'', ws_kind = ApprovalStep, ws_prompt = ''p'', ws_status = p,
     ws_job_id = None, ws_attempt = 0, ws_attempts = [], ws_result = None\<rparr>"

definition example_wf :: "WorkflowStatus \<Rightarrow> u64 \<Rightarrow> nat \<Rightarrow> WorkflowStep list \<Rightarrow> WorkflowDecision list \<Rightarrow> WorkflowRun" where
  "example_wf s r c xs ds = \<lparr>wr_id = ''w'', wr_agent_id = ''g'', wr_title = ''t'', wr_request_key = ''k'', wr_status = s,
     wr_revision = r, wr_current_step = c, wr_steps = xs, wr_decisions = ds, wr_created_at_ms = 5, wr_updated_at_ms = 4 + r,
     wr_error = None, wr_source_template = None\<rparr>"

definition example_started :: WorkflowRun where
  "example_started = example_wf WfRunning 1 0 [example_task WsPending [] None, example_approval WsPending] []"

definition example_attached :: WorkflowRun where
  "example_attached = example_wf WfRunning 2 0 [example_task WsRunning [''j''] None, example_approval WsPending] []"

definition example_waiting :: WorkflowRun where
  "example_waiting = example_wf WfAwaitingApproval 3 1
     [example_task WsCompleted [''j''] (Some ''done''), example_approval WsAwaitingApproval] []"

definition example_approve :: WorkflowResumeRequest where
  "example_approve = \<lparr>wq_revision = 3, wq_action = Approve, wq_value = None, wq_acknowledge_uncertain = False\<rparr>"

definition example_done :: WorkflowRun where
  "example_done = example_wf WfCompleted 4 2 [example_task WsCompleted [''j''] (Some ''done''), example_approval WsCompleted]
     [\<lparr>wd_step_index = 1, wd_request = example_approve, wd_decided_at_ms = 8\<rparr>]"

lemmas example_wf_defs = example_wf_def example_started_def example_attached_def example_waiting_def example_done_def
  example_approve_def example_task_def example_approval_def last_opt_def

lemma example_new: "WorkflowRun_new ''w'' ''g'' example_workflow 5 = Ok example_started"
proof -
  have "\<not> blank ''t''" "\<not> blank ''k''" "\<not> blank ''p''" "char_count ''t'' = 1" "list_all step_id_char ''a''"
    "list_all step_id_char ''b''" by code_simp+
  then have "validate_definition example_workflow = Ok ()"
    by (simp add: validate_definition_def example_workflow_def MAX_WORKFLOW_STEPS_def MAX_WORKFLOW_TITLE_CHARS_def
        MAX_WORKFLOW_REQUEST_KEY_BYTES_def MAX_WORKFLOW_STEP_ID_BYTES_def MAX_WORKFLOW_PROMPT_BYTES_def
        MAX_WORKFLOW_DEFINITION_BYTES_def)
  moreover have "validate_reference ''w'' ''workflow ID'' = Ok ()" "validate_reference ''g'' ''agent ID'' = Ok ()"
    by code_simp+
  moreover have "new_run ''w'' ''g'' example_workflow 5 = example_started"
    by (simp add: new_run_def activate_current_step_def nth_opt_def example_wf_defs example_workflow_def fresh_step_def)
  ultimately show ?thesis by (simp add: new_ok_iff)
qed

lemma example_valid: "WorkflowRun_validate example_started = Ok ()"
  by (rule reachable_valid [OF workflow_reachable.new [OF example_new]])

lemma example_attach: "attach_job example_started ''j'' 6 = Ok example_attached"
proof -
  have "validate_reference ''j'' ''workflow job ID'' = Ok ()" by code_simp
  then show ?thesis
    unfolding attach_job_def example_valid
    by (simp add: example_wf_defs next_revision_def checked_add_def set_current_def MAX_WORKFLOW_ATTEMPTS_def Let_def)
qed

lemma example_complete: "complete_task example_attached ''done'' 7 = Ok example_waiting"
  unfolding complete_task_def attach_valid [OF example_attach]
  by (simp add: example_wf_defs next_revision_def checked_add_def set_current_def MAX_WORKFLOW_RESULT_BYTES_def
      complete_current_def activate_current_step_def nth_opt_def)

lemma example_resume: "workflow_resume example_waiting example_approve 8 = Ok (True, example_done)"
  unfolding workflow_resume_def complete_valid [OF example_complete]
  by (simp add: example_wf_defs next_revision_def checked_add_def set_current_def MAX_WORKFLOW_DECISIONS_def
      complete_current_def activate_current_step_def nth_opt_def validate_resume_request_def action_fits_def Let_def)
lemma example_reached: "workflow_reachable example_waiting" "workflow_step example_waiting example_done"
  by (rule reachable_complete [OF reachable_attach [OF workflow_reachable.new [OF example_new] example_attach] example_complete])
    (rule workflow_step.resume [OF example_resume])

section \<open>Properties\<close>

text \<open>\<^bold>\<open>C2.\<close> 
  \<open>validate\<close> accepts a saved run exactly when some sequence of calls produces it: a new run, with the
  pin of a template or without, and then jobs attached, tasks completed, reviews, decisions and a
  cancellation. The search over histories neither misses one nor accepts a state that no history has.
\<close>

theorem workflow_validate_exact: "WorkflowRun_validate w = Ok () \<longleftrightarrow> workflow_reachable w"
  using reachable_valid valid_is_reachable by blast

text \<open>
  A decision that was accepted is accepted for good: the same request, sent again at any time and
  after any number of other calls, answers that it is already recorded and changes nothing.
\<close>

theorem workflow_resume_retry_safe:
  assumes "workflow_resume w q now = Ok (changed, w')" and "workflow_step\<^sup>*\<^sup>* w' w''"
  shows "workflow_resume w'' q now'' = Ok (False, w'')"
  using workflow_decisions.repeated_answers [OF _ assms(2)] assms(1) by blast

theorem workflow_resume_retry_safe_witness:
  "workflow_resume example_done example_approve 1 = Ok (False, example_done)"
  by (rule workflow_resume_retry_safe [OF example_resume]) simp

text \<open>A completed or cancelled run never changes again.\<close>

theorem workflow_end_is_final:
  assumes "wr_status w \<in> {WfCompleted, WfCancelled}" and "workflow_step\<^sup>*\<^sup>* w w'"
  shows "w' = w"
  using assms(2) assms(1) by (induction rule: rtranclp_induct) (auto dest!: workflow_step_shape)

theorem workflow_end_is_final_witness:
  "wr_status example_done = WfCompleted \<and> workflow_step\<^sup>*\<^sup>* example_done example_done \<and> example_done = example_done"
  using workflow_end_is_final [of example_done example_done] by (simp add: example_done_def example_wf_def)

text \<open>
  A call that changes a run takes it one revision and at most one step further: the steps that are
  completed stay as they are, no decision is lost, time does not go back, and what the run is for
  does not change.
\<close>

theorem workflow_step_forward:
  assumes "workflow_step w w'" and "w' \<noteq> w"
  shows "unat (wr_revision w') = Suc (unat (wr_revision w)) \<and> wr_updated_at_ms w \<le> wr_updated_at_ms w' \<and>
    wr_current_step w' \<in> {wr_current_step w, Suc (wr_current_step w)} \<and>
    take (wr_current_step w) (wr_steps w') = take (wr_current_step w) (wr_steps w) \<and>
    take (length (wr_decisions w)) (wr_decisions w') = wr_decisions w \<and>
    map spec_of_step (wr_steps w') = map spec_of_step (wr_steps w) \<and> wr_id w' = wr_id w \<and>
    wr_source_template w' = wr_source_template w"
proof -
  have ch: "changes w w'" and c: "wr_current_step w < length (wr_steps w)"
    using workflow_step_shape [OF assms(1)] assms(2) body_current(1) [of w] by (auto simp: workflow_valid_iff)
  from ch c show ?thesis
  proof cases
    case (change now r ds x s e)
    then show ?thesis by (auto simp: change_current_def more_decisions_def map_list_update_same next_revision_ok)
  next
    case (advance now r ds res)
    moreover have "take (wr_current_step w) (wr_steps w') = take (wr_current_step w) (wr_steps w)"
      unfolding advance(1) using c by (intro nth_equalityI) (simp_all add: advance_nth)
    moreover have "map spec_of_step (wr_steps w') = map spec_of_step (wr_steps w)"
      unfolding advance(1) using c by (intro advance_map) (simp_all add: spec_of_step_def)
    ultimately show ?thesis by (auto simp: more_decisions_def next_revision_ok)
  next
    case (cancel now r)
    moreover have "map spec_of_step (wr_steps w') = map spec_of_step (wr_steps w)"
      unfolding cancel(1) using c by (intro cancel_map) (simp_all add: spec_of_step_def)
    ultimately show ?thesis using c by (simp add: cancel_current_def next_revision_ok)
  qed
qed

theorem workflow_step_forward_witness:
  "workflow_step example_waiting example_done \<and> unat (wr_revision example_done) = Suc (unat (wr_revision example_waiting))"
  using workflow_step_forward [OF example_reached(2)] example_reached(2) by (simp add: example_wf_defs)

text \<open>
  Whatever happens to a run, a task is started at most three times and never under a job that was
  used before, only tasks are, and at most 64 decisions are taken.
\<close>

theorem workflow_bounds:
  assumes "workflow_reachable w"
  shows "distinct (concat (map ws_attempts (wr_steps w))) \<and>
    list_all (\<lambda>x. length (ws_attempts x) \<le> (if ws_kind x = TaskStep then 3 else 0)) (wr_steps w) \<and>
    length (wr_steps w) \<le> 16 \<and> length (wr_decisions w) \<le> 64"
proof -
  have w: "header_ok w" "body_ok w" using reachable_valid [OF assms] by (simp_all add: workflow_valid_iff)
  have "length (ws_attempts (wr_steps w ! i)) \<le> (if ws_kind (wr_steps w ! i) = TaskStep then 3 else 0)"
    if "i < length (wr_steps w)" for i
    using body_attempts(1,2) [OF w(2) that] w(2) that by (auto simp: body_ok_def step_fits_def)
  then show ?thesis
    using w header_step_count [OF w(1)]
    by (simp add: list_all_length body_ok_def jobs_of_def MAX_WORKFLOW_STEPS_def MAX_WORKFLOW_DECISIONS_def)
qed

theorem workflow_bounds_witness:
  "workflow_reachable example_waiting \<and> length (wr_decisions example_waiting) \<le> 64"
  using workflow_bounds [OF example_reached(1)] example_reached(1) by blast

text \<open>
  A run that is not at its end can be cancelled, whatever it waits for, as long as the clock has not gone
  back and a revision is left; the run is then cancelled and the same request answers so again.
\<close>

theorem workflow_cancel_possible:
  assumes "workflow_reachable w" and "wr_status w \<notin> {WfCompleted, WfCancelled}"
    and "wr_updated_at_ms w \<le> now" and "wr_revision w \<noteq> - 1"
  shows "\<exists>w'. workflow_cancel w (wr_revision w) now = Ok (True, w') \<and> wr_status w' = WfCancelled \<and>
    workflow_cancel w' (wr_revision w) later = Ok (False, w')"
proof -
  have v: "WorkflowRun_validate w = Ok ()" using assms(1) by (rule reachable_valid)
  have "unat (- 1 :: u64) = 2 ^ 64 - 1" by (simp add: unsigned_minus_1_eq_mask mask_eq_exp_minus_1)
  then have "Suc (unat (wr_revision w)) < 2 ^ 64"
    using assms(4) unsigned_less [of "wr_revision w", where 'a = nat] by (auto simp: word_unat_eq_iff)
  then have nx: "next_revision w now = Ok (wr_revision w + 1)" "checked_add (wr_revision w) 1 = Some (wr_revision w + 1)"
    using assms(3) by (simp_all add: next_revision_def checked_add_def not_less)
  let ?w = "cancel_current w (wr_revision w + 1) now"
  have c: "workflow_cancel w (wr_revision w) now = Ok (True, ?w)" using v assms(2) nx(1) by (auto simp: workflow_cancel_ok)
  have "workflow_cancel ?w (wr_revision w) later = Ok (False, ?w)"
    using cancel_valid [OF c] nx(2) by (simp add: workflow_cancel_def)
  with c show ?thesis by auto
qed

theorem workflow_cancel_possible_witness:
  "\<exists>w'. workflow_cancel example_waiting 3 9 = Ok (True, w') \<and> wr_status w' = WfCancelled \<and>
    workflow_cancel w' 3 0 = Ok (False, w')"
  using workflow_cancel_possible [OF example_reached(1), of 9 0] by (simp add: example_waiting_def example_wf_def)

end
