(* ===== verification/Workflow_Template.thy ===== *)
theory Workflow_Template
  imports Workflow_Facts
begin

text \<open>
  Workflow templates, \<open>anima-core/src/workflow_templates.rs\<close>: parameters and their values, the text
  interpolation, the saved template with the receipts of its saves, and the run a template makes.
  A \<open>BTreeMap\<close> of values is a list of pairs with rising keys (\<open>Ordered_Map\<close>).

  \<open>interpolate\<close> copies a text that is no placeholder character by character and compares the size
  after each; here it is byte by byte, which is the same: no byte of a longer character is \<open>$\<close>, and the
  size is exceeded within a character exactly when it is exceeded after it.
\<close>

section \<open>Data\<close>

definition MAX_WORKFLOW_TEMPLATE_REVISIONS :: nat where "MAX_WORKFLOW_TEMPLATE_REVISIONS = 16"

record WorkflowTemplateParameter =
  tpr_name :: string
  tpr_default :: "string option"

record WorkflowTemplateInput =
  wti_slug :: string
  wti_revision :: u64
  wti_title :: string
  wti_parameters :: "WorkflowTemplateParameter list"
  wti_steps :: "WorkflowStepSpec list"

record WorkflowTemplateSaveReceipt =
  tsr_request :: WorkflowTemplateInput
  tsr_saved_at_ms :: u64

record WorkflowTemplate =
  wt_agent_id :: string
  wt_slug :: string
  wt_revision :: u64
  wt_title :: string
  wt_parameters :: "WorkflowTemplateParameter list"
  wt_steps :: "WorkflowStepSpec list"
  wt_created_at_ms :: u64
  wt_updated_at_ms :: u64
  wt_save_history :: "WorkflowTemplateSaveReceipt list"
  wt_deleted :: bool

section \<open>Interpolation\<close>

text \<open>\<open>str::strip_prefix\<close>, and \<open>str::find\<close> of the closing brace.\<close>

definition str_strip_prefix :: "string \<Rightarrow> string \<Rightarrow> string option" where
  "str_strip_prefix p s = (if take (length p) s = p then Some (drop (length p) s) else None)"

fun find_brace :: "string \<Rightarrow> nat option" where
  "find_brace [] = None"
| "find_brace (c # s) = (if c = CHR ''}'' then Some 0 else map_option Suc (find_brace s))"

text \<open>One turn of the loop: what is added to the output, and the rest.\<close>

definition interpolate_turn ::
  "(string \<times> string) list \<Rightarrow> string \<Rightarrow> (WorkflowError, string \<times> string) result" where
  "interpolate_turn inputs rest =
     (case str_strip_prefix ''$${'' rest of
        Some tail \<Rightarrow>
          (case find_brace tail of
             None \<Rightarrow> Err WeEscapeUnclosed
           | Some close \<Rightarrow> Ok (''${'' @ take (Suc close) tail, drop (Suc close) tail))
      | None \<Rightarrow>
          (case str_strip_prefix ''${'' rest of
             Some tail \<Rightarrow>
               (case find_brace tail of
                  None \<Rightarrow> Err WePlaceholderUnclosed
                | Some close \<Rightarrow>
                    let name = take close tail in
                    if \<not> valid_name name then Err WePlaceholderName
                    else case map_of inputs name of
                        None \<Rightarrow> Err (WeParameterUnknown name)
                      | Some value \<Rightarrow> Ok (value, drop (Suc close) tail))
           | None \<Rightarrow> Ok (take 1 rest, drop 1 rest)))"

lemma str_strip_prefix_Some: "str_strip_prefix p s = Some t \<longleftrightarrow> s = p @ t"
  by (auto simp: str_strip_prefix_def) (metis append_take_drop_id)

lemma interpolate_turn_shorter:
  "interpolate_turn inputs rest = Ok (add, rest') \<Longrightarrow> rest \<noteq> [] \<Longrightarrow> length rest' < length rest"
  by (auto simp: interpolate_turn_def str_strip_prefix_Some Let_def split: option.splits if_splits)

function interpolate_loop ::
  "(string \<times> string) list \<Rightarrow> string \<Rightarrow> string \<Rightarrow> (WorkflowError, string) result" where
  "interpolate_loop inputs out rest =
     (if rest = [] then Ok out
      else case interpolate_turn inputs rest of
          Inl e \<Rightarrow> Err e
        | Inr (add, rest') \<Rightarrow>
            if length (out @ add) > 32 * 1024 then Err WeExpandedBytes
            else interpolate_loop inputs (out @ add) rest')"
  by pat_completeness auto
termination
  by (relation "measure (\<lambda>(inputs, out, rest). length rest)") (auto dest: interpolate_turn_shorter)

declare interpolate_loop.simps [simp del]

definition interpolate :: "string \<Rightarrow> (string \<times> string) list \<Rightarrow> (WorkflowError, string) result" where
  "interpolate source inputs = interpolate_loop inputs [] source"

section \<open>Checking what is saved\<close>

fun parameters_loop ::
  "(string \<times> string) list \<Rightarrow> WorkflowTemplateParameter list \<Rightarrow> (WorkflowError, (string \<times> string) list) result" where
  "parameters_loop defaults [] = Ok defaults"
| "parameters_loop defaults (p # ps) =
     (if \<not> valid_name (tpr_name p) \<or> map_of defaults (tpr_name p) \<noteq> None then Err WeParameterName
      else parameters_loop
        (bt_insert (tpr_name p) (case tpr_default p of Some d \<Rightarrow> d | None \<Rightarrow> ''value'') defaults) ps)"

definition validate_input :: "WorkflowTemplateInput \<Rightarrow> (WorkflowError, unit) result" where
  "validate_input i =
     try_then (validate_slug (wti_slug i)) (\<lambda>_.
     if length (wti_parameters i) > MAX_WORKFLOW_TEMPLATE_PARAMETERS then Err WeParameterCount
     else try_then (parameters_loop [] (wti_parameters i)) (\<lambda>defaults.
     try_then (validate_values defaults) (\<lambda>_.
     try_then (try_all (\<lambda>source. try_then (interpolate source defaults) (\<lambda>_. Ok ()))
       (wti_title i # concat (map (\<lambda>s. [wsp_title s, wsp_prompt s]) (wti_steps i)))) (\<lambda>_.
     try_then (WorkflowRun_new ''template-validation'' ''agent''
       \<lparr>wi_title = wti_title i, wi_request_key = ''template-validation'', wi_steps = wti_steps i\<rparr> 0)
       (\<lambda>_. Ok ())))))"

fun receipts_loop ::
  "WorkflowTemplate \<Rightarrow> nat \<Rightarrow> u64 \<Rightarrow> WorkflowTemplateSaveReceipt list \<Rightarrow> (WorkflowError, u64) result" where
  "receipts_loop t index previous [] = Ok previous"
| "receipts_loop t index previous (r # rs) =
     try_then (validate_input (tsr_request r)) (\<lambda>_.
     if wti_slug (tsr_request r) \<noteq> wt_slug t
        \<or> wti_revision (tsr_request r) \<noteq> of_nat index
        \<or> tsr_saved_at_ms r < previous
        \<or> tsr_saved_at_ms r > wt_updated_at_ms t
        \<or> index = 0 \<and> tsr_saved_at_ms r \<noteq> wt_created_at_ms t
     then Err WeTemplateReceipt
     else receipts_loop t (Suc index) (tsr_saved_at_ms r) rs)"

definition WorkflowTemplate_validate :: "WorkflowTemplate \<Rightarrow> (WorkflowError, unit) result" where
  "WorkflowTemplate_validate t =
     (if blank (wt_agent_id t) \<or> length (wt_agent_id t) > 128 \<or> any_control (wt_agent_id t)
      then Err WeTemplateAgent
      else try_then (validate_slug (wt_slug t)) (\<lambda>_.
      if wt_save_history t = [] \<or> length (wt_save_history t) > MAX_WORKFLOW_TEMPLATE_REVISIONS
         \<or> wt_revision t \<noteq> of_nat (length (wt_save_history t)) + (if wt_deleted t then 1 else 0)
         \<or> wt_updated_at_ms t < wt_created_at_ms t
      then Err WeTemplateHistory
      else try_then (receipts_loop t 0 (wt_created_at_ms t) (wt_save_history t)) (\<lambda>previous.
      let latest = tsr_request (last (wt_save_history t)) in
      reject_if (wti_title latest \<noteq> wt_title t \<or> wti_parameters latest \<noteq> wt_parameters t
          \<or> wti_steps latest \<noteq> wt_steps t \<or> (\<not> wt_deleted t \<and> previous \<noteq> wt_updated_at_ms t))
        WeTemplateLatest)))"

section \<open>The operations\<close>

definition WorkflowTemplate_new ::
  "string \<Rightarrow> WorkflowTemplateInput \<Rightarrow> u64 \<Rightarrow> (WorkflowError, WorkflowTemplate) result" where
  "WorkflowTemplate_new agent_id i now =
     (if wti_revision i \<noteq> 0 then Err WeTemplateRevision
      else try_then (validate_input i) (\<lambda>_.
      checked WorkflowTemplate_validate
        \<lparr>wt_agent_id = agent_id, wt_slug = wti_slug i, wt_revision = 1, wt_title = wti_title i,
         wt_parameters = wti_parameters i, wt_steps = wti_steps i, wt_created_at_ms = now,
         wt_updated_at_ms = now, wt_save_history = [\<lparr>tsr_request = i, tsr_saved_at_ms = now\<rparr>],
         wt_deleted = False\<rparr>))"

definition WorkflowTemplate_save ::
  "WorkflowTemplate \<Rightarrow> WorkflowTemplateInput \<Rightarrow> u64 \<Rightarrow> (WorkflowError, bool \<times> WorkflowTemplate) result" where
  "WorkflowTemplate_save t i now =
     try_then (WorkflowTemplate_validate t) (\<lambda>_.
     try_then (validate_input i) (\<lambda>_.
     if list_ex (\<lambda>receipt. tsr_request receipt = i) (wt_save_history t) then Ok (False, t)
     else if wt_deleted t \<or> wti_slug i \<noteq> wt_slug t \<or> wti_revision i \<noteq> wt_revision t
     then Err WeTemplateSaveConflict
     else if length (wt_save_history t) \<ge> MAX_WORKFLOW_TEMPLATE_REVISIONS then Err WeTemplateCapacity
     else if now < wt_updated_at_ms t then Err WeTemplateClock
     else Ok (True, t\<lparr>wt_title := wti_title i, wt_parameters := wti_parameters i, wt_steps := wti_steps i,
       wt_save_history := wt_save_history t @ [\<lparr>tsr_request = i, tsr_saved_at_ms = now\<rparr>],
       wt_revision := wt_revision t + 1, wt_updated_at_ms := now\<rparr>)))"

definition WorkflowTemplate_delete ::
  "WorkflowTemplate \<Rightarrow> u64 \<Rightarrow> u64 \<Rightarrow> (WorkflowError, bool \<times> WorkflowTemplate) result" where
  "WorkflowTemplate_delete t revision now =
     try_then (WorkflowTemplate_validate t) (\<lambda>_.
     if wt_deleted t \<and> checked_add revision 1 = Some (wt_revision t) then Ok (False, t)
     else if wt_deleted t \<or> revision \<noteq> wt_revision t then Err WeTemplateDeleteConflict
     else Ok (True, t\<lparr>wt_deleted := True, wt_revision := wt_revision t + 1,
       wt_updated_at_ms := max now (wt_updated_at_ms t)\<rparr>))"

text \<open>The values of a run: what the request gives, or the parameter's default.\<close>

fun values_loop ::
  "(string \<times> string) list \<Rightarrow> (string \<times> string) list \<Rightarrow> WorkflowTemplateParameter list
    \<Rightarrow> (WorkflowError, (string \<times> string) list) result" where
  "values_loop given inputs [] = Ok inputs"
| "values_loop given inputs (p # ps) =
     (case (case map_of given (tpr_name p) of Some v \<Rightarrow> Some v | None \<Rightarrow> tpr_default p) of
        None \<Rightarrow> Err (WeParameterMissing (tpr_name p))
      | Some v \<Rightarrow> values_loop given (bt_insert (tpr_name p) v inputs) ps)"

fun interpolate_steps ::
  "(string \<times> string) list \<Rightarrow> WorkflowStepSpec list \<Rightarrow> (WorkflowError, WorkflowStepSpec list) result" where
  "interpolate_steps inputs [] = Ok []"
| "interpolate_steps inputs (s # ss) =
     try_then (interpolate (wsp_title s) inputs) (\<lambda>title.
     try_then (interpolate (wsp_prompt s) inputs) (\<lambda>prompt.
     try_then (interpolate_steps inputs ss) (\<lambda>rest.
     Ok (\<lparr>wsp_id = wsp_id s, wsp_title = title, wsp_kind = wsp_kind s, wsp_prompt = prompt\<rparr> # rest))))"

definition materialize ::
  "WorkflowTemplate \<Rightarrow> string \<Rightarrow> WorkflowTemplateRunInput \<Rightarrow> u64 \<Rightarrow> (WorkflowError, WorkflowRun) result" where
  "materialize t i request now =
     try_then (WorkflowTemplate_validate t) (\<lambda>_.
     try_then (validate_run_input request) (\<lambda>_.
     if wt_deleted t \<or> tri_revision request \<noteq> wt_revision t then Err WeTemplateRunConflict
     else case find (\<lambda>name. name \<notin> tpr_name ` set (wt_parameters t)) (map fst (tri_inputs request)) of
         Some name \<Rightarrow> Err (WeParameterUnknown name)
       | None \<Rightarrow>
           try_then (values_loop (tri_inputs request) [] (wt_parameters t)) (\<lambda>inputs.
           try_then (validate_values inputs) (\<lambda>_.
           try_then (interpolate (wt_title t) inputs) (\<lambda>title.
           try_then (interpolate_steps inputs (wt_steps t)) (\<lambda>steps.
           try_then (WorkflowRun_new i (wt_agent_id t)
             \<lparr>wi_title = title, wi_request_key = tri_request_key request, wi_steps = steps\<rparr> now) (\<lambda>run.
           checked WorkflowRun_validate (run\<lparr>wr_source_template := Some
             \<lparr>wts_slug = wt_slug t, wts_revision = wt_revision t, wts_inputs = inputs,
              wts_request = request\<rparr>\<rparr>))))))))"

end
