(* ===== verification/Template_Facts.thy ===== *)
theory Template_Facts
  imports Workflow_Template
begin

text \<open>
  What a workflow template promises: its check accepts exactly the templates that saves and a
  deletion produce, a save can be repeated, the text of a run is the template's with the values put
  in and never read again, and the run it makes is a valid one that says where it comes from.
\<close>

section \<open>Receipts\<close>

definition receipt_fits :: "WorkflowTemplate \<Rightarrow> nat \<Rightarrow> WorkflowTemplateSaveReceipt \<Rightarrow> bool" where
  "receipt_fits t i r \<longleftrightarrow> validate_input (tsr_request r) = Ok () \<and> wti_slug (tsr_request r) = wt_slug t \<and>
     wti_revision (tsr_request r) = of_nat i \<and> tsr_saved_at_ms r \<le> wt_updated_at_ms t \<and>
     (i = 0 \<longrightarrow> tsr_saved_at_ms r = wt_created_at_ms t)"

lemma receipts_loop_ok:
  "receipts_loop t i p rs = Ok q \<longleftrightarrow> (\<forall>k<length rs. receipt_fits t (i + k) (rs ! k)) \<and>
     sorted (p # map tsr_saved_at_ms rs) \<and> q = last (p # map tsr_saved_at_ms rs)"
proof (induction rs arbitrary: i p)
  case (Cons r rs)
  have "receipts_loop t i p (r # rs) = Ok q \<longleftrightarrow> receipt_fits t i r \<and> p \<le> tsr_saved_at_ms r \<and>
      receipts_loop t (Suc i) (tsr_saved_at_ms r) rs = Ok q"
    by (auto simp: receipt_fits_def not_less)
  moreover have "sorted (p # map tsr_saved_at_ms (r # rs)) \<longleftrightarrow>
      p \<le> tsr_saved_at_ms r \<and> sorted (tsr_saved_at_ms r # map tsr_saved_at_ms rs)"
    by simp (blast intro: order.trans)
  moreover have "(\<forall>k<length (r # rs). receipt_fits t (i + k) ((r # rs) ! k)) \<longleftrightarrow>
      receipt_fits t i r \<and> (\<forall>k<length rs. receipt_fits t (Suc i + k) (rs ! k))"
    by (simp add: all_less_Suc_shift)
  ultimately show ?case unfolding Cons.IH by (simp del: sorted_wrt.simps receipts_loop.simps) blast
qed auto

definition template_ok :: "WorkflowTemplate \<Rightarrow> bool" where
  "template_ok t \<longleftrightarrow> \<not> blank (wt_agent_id t) \<and> length (wt_agent_id t) \<le> 128 \<and> \<not> any_control (wt_agent_id t) \<and>
     validate_slug (wt_slug t) = Ok () \<and> wt_save_history t \<noteq> [] \<and>
     length (wt_save_history t) \<le> MAX_WORKFLOW_TEMPLATE_REVISIONS \<and>
     wt_revision t = of_nat (length (wt_save_history t)) + (if wt_deleted t then 1 else 0) \<and>
     (\<forall>k<length (wt_save_history t). receipt_fits t k (wt_save_history t ! k)) \<and>
     sorted (map tsr_saved_at_ms (wt_save_history t)) \<and>
     (let latest = last (wt_save_history t) in
      wti_title (tsr_request latest) = wt_title t \<and> wti_parameters (tsr_request latest) = wt_parameters t \<and>
      wti_steps (tsr_request latest) = wt_steps t \<and> (\<not> wt_deleted t \<longrightarrow> tsr_saved_at_ms latest = wt_updated_at_ms t))"

lemma template_valid_iff: "WorkflowTemplate_validate t = Ok () \<longleftrightarrow> template_ok t"
proof (cases "wt_save_history t")
  case (Cons r rs)
  have "receipt_fits t 0 r \<Longrightarrow> tsr_saved_at_ms r = wt_created_at_ms t \<and> wt_created_at_ms t \<le> wt_updated_at_ms t"
    by (auto simp: receipt_fits_def)
  then show ?thesis
    using Cons unfolding WorkflowTemplate_validate_def template_ok_def
    by (auto simp: receipts_loop_ok Let_def not_less all_less_Suc_shift last_map simp del: receipts_loop.simps)
qed (simp add: WorkflowTemplate_validate_def template_ok_def)

section \<open>Every template that is valid is one that the operations produce\<close>

inductive template_step :: "WorkflowTemplate \<Rightarrow> WorkflowTemplate \<Rightarrow> bool" where
  save: "WorkflowTemplate_save t i now = Ok (changed, t') \<Longrightarrow> template_step t t'"
| delete: "WorkflowTemplate_delete t revision now = Ok (changed, t') \<Longrightarrow> template_step t t'"

inductive template_reachable :: "WorkflowTemplate \<Rightarrow> bool" where
  new: "WorkflowTemplate_new a i now = Ok t \<Longrightarrow> template_reachable t"
| step: "template_reachable t \<Longrightarrow> template_step t t' \<Longrightarrow> template_reachable t'"

lemma save_ok:
  assumes "template_ok t" and "validate_input i = Ok ()" and "\<not> wt_deleted t" and "wti_slug i = wt_slug t"
    and "wti_revision i = wt_revision t" and "length (wt_save_history t) < MAX_WORKFLOW_TEMPLATE_REVISIONS"
    and "wt_updated_at_ms t \<le> now"
  shows "template_ok (t\<lparr>wt_title := wti_title i, wt_parameters := wti_parameters i, wt_steps := wti_steps i,
    wt_save_history := wt_save_history t @ [\<lparr>tsr_request = i, tsr_saved_at_ms = now\<rparr>],
    wt_revision := wt_revision t + 1, wt_updated_at_ms := now\<rparr>)"
proof -
  have "receipt_fits (t\<lparr>wt_updated_at_ms := now\<rparr>) k r" if "receipt_fits t k r" for k r
    using that assms(7) by (auto simp: receipt_fits_def)
  moreover have "tsr_saved_at_ms r \<le> now" if "r \<in> set (wt_save_history t)" for r
    using that assms(1,7) by (auto simp: template_ok_def receipt_fits_def in_set_conv_nth)
  ultimately show ?thesis
    using assms by (auto simp: template_ok_def receipt_fits_def nth_append sorted_append less_Suc_eq Let_def
        add.commute)
qed

lemma delete_ok:
  assumes "template_ok t" and "\<not> wt_deleted t"
  shows "template_ok (t\<lparr>wt_deleted := True, wt_revision := wt_revision t + 1, wt_updated_at_ms := max now (wt_updated_at_ms t)\<rparr>)"
  using assms by (auto simp: template_ok_def receipt_fits_def Let_def max_def)

lemma template_step_valid: "template_step t t' \<Longrightarrow> WorkflowTemplate_validate t' = Ok ()"
proof (induction rule: template_step.induct)
  case (save t i now changed t')
  then show ?case
    by (auto simp: WorkflowTemplate_save_def template_valid_iff not_le not_less intro: save_ok split: if_splits)
next
  case (delete t revision now changed t')
  then show ?case
    by (auto simp: WorkflowTemplate_delete_def template_valid_iff intro: delete_ok split: if_splits)
qed

lemma template_reachable_valid: "template_reachable t \<Longrightarrow> WorkflowTemplate_validate t = Ok ()"
  by (induction rule: template_reachable.induct) (auto simp: WorkflowTemplate_new_def template_step_valid split: if_splits)

text \<open>The template after its first \<open>k\<close> saves.\<close>

definition template_at :: "WorkflowTemplate \<Rightarrow> nat \<Rightarrow> WorkflowTemplate" where
  "template_at t k =
     (let r = wt_save_history t ! (k - 1); i = tsr_request r in
      t\<lparr>wt_title := wti_title i, wt_parameters := wti_parameters i, wt_steps := wti_steps i,
        wt_save_history := take k (wt_save_history t), wt_revision := of_nat k,
        wt_updated_at_ms := tsr_saved_at_ms r, wt_deleted := False\<rparr>)"

lemma first_save:
  assumes "template_ok t"
  shows "WorkflowTemplate_new (wt_agent_id t) (tsr_request (wt_save_history t ! 0)) (wt_created_at_ms t) = Ok (template_at t 1)"
proof -
  obtain r rs where h: "wt_save_history t = r # rs" using assms by (cases "wt_save_history t") (auto simp: template_ok_def)
  have f: "receipt_fits t 0 r" using assms h by (auto simp: template_ok_def)
  have "template_ok (template_at t 1)"
    using assms f h by (simp add: template_ok_def template_at_def receipt_fits_def Let_def)
  moreover have "template_at t 1 = \<lparr>wt_agent_id = wt_agent_id t, wt_slug = wti_slug (tsr_request r), wt_revision = 1,
      wt_title = wti_title (tsr_request r), wt_parameters = wti_parameters (tsr_request r), wt_steps = wti_steps (tsr_request r),
      wt_created_at_ms = wt_created_at_ms t, wt_updated_at_ms = wt_created_at_ms t,
      wt_save_history = [\<lparr>tsr_request = tsr_request r, tsr_saved_at_ms = wt_created_at_ms t\<rparr>], wt_deleted = False\<rparr>"
    using f h by (intro WorkflowTemplate.equality) (auto simp: template_at_def receipt_fits_def Let_def)
  ultimately show ?thesis
    using f h by (simp add: WorkflowTemplate_new_def template_valid_iff receipt_fits_def)
qed

lemma next_save:
  assumes t: "template_ok t" and k: "0 < k" "k < length (wt_save_history t)"
    and v: "WorkflowTemplate_validate (template_at t k) = Ok ()"
  shows "WorkflowTemplate_save (template_at t k) (tsr_request (wt_save_history t ! k)) (tsr_saved_at_ms (wt_save_history t ! k)) =
    Ok (True, template_at t (Suc k))"
proof -
  let ?r = "wt_save_history t ! k"
  have len: "length (wt_save_history t) \<le> 16" using t by (simp add: template_ok_def MAX_WORKFLOW_TEMPLATE_REVISIONS_def)
  have fit: "receipt_fits t j (wt_save_history t ! j)" if "j < length (wt_save_history t)" for j
    using t that by (simp add: template_ok_def)
  have "tsr_request r \<noteq> tsr_request ?r" if "r \<in> set (take k (wt_save_history t))" for r
  proof -
    obtain j where j: "j < k" "r = wt_save_history t ! j" using \<open>r \<in> _\<close> k(2) by (auto simp: in_set_conv_nth)
    have "(of_nat j :: u64) \<noteq> of_nat k" using j(1) k(2) len by (auto simp: word_unat_eq_iff unat_of_nat)
    then show ?thesis using fit [of j] fit [OF k(2)] j k(2) by (auto simp: receipt_fits_def)
  qed
  then have new: "\<not> list_ex (\<lambda>r. tsr_request r = tsr_request ?r) (take k (wt_save_history t))" by (auto simp: list_ex_iff)
  have "tsr_saved_at_ms (wt_save_history t ! (k - 1)) \<le> tsr_saved_at_ms ?r"
    using t k sorted_nth_mono [of "map tsr_saved_at_ms (wt_save_history t)" "k - 1" k] by (simp add: template_ok_def)
  then have "WorkflowTemplate_save (template_at t k) (tsr_request ?r) (tsr_saved_at_ms ?r) =
      Ok (True, (template_at t k)\<lparr>wt_title := wti_title (tsr_request ?r), wt_parameters := wti_parameters (tsr_request ?r),
        wt_steps := wti_steps (tsr_request ?r), wt_save_history := take k (wt_save_history t) @ [?r],
        wt_revision := of_nat k + 1, wt_updated_at_ms := tsr_saved_at_ms ?r\<rparr>)"
    using v fit [OF k(2)] new k(2) len
    by (simp add: WorkflowTemplate_save_def template_at_def Let_def receipt_fits_def MAX_WORKFLOW_TEMPLATE_REVISIONS_def not_less)
  then show ?thesis using k(2) by (simp add: template_at_def Let_def take_Suc_conv_app_nth add.commute)
qed

lemma saves_reachable:
  assumes "template_ok t" and "0 < k" and "k \<le> length (wt_save_history t)"
  shows "template_reachable (template_at t k)"
  using assms(2,3)
proof (induction k)
  case (Suc k)
  show ?case
  proof (cases "k = 0")
    case True
    then show ?thesis using template_reachable.new [OF first_save [OF assms(1)]] by simp
  next
    case False
    then have r: "template_reachable (template_at t k)" using Suc by simp
    show ?thesis
      using template_reachable.step [OF r template_step.save [OF next_save [OF assms(1) _ _ template_reachable_valid [OF r]]]]
        False Suc.prems by simp
  qed
qed simp

lemma template_valid_reachable:
  assumes "WorkflowTemplate_validate t = Ok ()"
  shows "template_reachable t"
proof -
  let ?n = "length (wt_save_history t)"
  have t: "template_ok t" using assms by (simp add: template_valid_iff)
  then have ne: "wt_save_history t \<noteq> []" by (simp add: template_ok_def)
  have r: "template_reachable (template_at t ?n)" using saves_reachable [OF t, of ?n] ne by simp
  have last: "last (wt_save_history t) = wt_save_history t ! (?n - 1)" using ne by (rule last_conv_nth)
  show ?thesis
  proof (cases "wt_deleted t")
    case False
    then have "template_at t ?n = t"
      using t last by (intro WorkflowTemplate.equality) (auto simp: template_at_def template_ok_def Let_def)
    then show ?thesis using r by simp
  next
    case True
    have "tsr_saved_at_ms (wt_save_history t ! (?n - 1)) \<le> wt_updated_at_ms t"
      using t ne by (simp add: template_ok_def receipt_fits_def)
    then have "(template_at t ?n)\<lparr>wt_deleted := True, wt_revision := wt_revision (template_at t ?n) + 1,
        wt_updated_at_ms := max (wt_updated_at_ms t) (wt_updated_at_ms (template_at t ?n))\<rparr> = t"
      using t last True by (intro WorkflowTemplate.equality) (auto simp: template_at_def template_ok_def Let_def)
    then have "WorkflowTemplate_delete (template_at t ?n) (of_nat ?n) (wt_updated_at_ms t) = Ok (True, t)"
      using template_reachable_valid [OF r] by (simp add: WorkflowTemplate_delete_def) (simp add: template_at_def Let_def)
    then show ?thesis using template_reachable.step [OF r] template_step.delete by blast
  qed
qed

section \<open>Interpolation\<close>

text \<open>A text in pieces: plain, an escaped placeholder, and a placeholder with its parameter.\<close>

datatype piece = Plain string | Escaped string | Placeholder string

fun piece_source :: "piece \<Rightarrow> string" where
  "piece_source (Plain s) = s"
| "piece_source (Escaped s) = ''$${'' @ s @ ''}''"
| "piece_source (Placeholder name) = ''${'' @ name @ ''}''"

fun piece_text :: "(string \<times> string) list \<Rightarrow> piece \<Rightarrow> string" where
  "piece_text inputs (Plain s) = s"
| "piece_text inputs (Escaped s) = ''${'' @ s @ ''}''"
| "piece_text inputs (Placeholder name) = (case map_of inputs name of Some value \<Rightarrow> value | None \<Rightarrow> [])"

fun piece_ok :: "(string \<times> string) list \<Rightarrow> piece \<Rightarrow> bool" where
  "piece_ok inputs (Plain s) \<longleftrightarrow> CHR ''$'' \<notin> set s"
| "piece_ok inputs (Escaped s) \<longleftrightarrow> CHR ''}'' \<notin> set s"
| "piece_ok inputs (Placeholder name) \<longleftrightarrow> valid_name name \<and> name \<in> fst ` set inputs"

lemma find_brace_append: "CHR ''}'' \<notin> set s \<Longrightarrow> find_brace (s @ CHR ''}'' # rest) = Some (length s)"
  by (induction s) auto

lemma valid_name_brace: "valid_name name \<Longrightarrow> CHR ''}'' \<notin> set name"
proof
  assume "valid_name name" "CHR ''}'' \<in> set name"
  then obtain i where i: "i < length name" "name ! i = CHR ''}''" by (auto simp: in_set_conv_nth)
  then have "enumerate 0 name ! i = (i, CHR ''}'')" by (simp add: nth_enumerate_eq)
  then have "(i, CHR ''}'') \<in> set (enumerate 0 name)" using i(1) by (metis length_enumerate nth_mem)
  with \<open>valid_name name\<close> show False
    by (auto simp: valid_name_def list_all_iff is_ascii_alphabetic_def is_ascii_digit_def code_def)
qed

lemma turn_plain: "c \<noteq> CHR ''$'' \<Longrightarrow> interpolate_turn inputs (c # rest) = Ok ([c], rest)"
  by (simp add: interpolate_turn_def str_strip_prefix_def)

lemma turn_escaped: "CHR ''}'' \<notin> set s \<Longrightarrow>
    interpolate_turn inputs (''$${'' @ s @ ''}'' @ rest) = Ok (''${'' @ s @ ''}'', rest)"
  by (simp add: interpolate_turn_def str_strip_prefix_def find_brace_append)

lemma turn_placeholder: "valid_name name \<Longrightarrow> map_of inputs name = Some value \<Longrightarrow>
    interpolate_turn inputs (''${'' @ name @ ''}'' @ rest) = Ok (value, rest)"
  using valid_name_brace by (simp add: interpolate_turn_def str_strip_prefix_def find_brace_append Let_def)

lemma loop_turn:
  "rest \<noteq> [] \<Longrightarrow> interpolate_turn inputs rest = Ok (add, rest') \<Longrightarrow>
     interpolate_loop inputs out rest =
       (if length (out @ add) > 32 * 1024 then Err WeExpandedBytes else interpolate_loop inputs (out @ add) rest')"
  by (simp add: interpolate_loop.simps [of inputs out rest])

lemma loop_plain:
  "CHR ''$'' \<notin> set s \<Longrightarrow> length out \<le> 32 * 1024 \<Longrightarrow> interpolate_loop inputs out (s @ rest) =
     (if length (out @ s) > 32 * 1024 then Err WeExpandedBytes else interpolate_loop inputs (out @ s) rest)"
proof (induction s arbitrary: out)
  case (Cons c s)
  then have "c \<noteq> CHR ''$''" by auto
  then have "interpolate_turn inputs (c # s @ rest) = Ok ([c], s @ rest)" by (rule turn_plain)
  from loop_turn [OF _ this, of out] show ?case using Cons by auto
qed simp

lemma loop_piece:
  assumes "piece_ok inputs p" and "length out \<le> 32 * 1024"
  shows "interpolate_loop inputs out (piece_source p @ rest) =
     (if length (out @ piece_text inputs p) > 32 * 1024 then Err WeExpandedBytes
      else interpolate_loop inputs (out @ piece_text inputs p) rest)"
proof (cases p)
  case (Plain s)
  then show ?thesis using assms loop_plain by simp
next
  case (Escaped s)
  then show ?thesis using assms loop_turn [OF _ turn_escaped [of s inputs rest], of out] by simp
next
  case (Placeholder name)
  then obtain val where v: "map_of inputs name = Some val" "valid_name name"
    using assms(1) by (metis map_of_eq_None_iff not_Some_eq piece_ok.simps(3))
  then show ?thesis using Placeholder loop_turn [OF _ turn_placeholder [OF v(2,1)], of rest out] by simp
qed

lemma loop_pieces:
  "list_all (piece_ok inputs) ps \<Longrightarrow> length out \<le> 32 * 1024 \<Longrightarrow>
   interpolate_loop inputs out (concat (map piece_source ps)) =
     (if length (out @ concat (map (piece_text inputs) ps)) > 32 * 1024 then Err WeExpandedBytes
      else Ok (out @ concat (map (piece_text inputs) ps)))"
proof (induction ps arbitrary: out)
  case Nil
  then show ?case by (simp add: interpolate_loop.simps)
next
  case (Cons p ps)
  then show ?case using loop_piece [of inputs p out "concat (map piece_source ps)"] by auto
qed

section \<open>The values of a run\<close>

lemma parameters_distinct:
  "parameters_loop defaults ps = Ok out \<Longrightarrow> distinct (map tpr_name ps) \<and> tpr_name ` set ps \<inter> fst ` set defaults = {}"
proof (induction defaults ps arbitrary: out rule: parameters_loop.induct)
  case (2 defaults p ps)
  then show ?case by (auto simp: map_of_eq_None_iff split: if_splits)
qed simp

definition given_or_default :: "(string \<times> string) list \<Rightarrow> WorkflowTemplateParameter \<Rightarrow> string option" where
  "given_or_default given p = (case map_of given (tpr_name p) of Some v \<Rightarrow> Some v | None \<Rightarrow> tpr_default p)"

lemma values_loop_ok:
  "values_loop given inputs ps = Ok out \<Longrightarrow> distinct (map tpr_name ps) \<Longrightarrow>
     (\<forall>p \<in> set ps. given_or_default given p \<noteq> None \<and> map_of out (tpr_name p) = given_or_default given p) \<and>
     (\<forall>n. n \<notin> tpr_name ` set ps \<longrightarrow> map_of out n = map_of inputs n)"
proof (induction ps arbitrary: inputs)
  case (Cons p ps)
  obtain v where v: "given_or_default given p = Some v" "values_loop given (bt_insert (tpr_name p) v inputs) ps = Ok out"
    using Cons.prems(1) by (cases "given_or_default given p") (simp_all add: given_or_default_def [symmetric])
  have ih: "(\<forall>p \<in> set ps. given_or_default given p \<noteq> None \<and> map_of out (tpr_name p) = given_or_default given p) \<and>
     (\<forall>n. n \<notin> tpr_name ` set ps \<longrightarrow> map_of out n = map_of (bt_insert (tpr_name p) v inputs) n)"
    using Cons.IH [OF v(2)] Cons.prems(2) by simp
  then show ?case using v Cons.prems(2) by auto
qed simp

lemma template_parameters_distinct: "template_ok t \<Longrightarrow> distinct (map tpr_name (wt_parameters t))"
proof -
  assume t: "template_ok t"
  then have "validate_input (tsr_request (last (wt_save_history t))) = Ok ()"
    by (auto simp: template_ok_def receipt_fits_def last_conv_nth)
  then show ?thesis
    using t parameters_distinct by (auto simp: validate_input_def template_ok_def Let_def split: if_splits)
qed

lemma interpolate_steps_ok:
  "interpolate_steps inputs ss = Ok out \<longleftrightarrow> list_all2 (\<lambda>s x. wsp_id x = wsp_id s \<and> wsp_kind x = wsp_kind s \<and>
     interpolate (wsp_title s) inputs = Ok (wsp_title x) \<and> interpolate (wsp_prompt s) inputs = Ok (wsp_prompt x)) ss out"
proof (induction ss arbitrary: out)
  case (Cons s ss)
  show ?case
  proof (cases out)
    case (Cons x xs)
    then show ?thesis using Cons.IH by (cases x) auto
  qed auto
qed auto

section \<open>A template and its run\<close>

definition template_step_spec :: "string \<Rightarrow> WorkflowStepSpec" where
  "template_step_spec prompt = \<lparr>wsp_id = ''a'', wsp_title = ''t'', wsp_kind = TaskStep, wsp_prompt = prompt\<rparr>"

definition example_parameters :: "WorkflowTemplateParameter list" where
  "example_parameters = [\<lparr>tpr_name = ''x'', tpr_default = Some ''d''\<rparr>]"

definition example_template_input :: WorkflowTemplateInput where
  "example_template_input = \<lparr>wti_slug = ''s'', wti_revision = 0, wti_title = ''t'', wti_parameters = example_parameters,
     wti_steps = [template_step_spec ''${x}'']\<rparr>"

definition example_template :: WorkflowTemplate where
  "example_template = \<lparr>wt_agent_id = ''g'', wt_slug = ''s'', wt_revision = 1, wt_title = ''t'',
     wt_parameters = example_parameters, wt_steps = [template_step_spec ''${x}''], wt_created_at_ms = 5, wt_updated_at_ms = 5,
     wt_save_history = [\<lparr>tsr_request = example_template_input, tsr_saved_at_ms = 5\<rparr>], wt_deleted = False\<rparr>"

definition example_template_run :: WorkflowTemplateRunInput where
  "example_template_run = \<lparr>tri_request_key = ''k'', tri_revision = 1, tri_inputs = [(''x'', ''v'')]\<rparr>"

definition template_definition :: "string \<Rightarrow> string \<Rightarrow> WorkflowInput" where
  "template_definition key prompt = \<lparr>wi_title = ''t'', wi_request_key = key, wi_steps = [template_step_spec prompt]\<rparr>"

lemma example_texts:
  "\<not> blank ''t''" "\<not> blank ''k''" "\<not> blank ''v''" "\<not> blank ''${x}''" "\<not> blank ''g''" "\<not> blank ''template-validation''"
  "char_count ''t'' = 1" "list_all step_id_char ''a''" "\<not> any_control ''g''" "\<not> any_control ''k''" "valid_name ''x''"
  "validate_slug ''s'' = Ok ()" "validate_reference ''w'' ''workflow ID'' = Ok ()" "validate_reference ''g'' ''agent ID'' = Ok ()"
  "validate_reference ''template-validation'' ''workflow ID'' = Ok ()" "validate_reference ''agent'' ''agent ID'' = Ok ()"
  by code_simp+

lemma template_definition_ok:
  assumes "key \<in> {''k'', ''template-validation''}" and "prompt \<in> {''v'', ''${x}''}"
  shows "validate_definition (template_definition key prompt) = Ok ()"
  using assms example_texts
  by (auto simp: validate_definition_def template_definition_def template_step_spec_def MAX_WORKFLOW_STEPS_def
      MAX_WORKFLOW_TITLE_CHARS_def MAX_WORKFLOW_REQUEST_KEY_BYTES_def MAX_WORKFLOW_STEP_ID_BYTES_def
      MAX_WORKFLOW_PROMPT_BYTES_def MAX_WORKFLOW_DEFINITION_BYTES_def)

lemma example_interpolate:
  "interpolate ''t'' inputs = Ok ''t''" "interpolate ''${x}'' [(''x'', [c])] = Ok [c]"
  using loop_pieces [of inputs "[Plain ''t'']" "[]"] loop_pieces [of "[(''x'', [c])]" "[Placeholder ''x'']" "[]"] example_texts
  by (simp_all add: interpolate_def)

lemma example_values: "code c \<noteq> 0 \<Longrightarrow> validate_values [(''x'', [c])] = Ok ()"
  using example_texts
  by (auto simp: validate_values_def MAX_WORKFLOW_TEMPLATE_PARAMETERS_def MAX_WORKFLOW_TEMPLATE_INPUT_BYTES_def code_def)

lemma example_input_ok: "validate_input example_template_input = Ok ()"
proof -
  have "WorkflowRun_new ''template-validation'' ''agent'' (template_definition ''template-validation'' ''${x}'') 0 =
      Ok (new_run ''template-validation'' ''agent'' (template_definition ''template-validation'' ''${x}'') 0)"
    using template_definition_ok example_texts by (simp add: new_ok_iff)
  moreover have "validate_values [(''x'', ''d'')] = Ok ()" by (rule example_values) (simp add: code_def)
  ultimately show ?thesis
    using example_texts example_interpolate
    by (simp add: validate_input_def example_template_input_def example_parameters_def template_step_spec_def template_definition_def
        MAX_WORKFLOW_TEMPLATE_PARAMETERS_def)
qed

lemma example_template_ok: "template_ok example_template"
  using example_texts example_input_ok
  by (simp add: template_ok_def example_template_def receipt_fits_def MAX_WORKFLOW_TEMPLATE_REVISIONS_def)
    (simp add: example_template_input_def)

lemma example_template_new: "WorkflowTemplate_new ''g'' example_template_input 5 = Ok example_template"
  using first_save [OF example_template_ok]
  by (simp add: example_template_def template_at_def example_template_input_def)

definition example_materialized :: WorkflowRun where
  "example_materialized = (new_run ''w'' ''g'' (template_definition ''k'' ''v'') 9)\<lparr>wr_source_template := Some
     \<lparr>wts_slug = ''s'', wts_revision = 1, wts_inputs = [(''x'', ''v'')], wts_request = example_template_run\<rparr>\<rparr>"

lemma example_materialize: "materialize example_template ''w'' example_template_run 9 = Ok example_materialized"
proof -
  have vals: "validate_values [(''x'', ''v'')] = Ok ()" by (rule example_values) (simp add: code_def)
  have run: "WorkflowRun_new ''w'' ''g'' (template_definition ''k'' ''v'') 9 = Ok (new_run ''w'' ''g'' (template_definition ''k'' ''v'') 9)"
    using template_definition_ok example_texts by (simp add: new_ok_iff)
  have "WorkflowTemplateSource_validate \<lparr>wts_slug = ''s'', wts_revision = 1, wts_inputs = [(''x'', ''v'')],
      wts_request = example_template_run\<rparr> ''k'' = Ok ()"
    using vals example_texts by (simp add: WorkflowTemplateSource_validate_def validate_run_input_def example_template_run_def)
  then have pin: "WorkflowRun_validate example_materialized = Ok ()"
    unfolding example_materialized_def
    by (intro pinned_valid reachable_valid [OF workflow_reachable.new [OF run]]) (simp add: template_definition_def)
  have "validate_run_input example_template_run = Ok ()"
    using vals example_texts by (simp add: validate_run_input_def example_template_run_def)
  then show ?thesis
    using example_template_ok vals run pin example_interpolate
    by (simp add: materialize_def template_valid_iff example_template_def example_template_run_def example_parameters_def
        template_step_spec_def template_definition_def example_materialized_def)
qed

section \<open>Properties of templates\<close>

text \<open>\<^bold>\<open>C37.\<close> 
  \<open>WorkflowTemplate::validate\<close> accepts a template exactly when a creation, saves and a deletion
  produce it: the receipts of its saves tell its whole history.
\<close>

theorem template_validate_exact: "WorkflowTemplate_validate t = Ok () \<longleftrightarrow> template_reachable t"
  using template_reachable_valid template_valid_reachable by blast

lemma template_step_history:
  "template_step t t' \<Longrightarrow> set (wt_save_history t) \<subseteq> set (wt_save_history t')"
  by (induction rule: template_step.induct)
    (auto simp: WorkflowTemplate_save_def WorkflowTemplate_delete_def split: if_splits)

interpretation template_saves: retry_safe template_step "\<lambda>t. WorkflowTemplate_validate t = Ok ()"
  "\<lambda>t i t'. \<exists>now changed. WorkflowTemplate_save t i now = Ok (changed, t')"
  "\<lambda>t i. validate_input i = Ok () \<and> i \<in> tsr_request ` set (wt_save_history t)"
  "\<lambda>t i. \<forall>now. WorkflowTemplate_save t i now = Ok (False, t)"
proof unfold_locales
  show "WorkflowTemplate_validate t' = Ok ()" if "template_step t t'" for t t' using that by (rule template_step_valid)
next
  fix t i t' assume "\<exists>now changed. WorkflowTemplate_save t i now = Ok (changed, t')"
  then obtain now changed where s: "WorkflowTemplate_save t i now = Ok (changed, t')" by blast
  then have "validate_input i = Ok ()" "i \<in> tsr_request ` set (wt_save_history t')"
    by (auto simp: WorkflowTemplate_save_def list_ex_iff split: if_splits)
  then show "WorkflowTemplate_validate t' = Ok () \<and> validate_input i = Ok () \<and> i \<in> tsr_request ` set (wt_save_history t')"
    using template_step_valid [OF template_step.save [OF s]] by blast
next
  fix t t' i assume "template_step t t'" "validate_input i = Ok () \<and> i \<in> tsr_request ` set (wt_save_history t)"
  then show "validate_input i = Ok () \<and> i \<in> tsr_request ` set (wt_save_history t')" using template_step_history by blast
next
  fix t i assume "WorkflowTemplate_validate t = Ok ()" "validate_input i = Ok () \<and> i \<in> tsr_request ` set (wt_save_history t)"
  then show "\<forall>now. WorkflowTemplate_save t i now = Ok (False, t)" by (auto simp: WorkflowTemplate_save_def list_ex_iff)
qed

text \<open>
  A save that was accepted can be repeated: the same request, sent again after any number of other
  saves or after the deletion, answers that it is recorded and changes nothing.
\<close>

theorem template_save_retry_safe:
  assumes "WorkflowTemplate_save t i now = Ok (changed, t')" and "template_step\<^sup>*\<^sup>* t' t''"
  shows "WorkflowTemplate_save t'' i later = Ok (False, t'')"
  using template_saves.repeated_answers [OF _ assms(2)] assms(1) by blast

theorem template_save_retry_safe_witness:
  "\<exists>t'. WorkflowTemplate_save example_template (example_template_input\<lparr>wti_revision := 1\<rparr>) 7 = Ok (True, t') \<and>
    WorkflowTemplate_save t' (example_template_input\<lparr>wti_revision := 1\<rparr>) 0 = Ok (False, t')"
proof -
  let ?i = "example_template_input\<lparr>wti_revision := 1\<rparr>"
  have "validate_input (i\<lparr>wti_revision := r\<rparr>) = validate_input i" for i r by (simp add: validate_input_def)
  then have "validate_input ?i = Ok ()" using example_input_ok by simp
  moreover have "example_template_input \<noteq> ?i" by (simp add: example_template_input_def)
  moreover have "wt_deleted example_template = False" "wt_slug example_template = wti_slug ?i"
    "wt_revision example_template = wti_revision ?i" "wt_updated_at_ms example_template = 5"
    "wt_save_history example_template = [\<lparr>tsr_request = example_template_input, tsr_saved_at_ms = 5\<rparr>]"
    by (simp_all add: example_template_def example_template_input_def)
  ultimately obtain t' where t': "WorkflowTemplate_save example_template ?i 7 = Ok (True, t')"
    using example_template_ok by (simp add: WorkflowTemplate_save_def template_valid_iff MAX_WORKFLOW_TEMPLATE_REVISIONS_def)
  then show ?thesis using template_save_retry_safe [OF t', of t' 0] by blast
qed

text \<open>
  Interpolation puts the values in and nothing else: plain text is copied, an escaped placeholder
  keeps its placeholder, a placeholder becomes the value, which is not read again; only a result of
  more than 32 KiB is an error.
\<close>

theorem interpolate_pieces:
  assumes "list_all (piece_ok inputs) ps"
  shows "interpolate (concat (map piece_source ps)) inputs =
    (if length (concat (map (piece_text inputs) ps)) \<le> 32 * 1024 then Ok (concat (map (piece_text inputs) ps))
     else Err WeExpandedBytes)"
  using loop_pieces [OF assms, of "[]"] by (auto simp: interpolate_def)

theorem interpolate_pieces_witness:
  "interpolate ''a${x}$${x}'' [(''x'', ''${x}'')] = Ok ''a${x}${x}''"
  using interpolate_pieces [of "[(''x'', ''${x}'')]" "[Plain ''a'', Placeholder ''x'', Escaped ''x'']"] example_texts(11)
  by simp

text \<open>\<^bold>\<open>C24.\<close> 
  A run made from a template is one that the operations on runs can produce, for the template's agent
  and the request's key; it is pinned to the template's revision and the request, every parameter has
  the value given or its default, and its title and steps are the template's with these values.
\<close>

theorem materialize_spec:
  assumes "materialize t i request now = Ok w"
  shows "workflow_reachable w \<and> wr_id w = i \<and> wr_agent_id w = wt_agent_id t \<and> wr_request_key w = tri_request_key request \<and>
    (\<exists>inputs. wr_source_template w = Some \<lparr>wts_slug = wt_slug t, wts_revision = wt_revision t, wts_inputs = inputs,
        wts_request = request\<rparr> \<and>
      (\<forall>p \<in> set (wt_parameters t). map_of inputs (tpr_name p) = given_or_default (tri_inputs request) p) \<and>
      interpolate (wt_title t) inputs = Ok (wr_title w) \<and>
      list_all2 (\<lambda>s x. ws_id x = wsp_id s \<and> ws_kind x = wsp_kind s \<and> interpolate (wsp_title s) inputs = Ok (ws_title x) \<and>
        interpolate (wsp_prompt s) inputs = Ok (ws_prompt x)) (wt_steps t) (wr_steps w))"
proof -
  obtain inputs title steps run where t: "template_ok t"
    and vals: "values_loop (tri_inputs request) [] (wt_parameters t) = Ok inputs"
    and title: "interpolate (wt_title t) inputs = Ok title" and steps: "interpolate_steps inputs (wt_steps t) = Ok steps"
    and run: "WorkflowRun_new i (wt_agent_id t) \<lparr>wi_title = title, wi_request_key = tri_request_key request, wi_steps = steps\<rparr> now = Ok run"
    and w: "w = run\<lparr>wr_source_template := Some \<lparr>wts_slug = wt_slug t, wts_revision = wt_revision t, wts_inputs = inputs,
      wts_request = request\<rparr>\<rparr>" and v: "WorkflowRun_validate w = Ok ()"
    using assms by (auto simp: materialize_def template_valid_iff split: if_splits option.splits)
  let ?d = "\<lparr>wi_title = title, wi_request_key = tri_request_key request, wi_steps = steps\<rparr>"
  have r: "run = new_run i (wt_agent_id t) ?d now" "steps \<noteq> []"
    using run by (auto simp: new_ok_iff validate_definition_def split: if_splits)
  have "map spec_of_step (wr_steps w) = steps"
    using r by (simp add: w new_run_fields Let_def map_update comp_def list_update_same_conv)
  then have "list_all2 (\<lambda>s x. ws_id x = wsp_id s \<and> ws_kind x = wsp_kind s \<and> interpolate (wsp_title s) inputs = Ok (ws_title x) \<and>
        interpolate (wsp_prompt s) inputs = Ok (ws_prompt x)) (wt_steps t) (wr_steps w)"
    using steps by (auto simp: interpolate_steps_ok list_all2_map2 spec_of_step_def dest!: sym [of _ steps])
  then show ?thesis
    using values_loop_ok [OF vals template_parameters_distinct [OF t]] title valid_is_reachable [OF v] r by (simp add: w)
qed

theorem materialize_spec_witness:
  "materialize example_template ''w'' example_template_run 9 = Ok example_materialized \<and> workflow_reachable example_materialized \<and>
    map ws_prompt (wr_steps example_materialized) = [''v'']"
proof -
  have "map ws_prompt (wr_steps example_materialized) = [''v'']"
    by (simp add: example_materialized_def new_run_fields template_definition_def template_step_spec_def fresh_step_def)
  then show ?thesis using materialize_spec [OF example_materialize] example_materialize by blast
qed

text \<open>
  A template can be saved whose own defaults make no run: the check of a save runs the texts through
  the interpolation, but checks the definition only as it is stored.
\<close>

lemma unrunnable_defaults:
  assumes "validate_input i = Ok ()" and "wti_title i = ''${x}''" and "map_of inputs ''x'' = Some []"
  shows "interpolate (wti_title i) inputs = Ok [] \<and>
    WorkflowRun_new n a \<lparr>wi_title = [], wi_request_key = k, wi_steps = wti_steps i\<rparr> now = Err WeTitle"
proof -
  have "wti_steps i \<noteq> [] \<and> length (wti_steps i) \<le> MAX_WORKFLOW_STEPS"
    using assms(1) by (auto simp: validate_input_def new_ok_iff validate_definition_def split: if_splits)
  then have "validate_definition \<lparr>wi_title = [], wi_request_key = k, wi_steps = wti_steps i\<rparr> = Err WeTitle"
    by (simp add: validate_definition_def blank_def)
  moreover have "piece_ok inputs (Placeholder ''x'')" "piece_text inputs (Placeholder ''x'') = []"
    using assms(3) example_texts(11) by (auto dest!: map_of_SomeD intro: rev_image_eqI)
  then have "interpolate ''${x}'' inputs = Ok []"
    using loop_pieces [of inputs "[Placeholder ''x'']" "[]"] by (simp add: interpolate_def)
  ultimately show ?thesis using assms(2) by (simp add: WorkflowRun_new_def)
qed

end
