(* ===== verification/Schedule.thy ===== *)
theory Schedule
  imports Anima_Prelude
begin

text \<open>
  The scheduling engine, \<open>anima-schedule/src/lib.rs\<close>: jobs with an interval or a daily local time,
  the check of a job list, one tick of the scheduler and the hint how long to sleep. The clock is an
  argument of every operation, as in the code.

  \<open>i64\<close> arithmetic is \<^typ>\<open>int\<close> with \<open>wrap_i64\<close> written where the code's result can leave the type;
  it wraps in a release build. \<open>i32\<close> is \<^typ>\<open>int\<close> too: the offset of a time zone.
\<close>

section \<open>Data\<close>

definition MINUTE_MS :: int where "MINUTE_MS = 60000"
definition DAY_MS :: int where "DAY_MS = 86400000"
definition MAX_TZ_OFFSET_MINUTES :: int where "MAX_TZ_OFFSET_MINUTES = 14 * 60"

definition wrap_i64 :: "int \<Rightarrow> i64" where
  "wrap_i64 x = (x + 2 ^ 63) mod 2 ^ 64 - 2 ^ 63"

definition wrap_i32 :: "int \<Rightarrow> int" where
  "wrap_i32 x = (x + 2 ^ 31) mod 2 ^ 32 - 2 ^ 31"

definition saturating_mul :: "u64 \<Rightarrow> u64 \<Rightarrow> u64" where
  "saturating_mul a b = (if unat a * unat b < 2 ^ 64 then a * b else - 1)"

datatype ScheduleTrigger =
    Every u64
  | DailyAt "8 word" "8 word" int

record ScheduledJob =
  sj_name :: string
  sj_agent_name :: string
  sj_prompt :: string
  sj_trigger :: ScheduleTrigger
  sj_enabled :: bool

record FireState =
  last_fired_ms :: "u64 option"
  last_fired_day :: "i64 option"

record Scheduler =
  sc_jobs :: "ScheduledJob list"
  sc_state :: "FireState list"

datatype ScheduleError =
    SeName | SeAgentName string | SePrompt string | SeDuplicate string | SeInterval string
  | SeHour string | SeMinute string | SeOffset string

section \<open>Creation\<close>

definition check_trigger :: "string \<Rightarrow> ScheduleTrigger \<Rightarrow> (ScheduleError, unit) result" where
  "check_trigger name t =
     (case t of
        Every interval_secs \<Rightarrow> reject_if (interval_secs = 0) (SeInterval name)
      | DailyAt hour minute tz_offset_minutes \<Rightarrow>
          if hour \<ge> 24 then Err (SeHour name)
          else if minute \<ge> 60 then Err (SeMinute name)
          else reject_if (wrap_i32 \<bar>tz_offset_minutes\<bar> > MAX_TZ_OFFSET_MINUTES) (SeOffset name))"

fun jobs_check :: "string set \<Rightarrow> ScheduledJob list \<Rightarrow> (ScheduleError, unit) result" where
  "jobs_check seen [] = Ok ()"
| "jobs_check seen (j # js) =
     (if blank (sj_name j) then Err SeName
      else if blank (sj_agent_name j) then Err (SeAgentName (sj_name j))
      else if blank (sj_prompt j) then Err (SePrompt (sj_name j))
      else if sj_name j \<in> seen then Err (SeDuplicate (sj_name j))
      else try_then (check_trigger (sj_name j) (sj_trigger j)) (\<lambda>_.
        jobs_check (insert (sj_name j) seen) js))"

definition FireState_default :: FireState where
  "FireState_default = \<lparr>last_fired_ms = None, last_fired_day = None\<rparr>"

definition Scheduler_new :: "ScheduledJob list \<Rightarrow> (ScheduleError, Scheduler) result" where
  "Scheduler_new js =
     try_then (jobs_check {} js) (\<lambda>_.
     Ok \<lparr>sc_jobs = js, sc_state = replicate (length js) FireState_default\<rparr>)"

section \<open>A tick\<close>

definition local_ms :: "u64 \<Rightarrow> int \<Rightarrow> i64" where
  "local_ms now tz_offset_minutes = wrap_i64 (wrap_i64 (uint now) + tz_offset_minutes * MINUTE_MS)"

definition local_minutes_of_day :: "i64 \<Rightarrow> nat" where
  "local_minutes_of_day l = nat (l mod DAY_MS div MINUTE_MS)"

text \<open>Whether a job fires, and what is remembered of it.\<close>

definition job_fires :: "u64 \<Rightarrow> ScheduleTrigger \<Rightarrow> FireState \<Rightarrow> bool" where
  "job_fires now trigger st =
     (case trigger of
        Every interval_secs \<Rightarrow>
          (case last_fired_ms st of
             None \<Rightarrow> True
           | Some l \<Rightarrow> saturating_sub now l \<ge> saturating_mul interval_secs 1000)
      | DailyAt hour minute tz_offset_minutes \<Rightarrow>
          let l = local_ms now tz_offset_minutes in
          local_minutes_of_day l \<ge> unat hour * 60 + unat minute
          \<and> last_fired_day st \<noteq> Some (l div DAY_MS))"

definition record_fire :: "u64 \<Rightarrow> ScheduleTrigger \<Rightarrow> FireState \<Rightarrow> FireState" where
  "record_fire now trigger st =
     (case trigger of
        Every interval_secs \<Rightarrow> st\<lparr>last_fired_ms := Some now\<rparr>
      | DailyAt hour minute tz_offset_minutes \<Rightarrow>
          st\<lparr>last_fired_day := Some (local_ms now tz_offset_minutes div DAY_MS)\<rparr>)"

text \<open>The loop over the jobs and their states, which have the same length.\<close>

fun due_loop :: "u64 \<Rightarrow> ScheduledJob list \<Rightarrow> FireState list \<Rightarrow> ScheduledJob list \<times> FireState list" where
  "due_loop now (j # js) (st # sts) =
     (let (due, sts') = due_loop now js sts in
      if sj_enabled j \<and> job_fires now (sj_trigger j) st
      then (j # due, record_fire now (sj_trigger j) st # sts')
      else (due, st # sts'))"
| "due_loop now _ sts = ([], sts)"

definition due_jobs :: "Scheduler \<Rightarrow> u64 \<Rightarrow> ScheduledJob list \<times> Scheduler" where
  "due_jobs s now =
     (let (due, sts) = due_loop now (sc_jobs s) (sc_state s) in (due, s\<lparr>sc_state := sts\<rparr>))"

section \<open>How long to sleep\<close>

text \<open>\<open>None\<close> is the early return of \<open>Some(0)\<close>.\<close>

definition job_wait :: "u64 \<Rightarrow> ScheduleTrigger \<Rightarrow> FireState \<Rightarrow> u64 option" where
  "job_wait now trigger st =
     (case trigger of
        Every interval_secs \<Rightarrow>
          (case last_fired_ms st of
             None \<Rightarrow> Some 0
           | Some l \<Rightarrow> Some (saturating_sub (saturating_mul interval_secs 1000) (saturating_sub now l)))
      | DailyAt hour minute tz_offset_minutes \<Rightarrow>
          let l = local_ms now tz_offset_minutes;
              day = l div DAY_MS;
              target_min = uint hour * 60 + uint minute;
              fired_today = (last_fired_day st = Some day);
              reached = (int (local_minutes_of_day l) \<ge> target_min) in
          if \<not> fired_today \<and> reached then None
          else let fire_day = (if \<not> fired_today then day else day + 1);
                   fire_local_ms = wrap_i64 (wrap_i64 (fire_day * DAY_MS) + target_min * MINUTE_MS) in
            Some (of_int (max (wrap_i64 (fire_local_ms - l)) 0)))"

fun next_loop :: "u64 \<Rightarrow> u64 option \<Rightarrow> ScheduledJob list \<Rightarrow> FireState list \<Rightarrow> u64 option" where
  "next_loop now best (j # js) (st # sts) =
     (if \<not> sj_enabled j then next_loop now best js sts
      else case job_wait now (sj_trigger j) st of
          None \<Rightarrow> Some 0
        | Some wait \<Rightarrow>
            next_loop now (Some (case best of None \<Rightarrow> wait | Some current \<Rightarrow> min current wait)) js sts)"
| "next_loop now best _ _ = best"

definition next_due_in_ms :: "Scheduler \<Rightarrow> u64 \<Rightarrow> u64 option" where
  "next_due_in_ms s now = next_loop now None (sc_jobs s) (sc_state s)"

end
