(* ===== verification/Schedule_Facts.thy ===== *)
theory Schedule_Facts
  imports Schedule
begin

text \<open>
  What the scheduler promises: the sleep hint is exact, a daily job fires once on every local day with
  a tick at or after its time, an interval job fires as soon as its interval has passed and never
  sooner. Ticks may come late or be skipped; they must not go back in time.
\<close>

section \<open>Arithmetic\<close>

lemma wrap_i64_id: "- 9223372036854775808 \<le> x \<Longrightarrow> x < 9223372036854775808 \<Longrightarrow> wrap_i64 x = x"
  by (simp add: wrap_i64_def)

lemma le_div_iff: "0 < c \<Longrightarrow> a \<le> x div c \<longleftrightarrow> a * c \<le> x" for a c x :: int
proof -
  assume c: "0 < c"
  have "x div c * c \<le> x" using c by (simp add: minus_mod_eq_div_mult [symmetric])
  then have "a * c \<le> x" if "a \<le> x div c" using that c mult_right_mono [of a "x div c" c] by linarith
  moreover have "a \<le> x div c" if "a * c \<le> x" using zdiv_mono1 [OF that c] c by simp
  ultimately show ?thesis by blast
qed

text \<open>The clock stays below \<open>2^62\<close> milliseconds, which is 146 million years.\<close>

abbreviation clock_ok :: "u64 \<Rightarrow> bool" where
  "clock_ok t \<equiv> unat t < 2 ^ 62"

lemma local_ms_exact:
  assumes "clock_ok t" and "\<bar>tz\<bar> \<le> 2 ^ 31"
  shows "local_ms t tz = int (unat t) + tz * 60000"
proof -
  have t: "uint t = int (unat t)" by (rule uint_nat)
  have "int (unat t) < int (2 ^ 62)" using assms(1) by (simp only: of_nat_less_iff)
  then have "0 \<le> uint t" "uint t < 4611686018427387904" unfolding t by simp_all
  note r = this
  have z: "- 2147483648 \<le> tz" "tz \<le> 2147483648" using assms(2) by simp_all
  from r have "wrap_i64 (uint t) = uint t" by (intro wrap_i64_id) linarith+
  moreover have "wrap_i64 (uint t + tz * 60000) = uint t + tz * 60000"
    using r z by (intro wrap_i64_id) linarith+
  ultimately show ?thesis by (simp add: local_ms_def MINUTE_MS_def)
qed

text \<open>What the check of a job list leaves of a trigger, given the type of the offset.\<close>

fun trigger_ok :: "ScheduleTrigger \<Rightarrow> bool" where
  "trigger_ok (Every n) \<longleftrightarrow> n \<noteq> 0"
| "trigger_ok (DailyAt h m tz) \<longleftrightarrow> h < 24 \<and> m < 60 \<and> \<bar>tz\<bar> \<le> 2 ^ 31"

definition target_ms :: "8 word \<Rightarrow> 8 word \<Rightarrow> int" where
  "target_ms h m = (uint h * 60 + uint m) * 60000"

lemma target_range: "h < 24 \<Longrightarrow> m < 60 \<Longrightarrow> 0 \<le> target_ms h m \<and> target_ms h m < DAY_MS"
  by (simp add: target_ms_def DAY_MS_def word_less_def)

lemma reached_iff:
  "local_minutes_of_day l \<ge> unat h * 60 + unat m \<longleftrightarrow> target_ms h m \<le> l mod DAY_MS"
proof -
  have "local_minutes_of_day l \<ge> unat h * 60 + unat m \<longleftrightarrow> uint h * 60 + uint m \<le> l mod DAY_MS div 60000"
    by (simp add: local_minutes_of_day_def MINUTE_MS_def le_nat_iff DAY_MS_def)
  also have "\<dots> \<longleftrightarrow> target_ms h m \<le> l mod DAY_MS" unfolding target_ms_def by (rule le_div_iff) simp
  finally show ?thesis .
qed

lemma fires_daily:
  "job_fires t (DailyAt h m tz) st \<longleftrightarrow>
     target_ms h m \<le> local_ms t tz mod DAY_MS \<and> last_fired_day st \<noteq> Some (local_ms t tz div DAY_MS)"
  by (simp add: job_fires_def Let_def reached_iff)

section \<open>The sleep hint of one job\<close>

definition clock_since :: "FireState \<Rightarrow> u64 \<Rightarrow> bool" where
  "clock_since st now \<longleftrightarrow> (\<forall>l. last_fired_ms st = Some l \<longrightarrow> l \<le> now)"

definition hint_exact :: "(u64 \<Rightarrow> bool) \<Rightarrow> u64 \<Rightarrow> u64 \<Rightarrow> bool" where
  "hint_exact due now w \<longleftrightarrow> (\<forall>t. now \<le> t \<and> clock_ok t \<longrightarrow>
     (unat t - unat now < unat w \<longrightarrow> \<not> due t) \<and> (unat t - unat now = unat w \<longrightarrow> due t))"

lemma every_hint:
  assumes "clock_since st now" and "job_wait now (Every n) st = Some w"
  shows "hint_exact (\<lambda>t. job_fires t (Every n) st) now w"
proof (cases "last_fired_ms st")
  case None
  then show ?thesis using assms by (simp add: hint_exact_def job_wait_def job_fires_def)
next
  case (Some l)
  let ?i = "unat (saturating_mul n 1000)"
  have l: "unat l \<le> unat now" using assms(1) Some by (simp add: clock_since_def word_le_nat_alt)
  have "unat w = ?i - (unat now - unat l)"
    using assms(2) Some by (auto simp: job_wait_def unat_saturating_sub)
  then show ?thesis
    using l Some by (auto simp: hint_exact_def job_fires_def word_le_nat_alt unat_saturating_sub)
qed

lemma local_later:
  assumes "now \<le> t" and "clock_ok t" and "\<bar>tz\<bar> \<le> 2 ^ 31"
  shows "local_ms t tz = local_ms now tz + int (unat t - unat now)"
proof -
  have le: "unat now \<le> unat t" using assms(1) by (simp add: word_le_nat_alt)
  then have "clock_ok now" using assms(2) by linarith
  then show ?thesis using assms le by (simp add: local_ms_exact)
qed

lemma local_range:
  assumes "clock_ok t" and "\<bar>tz\<bar> \<le> 2 ^ 31"
  shows "- 2000000000000000 \<le> local_ms t tz \<and> local_ms t tz < 5000000000000000000"
proof -
  have "int (unat t) < int (2 ^ 62)" using assms(1) by (simp only: of_nat_less_iff)
  then have "int (unat t) < 4611686018427387904" by simp
  moreover have "- 2147483648 \<le> tz" "tz \<le> 2147483648" using assms(2) by simp_all
  ultimately show ?thesis unfolding local_ms_exact [OF assms] by linarith
qed

lemma daily_wait:
  assumes ok: "trigger_ok (DailyAt h m tz)" and now: "clock_ok now" and w: "job_wait now (DailyAt h m tz) st = Some w"
    and q: "q = local_ms now tz div DAY_MS" and r: "r = local_ms now tz mod DAY_MS"
  shows "int (unat w) = (if last_fired_day st = Some q then DAY_MS else 0) + target_ms h m - r"
    and "last_fired_day st \<noteq> Some q \<Longrightarrow> r < target_ms h m"
proof -
  let ?T = "target_ms h m" and ?L = "local_ms now tz"
  have T: "0 \<le> ?T" "?T < DAY_MS" using ok target_range by auto
  have L: "?L = q * DAY_MS + r" "0 \<le> r" "r < DAY_MS" by (simp_all add: q r DAY_MS_def)
  have range: "- 2000000000000000 \<le> ?L" "?L < 5000000000000000000" using local_range now ok by auto
  have reach: "int (local_minutes_of_day ?L) \<ge> uint h * 60 + uint m \<longleftrightarrow> ?T \<le> r"
    unfolding r reached_iff [symmetric] of_nat_le_iff [where 'a = int, symmetric] by simp
  then show unreached: "r < ?T" if "last_fired_day st \<noteq> Some q"
    using w that by (auto simp: job_wait_def Let_def q split: if_splits)
  let ?d = "if last_fired_day st \<noteq> Some q then q else q + 1"
  let ?W = "(if last_fired_day st = Some q then DAY_MS else 0) + ?T - r"
  have D: "?d * DAY_MS = q * DAY_MS + (if last_fired_day st = Some q then DAY_MS else 0)" by (simp add: algebra_simps)
  have w1: "wrap_i64 (?d * DAY_MS) = ?d * DAY_MS"
    using L range unfolding D DAY_MS_def by (intro wrap_i64_id) (auto split: if_splits)
  have w2: "wrap_i64 (?d * DAY_MS + ?T) = ?d * DAY_MS + ?T"
    using L range T unfolding D DAY_MS_def by (intro wrap_i64_id) (auto split: if_splits)
  have W: "?d * DAY_MS + ?T - ?L = ?W" using L(1) unfolding D by simp
  have pos: "0 < ?W" "?W < 2 * DAY_MS" using L(2,3) T unreached by (auto simp: DAY_MS_def)
  have w3: "wrap_i64 ?W = ?W" using pos unfolding DAY_MS_def by (intro wrap_i64_id) (auto split: if_splits)
  have "w = of_int (max (wrap_i64 (wrap_i64 (wrap_i64 (?d * DAY_MS) + ?T) - ?L)) 0)"
    using w by (simp add: job_wait_def Let_def q [symmetric] target_ms_def MINUTE_MS_def split: if_splits)
  then have "w = of_int ?W" unfolding w1 w2 W w3 max_absorb1 [OF less_imp_le [OF pos(1)]] .
  moreover have "uint (word_of_int x :: u64) = x" if "0 < x" "x < 2 * DAY_MS" for x
    using that by (simp add: uint_word_of_int DAY_MS_def)
  ultimately have "uint w = ?W" using pos by blast
  then show "int (unat w) = ?W" by simp
qed

lemma daily_hint:
  assumes ok: "trigger_ok (DailyAt h m tz)" and w: "job_wait now (DailyAt h m tz) st = Some w"
  shows "hint_exact (\<lambda>t. job_fires t (DailyAt h m tz) st) now w"
  unfolding hint_exact_def
proof (intro allI impI)
  fix t
  assume t: "now \<le> t \<and> clock_ok t"
  define q where "q = local_ms now tz div DAY_MS"
  define r where "r = local_ms now tz mod DAY_MS"
  define T where "T = target_ms h m"
  define e where "e = (if last_fired_day st = Some q then 1 else 0 :: int)"
  have now: "clock_ok now" using t by (simp add: word_le_nat_alt)
  have T: "0 \<le> T" "T < DAY_MS" using ok target_range by (auto simp: T_def)
  note wait = daily_wait [OF ok now w q_def r_def]
  have r: "0 \<le> r" "r < DAY_MS" "local_ms now tz = q * DAY_MS + r" by (simp_all add: q_def r_def DAY_MS_def)
  let ?x = "int (unat t - unat now)"
  have l: "local_ms t tz = q * DAY_MS + (r + ?x)" using local_later [of now t tz] t ok r(3) by simp
  have W: "int (unat w) = e * DAY_MS + T - r" using wait(1) by (simp add: e_def T_def)
  have day: "(q * DAY_MS + y) div DAY_MS = q + y div DAY_MS" "(q * DAY_MS + y) mod DAY_MS = y mod DAY_MS" for y
    by (simp_all add: DAY_MS_def)
  show "(unat t - unat now < unat w \<longrightarrow> \<not> job_fires t (DailyAt h m tz) st) \<and>
      (unat t - unat now = unat w \<longrightarrow> job_fires t (DailyAt h m tz) st)"
  proof (intro conjI impI)
    assume "unat t - unat now < unat w"
    then have x: "0 \<le> ?x" "r + ?x < e * DAY_MS + T" using W by linarith+
    show "\<not> job_fires t (DailyAt h m tz) st"
    proof (cases "r + ?x < DAY_MS")
      case True
      then have "(r + ?x) div DAY_MS = 0" "(r + ?x) mod DAY_MS = r + ?x" using r(1) x(1) by simp_all
      then show ?thesis using x(2) unfolding fires_daily l day by (auto simp: e_def T_def split: if_splits)
    next
      case False
      then have e: "e = 1" using x T by (auto simp: e_def split: if_splits)
      have "(r + ?x) mod DAY_MS = r + ?x - DAY_MS"
        using False x(2) T e r(1) by (subst mod_pos_pos_trivial [of "r + ?x - DAY_MS" DAY_MS, symmetric]) (auto simp: mod_diff_right_eq)
      then show ?thesis using x(2) e unfolding fires_daily l day by (simp add: T_def)
    qed
  next
    assume "unat t - unat now = unat w"
    then have x: "r + ?x = e * DAY_MS + T" using W by linarith
    have "(e * DAY_MS + T) div DAY_MS = e" "(e * DAY_MS + T) mod DAY_MS = T" using T by (auto simp: e_def DAY_MS_def)
    then show "job_fires t (DailyAt h m tz) st" unfolding fires_daily l day x by (auto simp: e_def T_def)
  qed
qed

lemma job_hint:
  assumes "trigger_ok trg" and "clock_since st now"
  shows "job_wait now trg st = Some w \<Longrightarrow> hint_exact (\<lambda>t. job_fires t trg st) now w"
    and "job_wait now trg st = None \<Longrightarrow> job_fires now trg st"
proof -
  show "hint_exact (\<lambda>t. job_fires t trg st) now w" if "job_wait now trg st = Some w"
    using assms that every_hint daily_hint by (cases trg) auto
  show "job_fires now trg st" if "job_wait now trg st = None"
  proof (cases trg)
    case (Every n)
    then show ?thesis using that by (auto simp: job_wait_def split: option.splits)
  next
    case (DailyAt h m tz)
    have "int (local_minutes_of_day l) \<ge> uint h * 60 + uint m \<longleftrightarrow> target_ms h m \<le> l mod DAY_MS" for l
      unfolding reached_iff [symmetric] of_nat_le_iff [where 'a = int, symmetric] by simp
    then show ?thesis using that DailyAt by (auto simp: job_wait_def fires_daily Let_def split: if_splits)
  qed
qed

section \<open>All jobs together\<close>

definition pending :: "u64 \<Rightarrow> ScheduledJob \<times> FireState \<Rightarrow> bool" where
  "pending t = (\<lambda>(j, st). sj_enabled j \<and> job_fires t (sj_trigger j) st)"

definition after_tick :: "u64 \<Rightarrow> ScheduledJob \<times> FireState \<Rightarrow> FireState" where
  "after_tick t = (\<lambda>(j, st). if pending t (j, st) then record_fire t (sj_trigger j) st else st)"

lemma due_loop_eq:
  "length sts = length js \<Longrightarrow> due_loop t js sts =
     (map fst (filter (pending t) (zip js sts)), map (after_tick t) (zip js sts))"
  by (induction t js sts rule: due_loop.induct) (auto simp: pending_def after_tick_def)

definition scheduler_ok :: "Scheduler \<Rightarrow> u64 \<Rightarrow> bool" where
  "scheduler_ok s now \<longleftrightarrow> length (sc_state s) = length (sc_jobs s) \<and> distinct (map sj_name (sc_jobs s)) \<and>
     (\<forall>j \<in> set (sc_jobs s). trigger_ok (sj_trigger j)) \<and> (\<forall>st \<in> set (sc_state s). clock_since st now)"

lemma due_jobs_eq:
  "length (sc_state s) = length (sc_jobs s) \<Longrightarrow> due_jobs s t =
     (map fst (filter (pending t) (zip (sc_jobs s) (sc_state s))),
      s\<lparr>sc_state := map (after_tick t) (zip (sc_jobs s) (sc_state s))\<rparr>)"
  by (simp add: due_jobs_def due_loop_eq)

lemma after_tick_clock: "clock_since st now \<Longrightarrow> now \<le> t \<Longrightarrow> clock_since (after_tick t (j, st)) t"
  by (cases "sj_trigger j") (auto simp: after_tick_def clock_since_def record_fire_def)

lemma scheduler_ok_tick: "scheduler_ok s now \<Longrightarrow> now \<le> t \<Longrightarrow> scheduler_ok (snd (due_jobs s t)) t"
  by (auto simp: scheduler_ok_def due_jobs_eq dest!: set_zip_rightD intro: after_tick_clock)

text \<open>An \<open>i32\<close> offset, as its type has it.\<close>

fun offset_is_i32 :: "ScheduleTrigger \<Rightarrow> bool" where
  "offset_is_i32 (Every n) = True"
| "offset_is_i32 (DailyAt h m tz) \<longleftrightarrow> - (2 ^ 31) \<le> tz \<and> tz < 2 ^ 31"

lemma check_trigger_ok: "offset_is_i32 trg \<Longrightarrow> check_trigger name trg = Ok () \<Longrightarrow> trigger_ok trg"
  by (cases trg) (auto simp: check_trigger_def split: if_splits)

lemma jobs_check_ok:
  "jobs_check seen js = Ok () \<Longrightarrow> distinct (map sj_name js) \<and> sj_name ` set js \<inter> seen = {} \<and>
     (\<forall>j \<in> set js. check_trigger (sj_name j) (sj_trigger j) = Ok ())"
  by (induction seen js rule: jobs_check.induct) (auto split: if_splits)

lemma scheduler_new_ok:
  assumes "Scheduler_new js = Ok s" and "list_all (offset_is_i32 \<circ> sj_trigger) js"
  shows "scheduler_ok s now \<and> sc_jobs s = js \<and> sc_state s = replicate (length js) FireState_default"
  using assms jobs_check_ok [of "{}" js] check_trigger_ok
  by (fastforce simp: Scheduler_new_def scheduler_ok_def list_all_iff FireState_default_def clock_since_def)

text \<open>The scheduler after a sequence of ticks.\<close>

definition run_ticks :: "Scheduler \<Rightarrow> u64 list \<Rightarrow> Scheduler" where
  "run_ticks s ts = fold (\<lambda>t s. snd (due_jobs s t)) ts s"

lemma run_ticks_ok: "scheduler_ok s now \<Longrightarrow> sorted (now # ts @ [t]) \<Longrightarrow> scheduler_ok (run_ticks s ts) t"
proof (induction ts arbitrary: s now)
  case Nil
  then show ?case by (auto simp: run_ticks_def scheduler_ok_def clock_since_def)
next
  case (Cons x ts)
  then show ?case using Cons.IH [of "snd (due_jobs s x)" x] scheduler_ok_tick [of s now x] by (auto simp: run_ticks_def)
qed

lemma next_loop_Some:
  "length sts = length js \<Longrightarrow> next_loop now best js sts = Some w \<Longrightarrow>
     (best = Some w \<or> (\<exists>(j, st) \<in> set (zip js sts). sj_enabled j \<and>
        (job_wait now (sj_trigger j) st = Some w \<or> job_wait now (sj_trigger j) st = None \<and> w = 0))) \<and>
     (\<forall>b. best = Some b \<longrightarrow> w \<le> b) \<and>
     (\<forall>(j, st) \<in> set (zip js sts). \<forall>w'. sj_enabled j \<longrightarrow> job_wait now (sj_trigger j) st = Some w' \<longrightarrow> w \<le> w') \<and>
     (\<forall>(j, st) \<in> set (zip js sts). sj_enabled j \<longrightarrow> job_wait now (sj_trigger j) st = None \<longrightarrow> w = 0)"
proof (induction now best js sts rule: next_loop.induct)
  case (1 now best j js st sts)
  show ?case
  proof (cases "sj_enabled j")
    case False
    then show ?thesis using 1 by auto
  next
    case True
    show ?thesis
    proof (cases "job_wait now (sj_trigger j) st")
      case None
      then show ?thesis using 1 True by auto
    next
      case (Some x)
      then show ?thesis using 1(2) [OF _ Some] 1(3,4) True by (cases best) (auto simp: min_def split: if_splits)
    qed
  qed
qed auto

lemma next_loop_None:
  "length sts = length js \<Longrightarrow> next_loop now best js sts = None \<longleftrightarrow> best = None \<and> \<not> list_ex sj_enabled js"
  by (induction now best js sts rule: next_loop.induct) (auto split: option.splits)

lemma hint_of_jobs:
  assumes ok: "scheduler_ok s now" and w: "next_due_in_ms s now = Some w"
  shows "hint_exact (\<lambda>t. fst (due_jobs s t) \<noteq> []) now w"
proof -
  let ?z = "zip (sc_jobs s) (sc_state s)"
  have len: "length (sc_state s) = length (sc_jobs s)" using ok by (simp add: scheduler_ok_def)
  have z: "trigger_ok (sj_trigger j)" "clock_since st now" if "(j, st) \<in> set ?z" for j st
    using ok that by (auto simp: scheduler_ok_def dest: set_zip_leftD set_zip_rightD)
  note loop = next_loop_Some [OF len w [unfolded next_due_in_ms_def]]
  have due: "fst (due_jobs s t) \<noteq> [] \<longleftrightarrow> (\<exists>p \<in> set ?z. pending t p)" for t
    by (auto simp: due_jobs_eq [OF len] filter_empty_conv)
  show ?thesis unfolding hint_exact_def due
  proof (intro allI impI conjI)
    fix t assume t: "now \<le> t \<and> clock_ok t"
    show "\<not> (\<exists>p \<in> set ?z. pending t p)" if early: "unat t - unat now < unat w"
    proof
      assume "\<exists>p \<in> set ?z. pending t p"
      then obtain j st where j: "(j, st) \<in> set ?z" "sj_enabled j" "job_fires t (sj_trigger j) st" by (auto simp: pending_def)
      show False
      proof (cases "job_wait now (sj_trigger j) st")
        case None
        then show ?thesis using loop j early by auto
      next
        case (Some w')
        then have "w \<le> w'" using loop j by fastforce
        then show ?thesis
          using job_hint(1) [OF z [OF j(1)] Some] t early j(3) by (auto simp: hint_exact_def word_le_nat_alt)
      qed
    qed
    show "\<exists>p \<in> set ?z. pending t p" if at: "unat t - unat now = unat w"
    proof -
      obtain j st where j: "(j, st) \<in> set ?z" "sj_enabled j"
        "job_wait now (sj_trigger j) st = Some w \<or> job_wait now (sj_trigger j) st = None \<and> w = 0"
        using loop by auto
      have "t = now" if "w = 0" using that at t by (simp add: word_le_nat_alt word_unat_eq_iff)
      then have "job_fires t (sj_trigger j) st"
        using j(3) job_hint [OF z [OF j(1)]] t at by (auto simp: hint_exact_def)
      then show ?thesis using j(1,2) by (auto simp: pending_def)
    qed
  qed
qed

section \<open>The times at which a job fires\<close>

fun fire_times :: "Scheduler \<Rightarrow> ScheduledJob \<Rightarrow> u64 list \<Rightarrow> u64 list" where
  "fire_times s j [] = []"
| "fire_times s j (t # ts) =
     (if j \<in> set (fst (due_jobs s t)) then [t] else []) @ fire_times (snd (due_jobs s t)) j ts"

fun job_times :: "ScheduleTrigger \<Rightarrow> FireState \<Rightarrow> u64 list \<Rightarrow> u64 list" where
  "job_times trg st [] = []"
| "job_times trg st (t # ts) =
     (if job_fires t trg st then t # job_times trg (record_fire t trg st) ts else job_times trg st ts)"

lemma fire_times_job:
  "length (sc_state s) = length (sc_jobs s) \<Longrightarrow> distinct (map sj_name (sc_jobs s)) \<Longrightarrow> i < length (sc_jobs s) \<Longrightarrow>
     sj_enabled (sc_jobs s ! i) \<Longrightarrow> fire_times s (sc_jobs s ! i) ts = job_times (sj_trigger (sc_jobs s ! i)) (sc_state s ! i) ts"
proof (induction ts arbitrary: s)
  case (Cons t ts)
  let ?s = "snd (due_jobs s t)" and ?j = "sc_jobs s ! i" and ?st = "sc_state s ! i"
  have s: "sc_jobs ?s = sc_jobs s" "length (sc_state ?s) = length (sc_jobs s)"
    "sc_state ?s ! i = (if job_fires t (sj_trigger ?j) ?st then record_fire t (sj_trigger ?j) ?st else ?st)"
    using Cons.prems by (simp_all add: due_jobs_eq after_tick_def pending_def)
  have d: "distinct (sc_jobs s)" using Cons.prems(2) by (simp add: distinct_map)
  have "?j \<in> set (fst (due_jobs s t)) \<longleftrightarrow> pending t (?j, ?st)"
    using Cons.prems d
    by (auto simp: due_jobs_eq in_set_zip image_iff nth_eq_iff_index_eq intro!: bexI [of _ "(?j, ?st)"])
  then show ?case using Cons.IH [of ?s] Cons.prems s by (simp add: pending_def)
qed simp

abbreviation local_day :: "u64 \<Rightarrow> int \<Rightarrow> int" where
  "local_day t tz \<equiv> local_ms t tz div DAY_MS"

lemma local_day_mono: "t \<le> t' \<Longrightarrow> clock_ok t' \<Longrightarrow> \<bar>tz\<bar> \<le> 2 ^ 31 \<Longrightarrow> local_day t tz \<le> local_day t' tz"
  by (simp add: local_later [of t t'] DAY_MS_def zdiv_mono1)

lemma daily_times:
  assumes "\<bar>tz\<bar> \<le> 2 ^ 31"
  shows "sorted ts \<Longrightarrow> list_all clock_ok ts \<Longrightarrow> (\<forall>t \<in> set ts. \<forall>d. last_fired_day st = Some d \<longrightarrow> d \<le> local_day t tz) \<Longrightarrow>
    length (filter (\<lambda>t. local_day t tz = day) (job_times (DailyAt h m tz) st ts)) =
      (if (\<exists>t \<in> set ts. local_day t tz = day \<and> target_ms h m \<le> local_ms t tz mod DAY_MS) \<and> last_fired_day st \<noteq> Some day
       then 1 else 0)"
proof (induction ts arbitrary: st)
  case (Cons t ts)
  have mono: "local_day t tz \<le> local_day t' tz" if "t' \<in> set ts" for t'
    using that Cons.prems(1,2) assms by (intro local_day_mono) (auto simp: list_all_iff)
  show ?case
  proof (cases "job_fires t (DailyAt h m tz) st")
    case True
    then have t: "target_ms h m \<le> local_ms t tz mod DAY_MS" "last_fired_day st \<noteq> Some (local_day t tz)"
      by (simp_all add: fires_daily)
    have last: "last_fired_day (record_fire t (DailyAt h m tz) st) = Some (local_day t tz)" by (simp add: record_fire_def)
    have ih: "length (filter (\<lambda>t. local_day t tz = day) (job_times (DailyAt h m tz) (record_fire t (DailyAt h m tz) st) ts)) =
      (if (\<exists>t \<in> set ts. local_day t tz = day \<and> target_ms h m \<le> local_ms t tz mod DAY_MS) \<and> Some (local_day t tz) \<noteq> Some day
       then 1 else 0)"
      using Cons.IH [of "record_fire t (DailyAt h m tz) st"] Cons.prems(1,2) mono unfolding last by simp
    have "day \<noteq> local_day t' tz" if "last_fired_day st = Some day" "local_day t tz \<noteq> day" "t' \<in> set ts" for t'
      using that Cons.prems(3) mono [of t'] by fastforce
    then show ?thesis using True t ih by (auto split: if_splits)
  next
    case False
    have ih: "length (filter (\<lambda>t. local_day t tz = day) (job_times (DailyAt h m tz) st ts)) =
      (if (\<exists>t \<in> set ts. local_day t tz = day \<and> target_ms h m \<le> local_ms t tz mod DAY_MS) \<and> last_fired_day st \<noteq> Some day
       then 1 else 0)"
      using Cons.prems by (intro Cons.IH) auto
    have "\<not> (local_day t tz = day \<and> target_ms h m \<le> local_ms t tz mod DAY_MS \<and> last_fired_day st \<noteq> Some day)"
      using False unfolding fires_daily by blast
    then have "(\<exists>t' \<in> set (t # ts). local_day t' tz = day \<and> target_ms h m \<le> local_ms t' tz mod DAY_MS) \<and> last_fired_day st \<noteq> Some day \<longleftrightarrow>
        (\<exists>t' \<in> set ts. local_day t' tz = day \<and> target_ms h m \<le> local_ms t' tz mod DAY_MS) \<and> last_fired_day st \<noteq> Some day"
      unfolding list.set by blast
    then show ?thesis using ih False by (simp only: job_times.simps if_False)
  qed
qed simp

definition interval_ms :: "u64 \<Rightarrow> nat" where
  "interval_ms n = unat (saturating_mul n 1000)"

lemma every_times:
  "sorted ts \<Longrightarrow> (\<forall>l t. last_fired_ms st = Some l \<longrightarrow> t \<in> set ts \<longrightarrow> l \<le> t) \<Longrightarrow>
     sorted_wrt (\<lambda>a b. unat a + interval_ms n \<le> unat b)
       ((case last_fired_ms st of None \<Rightarrow> [] | Some l \<Rightarrow> [l]) @ job_times (Every n) st ts) \<and>
     (\<forall>t \<in> set ts. t \<in> set (job_times (Every n) st ts) \<or>
       (\<exists>f \<in> set ((case last_fired_ms st of None \<Rightarrow> [] | Some l \<Rightarrow> [l]) @ job_times (Every n) st ts).
          f \<le> t \<and> unat t < unat f + interval_ms n))"
proof (induction ts arbitrary: st)
  case (Cons t ts)
  show ?case
  proof (cases "job_fires t (Every n) st")
    case True
    have last: "last_fired_ms (record_fire t (Every n) st) = Some t" by (simp add: record_fire_def)
    have gap: "unat l + interval_ms n \<le> unat t" if "last_fired_ms st = Some l" for l
      using True that Cons.prems(2) by (auto simp: job_fires_def interval_ms_def word_le_nat_alt unat_saturating_sub)
    have ih: "sorted_wrt (\<lambda>a b. unat a + interval_ms n \<le> unat b) (t # job_times (Every n) (record_fire t (Every n) st) ts)"
      "\<forall>t' \<in> set ts. t' \<in> set (job_times (Every n) (record_fire t (Every n) st) ts) \<or>
       (\<exists>f \<in> set (t # job_times (Every n) (record_fire t (Every n) st) ts). f \<le> t' \<and> unat t' < unat f + interval_ms n)"
      using Cons.IH [of "record_fire t (Every n) st"] Cons.prems(1) unfolding last by auto
    show ?thesis using True ih gap by (cases "last_fired_ms st") (auto dest: gap intro: add_leD1 order.trans)
  next
    case False
    then obtain l where l: "last_fired_ms st = Some l" "unat t < unat l + interval_ms n"
      by (auto simp: job_fires_def interval_ms_def word_le_nat_alt unat_saturating_sub split: option.splits)
    then show ?thesis using False Cons.IH [of st] Cons.prems by auto
  qed
qed (auto split: option.splits)

section \<open>Properties of the scheduler\<close>

text \<open>\<^bold>\<open>C25.\<close> 
  The sleep hint is exact: after any ticks that do not go back in time, sleeping for the hint and then
  ticking finds a job due, and no tick before that does. There is no hint exactly when no job is enabled.
\<close>

theorem sleep_hint_exact:
  assumes "Scheduler_new js = Ok s" and "list_all (offset_is_i32 \<circ> sj_trigger) js" and "sorted (ts @ [now])"
  shows "(next_due_in_ms (run_ticks s ts) now = None \<longleftrightarrow> \<not> list_ex sj_enabled js) \<and>
    (\<forall>w. next_due_in_ms (run_ticks s ts) now = Some w \<longrightarrow>
       hint_exact (\<lambda>t. fst (due_jobs (run_ticks s ts) t) \<noteq> []) now w)"
proof -
  have s: "scheduler_ok s 0" "sc_jobs s = js" using scheduler_new_ok [OF assms(1,2)] by simp_all
  have "sorted (0 # ts @ [now])" using assms(3) by simp
  then have ok: "scheduler_ok (run_ticks s ts) now" by (rule run_ticks_ok [OF s(1)])
  have "sc_jobs (run_ticks s ts) = js"
    using s(2) by (induction ts arbitrary: s) (auto simp: run_ticks_def due_jobs_def split: prod.splits)
  moreover have "length (sc_state (run_ticks s ts)) = length (sc_jobs (run_ticks s ts))"
    using ok by (simp add: scheduler_ok_def)
  ultimately have "next_due_in_ms (run_ticks s ts) now = None \<longleftrightarrow> \<not> list_ex sj_enabled js"
    using next_loop_None by (simp add: next_due_in_ms_def)
  then show ?thesis using hint_of_jobs [OF ok] by simp
qed

text \<open>\<^bold>\<open>C27.\<close> 
  A daily job fires exactly once on every local calendar day on which some tick is at or after its
  time, and on no other day; ticks may be late, repeated or missing, but not go back.
\<close>

theorem daily_fires_once_a_day:
  assumes "Scheduler_new js = Ok s" and "list_all (offset_is_i32 \<circ> sj_trigger) js" and "sorted ts" and "list_all clock_ok ts"
    and "i < length js" and "sj_enabled (js ! i)" and "sj_trigger (js ! i) = DailyAt h m tz"
  shows "length (filter (\<lambda>t. local_day t tz = day) (fire_times s (js ! i) ts)) =
    (if \<exists>t \<in> set ts. local_day t tz = day \<and> local_minutes_of_day (local_ms t tz) \<ge> unat h * 60 + unat m then 1 else 0)"
proof -
  have s: "scheduler_ok s 0" "sc_jobs s = js" "sc_state s ! i = FireState_default"
    using scheduler_new_ok [OF assms(1,2)] assms(5) by simp_all
  have "trigger_ok (DailyAt h m tz)" using s(1,2) assms(5,7) nth_mem by (force simp: scheduler_ok_def)
  then have tz: "\<bar>tz\<bar> \<le> 2 ^ 31" by simp
  have "fire_times s (js ! i) ts = job_times (DailyAt h m tz) FireState_default ts"
    using fire_times_job [of s i ts] s assms(5-7) by (simp add: scheduler_ok_def)
  then show ?thesis
    using daily_times [OF tz assms(3,4), of FireState_default day h m] by (simp add: FireState_default_def reached_iff)
qed

text \<open>
  An interval job keeps its distance and is never late: two of its fires are at least the interval
  apart, and a tick at which it does not fire is within the interval after an earlier fire.
\<close>

theorem interval_kept:
  assumes "Scheduler_new js = Ok s" and "list_all (offset_is_i32 \<circ> sj_trigger) js" and "sorted ts"
    and "i < length js" and "sj_enabled (js ! i)" and "sj_trigger (js ! i) = Every n"
  shows "sorted_wrt (\<lambda>a b. unat a + interval_ms n \<le> unat b) (fire_times s (js ! i) ts) \<and>
    (\<forall>t \<in> set ts. t \<in> set (fire_times s (js ! i) ts) \<or>
      (\<exists>f \<in> set (fire_times s (js ! i) ts). f \<le> t \<and> unat t < unat f + interval_ms n))"
proof -
  have s: "scheduler_ok s 0" "sc_jobs s = js" "sc_state s ! i = FireState_default"
    using scheduler_new_ok [OF assms(1,2)] assms(4) by simp_all
  have "fire_times s (js ! i) ts = job_times (Every n) FireState_default ts"
    using fire_times_job [of s i ts] s assms(4-6) by (simp add: scheduler_ok_def)
  then show ?thesis using every_times [OF assms(3), of FireState_default n] by (simp add: FireState_default_def)
qed

text \<open>
  The smallest \<open>i32\<close> passes the check of the offset: its absolute value is not an \<open>i32\<close>, and the
  release build takes it for negative.
\<close>

lemma offset_check_gap: "check_trigger name (DailyAt 0 0 (- (2 ^ 31))) = Ok ()"
  by (simp add: check_trigger_def wrap_i32_def MAX_TZ_OFFSET_MINUTES_def)

section \<open>An example\<close>

definition example_jobs :: "ScheduledJob list" where
  "example_jobs =
     [\<lparr>sj_name = ''a'', sj_agent_name = ''g'', sj_prompt = ''p'', sj_trigger = DailyAt 9 30 0, sj_enabled = True\<rparr>,
      \<lparr>sj_name = ''b'', sj_agent_name = ''g'', sj_prompt = ''p'', sj_trigger = Every 60, sj_enabled = True\<rparr>]"

definition example_scheduler :: Scheduler where
  "example_scheduler = \<lparr>sc_jobs = example_jobs, sc_state = [FireState_default, FireState_default]\<rparr>"

lemma example_scheduler_new:
  "Scheduler_new example_jobs = Ok example_scheduler" "list_all (offset_is_i32 \<circ> sj_trigger) example_jobs"
proof -
  have "\<not> blank ''a''" "\<not> blank ''b''" "\<not> blank ''g''" "\<not> blank ''p''" by code_simp+
  moreover have two: "replicate 2 x = [x, x]" for x :: FireState by (simp add: numeral_2_eq_2)
  ultimately show "Scheduler_new example_jobs = Ok example_scheduler"
    unfolding Scheduler_new_def example_jobs_def example_scheduler_def
    by (simp add: check_trigger_def wrap_i32_def MAX_TZ_OFFSET_MINUTES_def two)
qed (simp add: example_jobs_def)

theorem sleep_hint_exact_witness:
  "next_due_in_ms example_scheduler 0 = Some 0 \<and> hint_exact (\<lambda>t. fst (due_jobs example_scheduler t) \<noteq> []) 0 0"
proof -
  have "next_due_in_ms example_scheduler 0 = Some 0"
    by (simp add: next_due_in_ms_def example_scheduler_def example_jobs_def job_wait_def FireState_default_def Let_def local_ms_def
        local_minutes_of_day_def wrap_i64_def DAY_MS_def MINUTE_MS_def)
  moreover have "sorted ([] @ [0 :: u64])" by simp
  ultimately show ?thesis using sleep_hint_exact [OF example_scheduler_new, of "[]" 0] by (simp add: run_ticks_def)
qed

theorem daily_fires_once_a_day_witness:
  "length (filter (\<lambda>t. local_day t 0 = 0) (fire_times example_scheduler (example_jobs ! 0) [0, 40000000, 50000000])) = 1"
  using daily_fires_once_a_day [OF example_scheduler_new, of "[0, 40000000, 50000000]" 0 9 30 0 0]
  by (simp add: example_jobs_def local_ms_def local_minutes_of_day_def wrap_i64_def DAY_MS_def MINUTE_MS_def)

theorem interval_kept_witness:
  "\<forall>t \<in> {0, 30000, 90000}. t \<in> set (fire_times example_scheduler (example_jobs ! 1) [0, 30000, 90000]) \<or>
    (\<exists>f \<in> set (fire_times example_scheduler (example_jobs ! 1) [0, 30000, 90000]). f \<le> t \<and> unat t < unat f + interval_ms 60)"
  using interval_kept [OF example_scheduler_new, of "[0, 30000, 90000]" 1 60]
  by (simp add: example_jobs_def)

end
