(* ===== verification/Tasks.thy ===== *)
theory Tasks
  imports Text
begin

text \<open>
  Task lists, \<open>anima-core/src/structured_tasks.rs\<close>: the check of a list with its parent links, merging
  patches, the active part with its ancestors, and identifiers for tasks that have none.

  What \<open>serde_json\<close> writes for a list of tasks is the parameter \<open>json\<close> (\<open>None\<close> where it fails), the
  digest of the identifiers is the parameter \<open>sha\<close>. A \<open>HashMap\<close> is a list of pairs.
\<close>

section \<open>Data\<close>

definition MAX_TASKS :: nat where "MAX_TASKS = 256"
definition MAX_TASK_ID_BYTES :: nat where "MAX_TASK_ID_BYTES = 128"
definition MAX_TASK_TEXT_CHARS :: nat where "MAX_TASK_TEXT_CHARS = 4000"
definition MAX_TASK_PAYLOAD_BYTES :: nat where "MAX_TASK_PAYLOAD_BYTES = 512 * 1024"

datatype TaskState = TaskPending | TaskInProgress | TaskCompleted | TaskCancelled

fun is_active :: "TaskState \<Rightarrow> bool" where
  "is_active s = (s = TaskPending \<or> s = TaskInProgress)"

record TaskRecord =
  tk_id :: string
  tk_content :: string
  tk_status :: TaskState
  tk_active_form :: string
  tk_parent :: "string option"

datatype ParentChange = KeepParent | SetParent "string option"

record TaskPatch =
  tp_id :: string
  tp_content :: "string option"
  tp_status :: "TaskState option"
  tp_active_form :: "string option"
  tp_parent :: ParentChange

datatype TaskError =
  InvalidId | InvalidText | DuplicateId | UnknownParent | Cycle | TaskBudget | IncompleteNewTask

record ActiveTaskContext =
  atc_json :: "string option"
  atc_omitted_for_budget :: bool

section \<open>Checking a list\<close>

definition valid_task_id :: "string \<Rightarrow> bool" where
  "valid_task_id i \<longleftrightarrow> i \<noteq> [] \<and> length i \<le> MAX_TASK_ID_BYTES \<and> trimmed i \<and> \<not> any_control i"

definition valid_text :: "string \<Rightarrow> bool" where
  "valid_text s \<longleftrightarrow> min (char_count s) (MAX_TASK_TEXT_CHARS + 1) \<le> MAX_TASK_TEXT_CHARS \<and> \<not> blank s"

type_synonym task_index = "(string \<times> TaskRecord) list"

fun records_loop :: "task_index \<Rightarrow> TaskRecord list \<Rightarrow> (TaskError, task_index) result" where
  "records_loop by_id [] = Ok by_id"
| "records_loop by_id (t # ts) =
     (if \<not> valid_task_id (tk_id t) \<or> is_some_and (tk_parent t) (\<lambda>i. \<not> valid_task_id i) then Err InvalidId
      else if \<not> valid_text (tk_content t) \<or> \<not> valid_text (tk_active_form t) then Err InvalidText
      else if map_of by_id (tk_id t) \<noteq> None then Err DuplicateId
      else records_loop ((tk_id t, t) # by_id) ts)"

text \<open>The walk along the parents of one task, with the identifiers seen.\<close>

function parent_chain :: "task_index \<Rightarrow> string set \<Rightarrow> string option \<Rightarrow> (TaskError, unit) result" where
  "parent_chain by_id seen None = Ok ()"
| "parent_chain by_id seen (Some i) =
     (if i \<in> seen then Err Cycle
      else case map_of by_id i of
          None \<Rightarrow> Err UnknownParent
        | Some t \<Rightarrow> parent_chain by_id (insert i seen) (tk_parent t))"
  by pat_completeness auto

lemma seen_shrinks:
  assumes "map_of by_id i = Some t" and "i \<notin> seen"
  shows "card (fst ` set by_id - insert i seen) < card (fst ` set by_id - seen)"
proof (rule psubset_card_mono)
  have "i \<in> fst ` set by_id" using assms(1) by (force dest: map_of_SomeD)
  then show "fst ` set by_id - insert i seen \<subset> fst ` set by_id - seen" using assms(2) by blast
qed simp

termination parent_chain
  by (relation "measure (\<lambda>(by_id, seen, i). card (fst ` set by_id - seen))") (auto simp: seen_shrinks)

definition tasks_validate :: "(TaskRecord list \<Rightarrow> string option) \<Rightarrow> TaskRecord list \<Rightarrow> (TaskError, unit) result" where
  "tasks_validate json ts =
     (if length ts > MAX_TASKS then Err TaskBudget
      else try_then (records_loop [] ts) (\<lambda>by_id.
      try_then (try_all (\<lambda>t. parent_chain by_id {tk_id t} (tk_parent t)) ts) (\<lambda>_.
      case json ts of
        None \<Rightarrow> Err TaskBudget
      | Some bytes \<Rightarrow> reject_if (length bytes > MAX_TASK_PAYLOAD_BYTES) TaskBudget)))"

section \<open>Merging patches\<close>

definition patch_task :: "TaskPatch \<Rightarrow> TaskRecord \<Rightarrow> TaskRecord" where
  "patch_task p t = t\<lparr>
     tk_content := (case tp_content p of Some v \<Rightarrow> v | None \<Rightarrow> tk_content t),
     tk_status := (case tp_status p of Some v \<Rightarrow> v | None \<Rightarrow> tk_status t),
     tk_active_form := (case tp_active_form p of Some v \<Rightarrow> v | None \<Rightarrow> tk_active_form t),
     tk_parent := (case tp_parent p of SetParent v \<Rightarrow> v | KeepParent \<Rightarrow> tk_parent t)\<rparr>"

definition new_task :: "TaskPatch \<Rightarrow> (TaskError, TaskRecord) result" where
  "new_task p =
     try_then (ok_or (tp_content p) IncompleteNewTask) (\<lambda>content.
     try_then (ok_or (tp_status p) IncompleteNewTask) (\<lambda>status.
     try_then (ok_or (tp_active_form p) IncompleteNewTask) (\<lambda>active_form.
     Ok \<lparr>tk_id = tp_id p, tk_content = content, tk_status = status, tk_active_form = active_form,
       tk_parent = (case tp_parent p of KeepParent \<Rightarrow> None | SetParent v \<Rightarrow> v)\<rparr>)))"

fun merge_loop ::
  "TaskRecord list \<Rightarrow> (string \<times> nat) list \<Rightarrow> string set \<Rightarrow> TaskPatch list \<Rightarrow> (TaskError, TaskRecord list) result" where
  "merge_loop rs positions changed [] = Ok rs"
| "merge_loop rs positions changed (p # ps) =
     (if \<not> valid_task_id (tp_id p) then Err InvalidId
      else if tp_id p \<in> changed then Err DuplicateId
      else case map_of positions (tp_id p) of
          Some position \<Rightarrow>
            merge_loop (rs[position := patch_task p (rs ! position)]) positions (insert (tp_id p) changed) ps
        | None \<Rightarrow>
            if length rs = MAX_TASKS then Err TaskBudget
            else try_then (new_task p) (\<lambda>t.
              merge_loop (rs @ [t]) ((tk_id t, length rs) # positions) (insert (tp_id p) changed) ps))"

definition merge ::
  "(TaskRecord list \<Rightarrow> string option) \<Rightarrow> TaskRecord list \<Rightarrow> TaskPatch list \<Rightarrow> (TaskError, TaskRecord list) result" where
  "merge json ts ps =
     try_then (tasks_validate json ts) (\<lambda>_.
     if length ps > MAX_TASKS then Err TaskBudget
     else try_then (merge_loop ts (map (\<lambda>(i, t). (tk_id t, i)) (enumerate 0 ts)) {} ps) (\<lambda>rs.
     try_then (tasks_validate json rs) (\<lambda>_. Ok rs)))"

section \<open>The active part\<close>

text \<open>From a task up to the first ancestor that is kept already; \<open>by_id[id]\<close> panics where the code would.\<close>

function keep_chain :: "task_index \<Rightarrow> string set \<Rightarrow> string option \<Rightarrow> string set option" where
  "keep_chain by_id keep None = Some keep"
| "keep_chain by_id keep (Some i) =
     (if i \<in> keep then Some keep
      else case map_of by_id i of
          None \<Rightarrow> None
        | Some t \<Rightarrow> keep_chain by_id (insert i keep) (tk_parent t))"
  by pat_completeness auto
termination keep_chain
  by (relation "measure (\<lambda>(by_id, keep, i). card (fst ` set by_id - keep))") (auto simp: seen_shrinks)

fun keep_loop :: "task_index \<Rightarrow> string set \<Rightarrow> TaskRecord list \<Rightarrow> string set option" where
  "keep_loop by_id keep [] = Some keep"
| "keep_loop by_id keep (t # ts) =
     (if is_active (tk_status t)
      then case keep_chain by_id keep (Some (tk_id t)) of
          None \<Rightarrow> None | Some keep' \<Rightarrow> keep_loop by_id keep' ts
      else keep_loop by_id keep ts)"

definition active_context ::
  "(TaskRecord list \<Rightarrow> string option) \<Rightarrow> TaskRecord list \<Rightarrow> nat \<Rightarrow> (TaskError crash, ActiveTaskContext) result" where
  "active_context json ts max_bytes =
     try_then (raised (tasks_validate json ts)) (\<lambda>_.
     try_then (ok_or (keep_loop (map (\<lambda>t. (tk_id t, t)) ts) {} ts) Panicked) (\<lambda>keep.
     if keep = {} then Ok \<lparr>atc_json = None, atc_omitted_for_budget = False\<rparr>
     else try_then (ok_or (json (filter (\<lambda>t. tk_id t \<in> keep) ts)) (Raised TaskBudget)) (\<lambda>s.
       if length s > min max_bytes MAX_TASK_PAYLOAD_BYTES
       then Ok \<lparr>atc_json = None, atc_omitted_for_budget = True\<rparr>
       else Ok \<lparr>atc_json = Some s, atc_omitted_for_budget = False\<rparr>)))"

section \<open>Identifiers for tasks that have none\<close>

definition le_bytes :: "nat \<Rightarrow> string" where
  "le_bytes n = map (\<lambda>i. char_of (n div 256 ^ i mod 256)) [0..<8]"

definition hex_byte :: "char \<Rightarrow> string" where
  "hex_byte c = (let d = \<lambda>n. if n < 10 then char_of (48 + n) else char_of (87 + n) in
     [d (code c div 16), d (code c mod 16)])"

definition provisional_id :: "(string \<Rightarrow> string) \<Rightarrow> string \<Rightarrow> nat \<Rightarrow> (TaskError, string) result" where
  "provisional_id sha revision index =
     (if blank revision \<or> length revision > MAX_TASK_ID_BYTES \<or> index \<ge> MAX_TASKS then Err InvalidId
      else Ok (''task_'' @ concat (map hex_byte (take 20
        (sha (''anima-structured-task-provisional-v1'' @ [CHR 0x00] @ le_bytes (length revision) @ revision
          @ le_bytes index))))))"

end
