(* ===== verification/Tasks_Facts.thy ===== *)
theory Tasks_Facts
  imports Tasks
begin

text \<open>
  What a task list promises: the check accepts exactly the lists whose parent links form a forest, a
  merge changes what its patches name and nothing else, and the active part is closed under parents.
\<close>

section \<open>The index and the parent links\<close>

definition parents :: "TaskRecord list \<Rightarrow> (string \<times> string) set" where
  "parents ts = {(i, p). \<exists>t \<in> set ts. tk_id t = i \<and> tk_parent t = Some p}"

definition index_of :: "TaskRecord list \<Rightarrow> task_index \<Rightarrow> bool" where
  "index_of ts by_id \<longleftrightarrow> (\<forall>i t. map_of by_id i = Some t \<longleftrightarrow> t \<in> set ts \<and> tk_id t = i)"

definition record_ok :: "TaskRecord \<Rightarrow> bool" where
  "record_ok t \<longleftrightarrow> valid_task_id (tk_id t) \<and> is_none_or (tk_parent t) valid_task_id \<and>
     valid_text (tk_content t) \<and> valid_text (tk_active_form t)"

lemma records_loop_ok:
  "records_loop by_id ts = Ok r \<longleftrightarrow> (\<forall>t \<in> set ts. record_ok t) \<and> distinct (map tk_id ts) \<and>
     tk_id ` set ts \<inter> fst ` set by_id = {} \<and> r = rev (map (\<lambda>t. (tk_id t, t)) ts) @ by_id"
proof (induction ts arbitrary: by_id)
  case (Cons t ts)
  have "records_loop by_id (t # ts) = Ok r \<longleftrightarrow> record_ok t \<and> tk_id t \<notin> fst ` set by_id \<and>
      records_loop ((tk_id t, t) # by_id) ts = Ok r"
    by (cases "tk_parent t") (auto simp: record_ok_def map_of_eq_None_iff)
  then show ?case unfolding Cons.IH by auto
qed auto

lemma index_ok: "distinct (map tk_id ts) \<Longrightarrow> index_of ts (map (\<lambda>t. (tk_id t, t)) ts)"
  "distinct (map tk_id ts) \<Longrightarrow> index_of ts (rev (map (\<lambda>t. (tk_id t, t)) ts))"
  by (auto simp: index_of_def map_of_eq_Some_iff rev_map [symmetric] comp_def)

lemma parents_unique: "index_of ts by_id \<Longrightarrow> (i, p) \<in> parents ts \<longleftrightarrow> (\<exists>t. map_of by_id i = Some t \<and> tk_parent t = Some p)"
  by (auto simp: index_of_def parents_def)

lemma chain_accepts:
  assumes ix: "index_of ts by_id" and closed: "\<And>i p. (i, p) \<in> parents ts \<Longrightarrow> p \<in> tk_id ` set ts" and ac: "acyclic (parents ts)"
  shows "(\<And>i. nx = Some i \<Longrightarrow> i \<in> tk_id ` set ts \<and> (\<forall>s \<in> seen. (s, i) \<in> (parents ts)\<^sup>+)) \<Longrightarrow> parent_chain by_id seen nx = Ok ()"
  using ix
proof (induction by_id seen nx rule: parent_chain.induct)
  case (2 by_id seen i)
  have i: "i \<notin> seen" using 2(2) [of i] ac by (auto simp: acyclic_def)
  obtain t where t: "map_of by_id i = Some t" using 2(2) [of i] 2(3) by (auto simp: index_of_def)
  have step: "(i, p) \<in> parents ts" if "tk_parent t = Some p" for p using parents_unique [OF 2(3)] t that by blast
  have "parent_chain by_id (insert i seen) (tk_parent t) = Ok ()"
  proof (rule 2(1) [OF i t _ 2(3)])
    fix p assume p: "tk_parent t = Some p"
    show "p \<in> tk_id ` set ts \<and> (\<forall>s \<in> insert i seen. (s, p) \<in> (parents ts)\<^sup>+)"
      using closed [OF step [OF p]] 2(2) [of i] step [OF p] by (auto intro: trancl_into_trancl)
  qed
  then show ?case using i t by simp
qed simp

lemma chain_rejects:
  assumes "index_of ts by_id"
  shows "parent_chain by_id seen (Some i) = Ok () \<Longrightarrow> i \<in> tk_id ` set ts \<and> (\<forall>s \<in> seen. (i, s) \<notin> (parents ts)\<^sup>*)"
  using assms
proof (induction by_id seen "Some i" arbitrary: i rule: parent_chain.induct)
  case (2 by_id seen i)
  obtain t where t: "map_of by_id i = Some t" "i \<notin> seen" "parent_chain by_id (insert i seen) (tk_parent t) = Ok ()"
    using 2(2) by (auto split: if_splits option.splits)
  have "(i, s) \<notin> (parents ts)\<^sup>*" if s: "s \<in> seen" for s
  proof
    assume "(i, s) \<in> (parents ts)\<^sup>*"
    then obtain p where p: "(i, p) \<in> parents ts" "(p, s) \<in> (parents ts)\<^sup>*"
      using s t(2) by (auto elim: converse_rtranclE)
    then have "tk_parent t = Some p" using parents_unique [OF 2(3)] t(1) by auto
    then show False using 2(1) [OF t(2,1) _ _ 2(3), of p] t(3) p(2) s by auto
  qed
  moreover have "i \<in> tk_id ` set ts" using t(1) 2(3) by (auto simp: index_of_def)
  ultimately show ?case by blast
qed

lemma chains_ok:
  assumes ix: "index_of ts by_id"
  shows "(\<forall>t \<in> set ts. parent_chain by_id {tk_id t} (tk_parent t) = Ok ()) \<longleftrightarrow>
    (\<forall>(i, p) \<in> parents ts. p \<in> tk_id ` set ts) \<and> acyclic (parents ts)"
proof
  assume ok: "\<forall>t \<in> set ts. parent_chain by_id {tk_id t} (tk_parent t) = Ok ()"
  have link: "p \<in> tk_id ` set ts \<and> (p, i) \<notin> (parents ts)\<^sup>*" if h: "(i, p) \<in> parents ts" for i p
  proof -
    obtain t where t: "t \<in> set ts" "tk_id t = i" "tk_parent t = Some p" using h by (auto simp: parents_def)
    then have "parent_chain by_id {i} (Some p) = Ok ()" using ok by fastforce
    from chain_rejects [OF ix this] show ?thesis by simp
  qed
  have "(i, i) \<notin> (parents ts)\<^sup>+" for i using link by (meson tranclD)
  with link show "(\<forall>(i, p) \<in> parents ts. p \<in> tk_id ` set ts) \<and> acyclic (parents ts)" by (auto simp: acyclic_def)
next
  assume "(\<forall>(i, p) \<in> parents ts. p \<in> tk_id ` set ts) \<and> acyclic (parents ts)"
  then have f: "\<And>i p. (i, p) \<in> parents ts \<Longrightarrow> p \<in> tk_id ` set ts" "acyclic (parents ts)" by auto
  show "\<forall>t \<in> set ts. parent_chain by_id {tk_id t} (tk_parent t) = Ok ()"
  proof
    fix t assume t: "t \<in> set ts"
    have "(tk_id t, p) \<in> parents ts" if "tk_parent t = Some p" for p using t that by (auto simp: parents_def)
    then show "parent_chain by_id {tk_id t} (tk_parent t) = Ok ()"
      using f(1) by (intro chain_accepts [OF ix f]) auto
  qed
qed

definition tasks_ok :: "(TaskRecord list \<Rightarrow> string option) \<Rightarrow> TaskRecord list \<Rightarrow> bool" where
  "tasks_ok json ts \<longleftrightarrow> length ts \<le> MAX_TASKS \<and> (\<forall>t \<in> set ts. record_ok t) \<and> distinct (map tk_id ts) \<and>
     (\<forall>(i, p) \<in> parents ts. p \<in> tk_id ` set ts) \<and> acyclic (parents ts) \<and>
     is_some_and (json ts) (\<lambda>bytes. length bytes \<le> MAX_TASK_PAYLOAD_BYTES)"

lemma tasks_validate_ok: "tasks_validate json ts = Ok () \<longleftrightarrow> tasks_ok json ts"
proof (cases "distinct (map tk_id ts)")
  case True
  have "(\<forall>t \<in> set ts. parent_chain (rev (map (\<lambda>t. (tk_id t, t)) ts)) {tk_id t} (tk_parent t) = Ok ()) \<longleftrightarrow>
      (\<forall>(i, p) \<in> parents ts. p \<in> tk_id ` set ts) \<and> acyclic (parents ts)"
    by (rule chains_ok [OF index_ok(2) [OF True]])
  then show ?thesis unfolding tasks_validate_def tasks_ok_def
    by (cases "json ts") (auto simp: records_loop_ok not_less)
qed (auto simp: tasks_validate_def tasks_ok_def records_loop_ok)

section \<open>Merging\<close>

definition upd_task :: "TaskPatch list \<Rightarrow> TaskRecord \<Rightarrow> TaskRecord" where
  "upd_task ps t = (case find (\<lambda>p. tp_id p = tk_id t) ps of Some p \<Rightarrow> patch_task p t | None \<Rightarrow> t)"

lemma upd_task_simps [simp]: "upd_task [] t = t"
  "upd_task (p # ps) t = (if tp_id p = tk_id t then patch_task p t else upd_task ps t)"
  by (simp_all add: upd_task_def)

lemma upd_task_other: "tk_id t \<notin> tp_id ` set ps \<Longrightarrow> upd_task ps t = t"
  by (induction ps) auto

lemma patch_task_id [simp]: "tk_id (patch_task p t) = tk_id t"
  by (simp add: patch_task_def)

lemma new_task_id: "new_task p = Ok t \<Longrightarrow> tk_id t = tp_id p"
  by (auto simp: new_task_def)

definition positions_of :: "TaskRecord list \<Rightarrow> (string \<times> nat) list \<Rightarrow> bool" where
  "positions_of rs ks \<longleftrightarrow> (\<forall>i k. map_of ks i = Some k \<longleftrightarrow> k < length rs \<and> tk_id (rs ! k) = i)"

definition merged :: "TaskRecord list \<Rightarrow> TaskPatch list \<Rightarrow> TaskRecord list \<Rightarrow> bool" where
  "merged rs ps out \<longleftrightarrow>
     (\<exists>news. map new_task (filter (\<lambda>p. tp_id p \<notin> tk_id ` set rs) ps) = map Ok news \<and> out = map (upd_task ps) rs @ news)"

lemma merged_Nil: "merged rs [] out \<longleftrightarrow> out = rs"
  by (simp add: merged_def map_idI)

lemma merged_length: "merged rs ps out \<Longrightarrow> length rs \<le> length out"
  by (auto simp: merged_def)

lemma merged_patch:
  assumes k: "k < length rs" "tk_id (rs ! k) = tp_id p" and d: "distinct (map tk_id rs)" and n: "tp_id p \<notin> tp_id ` set ps"
  shows "merged rs (p # ps) out \<longleftrightarrow> merged (rs[k := patch_task p (rs ! k)]) ps out"
proof -
  let ?rs = "rs[k := patch_task p (rs ! k)]"
  have "map tk_id ?rs = map tk_id rs" using k by (simp add: map_update list_update_same_conv)
  then have ids: "tk_id ` set ?rs = tk_id ` set rs" by (metis list.set_map)
  have "map (upd_task ps) ?rs = map (upd_task (p # ps)) rs"
  proof (rule nth_equalityI)
    fix j assume j: "j < length (map (upd_task ps) ?rs)"
    have "tk_id (rs ! j) \<noteq> tp_id p" if "j \<noteq> k" using j k that nth_eq_iff_index_eq [OF d, of j k] by simp
    then show "map (upd_task ps) ?rs ! j = map (upd_task (p # ps)) rs ! j"
      using j k n upd_task_other [of "patch_task p (rs ! k)" ps] by (cases "j = k") (auto simp: nth_list_update)
  qed simp
  moreover have "tp_id p \<in> tk_id ` set rs" using k nth_mem by (metis image_eqI)
  ultimately show ?thesis unfolding merged_def ids by simp
qed

lemma merged_new:
  assumes f: "tp_id p \<notin> tk_id ` set rs" and n: "tp_id p \<notin> tp_id ` set ps"
  shows "merged rs (p # ps) out \<longleftrightarrow> (\<exists>t. new_task p = Ok t \<and> merged (rs @ [t]) ps out)"
proof -
  have "merged rs (p # ps) out \<longleftrightarrow> merged (rs @ [t]) ps out" if t: "new_task p = Ok t" for t
  proof -
    have i: "tk_id t = tp_id p" by (rule new_task_id [OF t])
    then have "filter (\<lambda>q. tp_id q \<notin> tk_id ` set (rs @ [t])) ps = filter (\<lambda>q. tp_id q \<notin> tk_id ` set rs) ps"
      using n by (intro filter_cong) (auto simp: image_iff)
    moreover have "map (upd_task (p # ps)) rs = map (upd_task ps) rs" using f by (auto intro!: map_cong)
    moreover have "upd_task ps t = t" using n i by (intro upd_task_other) simp
    ultimately show ?thesis using f t by (auto simp: merged_def Cons_eq_map_conv)
  qed
  moreover have "\<exists>t. new_task p = Ok t" if "merged rs (p # ps) out"
    using that f by (auto simp: merged_def Cons_eq_map_conv)
  ultimately show ?thesis by blast
qed

lemma positions_None: "positions_of rs ks \<Longrightarrow> map_of ks i = None \<longleftrightarrow> i \<notin> tk_id ` set rs"
proof -
  assume p: "positions_of rs ks"
  have "map_of ks i \<noteq> None \<longleftrightarrow> (\<exists>k < length rs. tk_id (rs ! k) = i)" using p by (auto simp: positions_of_def)
  also have "\<dots> \<longleftrightarrow> i \<in> tk_id ` set rs" by (metis imageE image_eqI in_set_conv_nth)
  finally show ?thesis by blast
qed

lemma positions_new:
  "positions_of rs ks \<Longrightarrow> tk_id t \<notin> tk_id ` set rs \<Longrightarrow> positions_of (rs @ [t]) ((tk_id t, length rs) # ks)"
  by (auto simp: positions_of_def nth_append less_Suc_eq) (metis image_eqI nth_mem)

lemma positions_patch:
  "positions_of rs ks \<Longrightarrow> k < length rs \<Longrightarrow> positions_of (rs[k := patch_task p (rs ! k)]) ks"
  by (auto simp: positions_of_def nth_list_update)

lemma merge_loop_iff:
  "positions_of rs ks \<Longrightarrow> distinct (map tk_id rs) \<Longrightarrow> length rs \<le> MAX_TASKS \<Longrightarrow>
     merge_loop rs ks changed ps = Ok out \<longleftrightarrow> list_all (\<lambda>p. valid_task_id (tp_id p)) ps \<and> distinct (map tp_id ps) \<and>
       tp_id ` set ps \<inter> changed = {} \<and> merged rs ps out \<and> length out \<le> MAX_TASKS"
proof (induction rs ks changed ps rule: merge_loop.induct)
  case (2 rs ks changed p ps)
  note IH = "2.IH" and prems = "2.prems"
  show ?case
  proof (cases "valid_task_id (tp_id p) \<and> tp_id p \<notin> changed")
    case v: True
    show ?thesis
    proof (cases "map_of ks (tp_id p)")
      case (Some k)
      then have k: "k < length rs" "tk_id (rs ! k) = tp_id p" using prems(1) by (auto simp: positions_of_def)
      have "map tk_id (rs[k := patch_task p (rs ! k)]) = map tk_id rs" using k by (simp add: map_update list_update_same_conv)
      then have "merge_loop rs ks changed (p # ps) = Ok out \<longleftrightarrow> list_all (\<lambda>p. valid_task_id (tp_id p)) ps \<and> distinct (map tp_id ps) \<and>
          tp_id ` set ps \<inter> insert (tp_id p) changed = {} \<and> merged (rs[k := patch_task p (rs ! k)]) ps out \<and> length out \<le> MAX_TASKS"
        using IH(2) [OF _ _ Some] v Some prems positions_patch [OF prems(1) k(1)] by simp
      then show ?thesis using v merged_patch [OF k prems(2)] by auto
    next
      case None
      then have f: "tp_id p \<notin> tk_id ` set rs" using positions_None [OF prems(1)] by simp
      have step: "merge_loop (rs @ [t]) ((tk_id t, length rs) # ks) (insert (tp_id p) changed) ps = Ok out \<longleftrightarrow>
          list_all (\<lambda>p. valid_task_id (tp_id p)) ps \<and> distinct (map tp_id ps) \<and>
          tp_id ` set ps \<inter> insert (tp_id p) changed = {} \<and> merged (rs @ [t]) ps out \<and> length out \<le> MAX_TASKS"
        if t: "new_task p = Ok t" and l: "length rs \<noteq> MAX_TASKS" for t
        using IH(1) [OF _ _ None l, of t] v f prems l new_task_id [OF t] positions_new [OF prems(1), of t] by simp
      have "length out > MAX_TASKS" if "merged (rs @ [t]) ps out" "length rs = MAX_TASKS" for t
        using merged_length [OF that(1)] that(2) by simp
      then show ?thesis using v None step merged_new [OF f] by (auto simp: not_less) (metis not_less)+
    qed
  qed auto
qed (auto simp: merged_Nil)

lemma first_positions:
  assumes "distinct (map tk_id ts)"
  shows "positions_of ts (map (\<lambda>(i, t). (tk_id t, i)) (enumerate 0 ts))"
proof -
  have d: "distinct (map fst (map (\<lambda>(i, t). (tk_id t, i)) (enumerate 0 ts)))"
    using assms map_map [of tk_id snd "enumerate 0 ts"] by (simp add: comp_def case_prod_beta)
  show ?thesis unfolding positions_of_def map_of_eq_Some_iff [OF d]
    by (auto simp: in_set_enumerate_eq image_iff case_prod_beta intro!: bexI [of _ "(_, ts ! _)"])
qed

section \<open>The active part\<close>

lemma keep_chain_ok:
  assumes "index_of ts by_id" and "\<And>i p. (i, p) \<in> parents ts \<Longrightarrow> p \<in> tk_id ` set ts"
  shows "(\<And>i. nx = Some i \<Longrightarrow> i \<in> tk_id ` set ts) \<Longrightarrow>
    (\<And>k p. k \<in> keep \<Longrightarrow> (k, p) \<in> parents ts \<Longrightarrow> p \<in> keep \<or> nx = Some p) \<Longrightarrow>
    keep_chain by_id keep nx = Some (keep \<union> {x. \<exists>i. nx = Some i \<and> (i, x) \<in> (parents ts)\<^sup>*})"
  using assms(1)
proof (induction by_id keep nx rule: keep_chain.induct)
  case (2 by_id keep i)
  show ?case
  proof (cases "i \<in> keep")
    case True
    have "x \<in> keep" if "(i, x) \<in> (parents ts)\<^sup>*" for x
      using that True 2(3) by (induction rule: rtrancl_induct) auto
    then show ?thesis using True by auto
  next
    case False
    obtain t where t: "map_of by_id i = Some t" using 2(2) [of i] 2(4) by (auto simp: index_of_def)
    have up: "(i, p) \<in> parents ts \<longleftrightarrow> tk_parent t = Some p" for p using parents_unique [OF 2(4)] t by auto
    have "keep_chain by_id (insert i keep) (tk_parent t) =
        Some (insert i keep \<union> {x. \<exists>p. tk_parent t = Some p \<and> (p, x) \<in> (parents ts)\<^sup>*})"
      using 2(2,3) up assms(2) by (intro 2(1) [OF False t] 2(4)) blast+
    moreover have "insert i keep \<union> {x. \<exists>p. tk_parent t = Some p \<and> (p, x) \<in> (parents ts)\<^sup>*} = keep \<union> {x. (i, x) \<in> (parents ts)\<^sup>*}"
      using up by (auto elim: converse_rtranclE intro: converse_rtrancl_into_rtrancl)
    ultimately show ?thesis using False t by simp
  qed
qed simp

definition lineage_of :: "TaskRecord list \<Rightarrow> TaskRecord list \<Rightarrow> string set" where
  "lineage_of ts as = {x. \<exists>a \<in> set as. is_active (tk_status a) \<and> (tk_id a, x) \<in> (parents ts)\<^sup>*}"

lemma keep_loop_ok:
  assumes "index_of ts by_id" and "\<And>i p. (i, p) \<in> parents ts \<Longrightarrow> p \<in> tk_id ` set ts"
  shows "set as \<subseteq> set ts \<Longrightarrow> (\<And>k p. k \<in> keep \<Longrightarrow> (k, p) \<in> parents ts \<Longrightarrow> p \<in> keep) \<Longrightarrow>
    keep_loop by_id keep as = Some (keep \<union> lineage_of ts as)"
proof (induction as arbitrary: keep)
  case (Cons a as)
  show ?case
  proof (cases "is_active (tk_status a)")
    case True
    let ?keep = "keep \<union> {x. (tk_id a, x) \<in> (parents ts)\<^sup>*}"
    have "keep_chain by_id keep (Some (tk_id a)) = Some ?keep"
      using keep_chain_ok [OF assms, where nx = "Some (tk_id a)" and keep = keep] Cons.prems by auto
    moreover have "keep_loop by_id ?keep as = Some (?keep \<union> lineage_of ts as)"
      using Cons.prems by (intro Cons.IH) (auto intro: rtrancl_into_rtrancl)
    moreover have "?keep \<union> lineage_of ts as = keep \<union> lineage_of ts (a # as)" using True by (auto simp: lineage_of_def)
    ultimately show ?thesis using True by (simp del: is_active.simps)
  next
    case False
    then have "lineage_of ts (a # as) = lineage_of ts as" by (auto simp: lineage_of_def)
    then show ?thesis using False Cons by (simp del: is_active.simps)
  qed
qed (simp add: lineage_of_def)

text \<open>What a merge makes of a task and of a patch, written field by field.\<close>

definition task_changed :: "TaskPatch \<Rightarrow> TaskRecord \<Rightarrow> TaskRecord \<Rightarrow> bool" where
  "task_changed p t r \<longleftrightarrow> tk_id r = tk_id t \<and>
     (if tp_content p = None then tk_content r = tk_content t else tp_content p = Some (tk_content r)) \<and>
     (if tp_status p = None then tk_status r = tk_status t else tp_status p = Some (tk_status r)) \<and>
     (if tp_active_form p = None then tk_active_form r = tk_active_form t else tp_active_form p = Some (tk_active_form r)) \<and>
     (if tp_parent p = KeepParent then tk_parent r = tk_parent t else tp_parent p = SetParent (tk_parent r))"

definition task_created :: "TaskPatch \<Rightarrow> TaskRecord \<Rightarrow> bool" where
  "task_created p r \<longleftrightarrow> tk_id r = tp_id p \<and> tp_content p = Some (tk_content r) \<and> tp_status p = Some (tk_status r) \<and>
     tp_active_form p = Some (tk_active_form r) \<and>
     tp_parent p = (if tp_parent p = KeepParent \<and> tk_parent r = None then KeepParent else SetParent (tk_parent r))"

lemma task_changed_iff: "task_changed p t r \<longleftrightarrow> r = patch_task p t"
  by (cases r; cases t) (auto simp: task_changed_def patch_task_def split: option.splits ParentChange.splits)

lemma task_created_iff: "task_created p r \<longleftrightarrow> new_task p = Ok r"
  by (cases r) (auto simp: task_created_def new_task_def split: option.splits ParentChange.splits)

lemma merged_task_iff:
  assumes "distinct (map tp_id ps)"
  shows "((\<exists>p \<in> set ps. tp_id p = tk_id t \<and> task_changed p t r) \<or> tk_id t \<notin> tp_id ` set ps \<and> r = t) \<longleftrightarrow> r = upd_task ps t"
  using assms
proof (induction ps)
  case (Cons p ps)
  show ?case
  proof (cases "tp_id p = tk_id t")
    case True
    then have "tp_id q \<noteq> tk_id t" if "q \<in> set ps" for q using Cons.prems that by force
    then show ?thesis using True by (auto simp: task_changed_iff)
  next
    case False
    then show ?thesis using Cons by auto
  qed
qed simp

lemma list_all2_map_iff: "list_all2 (\<lambda>x y. y = f x) xs ys \<longleftrightarrow> ys = map f xs"
  by (induction xs arbitrary: ys) (auto simp: list_all2_Cons1)

lemma list_all2_Ok_iff: "list_all2 (\<lambda>x y. f x = Ok y) xs ys \<longleftrightarrow> map f xs = map Ok ys"
  by (induction xs arbitrary: ys) (auto simp: list_all2_Cons1 Cons_eq_map_conv)

lemma merged_iff:
  assumes "distinct (map tp_id ps)"
  shows "merged ts ps rs \<longleftrightarrow> (\<exists>olds news. rs = olds @ news \<and>
    list_all2 (\<lambda>t r. (\<exists>p \<in> set ps. tp_id p = tk_id t \<and> task_changed p t r) \<or> tk_id t \<notin> tp_id ` set ps \<and> r = t) ts olds \<and>
    list_all2 task_created (filter (\<lambda>p. tp_id p \<notin> tk_id ` set ts) ps) news)"
  unfolding merged_task_iff [OF assms] list_all2_map_iff task_created_iff list_all2_Ok_iff merged_def by auto

lemma merge_merged:
  "merge json ts ps = Ok rs \<longleftrightarrow>
     tasks_validate json ts = Ok () \<and> length ps \<le> MAX_TASKS \<and> list_all (\<lambda>p. valid_task_id (tp_id p)) ps \<and>
     distinct (map tp_id ps) \<and> merged ts ps rs \<and> tasks_validate json rs = Ok ()"
proof (cases "tasks_validate json ts = Ok () \<and> length ps \<le> MAX_TASKS")
  case True
  then have t: "tasks_ok json ts" by (simp add: tasks_validate_ok)
  then have d: "distinct (map tk_id ts)" and l: "length ts \<le> MAX_TASKS" by (auto simp: tasks_ok_def)
  have "length rs \<le> MAX_TASKS" if "tasks_validate json rs = Ok ()" using that by (simp add: tasks_validate_ok tasks_ok_def)
  then show ?thesis
    using True merge_loop_iff [OF first_positions [OF d] d l, of "{}" ps rs] unfolding merge_def by auto
qed (auto simp: merge_def)

section \<open>Properties of task lists\<close>

text \<open>
  The check accepts exactly the bounded lists of well-formed tasks with different identifiers whose
  parent links lead to tasks of the list and form no cycle.
\<close>

theorem tasks_validate_exact:
  "tasks_validate json ts = Ok () \<longleftrightarrow> length ts \<le> MAX_TASKS \<and> (\<forall>t \<in> set ts. record_ok t) \<and> distinct (map tk_id ts) \<and>
     (\<forall>(i, p) \<in> parents ts. p \<in> tk_id ` set ts) \<and> acyclic (parents ts) \<and>
     (\<exists>bytes. json ts = Some bytes \<and> length bytes \<le> MAX_TASK_PAYLOAD_BYTES)"
  unfolding tasks_validate_ok tasks_ok_def by (cases "json ts") auto

text \<open>\<^bold>\<open>C26.\<close> 
  A merge succeeds exactly when the patches are well-formed, name different tasks, complete every new
  task, and the merged list is valid. The merged list holds the tasks that were there, in their order,
  each with the fields its patch names changed and the others as they were, and after them the new
  tasks in the order of their patches.
\<close>

theorem merge_spec:
  "merge json ts ps = Ok rs \<longleftrightarrow>
     tasks_validate json ts = Ok () \<and> length ps \<le> MAX_TASKS \<and> list_all (\<lambda>p. valid_task_id (tp_id p)) ps \<and> distinct (map tp_id ps) \<and>
     (\<exists>olds news. rs = olds @ news \<and>
        list_all2 (\<lambda>t r. (\<exists>p \<in> set ps. tp_id p = tk_id t \<and> task_changed p t r) \<or> tk_id t \<notin> tp_id ` set ps \<and> r = t) ts olds \<and>
        list_all2 task_created (filter (\<lambda>p. tp_id p \<notin> tk_id ` set ts) ps) news) \<and>
     tasks_validate json rs = Ok ()"
  unfolding merge_merged by (intro conj_cong refl merged_iff)

text \<open>
  The active context of a valid list is made without a panic from the tasks that are active or an
  ancestor of an active one, in their order; it is given whole or not at all.
\<close>

theorem active_context_lineage:
  assumes "tasks_validate json ts = Ok ()"
  shows "active_context json ts max_bytes =
    (let kept = filter (\<lambda>t. \<exists>a \<in> set ts. is_active (tk_status a) \<and> (tk_id a, tk_id t) \<in> (parents ts)\<^sup>*) ts in
     if kept = [] then Ok \<lparr>atc_json = None, atc_omitted_for_budget = False\<rparr>
     else case json kept of
         None \<Rightarrow> Err (Raised TaskBudget)
       | Some s \<Rightarrow> Ok (if length s \<le> min max_bytes MAX_TASK_PAYLOAD_BYTES
           then \<lparr>atc_json = Some s, atc_omitted_for_budget = False\<rparr>
           else \<lparr>atc_json = None, atc_omitted_for_budget = True\<rparr>))"
proof -
  let ?keep = "lineage_of ts ts"
  have t: "tasks_ok json ts" using assms by (simp add: tasks_validate_ok)
  then have d: "distinct (map tk_id ts)" and closed: "\<And>i p. (i, p) \<in> parents ts \<Longrightarrow> p \<in> tk_id ` set ts"
    by (auto simp: tasks_ok_def)
  have keep: "keep_loop (map (\<lambda>t. (tk_id t, t)) ts) {} ts = Some ?keep"
    using keep_loop_ok [OF index_ok(1) [OF d] closed, where as = ts and keep = "{}"] by simp
  have "?keep \<subseteq> tk_id ` set ts"
    using closed by (auto simp: lineage_of_def elim: rtranclE)
  then have "?keep = {} \<longleftrightarrow> filter (\<lambda>t. tk_id t \<in> ?keep) ts = []" by (auto simp: filter_empty_conv)
  moreover have "filter (\<lambda>t. tk_id t \<in> ?keep) ts =
      filter (\<lambda>t. \<exists>a \<in> set ts. is_active (tk_status a) \<and> (tk_id a, tk_id t) \<in> (parents ts)\<^sup>*) ts"
    by (simp add: lineage_of_def)
  ultimately show ?thesis
    unfolding active_context_def keep using assms
    by (cases "json (filter (\<lambda>t. tk_id t \<in> ?keep) ts)") (auto simp: Let_def not_less not_le)
qed

section \<open>An example\<close>

definition example_task_list :: "TaskRecord list" where
  "example_task_list =
     [\<lparr>tk_id = ''a'', tk_content = ''c'', tk_status = TaskCompleted, tk_active_form = ''f'', tk_parent = None\<rparr>,
      \<lparr>tk_id = ''b'', tk_content = ''c'', tk_status = TaskPending, tk_active_form = ''f'', tk_parent = Some ''a''\<rparr>]"

definition example_json :: "TaskRecord list \<Rightarrow> string option" where
  "example_json ts = Some (concat (map tk_id ts))"

definition example_patch :: TaskPatch where
  "example_patch = \<lparr>tp_id = ''b'', tp_content = None, tp_status = Some TaskCompleted, tp_active_form = None, tp_parent = KeepParent\<rparr>"

lemma example_tasks_texts: "valid_task_id ''a''" "valid_task_id ''b''" "\<not> blank ''c''" "\<not> blank ''f''"
  "char_count ''c'' = 1" "char_count ''f'' = 1"
  by code_simp+

lemma example_tasks_parents: "parents (map (upd_task ps) example_task_list) \<subseteq> {(''b'', ''a'')}" if "ps \<in> {[], [example_patch]}"
  using that by (auto simp: parents_def example_task_list_def example_patch_def patch_task_def)

lemma example_tasks_valid: "tasks_validate example_json (map (upd_task ps) example_task_list) = Ok ()" if "ps \<in> {[], [example_patch]}"
proof -
  have "{(''b'', ''a'')} O {(''b'', ''a'')} = {}" by auto
  then have "acyclic {(''b'', ''a'')}" by (auto simp: acyclic_def dest: tranclD tranclD2)
  then have "acyclic (parents (map (upd_task ps) example_task_list))"
    using example_tasks_parents [OF that] acyclic_subset by blast
  then show ?thesis
    using that example_tasks_texts example_tasks_parents [OF that] unfolding tasks_validate_ok
    by (auto simp: tasks_ok_def example_task_list_def example_json_def MAX_TASKS_def record_ok_def valid_text_def
        MAX_TASK_TEXT_CHARS_def MAX_TASK_PAYLOAD_BYTES_def example_patch_def patch_task_def)
qed

theorem merge_spec_witness:
  "\<exists>rs. merge example_json example_task_list [example_patch] = Ok rs \<and> map tk_id rs = [''a'', ''b''] \<and>
    map tk_status rs = [TaskCompleted, TaskCompleted] \<and> map tk_content rs = [''c'', ''c''] \<and>
    map tk_parent rs = [None, Some ''a'']"
proof -
  have "merge example_json example_task_list [example_patch] = Ok (map (upd_task [example_patch]) example_task_list)"
    using example_tasks_valid [of "[]"] example_tasks_valid [of "[example_patch]"] example_tasks_texts
    by (simp add: merge_def MAX_TASKS_def map_idI) (simp add: example_patch_def example_task_list_def)
  from iffD1 [OF merge_spec this] this show ?thesis
    by (auto simp: example_task_list_def example_patch_def list_all2_Cons1 task_changed_def)
qed

theorem active_context_lineage_witness:
  "active_context example_json example_task_list 10 = Ok \<lparr>atc_json = Some ''ab'', atc_omitted_for_budget = False\<rparr>"
proof -
  have v: "tasks_validate example_json example_task_list = Ok ()" using example_tasks_valid [of "[]"] by (simp add: map_idI)
  have p: "parents example_task_list = {(''b'', ''a'')}" by (auto simp: parents_def example_task_list_def)
  have kept: "filter (\<lambda>t. \<exists>a \<in> set example_task_list. is_active (tk_status a) \<and> (tk_id a, tk_id t) \<in> (parents example_task_list)\<^sup>*)
      example_task_list = example_task_list"
    unfolding p by (auto simp: example_task_list_def)
  show ?thesis unfolding active_context_lineage [OF v] Let_def kept
    by (simp add: example_json_def example_task_list_def MAX_TASK_PAYLOAD_BYTES_def)
qed

end
