(* ===== verification/Intents.thy ===== *)
theory Intents
  imports Text
begin

text \<open>
  Standing intentions, \<open>anima-core/src/standing_intents.rs\<close>: the registry of an owner's instructions
  with their conditions, the changes that can be undone and the turns that were admitted.

  Lower-casing and the test for letters and digits follow tables of Unicode; they are the parameter
  \<open>Unicode\<close>, on UTF-8 strings and on the bytes of one character. The identifier that \<open>Uuid::new_v4\<close>
  makes for a change is the argument \<open>new_id\<close>. An operation returns its result and the registry after
  it: a refused change may have dropped changes from the registry.
\<close>

section \<open>Data\<close>

definition MAX_INTENTS :: nat where "MAX_INTENTS = 64"
definition MAX_CHANGES :: nat where "MAX_CHANGES = 256"
definition MAX_ADMISSIONS :: nat where "MAX_ADMISSIONS = 2048"
definition MAX_INSTRUCTION_BYTES :: nat where "MAX_INSTRUCTION_BYTES = 2048"
definition MAX_FIRES :: u32 where "MAX_FIRES = 32"
definition MAX_LIFETIME_MS :: u64 where "MAX_LIFETIME_MS = 366 * 24 * 60 * 60 * 1000"
definition MAX_TURN_BYTES :: nat where "MAX_TURN_BYTES = 65536"

datatype SenderScope = ScopeOwner | ScopeLocalOwner | ScopeTelegramOwner | ScopeDiscordOwner
datatype OwnerSender = SenderLocal | SenderTelegram | SenderDiscord

record IntentScope =
  is_session_id :: "string option"
  is_sender :: SenderScope

datatype ConversationEvent = ConversationStarted | ConversationMessage
datatype IntentCondition = Keyword string | OnEvent ConversationEvent

record IntentSpec =
  isp_scope :: IntentScope
  isp_condition :: IntentCondition
  isp_instruction :: string
  isp_expires_at_ms :: u64
  isp_cooldown_ms :: u64
  isp_max_fires :: u32

record IntentFire =
  if_run_id :: string
  if_at_ms :: u64

record StandingIntent =
  si_id :: string
  si_agent_id :: string
  si_spec :: IntentSpec
  si_revision :: u64
  si_created_at_ms :: u64
  si_updated_at_ms :: u64
  si_cancelled :: bool
  si_fires :: "IntentFire list"

record IntentChange =
  ic_id :: string
  ic_before :: "StandingIntent option"
  ic_after :: StandingIntent
  ic_undone :: bool

record IntentAdmission =
  ia_agent_id :: string
  ia_run_id :: string
  ia_retry_key :: "string option"
  ia_intent_ids :: "string list"

record StandingIntentRegistry =
  ir_intents :: "(string \<times> StandingIntent) list"
  ir_changes :: "(string \<times> IntentChange) list"
  ir_admissions :: "IntentAdmission list"

record OwnerTurn =
  ot_agent_id :: string
  ot_session_id :: string
  ot_sender :: OwnerSender
  ot_run_id :: string
  ot_retry_key :: "string option"
  ot_text :: string
  ot_conversation_started :: bool
  ot_now_ms :: u64

record IntentMatch =
  im_intent_id :: string
  im_instruction :: string

datatype IntentError =
    IeBound | IeIntent | IeChangeImage | IeAdmission | IeHistoryInvalid | IeHistoryFull | IeRegistry
  | IeChanged | IeUpdate | IeRevision | IeUndone | IeUndoRefused | IeIdentity | IeAdmissionsFull | IeExhausted

section \<open>Checks of the records\<close>

definition bounded_id :: "string \<Rightarrow> bool" where
  "bounded_id s \<longleftrightarrow> \<not> blank s \<and> length s \<le> 256 \<and> \<not> any_control s"

definition spec_valid :: "IntentSpec \<Rightarrow> bool" where
  "spec_valid s \<longleftrightarrow>
     is_none_or (is_session_id (isp_scope s)) bounded_id
     \<and> \<not> blank (isp_instruction s)
     \<and> length (isp_instruction s) \<le> MAX_INSTRUCTION_BYTES
     \<and> isp_max_fires s > 0
     \<and> isp_max_fires s \<le> MAX_FIRES
     \<and> isp_cooldown_ms s \<le> MAX_LIFETIME_MS
     \<and> (case isp_condition s of
          Keyword phrase \<Rightarrow> \<not> blank phrase \<and> length phrase \<le> 128 \<and> \<not> any_control phrase
        | OnEvent _ \<Rightarrow> True)"

definition intent_record_valid :: "StandingIntent \<Rightarrow> bool" where
  "intent_record_valid r \<longleftrightarrow>
     bounded_id (si_id r)
     \<and> bounded_id (si_agent_id r)
     \<and> spec_valid (si_spec r)
     \<and> si_revision r > 0
     \<and> si_created_at_ms r \<le> si_updated_at_ms r
     \<and> isp_expires_at_ms (si_spec r) > si_created_at_ms r
     \<and> isp_expires_at_ms (si_spec r) \<le> saturating_add (si_updated_at_ms r) MAX_LIFETIME_MS
     \<and> length (si_fires r) \<le> unat (isp_max_fires (si_spec r))
     \<and> list_all (\<lambda>f. bounded_id (if_run_id f) \<and> if_at_ms f \<ge> si_created_at_ms r
          \<and> if_at_ms f < isp_expires_at_ms (si_spec r)) (si_fires r)
     \<and> list_all (\<lambda>(a, b). if_at_ms a \<le> if_at_ms b) (zip (si_fires r) (tl (si_fires r)))
     \<and> card (set (map if_run_id (si_fires r))) = length (si_fires r)"

section \<open>Matching a phrase\<close>

record Unicode =
  to_lowercase :: "string \<Rightarrow> string"
  is_alphanumeric :: "string \<Rightarrow> bool"

definition continuation :: "char \<Rightarrow> bool" where
  "continuation c \<longleftrightarrow> 0x80 \<le> code c \<and> code c < 0xC0"

text \<open>\<open>chars().next()\<close> and \<open>chars().next_back()\<close>: the bytes of the first and of the last character.\<close>

definition first_char :: "string \<Rightarrow> string option" where
  "first_char s = (case s of [] \<Rightarrow> None | c # t \<Rightarrow> Some (c # takeWhile continuation t))"

definition last_char :: "string \<Rightarrow> string option" where
  "last_char s =
     (if s = [] then None
      else let tail = takeWhile continuation (rev s) in Some (rev (take (Suc (length tail)) (rev s))))"

text \<open>\<open>split_whitespace\<close>: the length of the white space at the front, then the words.\<close>

fun white_prefix :: "string \<Rightarrow> nat" where
  "white_prefix [] = 0"
| "white_prefix (a # s) =
     (if white1 a then 1
      else case s of
          [] \<Rightarrow> 0
        | b # s' \<Rightarrow> if white2 a b then 2
            else (case s' of [] \<Rightarrow> 0 | c # _ \<Rightarrow> if white3 a b c then 3 else 0))"

definition flush_word :: "string \<Rightarrow> string list" where
  "flush_word w = (if w = [] then [] else [w])"

function split_loop :: "string \<Rightarrow> string \<Rightarrow> string list" where
  "split_loop w [] = flush_word w"
| "split_loop w (c # s) =
     (let n = white_prefix (c # s) in
      if n > 0 then flush_word w @ split_loop [] (drop n (c # s)) else split_loop (w @ [c]) s)"
  by pat_completeness auto
termination split_loop
  by (relation "measure (\<lambda>(w, s). length s)") auto

fun join_words :: "string list \<Rightarrow> string" where
  "join_words [] = []"
| "join_words [w] = w"
| "join_words (w # v # ws) = w @ '' '' @ join_words (v # ws)"

definition normalize :: "Unicode \<Rightarrow> string \<Rightarrow> string" where
  "normalize u text = to_lowercase u (join_words (split_loop [] text))"

text \<open>
  \<open>match_indices\<close>: the positions of the matches that do not overlap, from the left; an empty pattern
  matches at every boundary of a character.
\<close>

function match_loop :: "string \<Rightarrow> nat \<Rightarrow> string \<Rightarrow> nat list" where
  "match_loop pat at [] = []"
| "match_loop pat at (c # s) =
     (if take (length pat) (c # s) = pat \<and> pat \<noteq> []
      then at # match_loop pat (at + length pat) (drop (length pat) (c # s))
      else match_loop pat (Suc at) s)"
  by pat_completeness auto
termination match_loop
  by (relation "measure (\<lambda>(pat, at, s). length s)") auto

definition match_indices :: "string \<Rightarrow> string \<Rightarrow> nat list" where
  "match_indices pat s =
     (if pat = [] then filter (\<lambda>i. i = length s \<or> \<not> continuation (s ! i)) [0..<Suc (length s)]
      else match_loop pat 0 s)"

definition word_bounded :: "Unicode \<Rightarrow> string \<Rightarrow> string \<Rightarrow> nat \<Rightarrow> bool" where
  "word_bounded u text phrase at \<longleftrightarrow>
     is_none_or (last_char (take at text)) (\<lambda>c. \<not> is_alphanumeric u c)
     \<and> is_none_or (first_char (drop (at + length phrase) text)) (\<lambda>c. \<not> is_alphanumeric u c)"

definition phrase_matches :: "Unicode \<Rightarrow> string \<Rightarrow> string \<Rightarrow> bool" where
  "phrase_matches u text phrase =
     (let t = normalize u text; p = normalize u phrase in
      list_ex (word_bounded u t p) (match_indices p t))"

section \<open>The check of a registry\<close>

definition change_invalid :: "string \<times> IntentChange \<Rightarrow> bool" where
  "change_invalid e =
     (case e of (i, c) \<Rightarrow>
        i \<noteq> ic_id c
        \<or> \<not> bounded_id i
        \<or> \<not> intent_record_valid (ic_after c)
        \<or> is_some_and (ic_before c) (\<lambda>b.
             \<not> intent_record_valid b \<or> si_id b \<noteq> si_id (ic_after c) \<or> si_agent_id b \<noteq> si_agent_id (ic_after c)))"

definition admission_invalid :: "(string \<times> string) set \<Rightarrow> (string \<times> string) set \<Rightarrow> IntentAdmission \<Rightarrow> bool" where
  "admission_invalid runs keys a \<longleftrightarrow>
     \<not> bounded_id (ia_agent_id a)
     \<or> \<not> bounded_id (ia_run_id a)
     \<or> is_some_and (ia_retry_key a) (\<lambda>k. \<not> bounded_id k)
     \<or> ia_intent_ids a = []
     \<or> length (ia_intent_ids a) > 3
     \<or> list_ex (\<lambda>i. \<not> bounded_id i) (ia_intent_ids a)
     \<or> card (set (ia_intent_ids a)) \<noteq> length (ia_intent_ids a)
     \<or> (ia_agent_id a, ia_run_id a) \<in> runs
     \<or> is_some_and (ia_retry_key a) (\<lambda>k. (ia_agent_id a, k) \<in> keys)"

fun admissions_loop ::
  "(string \<times> string) set \<Rightarrow> (string \<times> string) set \<Rightarrow> IntentAdmission list \<Rightarrow> (IntentError, unit) result" where
  "admissions_loop runs keys [] = Ok ()"
| "admissions_loop runs keys (a # as) =
     (if admission_invalid runs keys a then Err IeAdmission
      else admissions_loop (insert (ia_agent_id a, ia_run_id a) runs)
        (case ia_retry_key a of None \<Rightarrow> keys | Some k \<Rightarrow> insert (ia_agent_id a, k) keys) as)"

definition intents_validate :: "StandingIntentRegistry \<Rightarrow> (IntentError, unit) result" where
  "intents_validate r =
     (if length (ir_intents r) > MAX_INTENTS \<or> length (ir_changes r) > MAX_CHANGES
         \<or> length (ir_admissions r) > MAX_ADMISSIONS then Err IeBound
      else if list_ex (\<lambda>(i, x). i \<noteq> si_id x \<or> \<not> intent_record_valid x) (ir_intents r) then Err IeIntent
      else if list_ex change_invalid (ir_changes r) then Err IeChangeImage
      else admissions_loop {} {} (ir_admissions r))"

section \<open>Changes by the owner\<close>

type_synonym 'a intents_op = "StandingIntentRegistry \<Rightarrow> (IntentError, 'a) result \<times> StandingIntentRegistry"

definition reclaim :: "StandingIntentRegistry \<Rightarrow> StandingIntentRegistry" where
  "reclaim r = r\<lparr>ir_changes := filter (\<lambda>(i, c).
     \<not> ic_undone c \<and> map_of (ir_intents r) (si_id (ic_after c)) = Some (ic_after c)) (ir_changes r)\<rparr>"

definition commit_change ::
  "string \<Rightarrow> StandingIntent option \<Rightarrow> StandingIntent \<Rightarrow> (StandingIntent \<times> IntentChange) intents_op" where
  "commit_change new_id before after r =
     (if \<not> intent_record_valid after then (Err IeHistoryInvalid, r)
      else let r1 = (if length (ir_changes r) \<ge> MAX_CHANGES then reclaim r else r) in
        if length (ir_changes r1) \<ge> MAX_CHANGES then (Err IeHistoryFull, r1)
        else let change = \<lparr>ic_id = new_id, ic_before = before, ic_after = after, ic_undone = False\<rparr> in
          (Ok (after, change),
           r1\<lparr>ir_intents := bt_insert (si_id after) after (ir_intents r1),
              ir_changes := bt_insert new_id change (ir_changes r1)\<rparr>))"

definition intents_create ::
  "string \<Rightarrow> string \<Rightarrow> string \<Rightarrow> IntentSpec \<Rightarrow> u64 \<Rightarrow> (StandingIntent \<times> IntentChange) intents_op" where
  "intents_create new_id i agent spec now r =
     (if length (ir_intents r) \<ge> MAX_INTENTS
         \<or> map_of (ir_intents r) i \<noteq> None
         \<or> \<not> bounded_id i
         \<or> \<not> bounded_id agent
         \<or> \<not> spec_valid spec
         \<or> isp_expires_at_ms spec \<le> now
         \<or> isp_expires_at_ms spec > saturating_add now MAX_LIFETIME_MS then (Err IeRegistry, r)
      else commit_change new_id None
        \<lparr>si_id = i, si_agent_id = agent, si_spec = spec, si_revision = 1, si_created_at_ms = now,
          si_updated_at_ms = now, si_cancelled = False, si_fires = []\<rparr> r)"

text \<open>The record that an edit starts from: the current one, at the expected revision and not cancelled.\<close>

definition editable :: "StandingIntentRegistry \<Rightarrow> string \<Rightarrow> u64 \<Rightarrow> (IntentError, StandingIntent) result" where
  "editable r i revision =
     (case map_of (ir_intents r) i of
        None \<Rightarrow> Err IeChanged
      | Some x \<Rightarrow> if si_revision x = revision \<and> \<not> si_cancelled x then Ok x else Err IeChanged)"

definition intents_update ::
  "string \<Rightarrow> string \<Rightarrow> u64 \<Rightarrow> IntentSpec \<Rightarrow> u64 \<Rightarrow> (StandingIntent \<times> IntentChange) intents_op" where
  "intents_update new_id i revision spec now r =
     (case editable r i revision of
        Inl e \<Rightarrow> (Err e, r)
      | Inr before \<Rightarrow>
          if \<not> spec_valid spec
             \<or> isp_expires_at_ms spec \<le> now
             \<or> isp_expires_at_ms spec > saturating_add now MAX_LIFETIME_MS
             \<or> isp_max_fires spec < of_nat (length (si_fires before))
             \<or> list_ex (\<lambda>f. if_at_ms f \<ge> isp_expires_at_ms spec) (si_fires before) then (Err IeUpdate, r)
          else case checked_add (si_revision before) 1 of
              None \<Rightarrow> (Err IeRevision, r)
            | Some rev' \<Rightarrow> commit_change new_id (Some before)
                (before\<lparr>si_spec := spec, si_revision := rev', si_updated_at_ms := max now (si_updated_at_ms before)\<rparr>) r)"

definition intents_cancel :: "string \<Rightarrow> string \<Rightarrow> u64 \<Rightarrow> u64 \<Rightarrow> (StandingIntent \<times> IntentChange) intents_op" where
  "intents_cancel new_id i revision now r =
     (case editable r i revision of
        Inl e \<Rightarrow> (Err e, r)
      | Inr before \<Rightarrow>
          (case checked_add (si_revision before) 1 of
             None \<Rightarrow> (Err IeRevision, r)
           | Some rev' \<Rightarrow> commit_change new_id (Some before)
               (before\<lparr>si_cancelled := True, si_revision := rev', si_updated_at_ms := max now (si_updated_at_ms before)\<rparr>) r))"

definition intents_undo :: "string \<Rightarrow> u64 \<Rightarrow> (StandingIntent option) intents_op" where
  "intents_undo i now r =
     (case map_of (ir_changes r) i of
        None \<Rightarrow> (Err IeUndone, r)
      | Some change \<Rightarrow>
          if ic_undone change then (Err IeUndone, r)
          else if map_of (ir_intents r) (si_id (ic_after change)) \<noteq> Some (ic_after change) then (Err IeUndoRefused, r)
          else let changes' = bt_insert i (change\<lparr>ic_undone := True\<rparr>) (ir_changes r) in
            case ic_before change of
              Some before \<Rightarrow>
                (case checked_add (si_revision (ic_after change)) 1 of
                   None \<Rightarrow> (Err IeRevision, r)
                 | Some rev' \<Rightarrow>
                     let restored = before\<lparr>si_revision := rev', si_updated_at_ms := max now (si_updated_at_ms (ic_after change))\<rparr> in
                     (Ok (Some restored),
                      r\<lparr>ir_intents := bt_insert (si_id restored) restored (ir_intents r), ir_changes := changes'\<rparr>))
            | None \<Rightarrow>
                (Ok None,
                 r\<lparr>ir_intents := filter (\<lambda>(k, x). k \<noteq> si_id (ic_after change)) (ir_intents r), ir_changes := changes'\<rparr>))"

section \<open>Admission of a turn\<close>

definition sender_in_scope :: "SenderScope \<Rightarrow> OwnerSender \<Rightarrow> bool" where
  "sender_in_scope scope sender =
     (case scope of
        ScopeOwner \<Rightarrow> True
      | ScopeLocalOwner \<Rightarrow> sender = SenderLocal
      | ScopeTelegramOwner \<Rightarrow> sender = SenderTelegram
      | ScopeDiscordOwner \<Rightarrow> sender = SenderDiscord)"

definition condition_holds :: "Unicode \<Rightarrow> OwnerTurn \<Rightarrow> IntentCondition \<Rightarrow> bool" where
  "condition_holds u turn c =
     (case c of
        Keyword phrase \<Rightarrow> phrase_matches u (ot_text turn) phrase
      | OnEvent ConversationMessage \<Rightarrow> True
      | OnEvent ConversationStarted \<Rightarrow> ot_conversation_started turn)"

definition intent_due :: "Unicode \<Rightarrow> OwnerTurn \<Rightarrow> StandingIntent \<Rightarrow> bool" where
  "intent_due u turn r \<longleftrightarrow>
     si_agent_id r = ot_agent_id turn
     \<and> \<not> si_cancelled r
     \<and> si_created_at_ms r \<le> ot_now_ms turn
     \<and> ot_now_ms turn < isp_expires_at_ms (si_spec r)
     \<and> length (si_fires r) < unat (isp_max_fires (si_spec r))
     \<and> (si_fires r = [] \<or> ot_now_ms turn \<ge> saturating_add (if_at_ms (last (si_fires r))) (isp_cooldown_ms (si_spec r)))
     \<and> is_none_or (is_session_id (isp_scope (si_spec r))) (\<lambda>i. i = ot_session_id turn)
     \<and> sender_in_scope (is_sender (isp_scope (si_spec r))) (ot_sender turn)
     \<and> condition_holds u turn (isp_condition (si_spec r))"

definition already_admitted :: "StandingIntentRegistry \<Rightarrow> OwnerTurn \<Rightarrow> bool" where
  "already_admitted r turn =
     list_ex (\<lambda>a. ia_agent_id a = ot_agent_id turn \<and>
       (ia_run_id a = ot_run_id turn \<or> (ot_retry_key turn \<noteq> None \<and> ia_retry_key a = ot_retry_key turn))) (ir_admissions r)"

definition due_rows :: "Unicode \<Rightarrow> OwnerTurn \<Rightarrow> StandingIntentRegistry \<Rightarrow> (u64 \<times> string) list" where
  "due_rows u turn r =
     take 3 (sort (map (\<lambda>x. (si_created_at_ms x, si_id x)) (filter (intent_due u turn) (map snd (ir_intents r)))))"

text \<open>\<open>self.intents[id]\<close> and the \<open>unwrap\<close> panic on a missing key; \<open>None\<close> is that panic.\<close>

fun any_exhausted :: "(string \<times> StandingIntent) list \<Rightarrow> (u64 \<times> string) list \<Rightarrow> bool option" where
  "any_exhausted m [] = Some False"
| "any_exhausted m (row # rows) =
     (case map_of m (snd row) of
        None \<Rightarrow> None
      | Some x \<Rightarrow> if si_revision x = - 1 then Some True else any_exhausted m rows)"

definition fire_intent :: "OwnerTurn \<Rightarrow> StandingIntent \<Rightarrow> StandingIntent" where
  "fire_intent turn x = x\<lparr>
     si_fires := si_fires x @ [\<lparr>if_run_id = ot_run_id turn, if_at_ms = ot_now_ms turn\<rparr>],
     si_revision := si_revision x + 1,
     si_updated_at_ms := max (ot_now_ms turn) (si_updated_at_ms x)\<rparr>"

fun fire_loop ::
  "OwnerTurn \<Rightarrow> (string \<times> StandingIntent) list \<Rightarrow> IntentMatch list \<Rightarrow> (u64 \<times> string) list
     \<Rightarrow> (IntentMatch list \<times> (string \<times> StandingIntent) list) option" where
  "fire_loop turn m matched [] = Some (matched, m)"
| "fire_loop turn m matched (row # rows) =
     (case map_of m (snd row) of
        None \<Rightarrow> None
      | Some x \<Rightarrow> fire_loop turn (bt_insert (snd row) (fire_intent turn x) m)
          (matched @ [\<lparr>im_intent_id = snd row, im_instruction = isp_instruction (si_spec x)\<rparr>]) rows)"

definition intents_admit ::
  "Unicode \<Rightarrow> OwnerTurn \<Rightarrow> StandingIntentRegistry \<Rightarrow> (IntentError crash, IntentMatch list) result \<times> StandingIntentRegistry" where
  "intents_admit u turn r =
     (if \<not> bounded_id (ot_agent_id turn)
         \<or> \<not> bounded_id (ot_run_id turn)
         \<or> \<not> bounded_id (ot_session_id turn)
         \<or> is_some_and (ot_retry_key turn) (\<lambda>k. \<not> bounded_id k) then (Err (Raised IeIdentity), r)
      else if length (ot_text turn) > MAX_TURN_BYTES \<or> already_admitted r turn then (Ok [], r)
      else let rows = due_rows u turn r in
        if rows = [] then (Ok [], r)
        else if length (ir_admissions r) \<ge> MAX_ADMISSIONS then (Err (Raised IeAdmissionsFull), r)
        else case any_exhausted (ir_intents r) rows of
            None \<Rightarrow> (Err Panicked, r)
          | Some True \<Rightarrow> (Err (Raised IeExhausted), r)
          | Some False \<Rightarrow>
              (case fire_loop turn (ir_intents r) [] rows of
                 None \<Rightarrow> (Err Panicked, r)
               | Some (matched, m) \<Rightarrow>
                   (Ok matched,
                    r\<lparr>ir_intents := m,
                       ir_admissions := ir_admissions r @ [\<lparr>ia_agent_id = ot_agent_id turn, ia_run_id = ot_run_id turn,
                         ia_retry_key = ot_retry_key turn, ia_intent_ids = map im_intent_id matched\<rparr>]\<rparr>)))"

definition Registry_default :: StandingIntentRegistry where
  "Registry_default = \<lparr>ir_intents = [], ir_changes = [], ir_admissions = []\<rparr>"

end
