(* ===== verification/Intents_Inv.thy ===== *)
theory Intents_Inv
  imports Intents Step_System
begin

text \<open>
  The invariant of the standing intentions and that every operation keeps it: the registry is valid,
  an open change is at or behind the record it names, and every fire has its admission.
\<close>

section \<open>Ordered maps\<close>

lemma map_of_removed: "map_of (filter (\<lambda>(k, x). k \<noteq> a) t) i = (if i = a then None else map_of t i)"
  by (induction t) auto

lemma bt_wf_filter: "bt_wf t \<Longrightarrow> bt_wf (filter P t)"
  unfolding bt_wf_def by (induction t) (auto split: prod.splits)

lemma bt_mem: "bt_wf t \<Longrightarrow> (k, x) \<in> set t \<longleftrightarrow> map_of t k = Some x"
  using bt_wf_distinct [of t] by (metis map_of_eq_Some_iff)

lemma map_of_filter_wf:
  assumes "bt_wf t"
  shows "map_of (filter P t) k = Some x \<longleftrightarrow> map_of t k = Some x \<and> P (k, x)"
  unfolding bt_mem [OF assms, symmetric] bt_mem [OF bt_wf_filter [OF assms], symmetric] by simp

section \<open>Records\<close>

lemma adjacent_sorted: "list_all (\<lambda>(a, b). f a \<le> f b) (zip xs (tl xs)) \<longleftrightarrow> sorted (map f xs)" for f :: "'a \<Rightarrow> 'b::linorder"
proof (induction xs)
  case (Cons x xs)
  then show ?case by (cases xs) (auto intro: order_trans)
qed simp

lemma card_eq_length: "card (set xs) = length xs \<longleftrightarrow> distinct xs"
  using card_distinct distinct_card by blast

lemma saturating_add_mono: "a \<le> b \<Longrightarrow> saturating_add a c \<le> saturating_add b c" for a b c :: u64
  unfolding word_le_nat_alt unat_saturating_add by linarith

lemma inc_exact: "a \<noteq> - 1 \<longleftrightarrow> unat (a + 1) = unat a + 1" for a :: u64
proof
  assume "a \<noteq> - 1"
  then have "1 + a \<noteq> 0" by (metis add.commute add_eq_0_iff)
  then show "unat (a + 1) = unat a + 1" by (simp add: unatSuc add.commute)
next
  assume "unat (a + 1) = unat a + 1"
  then show "a \<noteq> - 1" by auto
qed

lemma checked_inc: "checked_add a 1 = Some b \<longleftrightarrow> a \<noteq> - 1 \<and> b = a + 1" for a b :: u64
proof -
  have "unat (a + 1) = unat a + 1" if "unat b = unat a + 1"
  proof -
    have "unat b < 2 ^ LENGTH(64)" by (rule unsigned_less)
    then show ?thesis using that unat_add_in_range [of a 1] by simp
  qed
  then show ?thesis unfolding checked_add_Some_iff inc_exact by (auto simp: word_unat_eq_iff)
qed

lemma inc_greater: "a \<noteq> - 1 \<Longrightarrow> a < a + 1" for a :: u64
  unfolding inc_exact word_less_nat_alt by simp

lemma intent_record_valid_iff:
  "intent_record_valid r \<longleftrightarrow>
     bounded_id (si_id r) \<and> bounded_id (si_agent_id r) \<and> spec_valid (si_spec r) \<and> si_revision r > 0 \<and>
     si_created_at_ms r \<le> si_updated_at_ms r \<and> isp_expires_at_ms (si_spec r) > si_created_at_ms r \<and>
     isp_expires_at_ms (si_spec r) \<le> saturating_add (si_updated_at_ms r) MAX_LIFETIME_MS \<and>
     length (si_fires r) \<le> unat (isp_max_fires (si_spec r)) \<and>
     (\<forall>f \<in> set (si_fires r). bounded_id (if_run_id f) \<and> si_created_at_ms r \<le> if_at_ms f \<and> if_at_ms f < isp_expires_at_ms (si_spec r)) \<and>
     sorted (map if_at_ms (si_fires r)) \<and> distinct (map if_run_id (si_fires r))"
  unfolding intent_record_valid_def adjacent_sorted
  using card_eq_length [of "map if_run_id (si_fires r)"] by (auto simp: list_all_iff)

text \<open>Two admissions of one agent that are the same run or the same retry key.\<close>

definition same_turn :: "IntentAdmission \<Rightarrow> IntentAdmission \<Rightarrow> bool" where
  "same_turn a b \<longleftrightarrow> ia_agent_id a = ia_agent_id b \<and>
     (ia_run_id a = ia_run_id b \<or> (ia_retry_key b \<noteq> None \<and> ia_retry_key a = ia_retry_key b))"

lemma admissions_loop_ok:
  "admissions_loop runs keys as = Ok () \<longleftrightarrow>
     (\<forall>a \<in> set as. \<not> admission_invalid {} {} a) \<and> sorted_wrt (\<lambda>a b. \<not> same_turn a b) as \<and>
     (\<forall>a \<in> set as. (ia_agent_id a, ia_run_id a) \<notin> runs \<and> (\<forall>k. ia_retry_key a = Some k \<longrightarrow> (ia_agent_id a, k) \<notin> keys))"
proof (induction as arbitrary: runs keys)
  case (Cons a as)
  have "admission_invalid runs keys a \<longleftrightarrow> admission_invalid {} {} a \<or> (ia_agent_id a, ia_run_id a) \<in> runs \<or>
      (\<exists>k. ia_retry_key a = Some k \<and> (ia_agent_id a, k) \<in> keys)"
    by (cases "ia_retry_key a") (auto simp: admission_invalid_def)
  then show ?case unfolding admissions_loop.simps
    by (cases "ia_retry_key a") (auto simp: Cons.IH same_turn_def)
qed simp

section \<open>The invariant\<close>

text \<open>What the operations keep of a change: how its two images differ, and, until it is undone, that the
  record it names is at the change's image or past it.\<close>

definition image_step :: "IntentChange \<Rightarrow> bool" where
  "image_step c \<longleftrightarrow>
     (case ic_before c of
        None \<Rightarrow> si_revision (ic_after c) = 1 \<and> si_fires (ic_after c) = []
      | Some b \<Rightarrow> si_updated_at_ms b \<le> si_updated_at_ms (ic_after c) \<and> si_fires b = si_fires (ic_after c))"

definition at_or_past :: "StandingIntentRegistry \<Rightarrow> StandingIntent \<Rightarrow> bool" where
  "at_or_past r x \<longleftrightarrow> (\<exists>y. map_of (ir_intents r) (si_id x) = Some y \<and> si_revision x \<le> si_revision y \<and>
     (si_revision x = si_revision y \<longrightarrow> x = y))"

definition open_changes_differ :: "(string \<times> IntentChange) list \<Rightarrow> bool" where
  "open_changes_differ m \<longleftrightarrow> (\<forall>k c k' c'. map_of m k = Some c \<longrightarrow> map_of m k' = Some c' \<longrightarrow> \<not> ic_undone c \<longrightarrow> \<not> ic_undone c' \<longrightarrow>
     si_id (ic_after c) = si_id (ic_after c') \<longrightarrow> si_revision (ic_after c) = si_revision (ic_after c') \<longrightarrow> k = k')"

definition fires_recorded :: "StandingIntentRegistry \<Rightarrow> StandingIntent \<Rightarrow> bool" where
  "fires_recorded r x \<longleftrightarrow> (\<forall>f \<in> set (si_fires x). \<exists>a \<in> set (ir_admissions r).
     ia_agent_id a = si_agent_id x \<and> ia_run_id a = if_run_id f)"

definition intent_in_place :: "StandingIntentRegistry \<Rightarrow> bool" where
  "intent_in_place r \<longleftrightarrow> (\<forall>i x. map_of (ir_intents r) i = Some x \<longrightarrow> i = si_id x \<and> intent_record_valid x \<and> fires_recorded r x)"

definition change_in_place :: "StandingIntentRegistry \<Rightarrow> bool" where
  "change_in_place r \<longleftrightarrow> (\<forall>k c. map_of (ir_changes r) k = Some c \<longrightarrow> \<not> change_invalid (k, c) \<and> image_step c \<and>
     (ic_undone c \<or> at_or_past r (ic_after c)))"

definition registry_inv :: "StandingIntentRegistry \<Rightarrow> bool" where
  "registry_inv r \<longleftrightarrow> bt_wf (ir_intents r) \<and> bt_wf (ir_changes r) \<and>
     length (ir_intents r) \<le> MAX_INTENTS \<and> length (ir_changes r) \<le> MAX_CHANGES \<and> length (ir_admissions r) \<le> MAX_ADMISSIONS \<and>
     intent_in_place r \<and> change_in_place r \<and> open_changes_differ (ir_changes r) \<and>
     admissions_loop {} {} (ir_admissions r) = Ok ()"

lemma registry_inv_default: "registry_inv Registry_default"
  by (simp add: registry_inv_def Registry_default_def intent_in_place_def change_in_place_def open_changes_differ_def)

lemma registry_inv_validate: "registry_inv r \<Longrightarrow> intents_validate r = Ok ()"
  unfolding registry_inv_def intents_validate_def intent_in_place_def change_in_place_def
  by (auto simp: bt_mem list_ex_iff not_less)

lemma registry_inv_mono:
  assumes "registry_inv r" and "bt_wf m" and "length m \<le> MAX_CHANGES"
    and "\<And>k c. map_of m k = Some c \<Longrightarrow> map_of (ir_changes r) k = Some c"
  shows "registry_inv (r\<lparr>ir_changes := m\<rparr>)"
  using assms unfolding registry_inv_def intent_in_place_def change_in_place_def open_changes_differ_def
    at_or_past_def fires_recorded_def by simp blast

lemma reclaim_keeps [simp]: "ir_intents (reclaim r) = ir_intents r" "ir_admissions (reclaim r) = ir_admissions r"
  by (simp_all add: reclaim_def)

lemma registry_inv_reclaim: "registry_inv r \<Longrightarrow> registry_inv (reclaim r)"
proof -
  assume r: "registry_inv r"
  then have w: "bt_wf (ir_changes r)" and l: "length (ir_changes r) \<le> MAX_CHANGES" by (auto simp: registry_inv_def)
  show ?thesis unfolding reclaim_def
    by (rule registry_inv_mono [OF r bt_wf_filter [OF w]])
      (auto simp: map_of_filter_wf [OF w] intro: order_trans [OF length_filter_le l])
qed

text \<open>An edit: the change that the operations commit.\<close>

definition edit_of :: "StandingIntentRegistry \<Rightarrow> StandingIntent option \<Rightarrow> StandingIntent \<Rightarrow> bool" where
  "edit_of r before after \<longleftrightarrow>
     (case before of
        None \<Rightarrow> map_of (ir_intents r) (si_id after) = None \<and> length (ir_intents r) < MAX_INTENTS \<and>
          si_revision after = 1 \<and> si_fires after = []
      | Some b \<Rightarrow> map_of (ir_intents r) (si_id after) = Some b \<and> si_id b = si_id after \<and> si_agent_id b = si_agent_id after \<and>
          si_revision b < si_revision after \<and> si_updated_at_ms b \<le> si_updated_at_ms after \<and> si_fires b = si_fires after)"

lemma registry_inv_edit:
  assumes r: "registry_inv r" and e: "edit_of r before after" and v: "intent_record_valid after" and n: "bounded_id new_id"
    and l: "length (ir_changes r) < MAX_CHANGES"
  shows "registry_inv (r\<lparr>ir_intents := bt_insert (si_id after) after (ir_intents r),
    ir_changes := bt_insert new_id \<lparr>ic_id = new_id, ic_before = before, ic_after = after, ic_undone = False\<rparr> (ir_changes r)\<rparr>)"
    (is "registry_inv ?r")
proof -
  let ?c = "\<lparr>ic_id = new_id, ic_before = before, ic_after = after, ic_undone = False\<rparr>"
  note R = r [unfolded registry_inv_def]
  have b: "intent_record_valid b \<and> fires_recorded r b" if "before = Some b" for b
    using that e R by (auto simp: edit_of_def intent_in_place_def)
  have older: "at_or_past ?r (ic_after c) \<and> (si_id (ic_after c) = si_id after \<longrightarrow> si_revision (ic_after c) \<noteq> si_revision after)"
    if c: "map_of (ir_changes r) k = Some c" "\<not> ic_undone c" for k c
  proof -
    obtain y where "map_of (ir_intents r) (si_id (ic_after c)) = Some y" "si_revision (ic_after c) \<le> si_revision y"
      "si_revision (ic_after c) = si_revision y \<longrightarrow> ic_after c = y"
      using R c unfolding change_in_place_def at_or_past_def by blast
    then show ?thesis using e by (auto simp: at_or_past_def edit_of_def split: option.splits)
  qed
  have "length (ir_intents ?r) \<le> MAX_INTENTS"
    using R e bt_length_insert [of "ir_intents r" "si_id after" after] by (auto simp: edit_of_def split: option.splits)
  moreover have "length (ir_changes ?r) \<le> MAX_CHANGES"
    using R l bt_length_insert [of "ir_changes r" new_id ?c] by auto
  moreover have "intent_in_place ?r"
    using R v e b by (auto simp: intent_in_place_def fires_recorded_def edit_of_def split: option.splits)
  moreover have "change_in_place ?r"
  proof -
    have "\<not> change_invalid (new_id, ?c)" "image_step ?c" "at_or_past ?r after"
      using v n e b by (auto simp: change_invalid_def image_step_def at_or_past_def edit_of_def split: option.splits)
    then show ?thesis using R older unfolding change_in_place_def by simp blast
  qed
  moreover have "open_changes_differ (ir_changes ?r)"
    using R older unfolding open_changes_differ_def by simp metis
  ultimately show ?thesis using R by (simp add: registry_inv_def)
qed

lemma commit_change_inv:
  assumes r: "registry_inv r" and e: "edit_of r before after" and n: "bounded_id new_id"
  shows "registry_inv (snd (commit_change new_id before after r))"
proof -
  let ?r = "if length (ir_changes r) \<ge> MAX_CHANGES then reclaim r else r"
  have "registry_inv ?r" using r registry_inv_reclaim by simp
  moreover have "edit_of ?r before after" using e by (cases before) (simp_all add: edit_of_def)
  ultimately show ?thesis
    using r registry_inv_edit [of ?r before after new_id] n unfolding commit_change_def Let_def by auto
qed

text \<open>Each edit commits a change of this kind.\<close>

lemma create_inv:
  assumes "registry_inv r" and "bounded_id new_id"
  shows "registry_inv (snd (intents_create new_id i agent spec now r))"
proof -
  have "map_of (ir_intents r) i = None \<Longrightarrow> length (ir_intents r) < MAX_INTENTS \<Longrightarrow> edit_of r None
      \<lparr>si_id = i, si_agent_id = agent, si_spec = spec, si_revision = 1, si_created_at_ms = now, si_updated_at_ms = now,
       si_cancelled = False, si_fires = []\<rparr>" by (simp add: edit_of_def)
  then show ?thesis using assms commit_change_inv by (auto simp: intents_create_def)
qed

lemma editable_Ok: "editable r i revision = Ok b \<longleftrightarrow> map_of (ir_intents r) i = Some b \<and> si_revision b = revision \<and> \<not> si_cancelled b"
  by (auto simp: editable_def split: option.splits)

lemma edit_next:
  assumes "registry_inv r" and "map_of (ir_intents r) i = Some b" and "checked_add (si_revision b) 1 = Some rev'"
    and "si_id x = si_id b" "si_agent_id x = si_agent_id b" "si_fires x = si_fires b" "si_revision x = rev'"
      "si_updated_at_ms x = max now (si_updated_at_ms b)"
  shows "edit_of r (Some b) x"
  using assms inc_greater [of "si_revision b"] by (auto simp: edit_of_def checked_inc registry_inv_def intent_in_place_def)

lemma update_inv:
  assumes "registry_inv r" and "bounded_id new_id"
  shows "registry_inv (snd (intents_update new_id i revision spec now r))"
  using assms by (auto simp: intents_update_def editable_Ok split: sum.splits option.splits intro!: commit_change_inv edit_next)

lemma cancel_inv:
  assumes "registry_inv r" and "bounded_id new_id"
  shows "registry_inv (snd (intents_cancel new_id i revision now r))"
  using assms by (auto simp: intents_cancel_def editable_Ok split: sum.splits option.splits intro!: commit_change_inv edit_next)

text \<open>Undo.\<close>

lemma restored_valid:
  assumes "intent_record_valid b" and "si_updated_at_ms b \<le> t"
  shows "intent_record_valid (b\<lparr>si_revision := si_revision x + 1, si_updated_at_ms := max now t\<rparr>) \<longleftrightarrow> si_revision x \<noteq> - 1"
proof -
  have t: "si_updated_at_ms b \<le> max now t" using assms(2) by (simp add: le_max_iff_disj)
  have "si_revision x + 1 > 0 \<longleftrightarrow> si_revision x \<noteq> - 1"
    by (metis add_eq_0_iff add.commute minus_equation_iff word_gt_0)
  then show ?thesis
    using assms(1) t saturating_add_mono [OF t, of MAX_LIFETIME_MS] by (auto simp: intent_record_valid_iff)
qed

lemma undo_ok:
  "intents_undo k now r = (Ok x, r') \<Longrightarrow> \<exists>c. map_of (ir_changes r) k = Some c \<and> \<not> ic_undone c \<and>
     map_of (ir_intents r) (si_id (ic_after c)) = Some (ic_after c) \<and>
     (case ic_before c of
        None \<Rightarrow> x = None \<and> r' = r\<lparr>ir_intents := filter (\<lambda>(k, x). k \<noteq> si_id (ic_after c)) (ir_intents r),
          ir_changes := bt_insert k (c\<lparr>ic_undone := True\<rparr>) (ir_changes r)\<rparr>
      | Some b \<Rightarrow> si_revision (ic_after c) \<noteq> - 1 \<and>
          x = Some (b\<lparr>si_revision := si_revision (ic_after c) + 1, si_updated_at_ms := max now (si_updated_at_ms (ic_after c))\<rparr>) \<and>
          r' = r\<lparr>ir_intents := bt_insert (si_id b) (the x) (ir_intents r),
            ir_changes := bt_insert k (c\<lparr>ic_undone := True\<rparr>) (ir_changes r)\<rparr>)"
  by (auto simp: intents_undo_def Let_def checked_inc split: option.splits if_splits)

lemma undo_err: "fst (intents_undo k now r) = Err e \<Longrightarrow> snd (intents_undo k now r) = r"
  by (auto simp: intents_undo_def Let_def split: option.splits if_splits)

lemma undone_image [simp]: "image_step (c\<lparr>ic_undone := b\<rparr>) = image_step c" "change_invalid (k, c\<lparr>ic_undone := b\<rparr>) = change_invalid (k, c)"
  by (cases "ic_before c"; simp add: image_step_def change_invalid_def)+

lemma registry_inv_undone:
  assumes r: "registry_inv r" and c: "map_of (ir_changes r) k = Some c"
    and m: "bt_wf m" "length m \<le> MAX_INTENTS" "intent_in_place (r\<lparr>ir_intents := m\<rparr>)"
    and o: "\<And>k' c'. map_of (ir_changes r) k' = Some c' \<Longrightarrow> \<not> ic_undone c' \<Longrightarrow> k' \<noteq> k \<Longrightarrow> at_or_past (r\<lparr>ir_intents := m\<rparr>) (ic_after c')"
  shows "registry_inv (r\<lparr>ir_intents := m, ir_changes := bt_insert k (c\<lparr>ic_undone := True\<rparr>) (ir_changes r)\<rparr>)" (is "registry_inv ?r")
proof -
  note R = r [unfolded registry_inv_def]
  have "length (ir_changes ?r) \<le> MAX_CHANGES" using R c bt_length_insert [of "ir_changes r" k] by auto
  moreover have "intent_in_place ?r" using m(3) by (simp add: intent_in_place_def fires_recorded_def)
  moreover have "\<not> change_invalid (k, c\<lparr>ic_undone := True\<rparr>)" "image_step (c\<lparr>ic_undone := True\<rparr>)"
    using R c by (simp_all add: change_in_place_def)
  then have "change_in_place ?r" using R o unfolding change_in_place_def at_or_past_def by auto
  moreover have "open_changes_differ (ir_changes ?r)" using R unfolding open_changes_differ_def by auto
  ultimately show ?thesis using R m(1,2) by (simp add: registry_inv_def)
qed

lemma undo_create_inv:
  assumes r: "registry_inv r" and c: "map_of (ir_changes r) k = Some c" "\<not> ic_undone c" "ic_before c = None"
    "map_of (ir_intents r) (si_id (ic_after c)) = Some (ic_after c)"
  shows "registry_inv (r\<lparr>ir_intents := filter (\<lambda>(k, x). k \<noteq> si_id (ic_after c)) (ir_intents r),
    ir_changes := bt_insert k (c\<lparr>ic_undone := True\<rparr>) (ir_changes r)\<rparr>)"
proof (rule registry_inv_undone [OF r c(1)])
  note R = r [unfolded registry_inv_def]
  fix k' c' assume c': "map_of (ir_changes r) k' = Some c'" "\<not> ic_undone c'" "k' \<noteq> k"
  have past: "at_or_past r (ic_after c')" using R c' by (auto simp: change_in_place_def)
  have "si_id (ic_after c') \<noteq> si_id (ic_after c)"
  proof
    assume same: "si_id (ic_after c') = si_id (ic_after c)"
    have "image_step c" using R c(1) by (simp add: change_in_place_def)
    then have "si_revision (ic_after c) = 1" using c(3) by (simp add: image_step_def)
    moreover have "\<not> change_invalid (k', c')" using R c' by (simp add: change_in_place_def)
    then have "si_revision (ic_after c') > 0" by (simp add: change_invalid_def intent_record_valid_iff)
    moreover have "si_revision (ic_after c') \<le> si_revision (ic_after c)" using past c(4) same by (simp add: at_or_past_def)
    ultimately have "si_revision (ic_after c') = si_revision (ic_after c)" by (simp add: word_le_nat_alt word_less_nat_alt word_unat_eq_iff)
    then show False using R c(1,2) c' same unfolding open_changes_differ_def by metis
  qed
  then show "at_or_past (r\<lparr>ir_intents := filter (\<lambda>(k, x). k \<noteq> si_id (ic_after c)) (ir_intents r)\<rparr>) (ic_after c')"
    using past by (simp add: at_or_past_def map_of_removed)
qed (use r in \<open>auto simp: registry_inv_def bt_wf_filter intent_in_place_def fires_recorded_def map_of_removed
    intro: order_trans [OF length_filter_le] split: if_splits\<close>)

lemma undo_edit_inv:
  fixes now :: u64
  assumes r: "registry_inv r" and c: "map_of (ir_changes r) k = Some c" "\<not> ic_undone c" "ic_before c = Some b"
    "map_of (ir_intents r) (si_id (ic_after c)) = Some (ic_after c)" "si_revision (ic_after c) \<noteq> - 1"
  defines "x \<equiv> b\<lparr>si_revision := si_revision (ic_after c) + 1, si_updated_at_ms := max now (si_updated_at_ms (ic_after c))\<rparr>"
  shows "registry_inv (r\<lparr>ir_intents := bt_insert (si_id b) x (ir_intents r), ir_changes := bt_insert k (c\<lparr>ic_undone := True\<rparr>) (ir_changes r)\<rparr>)"
proof (rule registry_inv_undone [OF r c(1)])
  note R = r [unfolded registry_inv_def]
  have i: "\<not> change_invalid (k, c)" "image_step c" using R c(1) by (auto simp: change_in_place_def)
  then have b: "intent_record_valid b" "si_id b = si_id (ic_after c)" "si_agent_id b = si_agent_id (ic_after c)"
    "si_updated_at_ms b \<le> si_updated_at_ms (ic_after c)" "si_fires b = si_fires (ic_after c)"
    using c(3) by (auto simp: change_invalid_def image_step_def)
  have x: "intent_record_valid x" unfolding x_def using restored_valid [OF b(1,4), of now "ic_after c"] c(5) by blast
  show "length (bt_insert (si_id b) x (ir_intents r)) \<le> MAX_INTENTS"
    using R b(2) c(4) bt_length_insert [of "ir_intents r"] by auto
  show "intent_in_place (r\<lparr>ir_intents := bt_insert (si_id b) x (ir_intents r)\<rparr>)"
  proof -
    have "fires_recorded r (ic_after c)" using R c(4) by (simp add: intent_in_place_def)
    then have "fires_recorded r x" using b by (simp add: fires_recorded_def x_def)
    then show ?thesis using R x by (auto simp: intent_in_place_def fires_recorded_def x_def)
  qed
  fix k' c' assume c': "map_of (ir_changes r) k' = Some c'" "\<not> ic_undone c'" "k' \<noteq> k"
  have "at_or_past r (ic_after c')" using R c' by (auto simp: change_in_place_def)
  moreover have "si_revision (ic_after c) < si_revision x" using inc_greater [OF c(5)] by (simp add: x_def)
  ultimately show "at_or_past (r\<lparr>ir_intents := bt_insert (si_id b) x (ir_intents r)\<rparr>) (ic_after c')"
    using c(4) b(2) by (auto simp: at_or_past_def)
qed (use r in \<open>simp add: registry_inv_def\<close>)

lemma undo_inv:
  assumes r: "registry_inv r"
  shows "registry_inv (snd (intents_undo k now r))"
proof (cases "intents_undo k now r")
  case (Pair y r')
  show ?thesis
  proof (cases y)
    case (Inl e)
    then show ?thesis using undo_err [of k now r e] Pair r by simp
  next
    case (Inr x)
    then obtain c where c: "map_of (ir_changes r) k = Some c \<and> \<not> ic_undone c \<and>
      map_of (ir_intents r) (si_id (ic_after c)) = Some (ic_after c)" using undo_ok [of k now r x r'] Pair by blast
    show ?thesis using undo_ok [of k now r x r'] Pair Inr c undo_create_inv [OF r, of k c] undo_edit_inv [OF r, of k c]
      by (cases "ic_before c") auto
  qed
qed

section \<open>Admission\<close>

lemma fire_loop_spec:
  "bt_wf m \<Longrightarrow> distinct (map snd rows) \<Longrightarrow> (\<forall>row \<in> set rows. map_of m (snd row) \<noteq> None) \<Longrightarrow>
     \<exists>m'. fire_loop turn m acc rows = Some (acc @ map (\<lambda>row. \<lparr>im_intent_id = snd row,
         im_instruction = isp_instruction (si_spec (the (map_of m (snd row))))\<rparr>) rows, m') \<and>
       bt_wf m' \<and> length m' = length m \<and>
       (\<forall>i. map_of m' i = (if i \<in> snd ` set rows then map_option (fire_intent turn) (map_of m i) else map_of m i))"
proof (induction rows arbitrary: m acc)
  case (Cons row rows)
  then obtain x where x: "map_of m (snd row) = Some x" by auto
  let ?m = "bt_insert (snd row) (fire_intent turn x) m"
  have n: "snd row \<notin> snd ` set rows" using Cons.prems(2) by simp
  have "\<forall>q \<in> set rows. snd q \<noteq> snd row" using n by (metis image_eqI)
  then have "\<forall>q \<in> set rows. map_of ?m (snd q) = map_of m (snd q)" by simp
  moreover have "length ?m = length m" using Cons.prems(1) x by (simp add: bt_length_insert)
  ultimately show ?case
    using Cons.IH [of ?m "acc @ [\<lparr>im_intent_id = snd row, im_instruction = isp_instruction (si_spec x)\<rparr>]"] Cons.prems x n
    by (auto cong: map_cong)
qed auto

lemma any_exhausted_False:
  "any_exhausted m rows = Some False \<longleftrightarrow> (\<forall>row \<in> set rows. \<exists>x. map_of m (snd row) = Some x \<and> si_revision x \<noteq> - 1)"
  by (induction rows) (auto split: option.splits)

lemma any_exhausted_None: "any_exhausted m rows = None \<Longrightarrow> \<exists>row \<in> set rows. map_of m (snd row) = None"
  by (induction rows) (auto split: option.splits if_splits)

lemma due_rows_set:
  assumes "row \<in> set (due_rows u turn r)"
  obtains i x where "(i, x) \<in> set (ir_intents r)" "intent_due u turn x" "row = (si_created_at_ms x, si_id x)"
  using assms unfolding due_rows_def by (auto dest!: in_set_takeD)

lemma due_rows_distinct:
  assumes r: "registry_inv r"
  shows "distinct (map snd (due_rows u turn r))"
proof -
  have w: "bt_wf (ir_intents r)" and p: "\<And>i x. (i, x) \<in> set (ir_intents r) \<Longrightarrow> i = si_id x"
    using r by (auto simp: registry_inv_def intent_in_place_def bt_mem)
  have ids: "map si_id (map snd (ir_intents r)) = map fst (ir_intents r)" using p by auto
  have "distinct (map si_id (map snd (ir_intents r)))" unfolding ids by (rule bt_wf_distinct [OF w])
  then have "distinct (map si_id (filter (intent_due u turn) (map snd (ir_intents r))))" by (rule distinct_map_filter)
  then have "distinct (map snd (map (\<lambda>x. (si_created_at_ms x, si_id x)) (filter (intent_due u turn) (map snd (ir_intents r)))))"
    by (simp add: comp_def)
  then have "distinct (map snd (sort (map (\<lambda>x. (si_created_at_ms x, si_id x)) (filter (intent_due u turn) (map snd (ir_intents r))))))"
    unfolding distinct_map [of snd] by simp
  then show ?thesis unfolding due_rows_def take_map [symmetric] by (rule distinct_take)
qed

text \<open>What an admission that fires does to the registry.\<close>

definition admitted :: "Unicode \<Rightarrow> OwnerTurn \<Rightarrow> StandingIntentRegistry \<Rightarrow> IntentMatch list \<Rightarrow> StandingIntentRegistry \<Rightarrow> bool" where
  "admitted u turn r matched r' \<longleftrightarrow>
     bounded_id (ot_agent_id turn) \<and> bounded_id (ot_run_id turn) \<and> is_none_or (ot_retry_key turn) bounded_id \<and>
     \<not> already_admitted r turn \<and> due_rows u turn r \<noteq> [] \<and> length (ir_admissions r) < MAX_ADMISSIONS \<and>
     (\<forall>i \<in> snd ` set (due_rows u turn r). \<exists>x. map_of (ir_intents r) i = Some x \<and> intent_due u turn x \<and> si_revision x \<noteq> - 1) \<and>
     matched = map (\<lambda>row. \<lparr>im_intent_id = snd row,
       im_instruction = isp_instruction (si_spec (the (map_of (ir_intents r) (snd row))))\<rparr>) (due_rows u turn r) \<and>
     bt_wf (ir_intents r') \<and> length (ir_intents r') = length (ir_intents r) \<and>
     (\<forall>i. map_of (ir_intents r') i =
       (if i \<in> snd ` set (due_rows u turn r) then map_option (fire_intent turn) (map_of (ir_intents r) i) else map_of (ir_intents r) i)) \<and>
     ir_changes r' = ir_changes r \<and>
     ir_admissions r' = ir_admissions r @ [\<lparr>ia_agent_id = ot_agent_id turn, ia_run_id = ot_run_id turn,
       ia_retry_key = ot_retry_key turn, ia_intent_ids = map snd (due_rows u turn r)\<rparr>]"

lemma due_rows_present:
  assumes r: "registry_inv r" and "i \<in> snd ` set (due_rows u turn r)"
  shows "\<exists>x. map_of (ir_intents r) i = Some x \<and> intent_due u turn x"
proof -
  from assms(2) obtain row where row: "row \<in> set (due_rows u turn r)" "i = snd row" by blast
  from row(1) obtain j x where x: "(j, x) \<in> set (ir_intents r)" "intent_due u turn x" "row = (si_created_at_ms x, si_id x)"
    by (rule due_rows_set)
  then have "map_of (ir_intents r) j = Some x" using r by (simp add: registry_inv_def bt_mem)
  moreover from this have "j = si_id x" using r by (auto simp: registry_inv_def intent_in_place_def)
  ultimately show ?thesis using x row(2) by auto
qed

lemma admit_cases:
  assumes r: "registry_inv r"
  obtains (refused) e where "intents_admit u turn r = (Err (Raised e), r)"
    | (nothing) "intents_admit u turn r = (Ok [], r)"
    | (fires) matched r' where "intents_admit u turn r = (Ok matched, r')" "admitted u turn r matched r'"
proof -
  let ?rows = "due_rows u turn r"
  have w: "bt_wf (ir_intents r)" using r by (simp add: registry_inv_def)
  have p: "\<forall>row \<in> set ?rows. \<exists>x. map_of (ir_intents r) (snd row) = Some x \<and> intent_due u turn x" using due_rows_present [OF r] by blast
  then have q: "\<forall>row \<in> set ?rows. map_of (ir_intents r) (snd row) \<noteq> None" by force
  obtain m where m: "fire_loop turn (ir_intents r) [] ?rows = Some (map (\<lambda>row. \<lparr>im_intent_id = snd row,
         im_instruction = isp_instruction (si_spec (the (map_of (ir_intents r) (snd row))))\<rparr>) ?rows, m)"
     "bt_wf m" "length m = length (ir_intents r)"
     "\<forall>i. map_of m i = (if i \<in> snd ` set ?rows then map_option (fire_intent turn) (map_of (ir_intents r) i) else map_of (ir_intents r) i)"
    using fire_loop_spec [OF w due_rows_distinct [OF r] q, of turn "[]"] by auto
  have x: "any_exhausted (ir_intents r) ?rows \<noteq> None" using any_exhausted_None q by blast
  have e: "\<forall>i \<in> snd ` set ?rows. \<exists>x. map_of (ir_intents r) i = Some x \<and> intent_due u turn x \<and> si_revision x \<noteq> - 1"
    if "any_exhausted (ir_intents r) ?rows = Some False" using that p unfolding any_exhausted_False by force
  let ?bad = "\<not> bounded_id (ot_agent_id turn) \<or> \<not> bounded_id (ot_run_id turn) \<or> \<not> bounded_id (ot_session_id turn)
    \<or> is_some_and (ot_retry_key turn) (\<lambda>k. \<not> bounded_id k)"
  let ?old = "length (ot_text turn) > MAX_TURN_BYTES \<or> already_admitted r turn \<or> ?rows = []"
  let ?full = "length (ir_admissions r) \<ge> MAX_ADMISSIONS \<or> any_exhausted (ir_intents r) ?rows = Some True"
  consider ?bad | "\<not> ?bad" ?old | "\<not> ?bad" "\<not> ?old" ?full
    | "\<not> ?bad" "\<not> ?old" "length (ir_admissions r) < MAX_ADMISSIONS" "any_exhausted (ir_intents r) ?rows = Some False"
    using x by (cases "any_exhausted (ir_intents r) ?rows") fastforce+
  then show thesis
  proof cases
    case 1
    then have "intents_admit u turn r = (Err (Raised IeIdentity), r)" unfolding intents_admit_def by (rule if_P)
    then show ?thesis by (rule refused)
  next
    case 2
    then have "intents_admit u turn r = (Ok [], r)" by (auto simp: intents_admit_def Let_def)
    then show ?thesis by (rule nothing)
  next
    case 3
    then have "\<exists>e. intents_admit u turn r = (Err (Raised e), r)" by (auto simp: intents_admit_def Let_def)
    then show ?thesis using refused by blast
  next
    case 4
    let ?r = "r\<lparr>ir_intents := m, ir_admissions := ir_admissions r @ [\<lparr>ia_agent_id = ot_agent_id turn, ia_run_id = ot_run_id turn,
      ia_retry_key = ot_retry_key turn, ia_intent_ids = map snd ?rows\<rparr>]\<rparr>"
    have "intents_admit u turn r = (Ok (map (\<lambda>row. \<lparr>im_intent_id = snd row,
        im_instruction = isp_instruction (si_spec (the (map_of (ir_intents r) (snd row))))\<rparr>) ?rows), ?r)"
      using 4 m(1) by (simp add: intents_admit_def comp_def Let_def)
    then show ?thesis
      by (rule fires) (unfold admitted_def, use 4 m e in \<open>simp add: is_none_or_def is_some_and_def split: option.splits\<close>)
  qed
qed

text \<open>Firing keeps a record valid.\<close>

lemma fire_valid:
  assumes v: "intent_record_valid x" and d: "intent_due u turn x" and n: "si_revision x \<noteq> - 1"
    and b: "bounded_id (ot_run_id turn)" and new: "ot_run_id turn \<notin> if_run_id ` set (si_fires x)"
  shows "intent_record_valid (fire_intent turn x)"
proof -
  have t: "si_updated_at_ms x \<le> max (ot_now_ms turn) (si_updated_at_ms x)" by simp
  have "\<forall>f \<in> set (si_fires x). if_at_ms f \<le> ot_now_ms turn"
  proof
    fix f assume f: "f \<in> set (si_fires x)"
    then have ne: "si_fires x \<noteq> []" by auto
    have "if_at_ms f \<le> if_at_ms (last (si_fires x))"
    proof -
      have "sorted (map if_at_ms (si_fires x))" using v by (simp add: intent_record_valid_iff)
      then have "sorted (map if_at_ms (butlast (si_fires x)) @ [if_at_ms (last (si_fires x))])"
        using ne by (metis append_butlast_last_id list.simps(8,9) map_append)
      moreover have "f \<in> set (butlast (si_fires x)) \<or> f = last (si_fires x)" using f ne by (metis Un_iff append_butlast_last_id set_ConsD set_append empty_iff empty_set)
      ultimately show ?thesis by (auto simp: sorted_append)
    qed
    also have "\<dots> \<le> saturating_add (if_at_ms (last (si_fires x))) (isp_cooldown_ms (si_spec x))" by (rule saturating_add_ge)
    also have "\<dots> \<le> ot_now_ms turn" using d ne by (simp add: intent_due_def)
    finally show "if_at_ms f \<le> ot_now_ms turn" .
  qed
  moreover have "si_revision x + 1 > 0" using inc_greater [OF n] by (metis word_gt_0 word_not_simps(1))
  moreover have "isp_expires_at_ms (si_spec x) \<le> saturating_add (max (ot_now_ms turn) (si_updated_at_ms x)) MAX_LIFETIME_MS"
    using v saturating_add_mono [OF t] by (auto simp: intent_record_valid_iff intro: order_trans)
  ultimately show ?thesis using v d b new
    by (auto simp: intent_record_valid_iff fire_intent_def intent_due_def sorted_append le_max_iff_disj)
qed

lemma already_admitted_iff:
  "already_admitted r turn \<longleftrightarrow> (\<exists>a \<in> set (ir_admissions r). same_turn a
     \<lparr>ia_agent_id = ot_agent_id turn, ia_run_id = ot_run_id turn, ia_retry_key = ot_retry_key turn, ia_intent_ids = is\<rparr>)"
  by (auto simp: already_admitted_def same_turn_def list_ex_iff)

lemma admitted_admissions:
  assumes r: "registry_inv r" and a: "admitted u turn r matched r'"
  shows "admissions_loop {} {} (ir_admissions r') = Ok ()"
proof -
  let ?rows = "due_rows u turn r"
  let ?a = "\<lparr>ia_agent_id = ot_agent_id turn, ia_run_id = ot_run_id turn, ia_retry_key = ot_retry_key turn, ia_intent_ids = map snd ?rows\<rparr>"
  have "\<forall>i \<in> snd ` set ?rows. bounded_id i"
  proof
    fix i assume "i \<in> snd ` set ?rows"
    then obtain x where "map_of (ir_intents r) i = Some x" using due_rows_present [OF r] by blast
    then have "i = si_id x" "intent_record_valid x" using r by (auto simp: registry_inv_def intent_in_place_def)
    then show "bounded_id i" by (simp add: intent_record_valid_def)
  qed
  moreover have "card (set (map snd ?rows)) = length (map snd ?rows)" using due_rows_distinct [OF r] by (simp only: distinct_card)
  moreover have "length ?rows \<le> 3" by (simp add: due_rows_def)
  ultimately have "\<not> admission_invalid {} {} ?a"
    using a by (auto simp: admission_invalid_def admitted_def list_ex_iff is_some_and_def is_none_or_def split: option.splits)
  moreover have "\<forall>b \<in> set (ir_admissions r). \<not> same_turn b ?a" using a already_admitted_iff unfolding admitted_def by blast
  ultimately show ?thesis
    using a r unfolding admissions_loop_ok registry_inv_def admitted_def by (simp add: sorted_wrt_append)
qed

lemma admitted_inv:
  assumes r: "registry_inv r" and a: "admitted u turn r matched r'"
  shows "registry_inv r'"
proof -
  let ?ids = "snd ` set (due_rows u turn r)"
  note R = r [unfolded registry_inv_def] and A = a [unfolded admitted_def]
  have run: "ot_run_id turn \<notin> if_run_id ` set (si_fires x)" if "map_of (ir_intents r) i = Some x" "intent_due u turn x" for i x
  proof
    assume "ot_run_id turn \<in> if_run_id ` set (si_fires x)"
    moreover have "fires_recorded r x" using R that(1) by (simp add: intent_in_place_def)
    ultimately have "already_admitted r turn"
      using that(2) by (fastforce simp: fires_recorded_def already_admitted_def list_ex_iff intent_due_def)
    then show False using A by simp
  qed
  have fired: "intent_record_valid (fire_intent turn x) \<and> fires_recorded r' (fire_intent turn x) \<and> si_revision x < si_revision (fire_intent turn x)"
    if i: "i \<in> ?ids" "map_of (ir_intents r) i = Some x" for i x
  proof -
    have x: "intent_due u turn x" "si_revision x \<noteq> - 1" "bounded_id (ot_run_id turn)" using A i by auto
    have v: "intent_record_valid x" "fires_recorded r x" using R i by (auto simp: intent_in_place_def)
    then have "fires_recorded r' (fire_intent turn x)"
      using A x(1) by (auto simp: fires_recorded_def fire_intent_def intent_due_def)
    then show ?thesis using fire_valid [OF v(1) x run [OF i(2) x(1)]] inc_greater [OF x(2)] by (simp add: fire_intent_def)
  qed
  have m: "map_of (ir_intents r') i = (if i \<in> ?ids then map_option (fire_intent turn) (map_of (ir_intents r) i) else map_of (ir_intents r) i)" for i
    using A by blast
  have fid: "si_id (fire_intent turn x) = si_id x" for x by (simp add: fire_intent_def)
  have keep: "fires_recorded r' x" if "fires_recorded r x" for x using that A by (auto simp: fires_recorded_def)
  have "intent_in_place r'"
    unfolding intent_in_place_def m using R fired keep fid by (auto simp: intent_in_place_def)
  moreover have "at_or_past r' x" if "at_or_past r x" for x
    using that fired unfolding at_or_past_def m by (fastforce split: if_splits)
  then have "change_in_place r'" using R A unfolding change_in_place_def by metis
  ultimately show ?thesis using R A admitted_admissions [OF r a] by (simp add: registry_inv_def)
qed

lemma admit_inv: "registry_inv r \<Longrightarrow> registry_inv (snd (intents_admit u turn r))"
  by (rule admit_cases [of r u turn]) (auto intro: admitted_inv)

section \<open>Sequences of operations\<close>

inductive intents_step :: "Unicode \<Rightarrow> StandingIntentRegistry \<Rightarrow> StandingIntentRegistry \<Rightarrow> bool" for u where
  step_create: "bounded_id new_id \<Longrightarrow> intents_step u r (snd (intents_create new_id i agent spec now r))"
| step_update: "bounded_id new_id \<Longrightarrow> intents_step u r (snd (intents_update new_id i revision spec now r))"
| step_cancel: "bounded_id new_id \<Longrightarrow> intents_step u r (snd (intents_cancel new_id i revision now r))"
| step_undo: "intents_step u r (snd (intents_undo k now r))"
| step_admit: "intents_step u r (snd (intents_admit u turn r))"

abbreviation intents_steps :: "Unicode \<Rightarrow> StandingIntentRegistry \<Rightarrow> StandingIntentRegistry \<Rightarrow> bool" where
  "intents_steps u \<equiv> (intents_step u)\<^sup>*\<^sup>*"

lemma intents_step_inv: "intents_step u r r' \<Longrightarrow> registry_inv r \<Longrightarrow> registry_inv r'"
  by (induction rule: intents_step.induct) (simp_all add: create_inv update_inv cancel_inv undo_inv admit_inv)

interpretation intents_system: guarded_system "intents_step u" registry_inv Registry_default for u
  by unfold_locales (simp_all add: intents_step_inv registry_inv_default)

end
