(* ===== verification/Intents_Facts.thy ===== *)
theory Intents_Facts
  imports Intents_Inv
begin

text \<open>
  What the standing intentions promise: the registry stays valid, a turn fires once, fires are never
  forgotten, an edit that was superseded stays so, and the owner can always cancel and undo.
\<close>

section \<open>What a step does to one record\<close>

lemma commit_change_Ok:
  "commit_change new_id before after r = (Ok (x, c), r') \<longleftrightarrow>
     intent_record_valid after \<and> x = after \<and> c = \<lparr>ic_id = new_id, ic_before = before, ic_after = after, ic_undone = False\<rparr> \<and>
     (let r1 = if length (ir_changes r) \<ge> MAX_CHANGES then reclaim r else r in
      length (ir_changes r1) < MAX_CHANGES \<and>
      r' = r1\<lparr>ir_intents := bt_insert (si_id after) after (ir_intents r), ir_changes := bt_insert new_id c (ir_changes r1)\<rparr>)"
  by (auto simp: commit_change_def Let_def not_le)

lemma commit_change_intents:
  "map_of (ir_intents (snd (commit_change new_id before after r))) =
     (if is_ok (fst (commit_change new_id before after r)) then (map_of (ir_intents r))(si_id after \<mapsto> after) else map_of (ir_intents r))"
  by (auto simp: commit_change_def Let_def)

text \<open>A record that is past its creation, or has fired, stays and keeps its fires.\<close>

definition established :: "StandingIntent \<Rightarrow> bool" where
  "established x \<longleftrightarrow> si_revision x \<noteq> 1 \<or> si_fires x \<noteq> []"

definition later_image :: "StandingIntent \<Rightarrow> StandingIntent \<Rightarrow> bool" where
  "later_image x y \<longleftrightarrow> (y = x \<or> si_revision x < si_revision y) \<and> (\<exists>more. si_fires y = si_fires x @ more)"

lemma later_image_refl [simp]: "later_image x x"
  by (simp add: later_image_def)

lemma later_image_trans: "later_image x y \<Longrightarrow> later_image y z \<Longrightarrow> later_image x z"
  unfolding later_image_def by force

lemma established_later: "established x \<Longrightarrow> si_revision x > 0 \<Longrightarrow> later_image x y \<Longrightarrow> established y"
  unfolding established_def later_image_def by (auto simp: word_less_nat_alt word_unat_eq_iff)

definition keeps_record :: "StandingIntentRegistry \<Rightarrow> StandingIntentRegistry \<Rightarrow> bool" where
  "keeps_record r r' \<longleftrightarrow> (\<forall>i x. map_of (ir_intents r) i = Some x \<longrightarrow> established x \<longrightarrow>
     (\<exists>y. map_of (ir_intents r') i = Some y \<and> later_image x y))"

lemma keeps_record_refl [simp]: "keeps_record r r"
  by (auto simp: keeps_record_def)

lemma edit_keeps:
  assumes "edit_of r before after"
  shows "keeps_record r (snd (commit_change new_id before after r))"
  using assms by (auto simp: keeps_record_def commit_change_intents edit_of_def later_image_def split: option.splits)

lemma create_keeps: "keeps_record r (snd (intents_create new_id i agent spec now r))"
  by (auto simp: intents_create_def keeps_record_def commit_change_intents)

lemma update_keeps: "registry_inv r \<Longrightarrow> keeps_record r (snd (intents_update new_id i revision spec now r))"
  by (auto simp: intents_update_def editable_Ok split: sum.splits option.splits intro!: edit_keeps edit_next)

lemma cancel_keeps: "registry_inv r \<Longrightarrow> keeps_record r (snd (intents_cancel new_id i revision now r))"
  by (auto simp: intents_cancel_def editable_Ok split: sum.splits option.splits intro!: edit_keeps edit_next)

lemma undo_keeps:
  assumes r: "registry_inv r"
  shows "keeps_record r (snd (intents_undo k now r))"
proof (cases "fst (intents_undo k now r)")
  case (Inr x)
  then have "intents_undo k now r = (Ok x, snd (intents_undo k now r))" by (metis prod.collapse)
  from undo_ok [OF this] obtain c where c: "map_of (ir_changes r) k = Some c" "\<not> ic_undone c"
    "map_of (ir_intents r) (si_id (ic_after c)) = Some (ic_after c)"
    and u: "case ic_before c of
        None \<Rightarrow> x = None \<and> snd (intents_undo k now r) = r\<lparr>ir_intents := filter (\<lambda>(k, x). k \<noteq> si_id (ic_after c)) (ir_intents r),
          ir_changes := bt_insert k (c\<lparr>ic_undone := True\<rparr>) (ir_changes r)\<rparr>
      | Some b \<Rightarrow> si_revision (ic_after c) \<noteq> - 1 \<and>
          x = Some (b\<lparr>si_revision := si_revision (ic_after c) + 1, si_updated_at_ms := max now (si_updated_at_ms (ic_after c))\<rparr>) \<and>
          snd (intents_undo k now r) = r\<lparr>ir_intents := bt_insert (si_id b) (the x) (ir_intents r),
            ir_changes := bt_insert k (c\<lparr>ic_undone := True\<rparr>) (ir_changes r)\<rparr>" by blast
  have i: "\<not> change_invalid (k, c)" "image_step c" using r c(1) by (auto simp: registry_inv_def change_in_place_def)
  show ?thesis
  proof (cases "ic_before c")
    case None
    then have "\<not> established (ic_after c)" using i by (simp add: image_step_def established_def)
    then show ?thesis using u c(3) None by (auto simp: keeps_record_def map_of_removed)
  next
    case (Some b)
    then have "si_id b = si_id (ic_after c)" "si_fires b = si_fires (ic_after c)"
      using i by (auto simp: change_invalid_def image_step_def)
    then show ?thesis using u c(3) Some inc_greater [of "si_revision (ic_after c)"] by (auto simp: keeps_record_def later_image_def)
  qed
qed (simp add: undo_err)

lemma admit_keeps:
  assumes r: "registry_inv r"
  shows "keeps_record r (snd (intents_admit u turn r))"
proof (rule admit_cases [OF r, of u turn])
  fix matched r' assume fires: "intents_admit u turn r = (Ok matched, r')" "admitted u turn r matched r'"
  have m: "map_of (ir_intents r') i =
      (if i \<in> snd ` set (due_rows u turn r) then map_option (fire_intent turn) (map_of (ir_intents r) i) else map_of (ir_intents r) i)" for i
    using fires(2) unfolding admitted_def by blast
  have e: "\<forall>i \<in> snd ` set (due_rows u turn r). \<exists>x. map_of (ir_intents r) i = Some x \<and> si_revision x \<noteq> - 1"
    using fires(2) unfolding admitted_def by blast
  have "later_image x (fire_intent turn x)" if "si_revision x \<noteq> - 1" for x
    using inc_greater [OF that] by (simp add: later_image_def fire_intent_def)
  then show "keeps_record r (snd (intents_admit u turn r))" using e unfolding fires(1) keeps_record_def snd_conv m by fastforce
qed simp_all

lemma step_keeps: "intents_step u r r' \<Longrightarrow> registry_inv r \<Longrightarrow> keeps_record r r'"
  by (induction rule: intents_step.induct) (simp_all add: create_keeps update_keeps cancel_keeps undo_keeps admit_keeps)

lemma steps_keep:
  assumes r: "registry_inv r" and s: "intents_steps u r r'" and x: "map_of (ir_intents r) i = Some x" "established x"
  obtains y where "map_of (ir_intents r') i = Some y" "later_image x y"
proof -
  have p: "si_revision x > 0" using r x by (auto simp: registry_inv_def intent_in_place_def intent_record_valid_def)
  have "\<exists>y. map_of (ir_intents r') i = Some y \<and> later_image x y"
  proof (rule intents_system.along_steps [OF s r, where R = "\<lambda>_ t. \<exists>y. map_of (ir_intents t) i = Some y \<and> later_image x y"])
    show "\<exists>y. map_of (ir_intents r) i = Some y \<and> later_image x y" using x by simp
  next
    fix t t' assume t: "registry_inv t" "intents_step u t t'" "\<exists>y. map_of (ir_intents t) i = Some y \<and> later_image x y"
    then obtain y where y: "map_of (ir_intents t) i = Some y" "later_image x y" by blast
    then have "\<exists>z. map_of (ir_intents t') i = Some z \<and> later_image y z"
      using step_keeps [OF t(2,1)] established_later [OF x(2) p] unfolding keeps_record_def by blast
    then show "\<exists>z. map_of (ir_intents t') i = Some z \<and> later_image x z" using later_image_trans [OF y(2)] by blast
  qed
  then show thesis using that by blast
qed

section \<open>Reclaiming\<close>

lemma reclaim_small:
  assumes r: "registry_inv r"
  shows "length (ir_changes (reclaim r)) \<le> length (ir_intents r)"
proof -
  let ?m = "ir_changes (reclaim r)"
  let ?f = "\<lambda>e. si_id (ic_after (snd e))"
  note R = r [unfolded registry_inv_def]
  have live: "map_of (ir_changes r) k = Some c \<and> \<not> ic_undone c \<and> map_of (ir_intents r) (si_id (ic_after c)) = Some (ic_after c)"
    if "(k, c) \<in> set ?m" for k c using that R by (auto simp: reclaim_def bt_mem)
  have w: "bt_wf ?m" using R by (simp add: reclaim_def bt_wf_filter)
  have "inj_on ?f (set ?m)"
  proof (rule inj_onI)
    fix a b assume a: "a \<in> set ?m" "b \<in> set ?m" "?f a = ?f b"
    obtain k c l d where e: "a = (k, c)" "b = (l, d)" by fastforce
    then have v: "map_of (ir_changes r) k = Some c" "map_of (ir_changes r) l = Some d" "\<not> ic_undone c" "\<not> ic_undone d" "ic_after c = ic_after d"
      using live a by (metis option.inject snd_conv)+
    then have "k = l" using R unfolding open_changes_differ_def by metis
    then show "a = b" using v e by simp
  qed
  then have "card (?f ` set ?m) = length ?m"
    using bt_wf_distinct [OF w] by (simp add: card_image distinct_card distinct_map)
  moreover have "?f ` set ?m \<subseteq> fst ` set (ir_intents r)" using live by (force dest: map_of_SomeD)
  then have "card (?f ` set ?m) \<le> card (fst ` set (ir_intents r))" by (intro card_mono) auto
  ultimately show ?thesis using card_length [of "map fst (ir_intents r)"] by simp
qed

lemma commit_never_full:
  assumes r: "registry_inv r" and v: "intent_record_valid after"
  obtains r' where "commit_change new_id before after r =
      (Ok (after, \<lparr>ic_id = new_id, ic_before = before, ic_after = after, ic_undone = False\<rparr>), r')"
    "map_of (ir_intents r') = (map_of (ir_intents r))(si_id after \<mapsto> after)"
    "map_of (ir_changes r') new_id = Some \<lparr>ic_id = new_id, ic_before = before, ic_after = after, ic_undone = False\<rparr>"
proof -
  let ?c = "\<lparr>ic_id = new_id, ic_before = before, ic_after = after, ic_undone = False\<rparr>"
  let ?r = "if length (ir_changes r) \<ge> MAX_CHANGES then reclaim r else r"
  have "length (ir_changes (reclaim r)) < MAX_CHANGES"
    using reclaim_small [OF r] r by (simp add: registry_inv_def MAX_INTENTS_def MAX_CHANGES_def)
  then have "length (ir_changes ?r) < MAX_CHANGES" by simp
  then have "commit_change new_id before after r = (Ok (after, ?c), ?r\<lparr>ir_intents := bt_insert (si_id after) after (ir_intents ?r),
      ir_changes := bt_insert new_id ?c (ir_changes ?r)\<rparr>)"
    using v unfolding commit_change_def Let_def by simp
  then show thesis by (rule that) simp_all
qed

section \<open>Repeated turns\<close>

lemma step_admissions: "intents_step u r r' \<Longrightarrow> \<exists>more. ir_admissions r' = ir_admissions r @ more"
proof (induction rule: intents_step.induct)
  case (step_admit r turn)
  then show ?case by (auto simp: intents_admit_def Let_def split: option.splits bool.splits)
qed (auto simp: intents_create_def intents_update_def intents_cancel_def intents_undo_def commit_change_def Let_def
    split: sum.splits option.splits)

text \<open>The same turn for the registry: the same agent, and the same run or the same retry key.\<close>

definition repeats :: "OwnerTurn \<Rightarrow> OwnerTurn \<Rightarrow> bool" where
  "repeats turn turn' \<longleftrightarrow> ot_agent_id turn' = ot_agent_id turn \<and>
     (ot_run_id turn' = ot_run_id turn \<or> (ot_retry_key turn' \<noteq> None \<and> ot_retry_key turn' = ot_retry_key turn))"

definition turn_recorded :: "StandingIntentRegistry \<Rightarrow> OwnerTurn \<Rightarrow> bool" where
  "turn_recorded r turn \<longleftrightarrow> (\<exists>a \<in> set (ir_admissions r).
     ia_agent_id a = ot_agent_id turn \<and> ia_run_id a = ot_run_id turn \<and> ia_retry_key a = ot_retry_key turn)"

interpretation intent_admissions: retry_safe "intents_step u" registry_inv
  "\<lambda>r turn r'. registry_inv r \<and> (\<exists>ms. ms \<noteq> [] \<and> intents_admit u turn r = (Ok ms, r'))"
  turn_recorded
  "\<lambda>r turn. \<forall>turn'. repeats turn turn' \<longrightarrow>
     intents_admit u turn' r = (Ok [], r) \<or> intents_admit u turn' r = (Err (Raised IeIdentity), r)" for u
proof unfold_locales
  fix r turn r' assume a: "registry_inv r \<and> (\<exists>ms. ms \<noteq> [] \<and> intents_admit u turn r = (Ok ms, r'))"
  then have "registry_inv r'" using admit_inv [of r u turn] by auto
  moreover obtain ms where "admitted u turn r ms r'" using a by (auto elim: admit_cases [of r u turn])
  then have "turn_recorded r' turn" by (simp add: admitted_def turn_recorded_def)
  ultimately show "registry_inv r' \<and> turn_recorded r' turn" ..
next
  fix r r' turn assume "intents_step u r r'" "turn_recorded r turn"
  then show "turn_recorded r' turn" using step_admissions by (fastforce simp: turn_recorded_def)
next
  fix r turn assume rec: "turn_recorded r turn"
  show "\<forall>turn'. repeats turn turn' \<longrightarrow>
      intents_admit u turn' r = (Ok [], r) \<or> intents_admit u turn' r = (Err (Raised IeIdentity), r)"
  proof (intro allI impI)
    fix turn' assume "repeats turn turn'"
    then have "already_admitted r turn'"
      using rec by (auto simp: repeats_def turn_recorded_def already_admitted_def list_ex_iff)
    then show "intents_admit u turn' r = (Ok [], r) \<or> intents_admit u turn' r = (Err (Raised IeIdentity), r)"
      by (simp add: intents_admit_def)
  qed
qed

section \<open>Properties of standing intentions\<close>

text \<open>
  Every registry that the operations produce from the empty one passes its own check, and admitting a
  turn never panics.
\<close>

theorem intents_reachable_valid:
  assumes "intents_steps u Registry_default r"
  shows "intents_validate r = Ok () \<and> fst (intents_admit u turn r) \<noteq> Err Panicked"
proof -
  have r: "registry_inv r" using assms by (rule intents_system.reachable_good)
  have "fst (intents_admit u turn r) \<noteq> Err Panicked" by (rule admit_cases [OF r, of u turn]) auto
  then show ?thesis using registry_inv_validate [OF r] by simp
qed

text \<open>\<^bold>\<open>C28.\<close> 
  A turn fires its intentions once: after a turn has fired some, a turn of the same agent with the same
  run or the same retry key fires nothing and changes nothing, at any later time.
\<close>

theorem intents_fire_once:
  assumes "intents_steps u Registry_default r" and "intents_admit u turn r = (Ok ms, r')" and "ms \<noteq> []"
    and "intents_steps u r' r''" and "repeats turn turn'"
  shows "intents_admit u turn' r'' = (Ok [], r'') \<or> intents_admit u turn' r'' = (Err (Raised IeIdentity), r'')"
  using intent_admissions.repeated_answers [OF _ assms(4), of r turn] intents_system.reachable_good [OF assms(1)] assms(2,3,5)
  by blast

text \<open>\<^bold>\<open>C29.\<close> 
  The fires of an intention are never forgotten: once it has fired, no operation, undoing edits
  included, removes the intention or a fire of it, and it never fires more often than it may.
\<close>

theorem fires_never_forgotten:
  assumes "intents_steps u Registry_default r" and "map_of (ir_intents r) i = Some x" and "si_fires x \<noteq> []"
    and "intents_steps u r r'"
  shows "\<exists>y more. map_of (ir_intents r') i = Some y \<and> si_fires y = si_fires x @ more \<and>
    length (si_fires y) \<le> unat (isp_max_fires (si_spec y))"
proof -
  have r: "registry_inv r" using assms(1) by (rule intents_system.reachable_good)
  obtain y where y: "map_of (ir_intents r') i = Some y" "later_image x y"
    using steps_keep [OF r assms(4,2)] assms(3) by (auto simp: established_def)
  have "registry_inv r'" using intents_system.steps_good [OF assms(4) r] .
  then have "intent_record_valid y" using y(1) by (auto simp: registry_inv_def intent_in_place_def)
  then show ?thesis using y by (auto simp: later_image_def intent_record_valid_def)
qed

text \<open>\<^bold>\<open>C30.\<close> 
  An edit that was superseded can never be undone again: its image does not become current again,
  whatever happens later. So dropping such changes to make room takes nothing from the owner.
\<close>

theorem superseded_stays_superseded:
  assumes "intents_steps u Registry_default r" and "map_of (ir_changes r) k = Some c" and "\<not> ic_undone c"
    and "map_of (ir_intents r) (si_id (ic_after c)) \<noteq> Some (ic_after c)" and "intents_steps u r r'"
  shows "map_of (ir_intents r') (si_id (ic_after c)) \<noteq> Some (ic_after c)"
proof -
  have r: "registry_inv r" using assms(1) by (rule intents_system.reachable_good)
  then have c: "at_or_past r (ic_after c)" "si_revision (ic_after c) > 0"
    using assms(2,3) by (auto simp: registry_inv_def change_in_place_def change_invalid_def intent_record_valid_def)
  then obtain x where x: "map_of (ir_intents r) (si_id (ic_after c)) = Some x" "si_revision (ic_after c) < si_revision x"
    using assms(4) by (auto simp: at_or_past_def order_less_le)
  then have "established x" using c(2) by (auto simp: established_def word_less_nat_alt)
  then obtain y where "map_of (ir_intents r') (si_id (ic_after c)) = Some y" "later_image x y"
    using steps_keep [OF r assms(5) x(1)] by blast
  then show ?thesis using x(2) by (auto simp: later_image_def)
qed

text \<open>\<^bold>\<open>C31.\<close> 
  The owner can always cancel: a cancellation of the current revision of an intention is never refused
  for want of room, and undoing it restores every field but the revision and the time of the change.
\<close>

theorem cancel_and_undo:
  assumes "intents_steps u Registry_default r" and "map_of (ir_intents r) i = Some x" and "\<not> si_cancelled x"
    and "unat (si_revision x) + 2 < 2 ^ 64"
  shows "\<exists>y c r' r''. intents_cancel new_id i (si_revision x) now r = (Ok (y, c), r') \<and>
    map_of (ir_intents r') = (map_of (ir_intents r))(i \<mapsto> y) \<and> si_cancelled y \<and>
    intents_undo new_id later r' =
      (Ok (Some (x\<lparr>si_revision := si_revision x + 2, si_updated_at_ms := max later (si_updated_at_ms y)\<rparr>)), r'') \<and>
    map_of (ir_intents r'') = (map_of (ir_intents r))
      (i \<mapsto> x\<lparr>si_revision := si_revision x + 2, si_updated_at_ms := max later (si_updated_at_ms y)\<rparr>)"
proof -
  have r: "registry_inv r" using assms(1) by (rule intents_system.reachable_good)
  then have x: "intent_record_valid x" "i = si_id x" using assms(2) by (auto simp: registry_inv_def intent_in_place_def)
  define y where "y = x\<lparr>si_cancelled := True, si_revision := si_revision x + 1, si_updated_at_ms := max now (si_updated_at_ms x)\<rparr>"
  have "unat (si_revision x + 1) = unat (si_revision x) + 1" using assms(4) unat_add_in_range [of "si_revision x" 1] by simp
  moreover from this have "unat (si_revision x + 1 + 1) = unat (si_revision x + 1) + 1"
    using assms(4) unat_add_in_range [of "si_revision x + 1" 1] by simp
  ultimately have n: "si_revision x \<noteq> - 1" "si_revision x + 1 \<noteq> - 1" unfolding inc_exact by simp_all
  have "intent_record_valid y"
    using restored_valid [OF x(1) order_refl, of now x] n(1) by (simp add: y_def intent_record_valid_def)
  then obtain r' where r': "commit_change new_id (Some x) y r =
      (Ok (y, \<lparr>ic_id = new_id, ic_before = Some x, ic_after = y, ic_undone = False\<rparr>), r')"
    "map_of (ir_intents r') = (map_of (ir_intents r))(si_id y \<mapsto> y)"
    "map_of (ir_changes r') new_id = Some \<lparr>ic_id = new_id, ic_before = Some x, ic_after = y, ic_undone = False\<rparr>"
    using commit_never_full [OF r] by blast
  have "editable r i (si_revision x) = Ok x" using assms(2,3) by (simp add: editable_Ok)
  moreover have "checked_add (si_revision x) 1 = Some (si_revision x + 1)" using n(1) by (simp add: checked_inc)
  ultimately have c: "intents_cancel new_id i (si_revision x) now r = commit_change new_id (Some x) y r"
    by (simp add: intents_cancel_def y_def)
  have i: "si_id y = i" "si_revision y = si_revision x + 1" "si_cancelled y" using x(2) by (simp_all add: y_def)
  have "checked_add (si_revision y) 1 = Some (si_revision x + 2)" using n(2) i(2) by (simp add: checked_inc)
  then show ?thesis using c r' i x(2) by (simp add: intents_undo_def Let_def)
qed

section \<open>Keywords\<close>

text \<open>The bytes of the phrase stand in the text at a position.\<close>

definition occurs_at :: "string \<Rightarrow> string \<Rightarrow> nat \<Rightarrow> bool" where
  "occurs_at p t i \<longleftrightarrow> i + length p \<le> length t \<and> take (length p) (drop i t) = p"

lemma occurs_at_shift: "occurs_at p (c # t) (Suc i) \<longleftrightarrow> occurs_at p t i"
  by (simp add: occurs_at_def)

lemma occurs_at_drop: "n \<le> length t \<Longrightarrow> occurs_at p (drop n t) i \<longleftrightarrow> occurs_at p t (n + i)"
  by (auto simp: occurs_at_def add.commute)

lemma match_loop_sound:
  "x \<in> set (match_loop p at t) \<Longrightarrow> \<exists>i. x = at + i \<and> occurs_at p t i"
proof (induction p at t arbitrary: x rule: match_loop.induct)
  case (2 p at c t)
  show ?case
  proof (cases "take (length p) (c # t) = p \<and> p \<noteq> []")
    case True
    then have l: "length p \<le> length (c # t)" by (metis length_take min.cobounded1)
    consider "x = at" | "x \<in> set (match_loop p (at + length p) (drop (length p) (c # t)))" using 2(3) True by auto
    then show ?thesis
    proof cases
      case 1
      then show ?thesis using True l by (intro exI [of _ 0]) (simp add: occurs_at_def)
    next
      case 2
      from "2.IH"(1) [OF True 2] obtain i where "x = at + length p + i" "occurs_at p (drop (length p) (c # t)) i" by blast
      then show ?thesis using occurs_at_drop [OF l] by (metis add.assoc)
    qed
  next
    case False
    then show ?thesis using 2(2) [OF False, of x] 2(3) occurs_at_shift by (metis add_Suc_shift match_loop.simps(2))
  qed
qed simp

lemma match_loop_complete:
  assumes "p \<noteq> []"
  shows "occurs_at p t i \<Longrightarrow> (\<And>j. occurs_at p t j \<Longrightarrow> j < i \<Longrightarrow> j + length p \<le> i) \<Longrightarrow> at + i \<in> set (match_loop p at t)"
  using assms
proof (induction p at t arbitrary: i rule: match_loop.induct)
  case (1 p at)
  then show ?case by (simp add: occurs_at_def)
next
  case (2 p at c t)
  note occ = "2.prems"(1) and apart = "2.prems"(2) and p = "2.prems"(3)
  show ?case
  proof (cases "take (length p) (c # t) = p \<and> p \<noteq> []")
    case True
    then have l: "length p \<le> length (c # t)" by (metis length_take min.cobounded1)
    have zero: "occurs_at p (c # t) 0" using True l by (simp add: occurs_at_def)
    show ?thesis
    proof (cases "i = 0")
      case False
      then have le: "length p \<le> i" using apart [OF zero] by simp
      have "at + length p + (i - length p) \<in> set (match_loop p (at + length p) (drop (length p) (c # t)))"
      proof (rule "2.IH"(1) [OF True _ _ p])
        show "occurs_at p (drop (length p) (c # t)) (i - length p)" using occ le by (simp add: occurs_at_drop [OF l])
        show "j + length p \<le> i - length p" if "occurs_at p (drop (length p) (c # t)) j" "j < i - length p" for j
          using apart [of "length p + j"] that le occurs_at_drop [OF l, of p j] by linarith
      qed
      then show ?thesis using True le by simp
    qed (use True in simp)
  next
    case False
    then have "i \<noteq> 0" using occ p by (metis drop0 occurs_at_def)
    then obtain k where k: "i = Suc k" by (cases i) auto
    have "j + length p \<le> k" if "occurs_at p t j" "j < k" for j
      using apart [of "Suc j"] that k by (simp add: occurs_at_shift)
    moreover have "occurs_at p t k" using occ k by (simp add: occurs_at_shift)
    ultimately have "Suc at + k \<in> set (match_loop p (Suc at) t)" by (intro "2.IH"(2) [OF False _ _ p])
    then show ?thesis using False k by auto
  qed
qed

text \<open>The phrase stands in the text between word boundaries.\<close>

definition stands_at :: "Unicode \<Rightarrow> string \<Rightarrow> string \<Rightarrow> nat \<Rightarrow> bool" where
  "stands_at u p t i \<longleftrightarrow> occurs_at p t i \<and>
     (\<forall>c. last_char (take i t) = Some c \<longrightarrow> \<not> is_alphanumeric u c) \<and>
     (\<forall>c. first_char (drop (i + length p) t) = Some c \<longrightarrow> \<not> is_alphanumeric u c)"

text \<open>\<^bold>\<open>C36.\<close> 
  A keyword matches only where its phrase, with spaces and case normalised, stands in the text between
  word boundaries; and it does match whenever the phrase stands so and no earlier occurrence of its
  letters overlaps that place.
\<close>

theorem keyword_match_spec:
  assumes "p = normalize u phrase" and "t = normalize u text" and "p \<noteq> []"
  shows "(phrase_matches u text phrase \<longrightarrow> (\<exists>i. stands_at u p t i)) \<and>
    (\<forall>i. stands_at u p t i \<and> (\<forall>j < i. occurs_at p t j \<longrightarrow> j + length p \<le> i) \<longrightarrow> phrase_matches u text phrase)"
proof (intro conjI allI impI)
  have bounded: "word_bounded u t p i \<longleftrightarrow> stands_at u p t i" if "occurs_at p t i" for i
    using that by (cases "last_char (take i t)"; cases "first_char (drop (i + length p) t)")
      (simp_all add: word_bounded_def stands_at_def)
  have matches: "phrase_matches u text phrase \<longleftrightarrow> (\<exists>i \<in> set (match_loop p 0 t). word_bounded u t p i)"
    using assms by (simp add: phrase_matches_def Let_def match_indices_def list_ex_iff)
  show "\<exists>i. stands_at u p t i" if "phrase_matches u text phrase"
    using that match_loop_sound [of _ p 0 t] bounded unfolding matches by fastforce
  show "phrase_matches u text phrase"
    if "stands_at u p t i \<and> (\<forall>j < i. occurs_at p t j \<longrightarrow> j + length p \<le> i)" for i
  proof -
    have "occurs_at p t i" using that by (simp add: stands_at_def)
    then have "0 + i \<in> set (match_loop p 0 t)" using that by (intro match_loop_complete [OF assms(3)]) auto
    then show ?thesis using bounded [OF \<open>occurs_at p t i\<close>] that unfolding matches by auto
  qed
qed

section \<open>An example\<close>

definition ascii_lower :: "char \<Rightarrow> char" where
  "ascii_lower c = (if 65 \<le> code c \<and> code c \<le> 90 then char_of (code c + 32) else c)"

definition example_unicode :: Unicode where
  "example_unicode = \<lparr>to_lowercase = map ascii_lower, is_alphanumeric = list_all is_ascii_alphanumeric\<rparr>"

text \<open>
  The condition on overlaps is needed: matches are searched without overlap, from the left, so a phrase
  that stands between word boundaries can be missed when an occurrence inside a word overlaps it.
\<close>

theorem keyword_overlap_missed:
  assumes "to_lowercase u ''piano no no'' = ''piano no no''" and "to_lowercase u ''no no'' = ''no no''"
    and "is_alphanumeric u ''a''" and "\<not> is_alphanumeric u '' ''"
  shows "\<not> phrase_matches u ''piano no no'' ''no no'' \<and>
    take 5 (drop 6 ''piano no no'') = ''no no'' \<and> word_bounded u ''piano no no'' ''no no'' 6"
proof -
  have "join_words (split_loop [] ''piano no no'') = ''piano no no''" "join_words (split_loop [] ''no no'') = ''no no''"
    "match_indices ''no no'' ''piano no no'' = [3]" "last_char (take 3 ''piano no no'') = Some ''a''"
    "last_char (take 6 ''piano no no'') = Some '' ''" "first_char (drop 11 ''piano no no'') = None"
    by code_simp+
  then show ?thesis using assms unfolding phrase_matches_def normalize_def word_bounded_def Let_def by simp
qed

theorem keyword_overlap_missed_witness:
  "\<not> phrase_matches example_unicode ''piano no no'' ''no no''"
proof -
  have "to_lowercase example_unicode ''piano no no'' = ''piano no no''" "to_lowercase example_unicode ''no no'' = ''no no''"
    "is_alphanumeric example_unicode ''a''" "\<not> is_alphanumeric example_unicode '' ''"
    by code_simp+
  then show ?thesis using keyword_overlap_missed by blast
qed

theorem keyword_match_spec_witness:
  "phrase_matches example_unicode ''Piano  NO'' ''no'' \<and> \<not> phrase_matches example_unicode ''Piano'' ''no''"
proof
  have n: "normalize example_unicode ''Piano  NO'' = ''piano no''" "normalize example_unicode ''no'' = ''no''"
    "normalize example_unicode ''Piano'' = ''piano''" by code_simp+
  have "stands_at example_unicode ''no'' ''piano no'' 6"
  proof -
    have "occurs_at ''no'' ''piano no'' 6" "last_char (take 6 ''piano no'') = Some '' ''" "first_char (drop 8 ''piano no'') = None"
      "\<not> is_alphanumeric example_unicode '' ''" by code_simp+
    then show ?thesis by (simp add: stands_at_def)
  qed
  moreover have "\<forall>j < 6. occurs_at ''no'' ''piano no'' j \<longrightarrow> j + length ''no'' \<le> 6"
  proof -
    have "\<not> occurs_at ''no'' ''piano no'' 5" by code_simp
    then show ?thesis by (auto simp: less_Suc_eq numeral_eq_Suc)
  qed
  ultimately show "phrase_matches example_unicode ''Piano  NO'' ''no''"
    using keyword_match_spec [OF n(2) [symmetric] n(1) [symmetric]] by blast
  have "\<not> stands_at example_unicode ''no'' ''piano'' i" for i
  proof
    assume s: "stands_at example_unicode ''no'' ''piano'' i"
    have "i = 0 \<or> i = 1 \<or> i = 2 \<or> i = 3" using s by (auto simp: stands_at_def occurs_at_def)
    moreover have "\<not> occurs_at ''no'' ''piano'' 0" "\<not> occurs_at ''no'' ''piano'' 1" "\<not> occurs_at ''no'' ''piano'' 2"
      "last_char (take 3 ''piano'') = Some ''a''" "is_alphanumeric example_unicode ''a''" by code_simp+
    ultimately show False using s by (auto simp: stands_at_def)
  qed
  then show "\<not> phrase_matches example_unicode ''Piano'' ''no''"
    using keyword_match_spec [OF n(2) [symmetric] n(3) [symmetric]] by blast
qed
definition example_spec :: IntentSpec where
  "example_spec = \<lparr>isp_scope = \<lparr>is_session_id = None, is_sender = ScopeOwner\<rparr>, isp_condition = OnEvent ConversationMessage,
     isp_instruction = ''do'', isp_expires_at_ms = 1000, isp_cooldown_ms = 5, isp_max_fires = 2\<rparr>"

definition example_intent :: StandingIntent where
  "example_intent = \<lparr>si_id = ''i'', si_agent_id = ''a'', si_spec = example_spec, si_revision = 1, si_created_at_ms = 10,
     si_updated_at_ms = 10, si_cancelled = False, si_fires = []\<rparr>"

definition example_change :: IntentChange where
  "example_change = \<lparr>ic_id = ''c'', ic_before = None, ic_after = example_intent, ic_undone = False\<rparr>"

definition example_registry :: StandingIntentRegistry where
  "example_registry = \<lparr>ir_intents = [(''i'', example_intent)], ir_changes = [(''c'', example_change)], ir_admissions = []\<rparr>"

definition example_turn :: OwnerTurn where
  "example_turn = \<lparr>ot_agent_id = ''a'', ot_session_id = ''s'', ot_sender = SenderLocal, ot_run_id = ''r'', ot_retry_key = None,
     ot_text = ''hi'', ot_conversation_started = False, ot_now_ms = 20\<rparr>"

definition example_fired :: StandingIntentRegistry where
  "example_fired = \<lparr>ir_intents = [(''i'', fire_intent example_turn example_intent)], ir_changes = [(''c'', example_change)],
     ir_admissions = [\<lparr>ia_agent_id = ''a'', ia_run_id = ''r'', ia_retry_key = None, ia_intent_ids = [''i'']\<rparr>]\<rparr>"

lemma example_ids: "bounded_id ''a''" "bounded_id ''i''" "bounded_id ''c''" "bounded_id ''s''" "bounded_id ''r''" "\<not> blank ''do''"
  by code_simp+

lemma example_created: "intents_create ''c'' ''i'' ''a'' example_spec 10 Registry_default = (Ok (example_intent, example_change), example_registry)"
proof -
  have "spec_valid example_spec"
    using example_ids by (simp add: spec_valid_def example_spec_def MAX_INSTRUCTION_BYTES_def MAX_FIRES_def MAX_LIFETIME_MS_def)
  moreover have "saturating_add (10 :: u64) MAX_LIFETIME_MS = 31622400010" by (simp add: saturating_add_def MAX_LIFETIME_MS_def)
  moreover have "intent_record_valid example_intent"
    using calculation example_ids by (simp add: intent_record_valid_def example_intent_def example_spec_def)
  moreover have "isp_expires_at_ms example_spec = 1000" "si_id example_intent = ''i''" by (simp_all add: example_spec_def example_intent_def)
  ultimately show ?thesis
    using example_ids unfolding intents_create_def Registry_default_def commit_change_def
    by (simp add: MAX_INTENTS_def MAX_CHANGES_def example_registry_def example_change_def example_intent_def [symmetric] Let_def)
qed

lemma example_admitted: "intents_admit example_unicode example_turn example_registry =
    (Ok [\<lparr>im_intent_id = ''i'', im_instruction = ''do''\<rparr>], example_fired)"
proof -
  have "intent_due example_unicode example_turn example_intent"
    by (simp add: intent_due_def example_turn_def example_intent_def example_spec_def sender_in_scope_def condition_holds_def)
  then have "due_rows example_unicode example_turn example_registry = [(10, ''i'')]"
    by (simp add: due_rows_def example_registry_def example_intent_def)
  then show ?thesis
    using example_ids unfolding intents_admit_def
    by (simp add: example_turn_def MAX_TURN_BYTES_def already_admitted_def example_registry_def MAX_ADMISSIONS_def example_intent_def
        example_spec_def example_fired_def)
qed

lemma example_steps: "intents_steps example_unicode Registry_default example_registry" "intents_steps example_unicode Registry_default example_fired"
proof -
  have "intents_step example_unicode Registry_default example_registry"
    using step_create [OF example_ids(3), of example_unicode Registry_default "''i''" "''a''" example_spec 10] example_created by simp
  moreover have "intents_step example_unicode example_registry example_fired"
    using step_admit [of example_unicode example_registry example_turn] example_admitted by simp
  ultimately show "intents_steps example_unicode Registry_default example_registry" "intents_steps example_unicode Registry_default example_fired"
    by auto
qed

theorem intents_reachable_valid_witness: "intents_validate example_fired = Ok ()"
  using intents_reachable_valid [OF example_steps(2)] by simp

theorem intents_fire_once_witness:
  "intents_admit example_unicode (example_turn\<lparr>ot_now_ms := 500\<rparr>) example_fired = (Ok [], example_fired) \<or>
   intents_admit example_unicode (example_turn\<lparr>ot_now_ms := 500\<rparr>) example_fired = (Err (Raised IeIdentity), example_fired)"
  by (rule intents_fire_once [OF example_steps(1) example_admitted]) (simp_all add: repeats_def)

theorem fires_never_forgotten_witness:
  "\<exists>y more. map_of (ir_intents (snd (intents_cancel ''d'' ''i'' 2 30 example_fired))) ''i'' = Some y \<and>
     si_fires y = [\<lparr>if_run_id = ''r'', if_at_ms = 20\<rparr>] @ more \<and> length (si_fires y) \<le> unat (isp_max_fires (si_spec y))"
proof -
  have "bounded_id ''d''" by code_simp
  then have "intents_steps example_unicode example_fired (snd (intents_cancel ''d'' ''i'' 2 30 example_fired))"
    by (intro r_into_rtranclp step_cancel)
  note steps = this
  have x: "map_of (ir_intents example_fired) ''i'' = Some (fire_intent example_turn example_intent)"
    "si_fires (fire_intent example_turn example_intent) = [\<lparr>if_run_id = ''r'', if_at_ms = 20\<rparr>]"
    by (simp_all add: example_fired_def fire_intent_def example_turn_def example_intent_def)
  show ?thesis using fires_never_forgotten [OF example_steps(2) x(1) _ steps] unfolding x(2) by blast
qed

theorem superseded_stays_superseded_witness: "map_of (ir_intents example_fired) ''i'' \<noteq> Some example_intent"
proof -
  have "si_revision (fire_intent example_turn example_intent) \<noteq> si_revision example_intent"
    by (simp add: fire_intent_def example_intent_def)
  then have "fire_intent example_turn example_intent \<noteq> example_intent" by auto
  then show ?thesis
    using superseded_stays_superseded [OF example_steps(2), of "''c''" example_change example_fired]
    by (simp add: example_fired_def example_change_def example_intent_def)
qed

theorem cancel_and_undo_witness:
  "\<exists>y c r'. intents_cancel ''d'' ''i'' 1 30 example_registry = (Ok (y, c), r') \<and> si_cancelled y"
  using cancel_and_undo [OF example_steps(1), of "''i''" example_intent "''d''" 30 40]
  by (auto simp: example_registry_def example_intent_def)

end
