(* ===== verification/Limits.thy ===== *)
theory Limits
  imports Budget Text
begin

text \<open>
  The shared accounting of a run and its helpers, \<open>anima-core/src/execution_limits.rs\<close>: a scope with
  limits, reservations before every model attempt and tool call, their settlements, and what is
  charged for them. The in-memory store of scopes is that of \<open>execution_limits/context.rs\<close>; the
  waiting, cancelling and streaming around it is left out.

  \<open>LeUnwrap\<close> stands for the panic of an \<open>unwrap\<close>; the checks before it exclude it.
\<close>

section \<open>Data\<close>

definition MAX_EXECUTION_RESERVATIONS :: nat where "MAX_EXECUTION_RESERVATIONS = 8192"

record ExecutionLimits =
  el_budget :: Budget
  el_max_model_attempts :: u64
  el_max_tool_calls :: u64
  el_max_retries :: u64
  el_max_inflight_operations :: u64

definition ExecutionLimits_default :: ExecutionLimits where
  "ExecutionLimits_default = \<lparr>
     el_budget = Budget_default\<lparr>max_wall_time_ms := Some (30 * 60 * 1000), max_input_tokens := Some 4000000,
       max_output_tokens := Some 262144, max_total_tokens := Some 4262144\<rparr>,
     el_max_model_attempts = 96, el_max_tool_calls = 192, el_max_retries = 24, el_max_inflight_operations = 16\<rparr>"

datatype ExecutionOperation = ModelAttempt | ToolOperation

record TokenUsage =
  tu_prompt_tokens :: u64
  tu_completion_tokens :: u64
  tu_total_tokens :: u64
  tu_cached_prompt_tokens :: u64
  tu_reasoning_tokens :: u64

definition TokenUsage_default :: TokenUsage where
  "TokenUsage_default = \<lparr>tu_prompt_tokens = 0, tu_completion_tokens = 0, tu_total_tokens = 0, tu_cached_prompt_tokens = 0,
     tu_reasoning_tokens = 0\<rparr>"

record ReservationRequest =
  rr_id :: string
  rr_run_id :: string
  rr_logical_call_id :: string
  rr_operation :: ExecutionOperation
  rr_input_tokens :: u64
  rr_output_tokens :: u64

datatype SettlementOutcome =
    KnownUsage TokenUsage
  | UnknownUsage "TokenUsage option"
  | ProvenNeverSent

record ReservationSettlement =
  rs_reservation_id :: string
  rs_outcome :: SettlementOutcome
  rs_physical_retired :: bool
  rs_observed_usage :: "TokenUsage option"

record ExecutionReservation =
  er_request :: ReservationRequest
  er_settlement :: "ReservationSettlement option"
  er_observed_usage :: "TokenUsage option"

datatype ReservationAdmission = NewlyGranted | AlreadyRecorded

record ExecutionConsumption =
  cs_known :: Usage
  cs_charged_input_tokens :: u64
  cs_charged_output_tokens :: u64
  cs_charged_total_tokens :: u64
  cs_model_attempts :: u64
  cs_logical_model_calls :: u64
  cs_tool_calls :: u64
  cs_retries :: u64
  cs_inflight_operations :: u64

record ExecutionScope =
  xs_id :: string
  xs_root_run_id :: string
  xs_limits :: ExecutionLimits
  xs_created_at_ms :: u64
  xs_deadline_at_ms :: u64
  xs_reservations :: "(string \<times> ExecutionReservation) list"
  xs_version :: u64

record ExecutionAllowance =
  ea_deadline_at_ms :: u64
  ea_remaining_input_tokens :: u64
  ea_remaining_output_tokens :: u64
  ea_remaining_total_tokens :: u64

datatype LimitError =
    LeBudget ExecutionErrorCode | LeLimits | LeIdentity | LeTokens | LeTokenOverflow | LeDeadlineMissing | LeDeadlineOverflow
  | LeScope | LeReservationIdentity | LeSettlementIdentity | LeToolUsage | LeToolObserved | LeIdentityUsed | LeDeadline
  | LeVersion | LeUnavailable | LeConflict | LeUsageOverflow | LeOperations | LeAllowance | LeNoScope | LeUnwrap

section \<open>Checks\<close>

definition ExecutionLimits_validate :: "ExecutionLimits \<Rightarrow> (LimitError, unit) result" where
  "ExecutionLimits_validate l =
     try_then (map_err LeBudget (Budget_validate (el_budget l))) (\<lambda>_.
     reject_if
       (el_max_model_attempts l = 0
        \<or> is_none_or (checked_add (el_max_model_attempts l) (el_max_tool_calls l)) (\<lambda>n. n > of_nat MAX_EXECUTION_RESERVATIONS)
        \<or> el_max_retries l > el_max_model_attempts l
        \<or> el_max_inflight_operations l = 0
        \<or> el_max_inflight_operations l > 256
        \<or> list_ex (\<lambda>m. m = None) [max_wall_time_ms (el_budget l), max_input_tokens (el_budget l),
             max_output_tokens (el_budget l), max_total_tokens (el_budget l)]) LeLimits)"

definition limit_id :: "string \<Rightarrow> (LimitError, unit) result" where
  "limit_id i = reject_if (blank i \<or> length i > 256 \<or> any_control i) LeIdentity"

definition ReservationRequest_validate :: "ReservationRequest \<Rightarrow> (LimitError, unit) result" where
  "ReservationRequest_validate q =
     try_then (try_all limit_id [rr_id q, rr_run_id q, rr_logical_call_id q]) (\<lambda>_.
     if (rr_operation q = ToolOperation \<and> (rr_input_tokens q \<noteq> 0 \<or> rr_output_tokens q \<noteq> 0))
        \<or> (rr_operation q = ModelAttempt \<and> (rr_input_tokens q = 0 \<or> rr_output_tokens q = 0)) then Err LeTokens
     else try_then (ok_or (checked_add (rr_input_tokens q) (rr_output_tokens q)) LeTokenOverflow) (\<lambda>_. Ok ()))"

definition reservation_check :: "string \<times> ExecutionReservation \<Rightarrow> (LimitError, unit) result" where
  "reservation_check e =
     (case e of (i, res) \<Rightarrow>
        try_then (ReservationRequest_validate (er_request res)) (\<lambda>_.
        if i \<noteq> rr_id (er_request res) then Err LeReservationIdentity
        else if is_some_and (er_settlement res) (\<lambda>s. rs_reservation_id s \<noteq> i) then Err LeSettlementIdentity
        else if rr_operation (er_request res) = ToolOperation \<and> is_some_and (er_settlement res) (\<lambda>s.
          case rs_outcome s of KnownUsage u \<Rightarrow> u \<noteq> TokenUsage_default | _ \<Rightarrow> False) then Err LeToolUsage
        else reject_if (rr_operation (er_request res) = ToolOperation \<and>
          is_some_and (er_observed_usage res) (\<lambda>u. u \<noteq> TokenUsage_default)) LeToolObserved))"

definition ExecutionScope_validate :: "ExecutionScope \<Rightarrow> (LimitError, unit) result" where
  "ExecutionScope_validate s =
     try_then (limit_id (xs_id s)) (\<lambda>_.
     try_then (limit_id (xs_root_run_id s)) (\<lambda>_.
     try_then (ExecutionLimits_validate (xs_limits s)) (\<lambda>_.
     try_then (ok_or (max_wall_time_ms (el_budget (xs_limits s))) LeUnwrap) (\<lambda>wall.
     try_then (ok_or (checked_add (xs_created_at_ms s) wall) LeDeadlineOverflow) (\<lambda>latest.
     if xs_deadline_at_ms s < xs_created_at_ms s
        \<or> xs_deadline_at_ms s > latest
        \<or> length (xs_reservations s) > MAX_EXECUTION_RESERVATIONS then Err LeScope
     else try_all reservation_check (xs_reservations s))))))"

definition ExecutionScope_new :: "string \<Rightarrow> string \<Rightarrow> ExecutionLimits \<Rightarrow> u64 \<Rightarrow> (LimitError, ExecutionScope) result" where
  "ExecutionScope_new i root limits now =
     try_then (ExecutionLimits_validate limits) (\<lambda>_.
     try_then (ok_or (max_wall_time_ms (el_budget limits)) LeDeadlineMissing) (\<lambda>wall.
     try_then (ok_or (checked_add now wall) LeDeadlineOverflow) (\<lambda>deadline.
     let s = \<lparr>xs_id = i, xs_root_run_id = root, xs_limits = limits, xs_created_at_ms = now, xs_deadline_at_ms = deadline,
       xs_reservations = [], xs_version = 0\<rparr> in
     try_then (ExecutionScope_validate s) (\<lambda>_. Ok s))))"

text \<open>Reading a scope from its wire form, which has the same fields.\<close>

definition ExecutionScope_load :: "ExecutionScope \<Rightarrow> (LimitError, ExecutionScope) result" where
  "ExecutionScope_load wire = try_then (ExecutionScope_validate wire) (\<lambda>_. Ok wire)"

section \<open>What is charged\<close>

definition normalized_tokens :: "TokenUsage \<Rightarrow> (LimitError, u64 \<times> u64 \<times> u64) result" where
  "normalized_tokens u =
     (let input = max (tu_prompt_tokens u) (tu_cached_prompt_tokens u);
          output = max (tu_completion_tokens u) (tu_reasoning_tokens u) in
      try_then (ok_or (checked_add input output) LeUsageOverflow) (\<lambda>n.
      Ok (input, output, max (tu_total_tokens u) n)))"

text \<open>The tokens of one reservation by its outcome, then raised to what was observed.\<close>

definition outcome_tokens :: "ReservationRequest \<Rightarrow> u64 \<Rightarrow> SettlementOutcome option \<Rightarrow> (LimitError, u64 \<times> u64 \<times> u64) result" where
  "outcome_tokens q reserved_total outcome =
     (case outcome of
        Some ProvenNeverSent \<Rightarrow> Ok (0, 0, 0)
      | Some (KnownUsage known) \<Rightarrow> normalized_tokens known
      | Some (UnknownUsage (Some observed)) \<Rightarrow>
          try_then (normalized_tokens observed) (\<lambda>(i, out, tot).
          let input = max i (rr_input_tokens q); output = max out (rr_output_tokens q) in
          try_then (ok_or (checked_add input output) LeUsageOverflow) (\<lambda>n.
          Ok (input, output, max (max tot reserved_total) n)))
      | _ \<Rightarrow> Ok (rr_input_tokens q, rr_output_tokens q, reserved_total))"

definition observed_tokens :: "TokenUsage option \<Rightarrow> u64 \<times> u64 \<times> u64 \<Rightarrow> (LimitError, u64 \<times> u64 \<times> u64) result" where
  "observed_tokens seen t =
     (case seen of
        None \<Rightarrow> Ok t
      | Some observed \<Rightarrow>
          (case t of (i, out, tot) \<Rightarrow>
             try_then (normalized_tokens observed) (\<lambda>(seen_input, seen_output, seen_total).
             let input = max i seen_input; output = max out seen_output in
             try_then (ok_or (checked_add input output) LeUsageOverflow) (\<lambda>n.
             Ok (input, output, max (max tot seen_total) n)))))"

definition add_limit :: "u64 \<Rightarrow> u64 \<Rightarrow> (LimitError, u64) result" where
  "add_limit tot delta = ok_or (checked_add tot delta) LeUsageOverflow"

definition add_known :: "ExecutionReservation \<Rightarrow> Usage \<Rightarrow> (LimitError, Usage) result" where
  "add_known res known =
     (case map_option rs_outcome (er_settlement res) of
        Some (KnownUsage u) \<Rightarrow>
          try_then (normalized_tokens u) (\<lambda>(input, output, tot).
          try_then (add_limit (us_input_tokens known) input) (\<lambda>i.
          try_then (add_limit (us_output_tokens known) output) (\<lambda>out.
          try_then (add_limit (us_total_tokens known) tot) (\<lambda>t.
          Ok (known\<lparr>us_input_tokens := i, us_output_tokens := out, us_total_tokens := t\<rparr>)))))
      | _ \<Rightarrow> Ok known)"

definition Usage_default :: Usage where
  "Usage_default = \<lparr>us_wall_time_ms = 0, us_turns = 0, us_capability_steps = 0, us_input_tokens = 0, us_output_tokens = 0,
     us_total_tokens = 0, us_estimated_cost_micros = 0, us_concurrent_runs = 0, us_artifact_bytes = 0, us_download_bytes = 0\<rparr>"

definition ExecutionConsumption_default :: ExecutionConsumption where
  "ExecutionConsumption_default = \<lparr>cs_known = Usage_default, cs_charged_input_tokens = 0, cs_charged_output_tokens = 0,
     cs_charged_total_tokens = 0, cs_model_attempts = 0, cs_logical_model_calls = 0, cs_tool_calls = 0, cs_retries = 0,
     cs_inflight_operations = 0\<rparr>"

definition count_operation :: "ExecutionReservation \<Rightarrow> ExecutionConsumption \<Rightarrow> ExecutionConsumption" where
  "count_operation res c =
     (let c = (if is_none_or (er_settlement res) (\<lambda>s. \<not> rs_physical_retired s)
        then c\<lparr>cs_inflight_operations := cs_inflight_operations c + 1\<rparr> else c) in
      case rr_operation (er_request res) of
        ModelAttempt \<Rightarrow> c\<lparr>cs_model_attempts := cs_model_attempts c + 1\<rparr>
      | ToolOperation \<Rightarrow> c\<lparr>cs_tool_calls := cs_tool_calls c + 1\<rparr>)"

definition charge_reservation :: "ExecutionReservation \<Rightarrow> ExecutionConsumption \<Rightarrow> (LimitError, ExecutionConsumption) result" where
  "charge_reservation res c =
     (let q = er_request res; c = count_operation res c in
      try_then (ok_or (checked_add (rr_input_tokens q) (rr_output_tokens q)) LeUsageOverflow) (\<lambda>reserved_total.
      try_then (outcome_tokens q reserved_total (map_option rs_outcome (er_settlement res))) (\<lambda>t.
      try_then (add_known res (cs_known c)) (\<lambda>known.
      try_then (observed_tokens (er_observed_usage res) t) (\<lambda>(input, output, tot).
      try_then (add_limit (cs_charged_input_tokens c) input) (\<lambda>i.
      try_then (add_limit (cs_charged_output_tokens c) output) (\<lambda>out.
      try_then (add_limit (cs_charged_total_tokens c) tot) (\<lambda>sum.
      Ok (c\<lparr>cs_known := known, cs_charged_input_tokens := i, cs_charged_output_tokens := out,
        cs_charged_total_tokens := sum\<rparr>)))))))))"

fun charge_loop ::
  "ExecutionConsumption \<Rightarrow> string set \<Rightarrow> ExecutionReservation list \<Rightarrow> (LimitError, ExecutionConsumption \<times> string set) result" where
  "charge_loop c logical [] = Ok (c, logical)"
| "charge_loop c logical (res # rest) =
     try_then (charge_reservation res c) (\<lambda>c'.
     charge_loop c'
       (if rr_operation (er_request res) = ModelAttempt then insert (rr_logical_call_id (er_request res)) logical else logical) rest)"

definition consumption :: "ExecutionScope \<Rightarrow> (LimitError, ExecutionConsumption) result" where
  "consumption s =
     try_then (ExecutionScope_validate s) (\<lambda>_.
     try_then (charge_loop ExecutionConsumption_default {} (map snd (xs_reservations s))) (\<lambda>(c, logical).
     let calls = of_nat (card logical) in
     Ok (c\<lparr>cs_logical_model_calls := calls, cs_retries := cs_model_attempts c - calls\<rparr>)))"

definition check_allowance :: "ExecutionScope \<Rightarrow> u64 \<Rightarrow> (LimitError, unit) result" where
  "check_allowance s now =
     try_then (consumption s) (\<lambda>c.
     if cs_model_attempts c > el_max_model_attempts (xs_limits s)
        \<or> cs_tool_calls c > el_max_tool_calls (xs_limits s)
        \<or> cs_retries c > el_max_retries (xs_limits s)
        \<or> cs_inflight_operations c > el_max_inflight_operations (xs_limits s) then Err LeOperations
     else
       let charged = Usage_default\<lparr>us_wall_time_ms := saturating_sub now (xs_created_at_ms s), us_turns := cs_logical_model_calls c,
         us_capability_steps := cs_tool_calls c, us_input_tokens := cs_charged_input_tokens c,
         us_output_tokens := cs_charged_output_tokens c, us_total_tokens := cs_charged_total_tokens c,
         us_concurrent_runs := cs_inflight_operations c\<rparr> in
       try_then (map_err LeBudget (Budget_evaluate (el_budget (xs_limits s)) charged)) (\<lambda>d.
       reject_if (d \<noteq> BudgetContinue) LeAllowance))"

definition remaining :: "(Budget \<Rightarrow> u64 option) \<Rightarrow> ExecutionScope \<Rightarrow> u64 \<Rightarrow> (LimitError, u64) result" where
  "remaining limit s used =
     try_then (ok_or (limit (el_budget (xs_limits s))) LeUnwrap) (\<lambda>m. Ok (saturating_sub m used))"

definition allowance :: "ExecutionScope \<Rightarrow> u64 \<Rightarrow> (LimitError, ExecutionAllowance) result" where
  "allowance s now =
     (if now < xs_created_at_ms s \<or> now \<ge> xs_deadline_at_ms s then Err LeDeadline
      else try_then (check_allowance s now) (\<lambda>_.
      try_then (consumption s) (\<lambda>c.
      try_then (remaining max_input_tokens s (cs_charged_input_tokens c)) (\<lambda>i.
      try_then (remaining max_output_tokens s (cs_charged_output_tokens c)) (\<lambda>out.
      try_then (remaining max_total_tokens s (cs_charged_total_tokens c)) (\<lambda>t.
      Ok \<lparr>ea_deadline_at_ms = xs_deadline_at_ms s, ea_remaining_input_tokens = i, ea_remaining_output_tokens = out,
        ea_remaining_total_tokens = t\<rparr>))))))"

section \<open>Reservations and settlements\<close>

text \<open>An operation that returns an error leaves the scope as it was: both work on a copy.\<close>

definition scope_reserve ::
  "ExecutionScope \<Rightarrow> ReservationRequest \<Rightarrow> u64 \<Rightarrow> (LimitError, ReservationAdmission \<times> ExecutionScope) result" where
  "scope_reserve s q now =
     try_then (ExecutionScope_validate s) (\<lambda>_.
     try_then (ReservationRequest_validate q) (\<lambda>_.
     case map_of (xs_reservations s) (rr_id q) of
       Some existing \<Rightarrow> if er_request existing = q then Ok (AlreadyRecorded, s) else Err LeIdentityUsed
     | None \<Rightarrow>
         if now < xs_created_at_ms s \<or> now \<ge> xs_deadline_at_ms s then Err LeDeadline
         else try_then (ok_or (checked_add (xs_version s) 1) LeVersion) (\<lambda>version.
           let s' = s\<lparr>xs_version := version, xs_reservations := bt_insert (rr_id q)
             \<lparr>er_request = q, er_settlement = None, er_observed_usage = None\<rparr> (xs_reservations s)\<rparr> in
           try_then (check_allowance s' now) (\<lambda>_. Ok (NewlyGranted, s')))))"

definition max_usage :: "TokenUsage \<Rightarrow> TokenUsage \<Rightarrow> TokenUsage" where
  "max_usage a b = \<lparr>tu_prompt_tokens = max (tu_prompt_tokens a) (tu_prompt_tokens b),
     tu_completion_tokens = max (tu_completion_tokens a) (tu_completion_tokens b),
     tu_total_tokens = max (tu_total_tokens a) (tu_total_tokens b),
     tu_cached_prompt_tokens = max (tu_cached_prompt_tokens a) (tu_cached_prompt_tokens b),
     tu_reasoning_tokens = max (tu_reasoning_tokens a) (tu_reasoning_tokens b)\<rparr>"

fun merge_observed :: "TokenUsage option \<Rightarrow> TokenUsage option \<Rightarrow> TokenUsage option" where
  "merge_observed None b = b"
| "merge_observed a None = a"
| "merge_observed (Some a) (Some b) = Some (max_usage a b)"

definition outcome_usage :: "SettlementOutcome \<Rightarrow> TokenUsage option" where
  "outcome_usage outcome =
     (case outcome of KnownUsage u \<Rightarrow> Some u | UnknownUsage u \<Rightarrow> u | ProvenNeverSent \<Rightarrow> None)"

text \<open>The outcome that stays when a settled reservation is settled again; \<open>None\<close> is a conflict.\<close>

fun settled_outcome :: "SettlementOutcome \<Rightarrow> SettlementOutcome \<Rightarrow> SettlementOutcome option" where
  "settled_outcome (UnknownUsage a) (UnknownUsage b) = Some (UnknownUsage (merge_observed a b))"
| "settled_outcome (UnknownUsage a) (KnownUsage b) = Some (KnownUsage b)"
| "settled_outcome (KnownUsage a) (KnownUsage b) = (if a = b then Some (KnownUsage b) else None)"
| "settled_outcome (KnownUsage a) (UnknownUsage b) = Some (KnownUsage a)"
| "settled_outcome ProvenNeverSent ProvenNeverSent = Some ProvenNeverSent"
| "settled_outcome ProvenNeverSent (UnknownUsage None) = Some ProvenNeverSent"
| "settled_outcome _ _ = None"

definition scope_settle :: "ExecutionScope \<Rightarrow> ReservationSettlement \<Rightarrow> (LimitError, ExecutionScope) result" where
  "scope_settle s settlement =
     try_then (ExecutionScope_validate s) (\<lambda>_.
     try_then (ok_or (map_of (xs_reservations s) (rs_reservation_id settlement)) LeUnavailable) (\<lambda>existing.
     let observed = merge_observed (rs_observed_usage settlement) (outcome_usage (rs_outcome settlement));
         observed_usage = merge_observed (er_observed_usage existing) observed;
         settlement = settlement\<lparr>rs_observed_usage := observed_usage\<rparr> in
     try_then
       (case er_settlement existing of
          None \<Rightarrow> Ok (settlement, False)
        | Some previous \<Rightarrow>
            try_then (ok_or (settled_outcome (rs_outcome previous) (rs_outcome settlement)) LeConflict) (\<lambda>outcome.
            let settlement = settlement\<lparr>rs_physical_retired := (rs_physical_retired settlement \<or> rs_physical_retired previous),
              rs_outcome := outcome\<rparr> in
            Ok (settlement, previous = settlement \<and> er_observed_usage existing = observed_usage))) (\<lambda>(settlement, unchanged).
     if unchanged then Ok s
     else try_then (ok_or (checked_add (xs_version s) 1) LeVersion) (\<lambda>version.
       let s' = s\<lparr>xs_version := version, xs_reservations := bt_insert (rs_reservation_id settlement)
         (existing\<lparr>er_settlement := Some settlement, er_observed_usage := observed_usage\<rparr>) (xs_reservations s)\<rparr> in
       try_then (ExecutionScope_validate s') (\<lambda>_. Ok s')))))"

section \<open>The in-memory store of scopes\<close>

type_synonym budget_scopes = "(string \<times> ExecutionScope) list"

definition InMemoryExecutionBudget_new :: "ExecutionScope \<Rightarrow> (LimitError, budget_scopes) result" where
  "InMemoryExecutionBudget_new s = try_then (ExecutionScope_validate s) (\<lambda>_. Ok [(xs_id s, s)])"

definition budget_snapshot :: "budget_scopes \<Rightarrow> string \<Rightarrow> (LimitError, ExecutionScope) result" where
  "budget_snapshot m i = ok_or (map_of m i) LeNoScope"

definition budget_reserve ::
  "budget_scopes \<Rightarrow> string \<Rightarrow> ReservationRequest \<Rightarrow> u64 \<Rightarrow> (LimitError, ReservationAdmission \<times> budget_scopes) result" where
  "budget_reserve m i q now =
     try_then (budget_snapshot m i) (\<lambda>s.
     try_then (scope_reserve s q now) (\<lambda>(admission, s'). Ok (admission, bt_insert i s' m)))"

definition budget_settle :: "budget_scopes \<Rightarrow> string \<Rightarrow> ReservationSettlement \<Rightarrow> (LimitError, budget_scopes) result" where
  "budget_settle m i settlement =
     try_then (budget_snapshot m i) (\<lambda>s. try_then (scope_settle s settlement) (\<lambda>s'. Ok (bt_insert i s' m)))"

definition budget_allowance :: "budget_scopes \<Rightarrow> string \<Rightarrow> u64 \<Rightarrow> (LimitError, ExecutionAllowance) result" where
  "budget_allowance m i now = try_then (budget_snapshot m i) (\<lambda>s. allowance s now)"

text \<open>Abandoning never retires an operation; its result is dropped.\<close>

definition budget_abandon :: "budget_scopes \<Rightarrow> string \<Rightarrow> ReservationSettlement \<Rightarrow> budget_scopes" where
  "budget_abandon m i settlement =
     (case budget_settle m i (settlement\<lparr>rs_physical_retired := False\<rparr>) of Inr m' \<Rightarrow> m' | Inl _ \<Rightarrow> m)"

end
