(* ===== verification/Limits_Charge.thy ===== *)
theory Limits_Charge
  imports Limits
begin

text \<open>
  The usage that is charged for reservations, over the natural numbers, and that the code computes it
  without wrapping; reported usages as a semilattice.
\<close>

section \<open>Usage as a semilattice\<close>

lemma max_usage_simps [simp]:
  "max_usage a a = a" "max_usage (max_usage a b) b = max_usage a b" "max_usage a (max_usage a b) = max_usage a b"
  by (cases a; cases b; simp add: max_usage_def)+

lemma max_usage_ac: "max_usage (max_usage a b) c = max_usage a (max_usage b c)" "max_usage a b = max_usage b a"
  by (simp_all add: max_usage_def max.assoc max.commute max.left_commute)

lemma merge_None [simp]: "merge_observed a None = a"
  by (cases a) simp_all

lemma merge_simps [simp]: "merge_observed a a = a" "merge_observed (merge_observed a b) b = merge_observed a b"
  by (cases a; cases b; simp)+

lemma merge_assoc: "merge_observed (merge_observed a b) c = merge_observed a (merge_observed b c)"
  by (cases a; cases b; cases c; simp add: max_usage_ac(1))

lemma merge_comm: "merge_observed a b = merge_observed b a"
  by (cases a; cases b; simp add: max_usage_ac(2))

definition seen_le :: "TokenUsage option \<Rightarrow> TokenUsage option \<Rightarrow> bool" where
  "seen_le a b \<longleftrightarrow> merge_observed b a = b"

lemma seen_le_refl [simp]: "seen_le a a"
  by (simp add: seen_le_def)

lemma seen_le_merge [simp]: "seen_le a (merge_observed a b)" "seen_le b (merge_observed a b)"
  by (simp_all add: seen_le_def) (metis merge_assoc merge_comm merge_simps(1))

lemma seen_le_trans: "seen_le a b \<Longrightarrow> seen_le b c \<Longrightarrow> seen_le a c"
  unfolding seen_le_def by (metis merge_assoc)

lemma seen_le_least: "seen_le a c \<Longrightarrow> seen_le b c \<Longrightarrow> merge_observed c (merge_observed a b) = c"
  unfolding seen_le_def by (metis merge_assoc)

section \<open>Charges over the natural numbers\<close>

type_synonym tokens = "nat \<times> nat \<times> nat"

definition join_tokens :: "tokens \<Rightarrow> tokens \<Rightarrow> tokens" where
  "join_tokens a b =
     (let i = max (fst a) (fst b); out = max (fst (snd a)) (fst (snd b)) in
      (i, out, max (max (snd (snd a)) (snd (snd b))) (i + out)))"

definition nat_tokens :: "TokenUsage \<Rightarrow> tokens" where
  "nat_tokens u =
     (let i = max (unat (tu_prompt_tokens u)) (unat (tu_cached_prompt_tokens u));
          out = max (unat (tu_completion_tokens u)) (unat (tu_reasoning_tokens u)) in
      (i, out, max (unat (tu_total_tokens u)) (i + out)))"

definition reserved_tokens :: "ReservationRequest \<Rightarrow> tokens" where
  "reserved_tokens q = (unat (rr_input_tokens q), unat (rr_output_tokens q), unat (rr_input_tokens q) + unat (rr_output_tokens q))"

text \<open>What a reservation is charged: what was reserved while the outcome is not known, nothing when it was
  never sent, the usage when it is known; and never less than what was observed.\<close>

definition base_charge :: "ReservationRequest \<Rightarrow> SettlementOutcome option \<Rightarrow> tokens" where
  "base_charge q outcome =
     (case outcome of
        Some ProvenNeverSent \<Rightarrow> (0, 0, 0)
      | Some (KnownUsage u) \<Rightarrow> nat_tokens u
      | Some (UnknownUsage (Some u)) \<Rightarrow> join_tokens (reserved_tokens q) (nat_tokens u)
      | _ \<Rightarrow> reserved_tokens q)"

definition charge :: "ExecutionReservation \<Rightarrow> tokens" where
  "charge res =
     (let base = base_charge (er_request res) (map_option rs_outcome (er_settlement res)) in
      case er_observed_usage res of None \<Rightarrow> base | Some u \<Rightarrow> join_tokens base (nat_tokens u))"

abbreviation nats :: "u64 \<times> u64 \<times> u64 \<Rightarrow> tokens" where
  "nats t \<equiv> (unat (fst t), unat (fst (snd t)), unat (snd (snd t)))"

lemma unat_max: "unat (max a b) = max (unat a) (unat b)" for a b :: "'a::len word"
  by (simp add: max_def word_le_nat_alt)

lemma normalized_nat: "normalized_tokens u = Ok (i, out, t) \<Longrightarrow> nat_tokens u = (unat i, unat out, unat t)"
  by (auto simp: normalized_tokens_def nat_tokens_def Let_def checked_add_Some_iff unat_max)

lemma outcome_nat:
  assumes "outcome_tokens q n outcome = Ok t" and "checked_add (rr_input_tokens q) (rr_output_tokens q) = Some n"
  shows "nats t = base_charge q outcome"
  using assms
  by (cases t) (auto simp: outcome_tokens_def base_charge_def checked_add_Some_iff reserved_tokens_def join_tokens_def Let_def unat_max
      max.commute max.left_commute dest!: normalized_nat split: option.splits SettlementOutcome.splits)

lemma observed_nat:
  "observed_tokens seen t = Ok t' \<Longrightarrow> nats t' = (case seen of None \<Rightarrow> nats t | Some u \<Rightarrow> join_tokens (nats t) (nat_tokens u))"
  by (cases t) (auto simp: observed_tokens_def checked_add_Some_iff join_tokens_def Let_def unat_max dest!: normalized_nat split: option.splits)

lemma charge_reservation_nat:
  assumes "charge_reservation res c = Ok c'"
  shows "unat (cs_charged_input_tokens c') = unat (cs_charged_input_tokens c) + fst (charge res)"
    "unat (cs_charged_output_tokens c') = unat (cs_charged_output_tokens c) + fst (snd (charge res))"
    "unat (cs_charged_total_tokens c') = unat (cs_charged_total_tokens c) + snd (snd (charge res))"
    "cs_model_attempts c' = cs_model_attempts c + of_bool (rr_operation (er_request res) = ModelAttempt)"
    "cs_tool_calls c' = cs_tool_calls c + of_bool (rr_operation (er_request res) = ToolOperation)"
    "cs_inflight_operations c' = cs_inflight_operations c + of_bool (is_none_or (er_settlement res) (\<lambda>s. \<not> rs_physical_retired s))"
proof -
  let ?q = "er_request res" and ?c = "count_operation res c"
  obtain n t t' known i out sum where s: "checked_add (rr_input_tokens ?q) (rr_output_tokens ?q) = Some n"
    "outcome_tokens ?q n (map_option rs_outcome (er_settlement res)) = Ok t" "observed_tokens (er_observed_usage res) t = Ok t'"
    "add_limit (cs_charged_input_tokens ?c) (fst t') = Ok i" "add_limit (cs_charged_output_tokens ?c) (fst (snd t')) = Ok out"
    "add_limit (cs_charged_total_tokens ?c) (snd (snd t')) = Ok sum"
    and c': "c' = ?c\<lparr>cs_known := known, cs_charged_input_tokens := i, cs_charged_output_tokens := out, cs_charged_total_tokens := sum\<rparr>"
    using assms unfolding charge_reservation_def Let_def try_then_eq_Inr ok_or_simps case_prod_beta Inr_inject by blast
  have "nats t' = charge res"
    using observed_nat [OF s(3)] outcome_nat [OF s(2,1)] by (cases "er_observed_usage res") (simp_all add: charge_def)
  then have t: "unat (fst t') = fst (charge res)" "unat (fst (snd t')) = fst (snd (charge res))" "unat (snd (snd t')) = snd (snd (charge res))"
    by (metis fst_conv snd_conv)+
  have c: "cs_charged_input_tokens ?c = cs_charged_input_tokens c" "cs_charged_output_tokens ?c = cs_charged_output_tokens c"
    "cs_charged_total_tokens ?c = cs_charged_total_tokens c" 
    "cs_model_attempts ?c = cs_model_attempts c + of_bool (rr_operation ?q = ModelAttempt)"
    "cs_tool_calls ?c = cs_tool_calls c + of_bool (rr_operation ?q = ToolOperation)"
    "cs_inflight_operations ?c = cs_inflight_operations c + of_bool (is_none_or (er_settlement res) (\<lambda>s. \<not> rs_physical_retired s))"
    by (auto simp: count_operation_def Let_def split: ExecutionOperation.splits)
  show "unat (cs_charged_input_tokens c') = unat (cs_charged_input_tokens c) + fst (charge res)"
    "unat (cs_charged_output_tokens c') = unat (cs_charged_output_tokens c) + fst (snd (charge res))"
    "unat (cs_charged_total_tokens c') = unat (cs_charged_total_tokens c) + snd (snd (charge res))"
    using s(4-6) t c(1-3) by (simp_all add: c' add_limit_def checked_add_Some_iff)
  show "cs_model_attempts c' = cs_model_attempts c + of_bool (rr_operation ?q = ModelAttempt)"
    "cs_tool_calls c' = cs_tool_calls c + of_bool (rr_operation ?q = ToolOperation)"
    "cs_inflight_operations c' = cs_inflight_operations c + of_bool (is_none_or (er_settlement res) (\<lambda>s. \<not> rs_physical_retired s))"
    by (simp_all add: c' c)
qed

abbreviation is_model :: "ExecutionReservation \<Rightarrow> bool" where
  "is_model res \<equiv> rr_operation (er_request res) = ModelAttempt"

abbreviation in_flight :: "ExecutionReservation \<Rightarrow> bool" where
  "in_flight res \<equiv> is_none_or (er_settlement res) (\<lambda>s. \<not> rs_physical_retired s)"

abbreviation logical_call :: "ExecutionReservation \<Rightarrow> string" where
  "logical_call res \<equiv> rr_logical_call_id (er_request res)"

lemma charge_loop_nat:
  assumes "charge_loop c logical rs = Ok (c', logical')"
  shows "unat (cs_charged_input_tokens c') = unat (cs_charged_input_tokens c) + (\<Sum>res\<leftarrow>rs. fst (charge res))"
    "unat (cs_charged_output_tokens c') = unat (cs_charged_output_tokens c) + (\<Sum>res\<leftarrow>rs. fst (snd (charge res)))"
    "unat (cs_charged_total_tokens c') = unat (cs_charged_total_tokens c) + (\<Sum>res\<leftarrow>rs. snd (snd (charge res)))"
    "cs_model_attempts c' = cs_model_attempts c + of_nat (length (filter is_model rs))"
    "cs_tool_calls c' = cs_tool_calls c + of_nat (length (filter (Not \<circ> is_model) rs))"
    "cs_inflight_operations c' = cs_inflight_operations c + of_nat (length (filter in_flight rs))"
    "logical' = logical \<union> logical_call ` {res \<in> set rs. is_model res}"
proof -
  have "unat (cs_charged_input_tokens c') = unat (cs_charged_input_tokens c) + (\<Sum>res\<leftarrow>rs. fst (charge res)) \<and>
    unat (cs_charged_output_tokens c') = unat (cs_charged_output_tokens c) + (\<Sum>res\<leftarrow>rs. fst (snd (charge res))) \<and>
    unat (cs_charged_total_tokens c') = unat (cs_charged_total_tokens c) + (\<Sum>res\<leftarrow>rs. snd (snd (charge res))) \<and>
    cs_model_attempts c' = cs_model_attempts c + of_nat (length (filter is_model rs)) \<and>
    cs_tool_calls c' = cs_tool_calls c + of_nat (length (filter (Not \<circ> is_model) rs)) \<and>
    cs_inflight_operations c' = cs_inflight_operations c + of_nat (length (filter in_flight rs)) \<and>
    logical' = logical \<union> logical_call ` {res \<in> set rs. is_model res}"
    using assms
  proof (induction rs arbitrary: c logical)
    case (Cons res rs)
    let ?l = "if is_model res then insert (logical_call res) logical else logical"
    obtain c1 where c1: "charge_reservation res c = Ok c1" "charge_loop c1 ?l rs = Ok (c', logical')" using Cons.prems by auto
    have "logical \<union> logical_call ` {x \<in> set (res # rs). is_model x} = ?l \<union> logical_call ` {x \<in> set rs. is_model x}" by auto
    then show ?case
      using Cons.IH [OF c1(2)] charge_reservation_nat [OF c1(1)] by (cases "rr_operation (er_request res)") (simp_all add: comp_def)
  qed simp
  then show "unat (cs_charged_input_tokens c') = unat (cs_charged_input_tokens c) + (\<Sum>res\<leftarrow>rs. fst (charge res))"
    "unat (cs_charged_output_tokens c') = unat (cs_charged_output_tokens c) + (\<Sum>res\<leftarrow>rs. fst (snd (charge res)))"
    "unat (cs_charged_total_tokens c') = unat (cs_charged_total_tokens c) + (\<Sum>res\<leftarrow>rs. snd (snd (charge res)))"
    "cs_model_attempts c' = cs_model_attempts c + of_nat (length (filter is_model rs))"
    "cs_tool_calls c' = cs_tool_calls c + of_nat (length (filter (Not \<circ> is_model) rs))"
    "cs_inflight_operations c' = cs_inflight_operations c + of_nat (length (filter in_flight rs))"
    "logical' = logical \<union> logical_call ` {res \<in> set rs. is_model res}" by blast+
qed

lemma unat_of_small: "n \<le> MAX_EXECUTION_RESERVATIONS \<Longrightarrow> unat (of_nat n :: u64) = n"
  by (simp add: unsigned_of_nat take_bit_nat_eq_self MAX_EXECUTION_RESERVATIONS_def)

lemma unat_of_length: "length rs \<le> MAX_EXECUTION_RESERVATIONS \<Longrightarrow> unat (of_nat (length (filter P rs)) :: u64) = length (filter P rs)"
  by (rule unat_of_small [OF order_trans [OF length_filter_le]])

lemma valid_length: "ExecutionScope_validate s = Ok () \<Longrightarrow> length (xs_reservations s) \<le> MAX_EXECUTION_RESERVATIONS"
  by (rule ccontr) (simp add: ExecutionScope_validate_def)

lemma consumption_nat:
  assumes "consumption s = Ok c"
  defines "rs \<equiv> map snd (xs_reservations s)"
  shows "unat (cs_charged_input_tokens c) = (\<Sum>res\<leftarrow>rs. fst (charge res))"
    "unat (cs_charged_output_tokens c) = (\<Sum>res\<leftarrow>rs. fst (snd (charge res)))"
    "unat (cs_charged_total_tokens c) = (\<Sum>res\<leftarrow>rs. snd (snd (charge res)))"
    "unat (cs_model_attempts c) = length (filter is_model rs)"
    "unat (cs_tool_calls c) = length (filter (Not \<circ> is_model) rs)"
    "unat (cs_inflight_operations c) = length (filter in_flight rs)"
    "unat (cs_logical_model_calls c) = card (logical_call ` {res \<in> set rs. is_model res})"
    "unat (cs_retries c) + card (logical_call ` {res \<in> set rs. is_model res}) = length (filter is_model rs)"
proof -
  obtain c0 logical where l: "charge_loop ExecutionConsumption_default {} rs = Ok (c0, logical)"
    and c: "c = c0\<lparr>cs_logical_model_calls := of_nat (card logical), cs_retries := cs_model_attempts c0 - of_nat (card logical)\<rparr>"
    and v: "ExecutionScope_validate s = Ok ()"
    using assms(1) unfolding rs_def consumption_def Let_def by auto
  have len: "length rs \<le> MAX_EXECUTION_RESERVATIONS" using valid_length [OF v] by (simp add: rs_def)
  note n = charge_loop_nat [OF l]
  let ?l = "logical_call ` {res \<in> set rs. is_model res}"
  have L: "logical = ?l" using n(7) by simp
  have "?l = set (map logical_call (filter is_model rs))" by auto
  then have card: "card ?l \<le> length (filter is_model rs)" using card_length [of "map logical_call (filter is_model rs)"] by simp
  have u: "unat (of_nat (card ?l) :: u64) = card ?l"
    by (rule unat_of_small [OF order_trans [OF card order_trans [OF length_filter_le len]]])
  show "unat (cs_charged_input_tokens c) = (\<Sum>res\<leftarrow>rs. fst (charge res))"
    "unat (cs_charged_output_tokens c) = (\<Sum>res\<leftarrow>rs. fst (snd (charge res)))"
    "unat (cs_charged_total_tokens c) = (\<Sum>res\<leftarrow>rs. snd (snd (charge res)))"
    using n(1-3) by (simp_all add: c ExecutionConsumption_default_def)
  have ops: "cs_model_attempts c = of_nat (length (filter is_model rs))" "cs_tool_calls c = of_nat (length (filter (Not \<circ> is_model) rs))"
    "cs_inflight_operations c = of_nat (length (filter in_flight rs))" "cs_logical_model_calls c = of_nat (card ?l)"
    "cs_retries c = cs_model_attempts c - of_nat (card ?l)"
    using n(4-6) by (simp_all add: c L ExecutionConsumption_default_def)
  show m: "unat (cs_model_attempts c) = length (filter is_model rs)" unfolding ops(1) by (rule unat_of_length [OF len])
  show "unat (cs_tool_calls c) = length (filter (Not \<circ> is_model) rs)" unfolding ops(2) by (rule unat_of_length [OF len])
  show "unat (cs_inflight_operations c) = length (filter in_flight rs)" unfolding ops(3) by (rule unat_of_length [OF len])
  show "unat (cs_logical_model_calls c) = card ?l" unfolding ops(4) by (rule u)
  have "of_nat (card ?l) \<le> cs_model_attempts c" unfolding word_le_nat_alt u m by (rule card)
  then have "unat (cs_retries c) = unat (cs_model_attempts c) - card ?l" unfolding ops(5) by (simp only: unat_sub u)
  then show "unat (cs_retries c) + card ?l = length (filter is_model rs)" unfolding m using card by linarith
qed

end
