(* ===== verification/Limits_Steps.thy ===== *)
theory Limits_Steps
  imports Limits_Charge Step_System
begin

text \<open>
  Reservations and settlements as steps of a scope. Both are safe to repeat, by the locale
  \<open>retry_safe\<close>.
\<close>

section \<open>Reservations\<close>

definition scope_ok :: "ExecutionScope \<Rightarrow> bool" where
  "scope_ok s \<longleftrightarrow> bt_wf (xs_reservations s) \<and> ExecutionScope_validate s = Ok ()"

lemma check_allowance_valid: "check_allowance s now = Ok () \<Longrightarrow> ExecutionScope_validate s = Ok ()"
  by (auto simp: check_allowance_def consumption_def)

definition with_reservation :: "ExecutionScope \<Rightarrow> ReservationRequest \<Rightarrow> ExecutionScope" where
  "with_reservation s q = s\<lparr>xs_version := xs_version s + 1, xs_reservations := bt_insert (rr_id q)
     \<lparr>er_request = q, er_settlement = None, er_observed_usage = None\<rparr> (xs_reservations s)\<rparr>"

lemma reserve_granted:
  "scope_reserve s q now = Ok (NewlyGranted, s') \<longleftrightarrow>
     ExecutionScope_validate s = Ok () \<and> ReservationRequest_validate q = Ok () \<and> map_of (xs_reservations s) (rr_id q) = None \<and>
     xs_created_at_ms s \<le> now \<and> now < xs_deadline_at_ms s \<and> checked_add (xs_version s) 1 \<noteq> None \<and>
     s' = with_reservation s q \<and> check_allowance s' now = Ok ()"
  unfolding scope_reserve_def
  by (auto simp: with_reservation_def Let_def not_less not_le checked_add_def split: option.splits if_splits)

lemma reserve_recorded:
  "scope_reserve s q now = Ok (AlreadyRecorded, s') \<longleftrightarrow>
     ExecutionScope_validate s = Ok () \<and> ReservationRequest_validate q = Ok () \<and>
     (\<exists>res. map_of (xs_reservations s) (rr_id q) = Some res \<and> er_request res = q) \<and> s' = s"
  unfolding scope_reserve_def by (auto simp: Let_def split: option.splits if_splits)

lemma reserve_ok_cases:
  assumes "scope_reserve s q now = Ok (a, s')"
  shows "a = AlreadyRecorded \<and> s' = s \<or> a = NewlyGranted \<and> s' = with_reservation s q \<and> map_of (xs_reservations s) (rr_id q) = None"
  using assms by (cases a) (auto simp: reserve_granted reserve_recorded)

text \<open>What a settlement leaves in the scope.\<close>

definition merged_seen :: "ExecutionReservation \<Rightarrow> ReservationSettlement \<Rightarrow> TokenUsage option" where
  "merged_seen res x = merge_observed (er_observed_usage res) (merge_observed (rs_observed_usage x) (outcome_usage (rs_outcome x)))"

definition settles :: "ExecutionReservation \<Rightarrow> ReservationSettlement \<Rightarrow> ReservationSettlement \<Rightarrow> bool" where
  "settles res x y \<longleftrightarrow>
     (case er_settlement res of
        None \<Rightarrow> y = x\<lparr>rs_observed_usage := merged_seen res x\<rparr>
      | Some p \<Rightarrow> \<exists>outcome. settled_outcome (rs_outcome p) (rs_outcome x) = Some outcome \<and>
          y = x\<lparr>rs_observed_usage := merged_seen res x, rs_physical_retired := (rs_physical_retired x \<or> rs_physical_retired p),
            rs_outcome := outcome\<rparr>)"

lemma settle_ok:
  assumes "scope_settle s x = Ok s'"
  obtains res y where "map_of (xs_reservations s) (rs_reservation_id x) = Some res" "settles res x y" "ExecutionScope_validate s = Ok ()"
    and "s' = s \<and> er_settlement res = Some y \<and> er_observed_usage res = merged_seen res x \<or>
      s' = s\<lparr>xs_version := xs_version s + 1, xs_reservations := bt_insert (rs_reservation_id x)
         (res\<lparr>er_settlement := Some y, er_observed_usage := merged_seen res x\<rparr>) (xs_reservations s)\<rparr> \<and> ExecutionScope_validate s' = Ok ()"
proof -
  obtain res where r: "map_of (xs_reservations s) (rs_reservation_id x) = Some res" "ExecutionScope_validate s = Ok ()"
    using assms by (auto simp: scope_settle_def)
  let ?x = "x\<lparr>rs_observed_usage := merged_seen res x\<rparr>"
  let ?s = "\<lambda>y. s\<lparr>xs_version := xs_version s + 1, xs_reservations := bt_insert (rs_reservation_id x)
         (res\<lparr>er_settlement := Some y, er_observed_usage := merged_seen res x\<rparr>) (xs_reservations s)\<rparr>"
  show thesis
  proof (cases "er_settlement res")
    case None
    then have "settles res x ?x" "s' = ?s ?x \<and> ExecutionScope_validate s' = Ok ()"
      using assms r by (auto simp: scope_settle_def settles_def merged_seen_def Let_def checked_add_def split: if_splits)
    then show thesis using that r by blast
  next
    case (Some p)
    then obtain outcome where o: "settled_outcome (rs_outcome p) (rs_outcome x) = Some outcome"
      using assms r by (auto simp: scope_settle_def Let_def)
    let ?y = "?x\<lparr>rs_physical_retired := (rs_physical_retired x \<or> rs_physical_retired p), rs_outcome := outcome\<rparr>"
    have "settles res x ?y" using Some o by (simp add: settles_def)
    moreover have "s' = s \<and> er_settlement res = Some ?y \<and> er_observed_usage res = merged_seen res x \<or>
        s' = ?s ?y \<and> ExecutionScope_validate s' = Ok ()"
      using assms r Some o by (auto simp: scope_settle_def merged_seen_def Let_def checked_add_def split: if_splits)
    ultimately show thesis using that r by blast
  qed
qed

section \<open>Histories\<close>

inductive scope_step :: "ExecutionScope \<Rightarrow> ExecutionScope \<Rightarrow> bool" where
  step_reserve: "scope_reserve s q now = Ok (a, s') \<Longrightarrow> scope_step s s'"
| step_settle: "scope_settle s x = Ok s' \<Longrightarrow> scope_step s s'"

lemma scope_step_ok: "scope_step s s' \<Longrightarrow> scope_ok s \<Longrightarrow> scope_ok s'"
proof (induction rule: scope_step.induct)
  case (step_reserve s q now a s')
  then show ?case
    using reserve_ok_cases [OF step_reserve(1)] check_allowance_valid by (auto simp: scope_ok_def with_reservation_def reserve_granted)
next
  case (step_settle s x s')
  then show ?case by (auto elim!: settle_ok simp: scope_ok_def)
qed

lemma settled_outcome_idem: "settled_outcome p x = Some o' \<Longrightarrow> settled_outcome o' x = Some o'"
  by (cases "(p, x)" rule: settled_outcome.cases) (auto split: if_splits)

lemma settled_outcome_self: "settled_outcome x x = Some x"
  by (cases x) simp_all

lemma settled_outcome_absorb:
  "settled_outcome p x = Some p \<Longrightarrow> settled_outcome p x' = Some o' \<Longrightarrow> settled_outcome o' x = Some o'"
  by (cases "(p, x)" rule: settled_outcome.cases; cases "(p, x')" rule: settled_outcome.cases)
    (auto split: if_splits, metis merge_assoc merge_comm)

lemma map_of_with_reservation:
  "map_of (xs_reservations (with_reservation s q)) i =
     (if i = rr_id q then Some \<lparr>er_request = q, er_settlement = None, er_observed_usage = None\<rparr> else map_of (xs_reservations s) i)"
  by (simp add: with_reservation_def)

text \<open>A granted request is never granted again.\<close>

interpretation scope_reservations: retry_safe scope_step scope_ok
  "\<lambda>s q s'. scope_ok s \<and> (\<exists>now a. scope_reserve s q now = Ok (a, s'))"
  "\<lambda>s q. ReservationRequest_validate q = Ok () \<and> (\<exists>res. map_of (xs_reservations s) (rr_id q) = Some res \<and> er_request res = q)"
  "\<lambda>s q. \<forall>now. scope_reserve s q now = Ok (AlreadyRecorded, s)"
proof unfold_locales
  show "scope_ok s'" if "scope_step s s'" "scope_ok s" for s s' using that by (rule scope_step_ok)
next
  fix s q s' assume "scope_ok s \<and> (\<exists>now a. scope_reserve s q now = Ok (a, s'))"
  then obtain now a where a: "scope_ok s" "scope_reserve s q now = Ok (a, s')" by blast
  have "ReservationRequest_validate q = Ok ()" using a(2) by (cases a) (auto simp: reserve_granted reserve_recorded)
  moreover have "\<exists>res. map_of (xs_reservations s') (rr_id q) = Some res \<and> er_request res = q"
    using a(2) by (cases a) (auto simp: reserve_granted reserve_recorded map_of_with_reservation)
  ultimately show "scope_ok s' \<and> ReservationRequest_validate q = Ok () \<and> (\<exists>res. map_of (xs_reservations s') (rr_id q) = Some res \<and> er_request res = q)"
    using scope_step_ok [OF step_reserve [OF a(2)] a(1)] by blast
next
  fix s s' q
  assume "scope_step s s'" "ReservationRequest_validate q = Ok () \<and> (\<exists>res. map_of (xs_reservations s) (rr_id q) = Some res \<and> er_request res = q)"
  then show "ReservationRequest_validate q = Ok () \<and> (\<exists>res. map_of (xs_reservations s') (rr_id q) = Some res \<and> er_request res = q)"
    by (cases rule: scope_step.cases) (auto elim!: settle_ok dest!: reserve_ok_cases simp: map_of_with_reservation)
next
  fix s q assume "scope_ok s" "ReservationRequest_validate q = Ok () \<and> (\<exists>res. map_of (xs_reservations s) (rr_id q) = Some res \<and> er_request res = q)"
  then show "\<forall>now. scope_reserve s q now = Ok (AlreadyRecorded, s)" by (simp add: reserve_recorded scope_ok_def)
qed

text \<open>A settlement can be sent again.\<close>

definition settled_with :: "ExecutionScope \<Rightarrow> ReservationSettlement \<Rightarrow> bool" where
  "settled_with s x \<longleftrightarrow> (\<exists>res y. map_of (xs_reservations s) (rs_reservation_id x) = Some res \<and> er_settlement res = Some y \<and>
     settles res x y \<and> merged_seen res x = er_observed_usage res)"

lemma settles_facts:
  assumes "settles res x y"
  shows "rs_reservation_id y = rs_reservation_id x" "rs_physical_retired x \<longrightarrow> rs_physical_retired y"
    "rs_observed_usage y = merged_seen res x" "settled_outcome (rs_outcome y) (rs_outcome x) = Some (rs_outcome y)"
  using assms by (auto simp: settles_def settled_outcome_self settled_outcome_idem split: option.splits)

lemma settlesI:
  assumes "er_settlement res = Some y" and "rs_reservation_id y = rs_reservation_id x" "rs_physical_retired x \<longrightarrow> rs_physical_retired y"
    "rs_observed_usage y = merged_seen res x" "settled_outcome (rs_outcome y) (rs_outcome x) = Some (rs_outcome y)"
  shows "settles res x y"
  using assms by (auto simp: settles_def)

lemma settle_records: "scope_settle s x = Ok s' \<Longrightarrow> settled_with s' x"
proof (erule settle_ok)
  fix res y
  assume r: "map_of (xs_reservations s) (rs_reservation_id x) = Some res" "settles res x y"
    and s': "s' = s \<and> er_settlement res = Some y \<and> er_observed_usage res = merged_seen res x \<or>
      s' = s\<lparr>xs_version := xs_version s + 1, xs_reservations := bt_insert (rs_reservation_id x)
         (res\<lparr>er_settlement := Some y, er_observed_usage := merged_seen res x\<rparr>) (xs_reservations s)\<rparr> \<and> ExecutionScope_validate s' = Ok ()"
  let ?res = "res\<lparr>er_settlement := Some y, er_observed_usage := merged_seen res x\<rparr>"
  have m: "merged_seen ?res x = merged_seen res x" by (simp add: merged_seen_def)
  then have "settles ?res x y" using settles_facts [OF r(2)] by (intro settlesI) simp_all
  with s' r m show "settled_with s' x" by (auto simp: settled_with_def)
qed

lemma settled_with_kept:
  assumes "scope_step s s'" and "settled_with s x"
  shows "settled_with s' x"
  using assms(1)
proof (cases rule: scope_step.cases)
  case (step_reserve q now a)
  then show ?thesis using assms(2) reserve_ok_cases [OF step_reserve] by (auto simp: settled_with_def map_of_with_reservation)
next
  case (step_settle x')
  obtain res y where r: "map_of (xs_reservations s) (rs_reservation_id x) = Some res" "er_settlement res = Some y"
    "settles res x y" "merged_seen res x = er_observed_usage res" using assms(2) by (auto simp: settled_with_def)
  from step_settle show ?thesis
  proof (rule settle_ok)
    fix res' y'
    assume r': "map_of (xs_reservations s) (rs_reservation_id x') = Some res'" "settles res' x' y'"
      and s': "s' = s \<and> er_settlement res' = Some y' \<and> er_observed_usage res' = merged_seen res' x' \<or>
        s' = s\<lparr>xs_version := xs_version s + 1, xs_reservations := bt_insert (rs_reservation_id x')
         (res'\<lparr>er_settlement := Some y', er_observed_usage := merged_seen res' x'\<rparr>) (xs_reservations s)\<rparr> \<and> ExecutionScope_validate s' = Ok ()"
    let ?res = "res'\<lparr>er_settlement := Some y', er_observed_usage := merged_seen res' x'\<rparr>"
    show ?thesis
    proof (cases "s' = s \<or> rs_reservation_id x' \<noteq> rs_reservation_id x")
      case True
      then show ?thesis using s' assms(2) by (auto simp: settled_with_def)
    next
      case False
      then have e: "res' = res" "rs_reservation_id x' = rs_reservation_id x" using r r' by auto
      have p: "settled_outcome (rs_outcome y) (rs_outcome x') = Some (rs_outcome y')" "rs_physical_retired y \<longrightarrow> rs_physical_retired y'"
        using r'(2) r(2) e(1) by (auto simp: settles_def)
      have m: "merged_seen ?res x = merged_seen res' x'"
        using r(4) e(1) unfolding merged_seen_def by simp (metis merge_assoc merge_comm)
      have "settles ?res x y'"
      proof (rule settlesI)
        show "rs_observed_usage y' = merged_seen ?res x" unfolding m by (rule settles_facts [OF r'(2)])
        show "settled_outcome (rs_outcome y') (rs_outcome x) = Some (rs_outcome y')"
          by (rule settled_outcome_absorb [OF settles_facts(4) [OF r(3)] p(1)])
      qed (use settles_facts(1,2) [OF r'(2)] settles_facts(2) [OF r(3)] p(2) e in simp_all)
      then show ?thesis using s' False m e by (auto simp: settled_with_def)
    qed
  qed
qed

interpretation scope_settlements: retry_safe scope_step scope_ok
  "\<lambda>s x s'. scope_ok s \<and> scope_settle s x = Ok s'" settled_with "\<lambda>s x. scope_settle s x = Ok s"
proof unfold_locales
  fix s x s' assume "scope_ok s \<and> scope_settle s x = Ok s'"
  then show "scope_ok s' \<and> settled_with s' x" using scope_step_ok step_settle settle_records by blast
next
  show "settled_with s' x" if "scope_step s s'" "settled_with s x" for s s' x using that by (rule settled_with_kept)
next
  fix s x assume "scope_ok s" "settled_with s x"
  then show "scope_settle s x = Ok s"
    by (auto simp: settled_with_def settles_def scope_settle_def scope_ok_def merged_seen_def Let_def) blast
qed

end
