(* ===== verification/Limits_Facts.thy ===== *)
theory Limits_Facts
  imports Limits_Steps
begin

text \<open>
  What the accounting promises: a grant is covered by the limits and given once, settlements can be
  repeated, and evidence of usage is never erased.
\<close>

section \<open>What a grant means\<close>

definition within_limits :: "ExecutionScope \<Rightarrow> bool" where
  "within_limits s \<longleftrightarrow>
     (let rs = map snd (xs_reservations s); l = xs_limits s; b = el_budget l in
      length (filter is_model rs) \<le> unat (el_max_model_attempts l) \<and>
      length (filter (Not \<circ> is_model) rs) \<le> unat (el_max_tool_calls l) \<and>
      length (filter is_model rs) \<le> card (logical_call ` {res \<in> set rs. is_model res}) + unat (el_max_retries l) \<and>
      length (filter in_flight rs) \<le> unat (el_max_inflight_operations l) \<and>
      (\<forall>m. max_input_tokens b = Some m \<longrightarrow> (\<Sum>res\<leftarrow>rs. fst (charge res)) \<le> unat m) \<and>
      (\<forall>m. max_output_tokens b = Some m \<longrightarrow> (\<Sum>res\<leftarrow>rs. fst (snd (charge res))) \<le> unat m) \<and>
      (\<forall>m. max_total_tokens b = Some m \<longrightarrow> (\<Sum>res\<leftarrow>rs. snd (snd (charge res))) \<le> unat m))"

lemma check_allowance_facts:
  assumes "check_allowance s now = Ok ()"
  shows "within_limits s" "(\<Sum>res\<leftarrow>map snd (xs_reservations s). snd (snd (charge res))) =
    (\<Sum>res\<leftarrow>map snd (xs_reservations s). fst (charge res)) + (\<Sum>res\<leftarrow>map snd (xs_reservations s). fst (snd (charge res)))"
proof -
  let ?b = "el_budget (xs_limits s)"
  obtain c u where c: "consumption s = Ok c" "Budget_evaluate ?b u = Ok BudgetContinue"
    and ops: "cs_model_attempts c \<le> el_max_model_attempts (xs_limits s)" "cs_tool_calls c \<le> el_max_tool_calls (xs_limits s)"
      "cs_retries c \<le> el_max_retries (xs_limits s)" "cs_inflight_operations c \<le> el_max_inflight_operations (xs_limits s)"
    and u: "us_input_tokens u = cs_charged_input_tokens c" "us_output_tokens u = cs_charged_output_tokens c"
      "us_total_tokens u = cs_charged_total_tokens c"
    using assms by (auto simp: check_allowance_def Let_def not_less split: if_splits)
  note n = consumption_nat [OF c(1)]
  have e: "Usage_validate u = Ok ()" "\<forall>q \<in> set (budget_pairs ?b u). \<not> exceeds q"
    using c(2) by (auto simp: Budget_evaluate_ok split: if_splits)
  then show "(\<Sum>res\<leftarrow>map snd (xs_reservations s). snd (snd (charge res))) =
    (\<Sum>res\<leftarrow>map snd (xs_reservations s). fst (charge res)) + (\<Sum>res\<leftarrow>map snd (xs_reservations s). fst (snd (charge res)))"
    using n(1-3) u by (simp add: Usage_validate_ok)
  have "\<forall>m. max_input_tokens ?b = Some m \<longrightarrow> unat (us_input_tokens u) \<le> unat m"
    "\<forall>m. max_output_tokens ?b = Some m \<longrightarrow> unat (us_output_tokens u) \<le> unat m"
    "\<forall>m. max_total_tokens ?b = Some m \<longrightarrow> unat (us_total_tokens u) \<le> unat m"
    using e(2) by (auto simp: budget_pairs_def exceeds_def not_less)
  then show "within_limits s" using n ops u by (auto simp: within_limits_def Let_def word_le_nat_alt)
qed

definition tokens_le :: "tokens \<Rightarrow> tokens \<Rightarrow> bool" where
  "tokens_le a b \<longleftrightarrow> fst a \<le> fst b \<and> fst (snd a) \<le> fst (snd b) \<and> snd (snd a) \<le> snd (snd b)"

lemma join_tokens_facts:
  "tokens_le a (join_tokens a b)" "tokens_le b (join_tokens a b)"
  "fst (join_tokens a b) + fst (snd (join_tokens a b)) \<le> snd (snd (join_tokens a b))"
  by (simp_all add: join_tokens_def tokens_le_def Let_def)

lemma nat_tokens_total: "fst (nat_tokens u) + fst (snd (nat_tokens u)) \<le> snd (snd (nat_tokens u))"
  by (simp add: nat_tokens_def Let_def)

lemma reserved_tokens_total: "fst (reserved_tokens q) + fst (snd (reserved_tokens q)) \<le> snd (snd (reserved_tokens q))"
  by (simp add: reserved_tokens_def)

lemma charge_total_ge: "fst (charge res) + fst (snd (charge res)) \<le> snd (snd (charge res))"
proof -
  have "fst (base_charge q out) + fst (snd (base_charge q out)) \<le> snd (snd (base_charge q out))" for q out
    unfolding base_charge_def using join_tokens_facts(3) nat_tokens_total reserved_tokens_total
    by (simp split: option.split SettlementOutcome.split)
  then show ?thesis unfolding charge_def Let_def using join_tokens_facts(3) by (simp split: option.split)
qed

lemma balanced:
  assumes "check_allowance s now = Ok ()" and "(i, res) \<in> set (xs_reservations s)"
  shows "snd (snd (charge res)) = fst (charge res) + fst (snd (charge res))"
proof -
  let ?rs = "map snd (xs_reservations s)"
  have "(\<Sum>res\<leftarrow>rs. snd (snd (charge res))) = (\<Sum>res\<leftarrow>rs. fst (charge res)) + (\<Sum>res\<leftarrow>rs. fst (snd (charge res))) \<Longrightarrow>
      \<forall>res \<in> set rs. snd (snd (charge res)) = fst (charge res) + fst (snd (charge res))" for rs
  proof (induction rs)
    case (Cons r rs)
    have ge: "(\<Sum>res\<leftarrow>rs. fst (charge res)) + (\<Sum>res\<leftarrow>rs. fst (snd (charge res))) \<le> (\<Sum>res\<leftarrow>rs. snd (snd (charge res)))"
      by (induction rs) (auto intro: add_mono [OF charge_total_ge, THEN order_trans [rotated]] simp: add.assoc add.left_commute)
    then show ?case using Cons charge_total_ge [of r] by simp
  qed simp
  from this [OF check_allowance_facts(2) [OF assms(1)]] show ?thesis using assms(2) by force
qed

section \<open>Evidence\<close>

fun outcome_le :: "SettlementOutcome \<Rightarrow> SettlementOutcome \<Rightarrow> bool" where
  "outcome_le (UnknownUsage a) (UnknownUsage b) = seen_le a b"
| "outcome_le (UnknownUsage a) (KnownUsage b) = True"
| "outcome_le a b = (a = b)"

lemma outcome_le_refl [simp]: "outcome_le a a"
  by (cases a) simp_all

lemma outcome_le_trans: "outcome_le a b \<Longrightarrow> outcome_le b c \<Longrightarrow> outcome_le a c"
  by (cases a; cases b; cases c) (auto intro: seen_le_trans)

lemma settled_outcome_le: "settled_outcome p x = Some o' \<Longrightarrow> outcome_le p o'"
  by (cases "(p, x)" rule: settled_outcome.cases) (auto split: if_splits)

definition evidence_le :: "ExecutionReservation \<Rightarrow> ExecutionReservation \<Rightarrow> bool" where
  "evidence_le a b \<longleftrightarrow> er_request b = er_request a \<and> seen_le (er_observed_usage a) (er_observed_usage b) \<and>
     (\<forall>x. er_settlement a = Some x \<longrightarrow> (\<exists>y. er_settlement b = Some y \<and> (rs_physical_retired x \<longrightarrow> rs_physical_retired y) \<and>
       outcome_le (rs_outcome x) (rs_outcome y)))"

lemma evidence_le_refl [simp]: "evidence_le a a"
  by (simp add: evidence_le_def)

lemma evidence_le_trans: "evidence_le a b \<Longrightarrow> evidence_le b c \<Longrightarrow> evidence_le a c"
proof -
  assume a: "evidence_le a b" and b: "evidence_le b c"
  have "\<exists>z. er_settlement c = Some z \<and> (rs_physical_retired x \<longrightarrow> rs_physical_retired z) \<and> outcome_le (rs_outcome x) (rs_outcome z)"
    if x: "er_settlement a = Some x" for x
  proof -
    obtain y where y: "er_settlement b = Some y" "rs_physical_retired x \<longrightarrow> rs_physical_retired y" "outcome_le (rs_outcome x) (rs_outcome y)"
      using a x by (auto simp: evidence_le_def)
    obtain z where "er_settlement c = Some z" "rs_physical_retired y \<longrightarrow> rs_physical_retired z" "outcome_le (rs_outcome y) (rs_outcome z)"
      using b y(1) by (auto simp: evidence_le_def)
    then show ?thesis using y outcome_le_trans by blast
  qed
  then show ?thesis using a b seen_le_trans by (auto simp: evidence_le_def)
qed

lemma settles_evidence:
  assumes "settles res x y"
  shows "evidence_le res (res\<lparr>er_settlement := Some y, er_observed_usage := merged_seen res x\<rparr>)"
  using assms by (auto simp: evidence_le_def settles_def merged_seen_def dest: settled_outcome_le split: option.splits)

lemma step_evidence:
  assumes "scope_step s s'" and "map_of (xs_reservations s) i = Some a"
  shows "\<exists>b. map_of (xs_reservations s') i = Some b \<and> evidence_le a b"
  using assms(1)
proof (cases rule: scope_step.cases)
  case (step_reserve q now adm)
  then show ?thesis using assms(2) reserve_ok_cases [OF step_reserve] by (auto simp: map_of_with_reservation)
next
  case (step_settle x)
  then show ?thesis by (rule settle_ok) (use assms(2) settles_evidence in auto)
qed

definition usage_le :: "TokenUsage \<Rightarrow> TokenUsage \<Rightarrow> bool" where
  "usage_le u w \<longleftrightarrow> tu_prompt_tokens u \<le> tu_prompt_tokens w \<and> tu_completion_tokens u \<le> tu_completion_tokens w \<and>
     tu_total_tokens u \<le> tu_total_tokens w \<and> tu_cached_prompt_tokens u \<le> tu_cached_prompt_tokens w \<and>
     tu_reasoning_tokens u \<le> tu_reasoning_tokens w"

lemma seen_le_usage:
  assumes "seen_le (Some u) seen"
  shows "\<exists>w. seen = Some w \<and> usage_le u w"
proof -
  obtain w where w: "seen = Some w" "max_usage w u = w" using assms by (cases seen) (auto simp: seen_le_def)
  have "usage_le u (max_usage w u)" by (simp add: usage_le_def max_usage_def)
  then show ?thesis using w by simp
qed

text \<open>What was observed of a reservation, as natural numbers.\<close>

definition observed_part :: "ExecutionReservation \<Rightarrow> tokens" where
  "observed_part res = (case er_observed_usage res of None \<Rightarrow> (0, 0, 0) | Some u \<Rightarrow> nat_tokens u)"

lemma observed_part_charged: "tokens_le (observed_part res) (charge res)"
  using join_tokens_facts(2) by (simp add: observed_part_def charge_def Let_def tokens_le_def split: option.split)

lemma observed_consumed:
  assumes "consumption s = Ok c"
  defines "rs \<equiv> map snd (xs_reservations s)"
  shows "(\<Sum>res\<leftarrow>rs. fst (observed_part res)) \<le> unat (cs_charged_input_tokens c)"
    "(\<Sum>res\<leftarrow>rs. fst (snd (observed_part res))) \<le> unat (cs_charged_output_tokens c)"
    "(\<Sum>res\<leftarrow>rs. snd (snd (observed_part res))) \<le> unat (cs_charged_total_tokens c)"
  unfolding consumption_nat(1-3) [OF assms(1), folded rs_def]
  using observed_part_charged by (auto simp: tokens_le_def intro!: sum_list_mono)

section \<open>Properties of the accounting\<close>

lemma new_scope_ok: "ExecutionScope_new i root l t = Ok s \<Longrightarrow> scope_ok s"
  by (auto simp: ExecutionScope_new_def scope_ok_def Let_def)

lemma reachable_scope_ok: "ExecutionScope_new i root l t = Ok s0 \<Longrightarrow> scope_step\<^sup>*\<^sup>* s0 s \<Longrightarrow> scope_ok s"
  using new_scope_ok scope_reservations.steps_good by blast

text \<open>\<^bold>\<open>C10.\<close> 
  A grant is covered: after it the attempts, tool calls, retries and operations in flight are within
  their limits, and so are the tokens charged for all reservations, with this one charged in full; the
  sums are over the natural numbers, so no addition of the code wrapped. The time is before the deadline.
\<close>

theorem grant_within_limits:
  assumes "scope_reserve s q now = Ok (NewlyGranted, s')"
  shows "within_limits s' \<and> xs_created_at_ms s' \<le> now \<and> now < xs_deadline_at_ms s' \<and>
    (\<exists>res. map_of (xs_reservations s') (rr_id q) = Some res \<and> charge res = reserved_tokens q)"
proof -
  have g: "s' = with_reservation s q" "check_allowance s' now = Ok ()" "xs_created_at_ms s \<le> now" "now < xs_deadline_at_ms s"
    using assms by (auto simp: reserve_granted)
  have "charge \<lparr>er_request = q, er_settlement = None, er_observed_usage = None\<rparr> = reserved_tokens q"
    by (simp add: charge_def base_charge_def)
  then show ?thesis using g check_allowance_facts(1) [OF g(2)] by (simp add: map_of_with_reservation) (simp add: with_reservation_def)
qed

text \<open>\<^bold>\<open>C38.\<close> 
  A request is granted at most once: whatever happens after it was granted, the same request is only
  answered as recorded, at any time, and changes nothing.
\<close>

theorem reservation_granted_once:
  assumes "ExecutionScope_new i root l t = Ok s0" and "scope_step\<^sup>*\<^sup>* s0 s" and "scope_reserve s q now = Ok (a, s')"
    and "scope_step\<^sup>*\<^sup>* s' s''"
  shows "scope_reserve s'' q later = Ok (AlreadyRecorded, s'')"
  using scope_reservations.repeated_answers [OF _ assms(4)] reachable_scope_ok [OF assms(1,2)] assms(3) by blast

text \<open>\<^bold>\<open>C23.\<close> 
  A settlement can be sent again at any time, also after later settlements of the same reservation: it
  is accepted and changes nothing.
\<close>

theorem settlement_retry_safe:
  assumes "ExecutionScope_new i root l t = Ok s0" and "scope_step\<^sup>*\<^sup>* s0 s" and "scope_settle s x = Ok s'"
    and "scope_step\<^sup>*\<^sup>* s' s''"
  shows "scope_settle s'' x = Ok s''"
  using scope_settlements.repeated_answers [OF _ assms(4)] reachable_scope_ok [OF assms(1,2)] assms(3) by blast

lemma steps_evidence:
  assumes "scope_step\<^sup>*\<^sup>* s s'" and "map_of (xs_reservations s) i = Some a"
  shows "\<exists>b. map_of (xs_reservations s') i = Some b \<and> evidence_le a b"
  using assms
proof (induction rule: rtranclp_induct)
  case (step t t')
  then show ?case using step_evidence evidence_le_trans by metis
qed simp

text \<open>What a settlement reports is observed from then on.\<close>

lemma settled_reports:
  assumes "scope_settle s0 x = Ok s" and "map_of (xs_reservations s) (rs_reservation_id x) = Some a"
    and "rs_observed_usage x = Some u \<or> rs_outcome x = KnownUsage u \<or> rs_outcome x = UnknownUsage (Some u)"
  shows "seen_le (Some u) (er_observed_usage a)"
proof -
  have "merged_seen a x = er_observed_usage a"
    using settle_records [OF assms(1)] assms(2) by (auto simp: settled_with_def)
  moreover have "seen_le (Some u) (merge_observed (rs_observed_usage x) (outcome_usage (rs_outcome x)))"
    using assms(3) seen_le_merge by (force simp: outcome_usage_def)
  ultimately show ?thesis unfolding merged_seen_def by (metis seen_le_merge(2) seen_le_trans)
qed

lemma outcome_le_known: "outcome_le (KnownUsage u) z \<Longrightarrow> z = KnownUsage u"
  by (cases z) auto

lemma known_settlement:
  assumes "scope_settle s x = Ok s'" and "rs_outcome x = KnownUsage u"
  shows "\<exists>b y. map_of (xs_reservations s') (rs_reservation_id x) = Some b \<and> er_settlement b = Some y \<and> rs_outcome y = KnownUsage u"
proof -
  obtain b y where b: "map_of (xs_reservations s') (rs_reservation_id x) = Some b" "er_settlement b = Some y" "settles b x y"
    using settle_records [OF assms(1)] by (auto simp: settled_with_def)
  then have "settled_outcome (rs_outcome y) (KnownUsage u) = Some (rs_outcome y)" using settles_facts(4) assms(2) by metis
  then have "rs_outcome y = KnownUsage u" by (cases "rs_outcome y") (auto split: if_splits)
  then show ?thesis using b by blast
qed

text \<open>A reservation whose charge has a total larger than its parts fails the check of every grant.\<close>

lemma unbalanced_blocks:
  assumes "(i, res) \<in> set (xs_reservations s)" and "bt_wf (xs_reservations s)"
    and "fst (charge res) + fst (snd (charge res)) < snd (snd (charge res))"
  shows "scope_reserve s q now \<noteq> Ok (NewlyGranted, s') \<and> allowance s now \<noteq> Ok a"
proof (intro conjI notI)
  assume g: "scope_reserve s q now = Ok (NewlyGranted, s')"
  then have "map_of (xs_reservations s') i = Some res"
    using assms(1,2) by (auto simp: reserve_granted map_of_with_reservation bt_wf_distinct)
  then have "(i, res) \<in> set (xs_reservations s')" by (rule map_of_SomeD)
  then show False using balanced [of s' now i res] g assms(3) by (auto simp: reserve_granted)
next
  assume "allowance s now = Ok a"
  then have "check_allowance s now = Ok ()" by (auto simp: allowance_def split: if_splits)
  then show False using balanced [OF _ assms(1)] assms(3) by fastforce
qed

text \<open>\<^bold>\<open>C22.\<close> 
  Evidence is never erased: a reservation stays, with its request; every figure that was observed of it,
  or that an accepted settlement of it reports, is observed from then on and only grows, a retired operation stays retired and a known usage stays as it is. What is charged is, for
  input, output and total tokens, at least the sum of all that was observed of the reservations.
\<close>

theorem evidence_never_erased:
  assumes "scope_step\<^sup>*\<^sup>* s s'" and "map_of (xs_reservations s) i = Some a"
  shows "(\<exists>b. map_of (xs_reservations s') i = Some b \<and> evidence_le a b \<and>
      (\<forall>x u. scope_settle s0 x = Ok s \<and> rs_reservation_id x = i \<and>
          (rs_observed_usage x = Some u \<or> rs_outcome x = KnownUsage u \<or> rs_outcome x = UnknownUsage (Some u)) \<or>
          er_observed_usage a = Some u \<longrightarrow>
        (\<exists>w. er_observed_usage b = Some w \<and> usage_le u w))) \<and>
    (\<forall>c. consumption s' = Ok c \<longrightarrow>
      (\<Sum>(_, res)\<leftarrow>xs_reservations s'. fst (observed_part res)) \<le> unat (cs_charged_input_tokens c) \<and>
      (\<Sum>(_, res)\<leftarrow>xs_reservations s'. fst (snd (observed_part res))) \<le> unat (cs_charged_output_tokens c) \<and>
      (\<Sum>(_, res)\<leftarrow>xs_reservations s'. snd (snd (observed_part res))) \<le> unat (cs_charged_total_tokens c))"
proof
  obtain b where b: "map_of (xs_reservations s') i = Some b" "evidence_le a b"
    using steps_evidence [OF assms] by blast
  then have "\<exists>w. er_observed_usage b = Some w \<and> usage_le u w" if "seen_le (Some u) (er_observed_usage a)" for u
    using that seen_le_usage seen_le_trans by (metis evidence_le_def)
  then show "\<exists>b. map_of (xs_reservations s') i = Some b \<and> evidence_le a b \<and>
      (\<forall>x u. scope_settle s0 x = Ok s \<and> rs_reservation_id x = i \<and>
          (rs_observed_usage x = Some u \<or> rs_outcome x = KnownUsage u \<or> rs_outcome x = UnknownUsage (Some u)) \<or>
          er_observed_usage a = Some u \<longrightarrow>
        (\<exists>w. er_observed_usage b = Some w \<and> usage_le u w))"
    using b assms(2) settled_reports by (metis seen_le_refl)
qed (use observed_consumed in \<open>simp add: comp_def case_prod_beta'\<close>)

text \<open>\<^bold>\<open>C40.\<close> 
  A settlement of a reservation of which nothing was observed before, with a known usage whose total is
  larger than its input and output together, blocks the scope for as long as no other usage is reported
  for that reservation: no allowance is given and no new reservation granted, however much of the budget
  is left.
\<close>

theorem total_mismatch_blocks:
  assumes "ExecutionScope_new i root l t = Ok s0" and "scope_step\<^sup>*\<^sup>* s0 s" and "scope_settle s x = Ok s'"
    and "map_of (xs_reservations s) (rs_reservation_id x) = Some res" and "er_observed_usage res = None"
    and "rs_outcome x = KnownUsage u" and "rs_observed_usage x = None"
    and "max (unat (tu_prompt_tokens u)) (unat (tu_cached_prompt_tokens u)) +
      max (unat (tu_completion_tokens u)) (unat (tu_reasoning_tokens u)) < unat (tu_total_tokens u)"
    and "scope_step\<^sup>*\<^sup>* s' s''" and "map_of (xs_reservations s'') (rs_reservation_id x) = Some later"
    and "er_observed_usage later = Some u"
  shows "scope_reserve s'' q now \<noteq> Ok (NewlyGranted, s3) \<and> allowance s'' now \<noteq> Ok a"
proof -
  have ok: "scope_ok s" "scope_ok s''"
    using reachable_scope_ok [OF assms(1)] assms(2,3,9) step_settle
    by (blast, metis rtranclp.rtrancl_into_rtrancl rtranclp_trans)
  obtain b where b: "map_of (xs_reservations s') (rs_reservation_id x) = Some b"
    "\<exists>y. er_settlement b = Some y \<and> rs_outcome y = KnownUsage u"
    using known_settlement [OF assms(3,6)] by blast
  then have "\<exists>y. er_settlement later = Some y \<and> rs_outcome y = KnownUsage u"
    using steps_evidence [OF assms(9) b(1)] assms(10) by (auto simp: evidence_le_def dest: outcome_le_known)
  then have "charge later = nat_tokens u"
    using assms(11) by (auto simp: charge_def base_charge_def join_tokens_def nat_tokens_def Let_def)
  then have "fst (charge later) + fst (snd (charge later)) < snd (snd (charge later))"
    using assms(8) by (simp add: nat_tokens_def Let_def)
  then show ?thesis using unbalanced_blocks [OF map_of_SomeD [OF assms(10)]] ok(2) by (simp add: scope_ok_def)
qed

section \<open>An example\<close>

definition example_scope :: ExecutionScope where
  "example_scope = \<lparr>xs_id = ''s'', xs_root_run_id = ''r'', xs_limits = ExecutionLimits_default, xs_created_at_ms = 0,
     xs_deadline_at_ms = 1800000, xs_reservations = [], xs_version = 0\<rparr>"

definition example_request :: ReservationRequest where
  "example_request = \<lparr>rr_id = ''q'', rr_run_id = ''r'', rr_logical_call_id = ''c'', rr_operation = ModelAttempt,
     rr_input_tokens = 10, rr_output_tokens = 5\<rparr>"

definition example_settlement :: ReservationSettlement where
  "example_settlement = \<lparr>rs_reservation_id = ''q'', rs_outcome = KnownUsage \<lparr>tu_prompt_tokens = 4, tu_completion_tokens = 2,
     tu_total_tokens = 9, tu_cached_prompt_tokens = 0, tu_reasoning_tokens = 0\<rparr>, rs_physical_retired = True, rs_observed_usage = None\<rparr>"

definition example_granted :: ExecutionScope where
  "example_granted = with_reservation example_scope example_request"

lemma example_limit_ids: "limit_id ''s'' = Ok ()" "limit_id ''r'' = Ok ()" "limit_id ''q'' = Ok ()" "limit_id ''c'' = Ok ()"
  by code_simp+

lemma default_limits_valid: "ExecutionLimits_validate ExecutionLimits_default = Ok ()"
  by (simp add: ExecutionLimits_validate_def ExecutionLimits_default_def Budget_validate_def Budget_default_def checked_add_def
      MAX_EXECUTION_RESERVATIONS_def)

lemma example_scope_new: "ExecutionScope_new ''s'' ''r'' ExecutionLimits_default 0 = Ok example_scope"
proof -
  have "max_wall_time_ms (el_budget ExecutionLimits_default) = Some 1800000" by (simp add: ExecutionLimits_default_def)
  then show ?thesis
    using default_limits_valid example_limit_ids
    by (simp add: ExecutionScope_new_def ExecutionScope_validate_def example_scope_def checked_add_def MAX_EXECUTION_RESERVATIONS_def Let_def)
qed

lemma example_granted_valid: "ExecutionScope_validate example_granted = Ok ()"
proof -
  have "max_wall_time_ms (el_budget ExecutionLimits_default) = Some 1800000" by (simp add: ExecutionLimits_default_def)
  moreover have "ReservationRequest_validate example_request = Ok ()"
    using example_limit_ids by (simp add: ReservationRequest_validate_def example_request_def checked_add_def)
  ultimately show ?thesis
    using default_limits_valid example_limit_ids
    by (simp add: ExecutionScope_validate_def example_scope_def checked_add_def MAX_EXECUTION_RESERVATIONS_def example_granted_def
        with_reservation_def reservation_check_def)
qed

lemma example_allowed: "check_allowance example_granted 5 = Ok ()"
proof -
  have "consumption example_granted = Ok (ExecutionConsumption_default\<lparr>cs_charged_input_tokens := 10, cs_charged_output_tokens := 5,
      cs_charged_total_tokens := 15, cs_model_attempts := 1, cs_logical_model_calls := 1, cs_retries := 0, cs_inflight_operations := 1\<rparr>)"
    unfolding consumption_def example_granted_valid
    by (simp add: example_granted_def with_reservation_def example_scope_def example_request_def charge_reservation_def count_operation_def
        outcome_tokens_def observed_tokens_def add_known_def add_limit_def checked_add_def ExecutionConsumption_default_def Let_def)
  then show ?thesis
    unfolding check_allowance_def
    by (simp add: example_granted_def with_reservation_def example_scope_def ExecutionLimits_default_def ExecutionConsumption_default_def
        Budget_evaluate_def Budget_validate_def Usage_validate_def Usage_default_def Budget_default_def budget_pairs_def over_limit_def
        saturating_sub_def checked_add_def)
qed

lemma example_reserved: "scope_reserve example_scope example_request 5 = Ok (NewlyGranted, example_granted)"
proof -
  have "ExecutionScope_validate example_scope = Ok ()" using new_scope_ok [OF example_scope_new] by (simp add: scope_ok_def)
  moreover have "ReservationRequest_validate example_request = Ok ()"
    using example_limit_ids by (simp add: ReservationRequest_validate_def example_request_def checked_add_def)
  ultimately show ?thesis
    using example_allowed unfolding reserve_granted
    by (simp add: example_granted_def) (simp add: example_scope_def checked_add_def)
qed

definition example_settled :: ExecutionScope where
  "example_settled = example_granted\<lparr>xs_version := 2, xs_reservations := [(''q'', \<lparr>er_request = example_request,
     er_settlement = Some (example_settlement\<lparr>rs_observed_usage := outcome_usage (rs_outcome example_settlement)\<rparr>),
     er_observed_usage = outcome_usage (rs_outcome example_settlement)\<rparr>)]\<rparr>"

lemma example_settle: "scope_settle example_granted example_settlement = Ok example_settled"
proof -
  have r: "xs_reservations example_granted = [(''q'', \<lparr>er_request = example_request, er_settlement = None, er_observed_usage = None\<rparr>)]"
    "xs_version example_granted = 1" "rs_reservation_id example_settlement = ''q''" "rs_observed_usage example_settlement = None"
    by (simp_all add: example_granted_def with_reservation_def example_scope_def example_request_def example_settlement_def)
  have "reservation_check e = Ok ()" if "e \<in> set (xs_reservations example_settled)" for e
    using that example_limit_ids
    by (simp add: example_settled_def reservation_check_def ReservationRequest_validate_def example_request_def checked_add_def
        example_settlement_def)
  moreover have "ExecutionScope_validate (example_granted\<lparr>xs_version := v, xs_reservations := m\<rparr>) =
      (if length m > MAX_EXECUTION_RESERVATIONS then Err LeScope else try_all reservation_check m)" for m v
    using example_granted_valid by (auto simp: ExecutionScope_validate_def split: if_splits)
  ultimately have "ExecutionScope_validate example_settled = Ok ()"
    by (simp add: example_settled_def MAX_EXECUTION_RESERVATIONS_def)
  then show ?thesis
    using example_granted_valid r by (simp add: scope_settle_def Let_def checked_add_def example_settled_def)
qed

theorem grant_within_limits_witness: "within_limits example_granted \<and> (5 :: u64) < xs_deadline_at_ms example_granted"
  using grant_within_limits [OF example_reserved] by simp

theorem reservation_granted_once_witness: "scope_reserve example_settled example_request 7 = Ok (AlreadyRecorded, example_settled)"
  using reservation_granted_once [OF example_scope_new _ example_reserved, of example_settled 7] example_settle
  by (simp add: r_into_rtranclp step_settle)

lemma example_granted_steps: "scope_step\<^sup>*\<^sup>* example_scope example_granted"
  using example_reserved by (intro r_into_rtranclp step_reserve)

theorem settlement_retry_safe_witness: "scope_settle example_settled example_settlement = Ok example_settled"
  using settlement_retry_safe [OF example_scope_new example_granted_steps example_settle] by simp

lemma settlement_steps: "scope_step\<^sup>*\<^sup>* example_granted example_settled" "scope_step\<^sup>*\<^sup>* example_settled example_settled"
  using example_settle by (auto intro: r_into_rtranclp step_settle)

lemma example_first: "map_of (xs_reservations example_granted) ''q'' =
    Some \<lparr>er_request = example_request, er_settlement = None, er_observed_usage = None\<rparr>"
  by (simp add: example_granted_def map_of_with_reservation example_request_def)

definition example_usage :: TokenUsage where
  "example_usage = \<lparr>tu_prompt_tokens = 4, tu_completion_tokens = 2, tu_total_tokens = 9, tu_cached_prompt_tokens = 0,
     tu_reasoning_tokens = 0\<rparr>"

definition example_reservation :: ExecutionReservation where
  "example_reservation = \<lparr>er_request = example_request,
     er_settlement = Some (example_settlement\<lparr>rs_observed_usage := Some example_usage\<rparr>), er_observed_usage = Some example_usage\<rparr>"

lemma example_last: "xs_reservations example_settled = [(''q'', example_reservation)]"
  "rs_outcome example_settlement = KnownUsage example_usage"
  by (simp_all add: example_settled_def example_reservation_def outcome_usage_def example_settlement_def example_usage_def)

lemma example_consumed:
  "\<exists>c. consumption example_settled = Ok c \<and> cs_charged_total_tokens c = 9"
proof -
  have "ExecutionScope_validate example_settled = Ok ()"
    using reachable_scope_ok [OF example_scope_new rtranclp_trans [OF example_granted_steps settlement_steps(1)]]
    by (simp add: scope_ok_def)
  then show ?thesis
    unfolding consumption_def
    by (simp add: example_last example_reservation_def example_usage_def example_settlement_def example_request_def
        charge_reservation_def count_operation_def outcome_tokens_def observed_tokens_def normalized_tokens_def add_known_def
        add_limit_def checked_add_def ExecutionConsumption_default_def Usage_default_def Let_def)
qed

theorem evidence_never_erased_witness:
  "\<exists>b c. map_of (xs_reservations example_settled) ''q'' = Some b \<and> er_observed_usage b = Some example_usage \<and>
    consumption example_settled = Ok c \<and> snd (snd (observed_part b)) = 9 \<and> 9 \<le> unat (cs_charged_total_tokens c)"
proof -
  obtain c where c: "consumption example_settled = Ok c" using example_consumed by blast
  have "snd (snd (observed_part example_reservation)) = 9" "er_observed_usage example_reservation = Some example_usage"
    by (simp_all add: observed_part_def example_reservation_def example_usage_def nat_tokens_def)
  then show ?thesis
    using c evidence_never_erased [OF settlement_steps(2), of "''q''" example_reservation] by (simp add: example_last)
qed

theorem total_mismatch_blocks_witness:
  "\<forall>q s' a. scope_reserve example_settled q 6 \<noteq> Ok (NewlyGranted, s') \<and> allowance example_settled 6 \<noteq> Ok a"
proof -
  have "rs_observed_usage example_settlement = None" "rs_reservation_id example_settlement = ''q''"
    by (simp_all add: example_settlement_def)
  then show ?thesis
    using total_mismatch_blocks [OF example_scope_new example_granted_steps example_settle _ _ example_last(2) _ _ settlement_steps(2),
        of _ example_reservation] example_first
    by (simp add: example_last(1)) (simp add: example_reservation_def example_usage_def)
qed

end
