(* ===== verification/Completion.thy ===== *)
theory Completion
  imports Text
begin

text \<open>
  The completion review, \<open>anima-core/src/completion.rs\<close>: what a run has edited, read back and checked,
  and the one reminder it gets before its final answer. Every operation holds the lock, so it is a
  function on the state. The reminder is the list of its gaps; the sentence around them is left out.
\<close>

section \<open>Data\<close>

datatype CompletionFile = CompletionFile (cf_workspace: string) (cf_path: string)

text \<open>The derived order: by workspace, then by path.\<close>

instantiation CompletionFile :: linorder
begin

definition less_eq_CompletionFile :: "CompletionFile \<Rightarrow> CompletionFile \<Rightarrow> bool" where
  "less_eq_CompletionFile a b \<longleftrightarrow> (cf_workspace a, cf_path a) \<le> (cf_workspace b, cf_path b)"

definition less_CompletionFile :: "CompletionFile \<Rightarrow> CompletionFile \<Rightarrow> bool" where
  "less_CompletionFile a b \<longleftrightarrow> (cf_workspace a, cf_path a) < (cf_workspace b, cf_path b)"

instance
  by standard (auto simp: less_eq_CompletionFile_def less_CompletionFile_def CompletionFile.expand)

end

datatype CompletionObservation =
    Edited (ob_path: string) (ob_requires_check: bool)
  | ReadBack (ob_path: string)
  | CommandFinished (ob_passed: bool)
  | VerificationFinished (ob_passed: bool)
  | TasksSaved (ob_unfinished: nat)

datatype CompletionCheckOutcome = CheckPassed | CheckFailed | CheckUnknown

record CompletionAttempt =
  ca_id :: u64
  ca_contract :: string
  ca_versions :: "(CompletionFile \<times> u64 \<times> string option) list"

record FileState =
  fl_revision :: u64
  fl_digest :: "string option"
  fl_unread :: bool
  fl_requires_check :: bool
  fl_required_contracts :: "string set"

record CheckState =
  ck_attempt :: CompletionAttempt
  ck_outcome :: CompletionCheckOutcome
  ck_settled :: bool

record ReviewState =
  rs_files :: "(CompletionFile \<times> FileState) list"
  rs_checks :: "(string \<times> CheckState) list"
  rs_overflow :: bool
  rs_ordinary_failure :: bool
  rs_unfinished :: nat
  rs_prompted :: bool
  rs_revision :: u64
  rs_next_attempt :: u64

definition ReviewState_default :: ReviewState where
  "ReviewState_default = \<lparr>rs_files = [], rs_checks = [], rs_overflow = False, rs_ordinary_failure = False,
     rs_unfinished = 0, rs_prompted = False, rs_revision = 0, rs_next_attempt = 0\<rparr>"

text \<open>The clauses of the reminder, in its order.\<close>

datatype Gap = GapUnread | GapUnchecked "string list" | GapOrdinaryFailure | GapOverflow | GapUnfinished nat

section \<open>Edits and reads\<close>

definition completion_valid_id :: "string \<Rightarrow> bool" where
  "completion_valid_id s \<longleftrightarrow> s \<noteq> [] \<and> length s \<le> 128 \<and> \<not> any_control s"

definition bounded_digest :: "string option \<Rightarrow> string option" where
  "bounded_digest d =
     (case d of
        None \<Rightarrow> None
      | Some v \<Rightarrow> if v \<noteq> [] \<and> length v \<le> 128 \<and> \<not> any_control v then Some v else None)"

definition edit_refused :: "ReviewState \<Rightarrow> CompletionFile \<Rightarrow> string list \<Rightarrow> bool" where
  "edit_refused s file contracts \<longleftrightarrow>
     cf_path file = []
     \<or> length (cf_path file) > 4096
     \<or> length (cf_workspace file) > 4096
     \<or> any_control (cf_path file)
     \<or> any_control (cf_workspace file)
     \<or> (length (rs_files s) \<ge> 64 \<and> map_of (rs_files s) file = None)
     \<or> length contracts > 32
     \<or> list_ex (\<lambda>c. \<not> completion_valid_id c) contracts"

definition record_edit ::
  "CompletionFile \<Rightarrow> string option \<Rightarrow> bool \<Rightarrow> string list \<Rightarrow> ReviewState \<Rightarrow> ReviewState" where
  "record_edit file digest requires_check contracts s =
     (if edit_refused s file contracts then s\<lparr>rs_overflow := True\<rparr>
      else
        let revision = saturating_add (rs_revision s) 1 in
        s\<lparr>rs_revision := revision,
          rs_files := bt_insert file
            \<lparr>fl_revision = revision, fl_digest = bounded_digest digest, fl_unread = True,
             fl_requires_check = requires_check, fl_required_contracts = set contracts\<rparr> (rs_files s)\<rparr>)"

text \<open>\<open>get_mut\<close> and a change of the entry found.\<close>

definition at_entry :: "'k::linorder \<Rightarrow> ('v \<Rightarrow> 'v) \<Rightarrow> ('k \<times> 'v) list \<Rightarrow> ('k \<times> 'v) list" where
  "at_entry k f t = (case map_of t k of None \<Rightarrow> t | Some v \<Rightarrow> bt_insert k (f v) t)"

definition refresh_file :: "CompletionFile \<Rightarrow> string option \<Rightarrow> ReviewState \<Rightarrow> ReviewState" where
  "refresh_file file d s =
     (let digest = bounded_digest d in
      case map_of (rs_files s) file of
        None \<Rightarrow> s
      | Some current \<Rightarrow>
          if fl_digest current \<noteq> digest then
            let revision = saturating_add (rs_revision s) 1 in
            s\<lparr>rs_revision := revision,
              rs_files := at_entry file
                (\<lambda>c. c\<lparr>fl_digest := digest, fl_revision := revision, fl_unread := True\<rparr>) (rs_files s)\<rparr>
          else s)"

definition read_back :: "u64 \<Rightarrow> CompletionFile \<Rightarrow> string option \<Rightarrow> ReviewState \<Rightarrow> ReviewState" where
  "read_back cp file digest s =
     (if cp \<noteq> rs_revision s \<or> digest = None then s
      else s\<lparr>rs_files := at_entry file
        (\<lambda>c. if fl_digest c = digest then c\<lparr>fl_unread := False\<rparr> else c) (rs_files s)\<rparr>)"

definition note_gap :: "ReviewState \<Rightarrow> ReviewState" where
  "note_gap s = s\<lparr>rs_overflow := True\<rparr>"

definition review_checkpoint :: "ReviewState \<Rightarrow> u64" where
  "review_checkpoint s = rs_revision s"

definition tracked_files :: "ReviewState \<Rightarrow> CompletionFile list" where
  "tracked_files s = map fst (rs_files s)"

definition observe_after :: "u64 \<Rightarrow> CompletionObservation \<Rightarrow> ReviewState \<Rightarrow> ReviewState" where
  "observe_after cp ob s =
     (if (is_ReadBack ob \<or> is_CommandFinished ob \<or> is_VerificationFinished ob) \<and> cp \<noteq> rs_revision s then s
      else
        case ob of
          Edited path requires_check \<Rightarrow>
            record_edit (CompletionFile [] path)
              (Some (''observed-edit-'' @ show_nat (unat (saturating_add (rs_revision s) 1))))
              requires_check [] s
        | ReadBack path \<Rightarrow>
            s\<lparr>rs_files := at_entry (CompletionFile [] path) (\<lambda>c. c\<lparr>fl_unread := False\<rparr>) (rs_files s)\<rparr>
        | CommandFinished passed \<Rightarrow>
            if \<not> passed \<and> list_ex (\<lambda>(_, f). fl_requires_check f) (rs_files s)
            then s\<lparr>rs_ordinary_failure := True\<rparr> else s
        | VerificationFinished passed \<Rightarrow>
            if \<not> passed \<and> list_ex (\<lambda>(_, f). fl_requires_check f) (rs_files s)
            then s\<lparr>rs_ordinary_failure := True\<rparr> else s
        | TasksSaved unfinished \<Rightarrow> s\<lparr>rs_unfinished := unfinished\<rparr>)"

definition observe :: "CompletionObservation \<Rightarrow> ReviewState \<Rightarrow> ReviewState" where
  "observe ob s = observe_after (review_checkpoint s) ob s"

section \<open>Checks\<close>

text \<open>The versions of the files among \<open>files\<close> that are tracked.\<close>

definition capture_versions ::
  "ReviewState \<Rightarrow> CompletionFile list \<Rightarrow> (CompletionFile \<times> u64 \<times> string option) list" where
  "capture_versions s files =
     List.map_filter (\<lambda>f. map_option (\<lambda>c. (f, fl_revision c, fl_digest c)) (map_of (rs_files s) f)) files"

definition check_admissible :: "ReviewState \<Rightarrow> string \<Rightarrow> CompletionFile list \<Rightarrow> bool" where
  "check_admissible s contract files \<longleftrightarrow>
     completion_valid_id contract \<and> length files \<le> 64
     \<and> (length (rs_checks s) < 32 \<or> map_of (rs_checks s) contract \<noteq> None)"

definition begin_check ::
  "string \<Rightarrow> CompletionFile list \<Rightarrow> ReviewState \<Rightarrow> CompletionAttempt \<times> ReviewState" where
  "begin_check contract files s =
     (let s1 = s\<lparr>rs_next_attempt := saturating_add (rs_next_attempt s) 1\<rparr>;
          valid = check_admissible s1 contract files;
          s2 = (if valid then s1 else s1\<lparr>rs_overflow := True\<rparr>);
          versions = (if valid then capture_versions s2 files else []);
          attempt = \<lparr>ca_id = rs_next_attempt s2, ca_contract = contract, ca_versions = versions\<rparr> in
      (attempt,
       if valid then
         s2\<lparr>rs_checks := bt_insert contract
              \<lparr>ck_attempt = attempt, ck_outcome = CheckUnknown, ck_settled = False\<rparr> (rs_checks s2)\<rparr>
       else s2))"

definition versions_unchanged :: "ReviewState \<Rightarrow> CompletionAttempt \<Rightarrow> bool" where
  "versions_unchanged s a \<longleftrightarrow>
     ca_versions a \<noteq> []
     \<and> list_all (\<lambda>(file, revision, digest).
          digest \<noteq> None
          \<and> (case map_of (rs_files s) file of
               None \<Rightarrow> False
             | Some current \<Rightarrow> fl_revision current = revision \<and> fl_digest current = digest))
        (ca_versions a)"

definition is_current :: "ReviewState \<Rightarrow> CompletionAttempt \<Rightarrow> bool" where
  "is_current s a \<longleftrightarrow>
     (case map_of (rs_checks s) (ca_contract a) of
        None \<Rightarrow> False
      | Some latest \<Rightarrow> ca_id (ck_attempt latest) = ca_id a \<and> \<not> ck_settled latest)"

definition finish_check :: "CompletionAttempt \<Rightarrow> CompletionCheckOutcome \<Rightarrow> ReviewState \<Rightarrow> ReviewState" where
  "finish_check a reported s =
     (if \<not> is_current s a then s
      else
        let unchanged = versions_unchanged s a;
            outcome = (if reported = CheckPassed \<and> \<not> unchanged then CheckUnknown else reported) in
        s\<lparr>rs_checks := at_entry (ca_contract a)
            (\<lambda>latest. latest\<lparr>ck_outcome := outcome, ck_settled := True\<rparr>) (rs_checks s)\<rparr>)"

section \<open>The reminder\<close>

definition contract_met :: "ReviewState \<Rightarrow> CompletionFile \<Rightarrow> FileState \<Rightarrow> string \<Rightarrow> bool" where
  "contract_met s path file contract \<longleftrightarrow>
     (case map_of (rs_checks s) contract of
        None \<Rightarrow> False
      | Some check \<Rightarrow>
          ck_outcome check = CheckPassed
          \<and> list_ex (\<lambda>(covered, revision, digest).
               covered = path \<and> revision = fl_revision file \<and> digest = fl_digest file)
             (ca_versions (ck_attempt check)))"

definition is_unchecked :: "ReviewState \<Rightarrow> CompletionFile \<times> FileState \<Rightarrow> bool" where
  "is_unchecked s p \<longleftrightarrow>
     (case p of (path, file) \<Rightarrow>
        fl_requires_check file
        \<and> (fl_digest file = None
           \<or> fl_required_contracts file = {}
           \<or> (\<exists>c \<in> fl_required_contracts file. \<not> contract_met s path file c)))"

text \<open>\<open>chars().take(n)\<close>: the bytes of the first \<open>n\<close> characters.\<close>

fun take_chars :: "nat \<Rightarrow> string \<Rightarrow> string" where
  "take_chars n [] = []"
| "take_chars n (c # s) =
     (if 0x80 \<le> code c \<and> code c < 0xC0 then c # take_chars n s
      else if n = 0 then [] else c # take_chars (n - 1) s)"

definition unchecked_paths :: "ReviewState \<Rightarrow> string list" where
  "unchecked_paths s =
     take 5 (map (\<lambda>(path, _). take_chars 160 (cf_path path)) (filter (is_unchecked s) (rs_files s)))"

definition any_unread :: "ReviewState \<Rightarrow> bool" where
  "any_unread s \<longleftrightarrow> list_ex (\<lambda>(_, f). fl_unread f) (rs_files s)"

definition review_gaps :: "ReviewState \<Rightarrow> Gap list" where
  "review_gaps s =
     (if any_unread s then [GapUnread] else [])
     @ (if unchecked_paths s \<noteq> [] then [GapUnchecked (unchecked_paths s)] else [])
     @ (if rs_ordinary_failure s then [GapOrdinaryFailure] else [])
     @ (if rs_overflow s then [GapOverflow] else [])
     @ (if rs_unfinished s > 0 then [GapUnfinished (rs_unfinished s)] else [])"

definition take_feedback :: "ReviewState \<Rightarrow> Gap list option \<times> ReviewState" where
  "take_feedback s =
     (if rs_prompted s
         \<or> (\<not> any_unread s \<and> \<not> rs_overflow s \<and> unchecked_paths s = []
            \<and> \<not> rs_ordinary_failure s \<and> rs_unfinished s = 0)
      then (None, s)
      else (Some (review_gaps s), s\<lparr>rs_prompted := True\<rparr>))"

text \<open>The evaluator: its verdict is all it sets of the result.\<close>

datatype EvaluatorDecision = EvAccept | EvRetry "Gap list" | EvAbort string

definition review_evaluate :: "ReviewState \<Rightarrow> EvaluatorDecision \<times> ReviewState" where
  "review_evaluate s =
     (case take_feedback s of
        (Some feedback, s') \<Rightarrow> (EvRetry feedback, s')
      | (None, s') \<Rightarrow> (EvAccept, s'))"

end
