(* ===== verification/Completion_Steps.thy ===== *)
theory Completion_Steps
  imports Step_System Completion
begin

text \<open>
  The calls on a completion review as steps on its state and a log of the calls, newest first. A
  checkpoint and an attempt are values that only the review makes, so a call that takes one takes one
  from the log. The invariant ties every piece of evidence in the state to the calls it came from.
\<close>

section \<open>Calls and their log\<close>

datatype ReviewEntry =
    LogCheckpoint u64
  | LogObserve u64 CompletionObservation
  | LogEdit CompletionFile bool "string list"
  | LogRefresh CompletionFile "string option"
  | LogRead u64 CompletionFile "string option"
  | LogGap
  | LogBegin CompletionAttempt "CompletionFile list"
  | LogFinish CompletionAttempt CompletionCheckOutcome
  | LogFeedback "Gap list option"

type_synonym reviewed = "ReviewState \<times> ReviewEntry list"

inductive review_step :: "reviewed \<Rightarrow> reviewed \<Rightarrow> bool" where
  step_checkpoint: "review_step (s, l) (s, LogCheckpoint (review_checkpoint s) # l)"
| step_observe: "LogCheckpoint cp \<in> set l \<Longrightarrow>
    review_step (s, l) (observe_after cp ob s, LogObserve cp ob # l)"
| step_edit: "review_step (s, l) (record_edit f d rc cs s, LogEdit f rc cs # l)"
| step_refresh: "review_step (s, l) (refresh_file f d s, LogRefresh f d # l)"
| step_read: "LogCheckpoint cp \<in> set l \<Longrightarrow> review_step (s, l) (read_back cp f d s, LogRead cp f d # l)"
| step_gap: "review_step (s, l) (note_gap s, LogGap # l)"
| step_begin: "begin_check c fs s = (a, s') \<Longrightarrow> review_step (s, l) (s', LogBegin a fs # l)"
| step_finish: "LogBegin a fs \<in> set l \<Longrightarrow> review_step (s, l) (finish_check a r s, LogFinish a r # l)"
| step_feedback: "take_feedback s = (g, s') \<Longrightarrow> review_step (s, l) (s', LogFeedback g # l)"

text \<open>
  What the log says of a file: whether it is edited and with which requirements, when its bytes change
  with respect to a digest, and which reads of it count.
\<close>

fun edit_of :: "CompletionFile \<Rightarrow> ReviewEntry \<Rightarrow> (bool \<times> string set) option" where
  "edit_of f (LogEdit g rc cs) = (if g = f then Some (rc, set cs) else None)"
| "edit_of f (LogObserve cp (Edited p rc)) = (if CompletionFile [] p = f then Some (rc, {}) else None)"
| "edit_of f e = None"

fun last_edit :: "ReviewEntry list \<Rightarrow> CompletionFile \<Rightarrow> (bool \<times> string set) option" where
  "last_edit [] f = None"
| "last_edit (e # l) f = (case edit_of f e of None \<Rightarrow> last_edit l f | Some x \<Rightarrow> Some x)"

definition touches :: "CompletionFile \<Rightarrow> string option \<Rightarrow> ReviewEntry \<Rightarrow> bool" where
  "touches f dg e \<longleftrightarrow> edit_of f e \<noteq> None
     \<or> (case e of LogRefresh g d \<Rightarrow> g = f \<and> bounded_digest d \<noteq> dg | _ \<Rightarrow> False)"

definition reads :: "CompletionFile \<Rightarrow> string option \<Rightarrow> u64 \<Rightarrow> ReviewEntry \<Rightarrow> bool" where
  "reads f dg cp e \<longleftrightarrow>
     (case e of
        LogRead cp' g d \<Rightarrow> cp' = cp \<and> g = f \<and> d = dg \<and> d \<noteq> None
      | LogObserve cp' (ReadBack p) \<Rightarrow> cp' = cp \<and> f = CompletionFile [] p
      | _ \<Rightarrow> False)"

definition begins :: "string \<Rightarrow> ReviewEntry \<Rightarrow> bool" where
  "begins c e \<longleftrightarrow> (case e of LogBegin a fs \<Rightarrow> ca_contract a = c | _ \<Rightarrow> False)"

text \<open>
  The evidence for a file: a read whose checkpoint was taken after the last change, and a passed check
  that began after the last change, saw no change to any file it covers while it ran, and is the latest
  of its contract.
\<close>

definition untouched_in :: "ReviewEntry list \<Rightarrow> CompletionAttempt \<Rightarrow> bool" where
  "untouched_in l a \<longleftrightarrow> (\<forall>(f, r, dg) \<in> set (ca_versions a). dg \<noteq> None \<and> \<not> list_ex (touches f dg) l)"

definition read_since :: "ReviewEntry list \<Rightarrow> CompletionFile \<Rightarrow> string option \<Rightarrow> bool" where
  "read_since l f dg \<longleftrightarrow>
     (\<exists>newer e between cp older. l = newer @ e # between @ LogCheckpoint cp # older
        \<and> reads f dg cp e \<and> \<not> list_ex (touches f dg) (newer @ between))"

definition verified_since :: "ReviewEntry list \<Rightarrow> CompletionFile \<Rightarrow> string option \<Rightarrow> string \<Rightarrow> bool" where
  "verified_since l f dg c \<longleftrightarrow>
     (\<exists>newer a between fs older. l = newer @ LogFinish a CheckPassed # between @ LogBegin a fs # older
        \<and> ca_contract a = c \<and> f \<in> set fs \<and> untouched_in between a
        \<and> \<not> list_ex (touches f dg) (newer @ between) \<and> \<not> list_ex (begins c) (newer @ between))"

section \<open>The invariant\<close>

definition files_ok :: "reviewed \<Rightarrow> bool" where
  "files_ok x \<longleftrightarrow> (case x of (s, l) \<Rightarrow>
     bt_wf (rs_files s)
     \<and> (\<forall>f. map_option (\<lambda>c. (fl_requires_check c, fl_required_contracts c)) (map_of (rs_files s) f)
            = last_edit l f)
     \<and> (\<forall>f c. map_of (rs_files s) f = Some c \<longrightarrow>
          fl_revision c \<le> rs_revision s \<and> (fl_unread c \<or> read_since l f (fl_digest c))))"

definition checkpoints_ok :: "reviewed \<Rightarrow> bool" where
  "checkpoints_ok x \<longleftrightarrow> (case x of (s, l) \<Rightarrow>
     \<forall>newer r older. l = newer @ LogCheckpoint r # older \<longrightarrow>
       r \<le> rs_revision s
       \<and> (\<forall>f c e. map_of (rs_files s) f = Some c \<longrightarrow> e \<in> set newer \<longrightarrow> touches f (fl_digest c) e
            \<longrightarrow> r < rs_revision s))"

definition attempts_ok :: "reviewed \<Rightarrow> bool" where
  "attempts_ok x \<longleftrightarrow> (case x of (s, l) \<Rightarrow>
     \<forall>a fs. LogBegin a fs \<in> set l \<longrightarrow>
       ca_id a \<le> rs_next_attempt s
       \<and> (\<forall>k. map_of (rs_checks s) (ca_contract a) = Some k \<longrightarrow> ca_id (ck_attempt k) = ca_id a
            \<longrightarrow> ck_attempt k = a))"

definition version_ok ::
  "ReviewState \<Rightarrow> ReviewEntry list \<Rightarrow> CompletionFile \<times> u64 \<times> string option \<Rightarrow> bool" where
  "version_ok s newer v \<longleftrightarrow>
     (case v of (f, r, d) \<Rightarrow>
        \<exists>c. map_of (rs_files s) f = Some c \<and> r \<le> fl_revision c
          \<and> (r = fl_revision c \<longrightarrow> d = fl_digest c \<and> \<not> list_ex (touches f d) newer))"

definition passed_in :: "ReviewEntry list \<Rightarrow> CompletionAttempt \<Rightarrow> bool" where
  "passed_in l a \<longleftrightarrow> (\<exists>n1 n2. l = n1 @ LogFinish a CheckPassed # n2 \<and> untouched_in n2 a)"

definition check_ok :: "reviewed \<Rightarrow> string \<Rightarrow> CheckState \<Rightarrow> bool" where
  "check_ok x c k \<longleftrightarrow> (case x of (s, l) \<Rightarrow>
     \<exists>newer fs older. l = newer @ LogBegin (ck_attempt k) fs # older
       \<and> ca_contract (ck_attempt k) = c
       \<and> \<not> list_ex (begins c) newer
       \<and> (ck_outcome k = CheckPassed \<longrightarrow> passed_in newer (ck_attempt k))
       \<and> (\<forall>v \<in> set (ca_versions (ck_attempt k)). fst v \<in> set fs \<and> version_ok s newer v))"

definition checks_ok :: "reviewed \<Rightarrow> bool" where
  "checks_ok x \<longleftrightarrow> (\<forall>c k. map_of (rs_checks (fst x)) c = Some k \<longrightarrow> check_ok x c k)"

definition review_inv :: "reviewed \<Rightarrow> bool" where
  "review_inv x \<longleftrightarrow> files_ok x \<and> checkpoints_ok x \<and> attempts_ok x \<and> checks_ok x"

text \<open>
  A review that has lost evidence: a gap was noted, which it reports, or one of its counters has
  reached \<open>u64::MAX\<close>. No call undoes that.
\<close>

definition degraded :: "ReviewState \<Rightarrow> bool" where
  "degraded s \<longleftrightarrow> rs_overflow s \<or> rs_revision s = - 1 \<or> rs_next_attempt s = - 1"

definition review_good :: "reviewed \<Rightarrow> bool" where
  "review_good x \<longleftrightarrow> degraded (fst x) \<or> review_inv x"

lemmas operation_defs = observe_after_def record_edit_def refresh_file_def read_back_def note_gap_def
  begin_check_def finish_check_def take_feedback_def Let_def

section \<open>Counters\<close>

lemma saturating_add_max [simp]: "saturating_add (- 1) 1 = (- 1 :: u64)"
  by (simp add: saturating_add_def unsigned_minus_1_eq_mask mask_eq_exp_minus_1)

lemma saturating_add_less: "r \<noteq> - 1 \<Longrightarrow> r < saturating_add r 1" for r :: u64
proof -
  assume r: "r \<noteq> - 1"
  have "unat (- 1 :: u64) = 2 ^ 64 - 1" by (simp add: unsigned_minus_1_eq_mask mask_eq_exp_minus_1)
  then have "unat r \<noteq> 2 ^ 64 - 1" using r by (metis word_unat_eq_iff)
  moreover have "unat r < 2 ^ 64" using unsigned_less [of r] by simp
  ultimately have "unat r < unat (saturating_add r 1)" unfolding unat_saturating_add by simp
  then show ?thesis by (simp add: word_less_nat_alt)
qed

lemma map_of_at_entry [simp]:
  "map_of (at_entry k f t) = (\<lambda>x. if x = k then map_option f (map_of t k) else map_of t x)"
  by (auto simp: at_entry_def fun_eq_iff split: option.split)

lemma bt_wf_at_entry [simp]: "bt_wf t \<Longrightarrow> bt_wf (at_entry k f t)"
  by (simp add: at_entry_def split: option.split)

lemma degraded_stays: "review_step x y \<Longrightarrow> degraded (fst x) \<Longrightarrow> degraded (fst y)"
  by (induction rule: review_step.induct)
    (auto simp: operation_defs degraded_def split: if_splits option.splits CompletionObservation.splits)

section \<open>How a call moves the files\<close>

text \<open>
  A tracked file stays tracked; its revision grows, or revision and digest stay and the call does not
  touch it. Where the review's revision stays, no digest changes and no call touches a file.
\<close>

definition advance :: "ReviewState \<Rightarrow> ReviewEntry \<Rightarrow> ReviewState \<Rightarrow> bool" where
  "advance s e s' \<longleftrightarrow>
     rs_revision s \<le> rs_revision s'
     \<and> (\<forall>f c. map_of (rs_files s) f = Some c \<longrightarrow>
          (\<exists>c'. map_of (rs_files s') f = Some c'
             \<and> (fl_revision c < fl_revision c'
                \<or> fl_revision c' = fl_revision c \<and> fl_digest c' = fl_digest c
                  \<and> \<not> touches f (fl_digest c) e)))
     \<and> (rs_revision s = rs_revision s' \<longrightarrow>
          (\<forall>f c'. map_of (rs_files s') f = Some c' \<longrightarrow>
             \<not> touches f (fl_digest c') e
             \<and> (\<exists>c. map_of (rs_files s) f = Some c \<and> fl_digest c = fl_digest c')))"

lemma version_ok_advance:
  assumes "advance s e s'" and "version_ok s newer v"
  shows "version_ok s' (e # newer) v"
proof -
  obtain f r d where v: "v = (f, r, d)" by (cases v)
  from assms(2) v obtain c where c: "map_of (rs_files s) f = Some c" "r \<le> fl_revision c"
    "r = fl_revision c \<longrightarrow> d = fl_digest c \<and> \<not> list_ex (touches f d) newer"
    by (auto simp: version_ok_def)
  from assms(1) c(1) obtain c' where c': "map_of (rs_files s') f = Some c'"
    "fl_revision c < fl_revision c' \<or> fl_revision c' = fl_revision c \<and> fl_digest c' = fl_digest c
       \<and> \<not> touches f (fl_digest c) e"
    unfolding advance_def by blast
  then show ?thesis using c(2,3) by (auto simp: version_ok_def v)
qed

lemma passed_in_push: "passed_in l a \<Longrightarrow> passed_in (e # l) a"
  unfolding passed_in_def by (metis append_Cons)

lemma check_ok_advance:
  assumes "advance s e s'" and "check_ok (s, l) c k" and "\<not> begins c e"
  shows "check_ok (s', e # l) c k"
proof -
  from assms(2) obtain newer fs older where k: "l = newer @ LogBegin (ck_attempt k) fs # older"
    "ca_contract (ck_attempt k) = c" "\<not> list_ex (begins c) newer"
    "ck_outcome k = CheckPassed \<longrightarrow> passed_in newer (ck_attempt k)"
    "\<forall>v \<in> set (ca_versions (ck_attempt k)). fst v \<in> set fs \<and> version_ok s newer v"
    by (auto simp: check_ok_def)
  with assms(3) show ?thesis
    unfolding check_ok_def prod.case
    by (intro exI [of _ "e # newer"] exI [of _ fs] exI [of _ older])
      (auto intro: version_ok_advance [OF assms(1)] passed_in_push)
qed

lemma checkpoints_okD:
  "checkpoints_ok (s, newer @ LogCheckpoint r # older) \<Longrightarrow> r \<le> rs_revision s
   \<and> (\<forall>f c e. map_of (rs_files s) f = Some c \<longrightarrow> e \<in> set newer \<longrightarrow> touches f (fl_digest c) e \<longrightarrow> r < rs_revision s)"
  unfolding checkpoints_ok_def by blast

lemma checkpoints_ok_advance:
  assumes "advance s e s'" and "checkpoints_ok (s, l)"
    and "\<And>r. e = LogCheckpoint r \<Longrightarrow> r = rs_revision s'"
  shows "checkpoints_ok (s', e # l)"
  unfolding checkpoints_ok_def prod.case
proof (intro allI impI)
  fix newer r older assume l: "e # l = newer @ LogCheckpoint r # older"
  show "r \<le> rs_revision s' \<and> (\<forall>f c e. map_of (rs_files s') f = Some c \<longrightarrow> e \<in> set newer
    \<longrightarrow> touches f (fl_digest c) e \<longrightarrow> r < rs_revision s')"
  proof (cases newer)
    case Nil
    then show ?thesis using l assms(3) by simp
  next
    case (Cons e' n)
    then have "checkpoints_ok (s, n @ LogCheckpoint r # older)" using l assms(2) by simp
    then have old: "r \<le> rs_revision s" "\<forall>f c e. map_of (rs_files s) f = Some c \<longrightarrow> e \<in> set n
        \<longrightarrow> touches f (fl_digest c) e \<longrightarrow> r < rs_revision s"
      by (blast dest: checkpoints_okD)+
    show ?thesis
    proof (cases "rs_revision s = rs_revision s'")
      case True
      then show ?thesis using assms(1) old l Cons unfolding advance_def by (metis append_Cons list.inject set_ConsD)
    next
      case False
      then have "rs_revision s < rs_revision s'" using assms(1) by (simp add: advance_def less_le)
      then show ?thesis using old(1) by auto
    qed
  qed
qed

lemma read_since_push: "read_since l f dg \<Longrightarrow> \<not> touches f dg e \<Longrightarrow> read_since (e # l) f dg"
  unfolding read_since_def by (metis append_Cons list_ex_iff set_ConsD)

lemma read_since_now:
  assumes "checkpoints_ok (s, l)" and "LogCheckpoint (rs_revision s) \<in> set l"
    and "map_of (rs_files s) f = Some c" and "reads f (fl_digest c) (rs_revision s) e"
  shows "read_since (e # l) f (fl_digest c)"
proof -
  from split_list [OF assms(2)] obtain between older
    where l: "l = between @ LogCheckpoint (rs_revision s) # older" by blast
  then have "\<not> list_ex (touches f (fl_digest c)) between"
    using checkpoints_okD assms(1,3) by (fastforce simp: list_ex_iff)
  moreover have "e # l = [] @ e # between @ LogCheckpoint (rs_revision s) # older" using l by simp
  ultimately show ?thesis unfolding read_since_def using assms(4) by (metis append_Nil)
qed

section \<open>Each call\<close>

lemma touches_edit_of: "edit_of f e \<noteq> None \<Longrightarrow> touches f dg e"
  by (simp add: touches_def)

lemma files_ok_files:
  "files_ok (s, l) \<Longrightarrow> map_of (rs_files s) f = Some c \<Longrightarrow>
     fl_revision c \<le> rs_revision s \<and> (fl_unread c \<or> read_since l f (fl_digest c))"
  by (simp add: files_ok_def)

lemma files_ok_last_edit:
  "files_ok (s, l) \<Longrightarrow>
     last_edit l f = map_option (\<lambda>c. (fl_requires_check c, fl_required_contracts c)) (map_of (rs_files s) f)"
  by (simp add: files_ok_def)

text \<open>A call that neither touches a file nor changes more than whether files are read.\<close>

definition only_reads :: "ReviewState \<Rightarrow> ReviewEntry list \<Rightarrow> ReviewEntry \<Rightarrow> ReviewState \<Rightarrow> bool" where
  "only_reads s l e s' \<longleftrightarrow>
     (\<exists>R. rs_revision s' = rs_revision s
        \<and> bt_wf (rs_files s')
        \<and> map_of (rs_files s') = (\<lambda>f. map_option (\<lambda>c. if R f then c\<lparr>fl_unread := False\<rparr> else c) (map_of (rs_files s) f))
        \<and> (\<forall>f. edit_of f e = None)
        \<and> (\<forall>f c. map_of (rs_files s) f = Some c \<longrightarrow>
             \<not> touches f (fl_digest c) e \<and> (R f \<longrightarrow> read_since (e # l) f (fl_digest c))))"

lemma only_reads_advance:
  assumes "only_reads s l e s'"
  shows "advance s e s'"
proof -
  from assms obtain R where R: "rs_revision s' = rs_revision s"
    "map_of (rs_files s') = (\<lambda>f. map_option (\<lambda>c. if R f then c\<lparr>fl_unread := False\<rparr> else c) (map_of (rs_files s) f))"
    "\<forall>f c. map_of (rs_files s) f = Some c \<longrightarrow> \<not> touches f (fl_digest c) e"
    by (auto simp: only_reads_def)
  show ?thesis unfolding advance_def R(1,2) using R(3) by auto
qed

lemma only_reads_files_ok:
  assumes "only_reads s l e s'" and "files_ok (s, l)"
  shows "files_ok (s', e # l)"
proof -
  from assms(1) obtain R where R: "rs_revision s' = rs_revision s" "bt_wf (rs_files s')"
    "map_of (rs_files s') = (\<lambda>f. map_option (\<lambda>c. if R f then c\<lparr>fl_unread := False\<rparr> else c) (map_of (rs_files s) f))"
    "\<forall>f. edit_of f e = None"
    "\<forall>f c. map_of (rs_files s) f = Some c \<longrightarrow>
       \<not> touches f (fl_digest c) e \<and> (R f \<longrightarrow> read_since (e # l) f (fl_digest c))"
    by (auto simp: only_reads_def)
  have "fl_revision c' \<le> rs_revision s' \<and> (fl_unread c' \<or> read_since (e # l) f (fl_digest c'))"
    if "map_of (rs_files s') f = Some c'" for f c'
  proof -
    from that R(3) obtain c where c: "map_of (rs_files s) f = Some c"
      "c' = (if R f then c\<lparr>fl_unread := False\<rparr> else c)" by auto
    then show ?thesis
      using files_ok_files [OF assms(2) c(1)] R(1,5) read_since_push [of l f "fl_digest c" e] by auto
  qed
  moreover have "map_option (\<lambda>c. (fl_requires_check c, fl_required_contracts c)) (map_of (rs_files s') f)
      = last_edit (e # l) f" for f
    using R(3,4) files_ok_last_edit [OF assms(2), of f] by (cases "map_of (rs_files s) f") auto
  ultimately show ?thesis using R(2) by (simp add: files_ok_def)
qed

text \<open>A call that gives one file a new revision and leaves it unread.\<close>

definition changes_file :: "ReviewState \<Rightarrow> ReviewEntry list \<Rightarrow> ReviewEntry \<Rightarrow> ReviewState \<Rightarrow> bool" where
  "changes_file s l e s' \<longleftrightarrow>
     (\<exists>f c. rs_revision s < rs_revision s'
        \<and> rs_files s' = bt_insert f c (rs_files s)
        \<and> fl_revision c = rs_revision s' \<and> fl_unread c
        \<and> Some (fl_requires_check c, fl_required_contracts c) = last_edit (e # l) f
        \<and> (\<forall>g dg. g \<noteq> f \<longrightarrow> \<not> touches g dg e))"

lemma changes_file_advance:
  assumes "changes_file s l e s'" and "files_ok (s, l)"
  shows "advance s e s'"
proof -
  from assms(1) obtain f c where f: "rs_revision s < rs_revision s'" "rs_files s' = bt_insert f c (rs_files s)"
    "fl_revision c = rs_revision s'" "\<forall>g dg. g \<noteq> f \<longrightarrow> \<not> touches g dg e"
    by (auto simp: changes_file_def)
  have "fl_revision c0 < rs_revision s'" if "map_of (rs_files s) f = Some c0" for c0
    using files_ok_files [OF assms(2) that] f(1) by (meson order.strict_trans1)
  then show ?thesis using f by (auto simp: advance_def)
qed

lemma changes_file_files_ok:
  assumes "changes_file s l e s'" and "files_ok (s, l)"
  shows "files_ok (s', e # l)"
proof -
  from assms(1) obtain f c where f: "rs_revision s < rs_revision s'" "rs_files s' = bt_insert f c (rs_files s)"
    "fl_revision c = rs_revision s'" "fl_unread c" "\<forall>g dg. g \<noteq> f \<longrightarrow> \<not> touches g dg e"
    "last_edit (e # l) f = Some (fl_requires_check c, fl_required_contracts c)"
    unfolding changes_file_def by metis
  have other: "edit_of g e = None" if "g \<noteq> f" for g using f(5) that touches_edit_of by blast
  have old: "fl_revision c0 \<le> rs_revision s' \<and> (fl_unread c0 \<or> read_since (e # l) g (fl_digest c0))"
    if "map_of (rs_files s) g = Some c0" "g \<noteq> f" for g c0
    using files_ok_files [OF assms(2) that(1)] f(1,5) that(2) read_since_push
    by (meson order.trans order.strict_implies_order)
  have "bt_wf (rs_files s')" using assms(2) f(2) by (simp add: files_ok_def)
  then show ?thesis
    using f old other files_ok_last_edit [OF assms(2)] by (auto simp: files_ok_def)
qed

text \<open>Every call is of one of the two kinds.\<close>

lemma quiet_only_reads:
  assumes "rs_files s' = rs_files s" and "rs_revision s' = rs_revision s" and "bt_wf (rs_files s)"
    and "\<And>f c. map_of (rs_files s) f = Some c \<Longrightarrow> \<not> touches f (fl_digest c) e" and "\<And>f. edit_of f e = None"
  shows "only_reads s l e s'"
  unfolding only_reads_def
  by (rule exI [of _ "\<lambda>_. False"]) (use assms in \<open>auto simp: option.map_ident\<close>)

lemma entry_only_reads:
  assumes "files_ok (s, l)" and "checkpoints_ok (s, l)" and "LogCheckpoint (rs_revision s) \<in> set l"
    and "\<And>c. map_of (rs_files s) f = Some c \<Longrightarrow> P c \<Longrightarrow> reads f (fl_digest c) (rs_revision s) e"
    and "\<And>g dg. \<not> touches g dg e"
  shows "only_reads s l e (s\<lparr>rs_files := at_entry f (\<lambda>c. if P c then c\<lparr>fl_unread := False\<rparr> else c) (rs_files s)\<rparr>)"
proof -
  define R where "R g \<longleftrightarrow> g = f \<and> (case map_of (rs_files s) f of None \<Rightarrow> False | Some c \<Rightarrow> P c)" for g
  have "map_of (at_entry f (\<lambda>c. if P c then c\<lparr>fl_unread := False\<rparr> else c) (rs_files s))
      = (\<lambda>g. map_option (\<lambda>c. if R g then c\<lparr>fl_unread := False\<rparr> else c) (map_of (rs_files s) g))"
    by (auto simp: fun_eq_iff R_def option.map_ident split: option.split)
  moreover have "read_since (e # l) g (fl_digest c)" if "map_of (rs_files s) g = Some c" "R g" for g c
    using that assms(4) read_since_now [OF assms(2,3)] by (auto simp: R_def)
  moreover have "edit_of g e = None" for g using assms(5) touches_edit_of by blast
  ultimately show ?thesis
    unfolding only_reads_def using assms(1,5)
    by (intro exI [of _ R]) (auto simp: files_ok_def simp del: map_of_at_entry)
qed

lemma edit_changes_file:
  assumes "\<not> degraded (record_edit f d rc cs s)"
    and "edit_of f e = Some (rc, set cs)" and "\<And>g dg. g \<noteq> f \<Longrightarrow> \<not> touches g dg e"
  shows "changes_file s l e (record_edit f d rc cs s)"
proof -
  have "\<not> edit_refused s f cs" "rs_revision s \<noteq> - 1"
    using assms(1) by (auto simp: record_edit_def degraded_def Let_def split: if_splits)
  then show ?thesis
    unfolding changes_file_def using assms(2,3) saturating_add_less
    by (intro exI [of _ f] exI [of _ "\<lparr>fl_revision = saturating_add (rs_revision s) 1,
        fl_digest = bounded_digest d, fl_unread = True, fl_requires_check = rc,
        fl_required_contracts = set cs\<rparr>"]) (simp add: record_edit_def Let_def)
qed

lemma refresh_kind:
  assumes "\<not> degraded (refresh_file f d s)" and "files_ok (s, l)"
  shows "only_reads s l (LogRefresh f d) (refresh_file f d s)
    \<or> changes_file s l (LogRefresh f d) (refresh_file f d s)"
proof (cases "\<exists>c. map_of (rs_files s) f = Some c \<and> fl_digest c \<noteq> bounded_digest d")
  case True
  then obtain c where c: "map_of (rs_files s) f = Some c" "fl_digest c \<noteq> bounded_digest d" by blast
  have "rs_revision s \<noteq> - 1" using assms(1) c by (auto simp: refresh_file_def degraded_def Let_def)
  then have "changes_file s l (LogRefresh f d) (refresh_file f d s)"
    unfolding changes_file_def using c saturating_add_less files_ok_last_edit [OF assms(2), of f]
    by (intro exI [of _ f] exI [of _ "c\<lparr>fl_digest := bounded_digest d, fl_revision := saturating_add (rs_revision s) 1, fl_unread := True\<rparr>"])
      (auto simp: refresh_file_def Let_def at_entry_def touches_def)
  then show ?thesis ..
next
  case False
  then have "refresh_file f d s = s" by (auto simp: refresh_file_def Let_def split: option.split)
  then have "only_reads s l (LogRefresh f d) (refresh_file f d s)"
    using False assms(2) by (intro quiet_only_reads) (auto simp: files_ok_def touches_def)
  then show ?thesis ..
qed

lemma read_kind:
  assumes "files_ok (s, l)" and "checkpoints_ok (s, l)" and "LogCheckpoint cp \<in> set l"
  shows "only_reads s l (LogRead cp f d) (read_back cp f d s)"
proof (cases "cp \<noteq> rs_revision s \<or> d = None")
  case True
  then show ?thesis
    using assms(1) by (intro quiet_only_reads) (auto simp: read_back_def files_ok_def touches_def)
next
  case False
  then show ?thesis
    unfolding read_back_def using assms
    by (auto intro!: entry_only_reads simp: touches_def reads_def)
qed

lemma observe_kind:
  assumes "\<not> degraded (observe_after cp ob s)"
    and "files_ok (s, l)" and "checkpoints_ok (s, l)" and "LogCheckpoint cp \<in> set l"
  shows "only_reads s l (LogObserve cp ob) (observe_after cp ob s)
    \<or> changes_file s l (LogObserve cp ob) (observe_after cp ob s)"
proof (cases ob)
  case (Edited p rc)
  then show ?thesis
    using assms(1) by (auto simp: observe_after_def touches_def intro!: edit_changes_file)
next
  case (ReadBack p)
  have "only_reads s l (LogObserve (rs_revision s) ob)
      (s\<lparr>rs_files := at_entry (CompletionFile [] p) (\<lambda>c. if True then c\<lparr>fl_unread := False\<rparr> else c) (rs_files s)\<rparr>)"
    if "cp = rs_revision s"
    using that assms(2-4) ReadBack by (intro entry_only_reads) (auto simp: touches_def reads_def)
  moreover have "only_reads s l (LogObserve cp ob) s"
    using assms(2) ReadBack by (intro quiet_only_reads) (auto simp: files_ok_def touches_def)
  ultimately show ?thesis using ReadBack by (auto simp: observe_after_def)
qed (use assms(2) in \<open>auto simp: observe_after_def files_ok_def touches_def intro!: quiet_only_reads\<close>)

section \<open>Attempts\<close>

text \<open>A call that leaves the checks alone.\<close>

lemma attempts_ok_push:
  assumes "attempts_ok (s, l)" and "rs_checks s' = rs_checks s" and "rs_next_attempt s' = rs_next_attempt s"
    and "\<And>c. \<not> begins c e"
  shows "attempts_ok (s', e # l)"
proof -
  have "LogBegin a fs \<noteq> e" for a fs using assms(4) [of "ca_contract a"] by (auto simp: begins_def)
  then show ?thesis using assms(1-3) by (auto simp: attempts_ok_def)
qed

lemma checks_ok_push:
  assumes "checks_ok (s, l)" and "rs_checks s' = rs_checks s" and "advance s e s'" and "\<And>c. \<not> begins c e"
  shows "checks_ok (s', e # l)"
  using assms check_ok_advance by (auto simp: checks_ok_def)

text \<open>The beginning of an attempt: its number is new and its versions are those of the moment.\<close>

lemma capture_versions_ok:
  assumes "v \<in> set (capture_versions s fs)"
  shows "fst v \<in> set fs \<and> version_ok s [] v"
  using assms by (auto simp: capture_versions_def map_filter_def version_ok_def)

lemma begin_admitted:
  assumes "begin_check c fs s = (a, s')" and "\<not> degraded s'"
  shows "ca_contract a = c" "ca_id a = rs_next_attempt s'" "rs_next_attempt s < rs_next_attempt s'"
    "ca_versions a = capture_versions s fs"
    "rs_checks s' = bt_insert c \<lparr>ck_attempt = a, ck_outcome = CheckUnknown, ck_settled = False\<rparr> (rs_checks s)"
    "rs_files s' = rs_files s" "rs_revision s' = rs_revision s"
proof -
  have "rs_next_attempt s \<noteq> - 1" using assms by (auto simp: begin_check_def degraded_def Let_def split: if_splits)
  then show "rs_next_attempt s < rs_next_attempt s'"
    using assms saturating_add_less by (auto simp: begin_check_def degraded_def Let_def split: if_splits)
qed (use assms in \<open>auto simp: begin_check_def degraded_def Let_def capture_versions_def split: if_splits\<close>)

lemma begin_attempts_ok:
  assumes "begin_check c fs s = (a, s')" and "\<not> degraded s'" and "attempts_ok (s, l)"
  shows "attempts_ok (s', LogBegin a fs # l)"
proof -
  note b = begin_admitted [OF assms(1,2)]
  have "ca_id b < ca_id a" if "LogBegin b gs \<in> set l" for b gs
  proof -
    have "ca_id b \<le> rs_next_attempt s" using that assms(3) by (auto simp: attempts_ok_def)
    then show ?thesis using b(2,3) by simp
  qed
  then show ?thesis
    using assms(3) b by (auto simp: attempts_ok_def less_imp_le)
qed

lemma begin_checks_ok:
  assumes "begin_check c fs s = (a, s')" and "\<not> degraded s'" and "checks_ok (s, l)"
    and "advance s (LogBegin a fs) s'"
  shows "checks_ok (s', LogBegin a fs # l)"
proof -
  note b = begin_admitted [OF assms(1,2)]
  have "check_ok (s', LogBegin a fs # l) c' k" if k: "map_of (rs_checks s') c' = Some k" for c' k
  proof (cases "c' = c")
    case True
    then have k': "k = \<lparr>ck_attempt = a, ck_outcome = CheckUnknown, ck_settled = False\<rparr>" using k b(5) by simp
    have "version_ok s' [] v" if "version_ok s [] v" for v
      using that b(6) by (simp add: version_ok_def)
    then show ?thesis
      unfolding check_ok_def prod.case using True k' b(1,4) capture_versions_ok
      by (intro exI [of _ "[]"] exI [of _ fs] exI [of _ l]) auto
  next
    case False
    then have "check_ok (s, l) c' k" using k b(5) assms(3) by (simp add: checks_ok_def)
    then show ?thesis using check_ok_advance [OF assms(4)] False b(1) by (simp add: begins_def)
  qed
  then show ?thesis by (simp add: checks_ok_def)
qed

text \<open>The end of an attempt: only the latest attempt of its contract can settle it.\<close>

lemma finish_attempts_ok:
  assumes "attempts_ok (s, l)"
  shows "attempts_ok (finish_check a r s, LogFinish a r # l)"
  using assms by (auto simp: attempts_ok_def finish_check_def Let_def)

lemma versions_unchanged_untouched:
  assumes "versions_unchanged s a" and "\<forall>v \<in> set (ca_versions a). version_ok s newer v"
  shows "untouched_in newer a"
proof -
  have "dg \<noteq> None \<and> \<not> list_ex (touches f dg) newer" if v: "(f, r, dg) \<in> set (ca_versions a)" for f r dg
  proof -
    have "version_ok s newer (f, r, dg)" using assms(2) v by blast
    moreover have "dg \<noteq> None \<and> (\<exists>c. map_of (rs_files s) f = Some c \<and> fl_revision c = r)"
      using assms(1) v by (fastforce simp: versions_unchanged_def list_all_iff split: option.splits)
    ultimately show ?thesis by (auto simp: version_ok_def)
  qed
  then show ?thesis unfolding untouched_in_def by auto
qed

lemma finish_checks_ok:
  assumes "checks_ok (s, l)" and "attempts_ok (s, l)" and "LogBegin a fs \<in> set l"
    and "advance s (LogFinish a r) (finish_check a r s)"
  shows "checks_ok (finish_check a r s, LogFinish a r # l)"
proof -
  let ?s = "finish_check a r s" and ?e = "LogFinish a r"
  have "check_ok (?s, ?e # l) c k" if k: "map_of (rs_checks ?s) c = Some k" for c k
  proof (cases "is_current s a \<and> c = ca_contract a")
    case True
    then obtain k0 where k0: "map_of (rs_checks s) c = Some k0" "ca_id (ck_attempt k0) = ca_id a"
      by (auto simp: is_current_def split: option.splits)
    then have a: "ck_attempt k0 = a" using assms(2,3) True by (auto simp: attempts_ok_def)
    from True k k0(1) have k': "ck_attempt k = a"
      "ck_outcome k = CheckPassed \<longrightarrow> r = CheckPassed \<and> versions_unchanged s a"
      by (auto simp: finish_check_def Let_def a split: if_splits)
    from k0(1) assms(1) obtain newer fs' older where n: "l = newer @ LogBegin a fs' # older"
      "ca_contract a = c" "\<not> list_ex (begins c) newer"
      "\<forall>v \<in> set (ca_versions a). fst v \<in> set fs' \<and> version_ok s newer v"
      by (fastforce simp: checks_ok_def check_ok_def a)
    have passed: "ck_outcome k = CheckPassed \<longrightarrow> passed_in (?e # newer) a"
      using k'(2) n(4) versions_unchanged_untouched unfolding passed_in_def by (metis append_Nil)
    have versions: "\<forall>v \<in> set (ca_versions a). fst v \<in> set fs' \<and> version_ok ?s (?e # newer) v"
      using n(4) version_ok_advance [OF assms(4)] by blast
    show ?thesis
      unfolding check_ok_def prod.case k'(1)
      by (rule exI [of _ "?e # newer"], rule exI [of _ fs'], rule exI [of _ older])
        (use n(1-3) passed versions in \<open>simp add: begins_def\<close>)
  next
    case False
    then have "map_of (rs_checks s) c = Some k" using k by (auto simp: finish_check_def Let_def split: if_splits)
    then show ?thesis using check_ok_advance [OF assms(4)] assms(1) by (simp add: checks_ok_def begins_def)
  qed
  then show ?thesis by (simp add: checks_ok_def)
qed

section \<open>The invariant holds\<close>

lemma kind_inv:
  assumes "only_reads s l e s' \<or> changes_file s l e s'" and "files_ok (s, l)" and "checkpoints_ok (s, l)"
    and "\<And>r. e = LogCheckpoint r \<Longrightarrow> r = rs_revision s'"
  shows "advance s e s' \<and> files_ok (s', e # l) \<and> checkpoints_ok (s', e # l)"
  using assms only_reads_advance only_reads_files_ok changes_file_advance changes_file_files_ok
    checkpoints_ok_advance by metis

lemma plain_inv:
  assumes "only_reads s l e s' \<or> changes_file s l e s'" and "review_inv (s, l)"
    and "rs_checks s' = rs_checks s" and "rs_next_attempt s' = rs_next_attempt s" and "\<And>c. \<not> begins c e"
    and "\<And>r. e = LogCheckpoint r \<Longrightarrow> r = rs_revision s'"
  shows "review_inv (s', e # l)"
  using kind_inv [OF assms(1) _ _ assms(6)] assms(2-5) attempts_ok_push checks_ok_push
  unfolding review_inv_def by metis

lemma observe_checks:
  "rs_checks (observe_after cp ob s) = rs_checks s \<and> rs_next_attempt (observe_after cp ob s) = rs_next_attempt s"
  by (auto simp: observe_after_def record_edit_def Let_def split: CompletionObservation.splits)

lemma review_step_inv:
  "review_step x y \<Longrightarrow> review_inv x \<Longrightarrow> \<not> degraded (fst y) \<Longrightarrow> review_inv y"
proof (induction rule: review_step.induct)
  case (step_checkpoint s l)
  then show ?case
    by (intro plain_inv [of s] disjI1 quiet_only_reads)
      (auto simp: review_inv_def files_ok_def touches_def begins_def review_checkpoint_def)
next
  case (step_observe cp l s ob)
  then show ?case
    by (intro plain_inv [of s] observe_kind) (auto simp: review_inv_def begins_def observe_checks)
next
  case (step_edit s l f d rc cs)
  then show ?case
    by (intro plain_inv [of s] disjI2 edit_changes_file)
      (auto simp: touches_def begins_def record_edit_def Let_def)
next
  case (step_refresh s l f d)
  then show ?case
    by (intro plain_inv [of s] refresh_kind)
      (auto simp: review_inv_def begins_def refresh_file_def Let_def split: option.split)
next
  case (step_read cp l s f d)
  then show ?case
    by (intro plain_inv [of s] disjI1 read_kind) (auto simp: review_inv_def begins_def read_back_def)
next
  case (step_gap s l)
  then show ?case by (simp add: note_gap_def degraded_def)
next
  case (step_begin c fs s a s' l)
  note b = begin_admitted [OF step_begin(1)]
  have "advance s (LogBegin a fs) s' \<and> files_ok (s', LogBegin a fs # l) \<and> checkpoints_ok (s', LogBegin a fs # l)"
    using step_begin b by (intro kind_inv disjI1 quiet_only_reads) (auto simp: review_inv_def files_ok_def touches_def)
  then show ?case using step_begin begin_attempts_ok begin_checks_ok by (auto simp: review_inv_def)
next
  case (step_finish a fs l s r)
  have "rs_files (finish_check a r s) = rs_files s \<and> rs_revision (finish_check a r s) = rs_revision s"
    by (simp add: finish_check_def Let_def)
  then have "advance s (LogFinish a r) (finish_check a r s) \<and> files_ok (finish_check a r s, LogFinish a r # l)
      \<and> checkpoints_ok (finish_check a r s, LogFinish a r # l)"
    using step_finish by (intro kind_inv disjI1 quiet_only_reads) (auto simp: review_inv_def files_ok_def touches_def)
  then show ?case using step_finish finish_attempts_ok finish_checks_ok by (auto simp: review_inv_def)
next
  case (step_feedback s g s' l)
  then show ?case
    by (intro plain_inv [of s] disjI1 quiet_only_reads)
      (auto simp: review_inv_def files_ok_def touches_def begins_def take_feedback_def split: if_splits)
qed

interpretation completion_calls: guarded_system review_step review_good "(ReviewState_default, [])"
proof unfold_locales
  show "review_step x y \<Longrightarrow> review_good x \<Longrightarrow> review_good y" for x y
    using degraded_stays review_step_inv unfolding review_good_def by blast
  show "review_good (ReviewState_default, [])"
    by (simp add: review_good_def review_inv_def ReviewState_default_def files_ok_def checkpoints_ok_def
        attempts_ok_def checks_ok_def)
qed

end
