(* ===== verification/Completion_Facts.thy ===== *)
theory Completion_Facts
  imports Completion_Steps
begin

text \<open>
  What a run may conclude from the review: an answer is accepted without a reminder only on evidence
  that is newer than every change, and the reminder comes at most once.
\<close>

lemma no_unchecked_paths: "unchecked_paths s = [] \<Longrightarrow> p \<in> set (rs_files s) \<Longrightarrow> \<not> is_unchecked s p"
  by (auto simp: unchecked_paths_def filter_empty_conv)

lemma contract_met_verified:
  assumes "checks_ok (s, l)" and "map_of (rs_files s) f = Some fl" and "contract_met s f fl c"
  shows "verified_since l f (fl_digest fl) c"
proof -
  from assms(3) obtain k where k: "map_of (rs_checks s) c = Some k" "ck_outcome k = CheckPassed"
    "(f, fl_revision fl, fl_digest fl) \<in> set (ca_versions (ck_attempt k))"
    by (auto simp: contract_met_def list_ex_iff split: option.splits)
  with assms(1) obtain newer fs older where n: "l = newer @ LogBegin (ck_attempt k) fs # older"
    "ca_contract (ck_attempt k) = c" "\<not> list_ex (begins c) newer"
    "passed_in newer (ck_attempt k)"
    "f \<in> set fs" "version_ok s newer (f, fl_revision fl, fl_digest fl)"
    by (fastforce simp: checks_ok_def check_ok_def)
  from n(6) assms(2) have "\<not> list_ex (touches f (fl_digest fl)) newer" by (auto simp: version_ok_def)
  moreover from n(4) obtain n1 n2
    where "newer = n1 @ LogFinish (ck_attempt k) CheckPassed # n2" "untouched_in n2 (ck_attempt k)"
    by (auto simp: passed_in_def)
  ultimately show ?thesis using n(1,2,3,5) unfolding verified_since_def
    by (intro exI [of _ n1] exI [of _ "ck_attempt k"] exI [of _ n2] exI [of _ fs] exI [of _ older]) auto
qed

text \<open>\<^bold>\<open>C11.\<close> 
  A final answer is accepted without a reminder only if no saved task is unfinished and every file
  that was edited has been read back by a read that was dispatched after its last change, with the
  digest it has, and, where the edit asked for checks, every required contract has a check that began
  after the last change of the file, covers the file, passed with no change to any file it covers
  while it ran, and was not superseded by a later attempt of the contract. This holds for every order of calls, reads and checks in flight during an edit
  included, as long as neither counter of the review has reached \<open>u64::MAX\<close>.
\<close>

theorem completion_accepts_on_evidence:
  assumes "review_step\<^sup>*\<^sup>* (ReviewState_default, []) (s, l)"
    and "rs_revision s \<noteq> - 1" and "rs_next_attempt s \<noteq> - 1"
    and "\<not> rs_prompted s" and "review_evaluate s = (EvAccept, s')"
    and "last_edit l f = Some (requires_check, contracts)"
  shows "rs_unfinished s = 0 \<and> (\<exists>dg. read_since l f dg
    \<and> (requires_check \<longrightarrow> dg \<noteq> None \<and> contracts \<noteq> {} \<and> (\<forall>c \<in> contracts. verified_since l f dg c)))"
proof -
  have none: "\<not> any_unread s" "\<not> rs_overflow s" "unchecked_paths s = []" "rs_unfinished s = 0"
    using assms(4,5) by (auto simp: review_evaluate_def take_feedback_def split: if_splits)
  have inv: "files_ok (s, l)" "checks_ok (s, l)"
    using completion_calls.reachable_good [OF assms(1)] assms(2,3) none(2)
    by (auto simp: review_good_def degraded_def review_inv_def)
  from files_ok_last_edit [OF inv(1), of f] assms(6) obtain fl where fl: "map_of (rs_files s) f = Some fl"
    "requires_check = fl_requires_check fl" "contracts = fl_required_contracts fl"
    by (cases "map_of (rs_files s) f") auto
  have "read_since l f (fl_digest fl)"
    using files_ok_files [OF inv(1) fl(1)] none(1) map_of_SomeD [OF fl(1)] by (auto simp: any_unread_def list_ex_iff)
  moreover have "\<not> is_unchecked s (f, fl)" using no_unchecked_paths [OF none(3)] map_of_SomeD [OF fl(1)] by blast
  ultimately show ?thesis
    using none(4) fl contract_met_verified [OF inv(2) fl(1)] by (auto simp: is_unchecked_def)
qed

text \<open>A history with one edit, a read and a check.\<close>

definition sample_file :: CompletionFile where
  "sample_file = CompletionFile ''w'' ''lib.rs''"

definition sample_edited :: ReviewState where
  "sample_edited = record_edit sample_file (Some ''d1'') True [''ci''] ReviewState_default"

definition sample_attempt :: CompletionAttempt where
  "sample_attempt = \<lparr>ca_id = 1, ca_contract = ''ci'', ca_versions = [(sample_file, 1, Some ''d1'')]\<rparr>"

definition sample_begun :: ReviewState where
  "sample_begun = snd (begin_check ''ci'' [sample_file] (read_back 1 sample_file (Some ''d1'') sample_edited))"

definition sample_log :: "ReviewEntry list" where
  "sample_log = [LogBegin sample_attempt [sample_file], LogRead 1 sample_file (Some ''d1''),
     LogCheckpoint 1, LogEdit sample_file True [''ci'']]"

definition sample_review :: reviewed where
  "sample_review = (finish_check sample_attempt CheckPassed sample_begun,
     LogFinish sample_attempt CheckPassed # sample_log)"

definition sample_file_state :: FileState where
  "sample_file_state = \<lparr>fl_revision = 1, fl_digest = Some ''d1'', fl_unread = True, fl_requires_check = True,
     fl_required_contracts = {''ci''}\<rparr>"

lemma sample_names:
  "\<not> any_control ''ci''" "\<not> any_control ''lib.rs''" "\<not> any_control ''w''" "\<not> any_control ''d1''"
  by code_simp+

lemma sample_edited:
  "sample_edited = ReviewState_default\<lparr>rs_revision := 1, rs_files := [(sample_file, sample_file_state)]\<rparr>"
  by (simp add: sample_edited_def sample_file_state_def record_edit_def edit_refused_def sample_file_def
      sample_names bounded_digest_def completion_valid_id_def ReviewState_default_def saturating_add_def Let_def
      del: any_control.simps)

lemma sample_begun:
  "sample_begun = ReviewState_default\<lparr>rs_revision := 1, rs_next_attempt := 1,
     rs_files := [(sample_file, sample_file_state\<lparr>fl_unread := False\<rparr>)],
     rs_checks := [(''ci'', \<lparr>ck_attempt = sample_attempt, ck_outcome = CheckUnknown, ck_settled = False\<rparr>)]\<rparr>"
  "begin_check ''ci'' [sample_file] (read_back 1 sample_file (Some ''d1'') sample_edited) = (sample_attempt, sample_begun)"
  by (simp_all add: sample_begun_def sample_edited sample_file_state_def read_back_def begin_check_def
      check_admissible_def sample_names completion_valid_id_def ReviewState_default_def saturating_add_def Let_def
      at_entry_def capture_versions_def map_filter_def sample_attempt_def del: any_control.simps)

lemma sample_review:
  "fst sample_review = sample_begun\<lparr>rs_checks :=
     [(''ci'', \<lparr>ck_attempt = sample_attempt, ck_outcome = CheckPassed, ck_settled = True\<rparr>)]\<rparr>"
  by (simp add: sample_review_def sample_begun sample_file_state_def finish_check_def is_current_def
      versions_unchanged_def sample_attempt_def ReviewState_default_def Let_def at_entry_def)

lemma sample_accepted: "review_evaluate (fst sample_review) = (EvAccept, fst sample_review)"
  by (simp add: review_evaluate_def sample_review sample_begun sample_file_state_def take_feedback_def
      any_unread_def unchecked_paths_def is_unchecked_def contract_met_def sample_attempt_def ReviewState_default_def)

lemma sample_reached: "review_step\<^sup>*\<^sup>* (ReviewState_default, []) sample_review"
proof -
  let ?e = "LogEdit sample_file True [''ci'']"
  have "review_step\<^sup>*\<^sup>* (ReviewState_default, []) (sample_edited, [?e])"
    unfolding sample_edited_def by (intro r_into_rtranclp step_edit)
  also have "review_step (sample_edited, [?e]) (sample_edited, [LogCheckpoint 1, ?e])"
    using step_checkpoint [of sample_edited "[?e]"] by (simp add: review_checkpoint_def sample_edited)
  also have "review_step (sample_edited, [LogCheckpoint 1, ?e])
      (read_back 1 sample_file (Some ''d1'') sample_edited, tl sample_log)"
    unfolding sample_log_def list.sel by (rule step_read) simp
  also have "review_step (read_back 1 sample_file (Some ''d1'') sample_edited, tl sample_log) (sample_begun, sample_log)"
    using step_begin [OF sample_begun(2)] by (simp add: sample_log_def)
  also have "review_step (sample_begun, sample_log) sample_review"
    unfolding sample_review_def by (rule step_finish) (simp add: sample_log_def)
  finally show ?thesis .
qed

theorem completion_accepts_on_evidence_witness:
  "\<exists>dg. read_since (snd sample_review) sample_file dg \<and> dg \<noteq> None \<and> verified_since (snd sample_review) sample_file dg ''ci''"
proof -
  have "rs_revision (fst sample_review) \<noteq> - 1" "rs_next_attempt (fst sample_review) \<noteq> - 1"
    "\<not> rs_prompted (fst sample_review)"
    by (simp_all add: sample_review sample_begun ReviewState_default_def)
  moreover have "last_edit (snd sample_review) sample_file = Some (True, {''ci''})"
    by (simp add: sample_review_def sample_log_def)
  ultimately show ?thesis
    using completion_accepts_on_evidence 
      [of "fst sample_review" "snd sample_review" "fst sample_review" sample_file True "{''ci''}"]
      sample_reached sample_accepted by auto
qed

section \<open>One reminder\<close>

fun is_reminder :: "ReviewEntry \<Rightarrow> bool" where
  "is_reminder (LogFeedback g) \<longleftrightarrow> g \<noteq> None"
| "is_reminder e \<longleftrightarrow> False"

definition reminders_ok :: "reviewed \<Rightarrow> bool" where
  "reminders_ok x \<longleftrightarrow> length (filter is_reminder (snd x)) = (if rs_prompted (fst x) then 1 else 0)"

interpretation completion_reminders: guarded_system review_step reminders_ok "(ReviewState_default, [])"
proof unfold_locales
  show "review_step x y \<Longrightarrow> reminders_ok x \<Longrightarrow> reminders_ok y" for x y
    by (induction rule: review_step.induct)
      (auto simp: operation_defs reminders_ok_def split: if_splits option.splits CompletionObservation.splits)
qed (simp add: reminders_ok_def ReviewState_default_def)

text \<open>\<^bold>\<open>C33.\<close> 
  The review sends an answer back at most once, whatever the run does; it does so only for a gap that
  it names, and from then on it accepts. A review with nothing outstanding never sends an answer back.
\<close>

theorem completion_reminds_once:
  assumes "review_step\<^sup>*\<^sup>* (ReviewState_default, []) (s, l)"
  shows "length (filter is_reminder l) \<le> 1
    \<and> (\<forall>g s'. review_evaluate s = (EvRetry g, s') \<longrightarrow>
         g \<noteq> [] \<and> g = review_gaps s \<and> filter is_reminder l = []
         \<and> (\<forall>s'' l''. review_step\<^sup>*\<^sup>* (s', LogFeedback (Some g) # l) (s'', l'') \<longrightarrow> review_evaluate s'' = (EvAccept, s'')))
    \<and> (review_gaps s = [] \<longrightarrow> review_evaluate s = (EvAccept, s))"
proof -
  have ok: "reminders_ok (s, l)" by (rule completion_reminders.reachable_good [OF assms])
  have later: "review_evaluate s'' = (EvAccept, s'')"
    if retry: "review_evaluate s = (EvRetry g, s')"
      and run: "review_step\<^sup>*\<^sup>* (s', LogFeedback (Some g) # l) (s'', l'')" for g s' s'' l''
  proof -
    have "take_feedback s = (Some g, s')"
      using retry by (auto simp: review_evaluate_def split: prod.splits option.splits)
    then have "reminders_ok (s', LogFeedback (Some g) # l) \<and> rs_prompted s'"
      using ok by (auto simp: take_feedback_def reminders_ok_def split: if_splits)
    then have "rs_prompted (fst (s'', l''))"
      by (intro completion_reminders.along_steps [OF run, of "\<lambda>_ t. rs_prompted (fst t)"])
        (auto elim!: review_step.cases simp: operation_defs split: if_splits option.splits CompletionObservation.splits)
    then show ?thesis by (simp add: review_evaluate_def take_feedback_def)
  qed
  have now: "g \<noteq> [] \<and> g = review_gaps s \<and> filter is_reminder l = []"
    if "review_evaluate s = (EvRetry g, s')" for g s'
    using that ok
    by (auto simp: review_evaluate_def take_feedback_def review_gaps_def reminders_ok_def split: if_splits)
  have "review_gaps s = [] \<Longrightarrow> review_evaluate s = (EvAccept, s)"
    by (auto simp: review_evaluate_def take_feedback_def review_gaps_def split: if_splits)
  moreover have "length (filter is_reminder l) \<le> 1" using ok by (simp add: reminders_ok_def split: if_splits)
  ultimately show ?thesis using now later by blast
qed

theorem completion_reminds_once_witness:
  "review_evaluate sample_edited
     = (EvRetry [GapUnread, GapUnchecked [''lib.rs'']], sample_edited\<lparr>rs_prompted := True\<rparr>)
   \<and> review_evaluate (sample_edited\<lparr>rs_prompted := True\<rparr>) = (EvAccept, sample_edited\<lparr>rs_prompted := True\<rparr>)"
proof -
  have "unchecked_paths sample_edited = [''lib.rs'']"
    by (simp add: unchecked_paths_def sample_edited sample_file_state_def is_unchecked_def contract_met_def
        ReviewState_default_def sample_file_def)
  then have "review_evaluate sample_edited
      = (EvRetry [GapUnread, GapUnchecked [''lib.rs'']], sample_edited\<lparr>rs_prompted := True\<rparr>)"
    by (simp add: review_evaluate_def take_feedback_def review_gaps_def any_unread_def sample_edited
        sample_file_state_def ReviewState_default_def)
  moreover have "review_step\<^sup>*\<^sup>* (ReviewState_default, []) (sample_edited, [LogEdit sample_file True [''ci'']])"
    unfolding sample_edited_def by (intro r_into_rtranclp step_edit)
  ultimately show ?thesis using completion_reminds_once by blast
qed

end
