(* ===== verification/Context_Window.thy ===== *)
theory Context_Window
  imports Primitives
begin

text \<open>
  The choice of the messages that a run sends to the model, \<open>anima-core/src/context_window.rs\<close>, over
  the messages of \<open>primitives.rs\<close>. The estimator is the trait object of the code, a record of two
  functions. Sums of estimates are \<open>u64\<close> sums that wrap. The serialized form of tool calls is a
  parameter of the plain estimate; the calibration of an estimator by a floating-point factor is left out.
\<close>

section \<open>Estimates\<close>

definition CHARS_PER_TOKEN :: nat where "CHARS_PER_TOKEN = 4"
definition MESSAGE_OVERHEAD_TOKENS :: u64 where "MESSAGE_OVERHEAD_TOKENS = 8"
definition MAX_CONTEXT_IMAGES :: nat where "MAX_CONTEXT_IMAGES = 4"

record 'd ContextTokenEstimator =
  message_tokens :: "'d Message \<Rightarrow> u64"
  text_tokens :: "string \<Rightarrow> u64"

definition div_ceil :: "nat \<Rightarrow> nat \<Rightarrow> nat" where
  "div_ceil a b = (a + b - 1) div b"

definition ordinary_content_tokens :: "('d \<Rightarrow> string) \<Rightarrow> 'd Content \<Rightarrow> u64" where
  "ordinary_content_tokens data_value_json content =
     (let calls = (case ct_metadata content of
                     None \<Rightarrow> 0
                   | Some metadata \<Rightarrow>
                       (case metadata ''toolCalls'' of None \<Rightarrow> 0 | Some v \<Rightarrow> char_count (data_value_json v))) in
      of_nat (div_ceil (char_count (ct_text content)) CHARS_PER_TOKEN) + MESSAGE_OVERHEAD_TOKENS
        + of_nat (div_ceil calls CHARS_PER_TOKEN))"

definition raw_message_tokens :: "('d \<Rightarrow> string) \<Rightarrow> 'd Message \<Rightarrow> u64" where
  "raw_message_tokens data_value_json message = ordinary_content_tokens data_value_json (mg_content message)"

section \<open>Selection\<close>

definition turn_starts :: "'d Message list \<Rightarrow> nat list" where
  "turn_starts messages =
     map fst (filter (\<lambda>(_, m). mg_role m = RoleUser) (zip [0..<length messages] messages))"

record ContextSummary =
  cs_text :: string
  cs_through_message_id :: string

record 'd ContextSelection =
  sel_messages :: "'d Message list"
  sel_dropped :: "'d Message list"
  sel_summarized :: nat
  sel_estimated_tokens :: u64

text \<open>\<open>iter().position\<close>.\<close>

fun position :: "('a \<Rightarrow> bool) \<Rightarrow> 'a list \<Rightarrow> nat option" where
  "position P [] = None"
| "position P (x # xs) = (if P x then Some 0 else map_option Suc (position P xs))"

definition covered_messages :: "'d Message list \<Rightarrow> ContextSummary option \<Rightarrow> nat" where
  "covered_messages history summary =
     (case summary of
        None \<Rightarrow> 0
      | Some sm \<Rightarrow>
          (case position (\<lambda>m. mg_id m = cs_through_message_id sm) history of
             None \<Rightarrow> 0
           | Some index \<Rightarrow> index + 1))"

definition summary_cost :: "'d ContextTokenEstimator \<Rightarrow> ContextSummary option \<Rightarrow> u64" where
  "summary_cost est summary = (case summary of None \<Rightarrow> 0 | Some sm \<Rightarrow> text_tokens est (cs_text sm))"

definition turn_cost :: "'d ContextTokenEstimator \<Rightarrow> 'd Message list \<Rightarrow> u64" where
  "turn_cost est messages = sum_list (map (message_tokens est) messages)"

text \<open>The turns from the newest to the oldest, given with the end of each; the state is \<open>remaining\<close>,
  \<open>spent\<close> and \<open>keep_from\<close>.\<close>

fun keep_turns ::
  "'d ContextTokenEstimator \<Rightarrow> 'd Message list \<Rightarrow> (nat \<times> nat) list \<Rightarrow> u64 \<times> u64 \<times> nat \<Rightarrow> u64 \<times> u64 \<times> nat" where
  "keep_turns est candidates [] st = st"
| "keep_turns est candidates ((start, stop) # turns) (remaining, spent, keep_from) =
     (let cost = turn_cost est (drop start (take stop candidates)) in
      if cost > remaining then (remaining, spent, keep_from)
      else keep_turns est candidates turns (remaining - cost, spent + cost, start))"

definition newest_turns :: "'d Message list \<Rightarrow> (nat \<times> nat) list" where
  "newest_turns candidates =
     (let starts = turn_starts candidates in rev (zip starts (tl starts @ [length candidates])))"

text \<open>Images over the limit, within one message: what stays attached and the notes for the rest.\<close>

definition image_note :: "Attachment \<Rightarrow> string" where
  "image_note a = ''[image: '' @ att_name a @ '' ('' @ att_data a @ '')]''"

fun cap_attachments :: "nat \<Rightarrow> Attachment list \<Rightarrow> nat \<times> Attachment list \<times> string list" where
  "cap_attachments kept [] = (kept, [], [])"
| "cap_attachments kept (a # as) =
     (if att_type a \<noteq> ImageAttachment then
        (case cap_attachments kept as of (k, rest, notes) \<Rightarrow> (k, a # rest, notes))
      else if kept < MAX_CONTEXT_IMAGES then
        (case cap_attachments (kept + 1) as of (k, rest, notes) \<Rightarrow> (k, a # rest, notes))
      else
        (case cap_attachments kept as of (k, rest, notes) \<Rightarrow> (k, rest, image_note a # notes)))"

definition cap_message :: "nat \<Rightarrow> 'd Message \<Rightarrow> nat \<times> 'd Message" where
  "cap_message kept m =
     (case ct_attachments (mg_content m) of
        None \<Rightarrow> (kept, m)
      | Some attachments \<Rightarrow>
          (case cap_attachments kept attachments of (k, remaining, notes) \<Rightarrow>
             (k, m\<lparr>mg_content := (mg_content m)
                \<lparr>ct_attachments := (if remaining = [] then None else Some remaining),
                 ct_text := fold (\<lambda>note text. text @ CHR 0x0A # note) notes (ct_text (mg_content m))\<rparr>\<rparr>)))"

text \<open>The loop over the messages from the newest to the oldest.\<close>

fun cap_loop :: "nat \<Rightarrow> 'd Message list \<Rightarrow> 'd Message list" where
  "cap_loop kept [] = []"
| "cap_loop kept (m # ms) = (case cap_message kept m of (k, m') \<Rightarrow> m' # cap_loop k ms)"

definition cap_images :: "'d Message list \<Rightarrow> 'd Message list" where
  "cap_images messages = rev (cap_loop 0 (rev messages))"

definition select_context ::
  "'d Message list \<Rightarrow> ContextSummary option \<Rightarrow> u64 \<Rightarrow> 'd ContextTokenEstimator \<Rightarrow> 'd ContextSelection" where
  "select_context history summary budget_tokens est =
     (let covered = covered_messages history summary;
          candidates = drop covered history;
          summary_tokens = summary_cost est summary;
          starts = turn_starts candidates in
      case starts of
        [] \<Rightarrow> \<lparr>sel_messages = [], sel_dropped = [], sel_summarized = covered,
               sel_estimated_tokens = summary_tokens\<rparr>
      | first_turn # _ \<Rightarrow>
          (case keep_turns est candidates (newest_turns candidates)
                  (saturating_sub budget_tokens summary_tokens, 0, length candidates) of
             (remaining, spent, keep_from) \<Rightarrow>
               \<lparr>sel_messages = cap_images (drop keep_from candidates),
                sel_dropped = drop first_turn (take keep_from candidates),
                sel_summarized = covered,
                sel_estimated_tokens = summary_tokens + spent\<rparr>))"

end
