(* ===== verification/Context_Facts.thy ===== *)
theory Context_Facts
  imports Context_Window
begin

text \<open>
  What a selected context is: the newest whole turns that fit, with the newest images. The turns of a
  transcript are given by a reference definition that does not use indices.
\<close>

section \<open>Turns\<close>

fun split_turns :: "'d Message list \<Rightarrow> 'd Message list \<times> 'd Message list list" where
  "split_turns [] = ([], [])"
| "split_turns (m # ms) =
     (case split_turns ms of (orphans, turns) \<Rightarrow>
        if mg_role m = RoleUser then ([], (m # orphans) # turns) else (m # orphans, turns))"

definition is_turn :: "'d Message list \<Rightarrow> bool" where
  "is_turn t \<longleftrightarrow> t \<noteq> [] \<and> mg_role (hd t) = RoleUser \<and> list_all (\<lambda>m. mg_role m \<noteq> RoleUser) (tl t)"

lemma split_turns_parts:
  "split_turns ms = (orphans, turns) \<Longrightarrow>
     ms = orphans @ concat turns \<and> list_all (\<lambda>m. mg_role m \<noteq> RoleUser) orphans \<and> list_all is_turn turns"
  by (induction ms arbitrary: orphans turns) (auto simp: is_turn_def split: prod.splits if_splits)

text \<open>The ends of the turns as indices.\<close>

fun spans :: "nat \<Rightarrow> 'a list list \<Rightarrow> (nat \<times> nat) list" where
  "spans n [] = []"
| "spans n (t # ts) = (n, n + length t) # spans (n + length t) ts"

lemma spans_append: "spans n (ts @ us) = spans n ts @ spans (n + length (concat ts)) us"
  by (induction ts arbitrary: n) (auto simp: add.assoc)

lemma map_Suc_spans: "map (Suc \<circ> fst) (spans n ts) = map fst (spans (Suc n) ts)"
  by (induction ts arbitrary: n) auto

lemma turn_starts_Cons:
  "turn_starts (m # ms) = (if mg_role m = RoleUser then [0] else []) @ map Suc (turn_starts ms)"
proof -
  have "zip [0..<length (m # ms)] (m # ms) = (0, m) # map (\<lambda>(i, x). (Suc i, x)) (zip [0..<length ms] ms)"
    by (simp add: upt_conv_Cons map_Suc_upt [symmetric] zip_map1 del: upt_Suc)
  then show ?thesis unfolding turn_starts_def
    by (simp add: filter_map comp_def case_prod_unfold del: upt_Suc)
qed

lemma turn_starts_spans:
  "split_turns ms = (orphans, turns) \<Longrightarrow> turn_starts ms = map fst (spans (length orphans) turns)"
proof (induction ms arbitrary: orphans turns)
  case Nil
  then show ?case by (simp add: turn_starts_def)
next
  case (Cons m ms)
  obtain o' t' where "split_turns ms = (o', t')" by fastforce
  with Cons show ?case by (auto simp: turn_starts_Cons map_Suc_spans split: if_splits)
qed

lemma zip_spans:
  "zip (map fst (spans n ts)) (tl (map fst (spans n ts)) @ [n + length (concat ts)]) = spans n ts"
proof (induction ts arbitrary: n)
  case (Cons t ts)
  from Cons [of "n + length t"] show ?case by (cases ts) (auto simp: add.assoc)
qed simp

lemma newest_turns_spans:
  assumes "split_turns ms = (orphans, turns)"
  shows "newest_turns ms = rev (spans (length orphans) turns)"
proof -
  have "length ms = length orphans + length (concat turns)" using split_turns_parts [OF assms] by simp
  then show ?thesis using zip_spans [of "length orphans" turns]
    by (simp add: newest_turns_def turn_starts_spans [OF assms])
qed

section \<open>Costs\<close>

text \<open>The estimate of messages as a natural number.\<close>

definition cost :: "'d ContextTokenEstimator \<Rightarrow> 'd Message list \<Rightarrow> nat" where
  "cost est ms = sum_list (map (\<lambda>m. unat (message_tokens est m)) ms)"

lemma cost_append [simp]: "cost est (xs @ ys) = cost est xs + cost est ys"
  by (simp add: cost_def)

lemma unat_turn_cost: "cost est ms < 2 ^ 64 \<Longrightarrow> unat (turn_cost est ms) = cost est ms"
proof (induction ms)
  case (Cons m ms)
  then have "cost est ms < 2 ^ 64" by (simp add: cost_def)
  with Cons show ?case by (simp add: turn_cost_def cost_def unat_add_in_range)
qed (simp add: turn_cost_def cost_def)

lemma keep_turns_greedy:
  assumes "keep_turns est (orphans @ concat turns @ newer) (rev (spans (length orphans) turns))
      (remaining, spent, length (orphans @ concat turns)) = (remaining', spent', keep_from)"
    and "\<forall>t \<in> set turns. cost est t < 2 ^ 64" and "unat spent + unat remaining < 2 ^ 64"
  shows "\<exists>dropped kept. turns = dropped @ kept \<and> keep_from = length (orphans @ concat dropped)
    \<and> unat spent' = unat spent + cost est (concat kept) \<and> cost est (concat kept) \<le> unat remaining
    \<and> (dropped \<noteq> [] \<longrightarrow> unat remaining < cost est (last dropped @ concat kept))"
  using assms
proof (induction turns arbitrary: newer remaining spent rule: rev_induct)
  case Nil
  then show ?case by (simp add: cost_def)
next
  case (snoc t turns)
  let ?c = "turn_cost est t"
  have t: "unat ?c = cost est t" using snoc.prems(2) by (simp add: unat_turn_cost)
  have slice: "drop (length orphans + length (concat turns))
      (take (length orphans + length (concat turns) + length t) (orphans @ concat (turns @ [t]) @ newer)) = t"
    by simp
  show ?case
  proof (cases "remaining < ?c")
    case True
    then have "spent' = spent" "keep_from = length (orphans @ concat (turns @ [t]))"
      using snoc.prems(1) slice by (auto simp: spans_append)
    then show ?thesis
      using True t by (intro exI [of _ "turns @ [t]"] exI [of _ "[]"]) (simp add: cost_def word_less_nat_alt)
  next
    case False
    then have le: "unat ?c \<le> unat remaining" by (simp add: word_less_nat_alt)
    then have rem: "unat (remaining - ?c) = unat remaining - cost est t" by (simp add: unat_sub word_le_nat_alt t)
    have sp: "unat (spent + ?c) = unat spent + cost est t"
      using snoc.prems(3) le by (subst unat_add_in_range) (auto simp: t)
    have "keep_turns est (orphans @ concat turns @ (t @ newer)) (rev (spans (length orphans) turns))
        (remaining - ?c, spent + ?c, length (orphans @ concat turns)) = (remaining', spent', keep_from)"
      using snoc.prems(1) slice False by (simp add: spans_append Let_def)
    from snoc.IH [OF this] snoc.prems(2,3) le rem sp t obtain dropped kept
      where d: "turns = dropped @ kept" "keep_from = length (orphans @ concat dropped)"
        "unat spent' = unat spent + cost est t + cost est (concat kept)"
        "cost est (concat kept) \<le> unat remaining - cost est t"
        "dropped \<noteq> [] \<longrightarrow> unat remaining - cost est t < cost est (last dropped @ concat kept)"
      by auto
    then show ?thesis
      using le t by (intro exI [of _ dropped] exI [of _ "kept @ [t]"]) auto
  qed
qed

section \<open>Images\<close>

definition attachments_of :: "'d Message \<Rightarrow> Attachment list" where
  "attachments_of m = (case ct_attachments (mg_content m) of None \<Rightarrow> [] | Some as \<Rightarrow> as)"

definition images :: "Attachment list \<Rightarrow> Attachment list" where
  "images as = filter (\<lambda>a. att_type a = ImageAttachment) as"

definition image_number :: "'d Message \<Rightarrow> nat" where
  "image_number m = length (images (attachments_of m))"

definition image_count :: "'d Message list \<Rightarrow> nat" where
  "image_count ms = sum_list (map image_number ms)"

text \<open>The first \<open>n\<close> images stay, and everything that is not an image.\<close>

fun keep_images :: "nat \<Rightarrow> Attachment list \<Rightarrow> Attachment list" where
  "keep_images n [] = []"
| "keep_images n (a # as) =
     (if att_type a \<noteq> ImageAttachment then a # keep_images n as
      else if n = 0 then keep_images 0 as else a # keep_images (n - 1) as)"

text \<open>A message with at most \<open>n\<close> images; the others are lines at the end of its text.\<close>

definition capped :: "nat \<Rightarrow> 'd Message \<Rightarrow> 'd Message" where
  "capped n m =
     (case ct_attachments (mg_content m) of
        None \<Rightarrow> m
      | Some as \<Rightarrow> m\<lparr>mg_content := (mg_content m)
          \<lparr>ct_attachments := (if keep_images n as = [] then None else Some (keep_images n as)),
           ct_text := ct_text (mg_content m)
             @ concat (map (\<lambda>a. CHR 0x0A # image_note a) (drop n (images as)))\<rparr>\<rparr>)"

text \<open>Every message gets what the newer ones leave of the limit.\<close>

fun newest_images :: "'d Message list \<Rightarrow> 'd Message list" where
  "newest_images [] = []"
| "newest_images (m # ms) = capped (MAX_CONTEXT_IMAGES - image_count ms) m # newest_images ms"

lemma cap_attachments_keep:
  "cap_attachments kept as =
     (kept + min (MAX_CONTEXT_IMAGES - kept) (length (images as)),
      keep_images (MAX_CONTEXT_IMAGES - kept) as,
      map image_note (drop (MAX_CONTEXT_IMAGES - kept) (images as)))"
proof (induction as arbitrary: kept)
  case (Cons a as)
  show ?case
  proof (cases "att_type a = ImageAttachment \<and> kept < MAX_CONTEXT_IMAGES")
    case True
    then obtain n where "MAX_CONTEXT_IMAGES - kept = Suc n" "MAX_CONTEXT_IMAGES - Suc kept = n"
      by (metis Suc_diff_Suc)
    with True Cons [of "Suc kept"] show ?thesis by (simp add: images_def)
  qed (use Cons [of kept] in \<open>auto simp: images_def\<close>)
qed (simp add: images_def)

lemma fold_notes: "fold (\<lambda>note text. text @ CHR 0x0A # note) ns t = t @ concat (map (\<lambda>n. CHR 0x0A # n) ns)"
  by (induction ns arbitrary: t) auto

lemma cap_message_capped:
  "cap_message kept m = (kept + min (MAX_CONTEXT_IMAGES - kept) (image_number m), capped (MAX_CONTEXT_IMAGES - kept) m)"
  by (simp add: cap_message_def capped_def cap_attachments_keep fold_notes comp_def image_number_def
      attachments_of_def images_def split: option.split)

lemma image_count_Cons [simp]: "image_count (m # ms) = image_number m + image_count ms"
  by (simp add: image_count_def)

lemma image_count_Nil [simp]: "image_count [] = 0"
  by (simp add: image_count_def)

lemma cap_loop_append:
  "cap_loop kept (xs @ ys) =
     cap_loop kept xs @ cap_loop (kept + min (MAX_CONTEXT_IMAGES - kept) (image_count xs)) ys"
proof (induction xs arbitrary: kept)
  case (Cons x xs)
  have "kept + min (MAX_CONTEXT_IMAGES - kept) (image_number x)
      + min (MAX_CONTEXT_IMAGES - (kept + min (MAX_CONTEXT_IMAGES - kept) (image_number x))) (image_count xs)
    = kept + min (MAX_CONTEXT_IMAGES - kept) (image_count (x # xs))" by simp
  with Cons show ?case by (simp only: append_Cons cap_loop.simps cap_message_capped prod.case)
qed simp

lemma image_count_rev [simp]: "image_count (rev ms) = image_count ms"
  by (simp add: image_count_def rev_map [symmetric])

lemma cap_images_newest: "cap_images ms = newest_images ms"
proof (induction ms)
  case (Cons m ms)
  have "MAX_CONTEXT_IMAGES - min MAX_CONTEXT_IMAGES (image_count ms) = MAX_CONTEXT_IMAGES - image_count ms" by simp
  with Cons show ?case by (simp add: cap_images_def cap_loop_append cap_message_capped)
qed (simp add: cap_images_def)

lemma images_keep_images: "images (keep_images n as) = take n (images as)"
  by (induction n as rule: keep_images.induct) (auto simp: images_def take_Cons')

lemma image_number_capped: "image_number (capped n m) = min n (image_number m)"
proof (cases "ct_attachments (mg_content m)")
  case (Some as)
  have "attachments_of (capped n m) = keep_images n as" using Some by (simp add: capped_def attachments_of_def)
  then show ?thesis using Some images_keep_images [of n as] by (simp add: image_number_def attachments_of_def)
qed (simp add: image_number_def capped_def attachments_of_def images_def)

lemma image_count_newest: "image_count (newest_images ms) = min MAX_CONTEXT_IMAGES (image_count ms)"
  by (induction ms) (auto simp: image_number_capped)

lemma newest_images_same:
  "length (newest_images ms) = length ms \<and> map mg_id (newest_images ms) = map mg_id ms
     \<and> map mg_role (newest_images ms) = map mg_role ms"
  by (induction ms) (auto simp: capped_def split: option.split)

section \<open>The selection\<close>

lemma cost_turn_le: "t \<in> set turns \<Longrightarrow> cost est t \<le> cost est (concat turns)"
  by (induction turns) (auto simp: trans_le_add2)

text \<open>
  The loop of \<open>select_context\<close> over the candidates, as a choice among their turns.
\<close>

lemma keep_turns_candidates:
  assumes "split_turns candidates = (orphans, turns)" and "cost est candidates < 2 ^ 64"
    and "keep_turns est candidates (newest_turns candidates) (room, 0, length candidates) = (remaining, spent, keep_from)"
  shows "\<exists>dropped kept. turns = dropped @ kept \<and> keep_from = length (orphans @ concat dropped)
    \<and> unat spent = cost est (concat kept) \<and> cost est (concat kept) \<le> unat room
    \<and> (dropped \<noteq> [] \<longrightarrow> unat room < cost est (last dropped @ concat kept))"
proof -
  have c: "candidates = orphans @ concat turns" using split_turns_parts [OF assms(1)] by simp
  have "\<forall>t \<in> set turns. cost est t < 2 ^ 64"
    using assms(2) cost_turn_le [of _ turns est] by (fastforce simp: c)
  moreover have "unat (0 :: u64) + unat room < 2 ^ 64" using unsigned_less [of room] by simp
  moreover have "keep_turns est (orphans @ concat turns @ []) (rev (spans (length orphans) turns))
      (room, 0, length (orphans @ concat turns)) = (remaining, spent, keep_from)"
    using assms(3) newest_turns_spans [OF assms(1)] c by simp
  ultimately show ?thesis using keep_turns_greedy [of est orphans turns "[]" room 0] by simp
qed

text \<open>\<^bold>\<open>C32.\<close> 
  A selection splits the history into the messages that the summary covers, messages of a turn whose
  start is gone, dropped turns and kept turns. No turn is cut. What is sent are the kept turns, with
  the newest four images as images and a line of text for every older one; their estimate and the
  summary's are within the budget, unless the summary alone exceeds it, and one more turn would not
  fit. The reported numbers are exact. The estimates of the candidates must not exceed \<open>u64\<close> in sum.
\<close>

theorem select_context_spec:
  assumes "cost est (drop (covered_messages history summary) history) < 2 ^ 64"
  shows "\<exists>orphans dropped kept.
    history = take (covered_messages history summary) history @ orphans @ concat dropped @ concat kept
    \<and> list_all (\<lambda>m. mg_role m \<noteq> RoleUser) orphans \<and> list_all is_turn (dropped @ kept)
    \<and> sel_messages (select_context history summary budget est) = newest_images (concat kept)
    \<and> image_count (sel_messages (select_context history summary budget est)) \<le> MAX_CONTEXT_IMAGES
    \<and> sel_dropped (select_context history summary budget est) = concat dropped
    \<and> sel_summarized (select_context history summary budget est) = covered_messages history summary
    \<and> unat (sel_estimated_tokens (select_context history summary budget est))
        = unat (summary_cost est summary) + cost est (concat kept)
    \<and> cost est (concat kept) \<le> unat budget - unat (summary_cost est summary)
    \<and> (dropped \<noteq> [] \<longrightarrow> unat budget - unat (summary_cost est summary) < cost est (last dropped @ concat kept))"
proof -
  let ?c = "drop (covered_messages history summary) history" and ?b = "summary_cost est summary"
  obtain orphans turns where st: "split_turns ?c = (orphans, turns)" by fastforce
  note parts = split_turns_parts [OF st]
  obtain remaining spent keep_from where kt: "keep_turns est ?c (newest_turns ?c)
      (saturating_sub budget ?b, 0, length ?c) = (remaining, spent, keep_from)"
    by (metis prod_cases3)
  from keep_turns_candidates [OF st assms kt] obtain dropped kept where d: "turns = dropped @ kept"
    "keep_from = length (orphans @ concat dropped)" "unat spent = cost est (concat kept)"
    "cost est (concat kept) \<le> unat budget - unat (summary_cost est summary)"
    "dropped \<noteq> [] \<longrightarrow> unat budget - unat (summary_cost est summary) < cost est (last dropped @ concat kept)"
    by (auto simp: unat_saturating_sub)
  have "unat budget < 2 ^ 64" "unat ?b < 2 ^ 64" 
    using unsigned_less [of budget, where 'a = nat] unsigned_less [of ?b, where 'a = nat] by simp_all
  then have "unat ?b + unat spent < 2 ^ 64" using d(3,4) by simp
  then have spent: "unat (?b + spent) = unat ?b + cost est (concat kept)" by (simp add: unat_add_in_range d(3))
  have c: "?c = orphans @ concat dropped @ concat kept" using parts d(1) by simp
  then have "history = take (covered_messages history summary) history @ orphans @ concat dropped @ concat kept"
    by (metis append_take_drop_id)
  moreover have "select_context history summary budget est =
    \<lparr>sel_messages = newest_images (concat kept), sel_dropped = concat dropped,
     sel_summarized = covered_messages history summary, sel_estimated_tokens = ?b + spent\<rparr>"
  proof (cases turns)
    case Nil
    then have "spent = 0" using kt newest_turns_spans [OF st] by simp
    then show ?thesis using Nil d(1) turn_starts_spans [OF st] by (simp add: select_context_def Let_def)
  next
    case (Cons t ts)
    then have "\<exists>r. turn_starts ?c = length orphans # r" using turn_starts_spans [OF st] by simp
    then show ?thesis using kt d(2) c by (auto simp: select_context_def cap_images_newest Let_def)
  qed
  ultimately show ?thesis using parts d spent
    by (intro exI [of _ orphans] exI [of _ dropped] exI [of _ kept]) (simp add: image_count_newest)
qed

text \<open>A transcript with an orphan and two turns, and the plain estimate.\<close>

definition sample_message :: "string \<Rightarrow> MessageRole \<Rightarrow> Attachment list option \<Rightarrow> unit Message" where
  "sample_message i r as = \<lparr>mg_id = i, mg_agent_id = ''a'', mg_room_id = ''r'',
     mg_content = \<lparr>ct_text = [], ct_attachments = as, ct_metadata = None\<rparr>, mg_role = r, mg_created_at_ms = 1\<rparr>"

definition plain_estimator :: "unit ContextTokenEstimator" where
  "plain_estimator = \<lparr>message_tokens = raw_message_tokens (\<lambda>_. []), text_tokens = (\<lambda>_. 8)\<rparr>"

definition sample_history :: "unit Message list" where
  "sample_history = [sample_message ''t0'' RoleTool None, sample_message ''u1'' RoleUser None,
     sample_message ''a1'' RoleAssistant None, sample_message ''u2'' RoleUser None]"

lemma sample_tokens: "message_tokens plain_estimator (sample_message i r as) = 8"
  by (simp add: plain_estimator_def sample_message_def raw_message_tokens_def ordinary_content_tokens_def
      char_count_def div_ceil_def CHARS_PER_TOKEN_def MESSAGE_OVERHEAD_TOKENS_def)

lemma sample_covered [simp]: "covered_messages history None = 0"
  by (simp add: covered_messages_def)

theorem select_context_spec_witness:
  "\<exists>orphans dropped kept. sample_history = orphans @ concat dropped @ concat kept
    \<and> list_all is_turn (dropped @ kept)
    \<and> sel_messages (select_context sample_history None 20 plain_estimator) = newest_images (concat kept)
    \<and> cost plain_estimator (concat kept) \<le> 20"
proof -
  have "cost plain_estimator (drop (covered_messages sample_history None) sample_history) < 2 ^ 64"
    by (simp add: sample_history_def cost_def sample_tokens)
  from select_context_spec [OF this, of 20] obtain orphans dropped kept
    where "sample_history = orphans @ concat dropped @ concat kept" "list_all is_turn (dropped @ kept)"
      "sel_messages (select_context sample_history None 20 plain_estimator) = newest_images (concat kept)"
      "cost plain_estimator (concat kept) \<le> unat (20 :: u64) - unat (summary_cost plain_estimator None)"
    by auto
  then show ?thesis by (intro exI [of _ orphans] exI [of _ dropped] exI [of _ kept]) (simp add: summary_cost_def)
qed

section \<open>The estimate of images that become text\<close>

definition sample_image :: Attachment where
  "sample_image = \<lparr>att_type = ImageAttachment, att_name = ''i.png'', att_data = ''uploads/i.png'', att_mime_type = None\<rparr>"

definition image_history :: "unit Message list" where
  "image_history = [sample_message ''u1'' RoleUser (Some (replicate 5 sample_image))]"

lemma image_turns: "newest_turns image_history = [(0, 1)]" "turn_starts image_history = [0]"
  by (simp_all add: newest_turns_def turn_starts_def image_history_def sample_message_def)

lemma image_selected: "select_context image_history None 8 plain_estimator =
  \<lparr>sel_messages = newest_images image_history, sel_dropped = [], sel_summarized = 0, sel_estimated_tokens = 8\<rparr>"
proof -
  have "turn_cost plain_estimator image_history = 8" by (simp add: turn_cost_def image_history_def sample_tokens)
  moreover have "length image_history = 1" by (simp add: image_history_def)
  ultimately show ?thesis
    by (simp add: select_context_def covered_messages_def summary_cost_def image_turns saturating_sub_def
        cap_images_newest Let_def)
qed

text \<open>
  The estimate of a selection counts the messages before older images become text, so it is not the
  estimate of the messages that are sent: one message with five small images fits a budget of 8 tokens
  and is sent as a message of 16.
\<close>

theorem window_estimate_excludes_notes:
  "sel_estimated_tokens (select_context image_history None 8 plain_estimator) = 8
   \<and> turn_cost plain_estimator (sel_messages (select_context image_history None 8 plain_estimator)) = 16"
proof -
  have "ct_text (mg_content (hd (newest_images image_history))) = CHR 0x0A # ''[image: i.png (uploads/i.png)]''"
    by (simp add: image_history_def sample_message_def capped_def images_def sample_image_def image_note_def
        MAX_CONTEXT_IMAGES_def numeral_eq_Suc)
  moreover have "char_count (CHR 0x0A # ''[image: i.png (uploads/i.png)]'') = 31" by code_simp
  moreover have "ct_metadata (mg_content (hd (newest_images image_history))) = None"
    by (simp add: image_history_def sample_message_def capped_def)
  ultimately have "turn_cost plain_estimator [hd (newest_images image_history)] = 16"
    by (simp add: turn_cost_def plain_estimator_def raw_message_tokens_def ordinary_content_tokens_def
        div_ceil_def CHARS_PER_TOKEN_def MESSAGE_OVERHEAD_TOKENS_def del: newest_images.simps)
  moreover have "newest_images image_history = [hd (newest_images image_history)]" by (simp add: image_history_def)
  ultimately show ?thesis by (simp add: image_selected)
qed

end
