(* ===== verification/Spec2Isabelle.thy ===== *)
theory Spec2Isabelle
  imports Lineage Store_Owners Paging_Facts Template_Facts Schedule_Facts Tasks_Facts Intents_Facts Limits_Facts
    Completion_Facts Context_Facts
begin

text \<open>
  A verification library for the durable core of animaOS: the crate \<open>anima-core\<close> under
  \<open>src/packages/core-rust/crates/anima-core/src\<close> and the scheduler \<open>anima-schedule\<close>.

  \<^bold>\<open>The program.\<close> Agents run for a long time, crash, are retried and act for an owner. The core keeps
  what must survive: which capabilities exist (\<open>capability.rs\<close>), what the owner's policy allows
  (\<open>policy.rs\<close>), where a run is (\<open>execution/state.rs\<close>), what it has done (\<open>execution/checkpoint.rs\<close>,
  \<open>execution/event.rs\<close>), and a store through which every change goes (\<open>execution/store.rs\<close>,
  \<open>execution/memory_store.rs\<close>). A client reads a run, takes a lease, and commits a change against the
  version it has read; the store checks lease, version, policy, grants and history, applies the change
  in one step and remembers the answer. Beside the store stand values that hosts save as they are:
  workflows and their templates, task lists, standing intentions, the accounting of a run and its
  helpers, and the scheduler's state. Around a model call, the context window chooses what is sent and
  the completion review decides whether an answer may end the run.

  \<^bold>\<open>Conventions.\<close> \<open>u32\<close> and \<open>u64\<close> are words with the checked, saturating or wrapping operation of the
  code; \<open>i64\<close> times are integers with the range written out; lengths are naturals. A \<open>String\<close> is its
  UTF-8 bytes. \<open>Result\<close> is a sum with \<open>Err\<close> on the left and \<open>?\<close> is \<^const>\<open>try_then\<close>; an \<open>expect\<close>,
  \<open>unwrap\<close> or index that can panic yields \<open>Panicked\<close>. A \<open>BTreeMap\<close> is a function where only looked
  up and a list with rising keys where the code iterates over it or counts it. A \<open>Mutex\<close> makes an
  operation atomic, so an operation is a function from state to answer and state, and concurrency is
  the order of such steps. Loops are structural or have a measure, so every operation is total; the
  only fuel is that of the client's loop over pages in \<open>Paging_Facts\<close>, for which one more than the
  number of events is enough. Clocks and fresh identifiers are arguments.

  \<^bold>\<open>Parameters.\<close> Code outside the repository is an argument: SHA-256, canonical JSON and JSON sizes
  (records such as \<open>capability_lib\<close> and \<open>store_lib\<close>), \<open>Uuid::new_v4\<close>, and the Unicode tables for
  lower case and letters. Theorems that need a law of a parameter name it as a hypothesis, such as the
  length of a digest, and have a closed instance with a concrete function.

  \<^bold>\<open>Theories.\<close>
  \<^item> \<open>Anima_Prelude\<close>, \<open>Ordered_Map\<close>, \<open>Text\<close>, \<open>Primitives\<close>: the vocabulary above, with the locales \<open>separating_key\<close>
    (a key that makes a choice independent of order) and \<open>wire_format\<close> (what is written can be read).
  \<^item> \<open>Step_System\<close>: the locales \<open>step_invariant\<close>, \<open>guarded_system\<close> and \<open>retry_safe\<close>, the contract of an
    operation that a client may repeat. The components below interpret them on their own steps.
  \<^item> \<open>Capability\<close>, \<open>Lineage\<close> (\<open>capability.rs\<close>, \<open>capability/manifest.rs\<close>, \<open>invocation.rs\<close>, \<open>lineage.rs\<close>):
    manifests, catalogs, invocations; leases of attempts behind the locale \<open>lineage_store\<close>. A fence
    that was lost is never valid again, however the clock is set.
  \<^item> \<open>Policy\<close> (\<open>policy.rs\<close>): contexts, grants, approvals and the engine. What an allowed action rests on,
    that the engine never panics, that the order of grants does not matter.
  \<^item> \<open>Budget\<close>, \<open>Recovery\<close>, \<open>Run_State\<close> (\<open>execution/state.rs\<close>): budgets over the naturals; the run
    state machine with its approval and recovery gates; receipts.
  \<^item> \<open>Checkpoint\<close>, \<open>Event\<close> (\<open>execution/checkpoint.rs\<close>, \<open>event.rs\<close>): a valid checkpoint accounts for
    every attempt once; what compatibility with a definition means.
  \<^item> \<open>Store\<close>, \<open>Memory_Store\<close>, \<open>Commit_Facts\<close>, \<open>Store_Steps\<close>, \<open>Store_Example\<close>: the vocabulary of the
    store, its state and operations, what a commit went through, the calls as steps with an invariant,
    and a history evaluated step by step.
  \<^item> \<open>Store_Refinement\<close>, \<open>Store_History\<close>, \<open>Store_Authority\<close>, \<open>Store_Owners\<close>: the store refines a
    specification of runs and sessions without versions, leases and indexes; histories only grow and
    answers are repeated; dispatch needs the store's policy and a counted grant is never overspent;
    owners do not see each other.
  \<^item> \<open>Paging\<close>, \<open>Paging_Facts\<close>: cursors are authentic and reading page by page returns one snapshot.
  \<^item> \<open>Workflow\<close>, \<open>Workflow_Replay\<close>, \<open>Workflow_Exact\<close>, \<open>Workflow_Facts\<close> (\<open>workflows.rs\<close>): the check of a
    saved run, a search over histories, accepts exactly the runs that calls produce.
  \<^item> \<open>Workflow_Template\<close>, \<open>Template_Facts\<close> (\<open>workflow_templates.rs\<close>): the same for templates, and what
    a run made from a template is.
  \<^item> \<open>Tasks\<close>, \<open>Tasks_Facts\<close> (\<open>structured_tasks.rs\<close>): parent links form a forest; what a merge changes.
  \<^item> \<open>Intents\<close>, \<open>Intents_Inv\<close>, \<open>Intents_Facts\<close> (\<open>standing_intents.rs\<close>): a turn fires once, fires are never
    forgotten, superseded edits stay superseded, the owner can always cancel and undo; where keywords match.
  \<^item> \<open>Limits\<close>, \<open>Limits_Charge\<close>, \<open>Limits_Steps\<close>, \<open>Limits_Facts\<close> (\<open>execution_limits.rs\<close>): every grant is
    covered by the limits, settlements can be repeated, evidence of usage is never erased.
  \<^item> \<open>Completion\<close>, \<open>Completion_Steps\<close>, \<open>Completion_Facts\<close> (\<open>completion.rs\<close>): the review before a final
    answer. Calls are steps with a log; an answer is accepted only on evidence newer than every change.
  \<^item> \<open>Context_Window\<close>, \<open>Context_Facts\<close> (\<open>context_window.rs\<close>): the newest whole turns within a budget of
    estimated tokens, for estimates whose sum is below \<open>2^64\<close>, and the newest images.
  \<^item> \<open>Schedule\<close>, \<open>Schedule_Facts\<close> (\<open>anima-schedule/src/lib.rs\<close>): exact sleep hints, one fire per local
    day, intervals kept, for clocks below \<open>2^62\<close> milliseconds where the code's \<open>i64\<close> sums are exact.

  \<^bold>\<open>Flaws.\<close> Some theorems state behaviour that the code or its documentation does not intend: a stricter
  minimum risk can turn a required approval into a permission (\<open>minimum_risk_not_monotone\<close>), bindings of
  blank identifiers cannot be read back (\<open>invocation_binding_reloads_iff\<close>), an attempt listed twice keeps
  its old fingerprint (\<open>repeated_attempt_keeps_old_fingerprint\<close>), accepted events that cannot be replayed
  (\<open>accepted_events_not_replayable\<close>), a keyword hidden by an overlapping match
  (\<open>keyword_overlap_missed\<close>), a known usage whose total blocks a scope (\<open>total_mismatch_blocks\<close>), and an
  estimate that leaves out what images become (\<open>window_estimate_excludes_notes\<close>).

  \<^bold>\<open>Not modelled.\<close> Of the store, its conformance suite, snapshots on disk and projections for display.
  The asynchronous engine, runtime, registry and swarm, which call the operations above; permits and
  cancellation around the accounting; the floating-point calibration of token estimates, the pruning of
  tool output, heuristics over text and evaluation; memory retrieval, which ranks by floating-point scores; file, network and process
  adapters; the daemon and desktop hosts and the TypeScript clients.
\<close>

end
